(* ===== verification/Prelude.thy ===== *)
theory Prelude
  imports Main "HOL-Library.List_Lexorder" "HOL-Library.Char_ord"
    "HOL-Library.Product_Lexorder" "HOL-Library.Word" "HOL-Library.Multiset" "HOL-Library.AList"
begin

text \<open>
  What every component shares: Go strings (byte strings, compared bytewise), Go maps whose values
  are slices or maps, and the order-preserving union the selectors use.

  A Go map that the code ranges over is an association list: its order stands for the unspecified
  iteration order, so a theorem about every association list is a theorem about every order. A
  missing key reads as the nil slice, which is the empty list.
\<close>

named_theorems go_simps \<open>characteristic equations of the Go data operations\<close>

type_synonym gostring = string

text \<open>\<open>if P { return true }\<close> before the rest.\<close>

lemma return_True: "(if P then True else Q) \<longleftrightarrow> P \<or> Q"
  by simp

section \<open>Strings\<close>

text \<open>\<open>strings.Cut\<close> and \<open>strings.SplitN\<close> with limit 2, at one separator byte.\<close>

fun cutAt :: "char \<Rightarrow> gostring \<Rightarrow> (gostring \<times> gostring) option" where
  "cutAt c [] = None"
| "cutAt c (x # xs) =
     (if x = c then Some ([], xs)
      else map_option (\<lambda>(a, b). (x # a, b)) (cutAt c xs))"

lemma cutAt_Some: "cutAt c s = Some (a, b) \<Longrightarrow> s = a @ c # b \<and> c \<notin> set a"
  by (induction s arbitrary: a b) (auto split: if_splits)

lemma cutAt_append: "c \<notin> set a \<Longrightarrow> cutAt c (a @ c # b) = Some (a, b)"
  by (induction a) auto

lemma cutAt_None: "cutAt c s = None \<longleftrightarrow> c \<notin> set s"
  by (induction s) auto

lemma split_at_sep:
  fixes c :: char
  assumes "c \<notin> set a" "c \<notin> set b" "a @ c # x = b @ c # y"
  shows "a = b \<and> x = y"
proof -
  have "Some (a, x) = Some (b, y)"
    using cutAt_append [OF assms(1), of x] cutAt_append [OF assms(2), of y] assms(3) by metis
  then show ?thesis by simp
qed

text \<open>\<open>strings.CutPrefix\<close>.\<close>

fun cutPrefix :: "gostring \<Rightarrow> gostring \<Rightarrow> gostring option" where
  "cutPrefix [] s = Some s"
| "cutPrefix (p # ps) [] = None"
| "cutPrefix (p # ps) (x # xs) = (if p = x then cutPrefix ps xs else None)"

lemma cutPrefix_Some: "cutPrefix p s = Some r \<longleftrightarrow> s = p @ r"
  by (induction p s rule: cutPrefix.induct) auto

lemma cutPrefix_append [simp]: "cutPrefix p (p @ r) = Some r"
  by (simp add: cutPrefix_Some)

text \<open>A literal prefix is not unrolled byte by byte.\<close>

declare cutPrefix.simps [simp del]

section \<open>Maps of slices\<close>

definition alookup :: "('k \<times> 'v list) list \<Rightarrow> 'k \<Rightarrow> 'v list" where
  "alookup m k = (case map_of m k of None \<Rightarrow> [] | Some l \<Rightarrow> l)"

text \<open>\<open>m[k] = append(m[k], x)\<close>.\<close>

fun aappend :: "('k \<times> 'v list) list \<Rightarrow> 'k \<Rightarrow> 'v list \<Rightarrow> ('k \<times> 'v list) list" where
  "aappend [] k xs = [(k, xs)]"
| "aappend ((k', l) # m) k xs =
     (if k' = k then (k', l @ xs) # m else (k', l) # aappend m k xs)"

text \<open>\<open>m[k] = v\<close> on a map whose values are maps: the code writes back the inner map it grew.\<close>

fun aput :: "('k \<times> 'v) list \<Rightarrow> 'k \<Rightarrow> 'v \<Rightarrow> ('k \<times> 'v) list" where
  "aput [] k v = [(k, v)]"
| "aput ((k', l) # m) k v = (if k' = k then (k', v) # m else (k', l) # aput m k v)"

definition aappend2 ::
  "('n \<times> ('k \<times> 'v list) list) list \<Rightarrow> 'n \<Rightarrow> 'k \<Rightarrow> 'v \<Rightarrow> ('n \<times> ('k \<times> 'v list) list) list" where
  "aappend2 m n k x = aput m n (aappend (alookup m n) k [x])"

lemma alookup_Nil [simp, go_simps]: "alookup [] k = []"
  by (simp add: alookup_def)

lemma alookup_aappend [simp, go_simps]:
  "alookup (aappend m k xs) k' = (if k = k' then alookup m k @ xs else alookup m k')"
  by (induction m k xs rule: aappend.induct) (auto simp: alookup_def)

lemma map_of_aput [simp]: "map_of (aput m k v) k' = (if k = k' then Some v else map_of m k')"
  by (induction m k v rule: aput.induct) auto

lemma keys_aput [simp]: "fst ` set (aput m k v) = insert k (fst ` set m)"
  by (induction m k v rule: aput.induct) (auto simp: image_iff)

lemma distinct_keys_aput [simp]: "distinct (map fst m) \<Longrightarrow> distinct (map fst (aput m k v))"
proof (induction m k v rule: aput.induct)
  case (2 k' l m k v)
  then show ?case using keys_aput [of m k v] by (auto simp flip: set_map)
qed simp

lemma length_aput [simp]: "length (aput m k v) = (if map_of m k = None then Suc (length m) else length m)"
  by (induction m k v rule: aput.induct) auto

lemma alookup_aput [simp, go_simps]:
  "alookup (aput m k v) k' = (if k = k' then v else alookup m k')"
  by (simp add: alookup_def)

lemma alookup_aappend2 [simp, go_simps]:
  "alookup (alookup (aappend2 m n k x) n') k' =
     (if n = n' \<and> k = k' then alookup (alookup m n) k @ [x] else alookup (alookup m n') k')"
  by (simp add: aappend2_def)

lemma keys_aappend [simp]: "fst ` set (aappend m k xs) = insert k (fst ` set m)"
  by (induction m k xs rule: aappend.induct) (auto simp: image_iff)

lemma distinct_keys_aappend [simp]:
  "distinct (map fst m) \<Longrightarrow> distinct (map fst (aappend m k xs))"
proof (induction m k xs rule: aappend.induct)
  case (2 k' l m k xs)
  then show ?case using keys_aappend [of m k xs] by (auto simp flip: set_map)
qed simp

lemma alookup_in_set:
  "x \<in> set (alookup m k) \<Longrightarrow> \<exists>l. (k, l) \<in> set m \<and> x \<in> set l"
  by (auto simp: alookup_def split: option.splits) (metis map_of_SomeD)

lemma alookup_eq:
  "distinct (map fst m) \<Longrightarrow> (k, l) \<in> set m \<Longrightarrow> alookup m k = l"
  by (simp add: alookup_def)

section \<open>Sums over a map\<close>

definition sumValues :: "('v \<Rightarrow> int) \<Rightarrow> ('k \<times> 'v) list \<Rightarrow> int" where
  "sumValues f m = sum_list (map (\<lambda>(k, v). f v) m)"

lemma sumValues_Nil [simp]: "sumValues f [] = 0"
  by (simp add: sumValues_def)

lemma sumValues_aput [simp]:
  "sumValues f (aput m k v) = sumValues f m - (case map_of m k of None \<Rightarrow> 0 | Some u \<Rightarrow> f u) + f v"
  by (induction m k v rule: aput.induct) (auto simp: sumValues_def)

lemma sumValues_delete:
  "distinct (map fst m) \<Longrightarrow>
   sumValues f (AList.delete k m) = sumValues f m - (case map_of m k of None \<Rightarrow> 0 | Some u \<Rightarrow> f u)"
proof (induction m)
  case (Cons p m)
  then have "AList.delete k m = m" if "fst p = k" using that by (auto simp: delete_id)
  then show ?case using Cons by (cases p) (auto simp: sumValues_def)
qed simp

lemma length_delete_key:
  "distinct (map fst m) \<Longrightarrow>
   int (length (AList.delete k m)) = int (length m) - (if map_of m k = None then 0 else 1)"
proof (induction m)
  case (Cons p m)
  then have "AList.delete k m = m" if "fst p = k" using that by (auto simp: delete_id)
  then show ?case using Cons by (cases p) auto
qed simp

lemma aput_aput [simp]: "aput (aput m k v) k w = aput m k w"
  by (induction m k v rule: aput.induct) auto

lemma aput_same: "map_of m k = Some v \<Longrightarrow> aput m k v = m"
  by (induction m k v rule: aput.induct) (auto split: if_splits)

lemma delete_aput_new: "map_of m k = None \<Longrightarrow> AList.delete k (aput m k v) = m"
  by (induction m k v rule: aput.induct) (auto split: if_splits simp: delete_id)

section \<open>Union without duplicates\<close>

text \<open>
  The selectors' \<open>add\<close> closure: append each element not seen yet, so the first occurrence
  keeps its place.
\<close>

fun addNew :: "'a list \<Rightarrow> 'a list \<Rightarrow> 'a list" where
  "addNew out [] = out"
| "addNew out (x # xs) = addNew (if x \<in> set out then out else out @ [x]) xs"

lemma set_addNew [simp, go_simps]: "set (addNew out xs) = set out \<union> set xs"
  by (induction xs arbitrary: out) auto

lemma distinct_addNew [simp]: "distinct out \<Longrightarrow> distinct (addNew out xs)"
  by (induction xs arbitrary: out) auto

lemma set_foldl_addNew [simp, go_simps]:
  "set (foldl (\<lambda>out g. addNew out (f g)) out gs) = set out \<union> (\<Union>g\<in>set gs. set (f g))"
  by (induction gs arbitrary: out) auto

lemma distinct_foldl_addNew [simp]:
  "distinct out \<Longrightarrow> distinct (foldl (\<lambda>out g. addNew out (f g)) out gs)"
  by (induction gs arbitrary: out) auto

section \<open>Search\<close>

lemma find_SomeD: "find P xs = Some x \<Longrightarrow> x \<in> set xs \<and> P x"
  by (induction xs) (auto split: if_splits)

section \<open>Sorting\<close>

text \<open>
  A stable sort by a key that no two elements share depends on the set of elements only.
\<close>

lemma sort_key_distinct_eq:
  assumes "inj_on f (set xs)" "distinct xs" "distinct ys" "set xs = set ys"
  shows "sort_key f xs = sort_key f ys"
proof (rule map_sorted_distinct_set_unique [where f = f])
  show "inj_on f (set (sort_key f xs) \<union> set (sort_key f ys))" using assms by simp
  show "sorted (map f (sort_key f xs))" "sorted (map f (sort_key f ys))" by simp_all
  show "distinct (map f (sort_key f xs))" "distinct (map f (sort_key f ys))"
    using assms by (simp_all add: distinct_map)
  show "set (sort_key f xs) = set (sort_key f ys)" using assms by simp
qed

lemma sort_eq_iff_mset: "sort xs = sort ys \<longleftrightarrow> mset xs = mset ys"
  by (metis mset_sort properties_for_sort sorted_sort)

end
