(* ===== verification/RBACTypes.thy ===== *)
theory RBACTypes
  imports Prelude
begin

text \<open>
  The RBAC data of \<open>k8s.io/api/rbac/v1\<close> the source reads, and the requests it decides:
  subjects, role references, policy rules, the two binding kinds, the two role kinds, the
  evaluator's \<open>EvaluateOptions\<close> (rbac/evaluate.go), the published \<open>RBACSnapshot\<close>
  (cache/rbac_snapshot.go), and the identity of a binding (cache/match_subject.go).

  A binding is handled by pointer in the source. Its record carries the pointer's address, so
  equality of records is equality of pointers, and a nil pointer in a slice is \<open>None\<close>.
\<close>

section \<open>Objects\<close>

record Subject =
  sub_kind :: gostring
  sub_name :: gostring
  sub_ns :: gostring

record RoleRef =
  ref_apigroup :: gostring
  ref_kind :: gostring
  ref_name :: gostring

record PolicyRule =
  rule_verbs :: "gostring list"
  rule_apigroups :: "gostring list"
  rule_resources :: "gostring list"
  rule_resourcenames :: "gostring list"
  rule_nonresourceurls :: "gostring list"

record ClusterRoleBinding =
  crb_addr :: nat
  crb_name :: gostring
  crb_uid :: gostring
  crb_rv :: gostring
  crb_subjects :: "Subject list"
  crb_roleref :: RoleRef

record RoleBinding =
  rb_addr :: nat
  rb_ns :: gostring
  rb_name :: gostring
  rb_uid :: gostring
  rb_rv :: gostring
  rb_subjects :: "Subject list"
  rb_roleref :: RoleRef

record ClusterRole =
  cr_name :: gostring
  cr_rv :: gostring
  cr_rules :: "PolicyRule list"

record Role =
  role_ns :: gostring
  role_name :: gostring
  role_rv :: gostring
  role_rules :: "PolicyRule list"

text \<open>The \<open>rbacv1\<close> subject kinds.\<close>

definition UserKind :: gostring where "UserKind = ''User''"
definition GroupKind :: gostring where "GroupKind = ''Group''"
definition ServiceAccountKind :: gostring where "ServiceAccountKind = ''ServiceAccount''"

lemmas kind_defs = UserKind_def GroupKind_def ServiceAccountKind_def

lemma kinds_differ [simp]:
  "UserKind \<noteq> GroupKind" "GroupKind \<noteq> UserKind" "UserKind \<noteq> ServiceAccountKind"
  "ServiceAccountKind \<noteq> UserKind" "GroupKind \<noteq> ServiceAccountKind" "ServiceAccountKind \<noteq> GroupKind"
  by (simp_all add: kind_defs)

section \<open>Requests and answers\<close>

datatype WinningSubjectClass = SubjectClassRegular | SubjectClassImplicitGroup

record EvaluateOptions =
  opt_username :: gostring
  opt_groups :: "gostring list"
  opt_verb :: gostring
  opt_group :: gostring
  opt_resource :: gostring
  opt_namespace :: gostring
  opt_name :: gostring
  opt_skipuid :: bool

definition noOptions :: EvaluateOptions where
  "noOptions = \<lparr>opt_username = [], opt_groups = [], opt_verb = [], opt_group = [],
     opt_resource = [], opt_namespace = [], opt_name = [], opt_skipuid = False\<rparr>"

text \<open>The record's identity part, as \<open>EvaluateOptions{Username: u, Groups: gs}\<close> writes it.\<close>

definition identityOnly :: "gostring \<Rightarrow> gostring list \<Rightarrow> EvaluateOptions" where
  "identityOnly u gs = noOptions\<lparr>opt_username := u, opt_groups := gs\<rparr>"

section \<open>The snapshot\<close>

type_synonym crb_index = "(gostring \<times> ClusterRoleBinding list) list"
type_synonym rb_index = "(gostring \<times> RoleBinding list) list"

record RBACSnapshot =
  PublishSeq :: "64 word"
  Synced :: bool
  ClusterRoleBindings :: "ClusterRoleBinding option list"
  RoleBindingsByNS :: "(gostring \<times> RoleBinding option list) list"
  ClusterRolesByName :: "gostring \<rightharpoonup> ClusterRole"
  RolesByNSName :: "gostring \<rightharpoonup> Role"
  CRBsByUser :: crb_index
  CRBsByGroup :: crb_index
  CRBsByServiceAccount :: crb_index
  CRBsCatchAll :: "ClusterRoleBinding list"
  RBsByUserByNS :: "(gostring \<times> rb_index) list"
  RBsByGroupByNS :: "(gostring \<times> rb_index) list"
  RBsByServiceAccountByNS :: "(gostring \<times> rb_index) list"
  RBsCatchAllByNS :: rb_index
  RBsByUserAllNS :: rb_index
  RBsByGroupAllNS :: rb_index
  RBsByServiceAccountAllNS :: rb_index
  RBsCatchAllAllNS :: "RoleBinding list"

definition emptySnapshot :: RBACSnapshot where
  "emptySnapshot = \<lparr>PublishSeq = 0, Synced = False, ClusterRoleBindings = [], RoleBindingsByNS = [],
     ClusterRolesByName = Map.empty, RolesByNSName = Map.empty,
     CRBsByUser = [], CRBsByGroup = [], CRBsByServiceAccount = [], CRBsCatchAll = [],
     RBsByUserByNS = [], RBsByGroupByNS = [], RBsByServiceAccountByNS = [], RBsCatchAllByNS = [],
     RBsByUserAllNS = [], RBsByGroupAllNS = [], RBsByServiceAccountAllNS = [], RBsCatchAllAllNS = []\<rparr>"

text \<open>The bindings a snapshot holds, without the nil pointers.\<close>

definition crbsOf :: "RBACSnapshot \<Rightarrow> ClusterRoleBinding list" where
  "crbsOf snap = List.map_filter id (ClusterRoleBindings snap)"

definition rbsIn :: "RBACSnapshot \<Rightarrow> gostring \<Rightarrow> RoleBinding list" where
  "rbsIn snap ns = List.map_filter id (alookup (RoleBindingsByNS snap) ns)"

lemma in_crbsOf [simp]: "b \<in> set (crbsOf snap) \<longleftrightarrow> Some b \<in> set (ClusterRoleBindings snap)"
  by (auto simp: crbsOf_def map_filter_def image_iff)

lemma in_rbsIn [simp]: "b \<in> set (rbsIn snap ns) \<longleftrightarrow> Some b \<in> set (alookup (RoleBindingsByNS snap) ns)"
  by (auto simp: rbsIn_def map_filter_def image_iff)

section \<open>The identity of a binding\<close>

abbreviation unitSep :: gostring where "unitSep \<equiv> [CHR 0x1F]"

definition BindingUIDFromCRB :: "ClusterRoleBinding option \<Rightarrow> gostring" where
  "BindingUIDFromCRB p = (case p of None \<Rightarrow> []
     | Some b \<Rightarrow>
         if crb_uid b \<noteq> [] then ''C:'' @ crb_uid b
         else ''C:fallback/'' @ crb_name b @ unitSep @ ref_apigroup (crb_roleref b) @ ''/''
              @ ref_kind (crb_roleref b) @ ''/'' @ ref_name (crb_roleref b))"

definition BindingUIDFromRB :: "RoleBinding option \<Rightarrow> gostring" where
  "BindingUIDFromRB p = (case p of None \<Rightarrow> []
     | Some b \<Rightarrow>
         if rb_uid b \<noteq> [] then ''R:'' @ rb_ns b @ ''/'' @ rb_uid b
         else ''R:'' @ rb_ns b @ ''/fallback/'' @ rb_name b @ unitSep @ ref_apigroup (rb_roleref b) @ ''/''
              @ ref_kind (rb_roleref b) @ ''/'' @ ref_name (rb_roleref b))"

record SubjectIdentity =
  id_username :: gostring
  id_groups :: "gostring list"

fun pickRepresentativeFromSubjects :: "Subject list \<Rightarrow> SubjectIdentity" where
  "pickRepresentativeFromSubjects [] = \<lparr>id_username = [], id_groups = []\<rparr>"
| "pickRepresentativeFromSubjects (s # ss) =
     (if sub_kind s = UserKind \<and> sub_name s \<noteq> [] then
        \<lparr>id_username = sub_name s, id_groups = []\<rparr>
      else if sub_kind s = GroupKind \<and> sub_name s \<noteq> [] then
        \<lparr>id_username = [], id_groups = [sub_name s]\<rparr>
      else if sub_kind s = ServiceAccountKind \<and> sub_name s \<noteq> [] \<and> sub_ns s \<noteq> [] then
        \<lparr>id_username = ''system:serviceaccount:'' @ sub_ns s @ '':'' @ sub_name s, id_groups = []\<rparr>
      else pickRepresentativeFromSubjects ss)"

lemma BindingUID_kinds_differ [simp]:
  "BindingUIDFromCRB (Some c) \<noteq> BindingUIDFromRB (Some r)"
  "BindingUIDFromCRB (Some c) \<noteq> []" "BindingUIDFromRB (Some r) \<noteq> []"
  by (auto simp: BindingUIDFromCRB_def BindingUIDFromRB_def split: if_splits)

end
