(* ===== verification/RBACMatch.thy ===== *)
theory RBACMatch
  imports RBACTypes
begin

text \<open>
  The matchers of rbac/evaluate.go (policy rules, resource names, subjects, service account
  usernames, the implicit groups) and the two constructors of a check in rbac/object\_check.go.
  The lemmas say what a matcher depends on: the rule matchers on the action only, the subject
  matchers on the identity only, and on the set of its groups rather than their order.
\<close>

named_theorems rbac_match \<open>what the matchers accept\<close>

section \<open>Rules\<close>

definition stringSliceMatches :: "gostring list \<Rightarrow> gostring \<Rightarrow> bool" where
  "stringSliceMatches allowed want \<longleftrightarrow> (\<exists>a\<in>set allowed. a = ''*'' \<or> a = want)"

definition resourceNameMatches :: "PolicyRule \<Rightarrow> EvaluateOptions \<Rightarrow> bool" where
  "resourceNameMatches rule opts \<longleftrightarrow>
     rule_resourcenames rule = [] \<or> opt_name opts \<in> set (rule_resourcenames rule)"

fun rulesPermit :: "PolicyRule list \<Rightarrow> EvaluateOptions \<Rightarrow> bool" where
  "rulesPermit [] opts = False"
| "rulesPermit (rule # rules) opts =
     (if \<not> stringSliceMatches (rule_verbs rule) (opt_verb opts) then rulesPermit rules opts
      else if \<not> stringSliceMatches (rule_apigroups rule) (opt_group opts) then rulesPermit rules opts
      else if \<not> stringSliceMatches (rule_resources rule) (opt_resource opts) then rulesPermit rules opts
      else if \<not> resourceNameMatches rule opts then rulesPermit rules opts
      else True)"

text \<open>One rule, read as the RBAC documentation states it.\<close>

definition ruleAllows :: "PolicyRule \<Rightarrow> EvaluateOptions \<Rightarrow> bool" where
  "ruleAllows rule opts \<longleftrightarrow>
     (''*'' \<in> set (rule_verbs rule) \<or> opt_verb opts \<in> set (rule_verbs rule)) \<and>
     (''*'' \<in> set (rule_apigroups rule) \<or> opt_group opts \<in> set (rule_apigroups rule)) \<and>
     (''*'' \<in> set (rule_resources rule) \<or> opt_resource opts \<in> set (rule_resources rule)) \<and>
     (rule_resourcenames rule = [] \<or> opt_name opts \<in> set (rule_resourcenames rule))"

lemma stringSliceMatches_iff [rbac_match]:
  "stringSliceMatches allowed want \<longleftrightarrow> ''*'' \<in> set allowed \<or> want \<in> set allowed"
  by (auto simp: stringSliceMatches_def)

lemma resourceNameMatches_iff [rbac_match]:
  "resourceNameMatches rule opts \<longleftrightarrow>
     rule_resourcenames rule = [] \<or> opt_name opts \<in> set (rule_resourcenames rule)"
  by (simp add: resourceNameMatches_def)

lemma rulesPermit_iff [rbac_match]:
  "rulesPermit rules opts \<longleftrightarrow> (\<exists>rule\<in>set rules. ruleAllows rule opts)"
  by (induction rules) (auto simp: rbac_match ruleAllows_def)

lemma rulesPermit_append [simp]:
  "rulesPermit (rs @ rs') opts \<longleftrightarrow> rulesPermit rs opts \<or> rulesPermit rs' opts"
  by (auto simp: rulesPermit_iff)

text \<open>A rule reads the action, never the requester.\<close>

definition sameAction :: "EvaluateOptions \<Rightarrow> EvaluateOptions \<Rightarrow> bool" where
  "sameAction a b \<longleftrightarrow> opt_verb a = opt_verb b \<and> opt_group a = opt_group b \<and>
     opt_resource a = opt_resource b \<and> opt_name a = opt_name b"

lemma rulesPermit_sameAction: "sameAction a b \<Longrightarrow> rulesPermit rs a = rulesPermit rs b"
  by (simp add: rulesPermit_iff ruleAllows_def sameAction_def)

section \<open>Subjects\<close>

definition parseServiceAccountUsername :: "gostring \<Rightarrow> gostring \<times> gostring \<times> bool" where
  "parseServiceAccountUsername u =
     (case cutPrefix ''system:serviceaccount:'' u of
        None \<Rightarrow> ([], [], False)
      | Some rest \<Rightarrow>
          (case cutAt CHR '':'' rest of
             None \<Rightarrow> ([], [], False)
           | Some (ns, name) \<Rightarrow>
               if ns = [] \<or> name = [] then ([], [], False) else (ns, name, True)))"

definition IsServiceAccountUsername :: "gostring \<Rightarrow> bool" where
  "IsServiceAccountUsername u = (case parseServiceAccountUsername u of (_, _, ok) \<Rightarrow> ok)"

definition allServiceAccountsGroup :: gostring where
  "allServiceAccountsGroup = ''system:serviceaccounts''"
definition serviceAccountsNamespacePfx :: gostring where
  "serviceAccountsNamespacePfx = ''system:serviceaccounts:''"
definition systemAuthenticatedGroup :: gostring where
  "systemAuthenticatedGroup = ''system:authenticated''"

lemmas group_defs = allServiceAccountsGroup_def serviceAccountsNamespacePfx_def
  systemAuthenticatedGroup_def

definition effectiveGroups :: "EvaluateOptions \<Rightarrow> bool \<Rightarrow> gostring \<Rightarrow> gostring list" where
  "effectiveGroups opts isSA saNS =
     (if \<not> isSA then opt_groups opts
      else opt_groups opts @ [allServiceAccountsGroup, serviceAccountsNamespacePfx @ saNS])"

fun anySubjectMatches :: "Subject list \<Rightarrow> EvaluateOptions \<Rightarrow> bool" where
  "anySubjectMatches [] opts = False"
| "anySubjectMatches (s # ss) opts =
     (let (saNS, saName, isSA) = parseServiceAccountUsername (opt_username opts);
          groups = effectiveGroups opts isSA saNS in
      if sub_kind s = UserKind then
        (if sub_name s = opt_username opts then True else anySubjectMatches ss opts)
      else if sub_kind s = GroupKind then
        (if sub_name s \<in> set groups then True
         else if sub_name s = systemAuthenticatedGroup \<and> opt_username opts \<noteq> [] then True
         else anySubjectMatches ss opts)
      else if sub_kind s = ServiceAccountKind then
        (if isSA \<and> sub_ns s = saNS \<and> sub_name s = saName then True else anySubjectMatches ss opts)
      else anySubjectMatches ss opts)"

fun firstMatchSubjectClass :: "Subject list \<Rightarrow> EvaluateOptions \<Rightarrow> WinningSubjectClass" where
  "firstMatchSubjectClass [] opts = SubjectClassRegular"
| "firstMatchSubjectClass (s # ss) opts =
     (let (saNS, saName, isSA) = parseServiceAccountUsername (opt_username opts) in
      if sub_kind s = UserKind then
        (if sub_name s = opt_username opts then SubjectClassRegular
         else firstMatchSubjectClass ss opts)
      else if sub_kind s = GroupKind then
        (if sub_name s \<in> set (opt_groups opts) then SubjectClassRegular
         else if isSA \<and> (sub_name s = allServiceAccountsGroup \<or>
                         sub_name s = serviceAccountsNamespacePfx @ saNS)
           then SubjectClassImplicitGroup
         else if sub_name s = systemAuthenticatedGroup \<and> opt_username opts \<noteq> []
           then SubjectClassImplicitGroup
         else firstMatchSubjectClass ss opts)
      else if sub_kind s = ServiceAccountKind then
        (if isSA \<and> sub_ns s = saNS \<and> sub_name s = saName then SubjectClassRegular
         else firstMatchSubjectClass ss opts)
      else firstMatchSubjectClass ss opts)"

text \<open>
  One subject, read as the RBAC documentation states it: the groups a request holds are the
  presented ones, the two synthetic ones of a service account, and, when it is authenticated,
  \<open>system:authenticated\<close>.
\<close>

definition heldGroups :: "EvaluateOptions \<Rightarrow> gostring set" where
  "heldGroups opts = set (opt_groups opts) \<union>
     (case parseServiceAccountUsername (opt_username opts) of (ns, _, isSA) \<Rightarrow>
        if isSA then {allServiceAccountsGroup, serviceAccountsNamespacePfx @ ns} else {}) \<union>
     (if opt_username opts \<noteq> [] then {systemAuthenticatedGroup} else {})"

definition subjectNames :: "Subject \<Rightarrow> EvaluateOptions \<Rightarrow> bool" where
  "subjectNames s opts \<longleftrightarrow>
     sub_kind s = UserKind \<and> sub_name s = opt_username opts \<or>
     sub_kind s = GroupKind \<and> sub_name s \<in> heldGroups opts \<or>
     sub_kind s = ServiceAccountKind \<and>
       parseServiceAccountUsername (opt_username opts) = (sub_ns s, sub_name s, True)"

lemma heldGroups_effective:
  assumes "parseServiceAccountUsername (opt_username opts) = (ns, name, isSA)"
  shows "g \<in> heldGroups opts \<longleftrightarrow>
    g \<in> set (effectiveGroups opts isSA ns) \<or> g = systemAuthenticatedGroup \<and> opt_username opts \<noteq> []"
proof -
  have "heldGroups opts = set (effectiveGroups opts isSA ns) \<union>
      (if opt_username opts \<noteq> [] then {systemAuthenticatedGroup} else {})"
    unfolding heldGroups_def effectiveGroups_def assms prod.case
    by (cases isSA) (simp_all only: if_True if_False set_append not_True_eq_False
        not_False_eq_True list.set Un_empty_right)
  then show ?thesis by (simp only:) (simp split: if_split)
qed

lemma anySubjectMatches_Cons:
  "anySubjectMatches (s # ss) opts \<longleftrightarrow> subjectNames s opts \<or> anySubjectMatches ss opts"
proof -
  obtain ns name isSA where p: "parseServiceAccountUsername (opt_username opts) = (ns, name, isSA)"
    by (metis prod_cases3)
  consider "sub_kind s = UserKind" | "sub_kind s = GroupKind" | "sub_kind s = ServiceAccountKind"
    | "sub_kind s \<notin> {UserKind, GroupKind, ServiceAccountKind}" by blast
  then show ?thesis
  proof cases
    case 2
    then show ?thesis
      by (simp add: p subjectNames_def heldGroups_effective [OF p] return_True split del: if_split)
  qed (auto simp: p subjectNames_def)
qed

lemma anySubjectMatches_iff [rbac_match]:
  "anySubjectMatches ss opts \<longleftrightarrow> (\<exists>s\<in>set ss. subjectNames s opts)"
  by (induction ss) (simp_all only: anySubjectMatches_Cons, auto)

text \<open>The subject matchers read the requester's name and the set of its groups.\<close>

definition sameIdentity :: "EvaluateOptions \<Rightarrow> EvaluateOptions \<Rightarrow> bool" where
  "sameIdentity a b \<longleftrightarrow> opt_username a = opt_username b \<and> set (opt_groups a) = set (opt_groups b)"

lemma sameIdentity_refl [simp]: "sameIdentity a a"
  by (simp add: sameIdentity_def)

lemma sameIdentity_sym: "sameIdentity a b \<Longrightarrow> sameIdentity b a"
  by (simp add: sameIdentity_def)

lemma heldGroups_sameIdentity: "sameIdentity a b \<Longrightarrow> heldGroups a = heldGroups b"
  by (simp add: heldGroups_def sameIdentity_def)

lemma anySubjectMatches_sameIdentity:
  "sameIdentity a b \<Longrightarrow> anySubjectMatches ss a = anySubjectMatches ss b"
  using heldGroups_sameIdentity [of a b]
  by (simp add: anySubjectMatches_iff subjectNames_def sameIdentity_def)

lemma firstMatchSubjectClass_sameIdentity:
  "sameIdentity a b \<Longrightarrow> firstMatchSubjectClass ss a = firstMatchSubjectClass ss b"
proof (induction ss)
  case (Cons s ss)
  from Cons.prems have same: "opt_username a = opt_username b" "set (opt_groups a) = set (opt_groups b)"
    by (simp_all add: sameIdentity_def)
  show ?case unfolding firstMatchSubjectClass.simps same Cons.IH [OF Cons.prems] ..
qed simp

section \<open>Service account usernames\<close>

definition serviceAccountUsername :: "gostring \<Rightarrow> gostring \<Rightarrow> gostring" where
  "serviceAccountUsername ns name = ''system:serviceaccount:'' @ ns @ '':'' @ name"

lemma parseServiceAccountUsername_iff:
  "parseServiceAccountUsername u = (ns, name, True) \<longleftrightarrow>
     u = serviceAccountUsername ns name \<and> ns \<noteq> [] \<and> name \<noteq> [] \<and> CHR '':'' \<notin> set ns"
proof
  assume "parseServiceAccountUsername u = (ns, name, True)"
  then obtain rest where r: "cutPrefix ''system:serviceaccount:'' u = Some rest"
    and c: "cutAt CHR '':'' rest = Some (ns, name)" and ne: "ns \<noteq> []" "name \<noteq> []"
    by (auto simp: parseServiceAccountUsername_def split: option.splits if_splits prod.splits)
  from r have "u = ''system:serviceaccount:'' @ rest" by (simp only: cutPrefix_Some)
  moreover from cutAt_Some [OF c] have "rest = ns @ CHR '':'' # name \<and> CHR '':'' \<notin> set ns" .
  ultimately show "u = serviceAccountUsername ns name \<and> ns \<noteq> [] \<and> name \<noteq> [] \<and> CHR '':'' \<notin> set ns"
    using ne by (simp add: serviceAccountUsername_def)
next
  assume a: "u = serviceAccountUsername ns name \<and> ns \<noteq> [] \<and> name \<noteq> [] \<and> CHR '':'' \<notin> set ns"
  then have "cutPrefix ''system:serviceaccount:'' u = Some (ns @ CHR '':'' # name)"
    by (simp add: cutPrefix_Some serviceAccountUsername_def)
  with a show "parseServiceAccountUsername u = (ns, name, True)"
    by (simp add: parseServiceAccountUsername_def cutAt_append)
qed

section \<open>Building a check\<close>

record ObjectTarget =
  tgt_group :: gostring
  tgt_resource :: gostring
  tgt_namespace :: gostring
  tgt_name :: gostring

definition TargetOf :: "gostring \<Rightarrow> gostring \<Rightarrow> gostring \<Rightarrow> gostring \<Rightarrow> ObjectTarget" where
  "TargetOf g r ns name =
     \<lparr>tgt_group = g, tgt_resource = r, tgt_namespace = ns, tgt_name = name\<rparr>"

definition nameSpecificVerbs :: "gostring list" where
  "nameSpecificVerbs = [''get'', ''update'', ''patch'', ''delete'']"

definition IsNameSpecificVerb :: "gostring \<Rightarrow> bool" where
  "IsNameSpecificVerb verb \<longleftrightarrow> verb \<in> set nameSpecificVerbs"

definition ObjectCheck ::
  "gostring \<Rightarrow> gostring list \<Rightarrow> gostring \<Rightarrow> ObjectTarget \<Rightarrow> EvaluateOptions" where
  "ObjectCheck username groups verb target =
     (let opts = \<lparr>opt_username = username, opt_groups = groups, opt_verb = verb,
                  opt_group = tgt_group target, opt_resource = tgt_resource target,
                  opt_namespace = tgt_namespace target, opt_name = [], opt_skipuid = False\<rparr>
      in if IsNameSpecificVerb verb then opts\<lparr>opt_name := tgt_name target\<rparr> else opts)"

end
