(* ===== verification/RBACIndex.thy ===== *)
theory RBACIndex
  imports RBACMatch
begin

text \<open>
  How a snapshot is assembled (cache/rbac\_snapshot.go): the four indexer reads of
  \<open>rebuildRBACSnapshot\<close>, with the defensive conversion of entries that are not typed, and
  \<open>rebuildSubjectIndexes\<close>, which files every binding under each of its subjects.

  The lemmas say exactly which bindings an index holds: those of the snapshot that name the key.
  The locale \<open>subject_index\<close> is the contract the selectors of the evaluator rest on; it is
  interpreted at the end of RBACCandidates on the three indexes a snapshot carries.
\<close>

section \<open>The subject indexes\<close>

definition saKey :: "gostring \<Rightarrow> gostring \<Rightarrow> gostring" where
  "saKey ns name = ns @ ''/'' @ name"

text \<open>One arm of the ClusterRoleBinding switch.\<close>

definition indexCRBSubject :: "ClusterRoleBinding \<Rightarrow> RBACSnapshot \<Rightarrow> Subject \<Rightarrow> RBACSnapshot" where
  "indexCRBSubject crb snap s =
     (if sub_kind s = UserKind then
        snap\<lparr>CRBsByUser := aappend (CRBsByUser snap) (sub_name s) [crb]\<rparr>
      else if sub_kind s = GroupKind then
        snap\<lparr>CRBsByGroup := aappend (CRBsByGroup snap) (sub_name s) [crb]\<rparr>
      else if sub_kind s = ServiceAccountKind then
        snap\<lparr>CRBsByServiceAccount :=
               aappend (CRBsByServiceAccount snap) (saKey (sub_ns s) (sub_name s)) [crb]\<rparr>
      else snap\<lparr>CRBsCatchAll := CRBsCatchAll snap @ [crb]\<rparr>)"

definition indexCRB :: "RBACSnapshot \<Rightarrow> ClusterRoleBinding option \<Rightarrow> RBACSnapshot" where
  "indexCRB snap p = (case p of None \<Rightarrow> snap
     | Some crb \<Rightarrow> foldl (indexCRBSubject crb) snap (crb_subjects crb))"

text \<open>
  One arm of the RoleBinding switch: the inner map of the namespace, made when it is missing, and
  the flat all-namespace mirror.
\<close>

definition indexRBSubject ::
  "gostring \<Rightarrow> RoleBinding \<Rightarrow> RBACSnapshot \<Rightarrow> Subject \<Rightarrow> RBACSnapshot" where
  "indexRBSubject ns rb snap s =
     (if sub_kind s = UserKind then
        snap\<lparr>RBsByUserByNS := aappend2 (RBsByUserByNS snap) ns (sub_name s) rb,
             RBsByUserAllNS := aappend (RBsByUserAllNS snap) (sub_name s) [rb]\<rparr>
      else if sub_kind s = GroupKind then
        snap\<lparr>RBsByGroupByNS := aappend2 (RBsByGroupByNS snap) ns (sub_name s) rb,
             RBsByGroupAllNS := aappend (RBsByGroupAllNS snap) (sub_name s) [rb]\<rparr>
      else if sub_kind s = ServiceAccountKind then
        (let key = saKey (sub_ns s) (sub_name s) in
         snap\<lparr>RBsByServiceAccountByNS := aappend2 (RBsByServiceAccountByNS snap) ns key rb,
              RBsByServiceAccountAllNS := aappend (RBsByServiceAccountAllNS snap) key [rb]\<rparr>)
      else
        snap\<lparr>RBsCatchAllByNS := aappend (RBsCatchAllByNS snap) ns [rb],
             RBsCatchAllAllNS := RBsCatchAllAllNS snap @ [rb]\<rparr>)"

definition indexRB :: "gostring \<Rightarrow> RBACSnapshot \<Rightarrow> RoleBinding option \<Rightarrow> RBACSnapshot" where
  "indexRB ns snap p = (case p of None \<Rightarrow> snap
     | Some rb \<Rightarrow> foldl (indexRBSubject ns rb) snap (rb_subjects rb))"

definition indexNS :: "RBACSnapshot \<Rightarrow> gostring \<times> RoleBinding option list \<Rightarrow> RBACSnapshot" where
  "indexNS snap e = foldl (indexRB (fst e)) snap (snd e)"

text \<open>
  The catch-all of the ClusterRoleBindings and the flat one are not reset: the code leaves them as
  the caller's snapshot has them, which is nil for a snapshot under construction.
\<close>

definition rebuildSubjectIndexes :: "RBACSnapshot \<Rightarrow> RBACSnapshot" where
  "rebuildSubjectIndexes snap0 =
     (let snap1 = snap0\<lparr>CRBsByUser := [], CRBsByGroup := [], CRBsByServiceAccount := []\<rparr>;
          snap2 = foldl indexCRB snap1 (ClusterRoleBindings snap1);
          snap3 = snap2\<lparr>RBsByUserByNS := [], RBsByGroupByNS := [], RBsByServiceAccountByNS := [],
                        RBsCatchAllByNS := [], RBsByUserAllNS := [], RBsByGroupAllNS := [],
                        RBsByServiceAccountAllNS := []\<rparr>
      in foldl indexNS snap3 (RoleBindingsByNS snap3))"

section \<open>Reading the informers\<close>

text \<open>
  An indexer entry is the typed pointer, or something else that the defensive conversion may turn
  into one. The conversion (\<open>fallbackUnstructuredFromIndexer\<close> and
  \<open>runtime.DefaultUnstructuredConverter\<close>) is library code: a parameter.
\<close>

datatype ('u, 'a) indexerItem = Typed 'a | Untyped 'u

record 'u converters =
  convertUnstructuredCRB :: "'u \<Rightarrow> ClusterRoleBinding option"
  convertUnstructuredRB :: "'u \<Rightarrow> RoleBinding option"
  convertUnstructuredCR :: "'u \<Rightarrow> ClusterRole option"
  convertUnstructuredR :: "'u \<Rightarrow> Role option"

text \<open>The four indexers; \<open>None\<close> is a GVR that is not registered.\<close>

record 'u indexers =
  idx_crbs :: "('u, ClusterRoleBinding) indexerItem list option"
  idx_rbs :: "('u, RoleBinding) indexerItem list option"
  idx_crs :: "('u, ClusterRole) indexerItem list option"
  idx_roles :: "('u, Role) indexerItem list option"

fun asTyped :: "('u \<Rightarrow> 'a option) \<Rightarrow> ('u, 'a) indexerItem \<Rightarrow> 'a option" where
  "asTyped conv (Typed a) = Some a"
| "asTyped conv (Untyped u) = conv u"

text \<open>The entries the writer keeps; the others are skipped with a warning.\<close>

definition typedItems :: "('u \<Rightarrow> 'a option) \<Rightarrow> ('u, 'a) indexerItem list option \<Rightarrow> 'a list" where
  "typedItems conv items = (case items of None \<Rightarrow> []
     | Some its \<Rightarrow> List.map_filter (asTyped conv) its)"

definition collectRBs :: "RoleBinding list \<Rightarrow> (gostring \<times> RoleBinding option list) list" where
  "collectRBs rbs = foldl (\<lambda>m rb. aappend m (rb_ns rb) [Some rb]) [] rbs"

definition collectCRs :: "ClusterRole list \<Rightarrow> gostring \<rightharpoonup> ClusterRole" where
  "collectCRs crs = foldl (\<lambda>m cr. m(cr_name cr \<mapsto> cr)) Map.empty crs"

definition collectRoles :: "Role list \<Rightarrow> gostring \<rightharpoonup> Role" where
  "collectRoles rs = foldl (\<lambda>m r. m(saKey (role_ns r) (role_name r) \<mapsto> r)) Map.empty rs"

text \<open>The snapshot \<open>rebuildRBACSnapshot\<close> has built when it reaches its publish step.\<close>

definition collectSnapshot :: "'u converters \<Rightarrow> bool \<Rightarrow> 'u indexers \<Rightarrow> RBACSnapshot" where
  "collectSnapshot conv synced idx =
     rebuildSubjectIndexes
       (emptySnapshot\<lparr>
          Synced := synced,
          ClusterRoleBindings := map Some (typedItems (convertUnstructuredCRB conv) (idx_crbs idx)),
          RoleBindingsByNS := collectRBs (typedItems (convertUnstructuredRB conv) (idx_rbs idx)),
          ClusterRolesByName := collectCRs (typedItems (convertUnstructuredCR conv) (idx_crs idx)),
          RolesByNSName := collectRoles (typedItems (convertUnstructuredR conv) (idx_roles idx))\<rparr>)"

section \<open>What the indexes hold\<close>

definition unrecognised :: "Subject \<Rightarrow> bool" where
  "unrecognised s \<longleftrightarrow> sub_kind s \<notin> {UserKind, GroupKind, ServiceAccountKind}"

text \<open>The frame: indexing writes the index fields only.\<close>

lemma indexCRBSubject_frame [simp]:
  "ClusterRoleBindings (indexCRBSubject c snap s) = ClusterRoleBindings snap"
  "RoleBindingsByNS (indexCRBSubject c snap s) = RoleBindingsByNS snap"
  "ClusterRolesByName (indexCRBSubject c snap s) = ClusterRolesByName snap"
  "RolesByNSName (indexCRBSubject c snap s) = RolesByNSName snap"
  "PublishSeq (indexCRBSubject c snap s) = PublishSeq snap"
  "Synced (indexCRBSubject c snap s) = Synced snap"
  "RBsCatchAllAllNS (indexCRBSubject c snap s) = RBsCatchAllAllNS snap"
  unfolding indexCRBSubject_def by simp_all

lemma indexRBSubject_frame [simp]:
  "ClusterRoleBindings (indexRBSubject ns r snap s) = ClusterRoleBindings snap"
  "RoleBindingsByNS (indexRBSubject ns r snap s) = RoleBindingsByNS snap"
  "ClusterRolesByName (indexRBSubject ns r snap s) = ClusterRolesByName snap"
  "RolesByNSName (indexRBSubject ns r snap s) = RolesByNSName snap"
  "PublishSeq (indexRBSubject ns r snap s) = PublishSeq snap"
  "Synced (indexRBSubject ns r snap s) = Synced snap"
  "CRBsByUser (indexRBSubject ns r snap s) = CRBsByUser snap"
  "CRBsByGroup (indexRBSubject ns r snap s) = CRBsByGroup snap"
  "CRBsByServiceAccount (indexRBSubject ns r snap s) = CRBsByServiceAccount snap"
  "CRBsCatchAll (indexRBSubject ns r snap s) = CRBsCatchAll snap"
  unfolding indexRBSubject_def Let_def by simp_all

text \<open>
  A field that each step of a fold leaves alone is left alone by the fold, and a set that each step
  grows by what its element contributes is grown by the union.
\<close>

lemma foldl_frame:
  assumes "\<And>s x. f (g s x) = f s"
  shows "f (foldl g s xs) = f s"
  by (induction xs arbitrary: s) (simp_all add: assms)

text \<open>
  Filing a binding under each of its subjects adds it to a bucket exactly when one of its subjects
  belongs there; \<open>F\<close> reads the bucket, \<open>P\<close> is the bucket's subject test.
\<close>

lemma foldl_bucket:
  assumes "\<And>s x. F (g s x) = F s \<union> (if P x then {c} else {})"
  shows "F (foldl g s xs) = F s \<union> (if \<exists>x\<in>set xs. P x then {c} else {})"
  by (induction xs arbitrary: s) (simp_all add: assms)

lemma foldl_buckets:
  assumes "\<And>s x. F (g s x) = F s \<union> {r. D x r}"
  shows "F (foldl g s xs) = F s \<union> {r. \<exists>x\<in>set xs. D x r}"
proof (induction xs arbitrary: s)
  case (Cons x xs)
  have "F (foldl g s (x # xs)) = F s \<union> {r. D x r} \<union> {r. \<exists>x\<in>set xs. D x r}"
    by (simp add: Cons assms)
  then show ?case by auto
qed simp

lemma indexCRB_bucket:
  assumes "\<And>c snap s. F (indexCRBSubject c snap s) = F snap \<union> (if P s then {c} else {})"
  shows "F (foldl indexCRB snap ps) =
    F snap \<union> {c. Some c \<in> set ps \<and> (\<exists>s\<in>set (crb_subjects c). P s)}"
proof -
  have "F (indexCRB snap p) = F snap \<union> {c. p = Some c \<and> (\<exists>s\<in>set (crb_subjects c). P s)}"
    for snap p
  proof (cases p)
    case (Some c)
    then show ?thesis
      using foldl_bucket [where F = F and g = "indexCRBSubject c" and P = P and c = c
          and s = snap and xs = "crb_subjects c", OF assms]
      by (auto simp: indexCRB_def)
  qed (simp add: indexCRB_def)
  then have "F (foldl indexCRB snap ps) =
      F snap \<union> {c. \<exists>p\<in>set ps. p = Some c \<and> (\<exists>s\<in>set (crb_subjects c). P s)}"
    by (rule foldl_buckets)
  then show ?thesis by auto
qed

lemma indexRB_bucket:
  assumes "\<And>ns r snap s. F (indexRBSubject ns r snap s) = F snap \<union> (if Q ns s then {r} else {})"
  shows "F (foldl indexNS snap m) = F snap \<union>
    {r. \<exists>e\<in>set m. Some r \<in> set (snd e) \<and> (\<exists>s\<in>set (rb_subjects r). Q (fst e) s)}"
proof -
  have 1: "F (indexRB ns snap p) = F snap \<union> {r. p = Some r \<and> (\<exists>s\<in>set (rb_subjects r). Q ns s)}"
    for ns snap p
  proof (cases p)
    case (Some r)
    then show ?thesis
      using foldl_bucket [where F = F and g = "indexRBSubject ns r" and P = "Q ns" and c = r
          and s = snap and xs = "rb_subjects r", OF assms]
      by (auto simp: indexRB_def)
  qed (simp add: indexRB_def)
  have 2: "F (indexNS snap e) = F snap \<union>
      {r. \<exists>p\<in>set (snd e). p = Some r \<and> (\<exists>s\<in>set (rb_subjects r). Q (fst e) s)}" for snap e
    unfolding indexNS_def by (rule foldl_buckets) (rule 1)
  from 2 have "F (foldl indexNS snap m) = F snap \<union> {r. \<exists>e\<in>set m. \<exists>p\<in>set (snd e). p = Some r \<and>
      (\<exists>s\<in>set (rb_subjects r). Q (fst e) s)}"
    by (rule foldl_buckets)
  then show ?thesis by simp
qed

definition userNamed :: "gostring \<Rightarrow> Subject \<Rightarrow> bool" where
  "userNamed u s \<longleftrightarrow> sub_kind s = UserKind \<and> sub_name s = u"

definition groupNamed :: "gostring \<Rightarrow> Subject \<Rightarrow> bool" where
  "groupNamed g s \<longleftrightarrow> sub_kind s = GroupKind \<and> sub_name s = g"

definition saKeyed :: "gostring \<Rightarrow> Subject \<Rightarrow> bool" where
  "saKeyed k s \<longleftrightarrow> sub_kind s = ServiceAccountKind \<and> saKey (sub_ns s) (sub_name s) = k"

lemmas subject_tests = userNamed_def groupNamed_def saKeyed_def unrecognised_def

lemma subject_kind_cases:
  obtains "sub_kind s = UserKind" | "sub_kind s = GroupKind" | "sub_kind s = ServiceAccountKind"
    | "sub_kind s \<noteq> UserKind" "sub_kind s \<noteq> GroupKind" "sub_kind s \<noteq> ServiceAccountKind"
  by blast

lemma indexCRBSubject_buckets:
  "set (alookup (CRBsByUser (indexCRBSubject c snap s)) k) =
     set (alookup (CRBsByUser snap) k) \<union> (if userNamed k s then {c} else {})"
  "set (alookup (CRBsByGroup (indexCRBSubject c snap s)) k) =
     set (alookup (CRBsByGroup snap) k) \<union> (if groupNamed k s then {c} else {})"
  "set (alookup (CRBsByServiceAccount (indexCRBSubject c snap s)) k) =
     set (alookup (CRBsByServiceAccount snap) k) \<union> (if saKeyed k s then {c} else {})"
  "set (CRBsCatchAll (indexCRBSubject c snap s)) =
     set (CRBsCatchAll snap) \<union> (if unrecognised s then {c} else {})"
  unfolding indexCRBSubject_def subject_tests
  by (cases rule: subject_kind_cases [of s]; simp)+

lemma indexRBSubject_buckets:
  "set (alookup (alookup (RBsByUserByNS (indexRBSubject ns r snap s)) n) k) =
     set (alookup (alookup (RBsByUserByNS snap) n) k) \<union> (if ns = n \<and> userNamed k s then {r} else {})"
  "set (alookup (alookup (RBsByGroupByNS (indexRBSubject ns r snap s)) n) k) =
     set (alookup (alookup (RBsByGroupByNS snap) n) k) \<union> (if ns = n \<and> groupNamed k s then {r} else {})"
  "set (alookup (alookup (RBsByServiceAccountByNS (indexRBSubject ns r snap s)) n) k) =
     set (alookup (alookup (RBsByServiceAccountByNS snap) n) k) \<union> (if ns = n \<and> saKeyed k s then {r} else {})"
  "set (alookup (RBsCatchAllByNS (indexRBSubject ns r snap s)) n) =
     set (alookup (RBsCatchAllByNS snap) n) \<union> (if ns = n \<and> unrecognised s then {r} else {})"
  "set (alookup (RBsByUserAllNS (indexRBSubject ns r snap s)) k) =
     set (alookup (RBsByUserAllNS snap) k) \<union> (if userNamed k s then {r} else {})"
  "set (alookup (RBsByGroupAllNS (indexRBSubject ns r snap s)) k) =
     set (alookup (RBsByGroupAllNS snap) k) \<union> (if groupNamed k s then {r} else {})"
  "set (alookup (RBsByServiceAccountAllNS (indexRBSubject ns r snap s)) k) =
     set (alookup (RBsByServiceAccountAllNS snap) k) \<union> (if saKeyed k s then {r} else {})"
  "set (RBsCatchAllAllNS (indexRBSubject ns r snap s)) =
     set (RBsCatchAllAllNS snap) \<union> (if unrecognised s then {r} else {})"
  unfolding indexRBSubject_def subject_tests Let_def
  by (cases rule: subject_kind_cases [of s]; simp)+

section \<open>A snapshot whose indexes agree with its bindings\<close>

text \<open>
  Every bucket holds exactly the bindings of the snapshot with a subject that belongs there, every
  RoleBinding is filed under its own namespace, and the flat indexes hold what the namespaced ones
  hold.
\<close>

definition crbsNaming :: "RBACSnapshot \<Rightarrow> (Subject \<Rightarrow> bool) \<Rightarrow> ClusterRoleBinding set" where
  "crbsNaming snap P = {c \<in> set (crbsOf snap). \<exists>s\<in>set (crb_subjects c). P s}"

definition rbsNaming :: "RBACSnapshot \<Rightarrow> gostring \<Rightarrow> (Subject \<Rightarrow> bool) \<Rightarrow> RoleBinding set" where
  "rbsNaming snap ns P = {r \<in> set (rbsIn snap ns). \<exists>s\<in>set (rb_subjects r). P s}"

definition indexedCRBs :: "RBACSnapshot \<Rightarrow> bool" where
  "indexedCRBs snap \<longleftrightarrow>
     (\<forall>k. set (alookup (CRBsByUser snap) k) = crbsNaming snap (userNamed k)) \<and>
     (\<forall>k. set (alookup (CRBsByGroup snap) k) = crbsNaming snap (groupNamed k)) \<and>
     (\<forall>k. set (alookup (CRBsByServiceAccount snap) k) = crbsNaming snap (saKeyed k)) \<and>
     set (CRBsCatchAll snap) = crbsNaming snap unrecognised"

definition indexedRBs :: "RBACSnapshot \<Rightarrow> bool" where
  "indexedRBs snap \<longleftrightarrow>
     (\<forall>n k. set (alookup (alookup (RBsByUserByNS snap) n) k) = rbsNaming snap n (userNamed k)) \<and>
     (\<forall>n k. set (alookup (alookup (RBsByGroupByNS snap) n) k) = rbsNaming snap n (groupNamed k)) \<and>
     (\<forall>n k. set (alookup (alookup (RBsByServiceAccountByNS snap) n) k) = rbsNaming snap n (saKeyed k)) \<and>
     (\<forall>n. set (alookup (RBsCatchAllByNS snap) n) = rbsNaming snap n unrecognised)"

definition indexedAllNS :: "RBACSnapshot \<Rightarrow> bool" where
  "indexedAllNS snap \<longleftrightarrow>
     (\<forall>k. set (alookup (RBsByUserAllNS snap) k) = (\<Union>n. rbsNaming snap n (userNamed k))) \<and>
     (\<forall>k. set (alookup (RBsByGroupAllNS snap) k) = (\<Union>n. rbsNaming snap n (groupNamed k))) \<and>
     (\<forall>k. set (alookup (RBsByServiceAccountAllNS snap) k) = (\<Union>n. rbsNaming snap n (saKeyed k))) \<and>
     set (RBsCatchAllAllNS snap) = (\<Union>n. rbsNaming snap n unrecognised)"

definition filedByNS :: "RBACSnapshot \<Rightarrow> bool" where
  "filedByNS snap \<longleftrightarrow> distinct (map fst (RoleBindingsByNS snap)) \<and>
     (\<forall>ns. \<forall>r\<in>set (rbsIn snap ns). rb_ns r = ns)"

definition indexed :: "RBACSnapshot \<Rightarrow> bool" where
  "indexed snap \<longleftrightarrow> indexedCRBs snap \<and> indexedRBs snap \<and> indexedAllNS snap \<and> filedByNS snap"

lemmas indexed_defs = indexedCRBs_def indexedRBs_def indexedAllNS_def filedByNS_def

lemma bindings_PublishSeq [simp]:
  "crbsOf (snap\<lparr>PublishSeq := n\<rparr>) = crbsOf snap"
  "rbsIn (snap\<lparr>PublishSeq := n\<rparr>) ns = rbsIn snap ns"
  by (simp_all add: crbsOf_def rbsIn_def)

lemma indexed_PublishSeq [simp]: "indexed (snap\<lparr>PublishSeq := n\<rparr>) = indexed snap"
  unfolding indexed_def indexed_defs crbsNaming_def rbsNaming_def bindings_PublishSeq by simp

subsection \<open>The frame of the index build\<close>

lemma indexCRB_frame [simp]:
  "ClusterRoleBindings (indexCRB snap p) = ClusterRoleBindings snap"
  "RoleBindingsByNS (indexCRB snap p) = RoleBindingsByNS snap"
  "ClusterRolesByName (indexCRB snap p) = ClusterRolesByName snap"
  "RolesByNSName (indexCRB snap p) = RolesByNSName snap"
  "PublishSeq (indexCRB snap p) = PublishSeq snap"
  "Synced (indexCRB snap p) = Synced snap"
  "RBsCatchAllAllNS (indexCRB snap p) = RBsCatchAllAllNS snap"
  by (cases p; simp add: indexCRB_def foldl_frame)+

lemma indexNS_frame [simp]:
  "ClusterRoleBindings (indexNS snap e) = ClusterRoleBindings snap"
  "RoleBindingsByNS (indexNS snap e) = RoleBindingsByNS snap"
  "ClusterRolesByName (indexNS snap e) = ClusterRolesByName snap"
  "RolesByNSName (indexNS snap e) = RolesByNSName snap"
  "PublishSeq (indexNS snap e) = PublishSeq snap"
  "Synced (indexNS snap e) = Synced snap"
  "CRBsByUser (indexNS snap e) = CRBsByUser snap"
  "CRBsByGroup (indexNS snap e) = CRBsByGroup snap"
  "CRBsByServiceAccount (indexNS snap e) = CRBsByServiceAccount snap"
  "CRBsCatchAll (indexNS snap e) = CRBsCatchAll snap"
  unfolding indexNS_def by (rule foldl_frame, simp add: indexRB_def foldl_frame split: option.split)+

lemma rebuildSubjectIndexes_frame [simp]:
  "ClusterRoleBindings (rebuildSubjectIndexes snap) = ClusterRoleBindings snap"
  "RoleBindingsByNS (rebuildSubjectIndexes snap) = RoleBindingsByNS snap"
  "ClusterRolesByName (rebuildSubjectIndexes snap) = ClusterRolesByName snap"
  "RolesByNSName (rebuildSubjectIndexes snap) = RolesByNSName snap"
  "PublishSeq (rebuildSubjectIndexes snap) = PublishSeq snap"
  "Synced (rebuildSubjectIndexes snap) = Synced snap"
  by (simp_all add: rebuildSubjectIndexes_def Let_def foldl_frame)

subsection \<open>The index build establishes it\<close>

lemma rebuildSubjectIndexes_crbs:
  assumes "CRBsCatchAll snap = []"
  shows "indexedCRBs (rebuildSubjectIndexes snap)"
  unfolding indexedCRBs_def crbsNaming_def
  by (simp add: rebuildSubjectIndexes_def Let_def foldl_frame assms
      indexCRB_bucket [where F = "\<lambda>s. set (alookup (CRBsByUser s) k)" for k, OF indexCRBSubject_buckets(1)]
      indexCRB_bucket [where F = "\<lambda>s. set (alookup (CRBsByGroup s) k)" for k, OF indexCRBSubject_buckets(2)]
      indexCRB_bucket [where F = "\<lambda>s. set (alookup (CRBsByServiceAccount s) k)" for k, OF indexCRBSubject_buckets(3)]
      indexCRB_bucket [where F = "\<lambda>s. set (CRBsCatchAll s)", OF indexCRBSubject_buckets(4)])

lemma rbsIn_entry:
  assumes "distinct (map fst (RoleBindingsByNS snap))"
  shows "r \<in> set (rbsIn snap n) \<longleftrightarrow> (\<exists>e\<in>set (RoleBindingsByNS snap). fst e = n \<and> Some r \<in> set (snd e))"
proof
  assume "r \<in> set (rbsIn snap n)"
  then show "\<exists>e\<in>set (RoleBindingsByNS snap). fst e = n \<and> Some r \<in> set (snd e)"
    using alookup_in_set [of "Some r" "RoleBindingsByNS snap" n] by force
next
  assume "\<exists>e\<in>set (RoleBindingsByNS snap). fst e = n \<and> Some r \<in> set (snd e)"
  then show "r \<in> set (rbsIn snap n)" using alookup_eq [OF assms] by fastforce
qed

lemmas rb_buckets =
  indexRB_bucket [where F = "\<lambda>s. set (alookup (alookup (RBsByUserByNS s) n) k)" for n k, OF indexRBSubject_buckets(1)]
  indexRB_bucket [where F = "\<lambda>s. set (alookup (alookup (RBsByGroupByNS s) n) k)" for n k, OF indexRBSubject_buckets(2)]
  indexRB_bucket [where F = "\<lambda>s. set (alookup (alookup (RBsByServiceAccountByNS s) n) k)" for n k, OF indexRBSubject_buckets(3)]
  indexRB_bucket [where F = "\<lambda>s. set (alookup (RBsCatchAllByNS s) n)" for n, OF indexRBSubject_buckets(4)]
  indexRB_bucket [where F = "\<lambda>s. set (alookup (RBsByUserAllNS s) k)" for k, OF indexRBSubject_buckets(5)]
  indexRB_bucket [where F = "\<lambda>s. set (alookup (RBsByGroupAllNS s) k)" for k, OF indexRBSubject_buckets(6)]
  indexRB_bucket [where F = "\<lambda>s. set (alookup (RBsByServiceAccountAllNS s) k)" for k, OF indexRBSubject_buckets(7)]
  indexRB_bucket [where F = "\<lambda>s. set (RBsCatchAllAllNS s)", OF indexRBSubject_buckets(8)]

lemma rebuildSubjectIndexes_rbs:
  assumes "distinct (map fst (RoleBindingsByNS snap))"
  shows "indexedRBs (rebuildSubjectIndexes snap)"
proof -
  have d: "distinct (map fst (RoleBindingsByNS (rebuildSubjectIndexes snap)))" using assms by simp
  show ?thesis
    unfolding indexedRBs_def rbsNaming_def rbsIn_entry [OF d]
    by (simp add: rebuildSubjectIndexes_def Let_def foldl_frame rb_buckets) blast
qed

lemma rebuildSubjectIndexes_allNS:
  assumes "distinct (map fst (RoleBindingsByNS snap))" "RBsCatchAllAllNS snap = []"
  shows "indexedAllNS (rebuildSubjectIndexes snap)"
proof -
  have d: "distinct (map fst (RoleBindingsByNS (rebuildSubjectIndexes snap)))" using assms by simp
  show ?thesis
    unfolding indexedAllNS_def rbsNaming_def rbsIn_entry [OF d]
    by (simp add: rebuildSubjectIndexes_def Let_def foldl_frame rb_buckets assms) blast
qed

subsection \<open>What the writer collects\<close>

lemma collectRBs_entry:
  "alookup (foldl (\<lambda>m rb. aappend m (rb_ns rb) [Some rb]) m rbs) ns =
     alookup m ns @ map Some (filter (\<lambda>rb. rb_ns rb = ns) rbs)"
  by (induction rbs arbitrary: m) auto

lemma collectRBs_distinct:
  "distinct (map fst m) \<Longrightarrow>
     distinct (map fst (foldl (\<lambda>m rb. aappend m (rb_ns rb) [Some rb]) m rbs))"
  by (induction rbs arbitrary: m) auto

lemma alookup_collectRBs [simp]:
  "alookup (collectRBs rbs) ns = map Some (filter (\<lambda>rb. rb_ns rb = ns) rbs)"
  by (simp add: collectRBs_def collectRBs_entry)

lemma distinct_collectRBs [simp]: "distinct (map fst (collectRBs rbs))"
  by (simp add: collectRBs_def collectRBs_distinct)

lemma collectSnapshot_fields [simp]:
  "Synced (collectSnapshot conv synced idx) = synced"
  "crbsOf (collectSnapshot conv synced idx) = typedItems (convertUnstructuredCRB conv) (idx_crbs idx)"
  "rbsIn (collectSnapshot conv synced idx) ns =
     filter (\<lambda>rb. rb_ns rb = ns) (typedItems (convertUnstructuredRB conv) (idx_rbs idx))"
  "ClusterRolesByName (collectSnapshot conv synced idx) =
     collectCRs (typedItems (convertUnstructuredCR conv) (idx_crs idx))"
  "RolesByNSName (collectSnapshot conv synced idx) =
     collectRoles (typedItems (convertUnstructuredR conv) (idx_roles idx))"
  by (simp_all add: collectSnapshot_def crbsOf_def rbsIn_def map_filter_def o_def)

lemma collectSnapshot_indexed: "indexed (collectSnapshot conv synced idx)"
  unfolding indexed_def collectSnapshot_def filedByNS_def
  by (simp add: rebuildSubjectIndexes_crbs rebuildSubjectIndexes_rbs rebuildSubjectIndexes_allNS
      emptySnapshot_def) auto

end
