(* ===== verification/RBACEvaluate.thy ===== *)
theory RBACEvaluate
  imports RBACIndex
begin

text \<open>
  The in-process evaluator of rbac/evaluate.go over one snapshot: the candidate selectors, the role
  lookup, the two-phase first-match walk. Its reference is the linear scan \<open>linearPermits\<close>, which
  uses no index and no order: some binding names the requester and references a role that allows
  the action.

  The walk's answer also names the binding that granted (the identity folded into cache keys), the
  class of its winning subject, and the role lookups that missed in a snapshot that is not synced.
\<close>

section \<open>Candidates\<close>

text \<open>
  The body \<open>selectCRBCandidates\<close> has inline and the RoleBinding selectors share. An index is read
  through its lookup.
\<close>

definition routeRBSubjects ::
  "EvaluateOptions \<Rightarrow> (gostring \<Rightarrow> 'b list) \<Rightarrow> (gostring \<Rightarrow> 'b list) \<Rightarrow> (gostring \<Rightarrow> 'b list)
     \<Rightarrow> 'b list \<Rightarrow> 'b list" where
  "routeRBSubjects opts byUser byGroup byServiceAccount catchAll =
     (let (saNS, saName, isSA) = parseServiceAccountUsername (opt_username opts);
          groups = effectiveGroups opts isSA saNS;
          out0 = [];
          out1 = (if opt_username opts \<noteq> [] then addNew out0 (byUser (opt_username opts)) else out0);
          out2 = foldl (\<lambda>out g. addNew out (byGroup g)) out1 groups;
          out3 = (if opt_username opts \<noteq> [] then addNew out2 (byGroup systemAuthenticatedGroup) else out2);
          out4 = (if isSA then addNew out3 (byServiceAccount (saKey saNS saName)) else out3)
      in addNew out4 catchAll)"

definition selectCRBCandidates :: "RBACSnapshot option \<Rightarrow> EvaluateOptions \<Rightarrow> ClusterRoleBinding list" where
  "selectCRBCandidates psnap opts = (case psnap of None \<Rightarrow> [] | Some snap \<Rightarrow>
     routeRBSubjects opts (alookup (CRBsByUser snap)) (alookup (CRBsByGroup snap))
       (alookup (CRBsByServiceAccount snap)) (CRBsCatchAll snap))"

definition selectRBCandidates ::
  "RBACSnapshot option \<Rightarrow> gostring \<Rightarrow> EvaluateOptions \<Rightarrow> RoleBinding list" where
  "selectRBCandidates psnap ns opts = (case psnap of None \<Rightarrow> [] | Some snap \<Rightarrow>
     if ns = [] then [] else
     routeRBSubjects opts (alookup (alookup (RBsByUserByNS snap) ns))
       (alookup (alookup (RBsByGroupByNS snap) ns))
       (alookup (alookup (RBsByServiceAccountByNS snap) ns)) (alookup (RBsCatchAllByNS snap) ns))"

definition selectRBCandidatesAllNS ::
  "RBACSnapshot option \<Rightarrow> EvaluateOptions \<Rightarrow> RoleBinding list" where
  "selectRBCandidatesAllNS psnap opts = (case psnap of None \<Rightarrow> [] | Some snap \<Rightarrow>
     routeRBSubjects opts (alookup (RBsByUserAllNS snap)) (alookup (RBsByGroupAllNS snap))
       (alookup (RBsByServiceAccountAllNS snap)) (RBsCatchAllAllNS snap))"

text \<open>\<open>sort.SliceStable\<close> by the listed fields, compared bytewise in order.\<close>

definition sortCRBsStable :: "ClusterRoleBinding list \<Rightarrow> ClusterRoleBinding list" where
  "sortCRBsStable crbs = sort_key (\<lambda>b. (crb_name b, crb_uid b)) crbs"

definition sortRBsStable :: "RoleBinding list \<Rightarrow> RoleBinding list" where
  "sortRBsStable rbs = sort_key (\<lambda>b. (rb_ns b, rb_name b, rb_uid b)) rbs"

section \<open>Roles\<close>

definition lookupRoleRefRules ::
  "RBACSnapshot \<Rightarrow> gostring \<Rightarrow> RoleRef \<Rightarrow> PolicyRule list option" where
  "lookupRoleRefRules snap namespace ref =
     (if ref_kind ref = ''ClusterRole'' then
        map_option cr_rules (ClusterRolesByName snap (ref_name ref))
      else if ref_kind ref = ''Role'' then
        (if namespace = [] then None
         else map_option role_rules (RolesByNSName snap (saKey namespace (ref_name ref))))
      else None)"

text \<open>A recorded snapshot miss: kind, namespace, name.\<close>

type_synonym miss = "gostring \<times> gostring \<times> gostring"

text \<open>The error result of \<open>roleRefPermits\<close> is nil on every path and is left out.\<close>

definition roleRefPermits ::
  "RBACSnapshot \<Rightarrow> gostring \<Rightarrow> RoleRef \<Rightarrow> EvaluateOptions \<Rightarrow> bool \<times> miss list" where
  "roleRefPermits snap namespace ref opts =
     (case lookupRoleRefRules snap namespace ref of
        Some rules \<Rightarrow> (rulesPermit rules opts, [])
      | None \<Rightarrow>
          if Synced snap then (False, [])
          else if ref_kind ref = ''ClusterRole'' then (False, [(''ClusterRole'', [], ref_name ref)])
          else if ref_kind ref = ''Role'' then
            (False, if namespace \<noteq> [] then [(''Role'', namespace, ref_name ref)] else [])
          else (False, []))"

section \<open>The walk\<close>

text \<open>
  One phase: the first candidate whose subjects match and whose role permits, with the misses
  recorded up to it.
\<close>

fun walkBindings ::
  "('b \<Rightarrow> Subject list) \<Rightarrow> ('b \<Rightarrow> RoleRef) \<Rightarrow> RBACSnapshot \<Rightarrow> gostring \<Rightarrow> EvaluateOptions \<Rightarrow> 'b list
     \<Rightarrow> 'b option \<times> miss list" where
  "walkBindings subjects roleref snap ns opts [] = (None, [])"
| "walkBindings subjects roleref snap ns opts (b # bs) =
     (if \<not> anySubjectMatches (subjects b) opts then walkBindings subjects roleref snap ns opts bs
      else case roleRefPermits snap ns (roleref b) opts of
        (True, ms) \<Rightarrow> (Some b, ms)
      | (False, ms) \<Rightarrow>
          (case walkBindings subjects roleref snap ns opts bs of (r, ms') \<Rightarrow> (r, ms @ ms')))"

record verdict =
  v_allowed :: bool
  v_uid :: gostring
  v_class :: WinningSubjectClass

definition denied :: verdict where
  "denied = \<lparr>v_allowed = False, v_uid = [], v_class = SubjectClassRegular\<rparr>"

definition evaluateAgainstInformerFirstMatch ::
  "RBACSnapshot \<Rightarrow> EvaluateOptions \<Rightarrow> verdict \<times> miss list" where
  "evaluateAgainstInformerFirstMatch snap opts =
     (let crbCandidates = selectCRBCandidates (Some snap) opts;
          crbs = (if opt_skipuid opts then crbCandidates else sortCRBsStable crbCandidates)
      in case walkBindings crb_subjects crb_roleref snap [] opts crbs of
           (Some crb, ms) \<Rightarrow>
             (\<lparr>v_allowed = True, v_uid = BindingUIDFromCRB (Some crb),
               v_class = firstMatchSubjectClass (crb_subjects crb) opts\<rparr>, ms)
         | (None, ms) \<Rightarrow>
             if opt_namespace opts \<noteq> [] then
               (let rbCandidates = selectRBCandidates (Some snap) (opt_namespace opts) opts;
                    rbs = (if opt_skipuid opts then rbCandidates else sortRBsStable rbCandidates)
                in case walkBindings rb_subjects rb_roleref snap (opt_namespace opts) opts rbs of
                     (Some rb, ms') \<Rightarrow>
                       (\<lparr>v_allowed = True, v_uid = BindingUIDFromRB (Some rb),
                         v_class = firstMatchSubjectClass (rb_subjects rb) opts\<rparr>, ms @ ms')
                   | (None, ms') \<Rightarrow> (denied, ms @ ms'))
             else (denied, ms))"

section \<open>The reference: a linear scan\<close>

definition roleGrants :: "RBACSnapshot \<Rightarrow> gostring \<Rightarrow> RoleRef \<Rightarrow> EvaluateOptions \<Rightarrow> bool" where
  "roleGrants snap ns ref opts \<longleftrightarrow>
     (\<exists>rules. lookupRoleRefRules snap ns ref = Some rules \<and> (\<exists>rule\<in>set rules. ruleAllows rule opts))"

definition crbGrants :: "RBACSnapshot \<Rightarrow> EvaluateOptions \<Rightarrow> ClusterRoleBinding \<Rightarrow> bool" where
  "crbGrants snap opts b \<longleftrightarrow>
     (\<exists>s\<in>set (crb_subjects b). subjectNames s opts) \<and> roleGrants snap [] (crb_roleref b) opts"

definition rbGrants :: "RBACSnapshot \<Rightarrow> EvaluateOptions \<Rightarrow> RoleBinding \<Rightarrow> bool" where
  "rbGrants snap opts b \<longleftrightarrow>
     (\<exists>s\<in>set (rb_subjects b). subjectNames s opts) \<and>
     roleGrants snap (opt_namespace opts) (rb_roleref b) opts"

definition linearPermits :: "RBACSnapshot \<Rightarrow> EvaluateOptions \<Rightarrow> bool" where
  "linearPermits snap opts \<longleftrightarrow>
     (\<exists>b\<in>set (crbsOf snap). crbGrants snap opts b) \<or>
     opt_namespace opts \<noteq> [] \<and> (\<exists>b\<in>set (rbsIn snap (opt_namespace opts)). rbGrants snap opts b)"

section \<open>The contract of a selector\<close>

text \<open>
  An index over the bindings \<open>all\<close>: each bucket holds the bindings with a subject that belongs
  there. What routing gives from it is a set between the bindings that match and all bindings, and
  depends on the requester's identity only.
\<close>

text \<open>
  A User subject with an empty name equals the empty username of a requester that presents none,
  but the selectors look no bucket up for an empty username. The bindings without such a subject
  are the ones the index is complete for, whoever asks.
\<close>

definition noEmptyUser :: "Subject list \<Rightarrow> bool" where
  "noEmptyUser ss \<longleftrightarrow> (\<forall>s\<in>set ss. sub_kind s = UserKind \<longrightarrow> sub_name s \<noteq> [])"

lemma prod_eta3: "(fst p, fst (snd p), snd (snd p)) = p"
  by simp

locale subject_index =
  fixes bindings :: "'b set" and subjects :: "'b \<Rightarrow> Subject list"
    and byUser :: "gostring \<Rightarrow> 'b list" and byGroup :: "gostring \<Rightarrow> 'b list"
    and byServiceAccount :: "gostring \<Rightarrow> 'b list" and catchAll :: "'b list"
  assumes byUser: "set (byUser k) = {b \<in> bindings. \<exists>s\<in>set (subjects b). userNamed k s}"
    and byGroup: "set (byGroup k) = {b \<in> bindings. \<exists>s\<in>set (subjects b). groupNamed k s}"
    and byServiceAccount: "set (byServiceAccount k) = {b \<in> bindings. \<exists>s\<in>set (subjects b). saKeyed k s}"
    and catchAll: "set catchAll = {b \<in> bindings. \<exists>s\<in>set (subjects b). unrecognised s}"
begin

lemma set_route:
  assumes p: "parseServiceAccountUsername (opt_username opts) = (ns, name, isSA)"
  shows "set (routeRBSubjects opts byUser byGroup byServiceAccount catchAll) =
    {b \<in> bindings. \<exists>s\<in>set (subjects b).
        opt_username opts \<noteq> [] \<and> userNamed (opt_username opts) s \<or>
        (\<exists>g\<in>heldGroups opts. groupNamed g s) \<or>
        isSA \<and> saKeyed (saKey ns name) s \<or> unrecognised s}"
proof -
  have groups: "heldGroups opts = set (effectiveGroups opts isSA ns) \<union>
      (if opt_username opts \<noteq> [] then {systemAuthenticatedGroup} else {})"
    using heldGroups_effective [OF p] by auto
  show ?thesis
    unfolding routeRBSubjects_def p prod.case Let_def groups
    by (cases "opt_username opts = []"; cases isSA)
      (simp_all add: byUser byGroup byServiceAccount catchAll, blast+)
qed

lemma route_subset:
  "set (routeRBSubjects opts byUser byGroup byServiceAccount catchAll) \<subseteq> bindings"
  using set_route [OF prod_eta3 [symmetric]] by blast

lemma route_complete:
  assumes "b \<in> bindings" "s \<in> set (subjects b)" "subjectNames s opts"
    and ne: "opt_username opts \<noteq> [] \<or> sub_kind s \<noteq> UserKind"
  shows "b \<in> set (routeRBSubjects opts byUser byGroup byServiceAccount catchAll)"
  using assms unfolding set_route [OF prod_eta3 [symmetric]] subjectNames_def subject_tests
  by auto

lemma route_filter:
  assumes "opt_username opts \<noteq> [] \<or> (\<forall>b\<in>bindings. noEmptyUser (subjects b))"
  shows "b \<in> set (routeRBSubjects opts byUser byGroup byServiceAccount catchAll) \<and>
      anySubjectMatches (subjects b) opts \<longleftrightarrow> b \<in> bindings \<and> anySubjectMatches (subjects b) opts"
proof
  assume b: "b \<in> bindings \<and> anySubjectMatches (subjects b) opts"
  then obtain s where s: "s \<in> set (subjects b)" "subjectNames s opts"
    by (auto simp: anySubjectMatches_iff)
  have "opt_username opts \<noteq> [] \<or> sub_kind s \<noteq> UserKind"
    using assms b s by (auto simp: noEmptyUser_def subjectNames_def)
  with b s show "b \<in> set (routeRBSubjects opts byUser byGroup byServiceAccount catchAll) \<and>
      anySubjectMatches (subjects b) opts" using route_complete by blast
qed (use route_subset in blast)

lemma route_sameIdentity:
  assumes "sameIdentity a b"
  shows "set (routeRBSubjects a byUser byGroup byServiceAccount catchAll) =
         set (routeRBSubjects b byUser byGroup byServiceAccount catchAll)"
  using assms heldGroups_sameIdentity [OF assms]
  unfolding set_route [OF prod_eta3 [symmetric]] by (simp add: sameIdentity_def)

end

lemma crb_index_contract:
  assumes "indexed snap"
  shows "subject_index (set (crbsOf snap)) crb_subjects (alookup (CRBsByUser snap))
    (alookup (CRBsByGroup snap)) (alookup (CRBsByServiceAccount snap)) (CRBsCatchAll snap)"
  using assms unfolding indexed_def indexedCRBs_def crbsNaming_def by unfold_locales simp_all

lemma rb_index_contract:
  assumes "indexed snap"
  shows "subject_index (set (rbsIn snap ns)) rb_subjects (alookup (alookup (RBsByUserByNS snap) ns))
    (alookup (alookup (RBsByGroupByNS snap) ns)) (alookup (alookup (RBsByServiceAccountByNS snap) ns))
    (alookup (RBsCatchAllByNS snap) ns)"
  using assms unfolding indexed_def indexedRBs_def rbsNaming_def by unfold_locales simp_all

lemma rb_allNS_index_contract:
  assumes "indexed snap"
  shows "subject_index (\<Union>ns. set (rbsIn snap ns)) rb_subjects (alookup (RBsByUserAllNS snap))
    (alookup (RBsByGroupAllNS snap)) (alookup (RBsByServiceAccountAllNS snap)) (RBsCatchAllAllNS snap)"
  using assms unfolding indexed_def indexedAllNS_def rbsNaming_def by unfold_locales auto

text \<open>The three indexes of every snapshot the writer collects keep the contract.\<close>

interpretation crbIndex: subject_index "set (crbsOf (collectSnapshot conv synced idx))" crb_subjects
    "alookup (CRBsByUser (collectSnapshot conv synced idx))"
    "alookup (CRBsByGroup (collectSnapshot conv synced idx))"
    "alookup (CRBsByServiceAccount (collectSnapshot conv synced idx))"
    "CRBsCatchAll (collectSnapshot conv synced idx)" for conv synced idx
  by (rule crb_index_contract) (rule collectSnapshot_indexed)

interpretation rbIndex: subject_index "set (rbsIn (collectSnapshot conv synced idx) ns)" rb_subjects
    "alookup (alookup (RBsByUserByNS (collectSnapshot conv synced idx)) ns)"
    "alookup (alookup (RBsByGroupByNS (collectSnapshot conv synced idx)) ns)"
    "alookup (alookup (RBsByServiceAccountByNS (collectSnapshot conv synced idx)) ns)"
    "alookup (RBsCatchAllByNS (collectSnapshot conv synced idx)) ns" for conv synced idx ns
  by (rule rb_index_contract) (rule collectSnapshot_indexed)

interpretation rbAllIndex: subject_index "\<Union>ns. set (rbsIn (collectSnapshot conv synced idx) ns)" rb_subjects
    "alookup (RBsByUserAllNS (collectSnapshot conv synced idx))"
    "alookup (RBsByGroupAllNS (collectSnapshot conv synced idx))"
    "alookup (RBsByServiceAccountAllNS (collectSnapshot conv synced idx))"
    "RBsCatchAllAllNS (collectSnapshot conv synced idx)" for conv synced idx
  by (rule rb_allNS_index_contract) (rule collectSnapshot_indexed)

section \<open>What the selectors return\<close>

definition identifiable :: "RBACSnapshot \<Rightarrow> EvaluateOptions \<Rightarrow> bool" where
  "identifiable snap opts \<longleftrightarrow> opt_username opts \<noteq> [] \<or>
     (\<forall>b\<in>set (crbsOf snap). noEmptyUser (crb_subjects b)) \<and>
     (\<forall>ns. \<forall>b\<in>set (rbsIn snap ns). noEmptyUser (rb_subjects b))"

lemmas selector_defs = selectCRBCandidates_def selectRBCandidates_def selectRBCandidatesAllNS_def

lemma distinct_route: "distinct (routeRBSubjects opts byUser byGroup byServiceAccount catchAll)"
  unfolding routeRBSubjects_def by (simp add: Let_def split: prod.split)

lemma distinct_selectors [simp]:
  "distinct (selectCRBCandidates psnap opts)" "distinct (selectRBCandidates psnap ns opts)"
  "distinct (selectRBCandidatesAllNS psnap opts)"
  unfolding selector_defs by (auto simp: distinct_route split: option.split)

lemma selectCRBCandidates_subset:
  "indexed snap \<Longrightarrow> set (selectCRBCandidates (Some snap) opts) \<subseteq> set (crbsOf snap)"
  by (simp add: selector_defs subject_index.route_subset [OF crb_index_contract])

lemma selectRBCandidates_subset:
  "indexed snap \<Longrightarrow> set (selectRBCandidates (Some snap) ns opts) \<subseteq> set (rbsIn snap ns)"
  using subject_index.route_subset [OF rb_index_contract] by (simp add: selector_defs)

lemma selectCRBCandidates_filter:
  assumes "indexed snap" "identifiable snap opts"
  shows "b \<in> set (selectCRBCandidates (Some snap) opts) \<and> anySubjectMatches (crb_subjects b) opts \<longleftrightarrow>
    b \<in> set (crbsOf snap) \<and> anySubjectMatches (crb_subjects b) opts"
  using subject_index.route_filter [OF crb_index_contract [OF assms(1)]] assms(2)
  unfolding identifiable_def selector_defs option.case by blast

lemma selectRBCandidates_filter:
  assumes "indexed snap" "identifiable snap opts" "ns \<noteq> []"
  shows "b \<in> set (selectRBCandidates (Some snap) ns opts) \<and> anySubjectMatches (rb_subjects b) opts \<longleftrightarrow>
    b \<in> set (rbsIn snap ns) \<and> anySubjectMatches (rb_subjects b) opts"
  using subject_index.route_filter [OF rb_index_contract [OF assms(1)]] assms(2,3)
  unfolding identifiable_def selector_defs option.case by simp

lemma selectRBCandidatesAllNS_filter:
  assumes "indexed snap" "identifiable snap opts"
  shows "b \<in> set (selectRBCandidatesAllNS (Some snap) opts) \<and> anySubjectMatches (rb_subjects b) opts \<longleftrightarrow>
    (\<exists>ns. b \<in> set (rbsIn snap ns)) \<and> anySubjectMatches (rb_subjects b) opts"
  using subject_index.route_filter [OF rb_allNS_index_contract [OF assms(1)]] assms(2)
  unfolding identifiable_def selector_defs option.case by blast

section \<open>The walk is a first match\<close>

definition walkAccepts ::
  "('b \<Rightarrow> Subject list) \<Rightarrow> ('b \<Rightarrow> RoleRef) \<Rightarrow> RBACSnapshot \<Rightarrow> gostring \<Rightarrow> EvaluateOptions \<Rightarrow> 'b \<Rightarrow> bool" where
  "walkAccepts subjects roleref snap ns opts b \<longleftrightarrow>
     anySubjectMatches (subjects b) opts \<and> roleGrants snap ns (roleref b) opts"

lemma roleRefPermits_iff: "fst (roleRefPermits snap ns ref opts) \<longleftrightarrow> roleGrants snap ns ref opts"
  by (auto simp: roleRefPermits_def roleGrants_def rulesPermit_iff split: option.split)

lemma roleRefPermits_synced: "Synced snap \<Longrightarrow> snd (roleRefPermits snap ns ref opts) = []"
  by (simp add: roleRefPermits_def split: option.split)

lemma walkBindings_find:
  "fst (walkBindings subjects roleref snap ns opts bs) = find (walkAccepts subjects roleref snap ns opts) bs"
proof (induction bs)
  case (Cons b bs)
  then show ?case
    using roleRefPermits_iff [of snap ns "roleref b" opts]
    by (auto simp: walkAccepts_def split: prod.splits bool.splits)
qed simp

lemma walkBindings_synced: "Synced snap \<Longrightarrow> snd (walkBindings subjects roleref snap ns opts bs) = []"
proof (induction bs)
  case (Cons b bs)
  then show ?case
    using roleRefPermits_synced [of snap ns "roleref b" opts]
    by (auto split: prod.splits bool.splits)
qed simp

lemma find_Some_iff: "find P xs = Some x \<Longrightarrow> x \<in> set xs \<and> P x"
  by (induction xs) (auto split: if_splits)

lemma find_eq_None: "find P xs = None \<longleftrightarrow> (\<forall>x\<in>set xs. \<not> P x)"
  by (induction xs) auto

lemma crbGrants_walk: "crbGrants snap opts b = walkAccepts crb_subjects crb_roleref snap [] opts b"
  by (simp add: crbGrants_def walkAccepts_def anySubjectMatches_iff)

lemma rbGrants_walk:
  "rbGrants snap opts b = walkAccepts rb_subjects rb_roleref snap (opt_namespace opts) opts b"
  by (simp add: rbGrants_def walkAccepts_def anySubjectMatches_iff)

text \<open>The two phases as two finds over the candidates in their walking order.\<close>

definition crbOrder :: "RBACSnapshot \<Rightarrow> EvaluateOptions \<Rightarrow> ClusterRoleBinding list" where
  "crbOrder snap opts = (let cs = selectCRBCandidates (Some snap) opts in
     if opt_skipuid opts then cs else sortCRBsStable cs)"

definition rbOrder :: "RBACSnapshot \<Rightarrow> EvaluateOptions \<Rightarrow> RoleBinding list" where
  "rbOrder snap opts = (let rs = selectRBCandidates (Some snap) (opt_namespace opts) opts in
     if opt_skipuid opts then rs else sortRBsStable rs)"

lemma set_orders [simp]:
  "set (crbOrder snap opts) = set (selectCRBCandidates (Some snap) opts)"
  "set (rbOrder snap opts) = set (selectRBCandidates (Some snap) (opt_namespace opts) opts)"
  by (simp_all add: crbOrder_def rbOrder_def sortCRBsStable_def sortRBsStable_def Let_def)

definition crbVerdict :: "EvaluateOptions \<Rightarrow> ClusterRoleBinding \<Rightarrow> verdict" where
  "crbVerdict opts b = \<lparr>v_allowed = True, v_uid = BindingUIDFromCRB (Some b),
     v_class = firstMatchSubjectClass (crb_subjects b) opts\<rparr>"

definition rbVerdict :: "EvaluateOptions \<Rightarrow> RoleBinding \<Rightarrow> verdict" where
  "rbVerdict opts b = \<lparr>v_allowed = True, v_uid = BindingUIDFromRB (Some b),
     v_class = firstMatchSubjectClass (rb_subjects b) opts\<rparr>"

lemma evaluate_finds:
  "fst (evaluateAgainstInformerFirstMatch snap opts) =
    (case find (crbGrants snap opts) (crbOrder snap opts) of
       Some b \<Rightarrow> crbVerdict opts b
     | None \<Rightarrow> if opt_namespace opts = [] then denied
         else (case find (rbGrants snap opts) (rbOrder snap opts) of
                 Some b \<Rightarrow> rbVerdict opts b | None \<Rightarrow> denied))"
proof -
  obtain c ms where w: "walkBindings crb_subjects crb_roleref snap [] opts (crbOrder snap opts) = (c, ms)"
    by fastforce
  obtain r ms' where w': "walkBindings rb_subjects rb_roleref snap (opt_namespace opts) opts
      (rbOrder snap opts) = (r, ms')" by fastforce
  have c: "find (crbGrants snap opts) (crbOrder snap opts) = c"
    using walkBindings_find [of crb_subjects crb_roleref snap "[]" opts "crbOrder snap opts"] w
    by (simp add: crbGrants_walk [abs_def])
  have r: "find (rbGrants snap opts) (rbOrder snap opts) = r"
    using walkBindings_find [of rb_subjects rb_roleref snap "opt_namespace opts" opts "rbOrder snap opts"] w'
    by (simp add: rbGrants_walk [abs_def])
  show ?thesis
    unfolding c r evaluateAgainstInformerFirstMatch_def Let_def
      crbOrder_def [unfolded Let_def, symmetric] rbOrder_def [unfolded Let_def, symmetric] w w'
    by (cases c; cases r) (simp_all add: crbVerdict_def rbVerdict_def)
qed

lemma find_crb_None:
  assumes "indexed snap" "identifiable snap opts"
  shows "find (crbGrants snap opts) (crbOrder snap opts) = None \<longleftrightarrow>
    (\<forall>b\<in>set (crbsOf snap). \<not> crbGrants snap opts b)"
  using selectCRBCandidates_filter [OF assms]
  unfolding find_eq_None crbGrants_walk walkAccepts_def set_orders by blast

lemma find_rb_None:
  assumes "indexed snap" "identifiable snap opts" "opt_namespace opts \<noteq> []"
  shows "find (rbGrants snap opts) (rbOrder snap opts) = None \<longleftrightarrow>
    (\<forall>b\<in>set (rbsIn snap (opt_namespace opts)). \<not> rbGrants snap opts b)"
  using selectRBCandidates_filter [OF assms]
  unfolding find_eq_None rbGrants_walk walkAccepts_def set_orders by blast

section \<open>Two snapshots with the same content\<close>

definition sameContent :: "RBACSnapshot \<Rightarrow> RBACSnapshot \<Rightarrow> bool" where
  "sameContent s s' \<longleftrightarrow> set (crbsOf s) = set (crbsOf s') \<and> (\<forall>ns. set (rbsIn s ns) = set (rbsIn s' ns)) \<and>
     ClusterRolesByName s = ClusterRolesByName s' \<and> RolesByNSName s = RolesByNSName s'"

text \<open>The apiserver keeps names unique per kind and namespace.\<close>

definition distinctNames :: "RBACSnapshot \<Rightarrow> bool" where
  "distinctNames snap \<longleftrightarrow> inj_on crb_name (set (crbsOf snap)) \<and>
     (\<forall>ns. inj_on rb_name (set (rbsIn snap ns)))"

definition sameRequest :: "EvaluateOptions \<Rightarrow> EvaluateOptions \<Rightarrow> bool" where
  "sameRequest a b \<longleftrightarrow> sameIdentity a b \<and> sameAction a b \<and> opt_namespace a = opt_namespace b"

lemma sameContent_refl [simp]: "sameContent s s"
  by (simp add: sameContent_def)

lemma sameRequest_refl [simp]: "sameRequest a a"
  by (simp add: sameRequest_def sameAction_def)

lemma ruleAllows_sameAction: "sameAction a b \<Longrightarrow> ruleAllows rule a = ruleAllows rule b"
  by (simp add: sameAction_def ruleAllows_def)

lemma roleGrants_same:
  "sameContent s s' \<Longrightarrow> sameAction a b \<Longrightarrow> roleGrants s ns ref a = roleGrants s' ns ref b"
  by (simp add: roleGrants_def lookupRoleRefRules_def sameContent_def ruleAllows_sameAction)

lemma grants_same:
  assumes "sameContent s s'" "sameRequest a b"
  shows "crbGrants s a = crbGrants s' b" "rbGrants s a = rbGrants s' b"
proof -
  have "sameIdentity a b" "sameAction a b" "opt_namespace a = opt_namespace b"
    using assms(2) by (simp_all add: sameRequest_def)
  then show "crbGrants s a = crbGrants s' b" "rbGrants s a = rbGrants s' b"
    using roleGrants_same [OF assms(1)] anySubjectMatches_sameIdentity
    by (simp_all add: fun_eq_iff crbGrants_walk rbGrants_walk walkAccepts_def)
qed

lemma candidates_same:
  assumes "indexed s" "indexed s'" "sameContent s s'" "sameRequest a b"
  shows "set (selectCRBCandidates (Some s) a) = set (selectCRBCandidates (Some s') b)"
    and "set (selectRBCandidates (Some s) ns a) = set (selectRBCandidates (Some s') ns b)"
proof -
  have i: "sameIdentity a b" using assms(4) by (simp add: sameRequest_def)
  note same = i [unfolded sameIdentity_def] heldGroups_sameIdentity [OF i]
    assms(3) [unfolded sameContent_def]
  show "set (selectCRBCandidates (Some s) a) = set (selectCRBCandidates (Some s') b)"
    using same subject_index.set_route [OF crb_index_contract [OF assms(1)] prod_eta3 [symmetric], of a]
      subject_index.set_route [OF crb_index_contract [OF assms(2)] prod_eta3 [symmetric], of b]
    by (simp add: selector_defs)
  show "set (selectRBCandidates (Some s) ns a) = set (selectRBCandidates (Some s') ns b)"
    using same subject_index.set_route [OF rb_index_contract [OF assms(1), of ns] prod_eta3 [symmetric], of a]
      subject_index.set_route [OF rb_index_contract [OF assms(2), of ns] prod_eta3 [symmetric], of b]
    by (simp add: selector_defs)
qed

lemma orders_same:
  assumes "indexed s" "indexed s'" "sameContent s s'" "sameRequest a b" "distinctNames s"
    and skip: "\<not> opt_skipuid a" and skip': "\<not> opt_skipuid b"
  shows "crbOrder s a = crbOrder s' b" "rbOrder s a = rbOrder s' b"
proof -
  have ns: "opt_namespace a = opt_namespace b" using assms(4) by (simp add: sameRequest_def)
  have "inj_on (\<lambda>b. (crb_name b, crb_uid b)) (set (selectCRBCandidates (Some s) a))"
    using selectCRBCandidates_subset [OF assms(1), of a] assms(5)
    unfolding distinctNames_def inj_on_def by blast
  then show "crbOrder s a = crbOrder s' b"
    using candidates_same(1) [OF assms(1-4)] skip skip'
    by (simp add: crbOrder_def sortCRBsStable_def Let_def) (rule sort_key_distinct_eq; simp)
  have "inj_on (\<lambda>b. (rb_ns b, rb_name b, rb_uid b)) (set (selectRBCandidates (Some s) (opt_namespace a) a))"
    using selectRBCandidates_subset [OF assms(1), of "opt_namespace a" a] assms(5)
    unfolding distinctNames_def inj_on_def by blast
  then show "rbOrder s a = rbOrder s' b"
    using candidates_same(2) [OF assms(1-4), of "opt_namespace a"] skip skip' ns
    by (simp add: rbOrder_def sortRBsStable_def Let_def) (rule sort_key_distinct_eq; simp)
qed

lemma verdict_allowed [simp]:
  "v_allowed (crbVerdict opts b)" "v_allowed (rbVerdict opts b')" "\<not> v_allowed denied"
  by (simp_all add: crbVerdict_def rbVerdict_def denied_def)

lemma verdict_same:
  assumes "indexed s" "indexed s'" "sameContent s s'" "sameRequest a b"
  shows "v_allowed (fst (evaluateAgainstInformerFirstMatch s a)) =
         v_allowed (fst (evaluateAgainstInformerFirstMatch s' b))"
proof -
  have ns: "opt_namespace a = opt_namespace b" using assms(4) by (simp add: sameRequest_def)
  have "find (crbGrants s a) (crbOrder s a) = None \<longleftrightarrow> find (crbGrants s' b) (crbOrder s' b) = None"
    "find (rbGrants s a) (rbOrder s a) = None \<longleftrightarrow> find (rbGrants s' b) (rbOrder s' b) = None"
    unfolding find_eq_None set_orders candidates_same [OF assms] grants_same [OF assms(3,4)] ns by simp_all
  then show ?thesis by (auto simp: evaluate_finds ns split: option.split)
qed

lemma answer_same:
  assumes "indexed s" "indexed s'" "sameContent s s'" "distinctNames s" "sameRequest a b"
    and skip: "\<not> opt_skipuid a" "\<not> opt_skipuid b"
  shows "fst (evaluateAgainstInformerFirstMatch s a) = fst (evaluateAgainstInformerFirstMatch s' b)"
proof -
  have v: "crbVerdict a = crbVerdict b" "rbVerdict a = rbVerdict b" "opt_namespace a = opt_namespace b"
    using assms(5) firstMatchSubjectClass_sameIdentity [of a b]
    by (simp_all add: fun_eq_iff crbVerdict_def rbVerdict_def sameRequest_def)
  show ?thesis
    unfolding evaluate_finds v grants_same [OF assms(3,5)] orders_same [OF assms(1-3,5,4) skip] ..
qed

end
