(* ===== verification/RBACExample.thy ===== *)
theory RBACExample
  imports RBACEvaluate
begin

text \<open>
  One small cluster the witnesses run on: the ClusterRoleBinding \<open>view\<close> gives the user alice and
  the group devs the ClusterRole \<open>viewer\<close> (get and list on pods), and in the namespace demo the
  RoleBinding \<open>edit\<close> gives the service account demo/bot the Role \<open>editor\<close> (every verb on
  deployments of apps).
\<close>

definition exSubject :: "gostring \<Rightarrow> gostring \<Rightarrow> gostring \<Rightarrow> Subject" where
  "exSubject k ns n = \<lparr>sub_kind = k, sub_name = n, sub_ns = ns\<rparr>"

definition exRef :: "gostring \<Rightarrow> gostring \<Rightarrow> RoleRef" where
  "exRef k n = \<lparr>ref_apigroup = ''rbac'', ref_kind = k, ref_name = n\<rparr>"

definition exRule :: "gostring list \<Rightarrow> gostring \<Rightarrow> gostring \<Rightarrow> PolicyRule" where
  "exRule vs g r = \<lparr>rule_verbs = vs, rule_apigroups = [g], rule_resources = [r], rule_resourcenames = [],
     rule_nonresourceurls = []\<rparr>"

definition exCRB :: ClusterRoleBinding where
  "exCRB = \<lparr>crb_addr = 1, crb_name = ''view'', crb_uid = ''u1'', crb_rv = ''10'',
     crb_subjects = [exSubject UserKind [] ''alice'', exSubject GroupKind [] ''devs''],
     crb_roleref = exRef ''ClusterRole'' ''viewer''\<rparr>"

definition exRB :: RoleBinding where
  "exRB = \<lparr>rb_addr = 2, rb_ns = ''demo'', rb_name = ''edit'', rb_uid = ''u2'', rb_rv = ''11'',
     rb_subjects = [exSubject ServiceAccountKind ''demo'' ''bot''],
     rb_roleref = exRef ''Role'' ''editor''\<rparr>"

definition exConverters :: "unit converters" where
  "exConverters = \<lparr>convertUnstructuredCRB = (\<lambda>_. None), convertUnstructuredRB = (\<lambda>_. None),
     convertUnstructuredCR = (\<lambda>_. None), convertUnstructuredR = (\<lambda>_. None)\<rparr>"

definition exIndexers :: "ClusterRoleBinding list \<Rightarrow> unit indexers" where
  "exIndexers crbs = \<lparr>idx_crbs = Some (map Typed crbs), idx_rbs = Some [Typed exRB],
     idx_crs = Some [Typed \<lparr>cr_name = ''viewer'', cr_rv = ''12'', cr_rules = [exRule [''get'', ''list''] [] ''pods'']\<rparr>],
     idx_roles = Some [Typed \<lparr>role_ns = ''demo'', role_name = ''editor'', role_rv = ''13'',
                              role_rules = [exRule [''*''] ''apps'' ''deployments'']\<rparr>]\<rparr>"

definition exSnapshotOf :: "ClusterRoleBinding list \<Rightarrow> RBACSnapshot" where
  "exSnapshotOf crbs = collectSnapshot exConverters True (exIndexers crbs)"

definition exSnapshot :: RBACSnapshot where
  "exSnapshot = exSnapshotOf [exCRB]"

definition exRequest :: "gostring \<Rightarrow> gostring list \<Rightarrow> gostring \<Rightarrow> EvaluateOptions" where
  "exRequest u gs verb = \<lparr>opt_username = u, opt_groups = gs, opt_verb = verb, opt_group = [],
     opt_resource = ''pods'', opt_namespace = [], opt_name = [], opt_skipuid = False\<rparr>"

lemmas ex_objects = exSubject_def exRef_def exRule_def exCRB_def exRB_def

lemma exSnapshotOf_fields [simp]:
  "crbsOf (exSnapshotOf crbs) = crbs"
  "rbsIn (exSnapshotOf crbs) ns = (if ns = ''demo'' then [exRB] else [])"
  "Synced (exSnapshotOf crbs) = True"
  "indexed (exSnapshotOf crbs)"
  "ClusterRolesByName (exSnapshotOf crbs) =
     [''viewer'' \<mapsto> \<lparr>cr_name = ''viewer'', cr_rv = ''12'', cr_rules = [exRule [''get'', ''list''] [] ''pods'']\<rparr>]"
  "RolesByNSName (exSnapshotOf crbs) =
     [''demo/editor'' \<mapsto> \<lparr>role_ns = ''demo'', role_name = ''editor'', role_rv = ''13'',
        role_rules = [exRule [''*''] ''apps'' ''deployments'']\<rparr>]"
  by (simp_all add: exSnapshotOf_def exIndexers_def typedItems_def map_filter_def o_def collectCRs_def
      collectRoles_def saKey_def
      collectSnapshot_indexed exRB_def)

lemma exRequest_fields [simp]:
  "opt_username (exRequest u gs verb) = u" "opt_groups (exRequest u gs verb) = gs"
  "opt_verb (exRequest u gs verb) = verb" "opt_group (exRequest u gs verb) = []"
  "opt_resource (exRequest u gs verb) = ''pods''" "opt_namespace (exRequest u gs verb) = []"
  "opt_skipuid (exRequest u gs verb) = False" "opt_name (exRequest u gs verb) = []"
  by (simp_all add: exRequest_def)

lemma exRequest_identifiable [simp]: "u \<noteq> [] \<Longrightarrow> identifiable snap (exRequest u gs verb)"
  by (simp add: identifiable_def)

lemma exSnapshotOf_distinctNames [simp]:
  "inj_on crb_name (set crbs) \<Longrightarrow> distinctNames (exSnapshotOf crbs)"
  by (simp add: distinctNames_def inj_on_def del: in_crbsOf in_rbsIn)

lemma ex_alice_permitted: "linearPermits exSnapshot (exRequest ''alice'' gs ''get'')"
  unfolding linearPermits_def exSnapshot_def
  by (simp add: crbGrants_def subjectNames_def roleGrants_def lookupRoleRefRules_def
      ruleAllows_def ex_objects kind_defs del: in_crbsOf in_rbsIn)

end
