(* ===== verification/RBACCorrect.thy ===== *)
theory RBACCorrect
  imports RBACExample
begin

text \<open>
  The evaluator is correct: its verdict is the linear scan's, its permits name a binding that
  grants, its answer does not depend on any order the cluster or the request was read in, and the
  role lookups it reports as missing are those of a snapshot that is not synced.
\<close>

section \<open>The verdict\<close>

lemma crbs_found:
  assumes "indexed snap" "find (crbGrants snap opts) (crbOrder snap opts) = Some b"
  shows "b \<in> set (crbsOf snap)" "crbGrants snap opts b"
  using find_Some_iff [OF assms(2)] selectCRBCandidates_subset [OF assms(1)] by (auto simp del: in_crbsOf)

lemma rbs_found:
  assumes "indexed snap" "find (rbGrants snap opts) (rbOrder snap opts) = Some b"
  shows "b \<in> set (rbsIn snap (opt_namespace opts))" "rbGrants snap opts b"
  using find_Some_iff [OF assms(2)] selectRBCandidates_subset [OF assms(1)] by (auto simp del: in_rbsIn)

text \<open>C21: On a snapshot the writer collected, for a requester with a username (or when no binding has a
  User subject with an empty name), the indexed first-match evaluation permits exactly when the
  linear scan over every binding does.\<close>

theorem evaluate_eq_linear_scan:
  assumes "indexed snap" "identifiable snap opts"
  shows "v_allowed (fst (evaluateAgainstInformerFirstMatch snap opts)) = linearPermits snap opts"
proof (cases "find (crbGrants snap opts) (crbOrder snap opts)")
  case None
  then have "\<forall>b\<in>set (crbsOf snap). \<not> crbGrants snap opts b" using find_crb_None [OF assms] by blast
  then show ?thesis
    using None find_rb_None [OF assms] rbs_found [OF assms(1)]
    by (auto simp: evaluate_finds linearPermits_def simp del: in_crbsOf in_rbsIn split: option.split)
next
  case (Some b)
  then show ?thesis
    using crbs_found [OF assms(1) Some] by (auto simp: evaluate_finds linearPermits_def simp del: in_crbsOf)
qed

lemma evaluate_eq_linear_scan_witness:
  "v_allowed (fst (evaluateAgainstInformerFirstMatch exSnapshot (exRequest ''alice'' [] ''get'')))"
  using evaluate_eq_linear_scan [of exSnapshot "exRequest ''alice'' [] ''get''"] ex_alice_permitted
  by (simp add: exSnapshot_def)

text \<open>C27: Whoever asks, a permit names the identity of a binding of the snapshot that names the
  requester and whose role allows the action, and everything that is not a permit is the plain deny
  with an empty identity: no path grants more than the bindings do.\<close>

theorem evaluate_permits_only_grants:
  assumes "indexed snap"
  shows "fst (evaluateAgainstInformerFirstMatch snap opts) = denied \<or>
    (\<exists>b\<in>set (crbsOf snap). crbGrants snap opts b \<and>
       fst (evaluateAgainstInformerFirstMatch snap opts) = crbVerdict opts b) \<or>
    (\<exists>b\<in>set (rbsIn snap (opt_namespace opts)). opt_namespace opts \<noteq> [] \<and> rbGrants snap opts b \<and>
       fst (evaluateAgainstInformerFirstMatch snap opts) = rbVerdict opts b)"
  using crbs_found [OF assms, of opts] rbs_found [OF assms, of opts]
  by (auto simp: evaluate_finds simp del: in_crbsOf in_rbsIn split: option.split)

lemma evaluate_permits_only_grants_witness:
  "fst (evaluateAgainstInformerFirstMatch exSnapshot (exRequest ''alice'' [] ''get'')) =
     crbVerdict (exRequest ''alice'' [] ''get'') exCRB"
proof -
  have "v_allowed (fst (evaluateAgainstInformerFirstMatch exSnapshot (exRequest ''alice'' [] ''get'')))"
    unfolding evaluate_finds exSnapshot_def
    using find_crb_None [of "exSnapshotOf [exCRB]" "exRequest ''alice'' [] ''get''"]
      ex_alice_permitted [of "[]"]
    by (auto simp: linearPermits_def exSnapshot_def simp del: in_crbsOf in_rbsIn split: option.split)
  then show ?thesis
    using evaluate_permits_only_grants [of exSnapshot "exRequest ''alice'' [] ''get''"]
    by (auto simp: exSnapshot_def simp del: in_crbsOf in_rbsIn)
qed

text \<open>When the binding identity is wanted, the whole answer (verdict, identity, winning class)
  is a function of the snapshot's content and the requester's identity as sets: two snapshots with
  the same bindings and roles, read in any order, and two requests whose groups are listed in any
  order or number of times, get the same answer.\<close>

theorem evaluate_order_independent:
  assumes "indexed s" "indexed s'" "sameContent s s'" "distinctNames s"
    and "sameRequest a b" "\<not> opt_skipuid a" "\<not> opt_skipuid b"
  shows "fst (evaluateAgainstInformerFirstMatch s a) = fst (evaluateAgainstInformerFirstMatch s' b)"
  using assms by (rule answer_same)

lemma evaluate_order_independent_witness:
  "fst (evaluateAgainstInformerFirstMatch (exSnapshotOf [exCRB, exCRB\<lparr>crb_name := ''also''\<rparr>])
          (exRequest ''bob'' [''ops'', ''devs''] ''get'')) =
   fst (evaluateAgainstInformerFirstMatch (exSnapshotOf [exCRB\<lparr>crb_name := ''also''\<rparr>, exCRB])
          (exRequest ''bob'' [''devs'', ''ops''] ''get''))"
  by (rule evaluate_order_independent)
    (auto simp: sameContent_def sameRequest_def sameIdentity_def sameAction_def ex_objects
      simp del: in_crbsOf in_rbsIn)

text \<open>The verdict alone depends on even less: whether the binding identity is wanted (and so
  whether candidates are sorted) and how names repeat make no difference to it.\<close>

theorem evaluate_skip_same_verdict:
  assumes "indexed s" "indexed s'" "sameContent s s'" "sameRequest a b"
  shows "v_allowed (fst (evaluateAgainstInformerFirstMatch s (a\<lparr>opt_skipuid := x\<rparr>))) =
         v_allowed (fst (evaluateAgainstInformerFirstMatch s' (b\<lparr>opt_skipuid := y\<rparr>)))"
  using assms by (intro verdict_same) (auto simp: sameRequest_def sameIdentity_def sameAction_def)

lemma evaluate_skip_same_verdict_witness:
  "v_allowed (fst (evaluateAgainstInformerFirstMatch (exSnapshotOf [exCRB, exCRB\<lparr>crb_addr := 7\<rparr>])
          ((exRequest ''bob'' [''ops'', ''devs''] ''get'')\<lparr>opt_skipuid := True\<rparr>))) =
   v_allowed (fst (evaluateAgainstInformerFirstMatch (exSnapshotOf [exCRB\<lparr>crb_addr := 7\<rparr>, exCRB])
          ((exRequest ''bob'' [''devs'', ''ops''] ''get'')\<lparr>opt_skipuid := False\<rparr>)))"
  by (rule evaluate_skip_same_verdict)
    (auto simp: sameContent_def sameRequest_def sameIdentity_def sameAction_def simp del: in_crbsOf in_rbsIn)

section \<open>Misses\<close>

definition absentRole :: "RBACSnapshot \<Rightarrow> gostring \<Rightarrow> miss \<Rightarrow> bool" where
  "absentRole snap ns m \<longleftrightarrow>
     (\<exists>name. m = (''ClusterRole'', [], name) \<and> ClusterRolesByName snap name = None) \<or>
     (\<exists>name. m = (''Role'', ns, name) \<and> ns \<noteq> [] \<and> RolesByNSName snap (saKey ns name) = None)"

lemma roleRefPermits_misses:
  "m \<in> set (snd (roleRefPermits snap ns ref opts)) \<Longrightarrow> \<not> Synced snap \<and> absentRole snap ns m"
  by (auto simp: roleRefPermits_def lookupRoleRefRules_def absentRole_def split: option.splits if_splits)

lemma walkBindings_misses:
  "m \<in> set (snd (walkBindings subjects roleref snap ns opts bs)) \<Longrightarrow> \<not> Synced snap \<and> absentRole snap ns m"
proof (induction bs)
  case (Cons b bs)
  then show ?case
    using roleRefPermits_misses [of m snap ns "roleref b" opts]
    by (auto split: prod.splits bool.splits if_splits)
qed simp

lemma snd_prod_case: "z = (a, b) \<Longrightarrow> m \<in> set b \<Longrightarrow> m \<in> set (snd z)"
  by simp

text \<open>A role lookup is reported as missing only on a snapshot that is not synced, and only for a
  ClusterRole or a Role of the request's namespace that the snapshot really lacks.\<close>

theorem evaluate_reports_absent_roles:
  assumes "m \<in> set (snd (evaluateAgainstInformerFirstMatch snap opts))"
  shows "\<not> Synced snap \<and> (absentRole snap [] m \<or> absentRole snap (opt_namespace opts) m)"
  using assms unfolding evaluateAgainstInformerFirstMatch_def Let_def
  by (auto split: prod.splits option.splits if_splits dest!: snd_prod_case [THEN walkBindings_misses])

definition exUnsynced :: RBACSnapshot where
  "exUnsynced = (exSnapshotOf [exCRB])\<lparr>Synced := False, ClusterRolesByName := Map.empty,
     CRBsByUser := [(''alice'', [exCRB])], CRBsByGroup := [], CRBsCatchAll := []\<rparr>"

lemma evaluate_reports_absent_roles_witness:
  "absentRole exUnsynced [] (''ClusterRole'', [], ''viewer'')"
proof -
  have "parseServiceAccountUsername ''alice'' = ([], [], False)"
    by (simp add: parseServiceAccountUsername_def cutPrefix.simps)
  then have "selectCRBCandidates (Some exUnsynced) (exRequest ''alice'' [] ''get'') = [exCRB]"
    by (simp add: selector_defs routeRBSubjects_def effectiveGroups_def exUnsynced_def alookup_def)
  then have "(''ClusterRole'', [], ''viewer'')
      \<in> set (snd (evaluateAgainstInformerFirstMatch exUnsynced (exRequest ''alice'' [] ''get'')))"
    by (simp add: evaluateAgainstInformerFirstMatch_def sortCRBsStable_def roleRefPermits_def
        lookupRoleRefRules_def exUnsynced_def ex_objects anySubjectMatches_iff subjectNames_def kind_defs)
  from evaluate_reports_absent_roles [OF this] show ?thesis by simp
qed

section \<open>The empty username\<close>

definition exNoName :: "Subject list \<Rightarrow> ClusterRoleBinding" where
  "exNoName others = exCRB\<lparr>crb_subjects := exSubject UserKind [] [] # others\<rparr>"

text \<open>For a requester without a username the index is not a superset of what the subject matcher
  accepts: a binding whose subject is a User with an empty name is granted by the linear scan and
  denied by the indexed evaluation, and the same binding is permitted again when it also has a
  subject of an unrecognised kind.\<close>

theorem evaluate_empty_username:
  "linearPermits (exSnapshotOf [exNoName []]) (exRequest [] [] ''get'') \<and>
   \<not> v_allowed (fst (evaluateAgainstInformerFirstMatch (exSnapshotOf [exNoName []]) (exRequest [] [] ''get''))) \<and>
   v_allowed (fst (evaluateAgainstInformerFirstMatch
     (exSnapshotOf [exNoName [exSubject ''Robot'' [] ''r'']]) (exRequest [] [] ''get'')))"
proof -
  let ?o = "exRequest [] [] ''get''"
  have held: "heldGroups ?o = {}"
    by (simp add: heldGroups_def parseServiceAccountUsername_def cutPrefix.simps)
  have g: "crbGrants (exSnapshotOf cs) ?o (exNoName m)" for cs m
    by (simp add: crbGrants_def subjectNames_def roleGrants_def lookupRoleRefRules_def ruleAllows_def
        exNoName_def ex_objects)
  have none: "selectCRBCandidates (Some (exSnapshotOf [exNoName []])) ?o = []"
    using subject_index.set_route [OF crb_index_contract prod_eta3 [symmetric],
        of "exSnapshotOf [exNoName []]" ?o] held
    by (simp add: selector_defs exNoName_def exSubject_def subject_tests flip: set_empty del: in_crbsOf)
  have some: "exNoName [exSubject ''Robot'' [] ''r'']
      \<in> set (selectCRBCandidates (Some (exSnapshotOf [exNoName [exSubject ''Robot'' [] ''r'']])) ?o)"
    using subject_index.set_route [OF crb_index_contract prod_eta3 [symmetric],
        of "exSnapshotOf [exNoName [exSubject ''Robot'' [] ''r'']]" ?o]
    by (simp add: selector_defs exNoName_def exSubject_def subject_tests kind_defs del: in_crbsOf)
  have "linearPermits (exSnapshotOf [exNoName []]) ?o"
    using g by (auto simp: linearPermits_def simp del: in_crbsOf)
  moreover have "\<not> v_allowed (fst (evaluateAgainstInformerFirstMatch (exSnapshotOf [exNoName []]) ?o))"
    using none by (simp add: evaluate_finds crbOrder_def sortCRBsStable_def)
  moreover have "find (crbGrants (exSnapshotOf [exNoName [exSubject ''Robot'' [] ''r'']]) ?o)
      (crbOrder (exSnapshotOf [exNoName [exSubject ''Robot'' [] ''r'']]) ?o) \<noteq> None"
    unfolding find_eq_None set_orders using some g by blast
  ultimately show ?thesis by (auto simp: evaluate_finds)
qed

end
