(* ===== verification/GenerationMemo.thy ===== *)
theory GenerationMemo
  imports Prelude
begin

text \<open>
  The memo discipline the authorization memo, the requester profile memo and the binding set memo
  share (rbac/snapshot\_authz\_memo.go, profile.go, subject\_binding\_set.go): one atomic pointer to a
  shard that carries the generation it is valid for and a bounded map; a lookup at another generation
  swaps a fresh shard in. A goroutine that took a shard may still read and write it after it was
  swapped out, so shards live in a heap and an operation on a shard takes its address.

  The locale \<open>generation_memo\<close> is what the callers rely on: what is stored under a generation is
  only ever handed out for that generation. It is interpreted here on the shard operations, whose
  three users instantiate it.
\<close>

section \<open>Shards\<close>

record ('g, 'k, 'v) shard =
  sh_gen :: 'g
  sh_map :: "('k \<times> 'v) list"

record ('g, 'k, 'v) memo =
  memo_heap :: "('g, 'k, 'v) shard list"
  memo_cur :: "nat option"
  memo_hits :: "64 word"
  memo_misses :: "64 word"
  memo_swaps :: "64 word"
  memo_stores :: "64 word"
  memo_refused :: "64 word"

definition emptyMemo :: "('g, 'k, 'v) memo" where
  "emptyMemo = \<lparr>memo_heap = [], memo_cur = None, memo_hits = 0, memo_misses = 0, memo_swaps = 0,
     memo_stores = 0, memo_refused = 0\<rparr>"

text \<open>
  The load and compare-and-swap loop. A failed compare-and-swap changes nothing and reads the
  pointer again, so a run of the loop is its last iteration.
\<close>

definition currentShard :: "'g \<Rightarrow> ('g, 'k, 'v) memo \<Rightarrow> nat \<times> ('g, 'k, 'v) memo" where
  "currentShard gen m =
     (let fresh = (length (memo_heap m),
            m\<lparr>memo_heap := memo_heap m @ [\<lparr>sh_gen = gen, sh_map = []\<rparr>],
              memo_cur := Some (length (memo_heap m)), memo_swaps := memo_swaps m + 1\<rparr>)
      in case memo_cur m of
           None \<Rightarrow> fresh
         | Some a \<Rightarrow> if sh_gen (memo_heap m ! a) = gen then (a, m) else fresh)"

definition readShard :: "nat \<Rightarrow> 'k \<Rightarrow> ('g, 'k, 'v) memo \<Rightarrow> 'v option \<times> ('g, 'k, 'v) memo" where
  "readShard a k m = (case map_of (sh_map (memo_heap m ! a)) k of
       Some v \<Rightarrow> (Some v, m\<lparr>memo_hits := memo_hits m + 1\<rparr>)
     | None \<Rightarrow> (None, m\<lparr>memo_misses := memo_misses m + 1\<rparr>))"

text \<open>\<open>s.m[key] = v\<close> under the shard's lock.\<close>

definition putShard :: "nat \<Rightarrow> 'k \<Rightarrow> 'v \<Rightarrow> ('g, 'k, 'v) memo \<Rightarrow> ('g, 'k, 'v) memo" where
  "putShard a k v m = m\<lparr>memo_heap := (memo_heap m)[a := (memo_heap m ! a)
     \<lparr>sh_map := aput (sh_map (memo_heap m ! a)) k v\<rparr>]\<rparr>"

text \<open>\<open>storeWithCap\<close>: an existing key is overwritten, a new one is refused at the cap.\<close>

definition overwriteShard ::
  "nat \<Rightarrow> nat \<Rightarrow> 'k \<Rightarrow> 'v \<Rightarrow> ('g, 'k, 'v) memo \<Rightarrow> ('g, 'k, 'v) memo" where
  "overwriteShard cap a k v m =
     (if map_of (sh_map (memo_heap m ! a)) k = None \<and> length (sh_map (memo_heap m ! a)) \<ge> cap
      then m\<lparr>memo_refused := memo_refused m + 1\<rparr>
      else putShard a k v m)"

text \<open>The profile and binding set memos: an existing value is kept and returned instead.\<close>

definition keepShard ::
  "nat \<Rightarrow> nat \<Rightarrow> 'k \<Rightarrow> 'v \<Rightarrow> ('g, 'k, 'v) memo \<Rightarrow> 'v \<times> ('g, 'k, 'v) memo" where
  "keepShard cap a k v m = (case map_of (sh_map (memo_heap m ! a)) k of
       Some w \<Rightarrow> (w, m)
     | None \<Rightarrow>
         if length (sh_map (memo_heap m ! a)) \<ge> cap then (v, m\<lparr>memo_refused := memo_refused m + 1\<rparr>)
         else (v, (putShard a k v m)\<lparr>memo_stores := memo_stores m + 1\<rparr>))"

section \<open>What a shard holds\<close>

text \<open>
  Every entry of every shard ever made is an answer for that shard's generation, no shard exceeds
  its cap, and the current address is one of the heap.
\<close>

definition shardOK :: "('g \<Rightarrow> 'k \<Rightarrow> 'v \<Rightarrow> bool) \<Rightarrow> nat \<Rightarrow> ('g, 'k, 'v) shard \<Rightarrow> bool" where
  "shardOK answers cap s \<longleftrightarrow> length (sh_map s) \<le> cap \<and>
     (\<forall>k v. map_of (sh_map s) k = Some v \<longrightarrow> answers (sh_gen s) k v)"

definition memoOK :: "('g \<Rightarrow> 'k \<Rightarrow> 'v \<Rightarrow> bool) \<Rightarrow> nat \<Rightarrow> ('g, 'k, 'v) memo \<Rightarrow> bool" where
  "memoOK answers cap m \<longleftrightarrow>
     (\<forall>s\<in>set (memo_heap m). shardOK answers cap s) \<and>
     (\<forall>a. memo_cur m = Some a \<longrightarrow> a < length (memo_heap m))"

definition holdsShard :: "('g, 'k, 'v) memo \<Rightarrow> nat \<Rightarrow> 'g \<Rightarrow> bool" where
  "holdsShard m a gen \<longleftrightarrow> a < length (memo_heap m) \<and> sh_gen (memo_heap m ! a) = gen"

lemma memoOK_empty [simp]: "memoOK answers cap emptyMemo"
  by (simp add: memoOK_def emptyMemo_def)

lemma memoOK_counters [simp]:
  "memoOK answers cap (m\<lparr>memo_hits := n\<rparr>) = memoOK answers cap m"
  "memoOK answers cap (m\<lparr>memo_misses := n\<rparr>) = memoOK answers cap m"
  "memoOK answers cap (m\<lparr>memo_stores := n\<rparr>) = memoOK answers cap m"
  "memoOK answers cap (m\<lparr>memo_refused := n\<rparr>) = memoOK answers cap m"
  by (simp_all add: memoOK_def)

lemma holdsShard_counters [simp]:
  "holdsShard (m\<lparr>memo_hits := n\<rparr>) = holdsShard m"
  "holdsShard (m\<lparr>memo_misses := n\<rparr>) = holdsShard m"
  "holdsShard (m\<lparr>memo_stores := n\<rparr>) = holdsShard m"
  "holdsShard (m\<lparr>memo_refused := n\<rparr>) = holdsShard m"
  by (simp_all add: fun_eq_iff holdsShard_def)

lemma holdsShard_putShard [simp]: "holdsShard (putShard a k v m) b gen = holdsShard m b gen"
  by (cases "b = a") (auto simp: holdsShard_def putShard_def nth_list_update)

lemma holdsShard_OK: "memoOK answers cap m \<Longrightarrow> holdsShard m a gen \<Longrightarrow> shardOK answers cap (memo_heap m ! a)"
  by (simp add: memoOK_def holdsShard_def)

lemma currentShard_OK:
  assumes "memoOK answers cap m" "currentShard gen m = (a, m')"
  shows "memoOK answers cap m'" "holdsShard m' a gen" "\<And>b g. holdsShard m b g \<Longrightarrow> holdsShard m' b g"
proof -
  have "shardOK answers cap \<lparr>sh_gen = gen, sh_map = []\<rparr>" by (simp add: shardOK_def)
  then show "memoOK answers cap m'" "holdsShard m' a gen" "\<And>b g. holdsShard m b g \<Longrightarrow> holdsShard m' b g"
    using assms
    by (auto simp: currentShard_def memoOK_def holdsShard_def Let_def nth_append
        split: option.splits if_splits)
qed

lemma readShard_OK:
  assumes "memoOK answers cap m" "holdsShard m a gen" "readShard a k m = (r, m')"
  shows "memoOK answers cap m'" "holdsShard m' = holdsShard m" "\<And>v. r = Some v \<Longrightarrow> answers gen k v"
  using assms holdsShard_OK [OF assms(1,2)]
  by (auto simp: readShard_def shardOK_def holdsShard_def split: option.splits)

lemma putShard_OK:
  assumes "memoOK answers cap m" "holdsShard m a gen" "answers gen k v"
    and room: "map_of (sh_map (memo_heap m ! a)) k \<noteq> None \<or> length (sh_map (memo_heap m ! a)) < cap"
  shows "memoOK answers cap (putShard a k v m)"
proof -
  let ?s = "memo_heap m ! a"
  have "shardOK answers cap (?s\<lparr>sh_map := aput (sh_map ?s) k v\<rparr>)"
    using holdsShard_OK [OF assms(1,2)] assms(2,3) room
    by (auto simp: shardOK_def length_aput holdsShard_def)
  then show ?thesis
    using assms(1) by (auto simp: memoOK_def putShard_def dest!: subsetD [OF set_update_subset_insert])
qed

lemma overwriteShard_OK:
  assumes "memoOK answers cap m" "holdsShard m a gen" "answers gen k v"
  shows "memoOK answers cap (overwriteShard cap a k v m)"
    "holdsShard (overwriteShard cap a k v m) b g = holdsShard m b g"
  using putShard_OK [OF assms] assms(1) by (auto simp: overwriteShard_def)

lemma keepShard_OK:
  assumes "memoOK answers cap m" "holdsShard m a gen" "answers gen k v" "keepShard cap a k v m = (w, m')"
  shows "memoOK answers cap m'" "holdsShard m' b g = holdsShard m b g" "answers gen k w"
proof -
  have old: "answers gen k w'" if "map_of (sh_map (memo_heap m ! a)) k = Some w'" for w'
    using holdsShard_OK [OF assms(1,2)] assms(2) that by (simp add: shardOK_def holdsShard_def)
  show "memoOK answers cap m'" "holdsShard m' b g = holdsShard m b g" "answers gen k w"
    using assms old putShard_OK [OF assms(1-3)]
    by (auto simp: keepShard_def split: option.splits if_splits)
qed

section \<open>The contract\<close>

locale generation_memo =
  fixes start :: 'm
    and ok :: "'m \<Rightarrow> bool"
    and lookup :: "'g \<Rightarrow> 'k \<Rightarrow> 'm \<Rightarrow> 'v option \<times> 'm"
    and store :: "'g \<Rightarrow> 'k \<Rightarrow> 'v \<Rightarrow> 'm \<Rightarrow> 'v \<times> 'm"
    and answers :: "'g \<Rightarrow> 'k \<Rightarrow> 'v \<Rightarrow> bool"
  assumes ok_start: "ok start"
    and lookup_ok: "ok m \<Longrightarrow> lookup g k m = (r, m') \<Longrightarrow> ok m'"
    and lookup_answers: "ok m \<Longrightarrow> lookup g k m = (Some v, m') \<Longrightarrow> answers g k v"
    and store_ok: "ok m \<Longrightarrow> answers g k v \<Longrightarrow> store g k v m = (w, m') \<Longrightarrow> ok m'"
    and store_answers: "ok m \<Longrightarrow> answers g k v \<Longrightarrow> store g k v m = (w, m') \<Longrightarrow> answers g k w"
begin

text \<open>The get-or-build of a memo: an answer, whatever ran before and at whatever generation.\<close>

definition ask :: "('g \<Rightarrow> 'v) \<Rightarrow> 'g \<Rightarrow> 'k \<Rightarrow> 'm \<Rightarrow> 'v \<times> 'm" where
  "ask build g k m = (case lookup g k m of
       (Some v, m') \<Rightarrow> (v, m')
     | (None, m') \<Rightarrow> store g k (build g) m')"

lemma ask_OK:
  assumes "ok m" "answers g k (build g)" "ask build g k m = (v, m')"
  shows "ok m'" "answers g k v"
proof -
  obtain r m1 where l: "lookup g k m = (r, m1)" by fastforce
  note ok1 = lookup_ok [OF assms(1) l]
  have "ok m' \<and> answers g k v"
  proof (cases r)
    case None
    then have s: "store g k (build g) m1 = (v, m')" using assms(3) l by (simp add: ask_def)
    then show ?thesis
      using store_ok [OF ok1 assms(2) s] store_answers [OF ok1 assms(2) s] by auto
  next
    case (Some w)
    then show ?thesis
      using assms(3) l ok1 lookup_answers [OF assms(1), of g k w m1] by (auto simp: ask_def)
  qed
  then show "ok m'" "answers g k v" by simp_all
qed

end

text \<open>
  The two store disciplines over shards, each with the acquisition of the shard before the read and
  again before the write.
\<close>

definition memoLookup :: "'g \<Rightarrow> 'k \<Rightarrow> ('g, 'k, 'v) memo \<Rightarrow> 'v option \<times> ('g, 'k, 'v) memo" where
  "memoLookup gen k m = (case currentShard gen m of (a, m') \<Rightarrow> readShard a k m')"

definition memoOverwrite ::
  "nat \<Rightarrow> 'g \<Rightarrow> 'k \<Rightarrow> 'v \<Rightarrow> ('g, 'k, 'v) memo \<Rightarrow> 'v \<times> ('g, 'k, 'v) memo" where
  "memoOverwrite cap gen k v m =
     (case currentShard gen m of (a, m') \<Rightarrow> (v, overwriteShard cap a k v m'))"

definition memoKeep ::
  "nat \<Rightarrow> 'g \<Rightarrow> 'k \<Rightarrow> 'v \<Rightarrow> ('g, 'k, 'v) memo \<Rightarrow> 'v \<times> ('g, 'k, 'v) memo" where
  "memoKeep cap gen k v m = (case currentShard gen m of (a, m') \<Rightarrow> keepShard cap a k v m')"

interpretation overwriteMemo: generation_memo emptyMemo "memoOK answers cap" memoLookup
    "memoOverwrite cap" answers for answers :: "'g \<Rightarrow> 'k \<Rightarrow> 'v \<Rightarrow> bool" and cap
  by unfold_locales
    (auto simp: memoLookup_def memoOverwrite_def split: prod.splits
      dest: currentShard_OK readShard_OK overwriteShard_OK(1))

interpretation keepMemo: generation_memo emptyMemo "memoOK answers cap" memoLookup
    "memoKeep cap" answers for answers :: "'g \<Rightarrow> 'k \<Rightarrow> 'v \<Rightarrow> bool" and cap
  by unfold_locales
    (auto simp: memoLookup_def memoKeep_def split: prod.splits
      dest: currentShard_OK readShard_OK keepShard_OK)

end
