(* ===== verification/RBACMemo.thy ===== *)
theory RBACMemo
  imports RBACCorrect GenerationMemo
begin

text \<open>
  The canonical hash of a group set (rbac/groups\_hash.go), the snapshot authorization memo
  (rbac/snapshot\_authz\_memo.go) and \<open>EvaluateRBAC\<close> (rbac/evaluate.go) over the process state it
  reads and writes.
\<close>

unbundle bit_operations_syntax

section \<open>The group hash\<close>

text \<open>\<open>hash/fnv\<close>'s FNV-1a on 64 bits.\<close>

definition fnv1a :: "64 word \<Rightarrow> 8 word list \<Rightarrow> 64 word" where
  "fnv1a h bs = foldl (\<lambda>h b. (h XOR ucast b) * 1099511628211) h bs"

definition fnvOffset :: "64 word" where "fnvOffset = 14695981039346656037"

text \<open>\<open>binary.LittleEndian.PutUint64\<close>.\<close>

definition putUint64 :: "64 word \<Rightarrow> 8 word list" where
  "putUint64 n = map (\<lambda>i. ucast (drop_bit (8 * i) n)) [0..<8]"

definition stringBytes :: "gostring \<Rightarrow> 8 word list" where
  "stringBytes s = map (\<lambda>c. of_nat (of_char c)) s"

definition canonicalGroupsHash :: "gostring list \<Rightarrow> 64 word" where
  "canonicalGroupsHash groups =
     (if groups = [] then fnvOffset
      else foldl (\<lambda>h g. fnv1a (fnv1a h (putUint64 (of_nat (length g)))) (stringBytes g))
             fnvOffset (sort groups))"

lemma canonicalGroupsHash_mset: "mset a = mset b \<Longrightarrow> canonicalGroupsHash a = canonicalGroupsHash b"
  using sort_eq_iff_mset [of a b] by (auto simp: canonicalGroupsHash_def)

text \<open>Group lists the hash tells apart up to their set, among the requests at hand.\<close>

definition hashFaithful :: "EvaluateOptions set \<Rightarrow> bool" where
  "hashFaithful R \<longleftrightarrow> (\<forall>a\<in>R. \<forall>b\<in>R.
     canonicalGroupsHash (opt_groups a) = canonicalGroupsHash (opt_groups b) \<longrightarrow>
     set (opt_groups a) = set (opt_groups b))"

section \<open>The memo\<close>

record snapshotAuthzKey =
  ak_gen :: "64 word"
  ak_username :: gostring
  ak_groupshash :: "64 word"
  ak_verb :: gostring
  ak_group :: gostring
  ak_resource :: gostring
  ak_namespace :: gostring
  ak_name :: gostring
  ak_skipuid :: bool

definition snapshotAuthzMemoCap :: nat where "snapshotAuthzMemoCap = 16384"

type_synonym authz_memo = "(64 word, snapshotAuthzKey, verdict) memo"

definition memoKeyOf :: "64 word \<Rightarrow> EvaluateOptions \<Rightarrow> snapshotAuthzKey" where
  "memoKeyOf gen opts = \<lparr>ak_gen = gen, ak_username = opt_username opts,
     ak_groupshash = canonicalGroupsHash (opt_groups opts), ak_verb = opt_verb opts,
     ak_group = opt_group opts, ak_resource = opt_resource opts, ak_namespace = opt_namespace opts,
     ak_name = opt_name opts, ak_skipuid = opt_skipuid opts\<rparr>"

definition currentAuthzShard :: "64 word \<Rightarrow> authz_memo \<Rightarrow> nat \<times> authz_memo" where
  "currentAuthzShard gen m = currentShard gen m"

definition authzMemoLookup :: "64 word \<Rightarrow> snapshotAuthzKey \<Rightarrow> authz_memo \<Rightarrow> verdict option \<times> authz_memo" where
  "authzMemoLookup gen key m = (case currentAuthzShard gen m of (shard, m') \<Rightarrow> readShard shard key m')"

definition storeWithCap :: "nat \<Rightarrow> snapshotAuthzKey \<Rightarrow> verdict \<Rightarrow> authz_memo \<Rightarrow> authz_memo" where
  "storeWithCap shard key v m = overwriteShard snapshotAuthzMemoCap shard key v m"

definition authzMemoStore :: "64 word \<Rightarrow> snapshotAuthzKey \<Rightarrow> verdict \<Rightarrow> authz_memo \<Rightarrow> authz_memo" where
  "authzMemoStore gen key v m =
     (case currentAuthzShard gen m of (shard, m') \<Rightarrow> storeWithCap shard key v m')"

lemma authzMemoLookup_eq: "authzMemoLookup = memoLookup"
  by (simp add: fun_eq_iff authzMemoLookup_def memoLookup_def currentAuthzShard_def)

lemma authzMemoStore_eq: "authzMemoStore gen key v m = snd (memoOverwrite snapshotAuthzMemoCap gen key v m)"
  by (simp add: authzMemoStore_def memoOverwrite_def currentAuthzShard_def storeWithCap_def split: prod.split)

section \<open>EvaluateRBAC\<close>

datatype evalError = WatcherNotWired | SnapshotNotBuilt

type_synonym shadow_call = "RBACSnapshot \<times> EvaluateOptions \<times> bool"

text \<open>
  The globals the function reads or writes. \<open>globalWatcher\<close> is the watcher, \<open>rbacSnap\<close> the
  published snapshot. The shadow hook is told each decision; what it was told is kept as a log.
\<close>

record process =
  cacheDisabled :: bool
  globalWatcher :: bool
  rbacSnap :: "RBACSnapshot option"
  snapshotAuthzMemo :: authz_memo
  evaluateRBACCallCount :: "64 word"
  authzMemoDenyUncached :: "64 word"
  rbacSnapshotMissCount :: "64 word"
  shadowParityEnabled :: bool
  shadowHook :: bool
  shadowLog :: "shadow_call list"

text \<open>
  A normal return: the verdict, the binding identity, and what was written through
  \<open>WinningSubjectClassOut\<close> (when the caller passed one).
\<close>

record reply =
  rp_allowed :: bool
  rp_uid :: gostring
  rp_classout :: "WinningSubjectClass option"

text \<open>The deferred call.\<close>

definition shadowDefer :: "RBACSnapshot \<Rightarrow> EvaluateOptions \<Rightarrow> bool \<Rightarrow> process \<Rightarrow> process" where
  "shadowDefer snap opts allowed p =
     (if shadowParityEnabled p \<and> shadowHook p then p\<lparr>shadowLog := shadowLog p @ [(snap, opts, allowed)]\<rparr>
      else p)"

text \<open>
  \<open>selfSAR\<close> is the apiserver's SelfSubjectAccessReview. A miss found by the walk is counted, one
  count per record.
\<close>

definition EvaluateRBAC ::
  "(EvaluateOptions \<Rightarrow> bool) \<Rightarrow> EvaluateOptions \<Rightarrow> process \<Rightarrow> (evalError + reply) \<times> process" where
  "EvaluateRBAC selfSAR opts p0 =
     (let p = p0\<lparr>evaluateRBACCallCount := evaluateRBACCallCount p0 + 1\<rparr> in
      if cacheDisabled p then
        (Inr \<lparr>rp_allowed = selfSAR opts, rp_uid = [], rp_classout = None\<rparr>, p)
      else if \<not> globalWatcher p then (Inl WatcherNotWired, p)
      else case rbacSnap p of None \<Rightarrow> (Inl SnapshotNotBuilt, p)
      | Some snap \<Rightarrow>
          (let memoKey = memoKeyOf (PublishSeq snap) opts in
           case authzMemoLookup (PublishSeq snap) memoKey (snapshotAuthzMemo p) of
             (Some v, m) \<Rightarrow>
               (Inr \<lparr>rp_allowed = v_allowed v, rp_uid = v_uid v,
                     rp_classout = (if v_allowed v then Some (v_class v) else None)\<rparr>,
                shadowDefer snap opts (v_allowed v) (p\<lparr>snapshotAuthzMemo := m\<rparr>))
           | (None, m) \<Rightarrow>
               (case evaluateAgainstInformerFirstMatch snap opts of (v, misses) \<Rightarrow>
                 let p1 = p\<lparr>snapshotAuthzMemo := m,
                            rbacSnapshotMissCount := rbacSnapshotMissCount p + of_nat (length misses)\<rparr>;
                     p2 = (if v_allowed v
                           then p1\<lparr>snapshotAuthzMemo :=
                                     authzMemoStore (PublishSeq snap) memoKey
                                       \<lparr>v_allowed = True, v_uid = v_uid v, v_class = v_class v\<rparr>
                                       (snapshotAuthzMemo p1)\<rparr>
                           else p1\<lparr>authzMemoDenyUncached := authzMemoDenyUncached p1 + 1\<rparr>)
                 in (Inr \<lparr>rp_allowed = v_allowed v, rp_uid = v_uid v,
                          rp_classout = (if v_allowed v then Some (v_class v) else None)\<rparr>,
                     shadowDefer snap opts (v_allowed v) p2))))"

section \<open>What the memo holds\<close>

text \<open>
  The published snapshots by their sequence number, and the requests that are ever made. An entry
  is right when every such request with that key would be permitted on that snapshot, with the same
  identity and class when the request asks for the identity.
\<close>

definition coldAnswer :: "RBACSnapshot \<Rightarrow> EvaluateOptions \<Rightarrow> verdict \<Rightarrow> bool" where
  "coldAnswer snap opts v \<longleftrightarrow>
     v_allowed v = v_allowed (fst (evaluateAgainstInformerFirstMatch snap opts)) \<and>
     (\<not> opt_skipuid opts \<longrightarrow> v = fst (evaluateAgainstInformerFirstMatch snap opts))"

definition entryRight ::
  "(64 word \<rightharpoonup> RBACSnapshot) \<Rightarrow> EvaluateOptions set \<Rightarrow> 64 word \<Rightarrow> snapshotAuthzKey \<Rightarrow> verdict \<Rightarrow> bool" where
  "entryRight hist R gen key v \<longleftrightarrow> v_allowed v \<and>
     (\<forall>snap opts. hist gen = Some snap \<longrightarrow> opts \<in> R \<longrightarrow> memoKeyOf gen opts = key \<longrightarrow> coldAnswer snap opts v)"

text \<open>Every published snapshot was built by the index writer over uniquely named bindings.\<close>

definition wellPublished :: "(64 word \<rightharpoonup> RBACSnapshot) \<Rightarrow> bool" where
  "wellPublished hist \<longleftrightarrow> (\<forall>gen snap. hist gen = Some snap \<longrightarrow>
     indexed snap \<and> distinctNames snap \<and> PublishSeq snap = gen)"

definition processOK :: "(64 word \<rightharpoonup> RBACSnapshot) \<Rightarrow> EvaluateOptions set \<Rightarrow> process \<Rightarrow> bool" where
  "processOK hist R p \<longleftrightarrow> memoOK (entryRight hist R) snapshotAuthzMemoCap (snapshotAuthzMemo p) \<and>
     (\<forall>snap. rbacSnap p = Some snap \<longrightarrow> hist (PublishSeq snap) = Some snap)"

lemma sameKey_sameRequest:
  assumes "hashFaithful R" "a \<in> R" "b \<in> R" "memoKeyOf gen a = memoKeyOf gen b"
  shows "sameRequest a b" "opt_skipuid a = opt_skipuid b"
proof -
  note keys = assms(4) [unfolded memoKeyOf_def snapshotAuthzKey.ext_inject]
  from keys have "set (opt_groups a) = set (opt_groups b)"
    using assms(1-3) unfolding hashFaithful_def by blast
  with keys show "sameRequest a b" "opt_skipuid a = opt_skipuid b"
    unfolding sameRequest_def sameIdentity_def sameAction_def by blast+
qed

lemma entryRight_coldAnswer:
  assumes "wellPublished hist" "hashFaithful R" "hist gen = Some snap" "opts \<in> R"
    and "fst (evaluateAgainstInformerFirstMatch snap opts) = v" "v_allowed v"
  shows "entryRight hist R gen (memoKeyOf gen opts) v"
proof -
  have w: "indexed snap" "distinctNames snap" using assms(1,3) unfolding wellPublished_def by blast+
  have "coldAnswer snap opts' v" if h: "opts' \<in> R" "memoKeyOf gen opts' = memoKeyOf gen opts" for opts'
  proof -
    note same = sameKey_sameRequest [OF assms(2) assms(4) h(1) h(2) [symmetric]]
    show ?thesis
      using verdict_same [OF w(1) w(1) sameContent_refl same(1)]
        answer_same [OF w(1) w(1) sameContent_refl w(2) same(1)] same(2)
      unfolding coldAnswer_def assms(5) by metis
  qed
  then show ?thesis unfolding entryRight_def using assms(3,6) by simp
qed

lemma authzMemoLookup_OK:
  assumes "memoOK (entryRight hist R) cap m" "authzMemoLookup gen k m = (r, m')"
  shows "memoOK (entryRight hist R) cap m'" "\<And>v. r = Some v \<Longrightarrow> entryRight hist R gen k v"
  using overwriteMemo.lookup_ok [OF assms(1)] overwriteMemo.lookup_answers [OF assms(1)] assms(2)
  unfolding authzMemoLookup_eq by blast+

lemma authzMemoStore_OK:
  assumes "memoOK (entryRight hist R) snapshotAuthzMemoCap m" "entryRight hist R gen k v"
  shows "memoOK (entryRight hist R) snapshotAuthzMemoCap (authzMemoStore gen k v m)"
  using overwriteMemo.store_ok [OF assms] unfolding authzMemoStore_eq by (metis prod.collapse)

lemma permit_record: "v_allowed v \<Longrightarrow> \<lparr>v_allowed = True, v_uid = v_uid v, v_class = v_class v\<rparr> = v"
  by (cases v) simp

text \<open>The outcome of one call on a published snapshot.\<close>

definition rightReply :: "RBACSnapshot \<Rightarrow> EvaluateOptions \<Rightarrow> reply \<Rightarrow> bool" where
  "rightReply snap opts r \<longleftrightarrow> (\<exists>v. coldAnswer snap opts v \<and>
     r = \<lparr>rp_allowed = v_allowed v, rp_uid = v_uid v,
          rp_classout = (if v_allowed v then Some (v_class v) else None)\<rparr>)"

lemma process_updates [simp]:
  "processOK hist R (shadowDefer snap opts b p) = processOK hist R p"
  "processOK hist R (p\<lparr>evaluateRBACCallCount := n\<rparr>) = processOK hist R p"
  "processOK hist R (p\<lparr>authzMemoDenyUncached := n\<rparr>) = processOK hist R p"
  "processOK hist R (p\<lparr>rbacSnapshotMissCount := n\<rparr>) = processOK hist R p"
  by (simp_all add: processOK_def shadowDefer_def)

lemma EvaluateRBAC_right:
  assumes "wellPublished hist" "hashFaithful R" "processOK hist R p" "opts \<in> R"
    and "EvaluateRBAC selfSAR opts p = (r, p')"
    and on: "\<not> cacheDisabled p" "globalWatcher p" "rbacSnap p = Some snap"
  shows "processOK hist R p' \<and> (\<exists>a. r = Inr a \<and> rightReply snap opts a)"
proof -
  let ?gen = "PublishSeq snap" and ?k = "memoKeyOf (PublishSeq snap) opts"
  have hist: "hist ?gen = Some snap" and m: "memoOK (entryRight hist R) snapshotAuthzMemoCap (snapshotAuthzMemo p)"
    using assms(3) on by (auto simp: processOK_def)
  obtain hit m' where l: "authzMemoLookup ?gen ?k (snapshotAuthzMemo p) = (hit, m')" by fastforce
  note lookup = authzMemoLookup_OK [OF m l]
  show ?thesis
  proof (cases hit)
    case (Some v)
    with lookup(2) have "coldAnswer snap opts v" using hist assms(4) by (auto simp: entryRight_def)
    then show ?thesis
      using assms(3,5) on l Some lookup(1)
      by (auto simp: EvaluateRBAC_def Let_def rightReply_def) (auto simp: processOK_def)
  next
    case None
    obtain v misses where e: "evaluateAgainstInformerFirstMatch snap opts = (v, misses)" by fastforce
    have "coldAnswer snap opts v" using e by (simp add: coldAnswer_def)
    moreover have "memoOK (entryRight hist R) snapshotAuthzMemoCap (authzMemoStore ?gen ?k v m')"
      if "v_allowed v"
      using authzMemoStore_OK [OF lookup(1)] entryRight_coldAnswer [OF assms(1,2) hist assms(4) _ that] e
      by simp
    ultimately show ?thesis
      using assms(3,5) on l None lookup(1) e
      by (cases "v_allowed v")
        (auto simp: EvaluateRBAC_def Let_def rightReply_def permit_record, auto simp: processOK_def)
  qed
qed

section \<open>Properties\<close>

text \<open>With the cache on and a snapshot published, a call never fails, answers as the cold evaluation
  of that snapshot does (identity and class included, when they are wanted), and leaves the process
  in a state for which the same holds, so it holds for every sequence of calls.\<close>

theorem EvaluateRBAC_answers:
  assumes "wellPublished hist" "hashFaithful R" "processOK hist R p" "opts \<in> R"
    and "\<not> cacheDisabled p" "globalWatcher p" "rbacSnap p = Some snap"
  shows "\<exists>a. fst (EvaluateRBAC selfSAR opts p) = Inr a \<and> rightReply snap opts a \<and>
    processOK hist R (snd (EvaluateRBAC selfSAR opts p))"
  using EvaluateRBAC_right [OF assms(1-4) _ assms(5-7), of selfSAR] by (metis prod.collapse)

definition exProcess :: process where
  "exProcess = \<lparr>cacheDisabled = False, globalWatcher = True, rbacSnap = Some (exSnapshot\<lparr>PublishSeq := 1\<rparr>),
     snapshotAuthzMemo = emptyMemo, evaluateRBACCallCount = 0, authzMemoDenyUncached = 0,
     rbacSnapshotMissCount = 0, shadowParityEnabled = True, shadowHook = True, shadowLog = []\<rparr>"

definition exHistory :: "64 word \<rightharpoonup> RBACSnapshot" where
  "exHistory = [1 \<mapsto> exSnapshot\<lparr>PublishSeq := 1\<rparr>]"

lemma EvaluateRBAC_answers_witness:
  "\<exists>a. fst (EvaluateRBAC (\<lambda>_. False) noOptions exProcess) = Inr a \<and>
     rightReply (exSnapshot\<lparr>PublishSeq := 1\<rparr>) noOptions a"
proof -
  have "wellPublished exHistory"
    by (simp add: wellPublished_def exHistory_def distinctNames_def exSnapshot_def ex_objects inj_on_def
        del: in_crbsOf in_rbsIn)
  moreover have "hashFaithful {noOptions}" "processOK exHistory {noOptions} exProcess"
    by (simp_all add: hashFaithful_def processOK_def exProcess_def exHistory_def)
  ultimately show ?thesis
    using EvaluateRBAC_answers [of exHistory "{noOptions}" exProcess noOptions _ "\<lambda>_. False"]
    by (auto simp: exProcess_def)
qed

text \<open>A call fails exactly when the cache is on and there is no watcher or no snapshot yet; then it
  counts the call, grants nothing, and touches neither the memo nor the shadow hook. With the cache
  off it is the apiserver's own answer, without an identity.\<close>

theorem EvaluateRBAC_fails_closed:
  "((\<exists>e. fst (EvaluateRBAC selfSAR opts p) = Inl e) =
      (\<not> cacheDisabled p \<and> \<not> (globalWatcher p \<and> rbacSnap p \<noteq> None))) \<and>
   (if cacheDisabled p \<or> \<not> globalWatcher p \<or> rbacSnap p = None
    then snd (EvaluateRBAC selfSAR opts p) = p\<lparr>evaluateRBACCallCount := evaluateRBACCallCount p + 1\<rparr>
    else True) \<and>
   (if cacheDisabled p
    then fst (EvaluateRBAC selfSAR opts p) = Inr \<lparr>rp_allowed = selfSAR opts, rp_uid = [], rp_classout = None\<rparr>
    else True)"
  by (auto simp: EvaluateRBAC_def Let_def split: option.split prod.split)

lemma EvaluateRBAC_fails_closed_witness:
  "(\<exists>e. fst (EvaluateRBAC (\<lambda>_. False) noOptions (exProcess\<lparr>rbacSnap := None\<rparr>)) = Inl e) \<and>
   snapshotAuthzMemo (snd (EvaluateRBAC (\<lambda>_. False) noOptions (exProcess\<lparr>rbacSnap := None\<rparr>))) =
     snapshotAuthzMemo exProcess"
  using EvaluateRBAC_fails_closed [of "\<lambda>_. False" noOptions "exProcess\<lparr>rbacSnap := None\<rparr>"]
  by (auto simp: exProcess_def)

text \<open>The shadow hook sees each decision on a snapshot once, as it was returned, and nothing it is
  told changes the reply: the same call with the hook off gives the same reply and the same memo.\<close>

theorem EvaluateRBAC_shadow_dark:
  "fst (EvaluateRBAC selfSAR opts (p\<lparr>shadowParityEnabled := b\<rparr>)) = fst (EvaluateRBAC selfSAR opts p) \<and>
   snapshotAuthzMemo (snd (EvaluateRBAC selfSAR opts (p\<lparr>shadowParityEnabled := b\<rparr>))) =
     snapshotAuthzMemo (snd (EvaluateRBAC selfSAR opts p)) \<and>
   shadowLog (snd (EvaluateRBAC selfSAR opts p)) = shadowLog p @
     (case (rbacSnap p, fst (EvaluateRBAC selfSAR opts p)) of
        (Some snap, Inr a) \<Rightarrow> if shadowParityEnabled p \<and> shadowHook p \<and> \<not> cacheDisabled p
                              then [(snap, opts, rp_allowed a)] else []
      | _ \<Rightarrow> [])"
  by (auto simp: EvaluateRBAC_def Let_def shadowDefer_def split: option.split prod.split)

text \<open>The group hash does not depend on the order of the groups, and it is not the exact key its
  comment promises: some two different group sets share a hash.\<close>

theorem canonicalGroupsHash_not_exact:
  "(\<forall>gs. canonicalGroupsHash (rev gs) = canonicalGroupsHash gs) \<and>
   (\<exists>a b. set a \<noteq> set b \<and> canonicalGroupsHash a = canonicalGroupsHash b)"
proof -
  let ?f = "\<lambda>n. canonicalGroupsHash [replicate n CHR ''a'']"
  have "\<not> inj ?f" using finite_imageD [of ?f UNIV] by (auto simp: finite_subset [OF subset_UNIV])
  then obtain m n where "m \<noteq> n" "?f m = ?f n" by (auto simp: inj_def)
  moreover then have "set [replicate m CHR ''a''] \<noteq> set [replicate n CHR ''a'']"
    by (simp add: replicate_eq_replicate)
  ultimately show ?thesis using canonicalGroupsHash_mset by (metis mset_rev)
qed

end
