(* ===== verification/RBACMemoRuns.thy ===== *)
theory RBACMemoRuns
  imports RBACMemo
begin

text \<open>
  Requests that run at the same time, and publishes between their steps. A request loads the
  snapshot, takes a shard for its generation, reads it, and on a miss evaluates; a permit takes a
  shard again and stores. Each of these is one atomic action of the source (an atomic load, the
  compare-and-swap loop, a map access under the shard's lock), and any goroutine may be suspended
  between two of them while others run and newer snapshots are published.
\<close>

datatype goroutine =
    Idle
  | Loaded RBACSnapshot EvaluateOptions
  | AtShard RBACSnapshot EvaluateOptions nat
  | Missed RBACSnapshot EvaluateOptions
  | AtStore RBACSnapshot EvaluateOptions verdict nat

record world =
  w_memo :: authz_memo
  w_snap :: "RBACSnapshot option"
  w_seq :: nat
  w_hist :: "64 word \<rightharpoonup> RBACSnapshot"
  w_run :: "nat \<Rightarrow> goroutine"
  w_replies :: "(RBACSnapshot \<times> EvaluateOptions \<times> verdict) list"

definition startWorld :: world where
  "startWorld = \<lparr>w_memo = emptyMemo, w_snap = None, w_seq = 0, w_hist = Map.empty,
     w_run = (\<lambda>_. Idle), w_replies = []\<rparr>"

definition goto :: "nat \<Rightarrow> goroutine \<Rightarrow> world \<Rightarrow> world" where
  "goto t pc w = w\<lparr>w_run := (w_run w)(t := pc)\<rparr>"

definition answer :: "nat \<Rightarrow> RBACSnapshot \<Rightarrow> EvaluateOptions \<Rightarrow> verdict \<Rightarrow> world \<Rightarrow> world" where
  "answer t snap opts v w = goto t Idle (w\<lparr>w_replies := w_replies w @ [(snap, opts, v)]\<rparr>)"

definition publishStep :: "RBACSnapshot \<Rightarrow> world \<Rightarrow> world" where
  "publishStep snap w = (let n = Suc (w_seq w); s = snap\<lparr>PublishSeq := of_nat n\<rparr>
     in w\<lparr>w_snap := Some s, w_seq := n, w_hist := (w_hist w)(of_nat n \<mapsto> s)\<rparr>)"

text \<open>One atomic action. \<open>R\<close> are the requests that are ever made.\<close>

inductive memoStep :: "EvaluateOptions set \<Rightarrow> world \<Rightarrow> world \<Rightarrow> bool" for R where
  publish: "indexed snap \<Longrightarrow> distinctNames snap \<Longrightarrow> Suc (w_seq w) < 2 ^ 64 \<Longrightarrow>
     memoStep R w (publishStep snap w)"
| load: "w_run w t = Idle \<Longrightarrow> w_snap w = Some snap \<Longrightarrow> opts \<in> R \<Longrightarrow>
     memoStep R w (goto t (Loaded snap opts) w)"
| acquire: "w_run w t = Loaded snap opts \<Longrightarrow> currentAuthzShard (PublishSeq snap) (w_memo w) = (a, m) \<Longrightarrow>
     memoStep R w (goto t (AtShard snap opts a) (w\<lparr>w_memo := m\<rparr>))"
| hit: "w_run w t = AtShard snap opts a \<Longrightarrow>
     readShard a (memoKeyOf (PublishSeq snap) opts) (w_memo w) = (Some v, m) \<Longrightarrow>
     memoStep R w (answer t snap opts v (w\<lparr>w_memo := m\<rparr>))"
| miss: "w_run w t = AtShard snap opts a \<Longrightarrow>
     readShard a (memoKeyOf (PublishSeq snap) opts) (w_memo w) = (None, m) \<Longrightarrow>
     memoStep R w (goto t (Missed snap opts) (w\<lparr>w_memo := m\<rparr>))"
| deny: "w_run w t = Missed snap opts \<Longrightarrow>
     fst (evaluateAgainstInformerFirstMatch snap opts) = v \<Longrightarrow> \<not> v_allowed v \<Longrightarrow>
     memoStep R w (answer t snap opts v w)"
| permit: "w_run w t = Missed snap opts \<Longrightarrow>
     fst (evaluateAgainstInformerFirstMatch snap opts) = v \<Longrightarrow> v_allowed v \<Longrightarrow>
     currentAuthzShard (PublishSeq snap) (w_memo w) = (a, m) \<Longrightarrow>
     memoStep R w (goto t (AtStore snap opts v a) (w\<lparr>w_memo := m\<rparr>))"
| store: "w_run w t = AtStore snap opts v a \<Longrightarrow>
     memoStep R w (answer t snap opts v
       (w\<lparr>w_memo := storeWithCap a (memoKeyOf (PublishSeq snap) opts) v (w_memo w)\<rparr>))"

inductive memoReachable :: "EvaluateOptions set \<Rightarrow> world \<Rightarrow> bool" for R where
  start: "memoReachable R startWorld"
| step: "memoReachable R w \<Longrightarrow> memoStep R w w' \<Longrightarrow> memoReachable R w'"

inductive_cases memoStepE: "memoStep R w w'"

section \<open>The invariant\<close>

text \<open>What one goroutine knows where it stands.\<close>

fun goroutineOK :: "EvaluateOptions set \<Rightarrow> (64 word \<rightharpoonup> RBACSnapshot) \<Rightarrow> authz_memo \<Rightarrow> goroutine \<Rightarrow> bool" where
  "goroutineOK R hist m Idle = True"
| "goroutineOK R hist m (Loaded snap opts) = (hist (PublishSeq snap) = Some snap \<and> opts \<in> R)"
| "goroutineOK R hist m (AtShard snap opts a) =
     (hist (PublishSeq snap) = Some snap \<and> opts \<in> R \<and> holdsShard m a (PublishSeq snap))"
| "goroutineOK R hist m (Missed snap opts) = (hist (PublishSeq snap) = Some snap \<and> opts \<in> R)"
| "goroutineOK R hist m (AtStore snap opts v a) =
     (hist (PublishSeq snap) = Some snap \<and> opts \<in> R \<and> holdsShard m a (PublishSeq snap) \<and>
      v_allowed v \<and> fst (evaluateAgainstInformerFirstMatch snap opts) = v)"

text \<open>
  The sequence numbers in use are those issued so far, so a new publish never reuses one that a
  shard or a goroutine still holds.
\<close>

definition seqsIssued :: "world \<Rightarrow> bool" where
  "seqsIssued w \<longleftrightarrow> w_seq w < 2 ^ 64 \<and> dom (w_hist w) = of_nat ` {1..w_seq w} \<and>
     sh_gen ` set (memo_heap (w_memo w)) \<subseteq> of_nat ` {1..w_seq w} \<and>
     (\<forall>snap. w_snap w = Some snap \<longrightarrow> w_hist w (PublishSeq snap) = Some snap)"

definition worldOK :: "EvaluateOptions set \<Rightarrow> world \<Rightarrow> bool" where
  "worldOK R w \<longleftrightarrow> wellPublished (w_hist w) \<and> seqsIssued w \<and>
     memoOK (entryRight (w_hist w) R) snapshotAuthzMemoCap (w_memo w) \<and>
     (\<forall>t. goroutineOK R (w_hist w) (w_memo w) (w_run w t)) \<and>
     (\<forall>snap opts v. (snap, opts, v) \<in> set (w_replies w) \<longrightarrow>
        w_hist w (PublishSeq snap) = Some snap \<and> coldAnswer snap opts v)"

lemma goroutineOK_mono:
  assumes "goroutineOK R hist m pc" "hist \<subseteq>\<^sub>m hist'"
    and "\<And>b g. holdsShard m b g \<Longrightarrow> holdsShard m' b g"
  shows "goroutineOK R hist' m' pc"
  using assms by (cases pc) (auto simp: map_le_def dom_def)

lemma currentAuthzShard_gens:
  "currentAuthzShard gen m = (a, m') \<Longrightarrow>
     sh_gen ` set (memo_heap m') \<subseteq> insert gen (sh_gen ` set (memo_heap m))"
  by (auto simp: currentAuthzShard_def currentShard_def Let_def split: option.splits if_splits)

lemma readShard_heap [simp]: "readShard a k m = (r, m') \<Longrightarrow> memo_heap m' = memo_heap m"
  by (auto simp: readShard_def split: option.splits)

lemma storeWithCap_gens:
  assumes "a < length (memo_heap m)"
  shows "sh_gen ` set (memo_heap (storeWithCap a k v m)) = sh_gen ` set (memo_heap m)"
proof -
  have "map sh_gen (memo_heap (storeWithCap a k v m)) = map sh_gen (memo_heap m)"
    using assms by (auto simp: storeWithCap_def overwriteShard_def putShard_def map_update
        list_update_same_conv)
  then show ?thesis by (metis list.set_map)
qed

lemma startWorld_OK: "worldOK R startWorld"
  by (simp add: worldOK_def startWorld_def wellPublished_def seqsIssued_def) (simp add: emptyMemo_def)

lemma goto_OK:
  "worldOK R w \<Longrightarrow> goroutineOK R (w_hist w) (w_memo w) pc \<Longrightarrow> worldOK R (goto t pc w)"
  by (simp add: worldOK_def goto_def seqsIssued_def)

lemma answer_OK:
  "worldOK R w \<Longrightarrow> w_hist w (PublishSeq snap) = Some snap \<Longrightarrow> coldAnswer snap opts v \<Longrightarrow>
     worldOK R (answer t snap opts v w)"
  unfolding answer_def by (rule goto_OK) (auto simp: worldOK_def seqsIssued_def)

lemma memo_OK:
  assumes "worldOK R w" "memoOK (entryRight (w_hist w) R) snapshotAuthzMemoCap m"
    and "sh_gen ` set (memo_heap m) \<subseteq> dom (w_hist w)"
    and "\<And>b g. holdsShard (w_memo w) b g \<Longrightarrow> holdsShard m b g"
  shows "worldOK R (w\<lparr>w_memo := m\<rparr>)"
  using assms goroutineOK_mono [OF _ map_le_refl, of R "w_hist w" "w_memo w" _ m]
  by (simp add: worldOK_def seqsIssued_def)

lemma of_nat_fresh:
  assumes "Suc n < 2 ^ 64"
  shows "(of_nat (Suc n) :: 64 word) \<notin> of_nat ` {1..n}"
proof
  assume "(of_nat (Suc n) :: 64 word) \<in> of_nat ` {1..n}"
  then obtain k where "k \<le> n" "(of_nat (Suc n) :: 64 word) = of_nat k" by auto
  then have "unat (of_nat (Suc n) :: 64 word) = unat (of_nat k :: 64 word)" "k \<le> n" by simp_all
  then show False using assms by (simp add: unat_of_nat del: of_nat_Suc)
qed

lemma entryRight_fresh:
  assumes "memoOK (entryRight hist R) cap m" "sh_gen ` set (memo_heap m) \<subseteq> dom hist" "gen \<notin> dom hist"
  shows "memoOK (entryRight (hist(gen \<mapsto> snap)) R) cap m"
proof -
  have "shardOK (entryRight (hist(gen \<mapsto> snap)) R) cap s"
    if "shardOK (entryRight hist R) cap s" "sh_gen s \<in> dom hist" for s
  proof -
    have "sh_gen s \<noteq> gen" using that(2) assms(3) by auto
    with that(1) show ?thesis unfolding shardOK_def entryRight_def by simp
  qed
  then show ?thesis using assms(1,2) unfolding memoOK_def by blast
qed

lemma publish_OK:
  assumes ok: "worldOK R w" and snap: "indexed snap" "distinctNames snap" and n: "Suc (w_seq w) < 2 ^ 64"
  shows "worldOK R (publishStep snap w)"
proof -
  let ?gen = "of_nat (Suc (w_seq w)) :: 64 word"
  let ?s = "snap\<lparr>PublishSeq := ?gen\<rparr>"
  have seqs: "seqsIssued w" using ok by (simp add: worldOK_def)
  then have fresh: "?gen \<notin> dom (w_hist w)" using of_nat_fresh [OF n] unfolding seqsIssued_def by simp
  then have le: "w_hist w \<subseteq>\<^sub>m (w_hist w)(?gen \<mapsto> ?s)" by (auto simp: map_le_def)
  have s: "indexed ?s \<and> distinctNames ?s"
    using snap by (simp add: distinctNames_def del: in_crbsOf in_rbsIn)
  have "{1..Suc (w_seq w)} = insert (Suc (w_seq w)) {1..w_seq w}" by auto
  then have dom: "dom ((w_hist w)(?gen \<mapsto> ?s)) = of_nat ` {1..Suc (w_seq w)}"
    using seqs by (simp add: seqsIssued_def)
  have old: "((w_hist w)(?gen \<mapsto> ?s)) (PublishSeq x) = Some x" if "w_hist w (PublishSeq x) = Some x" for x
    using that le by (metis domI map_le_def)
  show ?thesis
    unfolding worldOK_def
  proof (intro conjI allI impI)
    show "wellPublished (w_hist (publishStep snap w))"
      using ok s by (auto simp: worldOK_def wellPublished_def publishStep_def Let_def)
    show "seqsIssued (publishStep snap w)"
      using seqs n dom by (auto simp: seqsIssued_def publishStep_def Let_def simp del: of_nat_Suc)
    show "memoOK (entryRight (w_hist (publishStep snap w)) R) snapshotAuthzMemoCap (w_memo (publishStep snap w))"
      using ok seqs entryRight_fresh [OF _ _ fresh]
      by (simp add: worldOK_def seqsIssued_def publishStep_def Let_def del: of_nat_Suc)
    show "goroutineOK R (w_hist (publishStep snap w)) (w_memo (publishStep snap w)) (w_run (publishStep snap w) t)" for t
      using ok goroutineOK_mono [OF _ le, of R "w_memo w" _ "w_memo w"] by (simp add: worldOK_def publishStep_def Let_def del: of_nat_Suc)
  next
    fix x opts v
    assume "(x, opts, v) \<in> set (w_replies (publishStep snap w))"
    then have "w_hist w (PublishSeq x) = Some x \<and> coldAnswer x opts v"
      using ok by (simp add: worldOK_def publishStep_def Let_def)
    then show "w_hist (publishStep snap w) (PublishSeq x) = Some x" "coldAnswer x opts v"
      using old by (simp_all add: publishStep_def Let_def del: of_nat_Suc)
  qed
qed

lemma memoStep_OK:
  assumes R: "hashFaithful R" and ok: "worldOK R w" and step: "memoStep R w w'"
  shows "worldOK R w'"
proof -
  have run: "goroutineOK R (w_hist w) (w_memo w) (w_run w t)" for t using ok by (simp add: worldOK_def)
  have m: "memoOK (entryRight (w_hist w) R) snapshotAuthzMemoCap (w_memo w)"
    and gens: "sh_gen ` set (memo_heap (w_memo w)) \<subseteq> dom (w_hist w)"
    and wp: "wellPublished (w_hist w)"
    using ok by (simp_all add: worldOK_def seqsIssued_def)
  have acq: "worldOK R (w\<lparr>w_memo := m'\<rparr>)" "holdsShard m' a (PublishSeq snap)"
    if "currentAuthzShard (PublishSeq snap) (w_memo w) = (a, m')" "w_hist w (PublishSeq snap) = Some snap"
    for snap a m'
  proof -
    note c = currentShard_OK [OF m that(1) [unfolded currentAuthzShard_def]]
    have "sh_gen ` set (memo_heap m') \<subseteq> dom (w_hist w)"
      using domI [of "w_hist w", OF that(2)] gens
      by (intro subset_trans [OF currentAuthzShard_gens [OF that(1)]]) simp
    from memo_OK [OF ok c(1) this c(3)] show "worldOK R (w\<lparr>w_memo := m'\<rparr>)" .
    show "holdsShard m' a (PublishSeq snap)" by (rule c(2))
  qed
  from step show ?thesis
  proof cases
    case (publish snap)
    then show ?thesis using publish_OK [OF ok] by simp
  next
    case (load t snap opts)
    then have "w_hist w (PublishSeq snap) = Some snap" using ok by (simp add: worldOK_def seqsIssued_def)
    with load show ?thesis using goto_OK [OF ok] by simp
  next
    case (acquire t snap opts a m')
    then show ?thesis using run [of t] acq [of snap a m'] by (auto intro!: goto_OK)
  next
    case (hit t snap opts a v m')
    then have h: "w_hist w (PublishSeq snap) = Some snap" "opts \<in> R" "holdsShard (w_memo w) a (PublishSeq snap)"
      using run [of t] by auto
    note r = readShard_OK [OF m h(3) hit(3)]
    have "coldAnswer snap opts v" using r(3) h by (auto simp: entryRight_def)
    moreover have "worldOK R (w\<lparr>w_memo := m'\<rparr>)"
      by (rule memo_OK [OF ok r(1)]) (use gens hit(3) r(2) in simp_all)
    ultimately show ?thesis unfolding hit(1) using h by (intro answer_OK) simp_all
  next
    case (miss t snap opts a m')
    then have h: "w_hist w (PublishSeq snap) = Some snap" "opts \<in> R" "holdsShard (w_memo w) a (PublishSeq snap)"
      using run [of t] by auto
    note r = readShard_OK [OF m h(3) miss(3)]
    have "worldOK R (w\<lparr>w_memo := m'\<rparr>)"
      by (rule memo_OK [OF ok r(1)]) (use gens miss(3) r(2) in simp_all)
    then show ?thesis unfolding miss(1) using h by (intro goto_OK) simp_all
  next
    case (deny t snap opts v)
    then show ?thesis using run [of t] by (auto intro!: answer_OK ok simp: coldAnswer_def)
  next
    case (permit t snap opts v a m')
    then show ?thesis using run [of t] acq [of snap a m'] by (auto intro!: goto_OK)
  next
    case (store t snap opts v a)
    then have h: "w_hist w (PublishSeq snap) = Some snap" "opts \<in> R" "holdsShard (w_memo w) a (PublishSeq snap)"
      "v_allowed v" "fst (evaluateAgainstInformerFirstMatch snap opts) = v"
      using run [of t] by auto
    note e = entryRight_coldAnswer [OF wp R h(1,2,5,4)]
    note s = overwriteShard_OK [OF m h(3) e, folded storeWithCap_def]
    have "sh_gen ` set (memo_heap (storeWithCap a (memoKeyOf (PublishSeq snap) opts) v (w_memo w))) \<subseteq> dom (w_hist w)"
      using storeWithCap_gens gens h(3) by (simp add: holdsShard_def)
    then have "worldOK R (w\<lparr>w_memo := storeWithCap a (memoKeyOf (PublishSeq snap) opts) v (w_memo w)\<rparr>)"
      by (intro memo_OK [OF ok s(1)]) (use s(2) in simp_all)
    then show ?thesis unfolding store(1) using h by (intro answer_OK) (simp_all add: coldAnswer_def)
  qed
qed

lemma memoReachable_OK: "memoReachable R w \<Longrightarrow> hashFaithful R \<Longrightarrow> worldOK R w"
  by (induction rule: memoReachable.induct) (auto intro: startWorld_OK memoStep_OK)

section \<open>A request left to run completes\<close>

lemma run_goto [simp]: "w_run (goto t pc w) t = pc" "w_memo (goto t pc w) = w_memo w"
  "w_replies (goto t pc w) = w_replies w"
  by (simp_all add: goto_def)

lemma replies_answer [simp]: "w_replies (answer t snap opts v w) = w_replies w @ [(snap, opts, v)]"
  by (simp add: answer_def)

lemma run_completes:
  assumes reach: "memoReachable R w" and idle: "w_run w t = Idle" and snap: "w_snap w = Some snap" and "opts \<in> R"
  shows "\<exists>w' v. memoReachable R w' \<and> w_replies w' = w_replies w @ [(snap, opts, v)]"
proof -
  let ?k = "memoKeyOf (PublishSeq snap) opts"
  obtain a m where acq: "currentAuthzShard (PublishSeq snap) (w_memo w) = (a, m)" by fastforce
  define w1 where "w1 = goto t (Loaded snap opts) w"
  define w2 where "w2 = goto t (AtShard snap opts a) (w1\<lparr>w_memo := m\<rparr>)"
  have r1: "memoReachable R w1"
    unfolding w1_def by (rule memoReachable.step [OF reach memoStep.load [OF idle snap assms(4)]])
  have r2: "memoReachable R w2"
    unfolding w2_def
    by (rule memoReachable.step [OF r1]) (rule memoStep.acquire, simp_all add: w1_def acq)
  have w2: "w_run w2 t = AtShard snap opts a" "w_memo w2 = m" "w_replies w2 = w_replies w"
    by (simp_all add: w2_def w1_def)
  obtain r m' where read: "readShard a ?k m = (r, m')" by fastforce
  show ?thesis
  proof (cases r)
    case (Some v)
    with w2 read have "memoStep R w2 (answer t snap opts v (w2\<lparr>w_memo := m'\<rparr>))"
      by (intro memoStep.hit) simp_all
    from memoReachable.step [OF r2 this] show ?thesis
      by (intro exI conjI, assumption) (simp add: w2)
  next
    case None
    define w3 where "w3 = goto t (Missed snap opts) (w2\<lparr>w_memo := m'\<rparr>)"
    have w3: "w_run w3 t = Missed snap opts" "w_replies w3 = w_replies w" by (simp_all add: w3_def w2)
    have r3: "memoReachable R w3"
      unfolding w3_def
      by (rule memoReachable.step [OF r2]) (rule memoStep.miss, rule w2(1), simp add: w2 read [unfolded None])
    let ?v = "fst (evaluateAgainstInformerFirstMatch snap opts)"
    show ?thesis
    proof (cases "v_allowed ?v")
      case False
      from memoReachable.step [OF r3 memoStep.deny [OF w3(1) refl False]] show ?thesis
        by (intro exI conjI, assumption) (simp add: w3)
    next
      case True
      obtain b n where acq': "currentAuthzShard (PublishSeq snap) (w_memo w3) = (b, n)" by fastforce
      define w4 where "w4 = goto t (AtStore snap opts ?v b) (w3\<lparr>w_memo := n\<rparr>)"
      have r4: "memoReachable R w4"
        unfolding w4_def by (rule memoReachable.step [OF r3 memoStep.permit [OF w3(1) refl True acq']])
      have w4: "w_run w4 t = AtStore snap opts ?v b" "w_replies w4 = w_replies w"
        by (simp_all add: w4_def w3)
      from memoReachable.step [OF r4 memoStep.store [OF w4(1)]] show ?thesis
        by (intro exI conjI, assumption) (simp add: w4)
    qed
  qed
qed

section \<open>Properties\<close>

text \<open>C20: However requests and publishes interleave, every answer is the cold evaluation of the
  request on the snapshot it loaded: a permit cached for an older snapshot, or for another request
  of the same key, is never served where that evaluation differs.\<close>

theorem memo_never_stale:
  assumes "memoReachable R w" "hashFaithful R" "(snap, opts, v) \<in> set (w_replies w)"
  shows "w_hist w (PublishSeq snap) = Some snap \<and>
    v_allowed v = v_allowed (fst (evaluateAgainstInformerFirstMatch snap opts)) \<and>
    (\<not> opt_skipuid opts \<longrightarrow> v = fst (evaluateAgainstInformerFirstMatch snap opts))"
  using memoReachable_OK [OF assms(1,2)] assms(3) unfolding worldOK_def coldAnswer_def by blast

abbreviation (input) exBob :: "gostring list \<Rightarrow> EvaluateOptions" where
  "exBob gs \<equiv> exRequest ''bob'' gs ''get''"

lemma ex_bob_permitted:
  "''devs'' \<in> set gs \<Longrightarrow> v_allowed (fst (evaluateAgainstInformerFirstMatch
     (exSnapshot\<lparr>PublishSeq := n\<rparr>) (exBob gs)))"
proof -
  let ?s = "exSnapshot\<lparr>PublishSeq := n\<rparr>"
  assume "''devs'' \<in> set gs"
  then have "crbGrants ?s (exBob gs) exCRB"
    by (simp add: crbGrants_def subjectNames_def heldGroups_def roleGrants_def lookupRoleRefRules_def
        ruleAllows_def exSnapshot_def ex_objects kind_defs)
  then have "find (crbGrants ?s (exBob gs)) (crbOrder ?s (exBob gs)) \<noteq> None"
    using find_crb_None [of ?s "exBob gs"] by (auto simp: exSnapshot_def simp del: in_crbsOf)
  then show ?thesis by (auto simp: evaluate_finds)
qed

definition exPublished :: RBACSnapshot where
  "exPublished = exSnapshot\<lparr>PublishSeq := 1\<rparr>"

definition exWorld :: world where
  "exWorld = publishStep exSnapshot startWorld"

lemma exWorld_reachable: "memoReachable R exWorld"
  unfolding exWorld_def
  by (rule memoReachable.step [OF memoReachable.start memoStep.publish])
    (simp_all add: exSnapshot_def startWorld_def ex_objects del: in_crbsOf in_rbsIn)

lemma exWorld_fields: "w_run exWorld t = Idle" "w_snap exWorld = Some exPublished" "w_replies exWorld = []"
  by (simp_all add: exWorld_def publishStep_def startWorld_def exPublished_def Let_def)

lemma exBobs_hashFaithful: "hashFaithful {exBob [''devs'', ''ops''], exBob [''ops'', ''devs'']}"
  by (auto simp: hashFaithful_def)

lemma memo_never_stale_witness:
  "\<exists>w v. memoReachable {exBob [''devs'', ''ops''], exBob [''ops'', ''devs'']} w \<and>
     (exPublished, exBob [''devs'', ''ops''], v) \<in> set (w_replies w) \<and> v_allowed v"
proof -
  let ?R = "{exBob [''devs'', ''ops''], exBob [''ops'', ''devs'']}"
  obtain w v where w: "memoReachable ?R w" "w_replies w = [(exPublished, exBob [''devs'', ''ops''], v)]"
    using run_completes [OF exWorld_reachable exWorld_fields(1,2), of "exBob [''devs'', ''ops'']" ?R]
    by (auto simp: exWorld_fields)
  then show ?thesis
    using memo_never_stale [OF w(1) exBobs_hashFaithful, of exPublished "exBob [''devs'', ''ops'']" v]
      ex_bob_permitted [of "[''devs'', ''ops'']" 1] by (auto simp: exPublished_def)
qed

text \<open>Whatever ran before, a request left to run alone is answered: it takes a shard, reads it and
  at most once evaluates and stores.\<close>

theorem memo_request_completes:
  assumes "memoReachable R w" "w_run w t = Idle" "w_snap w = Some snap" "opts \<in> R"
  shows "\<exists>w' v. memoReachable R w' \<and> w_replies w' = w_replies w @ [(snap, opts, v)]"
  using assms by (rule run_completes)

lemma memo_request_completes_witness:
  "\<exists>w v. memoReachable {noOptions} w \<and> w_replies w = [(exPublished, noOptions, v)]"
  using memo_request_completes [OF exWorld_reachable exWorld_fields(1,2), of noOptions "{noOptions}"]
  by (simp add: exWorld_fields)

text \<open>No shard of the authorization memo, current or swapped out, ever holds more than the cap of
  16384 entries, and every entry it holds is a permit: a deny is never cached.\<close>

theorem memo_bounded_permits:
  assumes "memoReachable R w" "hashFaithful R" "s \<in> set (memo_heap (w_memo w))"
  shows "length (sh_map s) \<le> 16384 \<and> (\<forall>k v. map_of (sh_map s) k = Some v \<longrightarrow> v_allowed v)"
proof -
  have "shardOK (entryRight (w_hist w) R) snapshotAuthzMemoCap s"
    using memoReachable_OK [OF assms(1,2)] assms(3) by (simp add: worldOK_def memoOK_def)
  then show ?thesis by (auto simp: shardOK_def entryRight_def snapshotAuthzMemoCap_def)
qed

lemma memo_bounded_permits_witness:
  "\<exists>w s. memoReachable {exBob [''devs'']} w \<and> s \<in> set (memo_heap (w_memo w)) \<and>
     length (sh_map s) \<le> 16384"
proof -
  let ?R = "{exBob [''devs'']}"
  define w1 where "w1 = goto 0 (Loaded exPublished (exBob [''devs''])) exWorld"
  have r1: "memoReachable ?R w1"
    unfolding w1_def by (rule memoReachable.step [OF exWorld_reachable memoStep.load])
      (simp_all add: exWorld_fields)
  obtain a m where acq: "currentAuthzShard (PublishSeq exPublished) (w_memo w1) = (a, m)" by fastforce
  define w2 where "w2 = goto 0 (AtShard exPublished (exBob [''devs'']) a) (w1\<lparr>w_memo := m\<rparr>)"
  have r2: "memoReachable ?R w2"
    unfolding w2_def by (rule memoReachable.step [OF r1 memoStep.acquire [OF _ acq]]) (simp add: w1_def)
  have m: "memo_heap (w_memo w2) = [\<lparr>sh_gen = PublishSeq exPublished, sh_map = []\<rparr>]"
    using acq by (auto simp: w2_def w1_def exWorld_def publishStep_def startWorld_def emptyMemo_def
        currentAuthzShard_def currentShard_def Let_def)
  have "hashFaithful ?R" by (simp add: hashFaithful_def)
  from memo_bounded_permits [OF r2 this, of "\<lparr>sh_gen = PublishSeq exPublished, sh_map = []\<rparr>"] r2 m
  show ?thesis by (intro exI [of _ w2] exI [of _ "\<lparr>sh_gen = PublishSeq exPublished, sh_map = []\<rparr>"]) simp
qed

end
