(* ===== verification/RBACProfile.thy ===== *)
theory RBACProfile
  imports RBACMemo
begin

text \<open>
  The requester profile (rbac/profile.go): every rule an identity holds, collected once per
  identity and generation, from which each check is answered without walking bindings again. Its
  contract is that it answers exactly as the evaluator does. The granted atoms
  (rbac/granted\_atoms.go) enumerate, for one verb, where a profile grants which resource; they are
  the canonical value folded into a digest.
\<close>

section \<open>The profile\<close>

record RequesterProfile =
  prof_gen :: "64 word"
  prof_cluster :: "PolicyRule list"
  prof_namespaced :: "(gostring \<times> PolicyRule list) list"

definition BuildRequesterProfile :: "RBACSnapshot option \<Rightarrow> EvaluateOptions \<Rightarrow> RequesterProfile" where
  "BuildRequesterProfile psnap ident =
     (let p = \<lparr>prof_gen = 0, prof_cluster = [], prof_namespaced = []\<rparr> in
      case psnap of None \<Rightarrow> p
      | Some snap \<Rightarrow>
          (let idOnly = identityOnly (opt_username ident) (opt_groups ident);
               cluster = foldl (\<lambda>rules crb.
                   if \<not> anySubjectMatches (crb_subjects crb) idOnly then rules
                   else case lookupRoleRefRules snap [] (crb_roleref crb) of
                          None \<Rightarrow> rules | Some rs \<Rightarrow> rules @ rs)
                 [] (selectCRBCandidates psnap idOnly);
               namespaced = foldl (\<lambda>m rb.
                   if \<not> anySubjectMatches (rb_subjects rb) idOnly then m
                   else case lookupRoleRefRules snap (rb_ns rb) (rb_roleref rb) of
                          None \<Rightarrow> m | Some rs \<Rightarrow> aappend m (rb_ns rb) rs)
                 [] (selectRBCandidatesAllNS psnap idOnly)
           in \<lparr>prof_gen = PublishSeq snap, prof_cluster = cluster, prof_namespaced = namespaced\<rparr>))"

definition Permits :: "RequesterProfile option \<Rightarrow> EvaluateOptions \<Rightarrow> bool" where
  "Permits pp opts = (case pp of None \<Rightarrow> False
     | Some p \<Rightarrow>
         if rulesPermit (prof_cluster p) opts then True
         else opt_namespace opts \<noteq> [] \<and> rulesPermit (alookup (prof_namespaced p) (opt_namespace opts)) opts)"

section \<open>It answers as the evaluator\<close>

lemma foldl_collect:
  "rulesPermit (foldl (\<lambda>rules b. if \<not> M b then rules
       else case L b of None \<Rightarrow> rules | Some rs \<Rightarrow> rules @ rs) acc bs) opts \<longleftrightarrow>
     rulesPermit acc opts \<or> (\<exists>b\<in>set bs. M b \<and> (\<exists>rs. L b = Some rs \<and> rulesPermit rs opts))"
  by (induction bs arbitrary: acc) (auto split: option.split)

lemma foldl_collectNS:
  "rulesPermit (alookup (foldl (\<lambda>m b. if \<not> M b then m
       else case L b of None \<Rightarrow> m | Some rs \<Rightarrow> aappend m (N b) rs) acc bs) ns) opts \<longleftrightarrow>
     rulesPermit (alookup acc ns) opts \<or>
     (\<exists>b\<in>set bs. N b = ns \<and> M b \<and> (\<exists>rs. L b = Some rs \<and> rulesPermit rs opts))"
  by (induction bs arbitrary: acc) (auto split: option.split)

lemma identityOnly_fields [simp]:
  "opt_username (identityOnly u gs) = u" "opt_groups (identityOnly u gs) = gs"
  by (simp_all add: identityOnly_def noOptions_def)

lemma sameIdentity_identityOnly:
  "sameIdentity a b \<Longrightarrow> sameIdentity (identityOnly (opt_username a) (opt_groups a)) b"
  by (simp add: sameIdentity_def)

lemma roleGrants_rules:
  "roleGrants snap ns ref opts \<longleftrightarrow> (\<exists>rs. lookupRoleRefRules snap ns ref = Some rs \<and> rulesPermit rs opts)"
  by (simp add: roleGrants_def rulesPermit_iff)

lemma evaluate_candidates:
  "v_allowed (fst (evaluateAgainstInformerFirstMatch snap opts)) \<longleftrightarrow>
     (\<exists>b\<in>set (selectCRBCandidates (Some snap) opts). crbGrants snap opts b) \<or>
     opt_namespace opts \<noteq> [] \<and>
     (\<exists>b\<in>set (selectRBCandidates (Some snap) (opt_namespace opts) opts). rbGrants snap opts b)"
proof -
  have c: "find (crbGrants snap opts) (crbOrder snap opts) = None \<longleftrightarrow>
      \<not> (\<exists>b\<in>set (selectCRBCandidates (Some snap) opts). crbGrants snap opts b)"
    and r: "find (rbGrants snap opts) (rbOrder snap opts) = None \<longleftrightarrow>
      \<not> (\<exists>b\<in>set (selectRBCandidates (Some snap) (opt_namespace opts) opts). rbGrants snap opts b)"
    by (simp_all add: find_eq_None)
  show ?thesis
    unfolding evaluate_finds
    by (cases "find (crbGrants snap opts) (crbOrder snap opts)";
        cases "find (rbGrants snap opts) (rbOrder snap opts)") (use c r in auto)
qed

text \<open>The all-namespace selector holds, per namespace, what the namespace's selector holds.\<close>

lemma selectRBCandidatesAllNS_namespace:
  assumes "indexed snap" "sameIdentity a b" "ns \<noteq> []"
  shows "r \<in> set (selectRBCandidatesAllNS (Some snap) a) \<and> rb_ns r = ns \<longleftrightarrow>
         r \<in> set (selectRBCandidates (Some snap) ns b)"
proof -
  have filed: "rb_ns r = n" if "r \<in> set (rbsIn snap n)" for n r
    using assms(1) that by (auto simp: indexed_def filedByNS_def simp del: in_rbsIn)
  note same = assms(2) [unfolded sameIdentity_def] heldGroups_sameIdentity [OF assms(2)]
  show ?thesis
    using subject_index.set_route [OF rb_allNS_index_contract [OF assms(1)] prod_eta3 [symmetric], of a]
      subject_index.set_route [OF rb_index_contract [OF assms(1), of ns] prod_eta3 [symmetric], of b]
      filed assms(3) same
    by (simp add: selector_defs del: in_rbsIn) blast
qed

lemma Permits_Build:
  assumes "indexed snap" "sameIdentity ident opts"
  shows "Permits (Some (BuildRequesterProfile (Some snap) ident)) opts =
         v_allowed (fst (evaluateAgainstInformerFirstMatch snap opts))"
proof -
  let ?i = "identityOnly (opt_username ident) (opt_groups ident)"
  let ?ns = "opt_namespace opts"
  note same = sameIdentity_identityOnly [OF assms(2)]
  have m: "anySubjectMatches ss ?i = anySubjectMatches ss opts" for ss
    by (rule anySubjectMatches_sameIdentity [OF same])
  have c: "set (selectCRBCandidates (Some snap) ?i) = set (selectCRBCandidates (Some snap) opts)"
    using subject_index.route_sameIdentity [OF crb_index_contract [OF assms(1)] same]
    by (simp add: selector_defs)
  have r: "(\<exists>b\<in>set (selectRBCandidatesAllNS (Some snap) ?i). rb_ns b = ?ns \<and> P b) \<longleftrightarrow>
      (\<exists>b\<in>set (selectRBCandidates (Some snap) ?ns opts). P b)" if "?ns \<noteq> []" for P
    using selectRBCandidatesAllNS_namespace [OF assms(1) same that] by blast
  have rb: "(\<exists>b\<in>set (selectRBCandidatesAllNS (Some snap) ?i). rb_ns b = ?ns \<and>
        anySubjectMatches (rb_subjects b) opts \<and>
        (\<exists>rs. lookupRoleRefRules snap (rb_ns b) (rb_roleref b) = Some rs \<and> rulesPermit rs opts)) \<longleftrightarrow>
      (\<exists>b\<in>set (selectRBCandidates (Some snap) ?ns opts). rbGrants snap opts b)" if "?ns \<noteq> []"
    unfolding r [OF that, symmetric] rbGrants_walk walkAccepts_def roleGrants_rules by metis
  show ?thesis
    unfolding evaluate_candidates Permits_def BuildRequesterProfile_def Let_def option.case
      RequesterProfile.simps foldl_collect foldl_collectNS m return_True c
    using rb by (auto simp: crbGrants_walk walkAccepts_def roleGrants_rules)
qed

section \<open>The profile memo\<close>

record requesterProfileKey =
  pk_gen :: "64 word"
  pk_username :: gostring
  pk_groupshash :: "64 word"

definition requesterProfileMemoCap :: nat where "requesterProfileMemoCap = 4096"

type_synonym profile_memo = "(64 word, requesterProfileKey, RequesterProfile) memo"

definition profileKeyOf :: "64 word \<Rightarrow> EvaluateOptions \<Rightarrow> requesterProfileKey" where
  "profileKeyOf gen ident = \<lparr>pk_gen = gen, pk_username = opt_username ident,
     pk_groupshash = canonicalGroupsHash (opt_groups ident)\<rparr>"

definition currentRequesterProfileShard :: "64 word \<Rightarrow> profile_memo \<Rightarrow> nat \<times> profile_memo" where
  "currentRequesterProfileShard gen m = currentShard gen m"

definition RequesterProfileFor ::
  "RBACSnapshot option \<Rightarrow> EvaluateOptions \<Rightarrow> profile_memo \<Rightarrow> RequesterProfile \<times> profile_memo" where
  "RequesterProfileFor psnap ident m = (case psnap of
       None \<Rightarrow> (BuildRequesterProfile None ident, m)
     | Some snap \<Rightarrow>
         (let gen = PublishSeq snap; key = profileKeyOf gen ident in
          case currentRequesterProfileShard gen m of (shard, m1) \<Rightarrow>
          (case readShard shard key m1 of
             (Some p, m2) \<Rightarrow> (p, m2)
           | (None, m2) \<Rightarrow>
               (case currentRequesterProfileShard gen m2 of (shard', m3) \<Rightarrow>
                  keepShard requesterProfileMemoCap shard' key
                    (BuildRequesterProfile (Some snap) ident) m3))))"

lemma RequesterProfileFor_ask:
  "RequesterProfileFor (Some snap) ident =
     keepMemo.ask requesterProfileMemoCap (\<lambda>_. BuildRequesterProfile (Some snap) ident)
       (PublishSeq snap) (profileKeyOf (PublishSeq snap) ident)"
  by (simp add: fun_eq_iff RequesterProfileFor_def keepMemo.ask_def memoLookup_def memoKeep_def
      currentRequesterProfileShard_def Let_def split: prod.split option.split)

text \<open>A profile is right for a key when it answers every check of every identity with that key.\<close>

definition profileRight ::
  "(64 word \<rightharpoonup> RBACSnapshot) \<Rightarrow> EvaluateOptions set \<Rightarrow> 64 word \<Rightarrow> requesterProfileKey \<Rightarrow> RequesterProfile \<Rightarrow> bool" where
  "profileRight hist R gen key p \<longleftrightarrow> (\<forall>snap ident opts. hist gen = Some snap \<longrightarrow> ident \<in> R \<longrightarrow>
     profileKeyOf gen ident = key \<longrightarrow> sameIdentity ident opts \<longrightarrow>
     Permits (Some p) opts = v_allowed (fst (evaluateAgainstInformerFirstMatch snap opts)))"

lemma sameProfileKey:
  assumes "hashFaithful R" "a \<in> R" "b \<in> R" "profileKeyOf gen a = profileKeyOf gen b"
  shows "sameIdentity a b"
proof -
  note keys = assms(4) [unfolded profileKeyOf_def requesterProfileKey.ext_inject]
  from keys have "set (opt_groups a) = set (opt_groups b)"
    using assms(1-3) unfolding hashFaithful_def by blast
  with keys show ?thesis unfolding sameIdentity_def by blast
qed

lemma sameIdentity_trans: "sameIdentity a b \<Longrightarrow> sameIdentity b c \<Longrightarrow> sameIdentity a c"
  by (simp add: sameIdentity_def)

lemma Build_profileRight:
  assumes "wellPublished hist" "hashFaithful R" "hist gen = Some snap" "ident \<in> R"
  shows "profileRight hist R gen (profileKeyOf gen ident) (BuildRequesterProfile (Some snap) ident)"
proof -
  have "indexed snap" using assms(1,3) unfolding wellPublished_def by blast
  moreover have "sameIdentity ident opts"
    if "i \<in> R" "profileKeyOf gen i = profileKeyOf gen ident" "sameIdentity i opts" for i opts
    using sameProfileKey [OF assms(2,4) that(1) that(2) [symmetric]] that(3) by (rule sameIdentity_trans)
  ultimately show ?thesis using assms(3) Permits_Build unfolding profileRight_def by fastforce
qed

lemma RequesterProfileFor_OK:
  assumes "wellPublished hist" "hashFaithful R" "ident \<in> R" "hist (PublishSeq snap) = Some snap"
    and "memoOK (profileRight hist R) requesterProfileMemoCap m"
    and "RequesterProfileFor (Some snap) ident m = (p, m')"
  shows "memoOK (profileRight hist R) requesterProfileMemoCap m'"
    and "profileRight hist R (PublishSeq snap) (profileKeyOf (PublishSeq snap) ident) p"
  using keepMemo.ask_OK [OF assms(5) Build_profileRight [OF assms(1,2,4,3)]] assms(6)
  unfolding RequesterProfileFor_ask by blast+

section \<open>Granted atoms\<close>

record GrantedAtom =
  atom_group :: gostring
  atom_resource :: gostring
  atom_cluster :: bool
  atom_namespaces :: "gostring list"

definition tokensFor :: "gostring list \<Rightarrow> gostring \<Rightarrow> gostring list" where
  "tokensFor ruleDim classField =
     (if classField = ''*'' then ruleDim
      else if stringSliceMatches ruleDim classField then [classField] else [])"

type_synonym coord = "gostring \<times> gostring"

definition collectCoords ::
  "gostring \<Rightarrow> gostring \<Rightarrow> gostring \<Rightarrow> coord list \<Rightarrow> PolicyRule list \<Rightarrow> coord list" where
  "collectCoords verb grp res seen rules = foldl (\<lambda>seen rule.
     if \<not> stringSliceMatches (rule_verbs rule) verb then seen
     else addNew seen (List.product (tokensFor (rule_apigroups rule) grp)
                                    (tokensFor (rule_resources rule) res))) seen rules"

definition atomCheck :: "gostring \<Rightarrow> coord \<Rightarrow> gostring \<Rightarrow> EvaluateOptions" where
  "atomCheck verb c ns = noOptions\<lparr>opt_verb := verb, opt_group := fst c, opt_resource := snd c,
     opt_namespace := ns\<rparr>"

definition atomOf :: "RequesterProfile \<Rightarrow> gostring \<Rightarrow> coord \<Rightarrow> GrantedAtom option" where
  "atomOf p verb c =
     (if Permits (Some p) (atomCheck verb c []) then
        Some \<lparr>atom_group = fst c, atom_resource = snd c, atom_cluster = True, atom_namespaces = []\<rparr>
      else let nss = filter (\<lambda>ns. ns \<noteq> [] \<and> Permits (Some p) (atomCheck verb c ns))
                       (map fst (prof_namespaced p)) in
        if nss = [] then None
        else Some \<lparr>atom_group = fst c, atom_resource = snd c, atom_cluster = False,
                   atom_namespaces = sort nss\<rparr>)"

definition GrantedAtoms ::
  "RequesterProfile option \<Rightarrow> gostring \<Rightarrow> gostring \<Rightarrow> gostring \<Rightarrow> GrantedAtom list" where
  "GrantedAtoms pp verb grp res = (case pp of None \<Rightarrow> []
     | Some p \<Rightarrow>
         (let seen0 = collectCoords verb grp res [] (prof_cluster p);
              seen = foldl (collectCoords verb grp res) seen0 (map snd (prof_namespaced p))
          in if seen = [] then []
             else sort_key (\<lambda>a. (atom_group a, atom_resource a)) (List.map_filter (atomOf p verb) seen)))"

text \<open>The coordinates a profile's rules name for a class.\<close>

definition ruleNames :: "gostring \<Rightarrow> gostring \<Rightarrow> gostring \<Rightarrow> PolicyRule \<Rightarrow> coord \<Rightarrow> bool" where
  "ruleNames verb grp res rule c \<longleftrightarrow> stringSliceMatches (rule_verbs rule) verb \<and>
     fst c \<in> set (tokensFor (rule_apigroups rule) grp) \<and>
     snd c \<in> set (tokensFor (rule_resources rule) res)"

definition profileRules :: "RequesterProfile \<Rightarrow> PolicyRule set" where
  "profileRules p = set (prof_cluster p) \<union> (\<Union>l\<in>snd ` set (prof_namespaced p). set l)"

lemma set_collectCoords:
  "set (collectCoords verb grp res seen rules) =
     set seen \<union> {c. \<exists>rule\<in>set rules. ruleNames verb grp res rule c}"
  unfolding collectCoords_def
  by (induction rules arbitrary: seen) (auto simp: ruleNames_def mem_Times_iff)

lemma distinct_collectCoords:
  "distinct seen \<Longrightarrow> distinct (collectCoords verb grp res seen rules)"
  unfolding collectCoords_def by (induction rules arbitrary: seen) auto

definition seenCoords :: "RequesterProfile \<Rightarrow> gostring \<Rightarrow> gostring \<Rightarrow> gostring \<Rightarrow> coord list" where
  "seenCoords p verb grp res = foldl (collectCoords verb grp res)
     (collectCoords verb grp res [] (prof_cluster p)) (map snd (prof_namespaced p))"

lemma set_foldl_collectCoords:
  "set (foldl (collectCoords verb grp res) seen ls) =
     set seen \<union> {c. \<exists>l\<in>set ls. \<exists>rule\<in>set l. ruleNames verb grp res rule c}"
  by (induction ls arbitrary: seen) (auto simp: set_collectCoords)

lemma distinct_foldl_collectCoords:
  "distinct seen \<Longrightarrow> distinct (foldl (collectCoords verb grp res) seen ls)"
  by (induction ls arbitrary: seen) (auto simp: distinct_collectCoords)

lemma set_seenCoords:
  "set (seenCoords p verb grp res) =
     {c. \<exists>rule\<in>profileRules p. ruleNames verb grp res rule c}"
  unfolding seenCoords_def set_foldl_collectCoords set_collectCoords profileRules_def by auto

lemma distinct_seenCoords: "distinct (seenCoords p verb grp res)"
  by (simp add: seenCoords_def distinct_foldl_collectCoords distinct_collectCoords)

lemma GrantedAtoms_seen:
  "GrantedAtoms (Some p) verb grp res =
     sort_key (\<lambda>a. (atom_group a, atom_resource a)) (List.map_filter (atomOf p verb) (seenCoords p verb grp res))"
  by (simp add: GrantedAtoms_def Let_def seenCoords_def [symmetric] map_filter_simps)

lemma atomOf_coord: "atomOf p verb c = Some a \<Longrightarrow> (atom_group a, atom_resource a) = c"
  by (auto simp: atomOf_def Let_def split: if_splits)

lemma set_map_filter: "set (List.map_filter f xs) = {y. \<exists>x\<in>set xs. f x = Some y}"
  by (induction xs) (auto simp: map_filter_simps split: option.split)

lemma set_GrantedAtoms:
  "set (GrantedAtoms (Some p) verb grp res) =
     {a. \<exists>c. (\<exists>rule\<in>profileRules p. ruleNames verb grp res rule c) \<and> atomOf p verb c = Some a}"
  by (auto simp: GrantedAtoms_seen set_map_filter set_seenCoords)

lemma distinct_map_filter_coord:
  "distinct cs \<Longrightarrow> distinct (List.map_filter (atomOf p verb) cs)"
proof (induction cs)
  case (Cons c cs)
  then show ?case
    by (auto simp: map_filter_simps set_map_filter split: option.split dest!: atomOf_coord)
qed (simp add: map_filter_simps)

lemma atomCheck_fields [simp]:
  "opt_namespace (atomCheck verb c ns) = ns" "opt_verb (atomCheck verb c ns) = verb"
  "opt_group (atomCheck verb c ns) = fst c" "opt_resource (atomCheck verb c ns) = snd c"
  by (simp_all add: atomCheck_def noOptions_def)

lemma Permits_namespace_key:
  assumes "Permits (Some p) opts" "\<not> rulesPermit (prof_cluster p) opts"
  shows "opt_namespace opts \<in> fst ` set (prof_namespaced p)"
  using assms by (force simp: Permits_def return_True alookup_def dest: map_of_SomeD split: option.splits if_splits)

lemma Permits_cluster_anywhere:
  "Permits (Some p) (atomCheck verb c []) \<longleftrightarrow> rulesPermit (prof_cluster p) (atomCheck verb c ns)"
proof -
  have "sameAction (atomCheck verb c []) (atomCheck verb c ns)"
    by (simp add: sameAction_def atomCheck_def)
  then show ?thesis by (simp add: Permits_def rulesPermit_sameAction)
qed

definition grantedNamespaces :: "RequesterProfile \<Rightarrow> gostring \<Rightarrow> coord \<Rightarrow> gostring set" where
  "grantedNamespaces p verb c = {ns. ns \<noteq> [] \<and> Permits (Some p) (atomCheck verb c ns)}"

lemma atomOf_spec:
  "atomOf p verb c =
     (if Permits (Some p) (atomCheck verb c []) then
        Some \<lparr>atom_group = fst c, atom_resource = snd c, atom_cluster = True, atom_namespaces = []\<rparr>
      else if grantedNamespaces p verb c = {} then None
      else Some \<lparr>atom_group = fst c, atom_resource = snd c, atom_cluster = False,
             atom_namespaces = sort (filter (\<lambda>ns. ns \<in> grantedNamespaces p verb c)
               (map fst (prof_namespaced p)))\<rparr>)"
proof (cases "Permits (Some p) (atomCheck verb c [])")
  case False
  then have "grantedNamespaces p verb c \<subseteq> fst ` set (prof_namespaced p)"
    using Permits_namespace_key [of p] Permits_cluster_anywhere [of p verb c]
    by (auto simp: grantedNamespaces_def) (metis atomCheck_fields(1))
  then have "filter (\<lambda>ns. ns \<in> grantedNamespaces p verb c) (map fst (prof_namespaced p)) = [] \<longleftrightarrow>
      grantedNamespaces p verb c = {}" by (auto simp: filter_empty_conv)
  moreover have "filter (\<lambda>ns. ns \<noteq> [] \<and> Permits (Some p) (atomCheck verb c ns)) (map fst (prof_namespaced p)) =
      filter (\<lambda>ns. ns \<in> grantedNamespaces p verb c) (map fst (prof_namespaced p))"
    by (simp add: grantedNamespaces_def)
  ultimately show ?thesis using False by (simp only: atomOf_def Let_def if_False)
qed (simp add: atomOf_def)

lemma grantedNamespaces_keys:
  assumes "\<not> Permits (Some p) (atomCheck verb c [])"
  shows "grantedNamespaces p verb c \<subseteq> fst ` set (prof_namespaced p)"
  using Permits_namespace_key [of p] Permits_cluster_anywhere [of p verb c] assms
  by (auto simp: grantedNamespaces_def) (metis atomCheck_fields(1))

text \<open>Two profiles with the same rules in the same places; the maps' keys are distinct.\<close>

definition sameRules :: "RequesterProfile \<Rightarrow> RequesterProfile \<Rightarrow> bool" where
  "sameRules p q \<longleftrightarrow> set (prof_cluster p) = set (prof_cluster q) \<and>
     distinct (map fst (prof_namespaced p)) \<and> distinct (map fst (prof_namespaced q)) \<and>
     fst ` set (prof_namespaced p) = fst ` set (prof_namespaced q) \<and>
     (\<forall>ns. set (alookup (prof_namespaced p) ns) = set (alookup (prof_namespaced q) ns))"

lemma profileRules_alookup:
  assumes "distinct (map fst (prof_namespaced p))"
  shows "profileRules p = set (prof_cluster p) \<union> (\<Union>ns. set (alookup (prof_namespaced p) ns))"
proof -
  have "(\<Union>l\<in>snd ` set (prof_namespaced p). set l) = (\<Union>ns. set (alookup (prof_namespaced p) ns))"
    using alookup_eq [OF assms] by (force dest: alookup_in_set)
  then show ?thesis by (simp add: profileRules_def)
qed

lemma Permits_sameRules: "sameRules p q \<Longrightarrow> Permits (Some p) opts = Permits (Some q) opts"
  by (simp add: Permits_def sameRules_def rulesPermit_iff)

lemma atomOf_sameRules:
  assumes "sameRules p q"
  shows "atomOf p verb c = atomOf q verb c"
proof -
  have g: "grantedNamespaces p verb c = grantedNamespaces q verb c"
    by (simp add: grantedNamespaces_def Permits_sameRules [OF assms])
  have "mset (map fst (prof_namespaced p)) = mset (map fst (prof_namespaced q))"
    using assms unfolding sameRules_def
    by (intro set_eq_iff_mset_eq_distinct [THEN iffD1]) simp_all
  then have "sort (filter (\<lambda>ns. ns \<in> grantedNamespaces q verb c) (map fst (prof_namespaced p))) =
      sort (filter (\<lambda>ns. ns \<in> grantedNamespaces q verb c) (map fst (prof_namespaced q)))"
    unfolding sort_eq_iff_mset mset_filter by simp
  then show ?thesis unfolding atomOf_spec g Permits_sameRules [OF assms] by simp
qed

section \<open>Properties\<close>

text \<open>C31: A profile built for an identity answers every check of that identity exactly as the
  evaluator does on the snapshot it was built from, whatever the action, the namespace, and the
  order the groups are given in.\<close>

theorem profile_answers_as_evaluator:
  assumes "indexed snap" "sameIdentity ident opts"
  shows "Permits (Some (BuildRequesterProfile (Some snap) ident)) opts =
         v_allowed (fst (evaluateAgainstInformerFirstMatch snap opts))"
  using assms by (rule Permits_Build)

lemma profile_answers_as_evaluator_witness:
  "Permits (Some (BuildRequesterProfile (Some exSnapshot) (identityOnly ''bob'' [''ops'', ''devs''])))
     (exRequest ''bob'' [''devs'', ''ops''] ''get'')"
proof -
  have "linearPermits exSnapshot (exRequest ''bob'' [''devs'', ''ops''] ''get'')"
    unfolding linearPermits_def exSnapshot_def
    by (simp add: crbGrants_def subjectNames_def heldGroups_def roleGrants_def lookupRoleRefRules_def
        ruleAllows_def ex_objects kind_defs del: in_crbsOf in_rbsIn)
  moreover have "sameIdentity (identityOnly ''bob'' [''ops'', ''devs'']) (exRequest ''bob'' [''devs'', ''ops''] ''get'')"
    by (auto simp: sameIdentity_def)
  ultimately show ?thesis
    using profile_answers_as_evaluator [of exSnapshot "identityOnly ''bob'' [''ops'', ''devs'']"
        "exRequest ''bob'' [''devs'', ''ops''] ''get''"]
      find_crb_None [of exSnapshot "exRequest ''bob'' [''devs'', ''ops''] ''get''"]
    by (auto simp: exSnapshot_def evaluate_finds linearPermits_def simp del: in_crbsOf in_rbsIn split: option.split)
qed

text \<open>The memoised accessor keeps that contract across generations and identities: whatever it
  returned before, the profile it returns answers every check of the identity as the evaluator does
  on the given snapshot, and the memo stays right and within its cap of 4096.\<close>

theorem profile_memo_answers:
  assumes "wellPublished hist" "hashFaithful R" "ident \<in> R" "hist (PublishSeq snap) = Some snap"
    and "memoOK (profileRight hist R) 4096 m" "RequesterProfileFor (Some snap) ident m = (p, m')"
    and "sameIdentity ident opts"
  shows "Permits (Some p) opts = v_allowed (fst (evaluateAgainstInformerFirstMatch snap opts)) \<and>
    memoOK (profileRight hist R) 4096 m'"
proof -
  note ok = RequesterProfileFor_OK [OF assms(1-4) assms(5) [folded requesterProfileMemoCap_def] assms(6)]
  show ?thesis using ok(1) ok(2) assms(3,4,7) unfolding requesterProfileMemoCap_def profileRight_def by blast
qed

lemma profile_memo_answers_witness:
  "Permits (Some (fst (RequesterProfileFor (Some (exSnapshot\<lparr>PublishSeq := 1\<rparr>)) noOptions emptyMemo))) noOptions =
     v_allowed (fst (evaluateAgainstInformerFirstMatch (exSnapshot\<lparr>PublishSeq := 1\<rparr>) noOptions))"
proof -
  have "wellPublished exHistory"
    by (simp add: wellPublished_def exHistory_def distinctNames_def exSnapshot_def ex_objects inj_on_def
        del: in_crbsOf in_rbsIn)
  moreover have "hashFaithful {noOptions}" by (simp add: hashFaithful_def)
  ultimately show ?thesis
    using profile_memo_answers [of exHistory "{noOptions}" noOptions "exSnapshot\<lparr>PublishSeq := 1\<rparr>" emptyMemo
        "fst (RequesterProfileFor (Some (exSnapshot\<lparr>PublishSeq := 1\<rparr>)) noOptions emptyMemo)"
        "snd (RequesterProfileFor (Some (exSnapshot\<lparr>PublishSeq := 1\<rparr>)) noOptions emptyMemo)" noOptions]
    by (simp add: exHistory_def)
qed

text \<open>For a concrete class (neither field is the wildcard) the atoms of a profile are at most one,
  and it says exactly where the profile permits the coordinate: cluster-wide when the cluster rules
  do, otherwise the sorted set of namespaces in which it permits; there is none when it permits
  nowhere.\<close>

theorem GrantedAtoms_concrete:
  assumes "grp \<noteq> ''*''" "res \<noteq> ''*''"
  shows "GrantedAtoms (Some p) verb grp res =
    (if Permits (Some p) (atomCheck verb (grp, res) []) then
       [\<lparr>atom_group = grp, atom_resource = res, atom_cluster = True, atom_namespaces = []\<rparr>]
     else if grantedNamespaces p verb (grp, res) = {} then []
     else [\<lparr>atom_group = grp, atom_resource = res, atom_cluster = False,
            atom_namespaces = sort (filter (\<lambda>ns. ns \<in> grantedNamespaces p verb (grp, res))
              (map fst (prof_namespaced p)))\<rparr>])"
proof -
  have sub: "set (seenCoords p verb grp res) \<subseteq> {(grp, res)}"
    using assms by (auto simp: set_seenCoords ruleNames_def tokensFor_def split: if_splits)
  then have seen: "seenCoords p verb grp res = (if set (seenCoords p verb grp res) = {} then [] else [(grp, res)])"
    using distinct_seenCoords [of p verb grp res]
    by (cases "seenCoords p verb grp res") (auto simp: subset_singleton_iff)
  have "Permits (Some p) (atomCheck verb (grp, res) ns) \<Longrightarrow> (grp, res) \<in> set (seenCoords p verb grp res)" for ns
    using assms
    by (auto simp: Permits_def return_True set_seenCoords ruleNames_def tokensFor_def profileRules_def
        rulesPermit_iff ruleAllows_def stringSliceMatches_iff dest!: alookup_in_set split: if_splits) force+
  then have none: "\<not> Permits (Some p) (atomCheck verb (grp, res) []) \<and> grantedNamespaces p verb (grp, res) = {}"
    if "set (seenCoords p verb grp res) = {}"
    using that by (auto simp: grantedNamespaces_def)
  show ?thesis
    unfolding GrantedAtoms_seen
    by (subst seen) (use none in \<open>auto simp: map_filter_simps atomOf_spec\<close>)
qed

definition exProfile :: RequesterProfile where
  "exProfile = \<lparr>prof_gen = 1, prof_cluster = [],
     prof_namespaced = [(''prod'', [exRule [''get''] [] ''pods'']), (''demo'', [exRule [''*''] [] ''pods''])]\<rparr>"

definition exProfile' :: RequesterProfile where
  "exProfile' = exProfile\<lparr>prof_namespaced := rev (prof_namespaced exProfile)\<rparr>"

lemma GrantedAtoms_concrete_witness:
  "GrantedAtoms (Some exProfile) ''get'' [] ''pods'' =
     [\<lparr>atom_group = [], atom_resource = ''pods'', atom_cluster = False, atom_namespaces = [''demo'', ''prod'']\<rparr>]"
proof -
  have cluster: "\<not> Permits (Some exProfile) (atomCheck ''get'' ([], ''pods'') [])"
    by (simp add: exProfile_def Permits_def)
  have ns: "''demo'' \<in> grantedNamespaces exProfile ''get'' ([], ''pods'')"
    "''prod'' \<in> grantedNamespaces exProfile ''get'' ([], ''pods'')"
    by (simp_all add: grantedNamespaces_def Permits_def exProfile_def alookup_def stringSliceMatches_iff
        resourceNameMatches_iff exRule_def)
  have "sort [''prod'', ''demo''] = [''demo'', ''prod'']" by simp
  with GrantedAtoms_concrete [of "[]" "''pods''" exProfile "''get''"] cluster ns show ?thesis
    by (auto simp: exProfile_def)
qed

text \<open>The atoms are a canonical value: two profiles holding the same rules in the same places
  have the same list of atoms, whatever order the rules were collected in and whatever order the
  runtime ranges over the maps.\<close>

theorem GrantedAtoms_canonical:
  assumes "sameRules p q"
  shows "GrantedAtoms (Some p) verb grp res = GrantedAtoms (Some q) verb grp res"
  unfolding GrantedAtoms_seen
proof (rule sort_key_distinct_eq)
  let ?P = "seenCoords p verb grp res" and ?Q = "seenCoords q verb grp res"
  show "inj_on (\<lambda>a. (atom_group a, atom_resource a)) (set (List.map_filter (atomOf p verb) ?P))"
  proof (rule inj_onI)
    fix a b
    assume "a \<in> set (List.map_filter (atomOf p verb) ?P)" "b \<in> set (List.map_filter (atomOf p verb) ?P)"
      and eq: "(atom_group a, atom_resource a) = (atom_group b, atom_resource b)"
    then obtain c d where cd: "atomOf p verb c = Some a" "atomOf p verb d = Some b"
      by (auto simp: set_map_filter)
    then have "c = d" using atomOf_coord eq by metis
    with cd show "a = b" by simp
  qed
  have "profileRules p = profileRules q"
    using assms profileRules_alookup [of p] profileRules_alookup [of q] by (simp add: sameRules_def)
  then have "set ?P = set ?Q" by (simp add: set_seenCoords)
  then show "set (List.map_filter (atomOf p verb) ?P) = set (List.map_filter (atomOf q verb) ?Q)"
    by (simp add: set_map_filter atomOf_sameRules [OF assms])
qed (simp_all add: distinct_map_filter_coord distinct_seenCoords)

lemma GrantedAtoms_canonical_witness:
  "GrantedAtoms (Some exProfile) ''get'' ''*'' ''*'' = GrantedAtoms (Some exProfile') ''get'' ''*'' ''*''"
  by (rule GrantedAtoms_canonical) (auto simp: sameRules_def exProfile'_def exProfile_def alookup_def)

end
