(* ===== verification/RBACDigest.thy ===== *)
theory RBACDigest
  imports RBACProfile
begin

text \<open>
  The identity dimension of the resolved-output key (rbac/subject\_binding\_set.go,
  cache/rbac\_shift\_hook.go): the sorted set of the identities of every binding that names a
  requester, its digest, and the memo of digests. What makes it safe to share a cell under this
  digest is that two requesters with the same set get the same verdict for every action.

  \<open>crypto/sha256\<close> is library code, so it is a parameter; the theorem that needs it names the
  collision it relies on not to happen.
\<close>

section \<open>The binding set\<close>

definition WithAuthenticatedGroup :: "gostring list \<Rightarrow> gostring list" where
  "WithAuthenticatedGroup groups =
     (if systemAuthenticatedGroup \<in> set groups then groups else groups @ [systemAuthenticatedGroup])"

text \<open>The \<open>add\<close> closure: empty identities are dropped, repeated ones kept once.\<close>

definition addID :: "gostring list \<Rightarrow> gostring \<Rightarrow> gostring list" where
  "addID ids s = (if s = [] then ids else if s \<in> set ids then ids else ids @ [s])"

definition SubjectBindingIDs :: "RBACSnapshot option \<Rightarrow> gostring \<Rightarrow> gostring list \<Rightarrow> gostring list" where
  "SubjectBindingIDs psnap username groups = (case psnap of None \<Rightarrow> []
     | Some snap \<Rightarrow>
         (let ident = identityOnly username (WithAuthenticatedGroup groups);
              ids1 = foldl (\<lambda>ids crb. if anySubjectMatches (crb_subjects crb) ident
                       then addID ids (BindingUIDFromCRB (Some crb)) else ids)
                     [] (selectCRBCandidates psnap ident);
              ids2 = foldl (\<lambda>ids rb. if anySubjectMatches (rb_subjects rb) ident
                       then addID ids (BindingUIDFromRB (Some rb)) else ids)
                     ids1 (selectRBCandidatesAllNS psnap ident)
          in sort ids2))"

definition bindingSetMessage :: "gostring list \<Rightarrow> gostring" where
  "bindingSetMessage ids = ''sbs1'' @ [CHR 0x00] @ concat (map (\<lambda>i. i @ [CHR 0x00]) ids)"

definition buildSubjectBindingSetDigest ::
  "(gostring \<Rightarrow> gostring) \<Rightarrow> RBACSnapshot option \<Rightarrow> gostring \<Rightarrow> gostring list \<Rightarrow> gostring" where
  "buildSubjectBindingSetDigest sha256hex psnap username groups =
     sha256hex (bindingSetMessage (SubjectBindingIDs psnap username groups))"

definition canonicalGroupsKey :: "gostring list \<Rightarrow> gostring" where
  "canonicalGroupsKey groups =
     (if groups = [] then []
      else let sorted = sort groups in hd sorted @ concat (map (\<lambda>g. CHR 0x00 # g) (tl sorted)))"

section \<open>The memo of digests\<close>

text \<open>
  The shard is bound to the snapshot pointer; a snapshot published once is not changed, so its
  value stands for its address, and \<open>addr\<close> keeps two publishes of equal content apart.
\<close>

type_synonym snapshot_ptr = "nat \<times> RBACSnapshot"
type_synonym digest_memo = "(snapshot_ptr, gostring \<times> gostring, gostring) memo"

definition bindingSetMemoCap :: nat where "bindingSetMemoCap = 4096"

definition currentBindingSetShard :: "snapshot_ptr \<Rightarrow> digest_memo \<Rightarrow> nat \<times> digest_memo" where
  "currentBindingSetShard snap m = currentShard snap m"

definition subjectBindingSetDigestFor ::
  "(gostring \<Rightarrow> gostring) \<Rightarrow> snapshot_ptr option \<Rightarrow> gostring \<Rightarrow> gostring list \<Rightarrow> digest_memo
     \<Rightarrow> gostring \<times> digest_memo" where
  "subjectBindingSetDigestFor sha256hex psnap username groups m = (case psnap of
       None \<Rightarrow> ([], m)
     | Some ptr \<Rightarrow>
         (let key = (username, canonicalGroupsKey groups) in
          case currentBindingSetShard ptr m of (shard, m1) \<Rightarrow>
          (case readShard shard key m1 of
             (Some d, m2) \<Rightarrow> (d, m2)
           | (None, m2) \<Rightarrow>
               (let d = buildSubjectBindingSetDigest sha256hex (Some (snd ptr)) username groups in
                case currentBindingSetShard ptr m2 of (shard', m3) \<Rightarrow>
                  keepShard bindingSetMemoCap shard' key d m3))))"

section \<open>What the set holds\<close>

lemma set_foldl_addID:
  "set (foldl (\<lambda>ids b. if M b then addID ids (U b) else ids) ids bs) =
     set ids \<union> {U b | b. b \<in> set bs \<and> M b \<and> U b \<noteq> []}"
  by (induction bs arbitrary: ids) (auto simp: addID_def)

lemma distinct_foldl_addID:
  "distinct ids \<Longrightarrow> distinct (foldl (\<lambda>ids b. if M b then addID ids (U b) else ids) ids bs)"
  by (induction bs arbitrary: ids) (auto simp: addID_def)

lemma set_WithAuthenticatedGroup [simp]:
  "set (WithAuthenticatedGroup gs) = insert systemAuthenticatedGroup (set gs)"
  by (auto simp: WithAuthenticatedGroup_def)

text \<open>The bindings of a snapshot that name a requester.\<close>

definition matchingCRBs :: "RBACSnapshot \<Rightarrow> EvaluateOptions \<Rightarrow> ClusterRoleBinding set" where
  "matchingCRBs snap opts = {b \<in> set (crbsOf snap). anySubjectMatches (crb_subjects b) opts}"

definition matchingRBs :: "RBACSnapshot \<Rightarrow> EvaluateOptions \<Rightarrow> RoleBinding set" where
  "matchingRBs snap opts = {b. (\<exists>ns. b \<in> set (rbsIn snap ns)) \<and> anySubjectMatches (rb_subjects b) opts}"

lemma set_SubjectBindingIDs:
  assumes "indexed snap" "username \<noteq> []"
  shows "set (SubjectBindingIDs (Some snap) username groups) =
    (\<lambda>b. BindingUIDFromCRB (Some b)) ` matchingCRBs snap (identityOnly username (WithAuthenticatedGroup groups)) \<union>
    (\<lambda>b. BindingUIDFromRB (Some b)) ` matchingRBs snap (identityOnly username (WithAuthenticatedGroup groups))"
proof -
  let ?i = "identityOnly username (WithAuthenticatedGroup groups)"
  have "identifiable snap ?i" using assms(2) by (simp add: identifiable_def)
  note filters = selectCRBCandidates_filter [OF assms(1) this] selectRBCandidatesAllNS_filter [OF assms(1) this]
  show ?thesis
    unfolding SubjectBindingIDs_def Let_def option.case set_sort set_foldl_addID matchingCRBs_def
      matchingRBs_def
    using filters by (auto simp del: in_crbsOf in_rbsIn)
qed

lemma SubjectBindingIDs_canonical:
  "sorted (SubjectBindingIDs psnap username groups)" "distinct (SubjectBindingIDs psnap username groups)"
  by (simp_all add: SubjectBindingIDs_def Let_def distinct_foldl_addID split: option.split)

text \<open>An authenticated requester holds \<open>system:authenticated\<close> whether or not it presents it.\<close>

lemma matching_authenticated:
  assumes "username \<noteq> []"
  shows "anySubjectMatches ss (identityOnly username (WithAuthenticatedGroup groups)) =
         anySubjectMatches ss (identityOnly username groups)"
proof -
  have "heldGroups (identityOnly username (WithAuthenticatedGroup groups)) =
      heldGroups (identityOnly username groups)"
    using assms by (auto simp: heldGroups_def)
  then show ?thesis by (simp add: anySubjectMatches_iff subjectNames_def)
qed

section \<open>The same set gives the same verdict\<close>

text \<open>The apiserver gives every object a UID of its own, which is a UUID.\<close>

definition uniqueUIDs :: "RBACSnapshot \<Rightarrow> bool" where
  "uniqueUIDs snap \<longleftrightarrow> inj_on crb_uid (set (crbsOf snap)) \<and> (\<forall>b\<in>set (crbsOf snap). crb_uid b \<noteq> []) \<and>
     (\<forall>ns. \<forall>b\<in>set (rbsIn snap ns). rb_uid b \<noteq> [] \<and> CHR ''/'' \<notin> set (rb_uid b) \<and>
        (\<forall>ns'. \<forall>b'\<in>set (rbsIn snap ns'). rb_uid b = rb_uid b' \<longrightarrow> b = b'))"

lemma last_segment_eq:
  assumes "xs @ CHR ''/'' # u = ys @ CHR ''/'' # v" "CHR ''/'' \<notin> set u" "CHR ''/'' \<notin> set v"
  shows "u = v"
proof -
  have "rev u @ CHR ''/'' # rev xs = rev v @ CHR ''/'' # rev ys"
    using arg_cong [OF assms(1), of rev] by simp
  moreover have "cutAt CHR ''/'' (rev u @ CHR ''/'' # rev xs) = Some (rev u, rev xs)"
    "cutAt CHR ''/'' (rev v @ CHR ''/'' # rev ys) = Some (rev v, rev ys)"
    using assms(2,3) by (simp_all only: cutAt_append set_rev not_False_eq_True)
  ultimately have "Some (rev u, rev xs) = Some (rev v, rev ys)" by metis
  then show ?thesis by simp
qed

lemma matching_determined:
  assumes "uniqueUIDs snap"
    and C: "C \<subseteq> set (crbsOf snap)" "C' \<subseteq> set (crbsOf snap)"
    and R: "R \<subseteq> (\<Union>ns. set (rbsIn snap ns))" "R' \<subseteq> (\<Union>ns. set (rbsIn snap ns))"
    and eq: "(\<lambda>b. BindingUIDFromCRB (Some b)) ` C \<union> (\<lambda>b. BindingUIDFromRB (Some b)) ` R =
             (\<lambda>b. BindingUIDFromCRB (Some b)) ` C' \<union> (\<lambda>b. BindingUIDFromRB (Some b)) ` R'"
  shows "C = C'" "R = R'"
proof -
  let ?c = "\<lambda>b. BindingUIDFromCRB (Some b)" and ?r = "\<lambda>b. BindingUIDFromRB (Some b)"
  have ci: "inj_on ?c (set (crbsOf snap))"
    using assms(1) by (auto simp: uniqueUIDs_def inj_on_def BindingUIDFromCRB_def simp del: in_crbsOf)
  have ri: "inj_on ?r (\<Union>ns. set (rbsIn snap ns))"
  proof (rule inj_onI)
    fix b b' assume b: "b \<in> (\<Union>ns. set (rbsIn snap ns))" "b' \<in> (\<Union>ns. set (rbsIn snap ns))" and e: "?r b = ?r b'"
    then have u: "rb_uid b \<noteq> []" "rb_uid b' \<noteq> []" "CHR ''/'' \<notin> set (rb_uid b)" "CHR ''/'' \<notin> set (rb_uid b')"
      using assms(1) unfolding uniqueUIDs_def by blast+
    then have "rb_ns b @ CHR ''/'' # rb_uid b = rb_ns b' @ CHR ''/'' # rb_uid b'"
      using e by (simp add: BindingUIDFromRB_def)
    from last_segment_eq [OF this u(3,4)] show "b = b'"
      using assms(1) b unfolding uniqueUIDs_def by blast
  qed
  have disj: "?c ` X \<inter> ?r ` Y = {}" for X Y by auto
  from eq have "?c ` C = ?c ` C'" "?r ` R = ?r ` R'"
    using disj [of C R'] disj [of C' R] disj [of C R] disj [of C' R'] by blast+
  then show "C = C'" "R = R'"
    using inj_on_image_eq_iff [OF ci C] inj_on_image_eq_iff [OF ri R] by simp_all
qed

text \<open>The verdict as a function of the matching bindings.\<close>

lemma evaluate_matching:
  assumes "indexed snap" "opt_username opts \<noteq> []"
  shows "v_allowed (fst (evaluateAgainstInformerFirstMatch snap opts)) \<longleftrightarrow>
     (\<exists>b\<in>matchingCRBs snap opts. roleGrants snap [] (crb_roleref b) opts) \<or>
     opt_namespace opts \<noteq> [] \<and>
     (\<exists>b\<in>matchingRBs snap opts. rb_ns b = opt_namespace opts \<and>
        roleGrants snap (opt_namespace opts) (rb_roleref b) opts)"
proof -
  have i: "identifiable snap opts" using assms(2) by (simp add: identifiable_def)
  have c: "(\<exists>b\<in>set (selectCRBCandidates (Some snap) opts). crbGrants snap opts b) \<longleftrightarrow>
      (\<exists>b\<in>matchingCRBs snap opts. roleGrants snap [] (crb_roleref b) opts)"
    using selectCRBCandidates_filter [OF assms(1) i]
    unfolding crbGrants_walk walkAccepts_def matchingCRBs_def by blast
  have ns: "rb_ns b = n" if "b \<in> set (rbsIn snap n)" for b n
    using assms(1) that unfolding indexed_def filedByNS_def by blast
  have r: "(\<exists>b\<in>set (selectRBCandidates (Some snap) (opt_namespace opts) opts). rbGrants snap opts b) \<longleftrightarrow>
      (\<exists>b\<in>matchingRBs snap opts. rb_ns b = opt_namespace opts \<and>
        roleGrants snap (opt_namespace opts) (rb_roleref b) opts)" if "opt_namespace opts \<noteq> []"
  proof -
    have "b \<in> set (selectRBCandidates (Some snap) (opt_namespace opts) opts) \<and>
        anySubjectMatches (rb_subjects b) opts \<longleftrightarrow> b \<in> matchingRBs snap opts \<and> rb_ns b = opt_namespace opts" for b
      unfolding selectRBCandidates_filter [OF assms(1) i that] matchingRBs_def mem_Collect_eq
      using ns by metis
    then show ?thesis unfolding rbGrants_walk walkAccepts_def by metis
  qed
  show ?thesis unfolding evaluate_candidates c using r by blast
qed

text \<open>A check of the requester: its name and the set of its groups, any action.\<close>

definition checkOf :: "gostring \<Rightarrow> gostring list \<Rightarrow> EvaluateOptions \<Rightarrow> EvaluateOptions" where
  "checkOf username groups action = action\<lparr>opt_username := username, opt_groups := groups\<rparr>"

lemma checkOf_fields [simp]:
  "opt_username (checkOf u gs a) = u" "opt_groups (checkOf u gs a) = gs"
  "opt_namespace (checkOf u gs a) = opt_namespace a"
  "opt_skipuid (checkOf u gs a) = opt_skipuid a"
  by (simp_all add: checkOf_def)

lemma same_ids_same_verdict:
  assumes "indexed snap" "uniqueUIDs snap" "u \<noteq> []" "u' \<noteq> []"
    and ids: "SubjectBindingIDs (Some snap) u gs = SubjectBindingIDs (Some snap) u' gs'"
  shows "v_allowed (fst (evaluateAgainstInformerFirstMatch snap (checkOf u gs action))) =
         v_allowed (fst (evaluateAgainstInformerFirstMatch snap (checkOf u' gs' action)))"
proof -
  let ?o = "checkOf u gs action" and ?o' = "checkOf u' gs' action"
  have ident: "anySubjectMatches ss (identityOnly (opt_username c) (WithAuthenticatedGroup (opt_groups c))) =
      anySubjectMatches ss c" if "opt_username c \<noteq> []" for ss c
    unfolding matching_authenticated [OF that]
    by (rule anySubjectMatches_sameIdentity) (simp add: sameIdentity_def)
  have m: "matchingCRBs snap (identityOnly v (WithAuthenticatedGroup hs)) = matchingCRBs snap (checkOf v hs action)"
    "matchingRBs snap (identityOnly v (WithAuthenticatedGroup hs)) = matchingRBs snap (checkOf v hs action)"
    if "v \<noteq> []" for v hs
    using ident [of "checkOf v hs action"] that by (simp_all add: matchingCRBs_def matchingRBs_def)
  have sub: "matchingCRBs snap c \<subseteq> set (crbsOf snap)" "matchingRBs snap c \<subseteq> (\<Union>ns. set (rbsIn snap ns))" for c
    by (auto simp: matchingCRBs_def matchingRBs_def simp del: in_crbsOf in_rbsIn)
  have "matchingCRBs snap ?o = matchingCRBs snap ?o'" "matchingRBs snap ?o = matchingRBs snap ?o'"
    using matching_determined [OF assms(2) sub(1) sub(1) sub(2) sub(2), of ?o ?o ?o' ?o']
      arg_cong [OF ids, of set] set_SubjectBindingIDs [OF assms(1)] m assms(3,4) by auto
  moreover have "roleGrants snap ns ref ?o = roleGrants snap ns ref ?o'" for ns ref
    by (rule roleGrants_same [OF sameContent_refl]) (simp add: sameAction_def checkOf_def)
  ultimately show ?thesis using assms(3,4) by (simp add: evaluate_matching [OF assms(1)])
qed

lemma concat_marked_inj:
  fixes c :: char
  assumes "\<forall>i\<in>set is. c \<notin> set i" "\<forall>j\<in>set js. c \<notin> set j"
    and "concat (map (\<lambda>i. i @ [c]) is) = concat (map (\<lambda>j. j @ [c]) js)"
  shows "is = js"
  using assms
proof (induction "is" arbitrary: js)
  case Nil
  then show ?case by (cases js) auto
next
  case (Cons i "is")
  then obtain j js' where js: "js = j # js'" by (cases js) auto
  have e: "i @ c # concat (map (\<lambda>i. i @ [c]) is) = j @ c # concat (map (\<lambda>j. j @ [c]) js')"
    using Cons.prems(3) js by simp
  have "cutAt c (i @ c # concat (map (\<lambda>i. i @ [c]) is)) = Some (i, concat (map (\<lambda>i. i @ [c]) is))"
    "cutAt c (j @ c # concat (map (\<lambda>j. j @ [c]) js')) = Some (j, concat (map (\<lambda>j. j @ [c]) js'))"
    using Cons.prems(1,2) js by (auto intro: cutAt_append)
  with e have "Some (i, concat (map (\<lambda>i. i @ [c]) is)) = Some (j, concat (map (\<lambda>j. j @ [c]) js'))"
    by metis
  then have ij: "i = j" and rest: "concat (map (\<lambda>i. i @ [c]) is) = concat (map (\<lambda>j. j @ [c]) js')"
    unfolding option.inject prod.inject by (rule conjunct1, rule conjunct2)
  have "is = js'"
  proof (rule Cons.IH [OF _ _ rest])
    show "\<forall>i\<in>set is. c \<notin> set i" using Cons.prems(1) by (metis list.set_intros(2))
    show "\<forall>j\<in>set js'. c \<notin> set j" using Cons.prems(2) js by (metis list.set_intros(2))
  qed
  with ij js show ?case by metis
qed

lemma bindingSetMessage_inj:
  assumes "\<forall>i\<in>set is. CHR 0x00 \<notin> set i" "\<forall>j\<in>set js. CHR 0x00 \<notin> set j"
    and "bindingSetMessage is = bindingSetMessage js"
  shows "is = js"
  using concat_marked_inj [OF assms(1,2)] assms(3) by (simp add: bindingSetMessage_def)

lemma join_append: "g \<noteq> [] \<Longrightarrow> canonicalGroupsKey [g] = g"
  by (simp add: canonicalGroupsKey_def)

text \<open>The key of the memo, on real group names: non-empty and without a NUL byte.\<close>

definition realGroups :: "gostring list \<Rightarrow> bool" where
  "realGroups gs \<longleftrightarrow> (\<forall>g\<in>set gs. g \<noteq> [] \<and> CHR 0x00 \<notin> set g)"

lemma canonicalGroupsKey_marked:
  "gs \<noteq> [] \<Longrightarrow> canonicalGroupsKey gs @ [CHR 0x00] = concat (map (\<lambda>g. g @ [CHR 0x00]) (sort gs))"
proof -
  have "hd ss @ concat (map (\<lambda>g. CHR 0x00 # g) (tl ss)) @ [CHR 0x00] = concat (map (\<lambda>g. g @ [CHR 0x00]) ss)"
    if "ss \<noteq> []" for ss :: "gostring list"
    using that by (induction ss rule: induct_list012) auto
  then show "gs \<noteq> [] \<Longrightarrow> canonicalGroupsKey gs @ [CHR 0x00] = concat (map (\<lambda>g. g @ [CHR 0x00]) (sort gs))"
    by (metis append.assoc canonicalGroupsKey_def mset_sort mset_zero_iff)
qed

lemma canonicalGroupsKey_Nil: "realGroups gs \<Longrightarrow> canonicalGroupsKey gs = [] \<longleftrightarrow> gs = []"
proof -
  assume r: "realGroups gs"
  have "canonicalGroupsKey gs \<noteq> []" if "gs \<noteq> []"
  proof -
    have "hd (sort gs) \<in> set gs" using that by (metis hd_in_set set_sort mset_sort mset_zero_iff)
    then show ?thesis using that r by (auto simp: canonicalGroupsKey_def realGroups_def Let_def)
  qed
  then show ?thesis by (auto simp: canonicalGroupsKey_def)
qed

lemma canonicalGroupsKey_exact:
  assumes "realGroups gs" "realGroups hs" "canonicalGroupsKey gs = canonicalGroupsKey hs"
  shows "mset gs = mset hs"
proof (cases "gs = [] \<or> hs = []")
  case True
  then show ?thesis using assms canonicalGroupsKey_Nil by metis
next
  case False
  then have "concat (map (\<lambda>g. g @ [CHR 0x00]) (sort gs)) = concat (map (\<lambda>g. g @ [CHR 0x00]) (sort hs))"
    using assms(3) canonicalGroupsKey_marked by metis
  then have "sort gs = sort hs"
    using assms(1,2) by (intro concat_marked_inj) (auto simp: realGroups_def)
  then show ?thesis by (simp add: sort_eq_iff_mset)
qed

lemma SubjectBindingIDs_groups:
  assumes "indexed snap" "set gs = set gs'"
  shows "SubjectBindingIDs (Some snap) u gs = SubjectBindingIDs (Some snap) u gs'"
proof -
  let ?i = "identityOnly u (WithAuthenticatedGroup gs)" and ?i' = "identityOnly u (WithAuthenticatedGroup gs')"
  have i: "sameIdentity ?i ?i'" using assms(2) by (simp add: sameIdentity_def)
  have "set (selectCRBCandidates (Some snap) ?i) = set (selectCRBCandidates (Some snap) ?i')"
    "set (selectRBCandidatesAllNS (Some snap) ?i) = set (selectRBCandidatesAllNS (Some snap) ?i')"
    using subject_index.route_sameIdentity [OF crb_index_contract [OF assms(1)] i]
      subject_index.route_sameIdentity [OF rb_allNS_index_contract [OF assms(1)] i]
    by (simp_all add: selector_defs)
  then have "set (SubjectBindingIDs (Some snap) u gs) = set (SubjectBindingIDs (Some snap) u gs')"
    unfolding SubjectBindingIDs_def Let_def option.case set_sort set_foldl_addID
      anySubjectMatches_sameIdentity [OF i] by simp
  then show ?thesis using SubjectBindingIDs_canonical by (metis sorted_distinct_set_unique)
qed

definition digestRight ::
  "(gostring \<Rightarrow> gostring) \<Rightarrow> snapshot_ptr \<Rightarrow> gostring \<times> gostring \<Rightarrow> gostring \<Rightarrow> bool" where
  "digestRight sha256hex ptr key d \<longleftrightarrow> (\<forall>gs. realGroups gs \<longrightarrow> canonicalGroupsKey gs = snd key \<longrightarrow>
     indexed (snd ptr) \<longrightarrow> d = buildSubjectBindingSetDigest sha256hex (Some (snd ptr)) (fst key) gs)"

lemma subjectBindingSetDigestFor_ask:
  "subjectBindingSetDigestFor sha256hex (Some ptr) u gs =
     keepMemo.ask bindingSetMemoCap (\<lambda>_. buildSubjectBindingSetDigest sha256hex (Some (snd ptr)) u gs)
       ptr (u, canonicalGroupsKey gs)"
  by (simp add: fun_eq_iff subjectBindingSetDigestFor_def keepMemo.ask_def memoLookup_def memoKeep_def
      currentBindingSetShard_def Let_def split: prod.split option.split)

lemma build_digestRight:
  assumes "realGroups gs"
  shows "digestRight sha256hex ptr (u, canonicalGroupsKey gs)
    (buildSubjectBindingSetDigest sha256hex (Some (snd ptr)) u gs)"
proof -
  have "SubjectBindingIDs (Some (snd ptr)) u gs = SubjectBindingIDs (Some (snd ptr)) u hs"
    if "realGroups hs" "canonicalGroupsKey hs = canonicalGroupsKey gs" "indexed (snd ptr)" for hs
    using canonicalGroupsKey_exact [OF assms that(1) that(2) [symmetric]] SubjectBindingIDs_groups [OF that(3)]
    by (metis set_mset_mset)
  then show ?thesis unfolding digestRight_def buildSubjectBindingSetDigest_def by auto
qed

section \<open>Properties\<close>

text \<open>C30: On one snapshot, two authenticated requesters whose binding set digests are equal get the
  same verdict for every action in every namespace, provided the digest function does not collide on
  the messages at hand and the identities are free of the NUL separator.\<close>

theorem same_digest_same_verdict:
  assumes "indexed snap" "uniqueUIDs snap" "u \<noteq> []" "u' \<noteq> []"
    and nonul: "\<forall>i\<in>set (SubjectBindingIDs (Some snap) u gs). CHR 0x00 \<notin> set i"
      "\<forall>i\<in>set (SubjectBindingIDs (Some snap) u' gs'). CHR 0x00 \<notin> set i"
    and sha: "sha256hex (bindingSetMessage (SubjectBindingIDs (Some snap) u gs)) =
        sha256hex (bindingSetMessage (SubjectBindingIDs (Some snap) u' gs')) \<Longrightarrow>
      bindingSetMessage (SubjectBindingIDs (Some snap) u gs) = bindingSetMessage (SubjectBindingIDs (Some snap) u' gs')"
    and digest: "buildSubjectBindingSetDigest sha256hex (Some snap) u gs =
      buildSubjectBindingSetDigest sha256hex (Some snap) u' gs'"
  shows "v_allowed (fst (evaluateAgainstInformerFirstMatch snap (checkOf u gs action))) =
         v_allowed (fst (evaluateAgainstInformerFirstMatch snap (checkOf u' gs' action)))"
proof (rule same_ids_same_verdict [OF assms(1-4)])
  have "bindingSetMessage (SubjectBindingIDs (Some snap) u gs) =
      bindingSetMessage (SubjectBindingIDs (Some snap) u' gs')"
    using digest sha unfolding buildSubjectBindingSetDigest_def by blast
  then show "SubjectBindingIDs (Some snap) u gs = SubjectBindingIDs (Some snap) u' gs'"
    by (rule bindingSetMessage_inj [OF nonul])
qed

lemma ex_devs_ids:
  assumes "set gs = {''devs''}" "u \<noteq> []" "u \<noteq> ''alice''" "IsServiceAccountUsername u = False"
  shows "SubjectBindingIDs (Some exSnapshot) u gs = [''C:u1'']"
proof -
  let ?i = "identityOnly u (WithAuthenticatedGroup gs)"
  have crb: "anySubjectMatches (crb_subjects exCRB) ?i"
    using assms(1) by (simp add: anySubjectMatches_iff subjectNames_def heldGroups_def ex_objects)
  have "parseServiceAccountUsername u \<noteq> (ns, n, True)" for ns n
    using assms(4) by (metis IsServiceAccountUsername_def case_prod_conv)
  then have rb: "\<not> anySubjectMatches (rb_subjects exRB) ?i"
    by (simp add: anySubjectMatches_iff subjectNames_def exRB_def exSubject_def)
  have C: "matchingCRBs exSnapshot ?i = {exCRB}"
    unfolding matchingCRBs_def exSnapshot_def exSnapshotOf_fields using crb by auto
  have R: "matchingRBs exSnapshot ?i = {}"
    unfolding matchingRBs_def exSnapshot_def exSnapshotOf_fields using rb by auto
  have "BindingUIDFromCRB (Some exCRB) = ''C:u1''" by (simp add: BindingUIDFromCRB_def exCRB_def)
  then have "set (SubjectBindingIDs (Some exSnapshot) u gs) = {''C:u1''}"
    using set_SubjectBindingIDs [of exSnapshot u gs] assms(2) C R by (simp add: exSnapshot_def)
  then show ?thesis
    by (intro sorted_distinct_set_unique SubjectBindingIDs_canonical) simp_all
qed

lemma same_digest_same_verdict_witness:
  "v_allowed (fst (evaluateAgainstInformerFirstMatch exSnapshot
      (checkOf ''bob'' [''devs''] (exRequest [] [] ''get'')))) =
   v_allowed (fst (evaluateAgainstInformerFirstMatch exSnapshot
      (checkOf ''carol'' [''devs'', ''devs''] (exRequest [] [] ''get''))))"
proof -
  have sa: "IsServiceAccountUsername ''bob'' = False" "IsServiceAccountUsername ''carol'' = False"
    by (simp_all add: IsServiceAccountUsername_def parseServiceAccountUsername_def cutPrefix.simps)
  have ids: "SubjectBindingIDs (Some exSnapshot) ''bob'' [''devs''] = [''C:u1'']"
    "SubjectBindingIDs (Some exSnapshot) ''carol'' [''devs'', ''devs''] = [''C:u1'']"
    by (rule ex_devs_ids; simp add: sa)+
  have uids: "uniqueUIDs exSnapshot"
    by (simp add: uniqueUIDs_def exSnapshot_def ex_objects inj_on_def del: in_crbsOf in_rbsIn)
  show ?thesis
    by (rule same_digest_same_verdict [where sha256hex = "\<lambda>m. m"])
      (simp_all add: ids uids exSnapshot_def buildSubjectBindingSetDigest_def del: in_crbsOf in_rbsIn,
       simp_all add: ids [unfolded exSnapshot_def] uids [unfolded exSnapshot_def] exSnapshot_def)
qed

text \<open>For real group names the memoised digest is the digest a cold build of the same snapshot gives,
  and the memo stays right and within its cap of 4096.\<close>

theorem digest_memo_answers:
  assumes "indexed snap" "realGroups gs" "memoOK (digestRight sha256hex) 4096 m"
    and "subjectBindingSetDigestFor sha256hex (Some (a, snap)) u gs m = (d, m')"
  shows "d = buildSubjectBindingSetDigest sha256hex (Some snap) u gs \<and> memoOK (digestRight sha256hex) 4096 m'"
proof -
  note ok = keepMemo.ask_OK [where g = "(a, snap)" and
      build = "\<lambda>_. buildSubjectBindingSetDigest sha256hex (Some (snd (a, snap))) u gs",
      OF assms(3) [folded bindingSetMemoCap_def] build_digestRight [OF assms(2)]
        assms(4) [unfolded subjectBindingSetDigestFor_ask]]
  show ?thesis using ok(1) ok(2) assms(1,2) unfolding digestRight_def bindingSetMemoCap_def by simp
qed

lemma digest_memo_answers_witness:
  "fst (subjectBindingSetDigestFor (\<lambda>m. m) (Some (0, exSnapshot)) ''bob'' [''devs''] emptyMemo) =
     buildSubjectBindingSetDigest (\<lambda>m. m) (Some exSnapshot) ''bob'' [''devs'']"
proof -
  have "indexed exSnapshot" "realGroups [''devs'']" by (simp_all add: exSnapshot_def realGroups_def)
  from digest_memo_answers [OF this memoOK_empty prod.collapse [symmetric]] show ?thesis by blast
qed

text \<open>The memo key is not exact on arbitrary strings, although its comment says so: no groups and one
  empty group share a key, and so do a name holding the separator and the two names it splits into.\<close>

theorem canonicalGroupsKey_collides:
  "canonicalGroupsKey [[]] = canonicalGroupsKey [] \<and>
   canonicalGroupsKey [''a'' @ [CHR 0x00] @ ''b''] = canonicalGroupsKey [''a'', ''b'']"
  by (simp add: canonicalGroupsKey_def)

end
