(* ===== verification/RBACSubGen.thy ===== *)
theory RBACSubGen
  imports RBACDigest
begin

text \<open>
  The per-subject generation counters folded into every resolved-output key (cache/rbac\_subgen.go),
  the subjects an identity folds (cache/rbac\_shift\_hook.go), and the dangling role references a
  publish reports (cache/rbac\_dangling\_roleref.go).

  The counters are 64-bit and wrap; a key rotates when the acc an identity folds changes.
\<close>

section \<open>Subjects\<close>

record subjectKey =
  sk_kind :: gostring
  sk_name :: gostring
  sk_ns :: gostring

definition serviceAccountUsernamePrefix :: gostring where
  "serviceAccountUsernamePrefix = ''system:serviceaccount:''"

text \<open>The cache package's own parser of service account usernames.\<close>

definition parseServiceAccountUsernameCache :: "gostring \<Rightarrow> gostring \<times> gostring \<times> bool" where
  "parseServiceAccountUsernameCache username =
     (case cutPrefix serviceAccountUsernamePrefix username of
        None \<Rightarrow> ([], [], False)
      | Some rest \<Rightarrow>
          (case cutAt CHR '':'' rest of
             None \<Rightarrow> ([], [], False)
           | Some (ns, nm) \<Rightarrow> if ns = [] \<or> nm = [] then ([], [], False) else (ns, nm, True)))"

lemma parsers_agree: "parseServiceAccountUsernameCache = parseServiceAccountUsername"
  by (simp only: fun_eq_iff parseServiceAccountUsernameCache_def parseServiceAccountUsername_def
      serviceAccountUsernamePrefix_def simp_thms)

definition userKey :: "gostring \<Rightarrow> subjectKey" where
  "userKey n = \<lparr>sk_kind = UserKind, sk_name = n, sk_ns = []\<rparr>"
definition groupKey :: "gostring \<Rightarrow> subjectKey" where
  "groupKey n = \<lparr>sk_kind = GroupKind, sk_name = n, sk_ns = []\<rparr>"
definition saSubjectKey :: "gostring \<Rightarrow> gostring \<Rightarrow> subjectKey" where
  "saSubjectKey ns n = \<lparr>sk_kind = ServiceAccountKind, sk_name = n, sk_ns = ns\<rparr>"

definition subjectsFromRBAC :: "Subject list \<Rightarrow> subjectKey list" where
  "subjectsFromRBAC subjects = List.map_filter (\<lambda>s.
     if sub_kind s = UserKind \<or> sub_kind s = GroupKind then
       Some \<lparr>sk_kind = sub_kind s, sk_name = sub_name s, sk_ns = []\<rparr>
     else if sub_kind s = ServiceAccountKind then
       Some \<lparr>sk_kind = sub_kind s, sk_name = sub_name s, sk_ns = sub_ns s\<rparr>
     else None) subjects"

definition foldSubjects :: "gostring \<Rightarrow> gostring list \<Rightarrow> subjectKey list" where
  "foldSubjects username groups =
     (let out = (if username \<noteq> [] then
                   (case parseServiceAccountUsernameCache username of (ns, name, ok) \<Rightarrow>
                      if ok then [saSubjectKey ns name] else [userKey username])
                 else [])
      in foldl (\<lambda>out g. if g = [] then out else out @ [groupKey g]) out groups)"

type_synonym RotatedSubjectSet = "subjectKey set"

definition Rotated :: "RotatedSubjectSet \<Rightarrow> gostring \<Rightarrow> gostring list \<Rightarrow> bool" where
  "Rotated r username groups \<longleftrightarrow>
     r \<noteq> {} \<and> (\<exists>s\<in>set (foldSubjects username (WithAuthenticatedGroup groups)). s \<in> r)"

section \<open>Counters\<close>

record subgens =
  sg_counter :: "subjectKey \<rightharpoonup> 64 word"
  sg_bumps :: "64 word"
  sg_subjects :: "64 word"
  sg_epoch :: "64 word"

definition subGenValue :: "subgens \<Rightarrow> subjectKey \<Rightarrow> 64 word" where
  "subGenValue st subj = (case sg_counter st subj of Some v \<Rightarrow> v | None \<Rightarrow> 0)"

text \<open>\<open>LoadOrStore\<close> of a fresh zero counter.\<close>

definition subGenCounterFor :: "subjectKey \<Rightarrow> subgens \<Rightarrow> subgens" where
  "subGenCounterFor subj st = (case sg_counter st subj of
       Some v \<Rightarrow> st
     | None \<Rightarrow> st\<lparr>sg_counter := (sg_counter st)(subj \<mapsto> 0), sg_subjects := sg_subjects st + 1\<rparr>)"

definition bumpOne :: "subjectKey \<Rightarrow> subgens \<Rightarrow> subgens" where
  "bumpOne subj st = (let st' = subGenCounterFor subj st in
     st'\<lparr>sg_counter := (sg_counter st')(subj \<mapsto> subGenValue st' subj + 1)\<rparr>)"

definition BumpSubjectSubGens :: "subjectKey list \<Rightarrow> subgens \<Rightarrow> subgens" where
  "BumpSubjectSubGens subjects st =
     (let st' = foldl (\<lambda>st s. bumpOne s st) st subjects
      in st'\<lparr>sg_bumps := sg_bumps st' + of_nat (length subjects)\<rparr>)"

definition RBACSubGenForSubject :: "gostring \<Rightarrow> gostring list \<Rightarrow> subgens \<Rightarrow> 64 word" where
  "RBACSubGenForSubject username groups st =
     (let acc = sg_epoch st;
          acc = (if username \<noteq> [] then
                   (case parseServiceAccountUsernameCache username of (ns, name, ok) \<Rightarrow>
                      if ok then acc + subGenValue st (saSubjectKey ns name)
                      else acc + subGenValue st (userKey username))
                 else acc)
      in foldl (\<lambda>acc g. if g = [] then acc else acc + subGenValue st (groupKey g)) acc groups)"

section \<open>The sum is the fold\<close>

lemma foldl_groupKeys:
  "foldl (\<lambda>out g. if g = [] then out else out @ [groupKey g]) out gs =
     out @ map groupKey (filter (\<lambda>g. g \<noteq> []) gs)"
  by (induction gs arbitrary: out) auto

lemma foldl_subGenSum:
  "foldl (\<lambda>acc g. if g = [] then acc else acc + subGenValue st (groupKey g)) acc gs =
     acc + sum_list (map (subGenValue st) (map groupKey (filter (\<lambda>g. g \<noteq> []) gs)))"
  by (induction gs arbitrary: acc) (auto simp: ac_simps)

lemma RBACSubGenForSubject_fold:
  "RBACSubGenForSubject username groups st =
     sg_epoch st + sum_list (map (subGenValue st) (foldSubjects username groups))"
  unfolding RBACSubGenForSubject_def foldSubjects_def Let_def foldl_subGenSum foldl_groupKeys
  by (cases "username = []"; cases "parseServiceAccountUsernameCache username")
    (simp_all add: ac_simps)

lemma length_foldSubjects: "length (foldSubjects username groups) \<le> Suc (length groups)"
proof -
  have "length (filter (\<lambda>g. g \<noteq> []) groups) \<le> length groups" by simp
  also note le_SucI [OF order_refl]
  finally have "length (filter (\<lambda>g. g \<noteq> []) groups) \<le> Suc (length groups)" .
  with \<open>length (filter (\<lambda>g. g \<noteq> []) groups) \<le> length groups\<close> show ?thesis
    unfolding foldSubjects_def Let_def foldl_groupKeys
    by (cases "username = []"; cases "parseServiceAccountUsernameCache username") simp_all
qed

section \<open>What a bump does\<close>

lemma bumpOne_value:
  "subGenValue (bumpOne s st) k = subGenValue st k + (if k = s then 1 else 0)"
  by (auto simp: bumpOne_def subGenCounterFor_def subGenValue_def Let_def split: option.split)

lemma bumpOne_epoch [simp]: "sg_epoch (bumpOne s st) = sg_epoch st"
  by (simp add: bumpOne_def subGenCounterFor_def Let_def split: option.split)

lemma subGenValue_bumps [simp]: "subGenValue (st\<lparr>sg_bumps := n\<rparr>) k = subGenValue st k"
  by (simp add: subGenValue_def)

lemma foldl_bump:
  "subGenValue (foldl (\<lambda>st s. bumpOne s st) st ss) k = subGenValue st k + of_nat (count_list ss k)"
  "sg_epoch (foldl (\<lambda>st s. bumpOne s st) st ss) = sg_epoch st"
  by (induction ss arbitrary: st) (auto simp: bumpOne_value)

lemma Bump_value:
  "subGenValue (BumpSubjectSubGens ss st) k = subGenValue st k + of_nat (count_list ss k)"
  "sg_epoch (BumpSubjectSubGens ss st) = sg_epoch st"
  by (simp_all add: BumpSubjectSubGens_def Let_def foldl_bump)

lemma count_list_distinct: "distinct xs \<Longrightarrow> count_list xs k = (if k \<in> set xs then 1 else 0)"
  by (induction xs) auto

text \<open>After a flush of distinct subjects, the acc has moved by the number of folded subjects in it.\<close>

lemma flush_moves:
  assumes "distinct ss"
  shows "RBACSubGenForSubject u gs (BumpSubjectSubGens ss st) =
    RBACSubGenForSubject u gs st + of_nat (length (filter (\<lambda>k. k \<in> set ss) (foldSubjects u gs)))"
proof -
  have "sum_list (map (subGenValue (BumpSubjectSubGens ss st)) ks) =
      sum_list (map (subGenValue st) ks) + of_nat (length (filter (\<lambda>k. k \<in> set ss) ks))" for ks
    by (induction ks) (auto simp: Bump_value count_list_distinct [OF assms])
  then show ?thesis by (simp add: RBACSubGenForSubject_fold Bump_value ac_simps)
qed

lemma of_nat_zero_small: "n < 2 ^ 64 \<Longrightarrow> (of_nat n :: 64 word) = 0 \<longleftrightarrow> n = 0"
  using unat_of_nat [where 'a = 64, of n] by (simp add: unat_eq_0 [symmetric])

section \<open>Dangling role references\<close>

record danglingRoleRef =
  d_bindingKind :: gostring
  d_bindingNamespace :: gostring
  d_bindingName :: gostring
  d_roleKind :: gostring
  d_roleName :: gostring

definition roleRefPresent :: "RBACSnapshot \<Rightarrow> gostring \<Rightarrow> gostring \<Rightarrow> gostring \<Rightarrow> bool" where
  "roleRefPresent snap ns kind name =
     (if kind = ''ClusterRole'' then ClusterRolesByName snap name \<noteq> None
      else if kind = ''Role'' then RolesByNSName snap (saKey ns name) \<noteq> None
      else True)"

definition danglingCRB :: "RBACSnapshot \<Rightarrow> ClusterRoleBinding option \<Rightarrow> danglingRoleRef option" where
  "danglingCRB snap p = (case p of None \<Rightarrow> None
     | Some crb \<Rightarrow>
         if ref_kind (crb_roleref crb) \<noteq> ''ClusterRole'' then None
         else if ClusterRolesByName snap (ref_name (crb_roleref crb)) = None then
           Some \<lparr>d_bindingKind = ''ClusterRoleBinding'', d_bindingNamespace = [], d_bindingName = crb_name crb,
                 d_roleKind = ''ClusterRole'', d_roleName = ref_name (crb_roleref crb)\<rparr>
         else None)"

definition danglingRB :: "RBACSnapshot \<Rightarrow> gostring \<Rightarrow> RoleBinding option \<Rightarrow> danglingRoleRef option" where
  "danglingRB snap ns p = (case p of None \<Rightarrow> None
     | Some rb \<Rightarrow>
         if roleRefPresent snap ns (ref_kind (rb_roleref rb)) (ref_name (rb_roleref rb)) then None
         else Some \<lparr>d_bindingKind = ''RoleBinding'', d_bindingNamespace = ns, d_bindingName = rb_name rb,
                    d_roleKind = ref_kind (rb_roleref rb), d_roleName = ref_name (rb_roleref rb)\<rparr>)"

text \<open>The map is a set of keys; its list order is the order a range over it takes.\<close>

definition danglingRoleRefsOf :: "RBACSnapshot \<Rightarrow> danglingRoleRef list" where
  "danglingRoleRefsOf snap =
     (let out = addNew [] (List.map_filter (danglingCRB snap) (ClusterRoleBindings snap))
      in foldl (\<lambda>out e. addNew out (List.map_filter (danglingRB snap (fst e)) (snd e))) out
           (RoleBindingsByNS snap))"

datatype danglingLog = Dangles danglingRoleRef | Resolved danglingRoleRef gostring

record danglingState =
  dg_current :: "danglingRoleRef list"
  dg_clusterRole :: nat
  dg_role :: nat
  dg_log :: "danglingLog list"

definition noteDanglingRoleRefs :: "RBACSnapshot \<Rightarrow> danglingRoleRef list \<Rightarrow> danglingState \<Rightarrow> danglingState" where
  "noteDanglingRoleRefs snap nxt st =
     (let became = filter (\<lambda>k. k \<notin> set (dg_current st)) nxt;
          gone = filter (\<lambda>k. k \<notin> set nxt) (dg_current st);
          reason = (\<lambda>k. if roleRefPresent snap (d_bindingNamespace k) (d_roleKind k) (d_roleName k)
                        then ''role_present'' else ''binding_changed_or_deleted'')
      in \<lparr>dg_current = nxt,
          dg_clusterRole = length (filter (\<lambda>k. d_roleKind k = ''ClusterRole'') nxt),
          dg_role = length (filter (\<lambda>k. d_roleKind k = ''Role'') nxt),
          dg_log = dg_log st @ map Dangles became @ map (\<lambda>k. Resolved k (reason k)) gone\<rparr>)"

text \<open>What one publish does with them.\<close>

definition publishDangling :: "RBACSnapshot \<Rightarrow> danglingState \<Rightarrow> danglingState" where
  "publishDangling snap st =
     (if Synced snap then noteDanglingRoleRefs snap (danglingRoleRefsOf snap) st else st)"

lemma set_danglingRoleRefsOf:
  "set (danglingRoleRefsOf snap) =
     {k. \<exists>b. Some b \<in> set (ClusterRoleBindings snap) \<and> danglingCRB snap (Some b) = Some k} \<union>
     {k. \<exists>e\<in>set (RoleBindingsByNS snap). \<exists>b. Some b \<in> set (snd e) \<and> danglingRB snap (fst e) (Some b) = Some k}"
proof -
  have opt: "(\<exists>p\<in>set ps. f p = Some k) \<longleftrightarrow> (\<exists>b. Some b \<in> set ps \<and> f (Some b) = Some k)"
    if "f None = None" for f :: "'x option \<Rightarrow> danglingRoleRef option" and ps k
    using that by (metis option.distinct(1) option.exhaust)
  have c: "danglingCRB snap None = None" and r: "\<And>ns. danglingRB snap ns None = None"
    by (simp_all add: danglingCRB_def danglingRB_def)
  show ?thesis
    unfolding danglingRoleRefsOf_def Let_def set_foldl_addNew set_addNew set_map_filter
      opt [of "danglingCRB snap", OF c] opt [of "danglingRB snap ns" for ns, OF r] by auto
qed

section \<open>Properties\<close>

text \<open>A flush rotates an identity's key exactly when the shift hook reports it rotated: for a set
  of distinct flushed subjects, the sum the key folds for the effective groups changes if and only if
  the rotated set says so (an identity folds fewer than 2 to the 64 subjects).\<close>

theorem flush_rotates_iff_Rotated:
  assumes "distinct ss" "length gs + 2 < 2 ^ 64"
  shows "RBACSubGenForSubject u (WithAuthenticatedGroup gs) (BumpSubjectSubGens ss st) \<noteq>
      RBACSubGenForSubject u (WithAuthenticatedGroup gs) st \<longleftrightarrow> Rotated (set ss) u gs"
proof -
  let ?ks = "foldSubjects u (WithAuthenticatedGroup gs)"
  let ?n = "length (filter (\<lambda>k. k \<in> set ss) ?ks)"
  have "?n \<le> length ?ks" by simp
  also have "\<dots> \<le> Suc (length (WithAuthenticatedGroup gs))" by (rule length_foldSubjects)
  also have "\<dots> \<le> length gs + 2" by (simp add: WithAuthenticatedGroup_def)
  finally have "(of_nat ?n :: 64 word) = 0 \<longleftrightarrow> ?n = 0" using assms(2) by (intro of_nat_zero_small) linarith
  moreover have "?n = 0 \<longleftrightarrow> \<not> Rotated (set ss) u gs" by (auto simp: Rotated_def filter_empty_conv)
  ultimately show ?thesis by (simp add: flush_moves [OF assms(1)])
qed

lemma flush_rotates_iff_Rotated_witness:
  "RBACSubGenForSubject ''bob'' (WithAuthenticatedGroup [''devs''])
      (BumpSubjectSubGens [groupKey ''devs'']
         \<lparr>sg_counter = Map.empty, sg_bumps = 0, sg_subjects = 0, sg_epoch = 0\<rparr>) \<noteq>
   RBACSubGenForSubject ''bob'' (WithAuthenticatedGroup [''devs''])
      \<lparr>sg_counter = Map.empty, sg_bumps = 0, sg_subjects = 0, sg_epoch = 0\<rparr>"
proof -
  have "Rotated (set [groupKey ''devs'']) ''bob'' [''devs'']"
    by (simp add: Rotated_def foldSubjects_def foldl_groupKeys WithAuthenticatedGroup_def split: prod.split)
  with flush_rotates_iff_Rotated [of "[groupKey ''devs'']" "[''devs'']" "''bob''"] show ?thesis by simp
qed

text \<open>The fold the shift hook matches against and the sum the key takes are the same fold: the
  sum is the epoch plus the counters of exactly the folded subjects.\<close>

theorem subgen_sum_is_fold:
  "RBACSubGenForSubject u gs st = sg_epoch st + sum_list (map (subGenValue st) (foldSubjects u gs))"
  by (rule RBACSubGenForSubject_fold)

text \<open>A binding reported as dangling grants nothing to anybody: a cluster role binding whose
  reference dangles grants no request, nor does a role binding in its namespace.\<close>

theorem dangling_grants_nothing:
  assumes "k \<in> set (danglingRoleRefsOf snap)" "distinct (map fst (RoleBindingsByNS snap))"
  shows "(\<exists>b\<in>set (crbsOf snap). danglingCRB snap (Some b) = Some k \<and> (\<forall>opts. \<not> crbGrants snap opts b)) \<or>
    (\<exists>b\<in>set (rbsIn snap (d_bindingNamespace k)). danglingRB snap (d_bindingNamespace k) (Some b) = Some k \<and>
       (\<forall>opts. opt_namespace opts = d_bindingNamespace k \<longrightarrow> \<not> rbGrants snap opts b))"
  using assms(1) unfolding set_danglingRoleRefsOf
proof (elim UnE CollectE exE bexE conjE)
  fix b assume b: "Some b \<in> set (ClusterRoleBindings snap)" "danglingCRB snap (Some b) = Some k"
  then have "lookupRoleRefRules snap [] (crb_roleref b) = None"
    by (auto simp: danglingCRB_def lookupRoleRefRules_def split: if_splits)
  with b show ?thesis by (auto simp: crbGrants_def roleGrants_def)
next
  fix e b assume b: "e \<in> set (RoleBindingsByNS snap)" "Some b \<in> set (snd e)" "danglingRB snap (fst e) (Some b) = Some k"
  then have ns: "d_bindingNamespace k = fst e" by (auto simp: danglingRB_def split: if_splits)
  have none: "lookupRoleRefRules snap (fst e) (rb_roleref b) = None"
    using b(3) by (auto simp: danglingRB_def lookupRoleRefRules_def roleRefPresent_def split: if_splits)
  have "b \<in> set (rbsIn snap (fst e))" unfolding rbsIn_entry [OF assms(2)] using b by blast
  with b(3) none show ?thesis unfolding ns by (auto simp: rbGrants_def roleGrants_def simp del: in_rbsIn)
qed

definition exOrphan :: ClusterRoleBinding where
  "exOrphan = exCRB\<lparr>crb_roleref := exRef ''ClusterRole'' ''gone''\<rparr>"

lemma exOrphan_dangles:
  "danglingCRB (exSnapshotOf [exOrphan]) (Some exOrphan) =
     Some \<lparr>d_bindingKind = ''ClusterRoleBinding'', d_bindingNamespace = [], d_bindingName = ''view'',
       d_roleKind = ''ClusterRole'', d_roleName = ''gone''\<rparr>"
  by (simp add: danglingCRB_def exOrphan_def ex_objects)

lemma dangling_grants_nothing_witness: "\<forall>opts. \<not> crbGrants (exSnapshotOf [exOrphan]) opts exOrphan"
proof -
  let ?k = "\<lparr>d_bindingKind = ''ClusterRoleBinding'', d_bindingNamespace = [], d_bindingName = ''view'',
      d_roleKind = ''ClusterRole'', d_roleName = ''gone''\<rparr>"
  have "Some exOrphan \<in> set (ClusterRoleBindings (exSnapshotOf [exOrphan]))"
    unfolding in_crbsOf [symmetric] exSnapshotOf_fields by simp
  then have "?k \<in> set (danglingRoleRefsOf (exSnapshotOf [exOrphan]))"
    unfolding set_danglingRoleRefsOf using exOrphan_dangles by blast
  moreover have "distinct (map fst (RoleBindingsByNS (exSnapshotOf [exOrphan])))"
    using exSnapshotOf_fields(4) [of "[exOrphan]"] unfolding indexed_def filedByNS_def by blast
  ultimately show ?thesis
    using dangling_grants_nothing [of ?k "exSnapshotOf [exOrphan]"] by (auto simp del: in_crbsOf in_rbsIn)
qed

fun replay :: "danglingLog list \<Rightarrow> danglingRoleRef set \<Rightarrow> danglingRoleRef set" where
  "replay [] S = S"
| "replay (Dangles k # ls) S = replay ls (insert k S)"
| "replay (Resolved k r # ls) S = replay ls (S - {k})"

lemma replay_append: "replay (ls @ ls') S = replay ls' (replay ls S)"
  by (induction ls S rule: replay.induct) simp_all

lemma replay_Dangles: "replay (map Dangles ks) S = S \<union> set ks"
  by (induction ks arbitrary: S) auto

lemma replay_Resolved: "replay (map (\<lambda>k. Resolved k (f k)) ks) S = S - set ks"
  by (induction ks arbitrary: S) auto

lemma replay_note:
  "replay (dg_log st) {} = set (dg_current st) \<Longrightarrow>
     replay (dg_log (noteDanglingRoleRefs snap nxt st)) {} = set nxt"
  by (auto simp: noteDanglingRoleRefs_def Let_def replay_append replay_Dangles replay_Resolved)

lemma distinct_danglingRoleRefsOf: "distinct (danglingRoleRefsOf snap)"
proof -
  have "distinct (foldl (\<lambda>out e. addNew out (F e)) out es)" if "distinct out" for out es
    and F :: "'x \<Rightarrow> danglingRoleRef list"
    using that by (induction es arbitrary: out) auto
  then show ?thesis unfolding danglingRoleRefsOf_def Let_def by simp
qed

definition emptyDangling :: danglingState where
  "emptyDangling = \<lparr>dg_current = [], dg_clusterRole = 0, dg_role = 0, dg_log = []\<rparr>"

text \<open>The dangling log is exact over any sequence of publishes from an empty state: the current set
  is what the last synced snapshot dangles, each transition is logged once, and replaying the log gives
  the current set back.\<close>

theorem dangling_log_exact:
  "let st = foldl (\<lambda>st snap. publishDangling snap st) emptyDangling snaps in
     dg_current st = (case filter Synced (rev snaps) of [] \<Rightarrow> [] | snap # _ \<Rightarrow> danglingRoleRefsOf snap) \<and>
     replay (dg_log st) {} = set (dg_current st) \<and>
     dg_clusterRole st = card {k \<in> set (dg_current st). d_roleKind k = ''ClusterRole''} \<and>
     dg_role st = card {k \<in> set (dg_current st). d_roleKind k = ''Role''}"
  unfolding Let_def
proof (induction snaps rule: rev_induct)
  case Nil
  then show ?case by (simp add: emptyDangling_def)
next
  case (snoc snap snaps)
  let ?st = "foldl (\<lambda>st snap. publishDangling snap st) emptyDangling snaps"
  have counts: "length (filter P (danglingRoleRefsOf snap)) = card {k \<in> set (danglingRoleRefsOf snap). P k}" for P
    using distinct_danglingRoleRefsOf [of snap] by (metis distinct_card distinct_filter set_filter)
  show ?case
  proof (cases "Synced snap")
    case True
    have "replay (dg_log (noteDanglingRoleRefs snap (danglingRoleRefsOf snap) ?st)) {} = set (danglingRoleRefsOf snap)"
      using snoc by (intro replay_note) simp
    then show ?thesis
      using True by (simp add: publishDangling_def counts) (simp add: noteDanglingRoleRefs_def Let_def counts)
  qed (use snoc in \<open>simp add: publishDangling_def\<close>)
qed

end
