(* ===== verification/RBACRebuild.thy ===== *)
theory RBACRebuild
  imports RBACSubGen
begin

text \<open>
  The asynchronous snapshot writer (cache/rbac\_snapshot.go, rbac\_subgen\_pending.go): informer
  events mark the snapshot dirty and record the subjects whose keys must rotate; a goroutine that
  wins the rebuild slot drains until nothing is dirty; a rebuild takes the recorded subjects before it
  reads the indexers, publishes, and only then flushes exactly what it took.

  Every atomic access of the source is one step, and any number of goroutines interleave. The
  content of the indexers is represented by the number of events applied to them, so a snapshot's
  content is the number of events its read followed. Fields marked ghost record what happened and
  are read by no step.
\<close>

section \<open>Pending sub-gen bumps\<close>

text \<open>A recorded subject with the mask of its sources and (ghost) the latest event it stands for.\<close>

type_synonym pendingEntry = "subjectKey \<times> 8 word \<times> nat"
type_synonym takenSubGenBumps = "pendingEntry list"

fun mergePending :: "subjectKey \<Rightarrow> 8 word \<Rightarrow> nat \<Rightarrow> pendingEntry list \<Rightarrow> pendingEntry list" where
  "mergePending s m v [] = [(s, m, v)]"
| "mergePending s m v ((s', m', v') # p) =
     (if s' = s then (s', or m' m, max v' v) # p else (s', m', v') # mergePending s m v p)"

definition recordPendingSubGenBumps ::
  "subjectKey list \<Rightarrow> 8 word \<Rightarrow> nat \<Rightarrow> pendingEntry list \<Rightarrow> pendingEntry list" where
  "recordPendingSubGenBumps subjects source v p = foldl (\<lambda>p s. mergePending s source v p) p subjects"

definition takePendingSubGenBumps :: "pendingEntry list \<Rightarrow> takenSubGenBumps \<times> pendingEntry list" where
  "takePendingSubGenBumps p = (p, [])"

definition restorePendingSubGenBumps :: "takenSubGenBumps \<Rightarrow> pendingEntry list \<Rightarrow> pendingEntry list" where
  "restorePendingSubGenBumps t p = foldl (\<lambda>p (s, m, v). mergePending s m v p) p t"

definition bumpTakenSubGens :: "takenSubGenBumps \<Rightarrow> subgens \<Rightarrow> subgens" where
  "bumpTakenSubGens t st = (if t = [] then st else BumpSubjectSubGens (map fst t) st)"

text \<open>The wait before a retry after a panic, a \<open>time.Duration\<close> in nanoseconds.\<close>

definition millisecond :: int where "millisecond = 1000000"
definition second :: int where "second = 1000000000"

definition nextRBACRebuildPanicBackoff :: "int \<Rightarrow> int" where
  "nextRBACRebuildPanicBackoff cur =
     (if cur \<le> 0 then 10 * millisecond else if cur \<ge> 5 * second then 5 * second else cur * 2)"

section \<open>Goroutines\<close>

text \<open>
  What a handler still has to do after it scheduled: nothing, or record its subjects (and schedule
  once more).
\<close>

type_synonym job = "(subjectKey list \<times> 8 word) option"

datatype phase =
    Idle
  | Mark nat job
  | Cas nat job
  | After nat job
  | PMark
  | PSpin
  | LClear
  | LTake
  | LRead takenSubGenBumps
  | LStore takenSubGenBumps nat
  | LFlush takenSubGenBumps
  | LCheck
  | LRelease
  | LRecheck
  | LReacquire

text \<open>
  \<open>rs_version\<close> is the content of the indexers; \<open>rs_marked\<close> (the latest event the dirty
  flag was set for), \<open>rs_refused\<close>, \<open>rs_recorded\<close> and \<open>rs_flushed\<close> are ghosts.
\<close>

record rebuildState =
  rs_dirty :: bool
  rs_locked :: bool
  rs_pending :: "pendingEntry list"
  rs_seq :: "64 word"
  rs_subgens :: subgens
  rs_published :: nat
  rs_run :: "nat \<Rightarrow> phase"
  rs_version :: nat
  rs_marked :: nat
  rs_refused :: bool
  rs_recorded :: "(subjectKey \<times> nat) set"
  rs_flushed :: "(subjectKey \<times> nat \<times> nat) set"

definition startRebuild :: "subgens \<Rightarrow> rebuildState" where
  "startRebuild sg = \<lparr>rs_dirty = False, rs_locked = False, rs_pending = [], rs_seq = 0, rs_subgens = sg,
     rs_published = 0, rs_run = (\<lambda>_. Idle), rs_version = 0, rs_marked = 0, rs_refused = False,
     rs_recorded = {}, rs_flushed = {}\<rparr>"

definition at :: "nat \<Rightarrow> phase \<Rightarrow> rebuildState \<Rightarrow> rebuildState" where
  "at t pc s = s\<lparr>rs_run := (rs_run s)(t := pc)\<rparr>"

definition markDirty :: "nat \<Rightarrow> rebuildState \<Rightarrow> rebuildState" where
  "markDirty v s = s\<lparr>rs_dirty := True, rs_marked := max (rs_marked s) v\<rparr>"

text \<open>The deferred restore of a rebuild that does not reach its flush.\<close>

definition unflushed :: "takenSubGenBumps \<Rightarrow> rebuildState \<Rightarrow> rebuildState" where
  "unflushed tk s = (if tk = [] then s
     else s\<lparr>rs_pending := restorePendingSubGenBumps tk (rs_pending s), rs_dirty := True\<rparr>)"

definition recordStep :: "subjectKey list \<Rightarrow> 8 word \<Rightarrow> nat \<Rightarrow> rebuildState \<Rightarrow> rebuildState" where
  "recordStep ss src v s = s\<lparr>rs_pending := recordPendingSubGenBumps ss src v (rs_pending s),
     rs_recorded := rs_recorded s \<union> {(x, v) | x. x \<in> set ss}\<rparr>"

definition flushStep :: "takenSubGenBumps \<Rightarrow> rebuildState \<Rightarrow> rebuildState" where
  "flushStep tk s = s\<lparr>rs_subgens := bumpTakenSubGens tk (rs_subgens s),
     rs_flushed := rs_flushed s \<union> {(x, v, rs_published s) | x m v. (x, m, v) \<in> set tk}\<rparr>"

text \<open>
  \<open>event\<close>: an informer applies an event and calls its handler. \<open>mark\<close>, \<open>win\<close>, \<open>lose\<close>:
  \<open>scheduleRBACRebuild\<close>. \<open>pend\<close>: \<open>recordPendingSubGenBumps\<close>, which schedules again.
  \<open>pmark\<close>, \<open>pwin\<close>: \<open>publishRBACSnapshotUnderSlot\<close>. \<open>clear\<close> to \<open>check\<close>:
  \<open>drainRBACRebuild\<close> and \<open>rebuildRBACSnapshot\<close>; a panic may strike anywhere before the flush.
  \<open>release\<close> to \<open>relose\<close>: \<open>runRBACRebuildLoop\<close>.
\<close>

inductive rebuildStep :: "rebuildState \<Rightarrow> rebuildState \<Rightarrow> bool" where
  event: "rs_run s t = Idle \<Longrightarrow>
     rebuildStep s (at t (Mark (Suc (rs_version s)) job) (s\<lparr>rs_version := Suc (rs_version s)\<rparr>))"
| mark: "rs_run s t = Mark v job \<Longrightarrow> rebuildStep s (at t (Cas v job) (markDirty v s))"
| win: "rs_run s t = Cas v job \<Longrightarrow> \<not> rs_locked s \<Longrightarrow> rs_run s u = Idle \<Longrightarrow> u \<noteq> t \<Longrightarrow>
     rebuildStep s (at u LClear (at t (After v job) (s\<lparr>rs_locked := True\<rparr>)))"
| lose: "rs_run s t = Cas v job \<Longrightarrow> rs_locked s \<Longrightarrow> rebuildStep s (at t (After v job) s)"
| done_handler: "rs_run s t = After v job \<Longrightarrow> job = None \<or> job = Some ([], src) \<Longrightarrow>
     rebuildStep s (at t Idle s)"
| pend: "rs_run s t = After v (Some (ss, src)) \<Longrightarrow> ss \<noteq> [] \<Longrightarrow>
     rebuildStep s (at t (Mark v None) (recordStep ss src v s))"
| pstart: "rs_run s t = Idle \<Longrightarrow> rebuildStep s (at t PMark s)"
| pmark: "rs_run s t = PMark \<Longrightarrow> rebuildStep s (at t PSpin (markDirty (rs_version s) s))"
| pwin: "rs_run s t = PSpin \<Longrightarrow> \<not> rs_locked s \<Longrightarrow> rebuildStep s (at t LClear (s\<lparr>rs_locked := True\<rparr>))"
| clear: "rs_run s t = LClear \<Longrightarrow> rebuildStep s (at t LTake (s\<lparr>rs_dirty := False\<rparr>))"
| take: "rs_run s t = LTake \<Longrightarrow> takePendingSubGenBumps (rs_pending s) = (tk, p) \<Longrightarrow>
     rebuildStep s (at t (LRead tk) (s\<lparr>rs_pending := p\<rparr>))"
| read: "rs_run s t = LRead tk \<Longrightarrow> rebuildStep s (at t (LStore tk (rs_version s)) s)"
| store: "rs_run s t = LStore tk v \<Longrightarrow> rs_seq s + 1 \<noteq> 0 \<Longrightarrow>
     rebuildStep s (at t (LFlush tk) (s\<lparr>rs_seq := rs_seq s + 1, rs_published := v\<rparr>))"
| refuse: "rs_run s t = LStore tk v \<Longrightarrow> rs_seq s + 1 = 0 \<Longrightarrow>
     rebuildStep s (at t LCheck (unflushed tk (s\<lparr>rs_seq := 0, rs_refused := True\<rparr>)))"
| flush: "rs_run s t = LFlush tk \<Longrightarrow> rebuildStep s (at t LCheck (flushStep tk s))"
| panic: "rs_run s t = pc \<Longrightarrow> pc = LTake \<and> tk = [] \<or> pc = LRead tk \<or> pc = LStore tk v \<or> pc = LFlush tk \<Longrightarrow>
     rebuildStep s (at t LRelease ((unflushed tk s)\<lparr>rs_dirty := True\<rparr>))"
| check_again: "rs_run s t = LCheck \<Longrightarrow> rs_dirty s \<Longrightarrow> rebuildStep s (at t LClear s)"
| check_done: "rs_run s t = LCheck \<Longrightarrow> \<not> rs_dirty s \<Longrightarrow> rebuildStep s (at t LRelease s)"
| release: "rs_run s t = LRelease \<Longrightarrow> rebuildStep s (at t LRecheck (s\<lparr>rs_locked := False\<rparr>))"
| recheck_done: "rs_run s t = LRecheck \<Longrightarrow> \<not> rs_dirty s \<Longrightarrow> rebuildStep s (at t Idle s)"
| recheck: "rs_run s t = LRecheck \<Longrightarrow> rs_dirty s \<Longrightarrow> rebuildStep s (at t LReacquire s)"
| rewin: "rs_run s t = LReacquire \<Longrightarrow> \<not> rs_locked s \<Longrightarrow>
     rebuildStep s (at t LClear (s\<lparr>rs_locked := True\<rparr>))"
| relose: "rs_run s t = LReacquire \<Longrightarrow> rs_locked s \<Longrightarrow> rebuildStep s (at t Idle s)"

inductive rebuildReachable :: "rebuildState \<Rightarrow> bool" where
  start: "rebuildReachable (startRebuild sg)"
| step: "rebuildReachable s \<Longrightarrow> rebuildStep s s' \<Longrightarrow> rebuildReachable s'"

inductive_cases rebuildStepE: "rebuildStep s s'"

lemma at_fields [simp]:
  "rs_dirty (at t pc s) = rs_dirty s" "rs_locked (at t pc s) = rs_locked s"
  "rs_pending (at t pc s) = rs_pending s" "rs_seq (at t pc s) = rs_seq s"
  "rs_subgens (at t pc s) = rs_subgens s" "rs_published (at t pc s) = rs_published s"
  "rs_version (at t pc s) = rs_version s" "rs_marked (at t pc s) = rs_marked s"
  "rs_refused (at t pc s) = rs_refused s" "rs_recorded (at t pc s) = rs_recorded s"
  "rs_flushed (at t pc s) = rs_flushed s" "rs_run (at t pc s) = (rs_run s)(t := pc)"
  by (simp_all add: at_def)

lemma markDirty_fields [simp]:
  "rs_dirty (markDirty v s)" "rs_locked (markDirty v s) = rs_locked s"
  "rs_pending (markDirty v s) = rs_pending s" "rs_run (markDirty v s) = rs_run s"
  "rs_published (markDirty v s) = rs_published s" "rs_version (markDirty v s) = rs_version s"
  "rs_marked (markDirty v s) = max (rs_marked s) v" "rs_refused (markDirty v s) = rs_refused s"
  "rs_recorded (markDirty v s) = rs_recorded s" "rs_flushed (markDirty v s) = rs_flushed s"
  by (simp_all add: markDirty_def)

lemma unflushed_fields [simp]:
  "rs_dirty (unflushed tk s) = (rs_dirty s \<or> tk \<noteq> [])" "rs_locked (unflushed tk s) = rs_locked s"
  "rs_pending (unflushed tk s) = restorePendingSubGenBumps tk (rs_pending s)"
  "rs_run (unflushed tk s) = rs_run s"
  "rs_published (unflushed tk s) = rs_published s" "rs_version (unflushed tk s) = rs_version s"
  "rs_marked (unflushed tk s) = rs_marked s" "rs_refused (unflushed tk s) = rs_refused s"
  "rs_recorded (unflushed tk s) = rs_recorded s" "rs_flushed (unflushed tk s) = rs_flushed s"
  by (simp_all add: unflushed_def restorePendingSubGenBumps_def)

lemma recordStep_fields [simp]:
  "rs_dirty (recordStep ss src v s) = rs_dirty s" "rs_locked (recordStep ss src v s) = rs_locked s"
  "rs_pending (recordStep ss src v s) = recordPendingSubGenBumps ss src v (rs_pending s)"
  "rs_run (recordStep ss src v s) = rs_run s"
  "rs_published (recordStep ss src v s) = rs_published s" "rs_version (recordStep ss src v s) = rs_version s"
  "rs_marked (recordStep ss src v s) = rs_marked s" "rs_refused (recordStep ss src v s) = rs_refused s"
  "rs_recorded (recordStep ss src v s) = rs_recorded s \<union> {(x, v) | x. x \<in> set ss}"
  "rs_flushed (recordStep ss src v s) = rs_flushed s"
  by (simp_all add: recordStep_def)

lemma flushStep_fields [simp]:
  "rs_dirty (flushStep tk s) = rs_dirty s" "rs_locked (flushStep tk s) = rs_locked s"
  "rs_pending (flushStep tk s) = rs_pending s" "rs_run (flushStep tk s) = rs_run s"
  "rs_published (flushStep tk s) = rs_published s" "rs_version (flushStep tk s) = rs_version s"
  "rs_marked (flushStep tk s) = rs_marked s" "rs_refused (flushStep tk s) = rs_refused s"
  "rs_recorded (flushStep tk s) = rs_recorded s"
  "rs_flushed (flushStep tk s) = rs_flushed s \<union> {(x, v, rs_published s) | x m v. (x, m, v) \<in> set tk}"
  by (simp_all add: flushStep_def)

section \<open>One writer, and no lost wake-up\<close>

fun owner :: "phase \<Rightarrow> bool" where
  "owner LClear = True" | "owner LTake = True" | "owner (LRead tk) = True"
| "owner (LStore tk v) = True" | "owner (LFlush tk) = True" | "owner LCheck = True"
| "owner LRelease = True" | "owner _ = False"

text \<open>A goroutine that will still look at the dirty flag, or at a slot that is then free.\<close>

fun waker :: "phase \<Rightarrow> bool" where
  "waker (Cas v job) = True" | "waker PSpin = True" | "waker LRecheck = True" | "waker LReacquire = True"
| "waker pc = owner pc"

definition oneOwner :: "rebuildState \<Rightarrow> bool" where
  "oneOwner s \<longleftrightarrow> (\<forall>t u. owner (rs_run s t) \<longrightarrow> owner (rs_run s u) \<longrightarrow> t = u) \<and>
     (\<forall>t. owner (rs_run s t) \<longrightarrow> rs_locked s)"

definition somewhere :: "(phase \<Rightarrow> bool) \<Rightarrow> (nat \<Rightarrow> phase) \<Rightarrow> bool" where
  "somewhere P f \<longleftrightarrow> (\<exists>t. P (f t))"

definition slotHeld :: "rebuildState \<Rightarrow> bool" where
  "slotHeld s \<longleftrightarrow> (rs_locked s \<longrightarrow> somewhere owner (rs_run s))"

definition wakeOK :: "rebuildState \<Rightarrow> bool" where
  "wakeOK s \<longleftrightarrow> (rs_dirty s \<longrightarrow> somewhere waker (rs_run s))"

text \<open>A goroutine of a kind stays in a state when only another one moves, or when it moves within the kind.\<close>

lemma somewhere_new [simp, intro]: "P pc \<Longrightarrow> somewhere P (f(t := pc))"
  unfolding somewhere_def by (metis fun_upd_same)

lemma somewhere_other: "somewhere P f \<Longrightarrow> \<not> P (f t) \<Longrightarrow> somewhere P (f(t := pc))"
  unfolding somewhere_def by (metis fun_upd_other)

lemma somewhere_new2 [simp, intro]: "P pc \<Longrightarrow> somewhere P (f(t := pc, u := pc'))" if "t \<noteq> u"
  using that unfolding somewhere_def by (metis fun_upd_same fun_upd_other)

lemma somewhereI: "f t = pc \<Longrightarrow> P pc \<Longrightarrow> somewhere P f"
  unfolding somewhere_def by blast

lemma somewhere_mono: "somewhere P f \<Longrightarrow> (\<And>pc. P pc \<Longrightarrow> Q pc) \<Longrightarrow> somewhere Q f"
  unfolding somewhere_def by blast

lemma fun_upd_self: "f t = pc \<Longrightarrow> f(t := pc) = f"
  by auto

lemma owner_locked: "oneOwner s \<Longrightarrow> rs_run s t = pc \<Longrightarrow> owner pc \<Longrightarrow> rs_locked s"
  unfolding oneOwner_def by blast

lemma oneOwner_step:
  assumes "rebuildStep s s'" "oneOwner s"
  shows "oneOwner s'"
  using assms by (cases rule: rebuildStep.cases) (auto simp: oneOwner_def, (metis owner.simps)+)

lemma waker_owner: "owner pc \<Longrightarrow> waker pc"
  by (cases pc) simp_all

lemma slotHeld_step:
  assumes "rebuildStep s s'" "oneOwner s" "slotHeld s"
  shows "slotHeld s'"
  using assms(1)
proof cases
qed (use assms(3) owner_locked [OF assms(2)] in \<open>auto simp: slotHeld_def intro!: somewhere_other\<close>)

lemma wakeOK_step:
  assumes "rebuildStep s s'" "oneOwner s" "slotHeld s" "wakeOK s"
  shows "wakeOK s'"
proof -
  have held: "somewhere waker ((rs_run s)(t := pc))" if "rs_locked s" "\<not> owner (rs_run s t)" for t pc
    using somewhere_other [of owner "rs_run s" t pc] that assms(3)
    by (auto simp: slotHeld_def intro: somewhere_mono waker_owner)
  from assms(1) show ?thesis
  proof cases
  qed (use assms(4) in \<open>auto simp: wakeOK_def intro: somewhere_other held\<close>)
qed

section \<open>Content before keys\<close>

abbreviation entryEvent :: "pendingEntry \<Rightarrow> nat" where
  "entryEvent e \<equiv> snd (snd e)"

definition upTo :: "nat \<Rightarrow> pendingEntry list \<Rightarrow> bool" where
  "upTo n p \<longleftrightarrow> (\<forall>e\<in>set p. entryEvent e \<le> n)"

lemma upTo_Nil [simp]: "upTo n []"
  by (simp add: upTo_def)

lemma upTo_mono: "upTo n p \<Longrightarrow> n \<le> n' \<Longrightarrow> upTo n' p"
  unfolding upTo_def using order_trans by blast

lemma upTo_Suc [simp]: "upTo n p \<Longrightarrow> upTo (Suc n) p"
  by (erule upTo_mono) simp

lemma upTo_merge: "v \<le> n \<Longrightarrow> upTo n p \<Longrightarrow> upTo n (mergePending x m v p)"
  unfolding upTo_def by (induction x m v p rule: mergePending.induct) auto

lemma upTo_record: "v \<le> n \<Longrightarrow> upTo n p \<Longrightarrow> upTo n (recordPendingSubGenBumps ss m v p)"
  unfolding recordPendingSubGenBumps_def by (induction ss arbitrary: p) (simp_all add: upTo_merge)

lemma upTo_Cons: "upTo n ((x, m, v) # p) \<longleftrightarrow> v \<le> n \<and> upTo n p"
  by (simp add: upTo_def)

lemma upTo_restore: "upTo n tk \<Longrightarrow> upTo n p \<Longrightarrow> upTo n (restorePendingSubGenBumps tk p)"
  unfolding restorePendingSubGenBumps_def
  by (induction tk arbitrary: p) (auto simp: upTo_merge upTo_Cons)

lemma upTo_flushed:
  "upTo n tk \<Longrightarrow> \<forall>x\<in>F. fst (snd x) \<le> snd (snd x) \<Longrightarrow>
     \<forall>x\<in>F \<union> {(y, v, n) | y m v. (y, m, v) \<in> set tk}. fst (snd x) \<le> snd (snd x)"
  by (fastforce simp: upTo_def)

text \<open>What a goroutine holds is bounded by the content it has seen.\<close>

fun phaseOK :: "nat \<Rightarrow> nat \<Rightarrow> phase \<Rightarrow> bool" where
  "phaseOK ver pub (Mark v job) = (v \<le> ver)"
| "phaseOK ver pub (Cas v job) = (v \<le> ver)"
| "phaseOK ver pub (After v job) = (v \<le> ver)"
| "phaseOK ver pub (LRead tk) = (upTo ver tk)"
| "phaseOK ver pub (LStore tk v) = (pub \<le> v \<and> v \<le> ver \<and> (upTo v tk))"
| "phaseOK ver pub (LFlush tk) = (upTo pub tk)"
| "phaseOK ver pub _ = True"

definition contentOK :: "rebuildState \<Rightarrow> bool" where
  "contentOK s \<longleftrightarrow> rs_published s \<le> rs_version s \<and> rs_marked s \<le> rs_version s \<and>
     upTo (rs_version s) (rs_pending s) \<and>
     (\<forall>x\<in>rs_flushed s. fst (snd x) \<le> snd (snd x)) \<and>
     (\<forall>t. phaseOK (rs_version s) (rs_published s) (rs_run s t))"

lemma phaseOK_mono: "phaseOK ver pub pc \<Longrightarrow> ver \<le> ver' \<Longrightarrow> phaseOK ver' pub pc"
  by (cases pc) (auto intro: upTo_mono)

lemma phaseOK_nonowner: "\<not> owner pc \<Longrightarrow> phaseOK ver pub pc \<longleftrightarrow> phaseOK ver pub' pc"
  by (cases pc) auto

lemma contentOK_at:
  "contentOK s \<Longrightarrow> phaseOK (rs_version s) (rs_published s) pc \<Longrightarrow> contentOK (at t pc s)"
  by (simp add: contentOK_def)

lemma contentOK_fields:
  assumes "contentOK s" "rs_run s' = rs_run s" "rs_version s \<le> rs_version s'" "rs_published s' = rs_published s"
    and "rs_marked s' \<le> rs_version s'" "upTo (rs_version s') (rs_pending s')"
    and "\<forall>x\<in>rs_flushed s'. fst (snd x) \<le> snd (snd x)"
  shows "contentOK s'"
proof -
  have "phaseOK (rs_version s') (rs_published s) (rs_run s t)" for t
    using assms(1,3) phaseOK_mono unfolding contentOK_def by blast
  moreover have "rs_published s \<le> rs_version s'" using assms(1,3) unfolding contentOK_def by linarith
  ultimately show ?thesis unfolding contentOK_def assms(2,4) using assms(5-7) by blast
qed

lemma phase_of: "contentOK s \<Longrightarrow> rs_run s t = pc \<Longrightarrow> phaseOK (rs_version s) (rs_published s) pc"
  by (auto simp: contentOK_def)

lemma contentOK_unflushed:
  assumes "contentOK s" "upTo (rs_version s) tk"
  shows "contentOK (unflushed tk s)"
proof -
  have b: "rs_marked s \<le> rs_version s" "upTo (rs_version s) (rs_pending s)"
    "\<forall>x\<in>rs_flushed s. fst (snd x) \<le> snd (snd x)"
    using assms(1) unfolding contentOK_def by blast+
  show ?thesis
    using b(1,3) upTo_restore [OF assms(2) b(2)] by (intro contentOK_fields [OF assms(1)]) simp_all
qed

lemma contentOK_plain [simp]:
  "contentOK (s\<lparr>rs_dirty := b\<rparr>) = contentOK s" "contentOK (s\<lparr>rs_locked := b\<rparr>) = contentOK s"
  "contentOK (s\<lparr>rs_seq := n, rs_refused := b\<rparr>) = contentOK s"
  by (simp_all add: contentOK_def)

lemma contentOK_store:
  assumes "contentOK s" "oneOwner s" "rs_run s t = LStore tk v"
  shows "contentOK (at t (LFlush tk) (s\<lparr>rs_seq := n, rs_published := v\<rparr>))"
proof -
  have "phaseOK (rs_version s) v (rs_run s u)" if "u \<noteq> t" for u
  proof -
    have "\<not> owner (rs_run s u)" using assms(2,3) that unfolding oneOwner_def by (metis owner.simps(4))
    then show ?thesis using phaseOK_nonowner phase_of [OF assms(1) refl, of u] by blast
  qed
  then show ?thesis using phase_of [OF assms(1,3)] assms(1) by (simp add: contentOK_def)
qed

lemma contentOK_step:
  assumes step: "rebuildStep s s'" and ok: "contentOK s" and one: "oneOwner s"
  shows "contentOK s'"
proof -
  note ph = phase_of [OF ok]
  have b: "rs_published s \<le> rs_version s" "rs_marked s \<le> rs_version s"
    "upTo (rs_version s) (rs_pending s)" "\<forall>x\<in>rs_flushed s. fst (snd x) \<le> snd (snd x)"
    using ok by (simp_all add: contentOK_def)
  have marked: "contentOK (markDirty v s)" if "v \<le> rs_version s" for v
    using b that by (intro contentOK_fields [OF ok]) auto
  from step show ?thesis
  proof cases
    case (event t job)
    then show ?thesis
      using b by (auto intro!: contentOK_at contentOK_fields [OF ok])
  next
    case (mark t v job)
    then have "v \<le> rs_version s" using ph [of t] by simp
    with mark show ?thesis using marked [of v] by (auto intro!: contentOK_at)
  next
    case (pend t v ss src)
    then have "contentOK (recordStep ss src v s)"
      using ph [of t] b by (intro contentOK_fields [OF ok]) (auto intro: upTo_record)
    with pend show ?thesis using ph [of t] by (auto intro!: contentOK_at)
  next
    case (pmark t)
    then show ?thesis using marked [of "rs_version s"] by (auto intro!: contentOK_at)
  next
    case (take t tk p)
    then have "contentOK (s\<lparr>rs_pending := p\<rparr>)"
      using b by (intro contentOK_fields [OF ok]) (auto simp: takePendingSubGenBumps_def)
    with take show ?thesis using b by (auto intro!: contentOK_at simp: takePendingSubGenBumps_def)
  next
    case (read t tk)
    then show ?thesis using ok ph [of t] b by (auto intro!: contentOK_at)
  next
    case (store t tk v)
    then show ?thesis using contentOK_store [OF ok one] by simp
  next
    case (refuse t tk v)
    then have "contentOK (unflushed tk (s\<lparr>rs_seq := 0, rs_refused := True\<rparr>))"
      using ok ph [of t] by (intro contentOK_unflushed) (auto intro: upTo_mono)
    with refuse show ?thesis by (auto intro!: contentOK_at)
  next
    case (flush t tk)
    then have "upTo (rs_published s) tk" using ph [of t] by simp
    from upTo_flushed [OF this b(4)] have "contentOK (flushStep tk s)"
      using b by (intro contentOK_fields [OF ok]) (simp_all only: flushStep_fields)
    with flush show ?thesis by (auto intro!: contentOK_at)
  next
    case (panic t pc tk v)
    then have "upTo (rs_version s) tk" using ph [of t] b by (auto intro: upTo_mono)
    with panic show ?thesis using contentOK_unflushed [OF ok] by (auto intro!: contentOK_at)
  next
    case (win t v job u)
    then show ?thesis using ok ph [of t] by (auto intro!: contentOK_at)
  next
    case (lose t v job)
    then show ?thesis using ok ph [of t] by (auto intro!: contentOK_at)
  qed (use ok in \<open>auto intro!: contentOK_at\<close>)
qed

section \<open>No event is lost\<close>

text \<open>Every marked event is published, or a rebuild that will read it, or did, is under way or due.\<close>

fun covers :: "nat \<Rightarrow> phase \<Rightarrow> bool" where
  "covers n LTake = True"
| "covers n (LRead tk) = True"
| "covers n (LStore tk v) = (n \<le> v)"
| "covers n _ = False"

definition coverOK :: "rebuildState \<Rightarrow> bool" where
  "coverOK s \<longleftrightarrow> rs_marked s \<le> rs_published s \<or> rs_dirty s \<or> rs_refused s \<or>
     somewhere (covers (rs_marked s)) (rs_run s)"

lemma covers_owner: "covers n pc \<Longrightarrow> owner pc"
  by (cases pc) auto

lemma only_owner: "oneOwner s \<Longrightarrow> rs_run s t = pc \<Longrightarrow> owner pc \<Longrightarrow> somewhere P (rs_run s) \<Longrightarrow>
    (\<And>pc. P pc \<Longrightarrow> owner pc) \<Longrightarrow> P pc"
  unfolding oneOwner_def somewhere_def by metis

lemma coverOK_step:
  assumes step: "rebuildStep s s'" and one: "oneOwner s" and content: "contentOK s" and ok: "coverOK s"
  shows "coverOK s'"
proof -
  have only: "covers (rs_marked s) pc" if "rs_run s t = pc" "owner pc" "somewhere (covers (rs_marked s)) (rs_run s)"
    for t pc using only_owner [OF one that(1,2,3)] covers_owner by blast
  have ver: "rs_marked s \<le> rs_version s" using content by (simp add: contentOK_def)
  from step show ?thesis
  proof cases
    case (read t tk)
    then show ?thesis using ver by (auto simp: coverOK_def)
  next
    case (store t tk v)
    have "rs_published s \<le> v" using phase_of [OF content store(2)] by simp
    moreover have "rs_marked s \<le> rs_published s \<or> rs_dirty s \<or> rs_refused s \<or> rs_marked s \<le> v"
      using ok only [OF store(2)] by (auto simp: coverOK_def)
    ultimately show ?thesis using store(1) by (auto simp: coverOK_def)
  next
    case (clear t)
    then show ?thesis by (auto simp: coverOK_def)
  next
    case (take t tk p)
    then show ?thesis by (auto simp: coverOK_def)
  qed (use ok in \<open>auto simp: coverOK_def intro!: somewhere_other\<close>)
qed

text \<open>The latest event is marked, or its handler is about to.\<close>

definition latestMarked :: "rebuildState \<Rightarrow> bool" where
  "latestMarked s \<longleftrightarrow> rs_marked s = rs_version s \<or>
     somewhere (\<lambda>pc. \<exists>job. pc = Mark (rs_version s) job) (rs_run s)"

lemma latestMarked_step:
  assumes step: "rebuildStep s s'" and content: "contentOK s" and ok: "latestMarked s"
  shows "latestMarked s'"
proof -
  have ver: "rs_marked s \<le> rs_version s" using content by (simp add: contentOK_def)
  from step show ?thesis
  proof cases
    case (event t job)
    then show ?thesis by (auto simp: latestMarked_def)
  next
    case (mark t v job)
    have "v \<le> rs_version s" using phase_of [OF content mark(2)] by simp
    then show ?thesis using mark ok ver
      by (cases "v = rs_version s") (auto simp: latestMarked_def max_def intro!: somewhere_other)
  qed (use ok ver in \<open>auto simp: latestMarked_def max_def intro!: somewhere_other\<close>)
qed

text \<open>Recorded subjects wait, are held by the rebuild, or were flushed.\<close>

definition heldBy :: "subjectKey \<Rightarrow> nat \<Rightarrow> pendingEntry list \<Rightarrow> bool" where
  "heldBy x v p \<longleftrightarrow> (\<exists>m w. (x, m, w) \<in> set p \<and> v \<le> w)"

fun tookOf :: "phase \<Rightarrow> takenSubGenBumps" where
  "tookOf (LRead tk) = tk" | "tookOf (LStore tk v) = tk" | "tookOf (LFlush tk) = tk" | "tookOf _ = []"

definition keptOK :: "rebuildState \<Rightarrow> bool" where
  "keptOK s \<longleftrightarrow> (\<forall>x v. (x, v) \<in> rs_recorded s \<longrightarrow> heldBy x v (rs_pending s) \<or>
     somewhere (\<lambda>pc. heldBy x v (tookOf pc)) (rs_run s) \<or> (\<exists>w p. (x, w, p) \<in> rs_flushed s \<and> v \<le> w))"

lemma heldBy_Nil [simp]: "\<not> heldBy x v []"
  by (simp add: heldBy_def)

lemma heldBy_Cons: "heldBy x v ((y, m, w) # p) \<longleftrightarrow> (x = y \<and> v \<le> w) \<or> heldBy x v p"
  unfolding heldBy_def by auto

lemma heldBy_merge: "heldBy x v (mergePending y m w p) \<longleftrightarrow> (x = y \<and> v \<le> w) \<or> heldBy x v p"
proof (induction y m w p rule: mergePending.induct)
  case (2 s m v' s' m' w p)
  then show ?case by (auto simp: heldBy_Cons le_max_iff_disj)
qed (simp add: heldBy_Cons)

lemma heldBy_record:
  "heldBy x v (recordPendingSubGenBumps ss m w p) \<longleftrightarrow> (x \<in> set ss \<and> v \<le> w) \<or> heldBy x v p"
  unfolding recordPendingSubGenBumps_def by (induction ss arbitrary: p) (auto simp: heldBy_merge)

lemma heldBy_restore: "heldBy x v (restorePendingSubGenBumps tk p) \<longleftrightarrow> heldBy x v tk \<or> heldBy x v p"
  unfolding restorePendingSubGenBumps_def
proof (induction tk arbitrary: p)
  case (Cons e tk)
  obtain y m w where e: "e = (y, m, w)" by (cases e)
  show ?case unfolding e foldl.simps prod.case Cons.IH heldBy_merge heldBy_Cons by blast
qed simp

lemma tookOf_owner: "heldBy x v (tookOf pc) \<Longrightarrow> owner pc"
  by (cases pc) auto

lemma heldBy_flushed:
  "heldBy x v tk \<Longrightarrow> \<exists>w p. (x, w, p) \<in> F \<union> {(y, u, n) | y m u. (y, m, u) \<in> set tk} \<and> v \<le> w"
  unfolding heldBy_def by blast

lemma keptOK_step:
  assumes step: "rebuildStep s s'" and one: "oneOwner s" and ok: "keptOK s"
  shows "keptOK s'"
proof -
  define kept where "kept = (\<lambda>(s :: rebuildState) x v. heldBy x v (rs_pending s) \<or>
     somewhere (\<lambda>pc. heldBy x v (tookOf pc)) (rs_run s) \<or> (\<exists>w p. (x, w, p) \<in> rs_flushed s \<and> v \<le> w))"
  have only: "heldBy x v (tookOf pc)"
    if "rs_run s t = pc" "owner pc" "somewhere (\<lambda>pc. heldBy x v (tookOf pc)) (rs_run s)"
    for t pc x v using only_owner [OF one that(1,2,3)] tookOf_owner by blast
  have mono: "kept s' x v" if k: "kept s x v" for x v
    using step
  proof cases
    case (take t tk p)
    then show ?thesis
      using k by (auto simp: kept_def takePendingSubGenBumps_def intro: somewhere_other)
  next
    case (flush t tk)
    have "heldBy x v (rs_pending s) \<or> heldBy x v tk \<or> (\<exists>w p. (x, w, p) \<in> rs_flushed s \<and> v \<le> w)"
      using k only [OF flush(2)] by (auto simp: kept_def)
    then show ?thesis using flush(1) heldBy_flushed [of x v tk "rs_flushed s"] by (auto simp: kept_def)
  next
    case (panic t pc tk w)
    have "heldBy x v (rs_pending s) \<or> heldBy x v tk \<or> (\<exists>w p. (x, w, p) \<in> rs_flushed s \<and> v \<le> w)"
      using k only [OF panic(2)] panic(3) by (auto simp: kept_def)
    then show ?thesis using panic(1) by (auto simp: kept_def heldBy_restore)
  next
    case (refuse t tk w)
    have "heldBy x v (rs_pending s) \<or> heldBy x v tk \<or> (\<exists>w p. (x, w, p) \<in> rs_flushed s \<and> v \<le> w)"
      using k only [OF refuse(2)] by (auto simp: kept_def)
    then show ?thesis using refuse(1) by (auto simp: kept_def heldBy_restore)
  next
    case (read t tk)
    then show ?thesis using k only [OF read(2)] by (auto simp: kept_def)
  next
    case (store t tk w)
    then show ?thesis using k only [OF store(2)] by (auto simp: kept_def)
  qed (use k in \<open>auto simp: kept_def heldBy_record intro!: somewhere_other\<close>)
  have new: "kept s' x v" if "(x, v) \<in> rs_recorded s'" "(x, v) \<notin> rs_recorded s" for x v
    using step that by (cases rule: rebuildStep.cases) (auto simp: kept_def heldBy_record)
  have iff: "keptOK z \<longleftrightarrow> (\<forall>x v. (x, v) \<in> rs_recorded z \<longrightarrow> kept z x v)" for z
    by (simp add: keptOK_def kept_def)
  show ?thesis using mono new ok unfolding iff by blast
qed

text \<open>Waiting subjects keep a rebuild due.\<close>

fun willTake :: "phase \<Rightarrow> bool" where
  "willTake LTake = True" | "willTake (Mark v None) = True" | "willTake _ = False"

definition pendingDue :: "rebuildState \<Rightarrow> bool" where
  "pendingDue s \<longleftrightarrow> rs_pending s = [] \<or> rs_dirty s \<or> somewhere willTake (rs_run s)"

lemma pendingDue_step:
  assumes step: "rebuildStep s s'" and ok: "pendingDue s"
  shows "pendingDue s'"
  using step
proof cases
  case (refuse t tk v)
  then show ?thesis using ok
    by (cases tk) (auto simp: pendingDue_def restorePendingSubGenBumps_def intro!: somewhere_other)
qed (use ok in \<open>auto simp: pendingDue_def takePendingSubGenBumps_def intro!: somewhere_other\<close>)

section \<open>Every reachable state\<close>

definition rebuildOK :: "rebuildState \<Rightarrow> bool" where
  "rebuildOK s \<longleftrightarrow> oneOwner s \<and> slotHeld s \<and> wakeOK s \<and> contentOK s \<and> coverOK s \<and> latestMarked s \<and>
     keptOK s \<and> pendingDue s"

lemma rebuildOK_start: "rebuildOK (startRebuild sg)"
  by (simp add: rebuildOK_def startRebuild_def oneOwner_def slotHeld_def wakeOK_def contentOK_def
      coverOK_def latestMarked_def keptOK_def pendingDue_def)

lemma rebuildOK_step: "rebuildStep s s' \<Longrightarrow> rebuildOK s \<Longrightarrow> rebuildOK s'"
  unfolding rebuildOK_def
  using oneOwner_step slotHeld_step wakeOK_step contentOK_step coverOK_step latestMarked_step
    keptOK_step pendingDue_step by blast

lemma rebuildReachable_OK: "rebuildReachable s \<Longrightarrow> rebuildOK s"
  by (induction rule: rebuildReachable.induct) (auto intro: rebuildOK_start rebuildOK_step)

definition quiescent :: "rebuildState \<Rightarrow> bool" where
  "quiescent s \<longleftrightarrow> (\<forall>t. rs_run s t = Idle)"

lemma quiescent_nowhere: "quiescent s \<Longrightarrow> \<not> P Idle \<Longrightarrow> \<not> somewhere P (rs_run s)"
  by (simp add: quiescent_def somewhere_def)

text \<open>One role edit that concerns the group devs, delivered, published and flushed.\<close>

lemma exRebuild:
  "\<exists>s. rebuildReachable s \<and> quiescent s \<and> rs_version s = 1 \<and> (groupKey ''devs'', 1) \<in> rs_recorded s \<and>
     (groupKey ''devs'', 1, 1) \<in> rs_flushed s"
proof -
  fix sg
  define s1 where "s1 = at 0 (Mark 1 (Some ([groupKey ''devs''], 1))) ((startRebuild sg)\<lparr>rs_version := 1\<rparr>)"
  define s2 where "s2 = at 0 (Cas 1 (Some ([groupKey ''devs''], 1))) (markDirty 1 s1)"
  define s3 where "s3 = at 1 LClear (at 0 (After 1 (Some ([groupKey ''devs''], 1))) (s2\<lparr>rs_locked := True\<rparr>))"
  define s4 where "s4 = at 0 (Mark 1 None) (recordStep [groupKey ''devs''] 1 1 s3)"
  define s5 where "s5 = at 0 (Cas 1 None) (markDirty 1 s4)"
  define s6 where "s6 = at 0 (After 1 None) s5"
  define s7 where "s7 = at 0 Idle s6"
  define s8 where "s8 = at 1 LTake (s7\<lparr>rs_dirty := False\<rparr>)"
  define s9 where "s9 = at 1 (LRead [(groupKey ''devs'', 1, 1)]) (s8\<lparr>rs_pending := []\<rparr>)"
  define s10 where "s10 = at 1 (LStore [(groupKey ''devs'', 1, 1)] 1) s9"
  define s11 where "s11 = at 1 (LFlush [(groupKey ''devs'', 1, 1)]) (s10\<lparr>rs_seq := 1, rs_published := 1\<rparr>)"
  define s12 where "s12 = at 1 LCheck (flushStep [(groupKey ''devs'', 1, 1)] s11)"
  define s13 where "s13 = at 1 LRelease s12"
  define s14 where "s14 = at 1 LRecheck (s13\<lparr>rs_locked := False\<rparr>)"
  define s15 where "s15 = at 1 Idle s14"
  note defs = s1_def s2_def s3_def s4_def s5_def s6_def s7_def s8_def s9_def s10_def s11_def s12_def s13_def s14_def s15_def startRebuild_def
    recordPendingSubGenBumps_def takePendingSubGenBumps_def
  have "rebuildStep (startRebuild sg) s1"
    using rebuildStep.event [of "startRebuild sg" 0 "Some ([groupKey ''devs''], 1)"] by (simp add: s1_def startRebuild_def)
  from rebuildReachable.step [OF rebuildReachable.start this] have r1: "rebuildReachable s1" .
  have r2: "rebuildReachable s2" unfolding s2_def
    by (rule rebuildReachable.step [OF r1 rebuildStep.mark]) (simp_all add: defs)
  have r3: "rebuildReachable s3" unfolding s3_def
    by (rule rebuildReachable.step [OF r2 rebuildStep.win]) (simp_all add: defs)
  have r4: "rebuildReachable s4" unfolding s4_def
    by (rule rebuildReachable.step [OF r3 rebuildStep.pend]) (simp_all add: defs)
  have r5: "rebuildReachable s5" unfolding s5_def
    by (rule rebuildReachable.step [OF r4 rebuildStep.mark]) (simp_all add: defs)
  have r6: "rebuildReachable s6" unfolding s6_def
    by (rule rebuildReachable.step [OF r5 rebuildStep.lose]) (simp_all add: defs)
  have r7: "rebuildReachable s7" unfolding s7_def
    by (rule rebuildReachable.step [OF r6 rebuildStep.done_handler [where src = 0]]) (simp add: defs, simp)
  have r8: "rebuildReachable s8" unfolding s8_def
    by (rule rebuildReachable.step [OF r7 rebuildStep.clear]) (simp_all add: defs)
  have r9: "rebuildReachable s9" unfolding s9_def
    by (rule rebuildReachable.step [OF r8 rebuildStep.take]) (simp_all add: defs)
  have "rebuildStep s9 s10"
    using rebuildStep.read [of s9 1 "[(groupKey ''devs'', 1, 1)]"] by (simp add: defs)
  from rebuildReachable.step [OF r9 this] have r10: "rebuildReachable s10" .
  have seq: "rs_seq s10 = 0" by (simp add: defs at_def markDirty_def recordStep_def)
  have "rebuildStep s10 s11"
    using rebuildStep.store [of s10 1 "[(groupKey ''devs'', 1, 1)]" 1] by (simp add: seq s11_def) (simp add: s10_def)
  from rebuildReachable.step [OF r10 this] have r11: "rebuildReachable s11" .
  have r12: "rebuildReachable s12" unfolding s12_def
    by (rule rebuildReachable.step [OF r11 rebuildStep.flush]) (simp_all add: defs)
  have r13: "rebuildReachable s13" unfolding s13_def
    by (rule rebuildReachable.step [OF r12 rebuildStep.check_done]) (simp_all add: defs)
  have r14: "rebuildReachable s14" unfolding s14_def
    by (rule rebuildReachable.step [OF r13 rebuildStep.release]) (simp_all add: defs)
  have r15: "rebuildReachable s15" unfolding s15_def
    by (rule rebuildReachable.step [OF r14 rebuildStep.recheck_done]) (simp_all add: defs)
  have "quiescent s15" "rs_version s15 = 1" "(groupKey ''devs'', 1) \<in> rs_recorded s15"
    "(groupKey ''devs'', 1, 1) \<in> rs_flushed s15"
    by (auto simp: quiescent_def defs)
  with r15 show ?thesis by blast
qed

section \<open>Properties\<close>

text \<open>C22: A key never rotates before the content it stands for: whenever a subject recorded for an event
  was flushed, the snapshot published at that moment had been read after the event, in every
  interleaving of handlers, rebuilds and panics.\<close>

theorem flush_follows_content:
  assumes "rebuildReachable s" "(x, event, content) \<in> rs_flushed s"
  shows "event \<le> content"
  using rebuildReachable_OK [OF assms(1)] assms(2) unfolding rebuildOK_def contentOK_def by force

lemma flush_follows_content_witness: "\<exists>s. rebuildReachable s \<and> (groupKey ''devs'', 1, 1) \<in> rs_flushed s \<and> (1::nat) \<le> 1"
proof -
  obtain s where s: "rebuildReachable s" "(groupKey ''devs'', 1, 1) \<in> rs_flushed s" using exRebuild by blast
  show ?thesis using s flush_follows_content [OF s] by (intro exI conjI)
qed

text \<open>C23: No event and no recorded subject is lost: when no goroutine is left running, the slot is free,
  nothing is dirty or pending, the published snapshot has the content of every event ever delivered
  (unless the publish counter wrapped and a publish was refused), and every recorded subject was
  flushed.\<close>

theorem quiescent_all_published:
  assumes "rebuildReachable s" "quiescent s"
  shows "\<not> rs_dirty s \<and> \<not> rs_locked s \<and> rs_pending s = [] \<and>
    (rs_refused s \<or> rs_published s = rs_version s) \<and>
    (\<forall>x v. (x, v) \<in> rs_recorded s \<longrightarrow> (\<exists>w p. (x, w, p) \<in> rs_flushed s \<and> v \<le> w))"
proof -
  have inv: "slotHeld s" "wakeOK s" "contentOK s" "coverOK s" "latestMarked s" "keptOK s" "pendingDue s"
    using rebuildReachable_OK [OF assms(1)] unfolding rebuildOK_def by blast+
  note no = quiescent_nowhere [OF assms(2)]
  have clean: "\<not> rs_dirty s" "\<not> rs_locked s"
    using inv(1,2) no [of owner] no [of waker] unfolding slotHeld_def wakeOK_def by simp_all
  have pending: "rs_pending s = []" using inv(7) clean no [of willTake] by (simp add: pendingDue_def)
  have "rs_marked s = rs_version s" using inv(5) no unfolding latestMarked_def by auto
  moreover have "rs_refused s \<or> rs_marked s \<le> rs_published s"
    using inv(4) clean no [of "covers (rs_marked s)"] by (auto simp: coverOK_def)
  moreover have "rs_published s \<le> rs_version s" using inv(3) by (simp add: contentOK_def)
  moreover have "\<exists>w p. (x, w, p) \<in> rs_flushed s \<and> v \<le> w" if "(x, v) \<in> rs_recorded s" for x v
    using inv(6) that pending no [of "\<lambda>pc. heldBy x v (tookOf pc)"] by (auto simp: keptOK_def)
  ultimately show ?thesis using clean pending by auto
qed

lemma quiescent_all_published_witness:
  "\<exists>s. rebuildReachable s \<and> quiescent s \<and> rs_version s = 1 \<and> (rs_refused s \<or> rs_published s = 1)"
  using exRebuild quiescent_all_published by metis

text \<open>At most one goroutine is ever in the rebuild, and only while the slot is held; and a dirty
  snapshot always has somebody left to look at it.\<close>

theorem one_rebuilder_and_wakeup:
  assumes "rebuildReachable s"
  shows "(\<forall>t u. owner (rs_run s t) \<longrightarrow> owner (rs_run s u) \<longrightarrow> t = u \<and> rs_locked s) \<and>
    (rs_dirty s \<longrightarrow> (\<exists>t. waker (rs_run s t)))"
  using rebuildReachable_OK [OF assms]
  unfolding rebuildOK_def oneOwner_def wakeOK_def somewhere_def by blast

lemma one_rebuilder_and_wakeup_witness:
  "\<exists>s. rebuildReachable s \<and> rs_version s = 1 \<and> (rs_dirty s \<longrightarrow> (\<exists>t. waker (rs_run s t)))"
  using exRebuild one_rebuilder_and_wakeup by blast

text \<open>The waits of a rebuild that keeps panicking double from 10 ms and settle at 5 s, but the tenth
  wait is 5.12 s, longer than the 5 s bound the comment states.\<close>

theorem panic_backoff_overshoots:
  "map (\<lambda>n. (nextRBACRebuildPanicBackoff ^^ Suc n) 0) [0..<10] =
     map (\<lambda>ms. ms * millisecond) [10, 20, 40, 80, 160, 320, 640, 1280, 2560, 5120] \<and>
   5 * second < 5120 * millisecond \<and>
   (\<forall>n. (nextRBACRebuildPanicBackoff ^^ (11 + n)) 0 = 5 * second)"
proof -
  have stays: "(nextRBACRebuildPanicBackoff ^^ n) (5 * second) = 5 * second" for n
    by (induction n) (simp_all add: nextRBACRebuildPanicBackoff_def second_def)
  have eleven: "(nextRBACRebuildPanicBackoff ^^ 11) 0 = 5 * second"
    by (simp add: eval_nat_numeral nextRBACRebuildPanicBackoff_def second_def millisecond_def)
  have "(nextRBACRebuildPanicBackoff ^^ (11 + n)) 0 = 5 * second" for n
    by (simp only: add.commute [of 11] funpow_add o_apply eleven stays)
  moreover have "map (\<lambda>n. (nextRBACRebuildPanicBackoff ^^ Suc n) 0) [0..<10] =
      map (\<lambda>ms. ms * millisecond) [10, 20, 40, 80, 160, 320, 640, 1280, 2560, 5120]"
    by code_simp
  moreover have "5 * second < 5120 * millisecond" by (simp add: second_def millisecond_def)
  ultimately show ?thesis by blast
qed

end
