(* ===== verification/RBACRulesEqual.thy ===== *)
theory RBACRulesEqual
  imports RBACSubGen
begin

text \<open>
  When an informer update rotates nobody (cache/rbac\_role\_rules\_equal.go,
  cache/rbac\_binding\_noop\_counters.go, cache/rbac\_role\_noop\_counters.go): the order-insensitive
  comparison of two rule lists through their canonical strings, and of the two sides of a binding
  update.

  The lemmas say what a skip is worth: the canonical strings determine what the rules permit as long
  as no value holds a separator and no list is the one empty string, and two sides that compare
  equal name the same requesters and the same role.
\<close>

section \<open>Rules\<close>

text \<open>\<open>strings.Join\<close> with a one-byte separator.\<close>

fun joinWith :: "char \<Rightarrow> gostring list \<Rightarrow> gostring" where
  "joinWith c [] = []"
| "joinWith c [x] = x"
| "joinWith c (x # y # ys) = x @ c # joinWith c (y # ys)"

abbreviation US :: char where "US \<equiv> CHR 0x1F"
abbreviation RS :: char where "RS \<equiv> CHR 0x1E"

definition sortedJoin :: "gostring list \<Rightarrow> gostring" where
  "sortedJoin ss = joinWith US (sort ss)"

definition canonRule :: "PolicyRule \<Rightarrow> gostring" where
  "canonRule r = sortedJoin (rule_verbs r) @ RS # sortedJoin (rule_apigroups r) @
     RS # sortedJoin (rule_resources r) @ RS # sortedJoin (rule_resourcenames r) @
     RS # sortedJoin (rule_nonresourceurls r)"

definition canonRules :: "PolicyRule list \<Rightarrow> gostring list" where
  "canonRules rules = sort (map canonRule rules)"

definition policyRulesEqual :: "PolicyRule list \<Rightarrow> PolicyRule list \<Rightarrow> bool" where
  "policyRulesEqual a b \<longleftrightarrow> (if length a \<noteq> length b then False else canonRules a = canonRules b)"

definition plain :: "gostring list \<Rightarrow> bool" where
  "plain ss \<longleftrightarrow> (\<forall>s\<in>set ss. US \<notin> set s \<and> RS \<notin> set s)"

lemma plain_sort [simp]: "plain (sort ss) = plain ss"
  by (simp add: plain_def)

lemma plain_Cons [simp]: "plain (s # ss) \<longleftrightarrow> US \<notin> set s \<and> RS \<notin> set s \<and> plain ss"
  by (simp add: plain_def)

lemma joinWith_free: "plain ss \<Longrightarrow> RS \<notin> set (joinWith US ss)"
  by (induction US ss rule: joinWith.induct) simp_all

lemma joinWith_empty: "joinWith c ss = [] \<longleftrightarrow> ss = [] \<or> ss = [[]]"
  by (cases "(c, ss)" rule: joinWith.cases) simp_all

lemma joinWith_inj_nonempty:
  "plain xs \<Longrightarrow> plain ys \<Longrightarrow> xs \<noteq> [] \<Longrightarrow> ys \<noteq> [] \<Longrightarrow> joinWith US xs = joinWith US ys \<Longrightarrow> xs = ys"
proof (induction US xs arbitrary: ys rule: joinWith.induct)
  case (2 x)
  then have "cutAt US (joinWith US ys) = None" by (simp add: cutAt_None flip: 2(5))
  with 2 show ?case by (cases "(US, ys)" rule: joinWith.cases) (auto simp: cutAt_append)
next
  case (3 x y xs)
  then have cut: "cutAt US (joinWith US ys) = Some (x, joinWith US (y # xs))"
    by (simp add: cutAt_append flip: 3(6))
  show ?case
  proof (cases "(US, ys)" rule: joinWith.cases)
    case (2 c z)
    then show ?thesis using cut 3(3) cutAt_None [of US z] by simp
  next
    case (3 c z w zs)
    then have "x = z" "joinWith US (y # xs) = joinWith US (w # zs)"
      using cut "3.prems" by (simp_all add: cutAt_append)
    then show ?thesis using "3.hyps" [of "w # zs"] "3.prems" 3 by simp
  qed (use 3 in simp)
qed simp

lemma joinWith_inj:
  assumes "plain xs" "plain ys" "joinWith US xs = joinWith US ys"
  shows "xs = ys \<or> {xs, ys} = {[], [[]]}"
proof (cases "xs = [] \<or> ys = []")
  case True
  then show ?thesis using assms(3) joinWith_empty [of US xs] joinWith_empty [of US ys] by auto
next
  case False
  then show ?thesis using joinWith_inj_nonempty assms by blast
qed

lemma sort_is_singleton: "sort xs = [x] \<longleftrightarrow> xs = [x]"
proof
  assume "sort xs = [x]"
  then have "length xs = 1" "set xs = {x}" using length_sort [of "\<lambda>x. x" xs] set_sort [of "\<lambda>x. x" xs] by simp_all
  then show "xs = [x]" by (cases xs) simp_all
qed simp

lemma sort_is_Nil: "sort xs = [] \<longleftrightarrow> xs = []"
  by (metis length_sort length_0_conv)

text \<open>Two lists with the same canonical string have the same elements, unless one is empty and the
  other is the empty string alone.\<close>

lemma sortedJoin_inj:
  assumes "plain xs" "plain ys" "sortedJoin xs = sortedJoin ys"
  shows "set xs = set ys \<and> (xs = [] \<longleftrightarrow> ys = []) \<or> {xs, ys} = {[], [[]]}"
proof -
  have "sort xs = sort ys \<or> {sort xs, sort ys} = {[], [[]]}"
    using joinWith_inj [of "sort xs" "sort ys"] assms by (simp add: sortedJoin_def)
  then show ?thesis
  proof
    assume "sort xs = sort ys"
    then show ?thesis by (metis set_sort sort_is_Nil)
  next
    assume "{sort xs, sort ys} = {[], [[]]}"
    then show ?thesis by (auto simp: doubleton_eq_iff sort_is_singleton sort_is_Nil)
  qed
qed

text \<open>
  What the API server's validation of a rule gives (no empty verb or resource list entries, an
  empty group list only on a rule with no resources), together with values free of the two
  separators and no resource name that is the empty string alone.
\<close>

definition ordinaryRule :: "PolicyRule \<Rightarrow> bool" where
  "ordinaryRule r \<longleftrightarrow> plain (rule_verbs r) \<and> plain (rule_apigroups r) \<and> plain (rule_resources r) \<and>
     plain (rule_resourcenames r) \<and> plain (rule_nonresourceurls r) \<and>
     rule_verbs r \<noteq> [[]] \<and> rule_resources r \<noteq> [[]] \<and> rule_resourcenames r \<noteq> [[]] \<and>
     (rule_apigroups r = [] \<longrightarrow> rule_resources r = [])"

lemma cut_canon:
  "RS \<notin> set p \<Longrightarrow> RS \<notin> set q \<Longrightarrow> p @ RS # r = q @ RS # s \<Longrightarrow> p = q \<and> r = s"
  by (metis cutAt_append option.inject prod.inject)

lemma canonRule_parts:
  assumes "ordinaryRule a" "ordinaryRule b" "canonRule a = canonRule b"
  shows "sortedJoin (rule_verbs a) = sortedJoin (rule_verbs b)"
    "sortedJoin (rule_apigroups a) = sortedJoin (rule_apigroups b)"
    "sortedJoin (rule_resources a) = sortedJoin (rule_resources b)"
    "sortedJoin (rule_resourcenames a) = sortedJoin (rule_resourcenames b)"
proof -
  have free: "RS \<notin> set (sortedJoin ss)" if "plain ss" for ss
    using joinWith_free [of "sort ss"] that by (simp add: sortedJoin_def)
  note ab = assms(1,2) [unfolded ordinaryRule_def]
  have 1: "sortedJoin (rule_verbs a) = sortedJoin (rule_verbs b) \<and>
      sortedJoin (rule_apigroups a) @ RS # sortedJoin (rule_resources a) @
        RS # sortedJoin (rule_resourcenames a) @ RS # sortedJoin (rule_nonresourceurls a) =
      sortedJoin (rule_apigroups b) @ RS # sortedJoin (rule_resources b) @
        RS # sortedJoin (rule_resourcenames b) @ RS # sortedJoin (rule_nonresourceurls b)"
    by (rule cut_canon) (use ab free assms(3) in \<open>simp_all add: canonRule_def\<close>)
  have 2: "sortedJoin (rule_apigroups a) = sortedJoin (rule_apigroups b) \<and>
      sortedJoin (rule_resources a) @ RS # sortedJoin (rule_resourcenames a) @ RS # sortedJoin (rule_nonresourceurls a) =
      sortedJoin (rule_resources b) @ RS # sortedJoin (rule_resourcenames b) @ RS # sortedJoin (rule_nonresourceurls b)"
    by (rule cut_canon) (use ab free 1 in simp_all)
  have 3: "sortedJoin (rule_resources a) = sortedJoin (rule_resources b) \<and>
      sortedJoin (rule_resourcenames a) @ RS # sortedJoin (rule_nonresourceurls a) =
      sortedJoin (rule_resourcenames b) @ RS # sortedJoin (rule_nonresourceurls b)"
    by (rule cut_canon) (use ab free 2 in simp_all)
  have 4: "sortedJoin (rule_resourcenames a) = sortedJoin (rule_resourcenames b) \<and>
      sortedJoin (rule_nonresourceurls a) = sortedJoin (rule_nonresourceurls b)"
    by (rule cut_canon) (use ab free 3 in simp_all)
  show "sortedJoin (rule_verbs a) = sortedJoin (rule_verbs b)"
    "sortedJoin (rule_apigroups a) = sortedJoin (rule_apigroups b)"
    "sortedJoin (rule_resources a) = sortedJoin (rule_resources b)"
    "sortedJoin (rule_resourcenames a) = sortedJoin (rule_resourcenames b)"
    using 1 2 3 4 by blast+
qed

lemma ruleAllows_canon:
  assumes "ordinaryRule a" "ordinaryRule b" "canonRule a = canonRule b"
  shows "ruleAllows a opts \<longleftrightarrow> ruleAllows b opts"
proof -
  note parts = canonRule_parts [OF assms]
  note ab = assms(1,2) [unfolded ordinaryRule_def]
  have dims: "set (rule_verbs a) = set (rule_verbs b)" "set (rule_resources a) = set (rule_resources b)"
    "set (rule_resourcenames a) = set (rule_resourcenames b)"
    "rule_resourcenames a = [] \<longleftrightarrow> rule_resourcenames b = []"
    using sortedJoin_inj [OF _ _ parts(1)] sortedJoin_inj [OF _ _ parts(3)] sortedJoin_inj [OF _ _ parts(4)] ab
    by (auto simp: doubleton_eq_iff)
  have "set (rule_apigroups a) = set (rule_apigroups b) \<or> rule_resources a = [] \<or> rule_resources b = []"
    using sortedJoin_inj [OF _ _ parts(2)] ab by (auto simp: doubleton_eq_iff)
  then show ?thesis
  proof (elim disjE)
    assume "rule_resources a = []"
    with dims(2) show ?thesis by (simp add: ruleAllows_def)
  next
    assume "rule_resources b = []"
    with dims(2) show ?thesis by (simp add: ruleAllows_def)
  qed (simp add: ruleAllows_def dims)
qed

lemma policyRulesEqual_permit:
  assumes "policyRulesEqual a b" "\<forall>r\<in>set a \<union> set b. ordinaryRule r"
  shows "rulesPermit a opts \<longleftrightarrow> rulesPermit b opts"
proof -
  have "canonRules a = canonRules b" using assms(1) by (simp add: policyRulesEqual_def split: if_splits)
  then have sets: "canonRule ` set a = canonRule ` set b"
    unfolding canonRules_def by (metis set_map set_sort)
  have "rulesPermit y opts" if xy: "rulesPermit x opts" "canonRule ` set x = canonRule ` set y"
    "\<forall>r\<in>set x \<union> set y. ordinaryRule r" for x y
  proof -
    obtain r where r: "r \<in> set x" "ruleAllows r opts" using xy(1) by (auto simp: rulesPermit_iff)
    then obtain r' where r': "r' \<in> set y" "canonRule r = canonRule r'" using xy(2) by (metis imageE imageI)
    with r xy(3) have "ruleAllows r' opts" using ruleAllows_canon [of r r'] by blast
    with r' show ?thesis by (auto simp: rulesPermit_iff)
  qed
  from this [of a b] this [of b a] show ?thesis using sets assms(2) by blast
qed

section \<open>Sides of a binding update\<close>

record bindingUpdateSide =
  bs_kind :: gostring
  bs_rv :: gostring
  bs_uid :: gostring
  bs_namespace :: gostring
  bs_roleRef :: RoleRef
  bs_subjects :: "subjectKey list"

definition noSide :: bindingUpdateSide where
  "noSide = \<lparr>bs_kind = [], bs_rv = [], bs_uid = [], bs_namespace = [],
     bs_roleRef = \<lparr>ref_apigroup = [], ref_kind = [], ref_name = []\<rparr>, bs_subjects = []\<rparr>"

definition crbSide :: "ClusterRoleBinding \<Rightarrow> bindingUpdateSide" where
  "crbSide o' = \<lparr>bs_kind = ''ClusterRoleBinding'', bs_rv = crb_rv o', bs_uid = crb_uid o', bs_namespace = [],
     bs_roleRef = crb_roleref o', bs_subjects = subjectsFromRBAC (crb_subjects o')\<rparr>"

definition rbSide :: "RoleBinding \<Rightarrow> bindingUpdateSide" where
  "rbSide o' = \<lparr>bs_kind = ''RoleBinding'', bs_rv = rb_rv o', bs_uid = rb_uid o', bs_namespace = rb_ns o',
     bs_roleRef = rb_roleref o', bs_subjects = subjectsFromRBAC (rb_subjects o')\<rparr>"

text \<open>\<open>compareSubjectKey\<close> orders by kind, then name, then namespace.\<close>

definition compareSubjectKey :: "subjectKey \<Rightarrow> gostring \<times> gostring \<times> gostring" where
  "compareSubjectKey x = (sk_kind x, sk_name x, sk_ns x)"

definition subjectSetsEqual :: "subjectKey list \<Rightarrow> subjectKey list \<Rightarrow> bool" where
  "subjectSetsEqual a b \<longleftrightarrow>
     (if length a \<noteq> length b then False
      else if length a = 0 then True
      else sort_key compareSubjectKey a = sort_key compareSubjectKey b)"

definition bindingUpdateSemanticallyUnchanged :: "bindingUpdateSide \<Rightarrow> bindingUpdateSide \<Rightarrow> bool" where
  "bindingUpdateSemanticallyUnchanged oldSide newSide \<longleftrightarrow>
     (if bs_kind oldSide = [] \<or> bs_kind newSide = [] \<or> bs_kind oldSide \<noteq> bs_kind newSide then False
      else if bs_uid oldSide \<noteq> bs_uid newSide then False
      else bs_namespace oldSide = bs_namespace newSide \<and> bs_roleRef oldSide = bs_roleRef newSide \<and>
        subjectSetsEqual (bs_subjects oldSide) (bs_subjects newSide))"

record noopCounters =
  nc_bindingNoop :: "64 word"
  nc_bindingSemanticNoop :: "64 word"
  nc_bindingUidChanged :: "64 word"
  nc_roleUpdates :: "64 word"
  nc_roleNoop :: "64 word"
  nc_roleSemanticNoop :: "64 word"

definition recordBindingUpdateNoop ::
  "bindingUpdateSide \<Rightarrow> bindingUpdateSide \<Rightarrow> noopCounters \<Rightarrow> noopCounters" where
  "recordBindingUpdateNoop oldSide newSide c =
     (if bs_kind oldSide = [] \<or> bs_kind newSide = [] \<or> bs_kind oldSide \<noteq> bs_kind newSide then c
      else if bs_rv oldSide \<noteq> [] \<and> bs_rv oldSide = bs_rv newSide then
        c\<lparr>nc_bindingNoop := nc_bindingNoop c + 1, nc_bindingSemanticNoop := nc_bindingSemanticNoop c + 1\<rparr>
      else if bs_uid oldSide \<noteq> bs_uid newSide then
        c\<lparr>nc_bindingUidChanged := nc_bindingUidChanged c + 1\<rparr>
      else if bindingUpdateSemanticallyUnchanged oldSide newSide then
        c\<lparr>nc_bindingSemanticNoop := nc_bindingSemanticNoop c + 1\<rparr>
      else c)"

record roleUpdateSide =
  rs_kind :: gostring
  rs_rv :: gostring
  rs_rules :: "PolicyRule list"

definition recordRoleUpdateNoop :: "roleUpdateSide \<Rightarrow> roleUpdateSide \<Rightarrow> noopCounters \<Rightarrow> noopCounters" where
  "recordRoleUpdateNoop oldSide newSide c =
     (if rs_kind oldSide = [] \<or> rs_kind newSide = [] \<or> rs_kind oldSide \<noteq> rs_kind newSide then c
      else
        (let c = c\<lparr>nc_roleUpdates := nc_roleUpdates c + 1\<rparr> in
         if rs_rv oldSide \<noteq> [] \<and> rs_rv oldSide = rs_rv newSide then
           c\<lparr>nc_roleNoop := nc_roleNoop c + 1, nc_roleSemanticNoop := nc_roleSemanticNoop c + 1\<rparr>
         else if policyRulesEqual (rs_rules oldSide) (rs_rules newSide) then
           c\<lparr>nc_roleSemanticNoop := nc_roleSemanticNoop c + 1\<rparr>
         else c))"

lemma subjectSetsEqual_set: "subjectSetsEqual a b \<Longrightarrow> set a = set b"
  unfolding subjectSetsEqual_def by (metis length_0_conv set_sort)

text \<open>A binding's subjects matter through their keys only.\<close>

definition keyNames :: "subjectKey \<Rightarrow> EvaluateOptions \<Rightarrow> bool" where
  "keyNames k opts = subjectNames \<lparr>sub_kind = sk_kind k, sub_name = sk_name k, sub_ns = sk_ns k\<rparr> opts"

lemma subjectNames_keys:
  "(\<exists>s\<in>set ss. subjectNames s opts) \<longleftrightarrow> (\<exists>k\<in>set (subjectsFromRBAC ss). keyNames k opts)"
proof -
  have one: "subjectNames s opts \<longleftrightarrow> (\<exists>k\<in>set (subjectsFromRBAC [s]). keyNames k opts)" for s
    by (auto simp: subjectsFromRBAC_def List.map_filter_def keyNames_def subjectNames_def)
  have split: "set (subjectsFromRBAC ss) = (\<Union>s\<in>set ss. set (subjectsFromRBAC [s]))"
    by (induction ss) (auto simp: subjectsFromRBAC_def List.map_filter_def)
  show ?thesis unfolding split using one by blast
qed

section \<open>Properties\<close>

text \<open>A role update the comparison calls unchanged changes no verdict: for rules as the API server
  admits them, with no separator byte in a value and no resource-name list that is the empty string
  alone, equal canonical forms permit exactly the same actions.\<close>

theorem policyRulesEqual_same_verdicts:
  assumes "policyRulesEqual a b" "\<forall>r\<in>set a \<union> set b. ordinaryRule r"
  shows "rulesPermit a opts \<longleftrightarrow> rulesPermit b opts"
  by (rule policyRulesEqual_permit [OF assms])

definition exNamed :: "gostring list \<Rightarrow> PolicyRule" where
  "exNamed names = \<lparr>rule_verbs = [''get''], rule_apigroups = [[]], rule_resources = [''pods''],
     rule_resourcenames = names, rule_nonresourceurls = []\<rparr>"

lemma policyRulesEqual_same_verdicts_witness:
  "policyRulesEqual [exNamed [''a''], exNamed [''b'']] [exNamed [''b''], exNamed [''a'']] \<and>
   (\<forall>opts. rulesPermit [exNamed [''a''], exNamed [''b'']] opts = rulesPermit [exNamed [''b''], exNamed [''a'']] opts)"
proof -
  have eq: "policyRulesEqual [exNamed [''a''], exNamed [''b'']] [exNamed [''b''], exNamed [''a'']]"
    by (auto simp: policyRulesEqual_def canonRules_def)
  have ok: "\<forall>r\<in>set [exNamed [''a''], exNamed [''b'']] \<union> set [exNamed [''b''], exNamed [''a'']]. ordinaryRule r"
    by (simp add: ordinaryRule_def exNamed_def plain_def)
  show ?thesis using eq policyRulesEqual_same_verdicts [OF eq ok] by blast
qed

text \<open>A binding update that rotates nobody changes nobody's access: the two sides have the same role
  reference, name the same subjects and match the same requesters.\<close>

theorem binding_skip_is_sound:
  "(bindingUpdateSemanticallyUnchanged (crbSide c) (crbSide c') \<longrightarrow>
      crb_roleref c = crb_roleref c' \<and>
      set (subjectsFromRBAC (crb_subjects c)) = set (subjectsFromRBAC (crb_subjects c')) \<and>
      (\<forall>snap opts. crbGrants snap opts c \<longleftrightarrow> crbGrants snap opts c')) \<and>
   (bindingUpdateSemanticallyUnchanged (rbSide r) (rbSide r') \<longrightarrow>
      rb_ns r = rb_ns r' \<and> rb_roleref r = rb_roleref r' \<and>
      set (subjectsFromRBAC (rb_subjects r)) = set (subjectsFromRBAC (rb_subjects r')) \<and>
      (\<forall>snap opts. rbGrants snap opts r \<longleftrightarrow> rbGrants snap opts r'))"
proof (intro conjI impI)
  assume u: "bindingUpdateSemanticallyUnchanged (crbSide c) (crbSide c')"
  then show keys: "set (subjectsFromRBAC (crb_subjects c)) = set (subjectsFromRBAC (crb_subjects c'))"
    and ref: "crb_roleref c = crb_roleref c'"
    by (auto simp: bindingUpdateSemanticallyUnchanged_def crbSide_def dest: subjectSetsEqual_set split: if_splits)
  then show "\<forall>snap opts. crbGrants snap opts c \<longleftrightarrow> crbGrants snap opts c'"
    by (simp add: crbGrants_def subjectNames_keys)
next
  assume u: "bindingUpdateSemanticallyUnchanged (rbSide r) (rbSide r')"
  then show "rb_ns r = rb_ns r'" and keys: "set (subjectsFromRBAC (rb_subjects r)) = set (subjectsFromRBAC (rb_subjects r'))"
    and ref: "rb_roleref r = rb_roleref r'"
    by (auto simp: bindingUpdateSemanticallyUnchanged_def rbSide_def dest: subjectSetsEqual_set split: if_splits)
  then show "\<forall>snap opts. rbGrants snap opts r \<longleftrightarrow> rbGrants snap opts r'"
    by (simp add: rbGrants_def subjectNames_keys)
qed

text \<open>Alice and the group devs, listed the other way round by a later write.\<close>

definition exReordered :: ClusterRoleBinding where
  "exReordered = exCRB\<lparr>crb_rv := ''20'', crb_subjects := rev (crb_subjects exCRB)\<rparr>"

lemma binding_skip_is_sound_witness: "\<forall>snap opts. crbGrants snap opts exCRB \<longleftrightarrow> crbGrants snap opts exReordered"
proof -
  have "bindingUpdateSemanticallyUnchanged (crbSide exCRB) (crbSide exReordered)"
    by (simp add: bindingUpdateSemanticallyUnchanged_def crbSide_def exReordered_def ex_objects subjectsFromRBAC_def
        List.map_filter_def subjectSetsEqual_def compareSubjectKey_def)
      (auto simp: not_less order.order_iff_strict)
  then show ?thesis using binding_skip_is_sound [of exCRB exReordered] by blast
qed

end
