(* ===== verification/RBACBindings.thy ===== *)
theory RBACBindings
  imports RBACRulesEqual
begin

text \<open>
  The reverse index from resources to bindings (cache/bindings\_by\_gvr.go) and the informer hooks
  that keep it (cache/bindings\_by\_gvr\_delta.go, cache/rbac\_subgen\_epoch.go): the one full build
  over a published snapshot, the deltas of every later event, and the subjects each event records for
  rotation.

  A map of sets is a function to sets (a set not made yet reads as empty), except \<open>byRole\<close>, which
  the code ranges over and which is therefore an association list. The subjects handed to
  \<open>recordPendingSubGenBumps\<close> are a set with a source; the calls are logged in order.
\<close>

section \<open>State\<close>

record groupResource =
  gr_group :: gostring
  gr_resource :: gostring

record GroupVersionResource =
  gvr_group :: gostring
  gvr_version :: gostring
  gvr_resource :: gostring

definition grFromGVR :: "GroupVersionResource \<Rightarrow> groupResource" where
  "grFromGVR gvr = \<lparr>gr_group = gvr_group gvr, gr_resource = gvr_resource gvr\<rparr>"

type_synonym bindingID = gostring

record bindingsByGVRIndex =
  byGVR :: "groupResource \<Rightarrow> bindingID set"
  wildcard :: "bindingID set"
  byRole :: "(gostring \<times> bindingID set) list"
  entries :: "bindingID \<rightharpoonup> subjectKey list"
  roleRefUnresolved :: "bindingID set"
  navigated :: "groupResource set"
  built :: bool
  pendingNavigated :: "GroupVersionResource list option"

text \<open>The index with the process-wide state its operations touch.\<close>

record bindingsState =
  bn_idx :: bindingsByGVRIndex
  bn_subgens :: subgens
  bn_eventSeenPreBuild :: bool
  bn_deferred :: "64 word"
  bn_recorded :: "(subjectKey set \<times> 8 word) list"
  bn_noops :: noopCounters
  bn_nonTyped :: "64 word"

definition roleSet :: "(gostring \<times> bindingID set) list \<Rightarrow> gostring \<Rightarrow> bindingID set" where
  "roleSet m rk = (case map_of m rk of None \<Rightarrow> {} | Some s \<Rightarrow> s)"

lemma roleSet_Nil [simp]: "roleSet [] rk = {}"
  by (simp add: roleSet_def)

lemma roleSet_aput [simp]: "roleSet (aput m k s) rk = (if k = rk then s else roleSet m rk)"
  by (simp add: roleSet_def)

section \<open>Role references\<close>

definition crbBindingID :: "ClusterRoleBinding \<Rightarrow> bindingID" where
  "crbBindingID p = BindingUIDFromCRB (Some p)"

definition rbBindingID :: "RoleBinding \<Rightarrow> bindingID" where
  "rbBindingID p = BindingUIDFromRB (Some p)"

definition roleRefKey :: "gostring \<Rightarrow> RoleRef \<Rightarrow> gostring" where
  "roleRefKey namespace ref =
     (if ref_kind ref = ''ClusterRole'' then ''C/'' @ ref_name ref
      else if ref_kind ref = ''Role'' then ''R/'' @ namespace @ ''/'' @ ref_name ref
      else [])"

definition noRef :: RoleRef where
  "noRef = \<lparr>ref_apigroup = [], ref_kind = [], ref_name = []\<rparr>"

definition parseRoleRefKey :: "gostring \<Rightarrow> gostring \<times> RoleRef" where
  "parseRoleRefKey rk =
     (if length rk > 2 \<and> take 2 rk = ''C/'' then ([], noRef\<lparr>ref_kind := ''ClusterRole'', ref_name := drop 2 rk\<rparr>)
      else if length rk > 2 \<and> take 2 rk = ''R/'' then
        (case cutAt CHR ''/'' (drop 2 rk) of
           Some (ns, name) \<Rightarrow> (ns, noRef\<lparr>ref_kind := ''Role'', ref_name := name\<rparr>)
         | None \<Rightarrow> ([], noRef))
      else ([], noRef))"

definition rulesForRoleRef :: "RBACSnapshot option \<Rightarrow> gostring \<Rightarrow> RoleRef \<Rightarrow> PolicyRule list option" where
  "rulesForRoleRef snap namespace ref =
     (case snap of None \<Rightarrow> None
      | Some snap \<Rightarrow>
          if ref_kind ref = ''ClusterRole'' then
            (case ClusterRolesByName snap (ref_name ref) of None \<Rightarrow> None | Some cr \<Rightarrow> Some (cr_rules cr))
          else if ref_kind ref = ''Role'' then
            (if namespace = [] then None
             else (case RolesByNSName snap (namespace @ ''/'' @ ref_name ref) of
                     None \<Rightarrow> None | Some r \<Rightarrow> Some (role_rules r)))
          else None)"

definition rbacWildcardMatches :: "gostring list \<Rightarrow> gostring \<Rightarrow> bool" where
  "rbacWildcardMatches allowed want \<longleftrightarrow> (\<exists>a\<in>set allowed. a = ''*'' \<or> a = want)"

fun rulesGrantGetList :: "PolicyRule list \<Rightarrow> groupResource \<Rightarrow> bool" where
  "rulesGrantGetList [] gr = False"
| "rulesGrantGetList (rule # rules) gr =
     (if rule_resourcenames rule \<noteq> [] then rulesGrantGetList rules gr
      else if \<not> rbacWildcardMatches (rule_verbs rule) ''get'' \<and> \<not> rbacWildcardMatches (rule_verbs rule) ''list''
        then rulesGrantGetList rules gr
      else if \<not> rbacWildcardMatches (rule_apigroups rule) (gr_group gr) then rulesGrantGetList rules gr
      else if \<not> rbacWildcardMatches (rule_resources rule) (gr_resource gr) then rulesGrantGetList rules gr
      else True)"

definition sliceHasStar :: "gostring list \<Rightarrow> bool" where
  "sliceHasStar s \<longleftrightarrow> (\<exists>v\<in>set s. v = ''*'')"

fun rulesGrantWildcard :: "PolicyRule list \<Rightarrow> bool" where
  "rulesGrantWildcard [] = False"
| "rulesGrantWildcard (rule # rules) =
     (if rule_resourcenames rule \<noteq> [] then rulesGrantWildcard rules
      else if (rbacWildcardMatches (rule_verbs rule) ''get'' \<or> rbacWildcardMatches (rule_verbs rule) ''list'') \<and>
              sliceHasStar (rule_apigroups rule) \<and> sliceHasStar (rule_resources rule) then True
      else rulesGrantWildcard rules)"

section \<open>Enrol and unrol\<close>

text \<open>The bucket part of an enrolment: the wildcard bucket, or every navigated bucket it grants.\<close>

definition routeByRules :: "bindingID \<Rightarrow> PolicyRule list \<Rightarrow> bindingsByGVRIndex \<Rightarrow> bindingsByGVRIndex" where
  "routeByRules id' rules idx =
     (if rulesGrantWildcard rules then idx\<lparr>wildcard := insert id' (wildcard idx)\<rparr>
      else idx\<lparr>byGVR := (\<lambda>gr. if gr \<in> navigated idx \<and> rulesGrantGetList rules gr
                              then insert id' (byGVR idx gr) else byGVR idx gr)\<rparr>)"

definition refer :: "gostring \<Rightarrow> bindingID \<Rightarrow> bindingsByGVRIndex \<Rightarrow> bindingsByGVRIndex" where
  "refer rk id' idx =
     (if rk \<noteq> [] then idx\<lparr>byRole := aput (byRole idx) rk (insert id' (roleSet (byRole idx) rk))\<rparr> else idx)"

definition enrolLocked ::
  "bindingID \<Rightarrow> subjectKey list \<Rightarrow> PolicyRule list \<Rightarrow> gostring \<Rightarrow> bindingsByGVRIndex \<Rightarrow> bindingsByGVRIndex" where
  "enrolLocked id' subjects rules rk idx =
     (let idx = idx\<lparr>entries := (entries idx)(id' \<mapsto> subjects)\<rparr>;
          idx = refer rk id' idx
      in routeByRules id' rules idx)"

definition unrolLocked :: "bindingID \<Rightarrow> gostring \<Rightarrow> bindingsByGVRIndex \<Rightarrow> bindingsByGVRIndex" where
  "unrolLocked id' rk idx =
     (let idx = idx\<lparr>wildcard := wildcard idx - {id'}, byGVR := (\<lambda>gr. byGVR idx gr - {id'})\<rparr>;
          idx = (if rk \<noteq> [] then
                   (case map_of (byRole idx) rk of None \<Rightarrow> idx
                    | Some s \<Rightarrow> idx\<lparr>byRole := aput (byRole idx) rk (s - {id'})\<rparr>)
                 else idx)
      in idx\<lparr>entries := (entries idx)(id' := None)\<rparr>)"

section \<open>The full build\<close>

definition rotateIfRBACEventSeenPreBuild :: "bindingsState \<Rightarrow> bindingsState" where
  "rotateIfRBACEventSeenPreBuild st =
     (if \<not> bn_eventSeenPreBuild st then st
      else st\<lparr>bn_eventSeenPreBuild := False,
              bn_subgens := (bn_subgens st)\<lparr>sg_epoch := sg_epoch (bn_subgens st) + 1\<rparr>\<rparr>)"

text \<open>One binding of the snapshot: enrolled, or noted as skipped.\<close>

definition buildOne ::
  "RBACSnapshot \<Rightarrow> bindingID \<Rightarrow> gostring \<Rightarrow> RoleRef \<Rightarrow> Subject list \<Rightarrow>
     bindingsByGVRIndex \<times> nat \<Rightarrow> bindingsByGVRIndex \<times> nat" where
  "buildOne snap id' ns ref subjects acc =
     (case acc of (idx, enrolled) \<Rightarrow>
        (case rulesForRoleRef (Some snap) ns ref of
           None \<Rightarrow> (idx\<lparr>roleRefUnresolved := insert id' (roleRefUnresolved idx)\<rparr>, enrolled)
         | Some rules \<Rightarrow>
             (enrolLocked id' (subjectsFromRBAC subjects) rules (roleRefKey ns ref) idx, enrolled + 1)))"

definition buildCRB ::
  "RBACSnapshot \<Rightarrow> bindingsByGVRIndex \<times> nat \<Rightarrow> ClusterRoleBinding option \<Rightarrow> bindingsByGVRIndex \<times> nat" where
  "buildCRB snap acc p = (case p of None \<Rightarrow> acc
     | Some crb \<Rightarrow> buildOne snap (crbBindingID crb) [] (crb_roleref crb) (crb_subjects crb) acc)"

definition buildRB ::
  "RBACSnapshot \<Rightarrow> gostring \<Rightarrow> bindingsByGVRIndex \<times> nat \<Rightarrow> RoleBinding option \<Rightarrow> bindingsByGVRIndex \<times> nat" where
  "buildRB snap ns acc p = (case p of None \<Rightarrow> acc
     | Some rb \<Rightarrow> buildOne snap (rbBindingID rb) ns (rb_roleref rb) (rb_subjects rb) acc)"

definition BuildBindingsByGVRIndex ::
  "GroupVersionResource list \<Rightarrow> RBACSnapshot option \<Rightarrow> bindingsState \<Rightarrow> bindingsState \<times> nat" where
  "BuildBindingsByGVRIndex navigatedGVRs snap st =
     (let wasBuilt = built (bn_idx st);
          idx = (bn_idx st)\<lparr>byGVR := (\<lambda>_. {}), wildcard := {}, byRole := [], entries := Map.empty,
                  navigated := grFromGVR ` set navigatedGVRs, roleRefUnresolved := {}\<rparr>
      in case snap of
           None \<Rightarrow> (st\<lparr>bn_idx := idx\<lparr>built := False, pendingNavigated := Some navigatedGVRs\<rparr>,
                       bn_deferred := bn_deferred st + 1\<rparr>, 0)
         | Some snap \<Rightarrow>
             (let idx = idx\<lparr>pendingNavigated := None\<rparr>;
                  acc = foldl (buildCRB snap) (idx, 0) (ClusterRoleBindings snap);
                  acc = foldl (\<lambda>acc e. foldl (buildRB snap (fst e)) acc (snd e)) acc (RoleBindingsByNS snap)
              in case acc of (idx, enrolled) \<Rightarrow>
                   let st = st\<lparr>bn_idx := idx\<lparr>built := True\<rparr>\<rparr>
                   in (if \<not> wasBuilt then rotateIfRBACEventSeenPreBuild st else st, enrolled)))"

definition requestBindingsIndexBuild :: "GroupVersionResource list \<Rightarrow> bindingsState \<Rightarrow> bindingsState" where
  "requestBindingsIndexBuild navigatedGVRs st =
     (if built (bn_idx st) \<or> pendingNavigated (bn_idx st) \<noteq> None then st
      else st\<lparr>bn_idx := (bn_idx st)\<lparr>pendingNavigated := Some navigatedGVRs\<rparr>, bn_deferred := bn_deferred st + 1\<rparr>)"

definition buildPendingBindingsIndex :: "RBACSnapshot option \<Rightarrow> bindingsState \<Rightarrow> bindingsState" where
  "buildPendingBindingsIndex snap st =
     (case pendingNavigated (bn_idx st) of None \<Rightarrow> st
      | Some pending \<Rightarrow> if built (bn_idx st) then st else fst (BuildBindingsByGVRIndex pending snap st))"

definition IsRoleRefUnresolvedAtBuild :: "gostring \<Rightarrow> bindingsByGVRIndex \<Rightarrow> bool" where
  "IsRoleRefUnresolvedAtBuild bindingUID idx \<longleftrightarrow>
     (if bindingUID = [] then False else bindingUID \<in> roleRefUnresolved idx)"

definition rulesForEntryLocked ::
  "RBACSnapshot option \<Rightarrow> bindingID \<Rightarrow> bindingsByGVRIndex \<Rightarrow> PolicyRule list option" where
  "rulesForEntryLocked snap id' idx =
     (case find (\<lambda>e. id' \<in> snd e) (byRole idx) of None \<Rightarrow> None
      | Some (rk, _) \<Rightarrow> (case parseRoleRefKey rk of (ns, ref) \<Rightarrow> rulesForRoleRef snap ns ref))"

definition AddNavigatedGVR ::
  "GroupVersionResource \<Rightarrow> RBACSnapshot option \<Rightarrow> bindingsByGVRIndex \<Rightarrow> bindingsByGVRIndex" where
  "AddNavigatedGVR gvr snap idx =
     (let gr = grFromGVR gvr in
      if gr \<in> navigated idx then idx
      else
        (let idx = idx\<lparr>navigated := insert gr (navigated idx)\<rparr>;
             idx = (case pendingNavigated idx of
                      Some ps \<Rightarrow> if \<not> built idx then idx\<lparr>pendingNavigated := Some (ps @ [gvr])\<rparr> else idx
                    | None \<Rightarrow> idx)
         in if snap = None then idx
            else idx\<lparr>byGVR := (byGVR idx)(gr := byGVR idx gr \<union>
                   {id' \<in> dom (entries idx). id' \<notin> wildcard idx \<and>
                      (case rulesForEntryLocked snap id' idx of
                         None \<Rightarrow> False | Some rules \<Rightarrow> rulesGrantGetList rules gr)})\<rparr>))"

section \<open>The informer hooks\<close>

text \<open>
  What an RBAC informer hands over: a typed pointer, an object the defensive conversion may turn into
  one, or a tombstone of a delete it missed. The conversion is library code.
\<close>

datatype 'u eventObj =
    EvCRB ClusterRoleBinding
  | EvRB RoleBinding
  | EvCR ClusterRole
  | EvRole Role
  | EvOther 'u
  | EvTomb "'u eventObj"

definition asCRB :: "'u converters \<Rightarrow> 'u eventObj \<Rightarrow> ClusterRoleBinding option" where
  "asCRB conv obj = (case obj of EvCRB p \<Rightarrow> Some p | EvOther u \<Rightarrow> convertUnstructuredCRB conv u | _ \<Rightarrow> None)"

definition asRB :: "'u converters \<Rightarrow> 'u eventObj \<Rightarrow> RoleBinding option" where
  "asRB conv obj = (case obj of EvRB p \<Rightarrow> Some p | EvOther u \<Rightarrow> convertUnstructuredRB conv u | _ \<Rightarrow> None)"

definition asCR :: "'u converters \<Rightarrow> 'u eventObj \<Rightarrow> ClusterRole option" where
  "asCR conv obj = (case obj of EvCR p \<Rightarrow> Some p | EvOther u \<Rightarrow> convertUnstructuredCR conv u | _ \<Rightarrow> None)"

definition asRole :: "'u converters \<Rightarrow> 'u eventObj \<Rightarrow> Role option" where
  "asRole conv obj = (case obj of EvRole p \<Rightarrow> Some p | EvOther u \<Rightarrow> convertUnstructuredR conv u | _ \<Rightarrow> None)"

fun unwrapTomb :: "'u eventObj \<Rightarrow> 'u eventObj" where
  "unwrapTomb (EvTomb obj) = obj"
| "unwrapTomb obj = obj"

definition deltaDropNonTyped :: "bindingsState \<Rightarrow> bindingsState" where
  "deltaDropNonTyped st = st\<lparr>bn_nonTyped := bn_nonTyped st + 1\<rparr>"

definition recordBumps :: "subjectKey set \<Rightarrow> 8 word \<Rightarrow> bindingsState \<Rightarrow> bindingsState" where
  "recordBumps subjects src st =
     (if subjects = {} then st else st\<lparr>bn_recorded := bn_recorded st @ [(subjects, src)]\<rparr>)"

definition bumpSrcBindingAdd :: "8 word" where "bumpSrcBindingAdd = 1"
definition bumpSrcBindingUpdate :: "8 word" where "bumpSrcBindingUpdate = 2"
definition bumpSrcBindingDelete :: "8 word" where "bumpSrcBindingDelete = 4"
definition bumpSrcRoleAdd :: "8 word" where "bumpSrcRoleAdd = 8"
definition bumpSrcRoleUpdate :: "8 word" where "bumpSrcRoleUpdate = 16"
definition bumpSrcRoleDelete :: "8 word" where "bumpSrcRoleDelete = 32"

definition deltaActive :: "bindingsState \<Rightarrow> bool" where
  "deltaActive st = built (bn_idx st)"

definition applyBindingAdd ::
  "RBACSnapshot option \<Rightarrow> gostring \<Rightarrow> RoleRef \<Rightarrow> bindingID \<Rightarrow> subjectKey list \<Rightarrow> bindingsState \<Rightarrow> bindingsState" where
  "applyBindingAdd snap namespace ref id' subjects st =
     (let rk = roleRefKey namespace ref; idx = bn_idx st in
      case rulesForRoleRef snap namespace ref of
        None \<Rightarrow> st\<lparr>bn_idx := refer rk id' (idx\<lparr>entries := (entries idx)(id' \<mapsto> subjects)\<rparr>)\<rparr>
      | Some rules \<Rightarrow> st\<lparr>bn_idx := enrolLocked id' subjects rules rk idx\<rparr>)"

definition applyBindingDelete :: "bindingID \<Rightarrow> gostring \<Rightarrow> bindingsState \<Rightarrow> bindingsState" where
  "applyBindingDelete id' rk st = st\<lparr>bn_idx := unrolLocked id' rk (bn_idx st)\<rparr>"

definition onBindingAdd :: "'u converters \<Rightarrow> RBACSnapshot option \<Rightarrow> 'u eventObj \<Rightarrow> bindingsState \<Rightarrow> bindingsState" where
  "onBindingAdd conv snap obj st =
     (if \<not> deltaActive st then st
      else case asCRB conv obj of
        Some b \<Rightarrow>
          (let subj = subjectsFromRBAC (crb_subjects b) in
           recordBumps (set subj) bumpSrcBindingAdd (applyBindingAdd snap [] (crb_roleref b) (crbBindingID b) subj st))
      | None \<Rightarrow>
          (case asRB conv obj of
             Some b \<Rightarrow>
               (let subj = subjectsFromRBAC (rb_subjects b) in
                recordBumps (set subj) bumpSrcBindingAdd
                  (applyBindingAdd snap (rb_ns b) (rb_roleref b) (rbBindingID b) subj st))
           | None \<Rightarrow> deltaDropNonTyped st))"

text \<open>The old half and the new half of an update; each gives its side for the comparison.\<close>

definition updateOld :: "'u converters \<Rightarrow> 'u eventObj \<Rightarrow> bindingsState \<Rightarrow> bindingUpdateSide \<times> bindingsState" where
  "updateOld conv obj st =
     (case asCRB conv obj of
        Some b \<Rightarrow> (crbSide b, applyBindingDelete (crbBindingID b) (roleRefKey [] (crb_roleref b)) st)
      | None \<Rightarrow>
          (case asRB conv obj of
             Some b \<Rightarrow> (rbSide b, applyBindingDelete (rbBindingID b) (roleRefKey (rb_ns b) (rb_roleref b)) st)
           | None \<Rightarrow> (noSide, deltaDropNonTyped st)))"

definition updateNew ::
  "'u converters \<Rightarrow> RBACSnapshot option \<Rightarrow> 'u eventObj \<Rightarrow> bindingsState \<Rightarrow> bindingUpdateSide \<times> bindingsState" where
  "updateNew conv snap obj st =
     (case asCRB conv obj of
        Some b \<Rightarrow> (crbSide b,
          applyBindingAdd snap [] (crb_roleref b) (crbBindingID b) (subjectsFromRBAC (crb_subjects b)) st)
      | None \<Rightarrow>
          (case asRB conv obj of
             Some b \<Rightarrow> (rbSide b,
               applyBindingAdd snap (rb_ns b) (rb_roleref b) (rbBindingID b) (subjectsFromRBAC (rb_subjects b)) st)
           | None \<Rightarrow> (noSide, deltaDropNonTyped st)))"

definition onBindingUpdate ::
  "'u converters \<Rightarrow> RBACSnapshot option \<Rightarrow> 'u eventObj \<Rightarrow> 'u eventObj \<Rightarrow> bindingsState \<Rightarrow> bindingsState" where
  "onBindingUpdate conv snap oldObj newObj st =
     (if \<not> deltaActive st then st
      else
        (case updateOld conv oldObj st of (oldSide, st) \<Rightarrow>
         case updateNew conv snap newObj st of (newSide, st) \<Rightarrow>
           (let st = (if \<not> bindingUpdateSemanticallyUnchanged oldSide newSide then
                        recordBumps (set (bs_subjects newSide)) bumpSrcBindingUpdate
                          (recordBumps (set (bs_subjects oldSide)) bumpSrcBindingUpdate st)
                      else st)
            in st\<lparr>bn_noops := recordBindingUpdateNoop oldSide newSide (bn_noops st)\<rparr>)))"

definition onBindingDelete :: "'u converters \<Rightarrow> 'u eventObj \<Rightarrow> bindingsState \<Rightarrow> bindingsState" where
  "onBindingDelete conv obj st =
     (if \<not> deltaActive st then st
      else
        (let obj = unwrapTomb obj in
         case asCRB conv obj of
           Some b \<Rightarrow> recordBumps (set (subjectsFromRBAC (crb_subjects b))) bumpSrcBindingDelete
                        (applyBindingDelete (crbBindingID b) (roleRefKey [] (crb_roleref b)) st)
         | None \<Rightarrow>
             (case asRB conv obj of
                Some b \<Rightarrow> recordBumps (set (subjectsFromRBAC (rb_subjects b))) bumpSrcBindingDelete
                             (applyBindingDelete (rbBindingID b) (roleRefKey (rb_ns b) (rb_roleref b)) st)
              | None \<Rightarrow> deltaDropNonTyped st)))"

text \<open>One referencing binding, moved to the buckets of the new rules.\<close>

definition rerouteOne :: "PolicyRule list \<Rightarrow> bindingsByGVRIndex \<Rightarrow> bindingID \<Rightarrow> bindingsByGVRIndex" where
  "rerouteOne rules idx id' =
     (if entries idx id' = None then idx
      else routeByRules id' rules
        (idx\<lparr>wildcard := wildcard idx - {id'}, byGVR := (\<lambda>gr. byGVR idx gr - {id'})\<rparr>))"

definition subjectsOf :: "bindingsByGVRIndex \<Rightarrow> bindingID \<Rightarrow> subjectKey set" where
  "subjectsOf idx id' = (case entries idx id' of None \<Rightarrow> {} | Some ss \<Rightarrow> set ss)"

definition onRoleRulesChanged ::
  "8 word \<Rightarrow> gostring \<Rightarrow> gostring \<Rightarrow> gostring \<Rightarrow> PolicyRule list \<Rightarrow> bool \<Rightarrow> bindingsState \<Rightarrow> bindingsState" where
  "onRoleRulesChanged source roleKind namespace name rules skipBump st =
     (if \<not> deltaActive st then st
      else
        (let idx = bn_idx st;
             rk = (if roleKind = ''ClusterRole'' then Some (''C/'' @ name)
                   else if roleKind = ''Role'' then Some (''R/'' @ namespace @ ''/'' @ name) else None)
         in case rk of None \<Rightarrow> st
         | Some rk \<Rightarrow>
             if roleSet (byRole idx) rk = {} then st
             else
               (let ids = sorted_list_of_set (roleSet (byRole idx) rk);
                    changed = (\<Union>id'\<in>set ids. subjectsOf idx id');
                    st = st\<lparr>bn_idx := foldl (rerouteOne rules) idx ids\<rparr>
                in if changed \<noteq> {} \<and> \<not> skipBump then recordBumps changed source st else st)))"

definition onRoleObjectChanged ::
  "'u converters \<Rightarrow> 8 word \<Rightarrow> 'u eventObj \<Rightarrow> bindingsState \<Rightarrow> bindingsState" where
  "onRoleObjectChanged conv source obj st =
     (if \<not> deltaActive st then st
      else
        (let obj = unwrapTomb obj in
         case asCR conv obj of
           Some r \<Rightarrow> onRoleRulesChanged source ''ClusterRole'' [] (cr_name r) (cr_rules r) False st
         | None \<Rightarrow>
             (case asRole conv obj of
                Some r \<Rightarrow> onRoleRulesChanged source ''Role'' (role_ns r) (role_name r) (role_rules r) False st
              | None \<Rightarrow> deltaDropNonTyped st)))"

definition roleSideOf :: "'u converters \<Rightarrow> 'u eventObj \<Rightarrow> roleUpdateSide" where
  "roleSideOf conv obj =
     (case asCR conv obj of
        Some r \<Rightarrow> \<lparr>rs_kind = ''ClusterRole'', rs_rv = cr_rv r, rs_rules = cr_rules r\<rparr>
      | None \<Rightarrow>
          (case asRole conv obj of
             Some r \<Rightarrow> \<lparr>rs_kind = ''Role'', rs_rv = role_rv r, rs_rules = role_rules r\<rparr>
           | None \<Rightarrow> \<lparr>rs_kind = [], rs_rv = [], rs_rules = []\<rparr>))"

definition onRoleUpdated :: "'u converters \<Rightarrow> 'u eventObj \<Rightarrow> 'u eventObj \<Rightarrow> bindingsState \<Rightarrow> bindingsState" where
  "onRoleUpdated conv oldObj newObj st =
     (if \<not> deltaActive st then st
      else
        (let oldSide = roleSideOf conv oldObj; newSide = roleSideOf conv newObj;
             st = st\<lparr>bn_noops := recordRoleUpdateNoop oldSide newSide (bn_noops st)\<rparr>;
             skip = rs_kind oldSide \<noteq> [] \<and> rs_kind newSide \<noteq> [] \<and> rs_kind oldSide = rs_kind newSide \<and>
                    policyRulesEqual (rs_rules oldSide) (rs_rules newSide)
         in case asCR conv newObj of
              Some r \<Rightarrow> onRoleRulesChanged bumpSrcRoleUpdate ''ClusterRole'' [] (cr_name r) (cr_rules r) skip st
            | None \<Rightarrow>
                (case asRole conv newObj of
                   Some r \<Rightarrow> onRoleRulesChanged bumpSrcRoleUpdate ''Role'' (role_ns r) (role_name r) (role_rules r) skip st
                 | None \<Rightarrow> deltaDropNonTyped st)))"

section \<open>The handler of an RBAC informer\<close>

definition notePreBuildRBACEvent :: "64 word \<Rightarrow> bindingsState \<Rightarrow> bindingsState" where
  "notePreBuildRBACEvent gen st = (if gen > 0 then st\<lparr>bn_eventSeenPreBuild := True\<rparr> else st)"

definition notePreBuildIfNotBuilt :: "64 word \<Rightarrow> bindingsState \<Rightarrow> bindingsState" where
  "notePreBuildIfNotBuilt gen st = (if \<not> built (bn_idx st) then notePreBuildRBACEvent gen st else st)"

definition preBuildUpdateRotates :: "'u converters \<Rightarrow> bool \<Rightarrow> 'u eventObj \<Rightarrow> 'u eventObj \<Rightarrow> bool" where
  "preBuildUpdateRotates conv isBinding oldObj newObj \<longleftrightarrow>
     (if isBinding then
        (case asCRB conv oldObj of
           Some p \<Rightarrow> (case asCRB conv newObj of Some n \<Rightarrow> crb_roleref p \<noteq> crb_roleref n | None \<Rightarrow> True)
         | None \<Rightarrow>
             (case asRB conv oldObj of
                Some p \<Rightarrow> (case asRB conv newObj of Some n \<Rightarrow> rb_roleref p \<noteq> rb_roleref n | None \<Rightarrow> True)
              | None \<Rightarrow> True))
      else
        (let p = roleSideOf conv oldObj; n = roleSideOf conv newObj in
         if rs_kind p = [] \<or> rs_kind n = [] \<or> rs_kind p \<noteq> rs_kind n then True
         else \<not> policyRulesEqual (rs_rules p) (rs_rules n)))"

datatype 'u rbacEvent =
    OnAdd bool "'u eventObj" bool
  | OnUpdate bool "'u eventObj" "'u eventObj"
  | OnDelete bool "'u eventObj"

text \<open>
  \<open>rbacSnapshotHandler\<close> around the functions of \<open>rbacSnapshotEventHandlers\<close>: the first argument of
  an event is \<open>isBinding\<close>, the last of \<open>OnAdd\<close> is \<open>isInInitialList\<close>. The snapshot and the generation
  are the ones published when the event is handled.
\<close>

definition addFunc :: "'u converters \<Rightarrow> RBACSnapshot option \<Rightarrow> bool \<Rightarrow> 'u eventObj \<Rightarrow> bindingsState \<Rightarrow> bindingsState" where
  "addFunc conv snap isBinding obj st =
     (if isBinding then onBindingAdd conv snap obj st else onRoleObjectChanged conv bumpSrcRoleAdd obj st)"

definition updateFunc ::
  "'u converters \<Rightarrow> RBACSnapshot option \<Rightarrow> bool \<Rightarrow> 'u eventObj \<Rightarrow> 'u eventObj \<Rightarrow> bindingsState \<Rightarrow> bindingsState" where
  "updateFunc conv snap isBinding oldObj newObj st =
     (if isBinding then onBindingUpdate conv snap oldObj newObj st else onRoleUpdated conv oldObj newObj st)"

definition deleteFunc :: "'u converters \<Rightarrow> bool \<Rightarrow> 'u eventObj \<Rightarrow> bindingsState \<Rightarrow> bindingsState" where
  "deleteFunc conv isBinding obj st =
     (if isBinding then onBindingDelete conv obj st else onRoleObjectChanged conv bumpSrcRoleDelete obj st)"

fun handleRBAC ::
  "'u converters \<Rightarrow> RBACSnapshot option \<Rightarrow> 64 word \<Rightarrow> 'u rbacEvent \<Rightarrow> bindingsState \<Rightarrow> bindingsState" where
  "handleRBAC conv snap gen (OnAdd isBinding obj isInInitialList) st =
     addFunc conv snap isBinding obj
       (if \<not> isBinding \<and> \<not> isInInitialList then notePreBuildIfNotBuilt gen st else st)"
| "handleRBAC conv snap gen (OnUpdate isBinding oldObj newObj) st =
     updateFunc conv snap isBinding oldObj newObj
       (if preBuildUpdateRotates conv isBinding oldObj newObj then notePreBuildIfNotBuilt gen st else st)"
| "handleRBAC conv snap gen (OnDelete isBinding obj) st =
     deleteFunc conv isBinding obj (if \<not> isBinding then notePreBuildIfNotBuilt gen st else st)"

definition handleAll ::
  "'u converters \<Rightarrow> (RBACSnapshot option \<times> 64 word \<times> 'u rbacEvent) list \<Rightarrow> bindingsState \<Rightarrow> bindingsState" where
  "handleAll conv evs st = foldl (\<lambda>st (snap, gen, ev). handleRBAC conv snap gen ev st) st evs"

end
