(* ===== verification/RBACDelta.thy ===== *)
theory RBACDelta
  imports RBACBindings RBACExample
begin

text \<open>
  What the binding index promises. The specification follows the informers' events alone: which
  bindings are tracked, and the last rules each role was seen with. The index refines it: its entries
  and role references always cover the tracked bindings, so an event records every subject whose
  access it changes; and as long as the published snapshot is in step, its buckets are those of a
  build from scratch.
\<close>

section \<open>The specification\<close>

record trackedBinding =
  tb_ns :: gostring
  tb_ref :: RoleRef
  tb_subjects :: "subjectKey list"

type_synonym tracking = "bindingID \<rightharpoonup> trackedBinding"

definition trackedCRB :: "ClusterRoleBinding \<Rightarrow> bindingID \<times> trackedBinding" where
  "trackedCRB b = (crbBindingID b,
     \<lparr>tb_ns = [], tb_ref = crb_roleref b, tb_subjects = subjectsFromRBAC (crb_subjects b)\<rparr>)"

definition trackedRB :: "gostring \<Rightarrow> RoleBinding \<Rightarrow> bindingID \<times> trackedBinding" where
  "trackedRB ns b = (rbBindingID b,
     \<lparr>tb_ns = ns, tb_ref = rb_roleref b, tb_subjects = subjectsFromRBAC (rb_subjects b)\<rparr>)"

definition trackedObj :: "'u converters \<Rightarrow> 'u eventObj \<Rightarrow> (bindingID \<times> trackedBinding) option" where
  "trackedObj conv obj = (case asCRB conv obj of Some b \<Rightarrow> Some (trackedCRB b)
     | None \<Rightarrow> map_option (\<lambda>b. trackedRB (rb_ns b) b) (asRB conv obj))"

definition track :: "(bindingID \<times> trackedBinding) option \<Rightarrow> tracking \<Rightarrow> tracking" where
  "track x T = (case x of None \<Rightarrow> T | Some (id', b) \<Rightarrow> T(id' \<mapsto> b))"

definition untrack :: "(bindingID \<times> trackedBinding) option \<Rightarrow> tracking \<Rightarrow> tracking" where
  "untrack x T = (case x of None \<Rightarrow> T | Some (id', b) \<Rightarrow> T(id' := None))"

fun trackEvent :: "'u converters \<Rightarrow> 'u rbacEvent \<Rightarrow> tracking \<Rightarrow> tracking" where
  "trackEvent conv (OnAdd isBinding obj _) T = (if isBinding then track (trackedObj conv obj) T else T)"
| "trackEvent conv (OnUpdate isBinding old new) T =
     (if isBinding then track (trackedObj conv new) (untrack (trackedObj conv old) T) else T)"
| "trackEvent conv (OnDelete isBinding obj) T =
     (if isBinding then untrack (trackedObj conv (unwrapTomb obj)) T else T)"

text \<open>The bindings of a snapshot, and those a build enrols: the ones whose role it holds.\<close>

definition boundList :: "RBACSnapshot \<Rightarrow> (bindingID \<times> trackedBinding) list" where
  "boundList snap = map trackedCRB (crbsOf snap) @
     concat (map (\<lambda>e. map (trackedRB (fst e)) (List.map_filter id (snd e))) (RoleBindingsByNS snap))"

definition resolves :: "RBACSnapshot \<Rightarrow> bindingID \<times> trackedBinding \<Rightarrow> bool" where
  "resolves snap x \<longleftrightarrow> rulesForRoleRef (Some snap) (tb_ns (snd x)) (tb_ref (snd x)) \<noteq> None"

definition enrolledBy :: "RBACSnapshot \<Rightarrow> tracking" where
  "enrolledBy snap = foldl (\<lambda>T x. track (Some x) T) Map.empty (filter (resolves snap) (boundList snap))"

definition keyOf :: "trackedBinding \<Rightarrow> gostring" where
  "keyOf b = roleRefKey (tb_ns b) (tb_ref b)"

section \<open>The index tracks the bindings\<close>

definition tracks :: "tracking \<Rightarrow> bindingsByGVRIndex \<Rightarrow> bool" where
  "tracks T idx \<longleftrightarrow> entries idx = (\<lambda>id'. map_option tb_subjects (T id')) \<and>
     (\<forall>id' b. T id' = Some b \<longrightarrow> keyOf b \<noteq> [] \<longrightarrow> id' \<in> roleSet (byRole idx) (keyOf b)) \<and>
     (\<forall>rk. finite (roleSet (byRole idx) rk))"

named_theorems index_ops \<open>fields of the index after an operation\<close>

lemma refer_fields [simp]:
  "entries (refer rk i idx) = entries idx" "wildcard (refer rk i idx) = wildcard idx"
  "byGVR (refer rk i idx) = byGVR idx" "navigated (refer rk i idx) = navigated idx"
  "built (refer rk i idx) = built idx" "pendingNavigated (refer rk i idx) = pendingNavigated idx"
  "roleSet (byRole (refer rk i idx)) k =
     (if k = rk \<and> rk \<noteq> [] then insert i (roleSet (byRole idx) k) else roleSet (byRole idx) k)"
  by (simp_all add: refer_def)

lemma routeByRules_fields [simp]:
  "entries (routeByRules i rules idx) = entries idx" "byRole (routeByRules i rules idx) = byRole idx"
  "navigated (routeByRules i rules idx) = navigated idx" "built (routeByRules i rules idx) = built idx"
  "pendingNavigated (routeByRules i rules idx) = pendingNavigated idx"
  "wildcard (routeByRules i rules idx) = (if rulesGrantWildcard rules then insert i (wildcard idx) else wildcard idx)"
  "byGVR (routeByRules i rules idx) gr = (if \<not> rulesGrantWildcard rules \<and> gr \<in> navigated idx \<and> rulesGrantGetList rules gr
      then insert i (byGVR idx gr) else byGVR idx gr)"
  by (simp_all add: routeByRules_def)

lemma enrolLocked_fields [simp]:
  "entries (enrolLocked i ss rules rk idx) = (entries idx)(i \<mapsto> ss)"
  "navigated (enrolLocked i ss rules rk idx) = navigated idx" "built (enrolLocked i ss rules rk idx) = built idx"
  "pendingNavigated (enrolLocked i ss rules rk idx) = pendingNavigated idx"
  "roleSet (byRole (enrolLocked i ss rules rk idx)) k =
     (if k = rk \<and> rk \<noteq> [] then insert i (roleSet (byRole idx) k) else roleSet (byRole idx) k)"
  "wildcard (enrolLocked i ss rules rk idx) =
     (if rulesGrantWildcard rules then insert i (wildcard idx) else wildcard idx)"
  "byGVR (enrolLocked i ss rules rk idx) gr =
     (if \<not> rulesGrantWildcard rules \<and> gr \<in> navigated idx \<and> rulesGrantGetList rules gr
      then insert i (byGVR idx gr) else byGVR idx gr)"
  by (simp_all add: enrolLocked_def Let_def)

lemma unrolLocked_fields [simp]:
  "entries (unrolLocked i rk idx) = (entries idx)(i := None)"
  "navigated (unrolLocked i rk idx) = navigated idx" "built (unrolLocked i rk idx) = built idx"
  "pendingNavigated (unrolLocked i rk idx) = pendingNavigated idx"
  "roleSet (byRole (unrolLocked i rk idx)) k =
     (if k = rk \<and> rk \<noteq> [] then roleSet (byRole idx) k - {i} else roleSet (byRole idx) k)"
  "wildcard (unrolLocked i rk idx) = wildcard idx - {i}"
  "byGVR (unrolLocked i rk idx) gr = byGVR idx gr - {i}"
  by (simp_all add: unrolLocked_def Let_def split: option.split) (auto simp: roleSet_def)

lemma rerouteOne_fields [simp]:
  "entries (rerouteOne rules idx i) = entries idx" "byRole (rerouteOne rules idx i) = byRole idx"
  "navigated (rerouteOne rules idx i) = navigated idx" "built (rerouteOne rules idx i) = built idx"
  "pendingNavigated (rerouteOne rules idx i) = pendingNavigated idx"
  by (simp_all add: rerouteOne_def)

lemma reroute_fields [simp]:
  "entries (foldl (rerouteOne rules) idx ids) = entries idx" "byRole (foldl (rerouteOne rules) idx ids) = byRole idx"
  "navigated (foldl (rerouteOne rules) idx ids) = navigated idx" "built (foldl (rerouteOne rules) idx ids) = built idx"
  "pendingNavigated (foldl (rerouteOne rules) idx ids) = pendingNavigated idx"
  by (induction ids arbitrary: idx) simp_all

lemma tracks_enrol: "tracks T idx \<Longrightarrow> tracks (T(i \<mapsto> b)) (enrolLocked i (tb_subjects b) rules (keyOf b) idx)"
  by (auto simp: tracks_def) metis

lemma tracks_enter:
  "tracks T idx \<Longrightarrow> tracks (T(i \<mapsto> b)) (refer (keyOf b) i (idx\<lparr>entries := (entries idx)(i \<mapsto> tb_subjects b)\<rparr>))"
  by (auto simp: tracks_def) metis

lemma tracks_unrol: "tracks T idx \<Longrightarrow> tracks (T(i := None)) (unrolLocked i rk idx)"
  by (auto simp: tracks_def)

lemma tracks_reroute [simp]: "tracks T (foldl (rerouteOne rules) idx ids) = tracks T idx"
  by (simp add: tracks_def)

lemma tracks_unresolved [simp]: "tracks T (idx\<lparr>roleRefUnresolved := S\<rparr>) = tracks T idx"
  by (simp add: tracks_def)

section \<open>Every handler keeps it\<close>

definition indexOK :: "tracking \<Rightarrow> bindingsState \<Rightarrow> bool" where
  "indexOK T st \<longleftrightarrow> tracks T (bn_idx st) \<and> built (bn_idx st)"

lemma recordBumps_idx [simp]: "bn_idx (recordBumps S src st) = bn_idx st"
  by (simp add: recordBumps_def)
lemma deltaDropNonTyped_idx [simp]: "bn_idx (deltaDropNonTyped st) = bn_idx st"
  by (simp add: deltaDropNonTyped_def)

lemma applyBindingAdd_idx:
  "bn_idx (applyBindingAdd snap ns ref i ss st) =
     (case rulesForRoleRef snap ns ref of
        None \<Rightarrow> refer (roleRefKey ns ref) i ((bn_idx st)\<lparr>entries := (entries (bn_idx st))(i \<mapsto> ss)\<rparr>)
      | Some rules \<Rightarrow> enrolLocked i ss rules (roleRefKey ns ref) (bn_idx st))"
  by (simp add: applyBindingAdd_def Let_def split: option.split)

lemma applyBindingDelete_idx [simp]:
  "bn_idx (applyBindingDelete i rk st) = unrolLocked i rk (bn_idx st)"
  by (simp add: applyBindingDelete_def)

lemma indexOK_add:
  "indexOK T st \<Longrightarrow> indexOK (T(i \<mapsto> \<lparr>tb_ns = ns, tb_ref = ref, tb_subjects = ss\<rparr>)) (applyBindingAdd snap ns ref i ss st)"
  using tracks_enrol [of T "bn_idx st" i "\<lparr>tb_ns = ns, tb_ref = ref, tb_subjects = ss\<rparr>"]
    tracks_enter [of T "bn_idx st" i "\<lparr>tb_ns = ns, tb_ref = ref, tb_subjects = ss\<rparr>"]
  by (simp add: indexOK_def applyBindingAdd_idx keyOf_def split: option.split)

lemma indexOK_delete: "indexOK T st \<Longrightarrow> indexOK (T(i := None)) (applyBindingDelete i rk st)"
  by (simp add: indexOK_def tracks_unrol)

lemma indexOK_record [simp]: "indexOK T (recordBumps S src st) = indexOK T st"
  "indexOK T (deltaDropNonTyped st) = indexOK T st" "indexOK T (st\<lparr>bn_noops := c\<rparr>) = indexOK T st"
  by (simp_all add: indexOK_def)

lemma indexOK_active: "indexOK T st \<Longrightarrow> deltaActive st"
  by (simp add: indexOK_def deltaActive_def)

lemma indexOK_updateOld: "indexOK T st \<Longrightarrow> indexOK (untrack (trackedObj conv obj) T) (snd (updateOld conv obj st))"
  by (auto simp: updateOld_def trackedObj_def trackedCRB_def trackedRB_def untrack_def indexOK_delete split: option.split)

lemma indexOK_updateNew: "indexOK T st \<Longrightarrow> indexOK (track (trackedObj conv obj) T) (snd (updateNew conv snap obj st))"
  by (auto simp: updateNew_def trackedObj_def trackedCRB_def trackedRB_def track_def indexOK_add split: option.split)

lemma indexOK_rules: "indexOK T st \<Longrightarrow> indexOK T (onRoleRulesChanged source kind ns name rules skip st)"
  by (auto simp: onRoleRulesChanged_def Let_def indexOK_def split: option.split)

lemma indexOK_notePreBuild [simp]: "indexOK T st \<Longrightarrow> notePreBuildIfNotBuilt gen st = st"
  by (simp add: indexOK_def notePreBuildIfNotBuilt_def)

lemma indexOK_handle:
  assumes "indexOK T st"
  shows "indexOK (trackEvent conv ev T) (handleRBAC conv snap gen ev st)"
proof (cases ev)
  case (OnAdd isBinding obj init)
  show ?thesis
  proof (cases isBinding)
    case True
    then show ?thesis using assms indexOK_active [OF assms]
      by (auto simp: OnAdd addFunc_def onBindingAdd_def Let_def trackedObj_def trackedCRB_def trackedRB_def track_def
          indexOK_add split: option.split)
  next
    case False
    then show ?thesis using assms indexOK_active [OF assms] indexOK_rules [OF assms]
      by (simp add: OnAdd addFunc_def onRoleObjectChanged_def Let_def split: option.split)
  qed
next
  case (OnUpdate isBinding old new)
  show ?thesis
  proof (cases isBinding)
    case True
    obtain p st1 where 1: "updateOld conv old st = (p, st1)" by (cases "updateOld conv old st")
    obtain n st2 where 2: "updateNew conv snap new st1 = (n, st2)" by (cases "updateNew conv snap new st1")
    have "indexOK (trackEvent conv ev T) st2"
      using indexOK_updateNew [OF indexOK_updateOld [OF assms, of conv old], of conv new snap] 1 2 True OnUpdate by simp
    then show ?thesis using assms indexOK_active [OF assms] True
      by (simp add: OnUpdate updateFunc_def onBindingUpdate_def 1 2 Let_def)
  next
    case False
    then show ?thesis using assms indexOK_active [OF assms] indexOK_rules [of T "st\<lparr>bn_noops := c\<rparr>" for c]
      by (simp add: OnUpdate updateFunc_def onRoleUpdated_def Let_def split: option.split)
  qed
next
  case (OnDelete isBinding obj)
  show ?thesis
  proof (cases isBinding)
    case True
    then show ?thesis using assms indexOK_active [OF assms]
      by (auto simp: OnDelete deleteFunc_def onBindingDelete_def Let_def trackedObj_def trackedCRB_def trackedRB_def
          untrack_def indexOK_delete split: option.split)
  next
    case False
    then show ?thesis using assms indexOK_active [OF assms] indexOK_rules [OF assms]
      by (simp add: OnDelete deleteFunc_def onRoleObjectChanged_def Let_def split: option.split)
  qed
qed


section \<open>What an event records\<close>

definition recordedIn :: "bindingsState \<Rightarrow> bindingsState \<Rightarrow> subjectKey set" where
  "recordedIn st st' = \<Union> (fst ` set (drop (length (bn_recorded st)) (bn_recorded st')))"

lemma recordBumps_recorded [simp]:
  "bn_recorded (recordBumps S src st) = bn_recorded st @ (if S = {} then [] else [(S, src)])"
  by (simp add: recordBumps_def)

lemma ops_recorded [simp]:
  "bn_recorded (applyBindingAdd snap ns ref i ss st) = bn_recorded st"
  "bn_recorded (applyBindingDelete i rk st) = bn_recorded st"
  "bn_recorded (deltaDropNonTyped st) = bn_recorded st"
  by (simp_all add: applyBindingAdd_def applyBindingDelete_def deltaDropNonTyped_def Let_def split: option.split)

text \<open>The access a subject has through the tracked bindings: where, and by which role.\<close>

definition grantsOf :: "tracking \<Rightarrow> subjectKey \<Rightarrow> (gostring \<times> RoleRef) set" where
  "grantsOf T k = {(tb_ns b, tb_ref b) | b. b \<in> ran T \<and> k \<in> set (tb_subjects b)}"

definition grantOf :: "trackedBinding \<Rightarrow> subjectKey \<Rightarrow> (gostring \<times> RoleRef) set" where
  "grantOf b k = (if k \<in> set (tb_subjects b) then {(tb_ns b, tb_ref b)} else {})"

lemma grantsOf_track: "T i = None \<Longrightarrow> grantsOf (T(i \<mapsto> b)) k = grantsOf T k \<union> grantOf b k"
  by (auto simp: grantsOf_def grantOf_def)

lemma grantsOf_untrack: "T i = Some b \<Longrightarrow> grantsOf T k = grantsOf (T(i := None)) k \<union> grantOf b k"
  using grantsOf_track [of "T(i := None)" i b k] by (simp add: fun_upd_idem)

text \<open>
  The old object of an update or a delete is the last one tracked, and an added or new object does not
  take the place of another: what an informer guarantees for objects with UIDs.
\<close>

definition knownAs :: "tracking \<Rightarrow> (bindingID \<times> trackedBinding) option \<Rightarrow> bool" where
  "knownAs T x \<longleftrightarrow> (case x of None \<Rightarrow> True | Some (i, b) \<Rightarrow> T i = Some b)"

definition newTo :: "tracking \<Rightarrow> (bindingID \<times> trackedBinding) option \<Rightarrow> bool" where
  "newTo T x \<longleftrightarrow> (case x of None \<Rightarrow> True | Some (i, b) \<Rightarrow> T i = None)"

fun delivered :: "'u converters \<Rightarrow> 'u rbacEvent \<Rightarrow> tracking \<Rightarrow> bool" where
  "delivered conv (OnAdd isBinding obj _) T = (isBinding \<longrightarrow> newTo T (trackedObj conv obj))"
| "delivered conv (OnUpdate isBinding old new) T =
     (isBinding \<longrightarrow> knownAs T (trackedObj conv old) \<and>
        newTo (untrack (trackedObj conv old) T) (trackedObj conv new))"
| "delivered conv (OnDelete isBinding obj) T = (isBinding \<longrightarrow>
     newTo T (trackedObj conv (unwrapTomb obj)) \<or> knownAs T (trackedObj conv (unwrapTomb obj)))"

lemma track_change:
  "newTo T x \<Longrightarrow> grantsOf (track x T) k \<noteq> grantsOf T k \<Longrightarrow> \<exists>i b. x = Some (i, b) \<and> k \<in> set (tb_subjects b)"
  by (auto simp: newTo_def track_def grantsOf_track grantOf_def split: option.splits if_splits)

lemma untrack_change:
  "knownAs T x \<or> newTo T x \<Longrightarrow> grantsOf (untrack x T) k \<noteq> grantsOf T k \<Longrightarrow>
     \<exists>i b. x = Some (i, b) \<and> k \<in> set (tb_subjects b)"
  by (auto simp: newTo_def knownAs_def untrack_def grantsOf_untrack grantOf_def fun_upd_idem
      split: option.splits if_splits)

lemma add_records:
  assumes "deltaActive st" "trackedObj conv obj = Some (i, b)"
  shows "recordedIn st (onBindingAdd conv snap obj st) = set (tb_subjects b)"
  using assms
  by (auto simp: onBindingAdd_def recordedIn_def trackedObj_def trackedCRB_def trackedRB_def Let_def split: option.splits)

lemma delete_records:
  assumes "deltaActive st" "trackedObj conv (unwrapTomb obj) = Some (i, b)"
  shows "recordedIn st (onBindingDelete conv obj st) = set (tb_subjects b)"
  using assms
  by (auto simp: onBindingDelete_def recordedIn_def trackedObj_def trackedCRB_def trackedRB_def Let_def split: option.splits)

definition sideOf :: "'u converters \<Rightarrow> 'u eventObj \<Rightarrow> bindingUpdateSide" where
  "sideOf conv obj = (case asCRB conv obj of Some b \<Rightarrow> crbSide b
     | None \<Rightarrow> (case asRB conv obj of Some b \<Rightarrow> rbSide b | None \<Rightarrow> noSide))"

lemma updateOld_side: "fst (updateOld conv obj st) = sideOf conv obj"
  "bn_recorded (snd (updateOld conv obj st)) = bn_recorded st"
  by (simp_all add: updateOld_def sideOf_def split: option.split)

lemma updateNew_side: "fst (updateNew conv snap obj st) = sideOf conv obj"
  "bn_recorded (snd (updateNew conv snap obj st)) = bn_recorded st"
  by (simp_all add: updateNew_def sideOf_def split: option.split)

lemma update_records:
  assumes "deltaActive st"
  shows "recordedIn st (onBindingUpdate conv snap old new st) =
    (if bindingUpdateSemanticallyUnchanged (sideOf conv old) (sideOf conv new) then {}
     else set (bs_subjects (sideOf conv old)) \<union> set (bs_subjects (sideOf conv new)))"
proof -
  obtain p st1 where 1: "updateOld conv old st = (p, st1)" by (cases "updateOld conv old st")
  obtain n st2 where 2: "updateNew conv snap new st1 = (n, st2)" by (cases "updateNew conv snap new st1")
  have "p = sideOf conv old" "n = sideOf conv new" "bn_recorded st2 = bn_recorded st"
    using updateOld_side [of conv old st] updateNew_side [of conv snap new st1] 1 2 by simp_all
  then show ?thesis using assms by (simp add: onBindingUpdate_def 1 2 Let_def recordedIn_def)
qed

lemma side_tracked: "trackedObj conv obj = Some (i, b) \<Longrightarrow>
    tb_subjects b = bs_subjects (sideOf conv obj) \<and> tb_ref b = bs_roleRef (sideOf conv obj) \<and>
    tb_ns b = bs_namespace (sideOf conv obj)"
  by (auto simp: trackedObj_def sideOf_def trackedCRB_def trackedRB_def crbSide_def rbSide_def split: option.splits)

lemma unchanged_typed:
  "bindingUpdateSemanticallyUnchanged (sideOf conv old) (sideOf conv new) \<Longrightarrow>
     \<exists>i b j c. trackedObj conv old = Some (i, b) \<and> trackedObj conv new = Some (j, c)"
  by (auto simp: bindingUpdateSemanticallyUnchanged_def sideOf_def trackedObj_def noSide_def
      trackedCRB_def trackedRB_def split: option.splits if_splits)

lemma unchanged_update:
  assumes "bindingUpdateSemanticallyUnchanged (sideOf conv old) (sideOf conv new)"
    "knownAs T (trackedObj conv old)" "newTo (untrack (trackedObj conv old) T) (trackedObj conv new)"
  shows "grantsOf (track (trackedObj conv new) (untrack (trackedObj conv old) T)) k = grantsOf T k"
proof -
  obtain i b j c where o: "trackedObj conv old = Some (i, b)" and n: "trackedObj conv new = Some (j, c)"
    using unchanged_typed [OF assms(1)] by blast
  have "set (bs_subjects (sideOf conv old)) = set (bs_subjects (sideOf conv new))"
    "bs_namespace (sideOf conv old) = bs_namespace (sideOf conv new)"
    "bs_roleRef (sideOf conv old) = bs_roleRef (sideOf conv new)"
    using assms(1) by (auto simp: bindingUpdateSemanticallyUnchanged_def dest: subjectSetsEqual_set split: if_splits)
  then have "grantOf b k = grantOf c k"
    using side_tracked [OF o] side_tracked [OF n] by (simp add: grantOf_def)
  moreover have "T i = Some b" "(T(i := None)) j = None"
    using assms(2,3) by (simp_all add: o n knownAs_def newTo_def untrack_def)
  ultimately show ?thesis
    using grantsOf_untrack [of T i b k] grantsOf_track [of "T(i := None)" j c k]
    by (simp add: o n track_def untrack_def)
qed

lemma event_records:
  assumes ok: "indexOK T st" and del: "delivered conv ev T"
    and diff: "grantsOf (trackEvent conv ev T) k \<noteq> grantsOf T k"
  shows "k \<in> recordedIn st (handleRBAC conv snap gen ev st)"
proof (cases ev)
  case (OnAdd isBinding obj init)
  then have bind: "isBinding" using diff by auto
  then obtain i b where x: "trackedObj conv obj = Some (i, b)" "k \<in> set (tb_subjects b)"
    using track_change [of T "trackedObj conv obj" k] del diff OnAdd by auto
  then show ?thesis using add_records [OF indexOK_active [OF ok] x(1)] bind OnAdd by (simp add: addFunc_def)
next
  case (OnDelete isBinding obj)
  then have bind: "isBinding" using diff by auto
  then obtain i b where x: "trackedObj conv (unwrapTomb obj) = Some (i, b)" "k \<in> set (tb_subjects b)"
    using untrack_change [of T "trackedObj conv (unwrapTomb obj)" k] del diff OnDelete by auto
  then show ?thesis using delete_records [OF indexOK_active [OF ok] x(1)] bind OnDelete by (simp add: deleteFunc_def)
next
  case (OnUpdate isBinding old new)
  then have bind: "isBinding" using diff by auto
  have known: "knownAs T (trackedObj conv old)" "newTo (untrack (trackedObj conv old) T) (trackedObj conv new)"
    using del bind OnUpdate by simp_all
  have changed: "\<not> bindingUpdateSemanticallyUnchanged (sideOf conv old) (sideOf conv new)"
  proof
    assume u: "bindingUpdateSemanticallyUnchanged (sideOf conv old) (sideOf conv new)"
    show False using unchanged_update [OF u known, of k] diff bind OnUpdate by simp
  qed
  have "\<exists>i b. (trackedObj conv old = Some (i, b) \<or> trackedObj conv new = Some (i, b)) \<and> k \<in> set (tb_subjects b)"
    using track_change [OF known(2), of k] untrack_change [of T "trackedObj conv old" k] known(1) diff bind OnUpdate
    by fastforce
  then have "k \<in> set (bs_subjects (sideOf conv old)) \<union> set (bs_subjects (sideOf conv new))"
    using side_tracked by fastforce
  then show ?thesis
    using update_records [OF indexOK_active [OF ok], of conv snap old new] changed bind OnUpdate ok
    by (simp add: updateFunc_def)
qed


section \<open>Role events\<close>

definition roleOf :: "'u converters \<Rightarrow> 'u eventObj \<Rightarrow> (gostring \<times> PolicyRule list) option" where
  "roleOf conv obj = (case asCR conv obj of Some r \<Rightarrow> Some (''C/'' @ cr_name r, cr_rules r)
     | None \<Rightarrow> map_option (\<lambda>r. (''R/'' @ role_ns r @ ''/'' @ role_name r, role_rules r)) (asRole conv obj))"

fun roleChange :: "'u converters \<Rightarrow> 'u rbacEvent \<Rightarrow> (gostring \<times> PolicyRule list) option" where
  "roleChange conv (OnAdd isBinding obj _) = (if isBinding then None else roleOf conv (unwrapTomb obj))"
| "roleChange conv (OnUpdate isBinding old new) = (if isBinding then None else roleOf conv new)"
| "roleChange conv (OnDelete isBinding obj) = (if isBinding then None else roleOf conv (unwrapTomb obj))"

text \<open>An update between two roles of one kind with equal rules.\<close>

fun rulesKept :: "'u converters \<Rightarrow> 'u rbacEvent \<Rightarrow> bool" where
  "rulesKept conv (OnUpdate isBinding old new) \<longleftrightarrow>
     (let p = roleSideOf conv old; n = roleSideOf conv new in
      rs_kind p \<noteq> [] \<and> rs_kind p = rs_kind n \<and> policyRulesEqual (rs_rules p) (rs_rules n))"
| "rulesKept conv _ \<longleftrightarrow> False"

definition boundTo :: "tracking \<Rightarrow> gostring \<Rightarrow> subjectKey set" where
  "boundTo T rk = (\<Union>b\<in>{b \<in> ran T. keyOf b = rk}. set (tb_subjects b))"

definition exactRoles :: "tracking \<Rightarrow> bindingsByGVRIndex \<Rightarrow> bool" where
  "exactRoles T idx \<longleftrightarrow> (\<forall>rk. roleSet (byRole idx) rk = {i. \<exists>b. T i = Some b \<and> keyOf b = rk \<and> rk \<noteq> []})"

text \<open>What \<open>onRoleRulesChanged\<close> does for a role key.\<close>

definition rerouted :: "8 word \<Rightarrow> gostring \<Rightarrow> PolicyRule list \<Rightarrow> bool \<Rightarrow> bindingsState \<Rightarrow> bindingsState" where
  "rerouted source rk rules skip st =
     (let ids = roleSet (byRole (bn_idx st)) rk;
          changed = (\<Union>i\<in>ids. subjectsOf (bn_idx st) i);
          st = st\<lparr>bn_idx := foldl (rerouteOne rules) (bn_idx st) (sorted_list_of_set ids)\<rparr>
      in if skip then st else recordBumps changed source st)"

lemma onRoleRulesChanged_rerouted:
  assumes "indexOK T st"
  shows "onRoleRulesChanged source ''ClusterRole'' ns name rules skip st = rerouted source (''C/'' @ name) rules skip st"
    "onRoleRulesChanged source ''Role'' ns name rules skip st = rerouted source (''R/'' @ ns @ ''/'' @ name) rules skip st"
  using assms indexOK_active [OF assms]
  by (auto simp: onRoleRulesChanged_def rerouted_def Let_def recordBumps_def indexOK_def tracks_def)

lemma role_event_rerouted:
  assumes ok: "indexOK T st" and change: "roleChange conv ev = Some (rk, rules)"
  shows "\<exists>source c. handleRBAC conv snap gen ev st =
    rerouted source rk rules (rulesKept conv ev) (st\<lparr>bn_noops := c\<rparr>)"
proof -
  have same: "st = st\<lparr>bn_noops := bn_noops st\<rparr>" by simp
  note r = onRoleRulesChanged_rerouted [OF ok] indexOK_active [OF ok]
  show ?thesis
  proof (cases ev)
    case (OnAdd isBinding obj init)
    then have nb: "\<not> isBinding" using change by (auto split: if_splits)
    have "handleRBAC conv snap gen ev st = rerouted bumpSrcRoleAdd rk rules False st"
      using change ok nb by (auto simp: OnAdd addFunc_def onRoleObjectChanged_def r roleOf_def Let_def split: option.splits)
    then show ?thesis using same OnAdd by (metis rulesKept.simps(2))
  next
    case (OnDelete isBinding obj)
    then have nb: "\<not> isBinding" using change by (auto split: if_splits)
    have "handleRBAC conv snap gen ev st = rerouted bumpSrcRoleDelete rk rules False st"
      using change ok nb by (auto simp: OnDelete deleteFunc_def onRoleObjectChanged_def r roleOf_def Let_def split: option.splits)
    then show ?thesis using same OnDelete by (metis rulesKept.simps(3))
  next
    case (OnUpdate isBinding old new)
    then have nb: "\<not> isBinding" using change by (auto split: if_splits)
    have ok': "indexOK T (st\<lparr>bn_noops := c\<rparr>)" for c using ok by simp
    have "handleRBAC conv snap gen ev st = rerouted bumpSrcRoleUpdate rk rules (rulesKept conv ev)
        (st\<lparr>bn_noops := recordRoleUpdateNoop (roleSideOf conv old) (roleSideOf conv new) (bn_noops st)\<rparr>)"
      using change ok nb
      by (auto simp: OnUpdate updateFunc_def onRoleUpdated_def onRoleRulesChanged_rerouted [OF ok'] indexOK_active [OF ok]
          roleOf_def Let_def roleSideOf_def split: option.splits)
    then show ?thesis by blast
  qed
qed

lemma rerouted_records:
  assumes "indexOK T st"
  shows "recordedIn st (rerouted source rk rules False (st\<lparr>bn_noops := c\<rparr>)) \<subseteq> (\<Union>b\<in>ran T. set (tb_subjects b))"
    "rk \<noteq> [] \<Longrightarrow> boundTo T rk \<subseteq> recordedIn st (rerouted source rk rules False (st\<lparr>bn_noops := c\<rparr>))"
    "rk \<noteq> [] \<Longrightarrow> exactRoles T (bn_idx st) \<Longrightarrow> recordedIn st (rerouted source rk rules False (st\<lparr>bn_noops := c\<rparr>)) = boundTo T rk"
proof -
  have rec: "recordedIn st (rerouted source rk rules False (st\<lparr>bn_noops := c\<rparr>)) =
      (\<Union>i\<in>roleSet (byRole (bn_idx st)) rk. case T i of None \<Rightarrow> {} | Some b \<Rightarrow> set (tb_subjects b))"
    using assms by (auto simp: rerouted_def Let_def recordedIn_def subjectsOf_def indexOK_def tracks_def split: option.splits)
  have in_rec: "x \<in> recordedIn st (rerouted source rk rules False (st\<lparr>bn_noops := c\<rparr>)) \<longleftrightarrow>
      (\<exists>i b. i \<in> roleSet (byRole (bn_idx st)) rk \<and> T i = Some b \<and> x \<in> set (tb_subjects b))" for x
    unfolding rec by (auto split: option.splits)
  have in_bound: "x \<in> boundTo T rk \<longleftrightarrow> (\<exists>i b. T i = Some b \<and> keyOf b = rk \<and> x \<in> set (tb_subjects b))" for x
    unfolding boundTo_def ran_def by blast
  show "recordedIn st (rerouted source rk rules False (st\<lparr>bn_noops := c\<rparr>)) \<subseteq> (\<Union>b\<in>ran T. set (tb_subjects b))"
    unfolding subset_iff in_rec ran_def by blast
  show "boundTo T rk \<subseteq> recordedIn st (rerouted source rk rules False (st\<lparr>bn_noops := c\<rparr>))" if "rk \<noteq> []"
  proof
    fix x assume "x \<in> boundTo T rk"
    then obtain i b where b: "T i = Some b" "keyOf b = rk" "x \<in> set (tb_subjects b)" unfolding in_bound by blast
    moreover have "i \<in> roleSet (byRole (bn_idx st)) rk"
      using assms b(1,2) that unfolding indexOK_def tracks_def by metis
    ultimately show "x \<in> recordedIn st (rerouted source rk rules False (st\<lparr>bn_noops := c\<rparr>))" unfolding in_rec by blast
  qed
  show "recordedIn st (rerouted source rk rules False (st\<lparr>bn_noops := c\<rparr>)) = boundTo T rk"
    if "rk \<noteq> []" "exactRoles T (bn_idx st)"
  proof -
    have roles: "i \<in> roleSet (byRole (bn_idx st)) rk \<longleftrightarrow> (\<exists>b. T i = Some b \<and> keyOf b = rk)" for i
      using that unfolding exactRoles_def by simp
    show ?thesis unfolding set_eq_iff in_rec in_bound roles by force
  qed
qed


section \<open>The build\<close>

definition buildTracked ::
  "RBACSnapshot \<Rightarrow> bindingsByGVRIndex \<times> nat \<Rightarrow> bindingID \<times> trackedBinding \<Rightarrow> bindingsByGVRIndex \<times> nat" where
  "buildTracked snap acc x =
     (case rulesForRoleRef (Some snap) (tb_ns (snd x)) (tb_ref (snd x)) of
        None \<Rightarrow> ((fst acc)\<lparr>roleRefUnresolved := insert (fst x) (roleRefUnresolved (fst acc))\<rparr>, snd acc)
      | Some rules \<Rightarrow> (enrolLocked (fst x) (tb_subjects (snd x)) rules (keyOf (snd x)) (fst acc), snd acc + 1))"

lemma buildCRB_tracked:
  "foldl (buildCRB snap) acc ps = foldl (buildTracked snap) acc (map trackedCRB (List.map_filter id ps))"
  by (induction ps arbitrary: acc)
    (auto simp: buildCRB_def buildOne_def buildTracked_def trackedCRB_def keyOf_def List.map_filter_def split: option.split prod.split)

lemma buildRB_tracked:
  "foldl (buildRB snap ns) acc ps = foldl (buildTracked snap) acc (map (trackedRB ns) (List.map_filter id ps))"
  by (induction ps arbitrary: acc)
    (auto simp: buildRB_def buildOne_def buildTracked_def trackedRB_def keyOf_def List.map_filter_def split: option.split prod.split)

lemma build_tracked:
  "foldl (\<lambda>acc e. foldl (buildRB snap (fst e)) acc (snd e)) (foldl (buildCRB snap) acc (ClusterRoleBindings snap))
     (RoleBindingsByNS snap) = foldl (buildTracked snap) acc (boundList snap)"
proof -
  have "foldl (\<lambda>acc e. foldl (buildRB snap (fst e)) acc (snd e)) acc es =
      foldl (buildTracked snap) acc (concat (map (\<lambda>e. map (trackedRB (fst e)) (List.map_filter id (snd e))) es))" for acc es
    by (induction es arbitrary: acc) (simp_all add: buildRB_tracked)
  then show ?thesis by (simp add: boundList_def buildCRB_tracked crbsOf_def)
qed

definition resetIndex :: "GroupVersionResource list \<Rightarrow> bindingsByGVRIndex \<Rightarrow> bindingsByGVRIndex" where
  "resetIndex navs idx = idx\<lparr>byGVR := (\<lambda>_. {}), wildcard := {}, byRole := [], entries := Map.empty,
     navigated := grFromGVR ` set navs, roleRefUnresolved := {}, pendingNavigated := None\<rparr>"

lemma rotate_idx [simp]: "bn_idx (rotateIfRBACEventSeenPreBuild st) = bn_idx st"
  by (simp add: rotateIfRBACEventSeenPreBuild_def)

lemma build_idx:
  "bn_idx (fst (BuildBindingsByGVRIndex navs (Some snap) st)) =
     (fst (foldl (buildTracked snap) (resetIndex navs (bn_idx st), 0) (boundList snap)))\<lparr>built := True\<rparr>"
  unfolding BuildBindingsByGVRIndex_def Let_def option.case build_tracked resetIndex_def
  by (simp split: prod.split)

section \<open>Buckets\<close>

text \<open>\<open>R\<close>: the last rules seen for a role key.\<close>

definition bucketOK :: "tracking \<Rightarrow> (gostring \<rightharpoonup> PolicyRule list) \<Rightarrow> bindingsByGVRIndex \<Rightarrow> bool" where
  "bucketOK T R idx \<longleftrightarrow>
     (\<forall>i. i \<in> wildcard idx \<longleftrightarrow> (\<exists>b rules. T i = Some b \<and> R (keyOf b) = Some rules \<and> rulesGrantWildcard rules)) \<and>
     (\<forall>gr i. i \<in> byGVR idx gr \<longleftrightarrow> gr \<in> navigated idx \<and>
        (\<exists>b rules. T i = Some b \<and> R (keyOf b) = Some rules \<and> \<not> rulesGrantWildcard rules \<and> rulesGrantGetList rules gr))"

definition fits :: "tracking \<Rightarrow> (gostring \<rightharpoonup> PolicyRule list) \<Rightarrow> bindingsByGVRIndex \<Rightarrow> bool" where
  "fits T R idx \<longleftrightarrow> tracks T idx \<and> exactRoles T idx \<and> bucketOK T R idx"

lemma exactRoles_enrol: "exactRoles T idx \<Longrightarrow> T i = None \<Longrightarrow> exactRoles (T(i \<mapsto> b)) (enrolLocked i ss rules (keyOf b) idx)"
  unfolding exactRoles_def enrolLocked_fields by (auto split: if_splits)

lemma exactRoles_enter: "exactRoles T idx \<Longrightarrow> T i = None \<Longrightarrow>
    exactRoles (T(i \<mapsto> b)) (refer (keyOf b) i (idx\<lparr>entries := E\<rparr>))"
  unfolding exactRoles_def refer_fields by (auto split: if_splits)

lemma exactRoles_unrol:
  "exactRoles T idx \<Longrightarrow> (\<And>b. T i = Some b \<Longrightarrow> keyOf b = rk) \<Longrightarrow> exactRoles (T(i := None)) (unrolLocked i rk idx)"
  unfolding exactRoles_def unrolLocked_fields by (auto split: if_splits)

lemma bucketOK_enrol:
  assumes "bucketOK T R idx" "T i = None" "R (keyOf b) = Some rules"
  shows "bucketOK (T(i \<mapsto> b)) R (enrolLocked i ss rules rk idx)"
  using assms unfolding bucketOK_def enrolLocked_fields by (auto split: if_splits)

lemma bucketOK_enter:
  assumes "bucketOK T R idx" "T i = None" "R (keyOf b) = None"
  shows "bucketOK (T(i \<mapsto> b)) R (refer rk i (idx\<lparr>entries := E\<rparr>))"
  using assms unfolding bucketOK_def refer_fields by (auto split: if_splits)

lemma bucketOK_unrol: "bucketOK T R idx \<Longrightarrow> bucketOK (T(i := None)) R (unrolLocked i rk idx)"
  unfolding bucketOK_def unrolLocked_fields by auto

lemma reroute_buckets:
  "wildcard (foldl (rerouteOne rules) idx ids) = (let S = set ids \<inter> dom (entries idx) in
     (wildcard idx - S) \<union> (if rulesGrantWildcard rules then S else {}))"
  "byGVR (foldl (rerouteOne rules) idx ids) gr = (let S = set ids \<inter> dom (entries idx) in
     (byGVR idx gr - S) \<union>
       (if \<not> rulesGrantWildcard rules \<and> gr \<in> navigated idx \<and> rulesGrantGetList rules gr then S else {}))"
  by (induction ids arbitrary: idx) (auto simp: Let_def rerouteOne_def dom_def)

lemma bucketOK_reroute:
  assumes "bucketOK T R idx" "tracks T idx" "exactRoles T idx" "rk \<noteq> []"
  shows "bucketOK T (R(rk \<mapsto> rules)) (foldl (rerouteOne rules) idx (sorted_list_of_set (roleSet (byRole idx) rk)))"
proof -
  let ?S = "{i. \<exists>b. T i = Some b \<and> keyOf b = rk}"
  have "set (sorted_list_of_set (roleSet (byRole idx) rk)) \<inter> dom (entries idx) = ?S"
  proof -
    have "set (sorted_list_of_set (roleSet (byRole idx) rk)) = roleSet (byRole idx) rk"
      using assms(2) unfolding tracks_def by simp
    also have "\<dots> = ?S" using assms(3,4) unfolding exactRoles_def by simp
    finally have ids: "set (sorted_list_of_set (roleSet (byRole idx) rk)) = ?S" .
    have "dom (entries idx) = dom T" using assms(2) unfolding tracks_def by (auto simp: dom_def)
    then show ?thesis unfolding ids by auto
  qed
  then show ?thesis using assms(1) unfolding bucketOK_def reroute_buckets reroute_fields Let_def
    by auto
qed

lemma fits_unresolved [simp]: "fits T R (idx\<lparr>roleRefUnresolved := S\<rparr>) = fits T R idx"
  "fits T R (idx\<lparr>built := c\<rparr>) = fits T R idx"
  by (simp_all add: fits_def tracks_def exactRoles_def bucketOK_def)

lemma fits_enrol:
  "fits T R idx \<Longrightarrow> T i = None \<Longrightarrow> R (keyOf b) = Some rules \<Longrightarrow>
     fits (T(i \<mapsto> b)) R (enrolLocked i (tb_subjects b) rules (keyOf b) idx)"
  by (simp add: fits_def tracks_enrol exactRoles_enrol bucketOK_enrol)

lemma fits_enter:
  "fits T R idx \<Longrightarrow> T i = None \<Longrightarrow> R (keyOf b) = None \<Longrightarrow>
     fits (T(i \<mapsto> b)) R (refer (keyOf b) i (idx\<lparr>entries := (entries idx)(i \<mapsto> tb_subjects b)\<rparr>))"
  by (simp add: fits_def tracks_enter exactRoles_enter bucketOK_enter)

lemma fits_unrol:
  "fits T R idx \<Longrightarrow> (\<And>b. T i = Some b \<Longrightarrow> keyOf b = rk) \<Longrightarrow> fits (T(i := None)) R (unrolLocked i rk idx)"
  by (simp add: fits_def tracks_unrol exactRoles_unrol bucketOK_unrol)

lemma fits_reroute:
  "fits T R idx \<Longrightarrow> rk \<noteq> [] \<Longrightarrow>
     fits T (R(rk \<mapsto> rules)) (foldl (rerouteOne rules) idx (sorted_list_of_set (roleSet (byRole idx) rk)))"
  by (simp add: fits_def bucketOK_reroute) (simp add: exactRoles_def)

lemma fits_unique:
  assumes "fits T R idx" "fits T R idx'" "navigated idx = navigated idx'"
  shows "byGVR idx = byGVR idx'" "wildcard idx = wildcard idx'" "entries idx = entries idx'"
    "roleSet (byRole idx) = roleSet (byRole idx')"
  using assms unfolding fits_def tracks_def exactRoles_def bucketOK_def by (auto simp: fun_eq_iff)

text \<open>A build over distinct bindings fits what it enrols.\<close>

lemma foldl_track_other: "i \<notin> fst ` set xs \<Longrightarrow> foldl (\<lambda>T x. track (Some x) T) T xs i = T i"
  by (induction xs arbitrary: T) (auto simp: track_def split: prod.split)

lemma build_fits_aux:
  assumes "distinct (map fst xs)" "\<forall>x\<in>set xs. T (fst x) = None" "fits T R (fst acc)"
    "\<forall>x\<in>set xs. resolves snap x \<longrightarrow> R (keyOf (snd x)) = rulesForRoleRef (Some snap) (tb_ns (snd x)) (tb_ref (snd x))"
  shows "fits (foldl (\<lambda>T x. track (Some x) T) T (filter (resolves snap) xs)) R (fst (foldl (buildTracked snap) acc xs))"
  using assms
proof (induction xs arbitrary: T acc)
  case (Cons x xs)
  show ?case
  proof (cases "rulesForRoleRef (Some snap) (tb_ns (snd x)) (tb_ref (snd x))")
    case None
    then have "\<not> resolves snap x" by (simp add: resolves_def)
    then show ?thesis using Cons None by (simp add: buildTracked_def)
  next
    case (Some rules)
    then have res: "resolves snap x" by (simp add: resolves_def)
    have "fits (T(fst x \<mapsto> snd x)) R (enrolLocked (fst x) (tb_subjects (snd x)) rules (keyOf (snd x)) (fst acc))"
      by (rule fits_enrol) (use Cons.prems Some res in auto)
    moreover have "buildTracked snap acc x =
        (enrolLocked (fst x) (tb_subjects (snd x)) rules (keyOf (snd x)) (fst acc), snd acc + 1)"
      by (simp add: buildTracked_def Some)
    moreover have "track (Some x) T = T(fst x \<mapsto> snd x)" by (simp add: track_def split: prod.split)
    moreover have "\<forall>y\<in>set xs. (T(fst x \<mapsto> snd x)) (fst y) = None"
    proof
      fix y assume y: "y \<in> set xs"
      then have "fst y \<noteq> fst x" using Cons.prems(1) by (metis distinct.simps(2) image_eqI list.set_map list.simps(9))
      then show "(T(fst x \<mapsto> snd x)) (fst y) = None" using Cons.prems(2) y by simp
    qed
    ultimately show ?thesis
      using Cons.IH [of "T(fst x \<mapsto> snd x)" "buildTracked snap acc x"] Cons.prems res
      by (simp del: fun_upd_apply)
  qed
qed simp

lemma build_fits:
  assumes "distinct (map fst (boundList snap))"
    "\<forall>x\<in>set (boundList snap). resolves snap x \<longrightarrow>
       R (keyOf (snd x)) = rulesForRoleRef (Some snap) (tb_ns (snd x)) (tb_ref (snd x))"
  shows "fits (enrolledBy snap) R (bn_idx (fst (BuildBindingsByGVRIndex navs (Some snap) st)))"
  unfolding build_idx enrolledBy_def fits_unresolved
  by (rule build_fits_aux [OF assms(1)])
    (use assms(2) in \<open>simp_all add: fits_def tracks_def exactRoles_def bucketOK_def resetIndex_def\<close>)


section \<open>Deltas keep the buckets while the snapshot is in step\<close>

fun inStep :: "'u converters \<Rightarrow> RBACSnapshot option \<Rightarrow> 'u rbacEvent \<Rightarrow> (gostring \<rightharpoonup> PolicyRule list) \<Rightarrow> bool" where
  "inStep conv snap (OnAdd isBinding obj _) R = (isBinding \<longrightarrow>
     (\<forall>i b. trackedObj conv obj = Some (i, b) \<longrightarrow> rulesForRoleRef snap (tb_ns b) (tb_ref b) = R (keyOf b)))"
| "inStep conv snap (OnUpdate isBinding old new) R = (isBinding \<longrightarrow>
     (\<forall>i b. trackedObj conv new = Some (i, b) \<longrightarrow> rulesForRoleRef snap (tb_ns b) (tb_ref b) = R (keyOf b)))"
| "inStep conv snap (OnDelete isBinding obj) R = True"

definition routeEvent ::
  "'u converters \<Rightarrow> 'u rbacEvent \<Rightarrow> (gostring \<rightharpoonup> PolicyRule list) \<Rightarrow> (gostring \<rightharpoonup> PolicyRule list)" where
  "routeEvent conv ev R = (case roleChange conv ev of None \<Rightarrow> R | Some (rk, rules) \<Rightarrow> R(rk \<mapsto> rules))"

type_synonym 'u delivery = "RBACSnapshot option \<times> 64 word \<times> 'u rbacEvent"

fun deliveredAll :: "'u converters \<Rightarrow> 'u delivery list \<Rightarrow> tracking \<Rightarrow> bool" where
  "deliveredAll conv [] T = True"
| "deliveredAll conv ((snap, gen, ev) # evs) T =
     (delivered conv ev T \<and> deliveredAll conv evs (trackEvent conv ev T))"

fun inStepAll :: "'u converters \<Rightarrow> 'u delivery list \<Rightarrow> (gostring \<rightharpoonup> PolicyRule list) \<Rightarrow> bool" where
  "inStepAll conv [] R = True"
| "inStepAll conv ((snap, gen, ev) # evs) R = (inStep conv snap ev R \<and> inStepAll conv evs (routeEvent conv ev R))"

definition trackAll :: "'u converters \<Rightarrow> 'u delivery list \<Rightarrow> tracking \<Rightarrow> tracking" where
  "trackAll conv evs T = foldl (\<lambda>T (_, _, ev). trackEvent conv ev T) T evs"

definition routeAll ::
  "'u converters \<Rightarrow> 'u delivery list \<Rightarrow> (gostring \<rightharpoonup> PolicyRule list) \<Rightarrow> (gostring \<rightharpoonup> PolicyRule list)" where
  "routeAll conv evs R = foldl (\<lambda>R (_, _, ev). routeEvent conv ev R) R evs"

lemma role_event_untracked: "roleChange conv ev = Some x \<Longrightarrow> trackEvent conv ev T = T"
  by (cases ev) (auto split: if_splits)

lemma roleChange_key: "roleChange conv ev = Some (rk, rules) \<Longrightarrow> rk \<noteq> []"
  by (cases ev) (auto simp: roleOf_def split: option.splits if_splits)

lemma rerouted_idx [simp]:
  "bn_idx (rerouted source rk rules skip (st\<lparr>bn_noops := c\<rparr>)) =
     foldl (rerouteOne rules) (bn_idx st) (sorted_list_of_set (roleSet (byRole (bn_idx st)) rk))"
  by (simp add: rerouted_def Let_def)

lemma exact_reroute [simp]: "exactRoles T (foldl (rerouteOne rules) idx ids) = exactRoles T idx"
  by (simp add: exactRoles_def)

text \<open>What a handler does to the index, as one of its four operations.\<close>

definition addTracked :: "RBACSnapshot option \<Rightarrow> (bindingID \<times> trackedBinding) option \<Rightarrow> bindingsByGVRIndex \<Rightarrow> bindingsByGVRIndex" where
  "addTracked snap x idx = (case x of None \<Rightarrow> idx
     | Some (i, b) \<Rightarrow>
         (case rulesForRoleRef snap (tb_ns b) (tb_ref b) of
            None \<Rightarrow> refer (keyOf b) i (idx\<lparr>entries := (entries idx)(i \<mapsto> tb_subjects b)\<rparr>)
          | Some rules \<Rightarrow> enrolLocked i (tb_subjects b) rules (keyOf b) idx))"

definition dropTracked :: "(bindingID \<times> trackedBinding) option \<Rightarrow> bindingsByGVRIndex \<Rightarrow> bindingsByGVRIndex" where
  "dropTracked x idx = (case x of None \<Rightarrow> idx | Some (i, b) \<Rightarrow> unrolLocked i (keyOf b) idx)"

lemma updateOld_idx: "bn_idx (snd (updateOld conv obj st)) = dropTracked (trackedObj conv obj) (bn_idx st)"
  by (simp add: updateOld_def dropTracked_def trackedObj_def trackedCRB_def trackedRB_def keyOf_def split: option.split)

lemma updateNew_idx: "bn_idx (snd (updateNew conv snap obj st)) = addTracked snap (trackedObj conv obj) (bn_idx st)"
  by (simp add: updateNew_def addTracked_def trackedObj_def trackedCRB_def trackedRB_def keyOf_def applyBindingAdd_idx
      split: option.split)

lemma onBindingAdd_idx:
  "deltaActive st \<Longrightarrow> bn_idx (onBindingAdd conv snap obj st) = addTracked snap (trackedObj conv obj) (bn_idx st)"
  by (simp add: onBindingAdd_def addTracked_def trackedObj_def trackedCRB_def trackedRB_def keyOf_def applyBindingAdd_idx
      Let_def split: option.split)

lemma onBindingDelete_idx:
  "deltaActive st \<Longrightarrow> bn_idx (onBindingDelete conv obj st) = dropTracked (trackedObj conv (unwrapTomb obj)) (bn_idx st)"
  by (simp add: onBindingDelete_def dropTracked_def trackedObj_def trackedCRB_def trackedRB_def keyOf_def Let_def
      split: option.split)

lemma onBindingUpdate_idx:
  assumes "deltaActive st"
  shows "bn_idx (onBindingUpdate conv snap old new st) =
    addTracked snap (trackedObj conv new) (dropTracked (trackedObj conv old) (bn_idx st))"
proof -
  obtain p st1 where 1: "updateOld conv old st = (p, st1)" by (cases "updateOld conv old st")
  obtain n st2 where 2: "updateNew conv snap new st1 = (n, st2)" by (cases "updateNew conv snap new st1")
  show ?thesis using assms updateOld_idx [of conv old st] updateNew_idx [of conv snap new st1]
    by (simp add: onBindingUpdate_def 1 2 Let_def)
qed

lemma fits_add:
  "fits T R idx \<Longrightarrow> newTo T x \<Longrightarrow>
     (\<And>i b. x = Some (i, b) \<Longrightarrow> rulesForRoleRef snap (tb_ns b) (tb_ref b) = R (keyOf b)) \<Longrightarrow>
     fits (track x T) R (addTracked snap x idx)"
  by (auto simp: addTracked_def track_def newTo_def intro: fits_enter fits_enrol split: option.split)

lemma fits_drop: "fits T R idx \<Longrightarrow> knownAs T x \<or> newTo T x \<Longrightarrow> fits (untrack x T) R (dropTracked x idx)"
  by (auto simp: dropTracked_def untrack_def newTo_def knownAs_def intro!: fits_unrol split: option.splits)

lemma exact_add: "exactRoles T idx \<Longrightarrow> newTo T x \<Longrightarrow> exactRoles (track x T) (addTracked snap x idx)"
  by (auto simp: addTracked_def track_def newTo_def intro: exactRoles_enter exactRoles_enrol split: option.split)

lemma exact_drop: "exactRoles T idx \<Longrightarrow> knownAs T x \<or> newTo T x \<Longrightarrow> exactRoles (untrack x T) (dropTracked x idx)"
  by (auto simp: dropTracked_def untrack_def newTo_def knownAs_def intro!: exactRoles_unrol split: option.splits)

text \<open>An event about neither a binding nor a role leaves the index as it was.\<close>

lemma no_role_idx:
  assumes "indexOK T st" "roleChange conv ev = None" "trackEvent conv ev = id" "\<not> isBinding"
    "ev = OnAdd isBinding obj init \<or> ev = OnUpdate isBinding old new \<or> ev = OnDelete isBinding obj"
  shows "bn_idx (handleRBAC conv snap gen ev st) = bn_idx st"
  using assms indexOK_active [OF assms(1)]
  by (auto simp: addFunc_def updateFunc_def deleteFunc_def onRoleObjectChanged_def onRoleUpdated_def roleOf_def Let_def
      split: option.splits)

fun isBindingEvent :: "'u rbacEvent \<Rightarrow> bool" where
  "isBindingEvent (OnAdd isBinding _ _) = isBinding"
| "isBindingEvent (OnUpdate isBinding _ _) = isBinding"
| "isBindingEvent (OnDelete isBinding _) = isBinding"

lemma handle_binding_idx:
  assumes "indexOK T st" "isBindingEvent ev"
  shows "bn_idx (handleRBAC conv snap gen ev st) =
    (case ev of OnAdd _ obj _ \<Rightarrow> addTracked snap (trackedObj conv obj) (bn_idx st)
     | OnUpdate _ old new \<Rightarrow> addTracked snap (trackedObj conv new) (dropTracked (trackedObj conv old) (bn_idx st))
     | OnDelete _ obj \<Rightarrow> dropTracked (trackedObj conv (unwrapTomb obj)) (bn_idx st))"
  using assms indexOK_active [OF assms(1)]
  by (cases ev) (simp_all add: addFunc_def updateFunc_def deleteFunc_def onBindingAdd_idx onBindingUpdate_idx onBindingDelete_idx)

lemma handle_role_idx:
  assumes "indexOK T st" "\<not> isBindingEvent ev"
  shows "bn_idx (handleRBAC conv snap gen ev st) =
    (case roleChange conv ev of None \<Rightarrow> bn_idx st
     | Some (rk, rules) \<Rightarrow>
         foldl (rerouteOne rules) (bn_idx st) (sorted_list_of_set (roleSet (byRole (bn_idx st)) rk)))"
proof (cases "roleChange conv ev")
  case None
  have "trackEvent conv ev = id" using assms(2) by (cases ev) (auto simp: fun_eq_iff)
  then have "bn_idx (handleRBAC conv snap gen ev st) = bn_idx st"
    using no_role_idx [OF assms(1) None _ , of "isBindingEvent ev"] assms(2) by (cases ev) auto
  then show ?thesis by (simp add: None)
next
  case (Some x)
  then show ?thesis using role_event_rerouted [OF assms(1), of conv ev "fst x" "snd x" snap gen] by (auto split: prod.split)
qed

lemma trackEvent_role: "\<not> isBindingEvent ev \<Longrightarrow> trackEvent conv ev T = T"
  by (cases ev) simp_all

lemma roleChange_binding: "isBindingEvent ev \<Longrightarrow> roleChange conv ev = None"
  by (cases ev) simp_all

lemma exact_handle:
  assumes "indexOK T st" "exactRoles T (bn_idx st)" "delivered conv ev T"
  shows "exactRoles (trackEvent conv ev T) (bn_idx (handleRBAC conv snap gen ev st))"
proof (cases "isBindingEvent ev")
  case True
  then show ?thesis unfolding handle_binding_idx [OF assms(1) True]
    using assms(2,3) by (cases ev) (auto intro: exact_add exact_drop)
next
  case False
  then show ?thesis unfolding handle_role_idx [OF assms(1) False] using assms(2)
    by (simp add: trackEvent_role split: option.split prod.split)
qed

lemma fits_handle:
  assumes "indexOK T st" "fits T R (bn_idx st)" "delivered conv ev T" "inStep conv snap ev R"
  shows "fits (trackEvent conv ev T) (routeEvent conv ev R) (bn_idx (handleRBAC conv snap gen ev st))"
proof (cases "isBindingEvent ev")
  case True
  have "routeEvent conv ev R = R" using True by (simp add: routeEvent_def roleChange_binding)
  then show ?thesis unfolding handle_binding_idx [OF assms(1) True]
    using assms(2-4) True by (cases ev) (auto intro!: fits_add fits_drop)
next
  case False
  then show ?thesis unfolding handle_role_idx [OF assms(1) False] routeEvent_def using assms(2)
    by (auto simp: trackEvent_role split: option.split prod.split) (rule fits_reroute, assumption, erule roleChange_key)
qed

lemma handle_navigated: "indexOK T st \<Longrightarrow> navigated (bn_idx (handleRBAC conv snap gen ev st)) = navigated (bn_idx st)"
proof (cases "isBindingEvent ev")
  case True
  assume "indexOK T st"
  from handle_binding_idx [OF this True] show ?thesis
    by (auto simp: addTracked_def dropTracked_def split: rbacEvent.split option.split prod.split)
next
  case False
  assume "indexOK T st"
  from handle_role_idx [OF this False] show ?thesis by (simp split: option.split prod.split)
qed

end
