(* ===== verification/RBACDeltaCorrect.thy ===== *)
theory RBACDeltaCorrect
  imports RBACDelta
begin

text \<open>
  The binding index over whole runs: from a build, through any sequence of informer events, each
  handled with whatever snapshot is published at that moment.
\<close>

section \<open>Runs\<close>

lemma run_Nil [simp]: "trackAll conv [] T = T" "routeAll conv [] R = R" "handleAll conv [] st = st"
  by (simp_all add: trackAll_def routeAll_def handleAll_def)

lemma run_Cons [simp]:
  "trackAll conv ((snap, gen, ev) # evs) T = trackAll conv evs (trackEvent conv ev T)"
  "routeAll conv ((snap, gen, ev) # evs) R = routeAll conv evs (routeEvent conv ev R)"
  "handleAll conv ((snap, gen, ev) # evs) st = handleAll conv evs (handleRBAC conv snap gen ev st)"
  by (simp_all add: trackAll_def routeAll_def handleAll_def)

lemma indexOK_run: "indexOK T st \<Longrightarrow> indexOK (trackAll conv evs T) (handleAll conv evs st)"
proof (induction evs arbitrary: T st)
  case (Cons e evs)
  obtain snap gen ev where e: "e = (snap, gen, ev)" by (cases e)
  show ?case using Cons.IH [OF indexOK_handle [OF Cons.prems]] by (simp add: e)
qed simp

lemma exact_run:
  "indexOK T st \<Longrightarrow> exactRoles T (bn_idx st) \<Longrightarrow> deliveredAll conv evs T \<Longrightarrow>
     exactRoles (trackAll conv evs T) (bn_idx (handleAll conv evs st))"
proof (induction evs arbitrary: T st)
  case (Cons e evs)
  obtain snap gen ev where e: "e = (snap, gen, ev)" by (cases e)
  show ?case
    using Cons.IH [OF indexOK_handle [OF Cons.prems(1), of conv ev snap gen] exact_handle [OF Cons.prems(1,2)]] Cons.prems(3)
    by (simp add: e)
qed simp

lemma fits_run:
  "indexOK T st \<Longrightarrow> fits T R (bn_idx st) \<Longrightarrow> deliveredAll conv evs T \<Longrightarrow> inStepAll conv evs R \<Longrightarrow>
     fits (trackAll conv evs T) (routeAll conv evs R) (bn_idx (handleAll conv evs st))"
proof (induction evs arbitrary: T R st)
  case (Cons e evs)
  obtain snap gen ev where e: "e = (snap, gen, ev)" by (cases e)
  show ?case
    using Cons.IH [OF indexOK_handle [OF Cons.prems(1), of conv ev snap gen] fits_handle [OF Cons.prems(1,2)]] Cons.prems(3,4)
    by (simp add: e)
qed simp

lemma navigated_run: "indexOK T st \<Longrightarrow> navigated (bn_idx (handleAll conv evs st)) = navigated (bn_idx st)"
proof (induction evs arbitrary: T st)
  case (Cons e evs)
  obtain snap gen ev where e: "e = (snap, gen, ev)" by (cases e)
  show ?case
    using Cons.IH [OF indexOK_handle [OF Cons.prems, of conv ev snap gen]]
      handle_navigated [OF Cons.prems, of conv snap gen ev] by (simp add: e)
qed simp

lemma buildTracked_fields:
  "navigated (fst (foldl (buildTracked snap) acc xs)) = navigated (fst acc)"
  by (induction xs arbitrary: acc) (auto simp: buildTracked_def split: option.split)

lemma build_navigated: "navigated (bn_idx (fst (BuildBindingsByGVRIndex navs (Some snap) st))) = grFromGVR ` set navs"
  by (simp add: build_idx buildTracked_fields resetIndex_def)

lemma track_pair: "track (Some x) T = T(fst x \<mapsto> snd x)"
  by (simp add: track_def split: prod.split)

lemma tracks_build_aux:
  "tracks T (fst acc) \<Longrightarrow>
     tracks (foldl (\<lambda>T x. track (Some x) T) T (filter (resolves snap) xs)) (fst (foldl (buildTracked snap) acc xs))"
proof (induction xs arbitrary: T acc)
  case (Cons x xs)
  show ?case
  proof (cases "rulesForRoleRef (Some snap) (tb_ns (snd x)) (tb_ref (snd x))")
    case None
    then show ?thesis using Cons by (simp add: resolves_def buildTracked_def)
  next
    case (Some rules)
    have "tracks (track (Some x) T) (fst (buildTracked snap acc x))"
      using tracks_enrol [OF Cons.prems, of "fst x" "snd x" rules] Some
      by (simp add: buildTracked_def track_pair)
    then show ?thesis using Cons.IH Some by (simp add: resolves_def)
  qed
qed simp

lemma indexOK_build: "indexOK (enrolledBy snap) (fst (BuildBindingsByGVRIndex navs (Some snap) st))"
  unfolding indexOK_def build_idx enrolledBy_def
  using tracks_build_aux [of Map.empty "(resetIndex navs (bn_idx st), 0)" snap "boundList snap"]
  by (simp add: tracks_def resetIndex_def)

lemma exact_build_aux:
  assumes "distinct (map fst xs)" "\<forall>x\<in>set xs. T (fst x) = None" "exactRoles T (fst acc)"
  shows "exactRoles (foldl (\<lambda>T x. track (Some x) T) T (filter (resolves snap) xs))
    (fst (foldl (buildTracked snap) acc xs))"
  using assms
proof (induction xs arbitrary: T acc)
  case (Cons x xs)
  show ?case
  proof (cases "rulesForRoleRef (Some snap) (tb_ns (snd x)) (tb_ref (snd x))")
    case None
    then show ?thesis using Cons by (simp add: resolves_def buildTracked_def exactRoles_def)
  next
    case (Some rules)
    have "exactRoles (track (Some x) T) (fst (buildTracked snap acc x))"
      using exactRoles_enrol [OF Cons.prems(3), of "fst x" "snd x"] Cons.prems(2) Some
      by (simp add: buildTracked_def track_pair)
    moreover have "\<forall>y\<in>set xs. track (Some x) T (fst y) = None"
      using Cons.prems(1,2) by (auto simp: track_pair image_iff)
    ultimately show ?thesis using Cons.IH Cons.prems(1) Some by (simp add: resolves_def)
  qed
qed simp

lemma exact_build:
  "distinct (map fst (boundList snap)) \<Longrightarrow>
     exactRoles (enrolledBy snap) (bn_idx (fst (BuildBindingsByGVRIndex navs (Some snap) st)))"
  unfolding build_idx enrolledBy_def
  using exact_build_aux [of "boundList snap" Map.empty "(resetIndex navs (bn_idx st), 0)" snap]
  by (simp add: exactRoles_def resetIndex_def)

section \<open>An example\<close>

definition exViewer :: "PolicyRule list \<Rightarrow> ClusterRole" where
  "exViewer rules = \<lparr>cr_name = ''viewer'', cr_rv = ''12'', cr_rules = rules\<rparr>"

definition exPublished :: "ClusterRoleBinding list \<Rightarrow> PolicyRule list option \<Rightarrow> RBACSnapshot" where
  "exPublished crbs rules = emptySnapshot\<lparr>ClusterRoleBindings := map Some crbs,
     ClusterRolesByName := (case rules of None \<Rightarrow> Map.empty | Some rs \<Rightarrow> [''viewer'' \<mapsto> exViewer rs])\<rparr>"

definition exPods :: GroupVersionResource where
  "exPods = \<lparr>gvr_group = [], gvr_version = ''v1'', gvr_resource = ''pods''\<rparr>"

abbreviation exGetPods :: "PolicyRule list" where "exGetPods \<equiv> [exRule [''get'', ''list''] [] ''pods'']"

definition exFresh :: bindingsState where
  "exFresh = \<lparr>bn_idx = \<lparr>byGVR = (\<lambda>_. {}), wildcard = {}, byRole = [], entries = Map.empty, roleRefUnresolved = {},
       navigated = {}, built = False, pendingNavigated = None\<rparr>,
     bn_subgens = \<lparr>sg_counter = Map.empty, sg_bumps = 0, sg_subjects = 0, sg_epoch = 0\<rparr>,
     bn_eventSeenPreBuild = False, bn_deferred = 0, bn_recorded = [],
     bn_noops = \<lparr>nc_bindingNoop = 0, nc_bindingSemanticNoop = 0, nc_bindingUidChanged = 0, nc_roleUpdates = 0,
       nc_roleNoop = 0, nc_roleSemanticNoop = 0\<rparr>, bn_nonTyped = 0\<rparr>"

lemma exPublished_fields [simp]:
  "boundList (exPublished crbs rules) = map trackedCRB crbs"
  "ClusterRolesByName (exPublished crbs rules) =
     (case rules of None \<Rightarrow> Map.empty | Some rs \<Rightarrow> [''viewer'' \<mapsto> exViewer rs])"
  by (simp_all add: boundList_def exPublished_def emptySnapshot_def crbsOf_def map_filter_def o_def)

lemma exCRB_tracked:
  "trackedCRB exCRB = (''C:u1'', \<lparr>tb_ns = [], tb_ref = exRef ''ClusterRole'' ''viewer'',
     tb_subjects = [userKey ''alice'', groupKey ''devs'']\<rparr>)"
  by (simp add: trackedCRB_def crbBindingID_def BindingUIDFromCRB_def ex_objects subjectsFromRBAC_def List.map_filter_def
      userKey_def groupKey_def)

lemma ex_rules:
  "rulesForRoleRef (Some (exPublished crbs rules)) ns (exRef ''ClusterRole'' ''viewer'') = rules"
  by (simp add: rulesForRoleRef_def exRef_def exViewer_def split: option.split)

lemma ex_key: "keyOf \<lparr>tb_ns = [], tb_ref = exRef ''ClusterRole'' ''viewer'', tb_subjects = ss\<rparr> = ''C/viewer''"
  by (simp add: keyOf_def roleRefKey_def exRef_def)

lemma ex_enrolled:
  "enrolledBy (exPublished [exCRB] (Some rules)) = Map.empty(''C:u1'' \<mapsto> snd (trackedCRB exCRB))"
  "enrolledBy (exPublished [] rules') = Map.empty"
  by (simp_all add: enrolledBy_def resolves_def exCRB_tracked ex_rules track_def)

section \<open>Properties\<close>

text \<open>C24: After a build and any events, with any snapshots published meanwhile, a role added or deleted, or
  updated with rules that \<open>policyRulesEqual\<close> tells from the old ones, records every subject of every
  tracked binding that references it; when the informers delivered each binding's last object, it records
  no other.\<close>

theorem role_edit_records_bound_subjects:
  assumes "st = handleAll conv evs (fst (BuildBindingsByGVRIndex navs (Some snap0) st0))"
    "T = trackAll conv evs (enrolledBy snap0)"
    "roleChange conv ev = Some (rk, rules)" "\<not> rulesKept conv ev"
  shows "boundTo T rk \<subseteq> recordedIn st (handleRBAC conv snap gen ev st) \<and>
    (distinct (map fst (boundList snap0)) \<and> deliveredAll conv evs (enrolledBy snap0) \<longrightarrow>
       recordedIn st (handleRBAC conv snap gen ev st) = boundTo T rk)"
proof -
  have ok: "indexOK T st" using indexOK_run [OF indexOK_build] assms(1,2) by simp
  obtain source c where ev: "handleRBAC conv snap gen ev st = rerouted source rk rules False (st\<lparr>bn_noops := c\<rparr>)"
    using role_event_rerouted [OF ok assms(3)] assms(4) by metis
  have rk: "rk \<noteq> []" by (rule roleChange_key [OF assms(3)])
  have exact: "exactRoles T (bn_idx st)"
    if "distinct (map fst (boundList snap0))" "deliveredAll conv evs (enrolledBy snap0)"
    using exact_run [OF indexOK_build exact_build] that assms(1,2) by simp
  show ?thesis unfolding ev using rerouted_records(2,3) [OF ok rk] exact by blast
qed

lemma role_edit_records_bound_subjects_witness:
  "groupKey ''devs'' \<in> recordedIn (fst (BuildBindingsByGVRIndex [exPods] (Some (exPublished [exCRB] (Some exGetPods))) exFresh))
     (handleRBAC exConverters None 1 (OnDelete False (EvCR (exViewer exGetPods)))
        (fst (BuildBindingsByGVRIndex [exPods] (Some (exPublished [exCRB] (Some exGetPods))) exFresh)))"
proof -
  let ?T = "enrolledBy (exPublished [exCRB] (Some exGetPods))"
  have "groupKey ''devs'' \<in> boundTo ?T ''C/viewer''"
    by (simp add: boundTo_def ex_enrolled exCRB_tracked ex_key)
  moreover have "roleChange exConverters (OnDelete False (EvCR (exViewer exGetPods))) = Some (''C/viewer'', exGetPods)"
    by (simp add: roleOf_def asCR_def exViewer_def)
  moreover have "\<not> rulesKept exConverters (OnDelete False (EvCR (exViewer exGetPods)))" by simp
  ultimately show ?thesis
    using role_edit_records_bound_subjects [OF run_Nil(3) [symmetric] run_Nil(1) [symmetric], THEN conjunct1]
    by (blast dest: subsetD)
qed

text \<open>A role that narrows one rule from every name to the empty name: its canonical form stays.\<close>

definition narrowed :: "PolicyRule list \<Rightarrow> PolicyRule \<Rightarrow> PolicyRule list \<Rightarrow> gostring list \<Rightarrow> PolicyRule list" where
  "narrowed pre r post names = pre @ r\<lparr>rule_resourcenames := names\<rparr> # post"

lemma narrowed_equal: "policyRulesEqual (narrowed pre r post []) (narrowed pre r post [[]])"
  by (simp add: policyRulesEqual_def canonRules_def canonRule_def sortedJoin_def narrowed_def)

lemma narrowed_permit:
  "rulesPermit (narrowed pre r post []) opts \<and> \<not> rulesPermit (narrowed pre r post [[]]) opts \<longleftrightarrow>
     opt_name opts \<noteq> [] \<and> ruleAllows (r\<lparr>rule_resourcenames := []\<rparr>) opts \<and> \<not> rulesPermit (pre @ post) opts"
  by (auto simp: narrowed_def rulesPermit_iff ruleAllows_def)

text \<open>C33: Whatever index the events built, an update that narrows one rule of a role from every resource name to
  the empty name records nobody, although it revokes every request that names an object and that only this
  rule allowed: \<open>policyRulesEqual\<close> renders the two lists of names alike.\<close>

theorem policyRulesEqual_misses_revoke:
  assumes "st = handleAll conv evs (fst (BuildBindingsByGVRIndex navs (Some snap0) st0))"
    and "rs_kind (roleSideOf conv old) \<noteq> []" "rs_kind (roleSideOf conv new) = rs_kind (roleSideOf conv old)"
    and "rs_rules (roleSideOf conv old) = narrowed pre r post []" "rs_rules (roleSideOf conv new) = narrowed pre r post [[]]"
  shows "recordedIn st (handleRBAC conv snap gen (OnUpdate False old new) st) = {} \<and>
    (\<forall>opts. opt_name opts \<noteq> [] \<longrightarrow> ruleAllows (r\<lparr>rule_resourcenames := []\<rparr>) opts \<longrightarrow> \<not> rulesPermit (pre @ post) opts \<longrightarrow>
       rulesPermit (rs_rules (roleSideOf conv old)) opts \<and> \<not> rulesPermit (rs_rules (roleSideOf conv new)) opts)"
proof -
  have ok: "indexOK (trackAll conv evs (enrolledBy snap0)) st" using indexOK_run [OF indexOK_build] assms(1) by simp
  obtain rk rules where change: "roleChange conv (OnUpdate False old new) = Some (rk, rules)"
    using assms(2,3) by (auto simp: roleOf_def roleSideOf_def split: option.splits)
  have kept: "rulesKept conv (OnUpdate False old new)"
    using assms(2-5) narrowed_equal by (simp add: Let_def)
  obtain source c where "handleRBAC conv snap gen (OnUpdate False old new) st = rerouted source rk rules True (st\<lparr>bn_noops := c\<rparr>)"
    using role_event_rerouted [OF ok change] kept by metis
  then have "recordedIn st (handleRBAC conv snap gen (OnUpdate False old new) st) = {}"
    by (simp add: rerouted_def recordedIn_def Let_def)
  then show ?thesis using narrowed_permit assms(4,5) by metis
qed

lemma policyRulesEqual_misses_revoke_witness:
  "let old = EvCR (exViewer (narrowed [] (exRule [''get''] [] ''pods'') [] []));
       new = EvCR (exViewer (narrowed [] (exRule [''get''] [] ''pods'') [] [[]]));
       st = fst (BuildBindingsByGVRIndex [exPods] (Some (exPublished [exCRB] (Some exGetPods))) exFresh);
       opts = (exRequest ''alice'' [] ''get'')\<lparr>opt_name := ''web''\<rparr>
   in recordedIn st (handleRBAC exConverters None 1 (OnUpdate False old new) st) = {} \<and>
      rulesPermit (narrowed [] (exRule [''get''] [] ''pods'') [] []) opts \<and>
      \<not> rulesPermit (narrowed [] (exRule [''get''] [] ''pods'') [] [[]]) opts"
proof -
  let ?r = "exRule [''get''] [] ''pods''"
  let ?old = "EvCR (exViewer (narrowed [] ?r [] []))" and ?new = "EvCR (exViewer (narrowed [] ?r [] [[]]))"
  let ?st = "fst (BuildBindingsByGVRIndex [exPods] (Some (exPublished [exCRB] (Some exGetPods))) exFresh)"
  have side: "roleSideOf exConverters (EvCR (exViewer rules)) = \<lparr>rs_kind = ''ClusterRole'', rs_rv = ''12'', rs_rules = rules\<rparr>"
    for rules by (simp add: roleSideOf_def asCR_def exViewer_def)
  have "?st = handleAll exConverters [] ?st" by (simp add: handleAll_def)
  from policyRulesEqual_misses_revoke [OF this, of ?old ?new "[]" ?r "[]" None 1]
  show ?thesis by (simp add: side Let_def ruleAllows_def exRule_def exRequest_def)
qed

text \<open>C25: No change of access through a binding is missed: after a build and any events, an event that
  changes where, or through which role, a subject is bound records that subject.\<close>

theorem binding_change_is_recorded:
  assumes "st = handleAll conv evs (fst (BuildBindingsByGVRIndex navs (Some snap0) st0))"
    "T = trackAll conv evs (enrolledBy snap0)"
    "delivered conv ev T" "grantsOf (trackEvent conv ev T) k \<noteq> grantsOf T k"
  shows "k \<in> recordedIn st (handleRBAC conv snap gen ev st)"
  by (rule event_records [OF _ assms(3,4)]) (use indexOK_run [OF indexOK_build] assms(1,2) in simp)

lemma binding_change_is_recorded_witness:
  "groupKey ''devs'' \<in> recordedIn (fst (BuildBindingsByGVRIndex [exPods] (Some (exPublished [] None)) exFresh))
     (handleRBAC exConverters None 1 (OnAdd True (EvCRB exCRB) False)
        (fst (BuildBindingsByGVRIndex [exPods] (Some (exPublished [] None)) exFresh)))"
proof -
  have obj: "trackedObj exConverters (EvCRB exCRB) = Some (trackedCRB exCRB)" by (simp add: trackedObj_def asCRB_def)
  show ?thesis
  proof (rule binding_change_is_recorded [where evs = "[]" and T = Map.empty])
    show "Map.empty = trackAll exConverters [] (enrolledBy (exPublished [] None))"
      by (simp add: trackAll_def ex_enrolled)
    show "delivered exConverters (OnAdd True (EvCRB exCRB) False) Map.empty"
      by (simp add: obj newTo_def split: option.split)
    show "grantsOf (trackEvent exConverters (OnAdd True (EvCRB exCRB) False) Map.empty) (groupKey ''devs'') \<noteq>
        grantsOf Map.empty (groupKey ''devs'')"
      by (simp add: obj track_def exCRB_tracked grantsOf_def)
  qed (simp add: handleAll_def)
qed

text \<open>C26: The incremental index is the one a build from scratch would make: over events delivered as
  informers deliver them, with every binding event handled while the published snapshot has the role's
  latest rules, the buckets, entries and role references are those of a build over any snapshot with
  the same bindings and the same rules.\<close>

theorem deltas_equal_rebuild:
  assumes "distinct (map fst (boundList snap0))" "distinct (map fst (boundList snapN))"
    and "\<forall>x\<in>set (boundList snap0). resolves snap0 x \<longrightarrow>
           R (keyOf (snd x)) = rulesForRoleRef (Some snap0) (tb_ns (snd x)) (tb_ref (snd x))"
    and "deliveredAll conv evs (enrolledBy snap0)" "inStepAll conv evs R"
    and "enrolledBy snapN = trackAll conv evs (enrolledBy snap0)"
    and "\<forall>x\<in>set (boundList snapN). resolves snapN x \<longrightarrow>
           routeAll conv evs R (keyOf (snd x)) = rulesForRoleRef (Some snapN) (tb_ns (snd x)) (tb_ref (snd x))"
    and "idx = bn_idx (handleAll conv evs (fst (BuildBindingsByGVRIndex navs (Some snap0) st0)))"
    and "idx' = bn_idx (fst (BuildBindingsByGVRIndex navs (Some snapN) st'))"
  shows "byGVR idx = byGVR idx' \<and> wildcard idx = wildcard idx' \<and> entries idx = entries idx' \<and>
    roleSet (byRole idx) = roleSet (byRole idx')"
proof -
  have ok: "indexOK (enrolledBy snap0) (fst (BuildBindingsByGVRIndex navs (Some snap0) st0))"
    by (rule indexOK_build)
  have "fits (enrolledBy snapN) (routeAll conv evs R) idx"
    unfolding assms(6,8) by (rule fits_run [OF ok build_fits [OF assms(1,3)] assms(4,5)])
  moreover have "fits (enrolledBy snapN) (routeAll conv evs R) idx'"
    unfolding assms(9) by (rule build_fits [OF assms(2,7)])
  moreover have "navigated idx = navigated idx'"
    unfolding assms(8,9) navigated_run [OF ok] build_navigated ..
  ultimately show ?thesis using fits_unique by metis
qed

lemma deltas_equal_rebuild_witness:
  "byGVR (bn_idx (handleAll exConverters
       [(Some (exPublished [] (Some exGetPods)), 1, OnAdd True (EvCRB exCRB) False)]
       (fst (BuildBindingsByGVRIndex [exPods] (Some (exPublished [] (Some exGetPods))) exFresh)))) =
   byGVR (bn_idx (fst (BuildBindingsByGVRIndex [exPods] (Some (exPublished [exCRB] (Some exGetPods))) exFresh)))"
proof -
  let ?evs = "[(Some (exPublished [] (Some exGetPods)), 1, OnAdd True (EvCRB exCRB) False)] :: unit delivery list"
  let ?R = "[''C/viewer'' \<mapsto> exGetPods]"
  have obj: "trackedObj exConverters (EvCRB exCRB) = Some (trackedCRB exCRB)" by (simp add: trackedObj_def asCRB_def)
  have T: "enrolledBy (exPublished [] (Some exGetPods)) = Map.empty" by (rule ex_enrolled)
  have d: "deliveredAll exConverters ?evs (enrolledBy (exPublished [] (Some exGetPods)))"
    by (simp add: T obj newTo_def split: option.split)
  have i: "inStepAll exConverters ?evs ?R"
    by (simp add: obj exCRB_tracked ex_rules ex_key)
  have e: "enrolledBy (exPublished [exCRB] (Some exGetPods)) =
      trackAll exConverters ?evs (enrolledBy (exPublished [] (Some exGetPods)))"
    by (simp add: T trackAll_def obj track_def exCRB_tracked ex_enrolled)
  have r: "\<forall>x\<in>set (boundList (exPublished [exCRB] (Some exGetPods))). resolves (exPublished [exCRB] (Some exGetPods)) x \<longrightarrow>
      routeAll exConverters ?evs ?R (keyOf (snd x)) =
      rulesForRoleRef (Some (exPublished [exCRB] (Some exGetPods))) (tb_ns (snd x)) (tb_ref (snd x))"
    by (simp add: exCRB_tracked ex_rules ex_key routeAll_def routeEvent_def)
  show ?thesis
    by (rule deltas_equal_rebuild [OF _ _ _ d i e r refl refl, THEN conjunct1]) (simp_all add: exPublished_fields)
qed

text \<open>C40: A role and its binding created before the next publish leave the index without the binding: the
  role event finds no binding, the binding event finds no role in the published snapshot, and nothing
  files the binding later, although a build from the next snapshot would.\<close>

theorem new_role_and_binding_not_filed:
  fixes conv :: "'u converters"
  defines "idx \<equiv> bn_idx (handleAll conv
      [(Some (exPublished [] None), 1, OnAdd False (EvCR (exViewer exGetPods)) False),
       (Some (exPublished [] None), 1, OnAdd True (EvCRB exCRB) False)]
      (fst (BuildBindingsByGVRIndex [exPods] (Some (exPublished [] None)) exFresh)))"
    and "idx' \<equiv> bn_idx (fst (BuildBindingsByGVRIndex [exPods] (Some (exPublished [exCRB] (Some exGetPods))) exFresh))"
  shows "''C:u1'' \<notin> byGVR idx (grFromGVR exPods) \<union> wildcard idx \<and> ''C:u1'' \<in> byGVR idx' (grFromGVR exPods)"
proof -
  have b0: "bn_idx (fst (BuildBindingsByGVRIndex [exPods] (Some (exPublished [] None)) exFresh)) =
      (resetIndex [exPods] (bn_idx exFresh))\<lparr>built := True\<rparr>" by (simp add: build_idx)
  have obj: "trackedObj conv (EvCRB exCRB) = Some (trackedCRB exCRB)" by (simp add: trackedObj_def asCRB_def)
  have ok: "indexOK Map.empty (fst (BuildBindingsByGVRIndex [exPods] (Some (exPublished [] None)) exFresh))"
    using indexOK_build [of "exPublished [] None"] by (simp add: ex_enrolled)
  let ?ev = "OnAdd False (EvCR (exViewer exGetPods)) False :: 'u rbacEvent"
  let ?st1 = "handleRBAC conv (Some (exPublished [] None)) 1 ?ev
      (fst (BuildBindingsByGVRIndex [exPods] (Some (exPublished [] None)) exFresh))"
  have "bn_idx ?st1 = (resetIndex [exPods] (bn_idx exFresh))\<lparr>built := True\<rparr>"
    using handle_role_idx [OF ok, of ?ev conv] b0
    by (simp add: roleOf_def asCR_def exViewer_def resetIndex_def)
  moreover have ok1: "indexOK Map.empty ?st1" using indexOK_handle [OF ok, of conv ?ev] by simp
  ultimately have "idx = addTracked (Some (exPublished [] None)) (Some (trackedCRB exCRB))
      ((resetIndex [exPods] (bn_idx exFresh))\<lparr>built := True\<rparr>)"
    using handle_binding_idx [OF ok1, of "OnAdd True (EvCRB exCRB) False" conv]
    by (simp add: idx_def handleAll_def obj)
  then have "''C:u1'' \<notin> byGVR idx (grFromGVR exPods) \<union> wildcard idx"
    by (simp add: addTracked_def exCRB_tracked ex_rules resetIndex_def)
  moreover have "''C:u1'' \<in> byGVR idx' (grFromGVR exPods)"
    unfolding idx'_def build_idx
    by (simp add: buildTracked_def exCRB_tracked ex_rules resetIndex_def grFromGVR_def exPods_def exRule_def
        rbacWildcardMatches_def sliceHasStar_def)
  ultimately show ?thesis ..
qed

end
