(* ===== verification/GoStdlib.thy ===== *)
theory GoStdlib
  imports Prelude
begin

text \<open>
  What the resolved-output cache uses of Go's standard library: decimal integers
  (\<open>strconv.Itoa\<close>), \<open>encoding/hex\<close>, \<open>crypto/sha256\<close>, the part of
  \<open>encoding/json.Marshal\<close> that a decoded JSON value can reach, and \<open>time\<close>: an instant is
  the number of nanoseconds since the zero \<open>time.Time\<close>, a duration a number of nanoseconds, and
  \<open>Time.Sub\<close> saturates at the 64-bit bounds.
\<close>

section \<open>Numbers\<close>

definition digitChar :: "nat \<Rightarrow> char" where
  "digitChar d = char_of (48 + d)"

fun natDigits :: "nat \<Rightarrow> gostring" where
  "natDigits n = (if n < 10 then [digitChar n] else natDigits (n div 10) @ [digitChar (n mod 10)])"

declare natDigits.simps [simp del]

definition itoa :: "int \<Rightarrow> gostring" where
  "itoa i = (if i < 0 then CHR ''-'' # natDigits (nat (- i)) else natDigits (nat i))"

lemma digitChar_inj: "a < 10 \<Longrightarrow> b < 10 \<Longrightarrow> digitChar a = digitChar b \<longleftrightarrow> a = b"
proof
  assume "a < 10" "b < 10" "digitChar a = digitChar b"
  then have "of_char (digitChar a) = (of_char (digitChar b) :: nat)" by simp
  with \<open>a < 10\<close> \<open>b < 10\<close> show "a = b" by (simp add: digitChar_def)
qed simp

lemma natDigits_nonempty: "natDigits n \<noteq> []"
  by (subst natDigits.simps) simp

lemma of_char_natDigits: "c \<in> set (natDigits n) \<Longrightarrow> 48 \<le> (of_char c :: nat) \<and> (of_char c :: nat) < 58"
proof (induction n rule: natDigits.induct)
  case (1 n)
  then show ?case by (subst (asm) (2) natDigits.simps) (auto simp: digitChar_def split: if_splits)
qed

lemma natDigits_inj: "natDigits a = natDigits b \<Longrightarrow> a = b"
proof (induction a arbitrary: b rule: natDigits.induct)
  case (1 a)
  consider "a < 10" "b < 10" | "a < 10" "b \<ge> 10" | "a \<ge> 10" "b < 10" | "a \<ge> 10" "b \<ge> 10" by linarith
  then show ?case
  proof cases
    case 1
    with "1.prems" show ?thesis by (simp add: natDigits.simps [of a] natDigits.simps [of b] digitChar_inj)
  next
    case 2
    then have "natDigits a = [digitChar a]" "natDigits b = natDigits (b div 10) @ [digitChar (b mod 10)]"
      by (simp_all add: natDigits.simps [of a] natDigits.simps [of b])
    with "1.prems" natDigits_nonempty [of "b div 10"] show ?thesis by (cases "natDigits (b div 10)") auto
  next
    case 3
    then have "natDigits b = [digitChar b]" "natDigits a = natDigits (a div 10) @ [digitChar (a mod 10)]"
      by (simp_all add: natDigits.simps [of a] natDigits.simps [of b])
    with "1.prems" natDigits_nonempty [of "a div 10"] show ?thesis by (cases "natDigits (a div 10)") auto
  next
    case 4
    then have "natDigits b = natDigits (b div 10) @ [digitChar (b mod 10)]"
      "natDigits a = natDigits (a div 10) @ [digitChar (a mod 10)]"
      by (simp_all add: natDigits.simps [of a] natDigits.simps [of b])
    with "1.prems" have "natDigits (a div 10) = natDigits (b div 10)" "digitChar (a mod 10) = digitChar (b mod 10)"
      by simp_all
    with "1.IH" 4 have "a div 10 = b div 10" "a mod 10 = b mod 10" by (simp_all add: digitChar_inj)
    then show ?thesis by (metis div_mult_mod_eq)
  qed
qed

lemma itoa_chars: "c \<in> set (itoa i) \<Longrightarrow> c = CHR ''-'' \<or> 48 \<le> (of_char c :: nat) \<and> (of_char c :: nat) < 58"
  by (auto simp: itoa_def of_char_natDigits split: if_splits)

lemma NUL_notin_itoa [simp]: "CHR 0x00 \<notin> set (itoa i)"
  using itoa_chars [of "CHR 0x00" i] by auto

lemma itoa_inj: "itoa i = itoa j \<Longrightarrow> i = j"
proof -
  assume eq: "itoa i = itoa j"
  have "CHR ''-'' \<notin> set (natDigits n)" for n using of_char_natDigits [of "CHR ''-''" n] by auto
  then have minus: "i < 0 \<longleftrightarrow> hd (itoa i) = CHR ''-''" for i
    using natDigits_nonempty by (auto simp: itoa_def) (metis list.set_sel(1))
  with eq have "i < 0 \<longleftrightarrow> j < 0" by metis
  with eq show "i = j" by (auto simp: itoa_def dest!: natDigits_inj split: if_splits)
qed

section \<open>Hexadecimal\<close>

definition hexDigit :: "nat \<Rightarrow> char" where
  "hexDigit d = (if d < 10 then char_of (48 + d) else char_of (87 + d))"

definition hexEncode :: "gostring \<Rightarrow> gostring" where
  "hexEncode s = concat (map (\<lambda>c. [hexDigit (of_char c div 16), hexDigit (of_char c mod 16)]) s)"

lemma hexDigit_ascii: "d < 16 \<Longrightarrow> (of_char (hexDigit d) :: nat) < 128"
  by (simp add: hexDigit_def)

lemma hexEncode_ascii: "c \<in> set (hexEncode s) \<Longrightarrow> (of_char c :: nat) < 128"
proof -
  assume "c \<in> set (hexEncode s)"
  then obtain b where "c = hexDigit (of_char b div 16) \<or> c = hexDigit (of_char b mod 16)"
    by (auto simp: hexEncode_def)
  moreover have "(of_char b :: nat) < 256" by simp
  then have "(of_char b :: nat) div 16 < 16" by (rule less_mult_imp_div_less [of _ 16 16, simplified])
  ultimately show ?thesis using hexDigit_ascii [of "of_char b div 16"] hexDigit_ascii [of "of_char b mod 16"]
    by auto
qed

section \<open>SHA-256\<close>

text \<open>
  The constants are the first 32 bits of the fractions of the cube roots (square roots) of the first
  primes, computed here bit by bit.
\<close>

definition primesBelow :: "nat \<Rightarrow> nat list" where
  "primesBelow n = filter (\<lambda>p. list_all (\<lambda>d. p mod d \<noteq> 0) [2..<p]) [2..<n]"

definition rootFraction :: "nat \<Rightarrow> nat \<Rightarrow> 32 word" where
  "rootFraction k p = of_nat (foldr (\<lambda>i r. if (r + 2 ^ i) ^ k \<le> p * 2 ^ (32 * k) then r + 2 ^ i else r) [0..<40] 0)"

definition sha256K :: "32 word list" where
  "sha256K = map (rootFraction 3) (primesBelow 312)"

definition sha256Init :: "32 word list" where
  "sha256Init = map (rootFraction 2) (primesBelow 20)"

definition sha256Pad :: "gostring \<Rightarrow> gostring" where
  "sha256Pad m = m @ [CHR 0x80] @ replicate ((55 + 64 - length m mod 64) mod 64) (CHR 0x00)
     @ map (\<lambda>i. char_of ((8 * length m) div 2 ^ (8 * (7 - i)) mod 256)) [0..<8]"

definition beWord :: "gostring \<Rightarrow> 32 word" where
  "beWord bs = foldl (\<lambda>w c. push_bit 8 w + of_nat (of_char c)) 0 bs"

definition rotr :: "nat \<Rightarrow> 32 word \<Rightarrow> 32 word" where
  "rotr n w = word_rotr n w"

fun sha256Schedule :: "nat \<Rightarrow> 32 word list \<Rightarrow> 32 word list" where
  "sha256Schedule 0 ws = ws"
| "sha256Schedule (Suc n) ws =
     (let i = length ws; w15 = ws ! (i - 15); w2 = ws ! (i - 2);
          s0 = xor (xor (rotr 7 w15) (rotr 18 w15)) (drop_bit 3 w15);
          s1 = xor (xor (rotr 17 w2) (rotr 19 w2)) (drop_bit 10 w2)
      in sha256Schedule n (ws @ [ws ! (i - 16) + s0 + ws ! (i - 7) + s1]))"

definition sha256Round :: "32 word list \<Rightarrow> 32 word \<times> 32 word \<Rightarrow> 32 word list" where
  "sha256Round st kw =
     (let a = st ! 0; b = st ! 1; c = st ! 2; d = st ! 3; e = st ! 4; f = st ! 5; g = st ! 6; h = st ! 7;
          s1 = xor (xor (rotr 6 e) (rotr 11 e)) (rotr 25 e);
          ch = xor (and e f) (and (not e) g);
          t1 = h + s1 + ch + fst kw + snd kw;
          s0 = xor (xor (rotr 2 a) (rotr 13 a)) (rotr 22 a);
          maj = xor (xor (and a b) (and a c)) (and b c)
      in [t1 + (s0 + maj), a, b, c, d + t1, e, f, g])"

definition sha256Block :: "32 word list \<Rightarrow> gostring \<Rightarrow> 32 word list" where
  "sha256Block st blk =
     (let ws = sha256Schedule 48 (map (\<lambda>i. beWord (take 4 (drop (4 * i) blk))) [0..<16])
      in map2 (+) st (foldl sha256Round st (zip sha256K ws)))"

fun sha256Blocks :: "nat \<Rightarrow> 32 word list \<Rightarrow> gostring \<Rightarrow> 32 word list" where
  "sha256Blocks 0 st m = st"
| "sha256Blocks (Suc n) st m = sha256Blocks n (sha256Block st (take 64 m)) (drop 64 m)"

definition beBytes :: "32 word \<Rightarrow> gostring" where
  "beBytes w = map (\<lambda>i. char_of (unat w div 2 ^ (8 * (3 - i)) mod 256)) [0..<4]"

definition sha256Sum :: "gostring \<Rightarrow> gostring" where
  "sha256Sum m = (let p = sha256Pad m in concat (map beBytes (sha256Blocks (length p div 64) sha256Init p)))"

definition sha256Hex :: "gostring \<Rightarrow> gostring" where
  "sha256Hex m = hexEncode (sha256Sum m)"

section \<open>JSON\<close>

text \<open>
  A value \<open>json.Unmarshal\<close> produces into an \<open>any\<close>. A number is given by the text
  \<open>json.Marshal\<close> writes for it.
\<close>

datatype json = JNull | JBool bool | JNumber gostring | JString gostring
  | JArray "json list" | JObject "(gostring \<times> json) list"

text \<open>The width of the UTF-8 encoding at the front of a byte string, if there is a valid one.\<close>

definition contByte :: "nat \<Rightarrow> nat \<Rightarrow> char \<Rightarrow> bool" where
  "contByte lo hi c = (lo \<le> of_char c \<and> of_char c \<le> hi)"

fun utf8Width :: "gostring \<Rightarrow> nat option" where
  "utf8Width (a # b # c # d # r) =
     (let x = (of_char a :: nat); cont = contByte 0x80 0xBF in
      if x < 0x80 then Some 1
      else if 0xC2 \<le> x \<and> x \<le> 0xDF \<and> cont b then Some 2
      else if 0xE0 \<le> x \<and> x \<le> 0xEF \<and>
        contByte (if x = 0xE0 then 0xA0 else 0x80) (if x = 0xED then 0x9F else 0xBF) b \<and> cont c then Some 3
      else if 0xF0 \<le> x \<and> x \<le> 0xF4 \<and>
        contByte (if x = 0xF0 then 0x90 else 0x80) (if x = 0xF4 then 0x8F else 0xBF) b \<and> cont c \<and> cont d
      then Some 4 else None)"
| "utf8Width [a, b, c] =
     (let x = (of_char a :: nat); cont = contByte 0x80 0xBF in
      if x < 0x80 then Some 1
      else if 0xC2 \<le> x \<and> x \<le> 0xDF \<and> cont b then Some 2
      else if 0xE0 \<le> x \<and> x \<le> 0xEF \<and>
        contByte (if x = 0xE0 then 0xA0 else 0x80) (if x = 0xED then 0x9F else 0xBF) b \<and> cont c then Some 3
      else None)"
| "utf8Width [a, b] =
     (let x = (of_char a :: nat) in
      if x < 0x80 then Some 1
      else if 0xC2 \<le> x \<and> x \<le> 0xDF \<and> contByte 0x80 0xBF b then Some 2 else None)"
| "utf8Width [a] = (if (of_char a :: nat) < 0x80 then Some 1 else None)"
| "utf8Width [] = None"

definition jsonASCII :: "char \<Rightarrow> gostring" where
  "jsonASCII c = (let x = (of_char c :: nat) in
     if c = CHR 0x22 then [CHR 0x5C, CHR 0x22]
     else if c = CHR 0x5C then [CHR 0x5C, CHR 0x5C]
     else if x = 8 then [CHR 0x5C, CHR ''b''] else if x = 12 then [CHR 0x5C, CHR ''f'']
     else if x = 10 then [CHR 0x5C, CHR ''n''] else if x = 13 then [CHR 0x5C, CHR ''r'']
     else if x = 9 then [CHR 0x5C, CHR ''t'']
     else if x < 32 \<or> c = CHR ''<'' \<or> c = CHR ''>'' \<or> c = CHR ''&''
     then CHR 0x5C # ''u00'' @ [hexDigit (x div 16), hexDigit (x mod 16)]
     else [c])"

function (sequential) jsonEscape :: "gostring \<Rightarrow> gostring" where
  "jsonEscape [] = []"
| "jsonEscape (c # s) = (case utf8Width (c # s) of
       None \<Rightarrow> CHR 0x5C # ''ufffd'' @ jsonEscape s
     | Some n \<Rightarrow>
         (if n = 1 then jsonASCII c
          else if take 3 (c # s) = [CHR 0xE2, CHR 0x80, CHR 0xA8] then CHR 0x5C # ''u2028''
          else if take 3 (c # s) = [CHR 0xE2, CHR 0x80, CHR 0xA9] then CHR 0x5C # ''u2029''
          else take n (c # s)) @ jsonEscape (drop (n - 1) s))"
  by pat_completeness auto
termination by (relation "measure length") auto

definition jsonString :: "gostring \<Rightarrow> gostring" where
  "jsonString s = CHR 0x22 # jsonEscape s @ [CHR 0x22]"

definition commaJoin :: "gostring list \<Rightarrow> gostring" where
  "commaJoin parts = (case parts of [] \<Rightarrow> [] | p # ps \<Rightarrow> p @ concat (map (\<lambda>q. CHR '','' # q) ps))"

text \<open>A Go map is written with its keys sorted.\<close>

fun jsonMarshal :: "json \<Rightarrow> gostring" where
  "jsonMarshal JNull = ''null''"
| "jsonMarshal (JBool b) = (if b then ''true'' else ''false'')"
| "jsonMarshal (JNumber t) = t"
| "jsonMarshal (JString s) = jsonString s"
| "jsonMarshal (JArray vs) = CHR ''['' # commaJoin (map jsonMarshal vs) @ '']''"
| "jsonMarshal (JObject m) = CHR ''{'' # commaJoin (map (\<lambda>(k, t). jsonString k @ CHR '':'' # t)
     (sort_key fst (map (\<lambda>(k, v). (k, jsonMarshal v)) m))) @ ''}''"

section \<open>Time\<close>

definition maxDuration :: int where "maxDuration = 2 ^ 63 - 1"
definition minDuration :: int where "minDuration = - (2 ^ 63)"

definition timeSub :: "int \<Rightarrow> int \<Rightarrow> int" where
  "timeSub t u = max minDuration (min maxDuration (t - u))"

text \<open>
  \<open>int64(d.Seconds())\<close>: whole seconds, rounded towards zero. The 64-bit float in between
  rounds a duration only above \<open>2 ^ 23\<close> seconds.
\<close>

definition seconds :: "int \<Rightarrow> int" where
  "seconds d = (if d < 0 then - ((- d) div 1000000000) else d div 1000000000)"

lemma timeSub_gt: "minDuration \<le> b \<Longrightarrow> b < maxDuration \<Longrightarrow> timeSub t u > b \<longleftrightarrow> t - u > b"
  by (auto simp: timeSub_def minDuration_def maxDuration_def)

lemma timeSub_lt: "minDuration < b \<Longrightarrow> b \<le> maxDuration \<Longrightarrow> timeSub t u < b \<longleftrightarrow> t - u < b"
  by (auto simp: timeSub_def minDuration_def maxDuration_def)

end
