(* ===== verification/ResolvedKey.thy ===== *)
theory ResolvedKey
  imports GoStdlib RBACDigest RBACSubGen
begin

text \<open>
  The key of a resolved-output cell (cache/resolved.go, cache/identity\_class.go,
  rbac/identity\_class.go, cache/ra\_full\_list\_slice.go, handlers/dispatchers/helpers.go): the inputs
  bundle, the identity dimensions, the bytes \<open>ComputeKey\<close> hashes, and the mint site.

  A Go map is an association list with distinct keys, in the unspecified iteration order.
\<close>

section \<open>Inputs\<close>

datatype AtRiskClass = AtRiskNone | AtRiskImplicitGroup | AtRiskRolerefUnresolved

type_synonym extras = "(gostring \<times> json) list"

record ResolvedKeyInputs =
  CacheEntryClass :: gostring
  in_Group :: gostring
  in_Version :: gostring
  in_Resource :: gostring
  in_Namespace :: gostring
  in_Name :: gostring
  BindingUID :: gostring
  SubjectBindingSet :: gostring
  RepresentativeUsername :: gostring
  RepresentativeGroups :: "gostring list"
  PerPage :: int
  in_Page :: int
  in_Extras :: extras
  Stage :: gostring
  in_Query :: gostring
  HasUAF :: bool
  in_RBACSubGen :: "64 word"
  in_AtRiskClass :: AtRiskClass

definition CacheEntryClassApistage :: gostring where "CacheEntryClassApistage = ''apistage''"
definition CacheEntryClassWidgetContent :: gostring where "CacheEntryClassWidgetContent = ''widgetContent''"
definition CacheEntryClassRAFullList :: gostring where "CacheEntryClassRAFullList = ''raFullList''"

lemmas entry_classes = CacheEntryClassApistage_def CacheEntryClassWidgetContent_def CacheEntryClassRAFullList_def

section \<open>The identity dimensions\<close>

record IdentityClass =
  ic_SubjectBindingSet :: gostring
  ic_RBACSubGen :: "64 word"

definition SetIdentity :: "gostring \<Rightarrow> IdentityClass \<Rightarrow> ResolvedKeyInputs \<Rightarrow> ResolvedKeyInputs" where
  "SetIdentity bindingUID cls inp = inp\<lparr>BindingUID := bindingUID,
     SubjectBindingSet := ic_SubjectBindingSet cls, in_RBACSubGen := ic_RBACSubGen cls\<rparr>"

definition Class :: "ResolvedKeyInputs \<Rightarrow> IdentityClass" where
  "Class inp = \<lparr>ic_SubjectBindingSet = SubjectBindingSet inp, ic_RBACSubGen = in_RBACSubGen inp\<rparr>"

datatype identityFreeEncoding = omitIdentitySegment | zeroIdentitySegment

definition identityFreeClasses :: "gostring \<Rightarrow> identityFreeEncoding option" where
  "identityFreeClasses c =
     (if c = CacheEntryClassWidgetContent then Some omitIdentitySegment
      else if c = CacheEntryClassApistage then Some zeroIdentitySegment else None)"

definition IsIdentityFreeClass :: "gostring \<Rightarrow> bool" where
  "IsIdentityFreeClass c = (identityFreeClasses c \<noteq> None)"

definition le64 :: "64 word \<Rightarrow> gostring" where
  "le64 n = map (\<lambda>b. char_of (unat b)) (putUint64 n)"

definition writeIdentitySegment :: "gostring \<Rightarrow> gostring \<Rightarrow> 64 word \<Rightarrow> gostring" where
  "writeIdentitySegment uid bset subGen =
     uid @ [CHR 0xFF] @ bset @ [CHR 0xFD] @ le64 subGen @ [CHR 0xFE]"

definition identitySegment :: "ResolvedKeyInputs \<Rightarrow> gostring" where
  "identitySegment inp =
     (if \<not> IsIdentityFreeClass (CacheEntryClass inp)
      then writeIdentitySegment (BindingUID inp) (SubjectBindingSet inp) (in_RBACSubGen inp)
      else if identityFreeClasses (CacheEntryClass inp) = Some zeroIdentitySegment
      then writeIdentitySegment [] [] 0 else [])"

section \<open>Extras\<close>

text \<open>
  \<open>canonicaliseExtras\<close>. Extras are decoded JSON, which \<open>json.Marshal\<close> never refuses, so the
  error branches have no input.
\<close>

fun canonicalValue :: "json \<Rightarrow> gostring" where
  "canonicalValue (JObject m) = CHR ''{'' # commaJoin (map (\<lambda>(k, t). jsonString k @ CHR '':'' # t)
     (sort_key fst (map (\<lambda>(k, v). (k, canonicalValue v)) m))) @ ''}''"
| "canonicalValue v = jsonMarshal v"

definition canonicaliseExtras :: "extras \<Rightarrow> gostring" where
  "canonicaliseExtras m = canonicalValue (JObject m)"

definition HashExtras :: "extras \<Rightarrow> gostring" where
  "HashExtras m = (if m = [] then ''e0'' else sha256Hex (canonicaliseExtras m))"

section \<open>The key\<close>

definition resolvedKeyVersion :: gostring where "resolvedKeyVersion = ''v8''"

definition nul :: gostring where "nul = [CHR 0x00]"

text \<open>The bytes \<open>ComputeKey\<close> writes to the hash.\<close>

definition keyMessage :: "ResolvedKeyInputs \<Rightarrow> gostring" where
  "keyMessage inp =
     resolvedKeyVersion @ nul @ CacheEntryClass inp @ nul @ in_Group inp @ nul @ in_Version inp @ nul
     @ in_Resource inp @ nul @ in_Namespace inp @ nul @ in_Name inp @ nul
     @ identitySegment inp
     @ itoa (PerPage inp) @ nul @ itoa (in_Page inp) @ nul
     @ (if Stage inp \<noteq> [] then [CHR 0x01] @ Stage inp @ nul else [])
     @ (if in_Query inp \<noteq> [] then [CHR 0x02] @ in_Query inp @ nul else [])
     @ (if in_Extras inp \<noteq> [] then canonicaliseExtras (in_Extras inp) else [])
     @ nul"

definition ComputeKey :: "ResolvedKeyInputs \<Rightarrow> gostring" where
  "ComputeKey inp = sha256Hex (keyMessage inp)"

section \<open>Mint sites\<close>

definition IdentityClassOf ::
  "RBACSnapshot option \<Rightarrow> subgens \<Rightarrow> gostring \<Rightarrow> gostring list \<Rightarrow> IdentityClass" where
  "IdentityClassOf psnap st username groups =
     \<lparr>ic_SubjectBindingSet = buildSubjectBindingSetDigest sha256Hex psnap username groups,
      ic_RBACSubGen = RBACSubGenForSubject username (WithAuthenticatedGroup groups) st\<rparr>"

definition sliceExtrasKeys :: "gostring list" where
  "sliceExtrasKeys = [''slice'', ''page'', ''perPage'', ''offset'']"

definition extrasMinusSlice :: "extras \<Rightarrow> extras" where
  "extrasMinusSlice m = filter (\<lambda>(k, v). k \<notin> set sliceExtrasKeys) m"

definition noInputs :: ResolvedKeyInputs where
  "noInputs = \<lparr>CacheEntryClass = [], in_Group = [], in_Version = [], in_Resource = [],
     in_Namespace = [], in_Name = [], BindingUID = [], SubjectBindingSet = [],
     RepresentativeUsername = [], RepresentativeGroups = [], PerPage = 0, in_Page = 0, in_Extras = [],
     Stage = [], in_Query = [], HasUAF = False, in_RBACSubGen = 0, in_AtRiskClass = AtRiskNone\<rparr>"

definition RAFullListKeyInputs ::
  "gostring \<Rightarrow> gostring \<Rightarrow> gostring \<Rightarrow> gostring \<Rightarrow> gostring \<Rightarrow> gostring \<Rightarrow> IdentityClass \<Rightarrow> extras \<Rightarrow>
   ResolvedKeyInputs" where
  "RAFullListKeyInputs grp version resource namespace name bindingUID cls extras =
     SetIdentity bindingUID cls (noInputs\<lparr>CacheEntryClass := CacheEntryClassRAFullList, in_Group := grp,
       in_Version := version, in_Resource := resource, in_Namespace := namespace, in_Name := name,
       PerPage := 0, in_Page := 0, in_Extras := extrasMinusSlice extras\<rparr>)"

section \<open>What the message determines\<close>

text \<open>
  What the API server and the minting code guarantee of the fields: no separator byte inside one.
\<close>

definition keyable :: "ResolvedKeyInputs \<Rightarrow> bool" where
  "keyable inp \<longleftrightarrow>
     (\<forall>s\<in>{CacheEntryClass inp, in_Group inp, in_Version inp, in_Resource inp, in_Namespace inp, in_Name inp,
         Stage inp, in_Query inp}. CHR 0x00 \<notin> set s) \<and>
     CHR 0xFF \<notin> set (BindingUID inp) \<and> CHR 0xFD \<notin> set (SubjectBindingSet inp)"

definition sameCell :: "ResolvedKeyInputs \<Rightarrow> ResolvedKeyInputs \<Rightarrow> bool" where
  "sameCell a b \<longleftrightarrow>
     CacheEntryClass a = CacheEntryClass b \<and> in_Group a = in_Group b \<and> in_Version a = in_Version b \<and>
     in_Resource a = in_Resource b \<and> in_Namespace a = in_Namespace b \<and> in_Name a = in_Name b \<and>
     (\<not> IsIdentityFreeClass (CacheEntryClass a) \<longrightarrow> BindingUID a = BindingUID b \<and> Class a = Class b) \<and>
     PerPage a = PerPage b \<and> in_Page a = in_Page b \<and> Stage a = Stage b \<and> in_Query a = in_Query b \<and>
     (in_Extras a = [] \<longleftrightarrow> in_Extras b = []) \<and>
     (in_Extras a \<noteq> [] \<longrightarrow> canonicaliseExtras (in_Extras a) = canonicaliseExtras (in_Extras b))"

lemma length_le64 [simp]: "length (le64 n) = 8"
  by (simp add: le64_def putUint64_def)

lemma putUint64_inj: "putUint64 m = putUint64 n \<Longrightarrow> m = n"
proof -
  assume eq: "putUint64 m = putUint64 n"
  show "m = n"
  proof (rule bit_word_eqI)
    fix k assume k: "k < LENGTH(64)"
    let ?i = "k div 8" and ?j = "k mod 8"
    have i: "?i < 8" and j: "?j < 8" using k by (simp_all add: less_mult_imp_div_less)
    have "(putUint64 m ! ?i :: 8 word) = putUint64 n ! ?i" using eq by simp
    then have "(ucast (drop_bit (8 * ?i) m) :: 8 word) = ucast (drop_bit (8 * ?i) n)"
      using i by (simp add: putUint64_def)
    then have "bit (ucast (drop_bit (8 * ?i) m) :: 8 word) ?j = bit (ucast (drop_bit (8 * ?i) n) :: 8 word) ?j"
      by simp
    with j have "bit m (8 * ?i + ?j) = bit n (8 * ?i + ?j)"
      by (simp add: bit_ucast_iff bit_drop_bit_eq)
    then show "bit m k = bit n k" by simp
  qed
qed

lemma le64_inj: "le64 m = le64 n \<Longrightarrow> m = n"
proof -
  assume "le64 m = le64 n"
  then have "map (of_char :: char \<Rightarrow> nat) (le64 m) = map of_char (le64 n)" by simp
  moreover have "map of_char (le64 k) = map unat (putUint64 k)" for k
    using unsigned_less [where 'a = nat and 'b = 8] by (simp add: le64_def comp_def)
  ultimately have "map unat (putUint64 m) = map unat (putUint64 n)" by simp
  then have "putUint64 m = putUint64 n" by (simp add: inj_map_eq_map inj_unsigned)
  then show "m = n" by (rule putUint64_inj)
qed

lemma writeIdentitySegment_split:
  assumes "writeIdentitySegment u s g @ x = writeIdentitySegment u' s' g' @ y"
    and "CHR 0xFF \<notin> set u" "CHR 0xFF \<notin> set u'" "CHR 0xFD \<notin> set s" "CHR 0xFD \<notin> set s'"
  shows "u = u' \<and> s = s' \<and> g = g' \<and> x = y"
proof -
  have "u @ CHR 0xFF # (s @ CHR 0xFD # (le64 g @ CHR 0xFE # x)) =
      u' @ CHR 0xFF # (s' @ CHR 0xFD # (le64 g' @ CHR 0xFE # y))"
    using assms(1) by (simp add: writeIdentitySegment_def)
  from split_at_sep [OF assms(2,3) this] split_at_sep [OF assms(4,5)]
  have "u = u'" "s = s'" "le64 g @ CHR 0xFE # x = le64 g' @ CHR 0xFE # y" by blast+
  then show ?thesis using le64_inj by auto
qed

text \<open>The part after the page numbers.\<close>

definition keyTail :: "ResolvedKeyInputs \<Rightarrow> gostring" where
  "keyTail inp =
     (if Stage inp \<noteq> [] then CHR 0x01 # Stage inp @ nul else [])
     @ (if in_Query inp \<noteq> [] then CHR 0x02 # in_Query inp @ nul else [])
     @ (if in_Extras inp \<noteq> [] then canonicaliseExtras (in_Extras inp) else []) @ nul"

lemma canonicaliseExtras_brace: "\<exists>t. canonicaliseExtras m = CHR ''{'' # t"
  by (simp add: canonicaliseExtras_def)

lemma keyTail_inj:
  assumes "keyTail a = keyTail b"
    and "CHR 0x00 \<notin> set (Stage a)" "CHR 0x00 \<notin> set (Stage b)"
    and "CHR 0x00 \<notin> set (in_Query a)" "CHR 0x00 \<notin> set (in_Query b)"
  shows "Stage a = Stage b \<and> in_Query a = in_Query b \<and> (in_Extras a = [] \<longleftrightarrow> in_Extras b = []) \<and>
    (in_Extras a \<noteq> [] \<longrightarrow> canonicaliseExtras (in_Extras a) = canonicaliseExtras (in_Extras b))"
proof -
  define q where "q = (\<lambda>i :: ResolvedKeyInputs. (if in_Query i \<noteq> [] then CHR 0x02 # in_Query i @ nul else [])
     @ (if in_Extras i \<noteq> [] then canonicaliseExtras (in_Extras i) else []) @ nul)"
  define e where "e = (\<lambda>i :: ResolvedKeyInputs. (if in_Extras i \<noteq> [] then canonicaliseExtras (in_Extras i) else []) @ nul)"
  have hd_e: "hd (e i) = CHR ''{'' \<or> hd (e i) = CHR 0x00" "e i \<noteq> []" for i
    using canonicaliseExtras_brace [of "in_Extras i"] by (auto simp: e_def nul_def)
  have q: "q i = (if in_Query i \<noteq> [] then CHR 0x02 # in_Query i @ CHR 0x00 # e i else e i)" for i
    by (simp add: q_def e_def nul_def)
  have t: "keyTail i = (if Stage i \<noteq> [] then CHR 0x01 # Stage i @ CHR 0x00 # q i else q i)" for i
    by (simp add: keyTail_def q_def nul_def)
  have hd_q: "hd (q i) \<noteq> CHR 0x01" for i using hd_e [of i] by (auto simp: q)
  have stage: "Stage a = Stage b \<and> q a = q b"
  proof (cases "Stage a = []")
    case True
    then have "Stage b = []" using assms(1) hd_q [of a] by (cases "Stage b = []") (simp_all add: t)
    with True show ?thesis using assms(1) by (simp add: t)
  next
    case False
    then have "Stage b \<noteq> []" using assms(1) hd_q [of b] by (cases "Stage b = []") (auto simp: t dest: arg_cong [where f = hd])
    with False show ?thesis using assms(1) split_at_sep [OF assms(2,3), of "q a" "q b"] by (simp add: t)
  qed
  have hd2: "hd (e i) \<noteq> CHR 0x02" for i using hd_e [of i] by auto
  have query: "in_Query a = in_Query b \<and> e a = e b"
  proof (cases "in_Query a = []")
    case True
    then have "in_Query b = []" using stage hd2 [of a] by (cases "in_Query b = []") (simp_all add: q)
    with True show ?thesis using stage by (simp add: q)
  next
    case False
    then have "in_Query b \<noteq> []" using stage hd2 [of b] by (cases "in_Query b = []") (auto simp: q dest: arg_cong [where f = hd])
    with False show ?thesis using stage split_at_sep [OF assms(4,5), of "e a" "e b"] by (simp add: q)
  qed
  then show ?thesis
    using stage canonicaliseExtras_brace [of "in_Extras a"] canonicaliseExtras_brace [of "in_Extras b"]
    by (auto simp: e_def nul_def split: if_splits)
qed

lemma keyMessage_inj:
  assumes "keyable a" "keyable b" "keyMessage a = keyMessage b"
  shows "sameCell a b"
proof -
  define tl2 where "tl2 = (\<lambda>i :: ResolvedKeyInputs. itoa (in_Page i) @ CHR 0x00 # keyTail i)"
  define tl1 where "tl1 = (\<lambda>i :: ResolvedKeyInputs. itoa (PerPage i) @ CHR 0x00 # tl2 i)"
  define rest where "rest = (\<lambda>i :: ResolvedKeyInputs. identitySegment i @ tl1 i)"
  have m: "keyMessage i = resolvedKeyVersion @ nul @ CacheEntryClass i @ CHR 0x00 # in_Group i @ CHR 0x00 #
      in_Version i @ CHR 0x00 # in_Resource i @ CHR 0x00 # in_Namespace i @ CHR 0x00 # in_Name i @ CHR 0x00 #
      rest i" for i
    by (simp add: keyMessage_def rest_def tl1_def tl2_def keyTail_def nul_def)
  have z: "CHR 0x00 \<notin> set (CacheEntryClass i)" "CHR 0x00 \<notin> set (in_Group i)" "CHR 0x00 \<notin> set (in_Version i)"
    "CHR 0x00 \<notin> set (in_Resource i)" "CHR 0x00 \<notin> set (in_Namespace i)" "CHR 0x00 \<notin> set (in_Name i)"
    "CHR 0x00 \<notin> set (Stage i)" "CHR 0x00 \<notin> set (in_Query i)"
    "CHR 0xFF \<notin> set (BindingUID i)" "CHR 0xFD \<notin> set (SubjectBindingSet i)" if "keyable i" for i
    using that by (simp_all add: keyable_def)
  note za = z [OF assms(1)] and zb = z [OF assms(2)]
  have "CacheEntryClass a @ CHR 0x00 # in_Group a @ CHR 0x00 # in_Version a @ CHR 0x00 # in_Resource a @
      CHR 0x00 # in_Namespace a @ CHR 0x00 # in_Name a @ CHR 0x00 # rest a =
    CacheEntryClass b @ CHR 0x00 # in_Group b @ CHR 0x00 # in_Version b @ CHR 0x00 # in_Resource b @
      CHR 0x00 # in_Namespace b @ CHR 0x00 # in_Name b @ CHR 0x00 # rest b"
    using assms(3) by (simp add: m)
  then have cls: "CacheEntryClass a = CacheEntryClass b" and coord: "in_Group a = in_Group b"
      "in_Version a = in_Version b" "in_Resource a = in_Resource b" "in_Namespace a = in_Namespace b"
      "in_Name a = in_Name b" and r: "rest a = rest b"
    by (blast dest: split_at_sep [OF za(1) zb(1)] split_at_sep [OF za(2) zb(2)] split_at_sep [OF za(3) zb(3)]
      split_at_sep [OF za(4) zb(4)] split_at_sep [OF za(5) zb(5)] split_at_sep [OF za(6) zb(6)])+
  have idn: "(\<not> IsIdentityFreeClass (CacheEntryClass a) \<longrightarrow> BindingUID a = BindingUID b \<and> Class a = Class b) \<and>
      tl1 a = tl1 b"
  proof (cases "IsIdentityFreeClass (CacheEntryClass a)")
    case True
    then show ?thesis using r cls by (auto simp: rest_def identitySegment_def)
  next
    case False
    then have "writeIdentitySegment (BindingUID a) (SubjectBindingSet a) (in_RBACSubGen a) @ tl1 a =
        writeIdentitySegment (BindingUID b) (SubjectBindingSet b) (in_RBACSubGen b) @ tl1 b"
      using r cls by (simp add: rest_def identitySegment_def)
    from writeIdentitySegment_split [OF this za(9) zb(9) za(10) zb(10)]
    show ?thesis by (simp add: Class_def)
  qed
  then have "PerPage a = PerPage b" "tl2 a = tl2 b"
    using split_at_sep [of "CHR 0x00" "itoa (PerPage a)" "itoa (PerPage b)" "tl2 a" "tl2 b"] itoa_inj
    by (auto simp: tl1_def)
  moreover then have "in_Page a = in_Page b" "keyTail a = keyTail b"
    using split_at_sep [of "CHR 0x00" "itoa (in_Page a)" "itoa (in_Page b)" "keyTail a" "keyTail b"] itoa_inj
    by (auto simp: tl2_def)
  ultimately show ?thesis
    using cls coord idn keyTail_inj [OF _ za(7) zb(7) za(8) zb(8)] by (simp add: sameCell_def)
qed

lemma sameCell_keyMessage: "sameCell a b \<Longrightarrow> keyMessage a = keyMessage b"
  by (auto simp: sameCell_def keyMessage_def identitySegment_def Class_def)

section \<open>Properties\<close>

text \<open>C28: For inputs free of the separator bytes, two of them are hashed from the same bytes exactly when
  they are the same cell: same class, coordinates, page, stage, query and canonical extras, and for an
  identity-bound class the same binding and the same RBAC class. The representative identity and the
  marks never count, and an identity-free class ignores the identity.\<close>

theorem keyMessage_iff_sameCell:
  assumes "keyable a" "keyable b"
  shows "keyMessage a = keyMessage b \<longleftrightarrow> sameCell a b"
  using keyMessage_inj [OF assms] sameCell_keyMessage by blast

lemma keyMessage_iff_sameCell_witness:
  "keyMessage (noInputs\<lparr>CacheEntryClass := ''widgets'', BindingUID := ''C:u1''\<rparr>) \<noteq>
     keyMessage (noInputs\<lparr>CacheEntryClass := ''widgets'', BindingUID := ''C:u2''\<rparr>) \<and>
   keyMessage (noInputs\<lparr>CacheEntryClass := ''apistage'', BindingUID := ''C:u1''\<rparr>) =
     keyMessage (noInputs\<lparr>CacheEntryClass := ''apistage'', BindingUID := ''C:u2'', HasUAF := True\<rparr>)"
proof -
  note k = keyable_def noInputs_def
  show ?thesis
    by (subst (1 2) keyMessage_iff_sameCell)
      (simp_all add: k sameCell_def IsIdentityFreeClass_def identityFreeClasses_def entry_classes)
qed

text \<open>Two JSON values that differ in the order of object members only, at any depth.\<close>

inductive sameJson :: "json \<Rightarrow> json \<Rightarrow> bool" where
  leaf: "sameJson v v"
| arr: "list_all2 sameJson vs ws \<Longrightarrow> sameJson (JArray vs) (JArray ws)"
| obj: "list_all2 (\<lambda>p q. fst p = fst q \<and> sameJson (snd p) (snd q)) m m' \<Longrightarrow> mset m' = mset m'' \<Longrightarrow>
    distinct (map fst m) \<Longrightarrow> sameJson (JObject m) (JObject m'')"
monos list_all2_mono

lemma list_all2_map_eq:
  "list_all2 (\<lambda>p q. f p = g q) xs ys \<Longrightarrow> map f xs = map g ys"
  by (induction xs ys rule: list_all2_induct) auto

lemma sort_fst_mset:
  fixes a b :: "(gostring \<times> gostring) list"
  assumes "mset a = mset b" "distinct (map fst a)"
  shows "sort_key fst a = sort_key fst b"
proof -
  have "distinct a" "inj_on fst (set a)" using assms(2) by (simp_all add: distinct_map)
  moreover have "distinct b" using \<open>distinct a\<close> assms(1) by (metis mset_eq_imp_distinct_iff)
  ultimately show ?thesis using mset_eq_setD [OF assms(1)] by (intro sort_key_distinct_eq) auto
qed

lemma sameJson_marshal: "sameJson v w \<Longrightarrow> jsonMarshal v = jsonMarshal w"
proof (induction rule: sameJson.induct)
  case (arr vs ws)
  then have "map jsonMarshal vs = map jsonMarshal ws"
    by (intro list_all2_map_eq) (auto elim: list_all2_mono)
  then show ?case by simp
next
  case (obj m m' m'')
  let ?f = "\<lambda>(k, v). (k, jsonMarshal v)"
  have e: "map ?f m = map ?f m'"
    using obj.IH by (intro list_all2_map_eq) (auto elim: list_all2_mono)
  have "mset (map ?f m) = mset (map ?f m'')" unfolding e using obj.hyps by simp
  moreover have "distinct (map fst (map ?f m))" using obj.hyps by (simp add: comp_def case_prod_beta)
  ultimately show ?case by (simp only: jsonMarshal.simps sort_fst_mset)
qed simp

lemma canonicalValue_marshal: "canonicalValue v = jsonMarshal v"
proof (induction v)
  case (JObject m)
  then have "map (\<lambda>(k, v). (k, canonicalValue v)) m = map (\<lambda>(k, v). (k, jsonMarshal v)) m"
    by (auto intro!: map_cong)
  then show ?case by (simp only: canonicalValue.simps jsonMarshal.simps)
qed simp_all

text \<open>The hand-written canonical form of the extras is the text json.Marshal writes, and it does
  not depend on the iteration order of any map, at any depth.\<close>

theorem canonicaliseExtras_is_marshal:
  "canonicaliseExtras m = jsonMarshal (JObject m) \<and>
   (sameJson (JObject m) (JObject m') \<longrightarrow> HashExtras m = HashExtras m')"
proof -
  have "m = [] \<longleftrightarrow> m' = []" if "sameJson (JObject m) (JObject m')"
    using that by (cases rule: sameJson.cases) auto
  then show ?thesis
    using sameJson_marshal [of "JObject m" "JObject m'"]
    by (auto simp: canonicaliseExtras_def canonicalValue_marshal HashExtras_def)
qed

lemma canonicaliseExtras_is_marshal_witness:
  "HashExtras [(''a'', JNumber ''1''), (''b'', JObject [(''x'', JNull), (''y'', JNull)])] =
   HashExtras [(''b'', JObject [(''y'', JNull), (''x'', JNull)]), (''a'', JNumber ''1'')]"
proof -
  let ?m = "[(''a'', JNumber ''1''), (''b'', JObject [(''y'', JNull), (''x'', JNull)])]"
  have inner: "sameJson (JObject [(''x'', JNull), (''y'', JNull)]) (JObject [(''y'', JNull), (''x'', JNull)])"
    by (rule sameJson.obj [where m' = "[(''x'', JNull), (''y'', JNull)]"]) (auto intro: sameJson.leaf)
  have "sameJson (JObject [(''a'', JNumber ''1''), (''b'', JObject [(''x'', JNull), (''y'', JNull)])])
      (JObject [(''b'', JObject [(''y'', JNull), (''x'', JNull)]), (''a'', JNumber ''1'')])"
    by (rule sameJson.obj [where m' = ?m]) (auto intro: sameJson.leaf inner)
  then show ?thesis using canonicaliseExtras_is_marshal by blast
qed

end
