(* ===== verification/ResolvedMint.thy ===== *)
theory ResolvedMint
  imports ResolvedKey RBACBindings
begin

text \<open>
  The mint sites of the dispatchers (handlers/dispatchers/helpers.go): the identity-bound key, which
  asks \<open>EvaluateRBAC\<close> for the binding that permits the request, the identity-free widget content
  key, and the serve guard. What they promise together with the binding set digest: two requests
  share an identity-bound cell only when every access check has the same verdict for both.
\<close>

section \<open>Keys of a request\<close>

definition normalizePagination :: "int \<Rightarrow> int \<Rightarrow> int \<times> int" where
  "normalizePagination perPage page =
     (let perPage = (if perPage \<le> 0 then -1 else perPage);
          page = (if page \<le> 0 then -1 else page)
      in (perPage, if perPage > 0 \<and> page \<le> 0 then 1 else page))"

record userInfo =
  ui_Username :: gostring
  ui_Groups :: "gostring list"

text \<open>The coordinates and page of a request.\<close>

record cellRequest =
  rq_group :: gostring
  rq_version :: gostring
  rq_resource :: gostring
  rq_namespace :: gostring
  rq_name :: gostring
  rq_perPage :: int
  rq_page :: int
  rq_extras :: extras

definition requestInputs :: "gostring \<Rightarrow> cellRequest \<Rightarrow> ResolvedKeyInputs" where
  "requestInputs cls rq = noInputs\<lparr>CacheEntryClass := cls, in_Group := rq_group rq,
     in_Version := rq_version rq, in_Resource := rq_resource rq, in_Namespace := rq_namespace rq,
     in_Name := rq_name rq, PerPage := rq_perPage rq, in_Page := rq_page rq, in_Extras := rq_extras rq\<rparr>"

text \<open>
  \<open>inert\<close> is \<open>cache.Inert(ctx)\<close>, \<open>enabled\<close> whether \<open>cache.ResolvedCache()\<close> is not nil.
  No key is \<open>None\<close>. \<open>ObjectCheck\<close> asks for the identity, so \<open>EvaluateRBAC\<close> writes the class
  of the winning subject on a permit; an error leaves verdict and identity empty.
\<close>

definition dispatchWidgetContentKey ::
  "bool \<Rightarrow> bool \<Rightarrow> bool \<Rightarrow> cellRequest \<Rightarrow> (gostring \<times> ResolvedKeyInputs) option" where
  "dispatchWidgetContentKey inert enabled contentEnabled rq =
     (if inert then None else if \<not> enabled then None else if \<not> contentEnabled then None
      else let inp = requestInputs CacheEntryClassWidgetContent rq in Some (ComputeKey inp, inp))"

definition atRiskClassOf :: "gostring \<Rightarrow> WinningSubjectClass \<Rightarrow> bindingsByGVRIndex \<Rightarrow> AtRiskClass" where
  "atRiskClassOf bindingUID winClass idx =
     (if bindingUID \<noteq> [] then
        (if winClass = SubjectClassImplicitGroup then AtRiskImplicitGroup
         else if IsRoleRefUnresolvedAtBuild bindingUID idx then AtRiskRolerefUnresolved
         else AtRiskNone)
      else AtRiskNone)"

definition dispatchCacheLookupKey ::
  "(EvaluateOptions \<Rightarrow> bool) \<Rightarrow> bool \<Rightarrow> bool \<Rightarrow> userInfo option \<Rightarrow> gostring \<Rightarrow>
   cellRequest \<Rightarrow> bindingsByGVRIndex \<Rightarrow> subgens \<Rightarrow> process \<Rightarrow>
   (gostring \<times> ResolvedKeyInputs) option \<times> process" where
  "dispatchCacheLookupKey selfSAR inert enabled ui handlerKind rq idx st p =
     (if inert then (None, p)
      else if \<not> enabled then (None, p)
      else case ui of None \<Rightarrow> (None, p)
      | Some u \<Rightarrow>
          (let keyCheck = ObjectCheck (ui_Username u) (ui_Groups u) ''get''
                 (TargetOf (rq_group rq) (rq_resource rq) (rq_namespace rq) (rq_name rq))
           in case EvaluateRBAC selfSAR keyCheck p of (r, p') \<Rightarrow>
             (let bindingUID = (case r of Inl _ \<Rightarrow> [] | Inr reply \<Rightarrow> rp_uid reply);
                  winClass = (case r of Inr reply \<Rightarrow> (case rp_classout reply of Some c \<Rightarrow> c
                                | None \<Rightarrow> SubjectClassRegular) | Inl _ \<Rightarrow> SubjectClassRegular);
                  inp = SetIdentity bindingUID
                    (IdentityClassOf (rbacSnap p') st (ui_Username u) (ui_Groups u))
                    ((requestInputs handlerKind rq)\<lparr>RepresentativeUsername := ui_Username u,
                       RepresentativeGroups := ui_Groups u,
                       in_AtRiskClass := atRiskClassOf bindingUID winClass idx\<rparr>)
              in (Some (ComputeKey inp, inp), p'))))"

definition serveFromCacheEligible :: "ResolvedKeyInputs option \<Rightarrow> bool" where
  "serveFromCacheEligible inputs = (case inputs of None \<Rightarrow> False | Some inp \<Rightarrow> BindingUID inp \<noteq> [])"

text \<open>The permission gate of the dispatchers; an evaluation error denies.\<close>

definition checkDispatchRBAC ::
  "(EvaluateOptions \<Rightarrow> bool) \<Rightarrow> userInfo option \<Rightarrow> ObjectTarget \<Rightarrow> process \<Rightarrow> bool \<times> process" where
  "checkDispatchRBAC selfSAR ui target p =
     (case ui of None \<Rightarrow> (False, p)
      | Some u \<Rightarrow>
          (let opts = (ObjectCheck (ui_Username u) (ui_Groups u) ''get'' target)\<lparr>opt_skipuid := True\<rparr>
           in case EvaluateRBAC selfSAR opts p of
                (Inl _, p') \<Rightarrow> (False, p')
              | (Inr reply, p') \<Rightarrow> (rp_allowed reply, p')))"

section \<open>Facts\<close>

lemma requestInputs_fields [simp]:
  "CacheEntryClass (requestInputs c rq) = c" "in_Group (requestInputs c rq) = rq_group rq"
  "in_Version (requestInputs c rq) = rq_version rq" "in_Resource (requestInputs c rq) = rq_resource rq"
  "in_Namespace (requestInputs c rq) = rq_namespace rq" "in_Name (requestInputs c rq) = rq_name rq"
  "PerPage (requestInputs c rq) = rq_perPage rq" "in_Page (requestInputs c rq) = rq_page rq"
  "in_Extras (requestInputs c rq) = rq_extras rq"
  "Stage (requestInputs c rq) = []" "in_Query (requestInputs c rq) = []"
  by (simp_all add: requestInputs_def noInputs_def)

lemma SetIdentity_fields [simp]:
  "BindingUID (SetIdentity uid c i) = uid" "Class (SetIdentity uid c i) = c"
  "SubjectBindingSet (SetIdentity uid c i) = ic_SubjectBindingSet c"
  "in_RBACSubGen (SetIdentity uid c i) = ic_RBACSubGen c"
  "CacheEntryClass (SetIdentity uid c i) = CacheEntryClass i" "in_Group (SetIdentity uid c i) = in_Group i"
  "in_Version (SetIdentity uid c i) = in_Version i" "in_Resource (SetIdentity uid c i) = in_Resource i"
  "in_Namespace (SetIdentity uid c i) = in_Namespace i" "in_Name (SetIdentity uid c i) = in_Name i"
  "PerPage (SetIdentity uid c i) = PerPage i" "in_Page (SetIdentity uid c i) = in_Page i"
  "in_Extras (SetIdentity uid c i) = in_Extras i" "Stage (SetIdentity uid c i) = Stage i"
  "in_Query (SetIdentity uid c i) = in_Query i"
  by (simp_all add: SetIdentity_def Class_def)

lemma shadowDefer_rbacSnap [simp]: "rbacSnap (shadowDefer snap opts b p) = rbacSnap p"
  by (simp add: shadowDefer_def)

lemma EvaluateRBAC_rbacSnap: "EvaluateRBAC selfSAR opts p = (r, p') \<Longrightarrow> rbacSnap p' = rbacSnap p"
  by (auto simp: EvaluateRBAC_def Let_def split: if_splits option.splits prod.splits)

text \<open>What a minted key says of the request.\<close>

lemma dispatchCacheLookupKey_inputs:
  assumes "dispatchCacheLookupKey selfSAR inert enabled (Some u) kind rq idx st p = (Some (key, inp), p')"
  shows "key = ComputeKey inp" "CacheEntryClass inp = kind"
    "Class inp = IdentityClassOf (rbacSnap p) st (ui_Username u) (ui_Groups u)"
    "in_Group inp = rq_group rq" "in_Version inp = rq_version rq" "in_Resource inp = rq_resource rq"
    "in_Namespace inp = rq_namespace rq" "in_Name inp = rq_name rq"
    "PerPage inp = rq_perPage rq" "in_Page inp = rq_page rq" "in_Extras inp = rq_extras rq"
proof -
  obtain r q where e: "EvaluateRBAC selfSAR (ObjectCheck (ui_Username u) (ui_Groups u) ''get''
      (TargetOf (rq_group rq) (rq_resource rq) (rq_namespace rq) (rq_name rq))) p = (r, q)"
    by (metis surj_pair)
  note d = assms [unfolded dispatchCacheLookupKey_def option.case e Let_def prod.case]
  show "key = ComputeKey inp" "CacheEntryClass inp = kind"
    "Class inp = IdentityClassOf (rbacSnap p) st (ui_Username u) (ui_Groups u)"
    "in_Group inp = rq_group rq" "in_Version inp = rq_version rq" "in_Resource inp = rq_resource rq"
    "in_Namespace inp = rq_namespace rq" "in_Name inp = rq_name rq"
    "PerPage inp = rq_perPage rq" "in_Page inp = rq_page rq" "in_Extras inp = rq_extras rq"
    using d EvaluateRBAC_rbacSnap [OF e] by (auto split: if_splits)
qed

section \<open>Properties\<close>

text \<open>C12: Two requests that are minted the same key of an identity-bound class, on the same published
  snapshot, ask for the same object, page and canonical extras, and every access check whatsoever has
  the same verdict for both requesters; provided SHA-256 does not collide on the two key messages and
  the two binding set messages, and the names are free of the separator bytes.\<close>

theorem shared_cell_same_verdicts:
  assumes "dispatchCacheLookupKey sar False True (Some u) kind rq idx st p = (Some (key, inp), q)"
    and "dispatchCacheLookupKey sar False True (Some u') kind' rq' idx' st' p' = (Some (key, inp'), q')"
    and "rbacSnap p = Some snap" "rbacSnap p' = Some snap" "indexed snap" "uniqueUIDs snap"
    and "\<not> IsIdentityFreeClass kind" "ui_Username u \<noteq> []" "ui_Username u' \<noteq> []"
    and "keyable inp" "keyable inp'"
    and "\<forall>i\<in>set (SubjectBindingIDs (Some snap) (ui_Username u) (ui_Groups u)) \<union>
        set (SubjectBindingIDs (Some snap) (ui_Username u') (ui_Groups u')). CHR 0x00 \<notin> set i"
    and "ComputeKey inp = ComputeKey inp' \<Longrightarrow> keyMessage inp = keyMessage inp'"
    and "sha256Hex (bindingSetMessage (SubjectBindingIDs (Some snap) (ui_Username u) (ui_Groups u))) =
        sha256Hex (bindingSetMessage (SubjectBindingIDs (Some snap) (ui_Username u') (ui_Groups u'))) \<Longrightarrow>
      bindingSetMessage (SubjectBindingIDs (Some snap) (ui_Username u) (ui_Groups u)) =
        bindingSetMessage (SubjectBindingIDs (Some snap) (ui_Username u') (ui_Groups u'))"
  shows "kind = kind' \<and> rq_group rq = rq_group rq' \<and> rq_version rq = rq_version rq' \<and>
    rq_resource rq = rq_resource rq' \<and> rq_namespace rq = rq_namespace rq' \<and> rq_name rq = rq_name rq' \<and>
    rq_perPage rq = rq_perPage rq' \<and> rq_page rq = rq_page rq' \<and>
    (rq_extras rq \<noteq> [] \<longrightarrow> canonicaliseExtras (rq_extras rq) = canonicaliseExtras (rq_extras rq')) \<and>
    v_allowed (fst (evaluateAgainstInformerFirstMatch snap (checkOf (ui_Username u) (ui_Groups u) action))) =
    v_allowed (fst (evaluateAgainstInformerFirstMatch snap (checkOf (ui_Username u') (ui_Groups u') action)))"
proof -
  note a = dispatchCacheLookupKey_inputs [OF assms(1)] and b = dispatchCacheLookupKey_inputs [OF assms(2)]
  have cell: "sameCell inp inp'"
    by (rule keyMessage_inj [OF assms(10,11)]) (use a(1) b(1) assms(13) in simp)
  let ?ids = "SubjectBindingIDs (Some snap) (ui_Username u) (ui_Groups u)"
    and ?ids' = "SubjectBindingIDs (Some snap) (ui_Username u') (ui_Groups u')"
  have "Class inp = Class inp'"
    using cell a(2) assms(7) by (simp add: sameCell_def)
  then have "sha256Hex (bindingSetMessage ?ids) = sha256Hex (bindingSetMessage ?ids')"
    unfolding a(3) b(3) assms(3,4) IdentityClassOf_def buildSubjectBindingSetDigest_def by simp
  then have "?ids = ?ids'"
    using bindingSetMessage_inj [of ?ids ?ids'] assms(12,14) by blast
  from same_ids_same_verdict [OF assms(5,6,8,9) this] cell a b
  show ?thesis unfolding sameCell_def by simp
qed

definition exPods :: cellRequest where
  "exPods = \<lparr>rq_group = [], rq_version = ''v1'', rq_resource = ''pods'', rq_namespace = [], rq_name = [],
     rq_perPage = -1, rq_page = -1, rq_extras = []\<rparr>"

definition exIndex :: bindingsByGVRIndex where
  "exIndex = \<lparr>byGVR = (\<lambda>_. {}), wildcard = {}, byRole = [], entries = Map.empty, roleRefUnresolved = {},
     navigated = {}, built = True, pendingNavigated = None\<rparr>"

definition exGens :: subgens where
  "exGens = \<lparr>sg_counter = Map.empty, sg_bumps = 0, sg_subjects = 0, sg_epoch = 0\<rparr>"

lemma exGens_sum: "RBACSubGenForSubject u gs exGens = 0"
proof -
  have v: "subGenValue exGens k = 0" for k by (simp add: subGenValue_def exGens_def)
  have "foldl (\<lambda>acc g. if g = [] then acc else acc + (0 :: 64 word)) 0 gs = 0" by (induction gs) auto
  then show ?thesis unfolding RBACSubGenForSubject_def Let_def v by (simp add: exGens_def split: prod.split)
qed

definition exMintProcess :: process where
  "exMintProcess = exProcess\<lparr>rbacSnap := Some exSnapshot\<rparr>"

lemma ex_mint:
  assumes "set gs = {''devs''}" "u \<noteq> []" "u \<noteq> ''alice''" "IsServiceAccountUsername u = False"
  shows "\<exists>inp q. dispatchCacheLookupKey sar False True (Some \<lparr>ui_Username = u, ui_Groups = gs\<rparr>)
      ''widgets'' exPods idx exGens exMintProcess
    = (Some (ComputeKey inp, inp), q) \<and> keyable inp \<and>
    keyMessage inp = keyMessage (SetIdentity ''C:u1''
      \<lparr>ic_SubjectBindingSet = sha256Hex (bindingSetMessage [''C:u1'']), ic_RBACSubGen = 0\<rparr>
      (requestInputs ''widgets'' exPods))"
proof -
  let ?o = "ObjectCheck u gs ''get'' (TargetOf [] ''pods'' [] [])"
  have "crbGrants exSnapshot ?o exCRB"
    using assms(1) by (simp add: crbGrants_def subjectNames_def heldGroups_def roleGrants_def
        lookupRoleRefRules_def ruleAllows_def ObjectCheck_def TargetOf_def IsNameSpecificVerb_def
        nameSpecificVerbs_def exSnapshot_def ex_objects kind_defs del: in_crbsOf in_rbsIn)
  then have some: "find (crbGrants exSnapshot ?o) (crbOrder exSnapshot ?o) \<noteq> None"
    using find_crb_None [of exSnapshot ?o] assms(2)
    by (auto simp: exSnapshot_def identifiable_def ObjectCheck_def Let_def simp del: in_crbsOf in_rbsIn)
  have "b = exCRB" if f: "find (crbGrants exSnapshot ?o) (crbOrder exSnapshot ?o) = Some b" for b
  proof -
    have "b \<in> set (selectCRBCandidates (Some exSnapshot) ?o) \<and> crbGrants exSnapshot ?o b"
      using f by (metis find_Some_iff nth_mem set_orders(1))
    then have "b \<in> set (crbsOf exSnapshot)"
      using selectCRBCandidates_filter [of exSnapshot ?o b] assms(2)
      by (simp add: crbGrants_walk walkAccepts_def identifiable_def ObjectCheck_def Let_def exSnapshot_def
          del: in_crbsOf in_rbsIn)
    then show ?thesis by (simp add: exSnapshot_def del: in_crbsOf in_rbsIn)
  qed
  with some have "find (crbGrants exSnapshot ?o) (crbOrder exSnapshot ?o) = Some exCRB" by blast
  then have v: "fst (evaluateAgainstInformerFirstMatch exSnapshot ?o) = crbVerdict ?o exCRB"
    by (simp add: evaluate_finds)
  obtain ms where e: "evaluateAgainstInformerFirstMatch exSnapshot ?o = (crbVerdict ?o exCRB, ms)"
    using v by (metis prod.collapse)
  have p: "\<not> cacheDisabled exMintProcess" "globalWatcher exMintProcess" "rbacSnap exMintProcess = Some exSnapshot"
    "snapshotAuthzMemo exMintProcess = emptyMemo" by (simp_all add: exMintProcess_def exProcess_def)
  have "fst (authzMemoLookup gen k emptyMemo) = None" for gen k
    by (simp add: authzMemoLookup_def currentAuthzShard_def currentShard_def readShard_def emptyMemo_def Let_def)
  then obtain m where l: "authzMemoLookup (PublishSeq exSnapshot) (memoKeyOf (PublishSeq exSnapshot) ?o) emptyMemo = (None, m)"
    by (metis prod.collapse)
  have "fst (EvaluateRBAC sar ?o exMintProcess) =
      Inr \<lparr>rp_allowed = True, rp_uid = ''C:u1'', rp_classout = Some (v_class (crbVerdict ?o exCRB))\<rparr>"
    by (simp add: EvaluateRBAC_def Let_def p l e) (simp add: crbVerdict_def BindingUIDFromCRB_def exCRB_def)
  then obtain q where r: "EvaluateRBAC sar ?o exMintProcess =
      (Inr \<lparr>rp_allowed = True, rp_uid = ''C:u1'', rp_classout = Some (v_class (crbVerdict ?o exCRB))\<rparr>, q)"
    by (metis prod.collapse)
  note q = EvaluateRBAC_rbacSnap [OF r]
  have ids: "SubjectBindingIDs (Some exSnapshot) u gs = [''C:u1'']" by (rule ex_devs_ids [OF assms])
  have hex: "CHR 0xFD \<notin> set (sha256Hex m)" for m
    using hexEncode_ascii [of "CHR 0xFD" "sha256Sum m"] by (auto simp: sha256Hex_def)
  define inp where "inp = SetIdentity ''C:u1'' (IdentityClassOf (rbacSnap q)
      exGens u gs)
      ((requestInputs ''widgets'' exPods)\<lparr>RepresentativeUsername := u, RepresentativeGroups := gs,
       in_AtRiskClass := atRiskClassOf ''C:u1'' (v_class (crbVerdict ?o exCRB)) idx\<rparr>)"
  have cls: "IdentityClassOf (rbacSnap q) exGens u gs =
      \<lparr>ic_SubjectBindingSet = sha256Hex (bindingSetMessage [''C:u1'']), ic_RBACSubGen = 0\<rparr>"
    by (simp add: IdentityClassOf_def q p buildSubjectBindingSetDigest_def ids exGens_sum)
  have "dispatchCacheLookupKey sar False True (Some \<lparr>ui_Username = u, ui_Groups = gs\<rparr>)
      ''widgets'' exPods idx exGens exMintProcess
    = (Some (ComputeKey inp, inp), q)"
    unfolding dispatchCacheLookupKey_def inp_def using r by (simp add: exPods_def Let_def)
  moreover have "keyable inp"
    by (simp add: inp_def cls keyable_def hex) (simp add: exPods_def)
  moreover have "keyMessage inp = keyMessage (SetIdentity ''C:u1''
      \<lparr>ic_SubjectBindingSet = sha256Hex (bindingSetMessage [''C:u1'']), ic_RBACSubGen = 0\<rparr>
      (requestInputs ''widgets'' exPods))"
    by (simp add: inp_def cls keyMessage_def identitySegment_def)
  ultimately show ?thesis by blast
qed

lemma shared_cell_same_verdicts_witness:
  "v_allowed (fst (evaluateAgainstInformerFirstMatch exSnapshot (checkOf ''bob'' [''devs''] noOptions))) =
   v_allowed (fst (evaluateAgainstInformerFirstMatch exSnapshot (checkOf ''carol'' [''devs'', ''devs''] noOptions)))"
proof -
  have sa: "IsServiceAccountUsername ''bob'' = False" "IsServiceAccountUsername ''carol'' = False"
    by (simp_all add: IsServiceAccountUsername_def parseServiceAccountUsername_def cutPrefix.simps)
  have ids: "SubjectBindingIDs (Some exSnapshot) ''bob'' [''devs''] = [''C:u1'']"
    "SubjectBindingIDs (Some exSnapshot) ''carol'' [''devs'', ''devs''] = [''C:u1'']"
    by (rule ex_devs_ids; simp add: sa)+
  have uids: "uniqueUIDs exSnapshot" "indexed exSnapshot"
    by (simp_all add: uniqueUIDs_def exSnapshot_def ex_objects inj_on_def del: in_crbsOf in_rbsIn)
  obtain a q where a: "dispatchCacheLookupKey (\<lambda>_. False) False True (Some \<lparr>ui_Username = ''bob'', ui_Groups = [''devs'']\<rparr>)
      ''widgets'' exPods exIndex exGens exMintProcess = (Some (ComputeKey a, a), q)" "keyable a"
      "keyMessage a = keyMessage (SetIdentity ''C:u1''
        \<lparr>ic_SubjectBindingSet = sha256Hex (bindingSetMessage [''C:u1'']), ic_RBACSubGen = 0\<rparr>
        (requestInputs ''widgets'' exPods))"
    using ex_mint [of "[''devs'']" "''bob''" "\<lambda>_. False" exIndex] sa by auto
  obtain b r where b: "dispatchCacheLookupKey (\<lambda>_. False) False True
      (Some \<lparr>ui_Username = ''carol'', ui_Groups = [''devs'', ''devs'']\<rparr>)
      ''widgets'' exPods exIndex exGens exMintProcess = (Some (ComputeKey b, b), r)" "keyable b"
      "keyMessage b = keyMessage (SetIdentity ''C:u1''
        \<lparr>ic_SubjectBindingSet = sha256Hex (bindingSetMessage [''C:u1'']), ic_RBACSubGen = 0\<rparr>
        (requestInputs ''widgets'' exPods))"
    using ex_mint [of "[''devs'', ''devs'']" "''carol''" "\<lambda>_. False" exIndex] sa by auto
  have k: "ComputeKey b = ComputeKey a" by (simp add: ComputeKey_def a(3) b(3))
  have p: "rbacSnap exMintProcess = Some exSnapshot" by (simp add: exMintProcess_def exProcess_def)
  show ?thesis
    using shared_cell_same_verdicts [OF a(1) b(1) [unfolded k] p p uids(2,1) _ _ _ a(2) b(2), of noOptions]
      ids a(3) b(3) by (simp add: IsIdentityFreeClass_def identityFreeClasses_def entry_classes)
qed

end
