(* ===== verification/WidgetExtras.thy ===== *)
theory WidgetExtras
  imports ResolvedMint
begin

text \<open>
  The request extras of a widget (handlers/dispatchers/helpers.go, handlers/dispatchers/widgets\_inline.go,
  resolvers/widgets/widgets.go, resolvers/widgets/extras\_free.go, resolvers/widgets/resolve.go): which of
  them reach the body and which of them the key folds. A body may be stored under a key only if the
  key fixes every extra that reached it.

  The readers of a nested field (plumbing's \<open>maps.NestedSlice\<close> and \<open>maps.NestedMap\<close>) are library
  code, a parameter: \<open>None\<close> stands for a missing field and for a field of another type.
\<close>

record plumbing =
  NestedSlice :: "json \<Rightarrow> gostring list \<Rightarrow> json list option"
  NestedMap :: "json \<Rightarrow> gostring list \<Rightarrow> extras option"

section \<open>What a widget declares\<close>

fun collectStrings :: "(gostring \<Rightarrow> bool) \<Rightarrow> gostring list \<Rightarrow> json list \<Rightarrow> gostring list" where
  "collectStrings keep out [] = out"
| "collectStrings keep out (JString s # vs) =
     collectStrings keep (if \<not> keep s then out else if s \<in> set out then out else out @ [s]) vs"
| "collectStrings keep out (_ # vs) = collectStrings keep out vs"

definition GetIdentityContext :: "plumbing \<Rightarrow> json \<Rightarrow> gostring list" where
  "GetIdentityContext pl cr = (case NestedSlice pl cr [''spec'', ''identityContext''] of None \<Rightarrow> []
     | Some raw \<Rightarrow> collectStrings (\<lambda>s. s = ''username'' \<or> s = ''groups'') [] raw)"

definition GetKeyExtras :: "plumbing \<Rightarrow> json \<Rightarrow> gostring list" where
  "GetKeyExtras pl cr = (case NestedSlice pl cr [''spec'', ''keyExtras''] of None \<Rightarrow> []
     | Some raw \<Rightarrow> collectStrings (\<lambda>_. True) [] raw)"

definition GetApiRefExtras :: "plumbing \<Rightarrow> json \<Rightarrow> extras" where
  "GetApiRefExtras pl cr = (case NestedMap pl cr [''spec'', ''apiRef'', ''extras''] of None \<Rightarrow> [] | Some m \<Rightarrow> m)"

definition GetResourcesRefsExtras :: "plumbing \<Rightarrow> json \<Rightarrow> extras" where
  "GetResourcesRefsExtras pl cr =
     (case NestedMap pl cr [''spec'', ''resourcesRefsTemplateExtras''] of None \<Rightarrow> [] | Some m \<Rightarrow> m)"

definition groupsJSON :: "gostring list \<Rightarrow> json" where
  "groupsJSON gs = JArray (map JString gs)"

fun declareKey :: "userInfo \<Rightarrow> extras \<Rightarrow> gostring \<Rightarrow> extras" where
  "declareKey u out k =
     (if k = ''username'' then
        (if ui_Username u \<noteq> [] then aput out ''username'' (JString (ui_Username u)) else out)
      else if k = ''groups'' then
        (if ui_Groups u \<noteq> [] then aput out ''groups'' (groupsJSON (ui_Groups u)) else out)
      else out)"

definition DeclaredIdentity :: "plumbing \<Rightarrow> userInfo option \<Rightarrow> json \<Rightarrow> extras" where
  "DeclaredIdentity pl ui cr =
     (let declared = GetIdentityContext pl cr
      in if declared = [] then [] else case ui of None \<Rightarrow> [] | Some u \<Rightarrow> foldl (declareKey u) [] declared)"

definition ExtrasFreeSpecFields :: "gostring list" where
  "ExtrasFreeSpecFields = [''widgetData'', ''resourcesRefs'', ''keyExtras'']"

definition WidgetReadsNoRequestExtras :: "plumbing \<Rightarrow> json \<Rightarrow> bool" where
  "WidgetReadsNoRequestExtras pl cr = (case NestedMap pl cr [''spec''] of None \<Rightarrow> False
     | Some spec \<Rightarrow> list_all (\<lambda>(k, _). k \<in> set ExtrasFreeSpecFields) spec)"

definition inlineGET :: "json \<Rightarrow> bool" where
  "inlineGET raw = (case raw of JObject m \<Rightarrow>
       map_of m ''inline'' = Some (JBool True) \<and>
       (case map_of m ''verb'' of Some (JString v) \<Rightarrow> v = [] \<or> v = ''get'' \<or> v = ''GET'' | _ \<Rightarrow> True)
     | _ \<Rightarrow> False)"

definition hasInlineGETRef :: "plumbing \<Rightarrow> json \<Rightarrow> bool" where
  "hasInlineGETRef pl cr =
     (case NestedSlice pl cr [''spec'', ''resourcesRefs'', ''items''] of None \<Rightarrow> False
      | Some arr \<Rightarrow> list_ex inlineGET arr)"

section \<open>What reaches the body\<close>

text \<open>\<open>for k, v := range src { dst[k] = v }\<close>.\<close>

definition overlay :: "extras \<Rightarrow> extras \<Rightarrow> extras" where
  "overlay dst src = foldl (\<lambda>d (k, v). aput d k v) dst src"

definition identityDimensionKeys :: "gostring list" where
  "identityDimensionKeys = [''username'', ''groups'', ''displayName'']"

definition authoritative :: "plumbing \<Rightarrow> json \<Rightarrow> gostring \<Rightarrow> bool" where
  "authoritative pl cr k \<longleftrightarrow> k \<in> set (GetIdentityContext pl cr) \<or> k \<in> set (GetKeyExtras pl cr)"

definition sanitizeUndeclaredIdentityExtras :: "plumbing \<Rightarrow> json \<Rightarrow> extras \<Rightarrow> extras" where
  "sanitizeUndeclaredIdentityExtras pl cr req =
     (if req = [] then req
      else if \<not> list_ex (\<lambda>(k, _). k \<in> set identityDimensionKeys \<and> \<not> authoritative pl cr k) req then req
      else filter (\<lambda>(k, _). \<not> (k \<in> set identityDimensionKeys \<and> \<not> authoritative pl cr k)) req)"

text \<open>The start of \<open>Resolve\<close>: the extras the templates and the data source are evaluated with.\<close>

definition resolveExtras :: "plumbing \<Rightarrow> userInfo option \<Rightarrow> json \<Rightarrow> extras \<Rightarrow> extras" where
  "resolveExtras pl ui cr req =
     (let extras = sanitizeUndeclaredIdentityExtras pl cr req; inj = DeclaredIdentity pl ui cr
      in if inj = [] then extras else overlay (overlay [] extras) inj)"

text \<open>\<open>mergeExtras\<close>: fill the keys the data source does not have.\<close>

definition mergeExtras :: "extras \<Rightarrow> extras \<Rightarrow> extras" where
  "mergeExtras ds extras =
     (if extras = [] then ds
      else foldl (\<lambda>d (k, v). if map_of d k = None then aput d k v else d) ds extras)"

section \<open>What the key folds\<close>

definition unionForKey :: "extras \<Rightarrow> extras \<Rightarrow> extras \<Rightarrow> extras" where
  "unionForKey apiRefInline rrtInline request = overlay (overlay (overlay [] apiRefInline) rrtInline) request"

definition filterDeclaredKeyExtras :: "plumbing \<Rightarrow> json \<Rightarrow> extras \<Rightarrow> extras" where
  "filterDeclaredKeyExtras pl cr req =
     (let declared = GetKeyExtras pl cr
      in if declared = [] \<or> req = [] then []
         else foldl (\<lambda>out k. case map_of req k of None \<Rightarrow> out | Some v \<Rightarrow> aput out k v) [] declared)"

definition inlineParentIdentityForKey :: "plumbing \<Rightarrow> userInfo option \<Rightarrow> json \<Rightarrow> extras" where
  "inlineParentIdentityForKey pl ui cr =
     (if \<not> hasInlineGETRef pl cr then []
      else case ui of None \<Rightarrow> []
      | Some u \<Rightarrow>
          (let out = (if ui_Username u \<noteq> [] then [(''username'', JString (ui_Username u))] else [])
           in if ui_Groups u \<noteq> [] then aput out ''groups'' (groupsJSON (ui_Groups u)) else out))"

definition effectiveKeyExtras :: "plumbing \<Rightarrow> userInfo option \<Rightarrow> json \<Rightarrow> extras \<Rightarrow> extras" where
  "effectiveKeyExtras pl ui cr req =
     (let base = unionForKey (GetApiRefExtras pl cr) (GetResourcesRefsExtras pl cr)
           (filterDeclaredKeyExtras pl cr req);
          base = overlay base (DeclaredIdentity pl ui cr)
      in overlay base (inlineParentIdentityForKey pl ui cr))"

text \<open>
  The predicate that lets a request store its body, with whether it moved the exemption counter: the
  first undeclared key that is not an identity key decides.
\<close>

fun fullyDeclaredLoop :: "plumbing \<Rightarrow> json \<Rightarrow> gostring list \<Rightarrow> extras \<Rightarrow> bool \<times> bool" where
  "fullyDeclaredLoop pl cr declared [] = (True, False)"
| "fullyDeclaredLoop pl cr declared ((k, v) # req) =
     (if k \<in> set declared then fullyDeclaredLoop pl cr declared req
      else if k \<in> set identityDimensionKeys then fullyDeclaredLoop pl cr declared req
      else if WidgetReadsNoRequestExtras pl cr then (True, True)
      else (False, False))"

definition requestExtrasFullyDeclared :: "plumbing \<Rightarrow> json \<Rightarrow> extras \<Rightarrow> bool \<times> bool" where
  "requestExtrasFullyDeclared pl cr req =
     (if req = [] then (True, False) else fullyDeclaredLoop pl cr (GetKeyExtras pl cr) req)"

section \<open>The maps as functions\<close>

lemma overlay_Nil [simp]: "overlay d [] = d"
  by (simp add: overlay_def)

lemma map_of_overlay:
  "distinct (map fst src) \<Longrightarrow>
   map_of (overlay dst src) k = (case map_of src k of Some v \<Rightarrow> Some v | None \<Rightarrow> map_of dst k)"
proof (induction src arbitrary: dst)
  case (Cons p src)
  obtain a v where p: "p = (a, v)" by (cases p)
  have "map_of (overlay dst (p # src)) k = map_of (overlay (aput dst a v) src) k" by (simp add: overlay_def p)
  also have "\<dots> = (case map_of src k of Some w \<Rightarrow> Some w | None \<Rightarrow> map_of (aput dst a v) k)"
    using Cons by (simp add: p)
  also have "\<dots> = (case map_of (p # src) k of Some w \<Rightarrow> Some w | None \<Rightarrow> map_of dst k)"
    using Cons.prems by (auto simp: p split: option.split dest: map_of_SomeD intro: image_eqI [where x = "(a, _)"])
  finally show ?case .
qed simp

lemma map_of_filter_keys:
  "map_of (filter (\<lambda>(k, v). P k) m) k = (if P k then map_of m k else None)"
  by (induction m) auto

lemma DeclaredIdentity_fold:
  "distinct (map fst out) \<Longrightarrow> distinct (map fst (foldl (declareKey u) out ks)) \<and>
   map_of (foldl (declareKey u) out ks) k =
     (if k \<in> set ks \<and> k = ''username'' \<and> ui_Username u \<noteq> [] then Some (JString (ui_Username u))
      else if k \<in> set ks \<and> k = ''groups'' \<and> ui_Groups u \<noteq> [] then Some (groupsJSON (ui_Groups u))
      else map_of out k)"
proof (induction ks arbitrary: out)
  case (Cons a ks)
  have "distinct (map fst (declareKey u out a))" using Cons.prems by simp
  from Cons.IH [OF this] show ?case by auto
qed simp

lemma map_of_DeclaredIdentity:
  "map_of (DeclaredIdentity pl (Some u) cr) k =
     (if k \<in> set (GetIdentityContext pl cr) \<and> k = ''username'' \<and> ui_Username u \<noteq> []
      then Some (JString (ui_Username u))
      else if k \<in> set (GetIdentityContext pl cr) \<and> k = ''groups'' \<and> ui_Groups u \<noteq> []
      then Some (groupsJSON (ui_Groups u)) else None)"
  "distinct (map fst (DeclaredIdentity pl ui cr))"
  using DeclaredIdentity_fold [of "[]" u "GetIdentityContext pl cr" k]
    DeclaredIdentity_fold [of "[]" "the ui" "GetIdentityContext pl cr" k]
  by (auto simp: DeclaredIdentity_def Let_def split: option.split)

lemma map_of_inlineParent:
  "map_of (inlineParentIdentityForKey pl (Some u) cr) k =
     (if \<not> hasInlineGETRef pl cr then None
      else if k = ''username'' \<and> ui_Username u \<noteq> [] then Some (JString (ui_Username u))
      else if k = ''groups'' \<and> ui_Groups u \<noteq> [] then Some (groupsJSON (ui_Groups u)) else None)"
  "distinct (map fst (inlineParentIdentityForKey pl ui cr))"
  by (auto simp: inlineParentIdentityForKey_def Let_def split: option.split)

lemma filterDeclared_fold:
  "distinct (map fst out) \<Longrightarrow>
   distinct (map fst (foldl (\<lambda>out k. case map_of req k of None \<Rightarrow> out | Some v \<Rightarrow> aput out k v) out ks)) \<and>
   map_of (foldl (\<lambda>out k. case map_of req k of None \<Rightarrow> out | Some v \<Rightarrow> aput out k v) out ks) k =
     (if k \<in> set ks \<and> map_of req k \<noteq> None then map_of req k else map_of out k)"
proof (induction ks arbitrary: out)
  case (Cons a ks)
  have "distinct (map fst (case map_of req a of None \<Rightarrow> out | Some v \<Rightarrow> aput out a v))"
    using Cons.prems by (auto split: option.split)
  from Cons.IH [OF this] show ?case by (auto split: option.splits)
qed simp

lemma map_of_filterDeclared:
  "map_of (filterDeclaredKeyExtras pl cr req) k = (if k \<in> set (GetKeyExtras pl cr) then map_of req k else None)"
  "distinct (map fst (filterDeclaredKeyExtras pl cr req))"
  using filterDeclared_fold [of "[]" req "GetKeyExtras pl cr" k]
  by (auto simp: filterDeclaredKeyExtras_def Let_def split: if_splits)

lemma map_of_sanitize:
  "map_of (sanitizeUndeclaredIdentityExtras pl cr req) k =
     (if k \<in> set identityDimensionKeys \<and> \<not> authoritative pl cr k then None else map_of req k)"
proof (cases "map_of req k")
  case (Some v)
  then have "(k, v) \<in> set req" by (rule map_of_SomeD)
  then show ?thesis
    by (auto simp: sanitizeUndeclaredIdentityExtras_def map_of_filter_keys list_ex_iff)
qed (simp add: sanitizeUndeclaredIdentityExtras_def map_of_filter_keys)

lemma distinct_sanitize:
  "distinct (map fst req) \<Longrightarrow> distinct (map fst (sanitizeUndeclaredIdentityExtras pl cr req))"
  by (simp add: sanitizeUndeclaredIdentityExtras_def distinct_map_filter)

lemma map_of_resolveExtras:
  assumes "distinct (map fst req)"
  shows "map_of (resolveExtras pl ui cr req) k = (case map_of (DeclaredIdentity pl ui cr) k of Some v \<Rightarrow> Some v
    | None \<Rightarrow> map_of (sanitizeUndeclaredIdentityExtras pl cr req) k)"
  using map_of_overlay [OF map_of_DeclaredIdentity(2)] map_of_overlay [OF distinct_sanitize [OF assms]]
  by (auto simp: resolveExtras_def Let_def split: option.split)

lemma fullyDeclaredLoop_pure:
  "fullyDeclaredLoop pl cr declared req = (True, False) \<longleftrightarrow>
   (\<forall>k\<in>fst ` set req. k \<in> set declared \<or> k \<in> set identityDimensionKeys)"
  by (induction req) (auto split: if_splits)

section \<open>Properties\<close>

text \<open>
  The side conditions under which the key fixes the extras: the requester has a value for each
  identity key the widget declares, and no key extra is shadowed by an inline default or by the
  identity of an inline parent.
\<close>

definition identityComplete :: "plumbing \<Rightarrow> json \<Rightarrow> userInfo \<Rightarrow> bool" where
  "identityComplete pl cr u \<longleftrightarrow>
     (''username'' \<in> set (GetIdentityContext pl cr) \<longrightarrow> ui_Username u \<noteq> []) \<and>
     (''groups'' \<in> set (GetIdentityContext pl cr) \<longrightarrow> ui_Groups u \<noteq> [])"

definition separable :: "plumbing \<Rightarrow> json \<Rightarrow> bool" where
  "separable pl cr \<longleftrightarrow> distinct (map fst (GetApiRefExtras pl cr)) \<and> distinct (map fst (GetResourcesRefsExtras pl cr)) \<and>
     (\<forall>k\<in>set (GetKeyExtras pl cr). map_of (GetApiRefExtras pl cr) k = None \<and>
        map_of (GetResourcesRefsExtras pl cr) k = None \<and>
        (hasInlineGETRef pl cr \<longrightarrow> k \<noteq> ''username'' \<and> k \<noteq> ''groups''))"

lemma GetIdentityContext_enum: "set (GetIdentityContext pl cr) \<subseteq> {''username'', ''groups''}"
proof -
  have "set (collectStrings P out vs) \<subseteq> set out \<union> {s. P s}" for P out vs
  proof (induction P out vs rule: collectStrings.induct)
    case (2 keep out s vs)
    then show ?case by (auto split: if_splits)
  qed auto
  from this [of "\<lambda>s. s = ''username'' \<or> s = ''groups''" "[]"] show ?thesis
    by (auto simp: GetIdentityContext_def split: option.splits)
qed

lemma map_of_effectiveKeyExtras:
  assumes "separable pl cr"
  shows "map_of (effectiveKeyExtras pl (Some u) cr req) k =
    (case map_of (inlineParentIdentityForKey pl (Some u) cr) k of Some v \<Rightarrow> Some v
     | None \<Rightarrow> (case map_of (DeclaredIdentity pl (Some u) cr) k of Some v \<Rightarrow> Some v
     | None \<Rightarrow> (case map_of (filterDeclaredKeyExtras pl cr req) k of Some v \<Rightarrow> Some v
     | None \<Rightarrow> (case map_of (GetResourcesRefsExtras pl cr) k of Some v \<Rightarrow> Some v
     | None \<Rightarrow> map_of (GetApiRefExtras pl cr) k))))"
  using assms
  by (simp add: effectiveKeyExtras_def unionForKey_def Let_def map_of_overlay map_of_filterDeclared(2)
      map_of_DeclaredIdentity(2) map_of_inlineParent(2) separable_def split: option.split)

text \<open>What a request puts into the body beyond what the server fixes, read off the key.\<close>

lemma resolveExtras_from_key:
  assumes "separable pl cr" "identityComplete pl cr u" "distinct (map fst req)"
    and "requestExtrasFullyDeclared pl cr req = (True, False)"
  shows "map_of (resolveExtras pl (Some u) cr req) k =
    (if k \<in> set (GetIdentityContext pl cr) \<or> k \<in> set (GetKeyExtras pl cr)
     then map_of (effectiveKeyExtras pl (Some u) cr req) k else None)"
proof (cases "k \<in> set (GetIdentityContext pl cr)")
  case True
  then have k: "k = ''username'' \<or> k = ''groups''" using GetIdentityContext_enum by blast
  with True assms(2) have d: "map_of (DeclaredIdentity pl (Some u) cr) k =
      Some (if k = ''username'' then JString (ui_Username u) else groupsJSON (ui_Groups u))"
    by (auto simp: map_of_DeclaredIdentity identityComplete_def)
  then have "map_of (effectiveKeyExtras pl (Some u) cr req) k = map_of (DeclaredIdentity pl (Some u) cr) k"
    using k by (auto simp: map_of_effectiveKeyExtras [OF assms(1)] map_of_inlineParent split: option.split)
  with True d show ?thesis by (simp add: map_of_resolveExtras [OF assms(3)])
next
  case False
  then have d: "map_of (DeclaredIdentity pl (Some u) cr) k = None" by (simp add: map_of_DeclaredIdentity)
  have decl: "k \<in> set (GetKeyExtras pl cr) \<or> k \<in> set identityDimensionKeys" if "map_of req k \<noteq> None"
  proof -
    have "k \<in> fst ` set req" using that by (simp add: map_of_eq_None_iff)
    then show ?thesis using assms(4) by (auto simp: requestExtrasFullyDeclared_def fullyDeclaredLoop_pure split: if_splits)
  qed
  have r: "map_of (resolveExtras pl (Some u) cr req) k =
      (if k \<in> set (GetKeyExtras pl cr) then map_of req k else None)"
    using decl False
    by (cases "map_of req k") (auto simp: map_of_resolveExtras [OF assms(3)] d map_of_sanitize authoritative_def)
  show ?thesis
  proof (cases "k \<in> set (GetKeyExtras pl cr)")
    case True
    then have "map_of (inlineParentIdentityForKey pl (Some u) cr) k = None"
      "map_of (GetResourcesRefsExtras pl cr) k = None" "map_of (GetApiRefExtras pl cr) k = None"
      using assms(1) by (auto simp: separable_def map_of_inlineParent)
    then show ?thesis using r d True
      by (simp add: map_of_effectiveKeyExtras [OF assms(1)] map_of_filterDeclared(1) split: option.split)
  qed (use r False in simp)
qed

text \<open>C29: Two requests for one widget that are both allowed to store their body and whose key extras agree
  evaluate the widget with the same extras, so neither is served a body shaped by extras it did not
  send; for requesters with a value for every identity key the widget declares, and widgets whose
  inline defaults do not bind a declared key extra.\<close>

theorem key_extras_fix_body_extras:
  assumes "separable pl cr" "identityComplete pl cr u" "identityComplete pl cr u'"
    and "distinct (map fst req)" "distinct (map fst req')"
    and "requestExtrasFullyDeclared pl cr req = (True, False)"
    and "requestExtrasFullyDeclared pl cr req' = (True, False)"
    and "map_of (effectiveKeyExtras pl (Some u) cr req) = map_of (effectiveKeyExtras pl (Some u') cr req')"
  shows "map_of (resolveExtras pl (Some u) cr req) = map_of (resolveExtras pl (Some u') cr req')"
  using assms(8)
  by (simp add: fun_eq_iff resolveExtras_from_key [OF assms(1,2,4,6)] resolveExtras_from_key [OF assms(1,3,5,7)])

text \<open>A reader of nested fields, for the examples.\<close>

fun nestedField :: "json \<Rightarrow> gostring list \<Rightarrow> json option" where
  "nestedField v [] = Some v"
| "nestedField (JObject m) (k # ks) = (case map_of m k of None \<Rightarrow> None | Some v \<Rightarrow> nestedField v ks)"
| "nestedField _ (k # ks) = None"

definition exPlumbing :: plumbing where
  "exPlumbing = \<lparr>NestedSlice = (\<lambda>v path. case nestedField v path of Some (JArray vs) \<Rightarrow> Some vs | _ \<Rightarrow> None),
     NestedMap = (\<lambda>v path. case nestedField v path of Some (JObject m) \<Rightarrow> Some m | _ \<Rightarrow> None)\<rparr>"

definition exWidget :: "(gostring \<times> json) list \<Rightarrow> json" where
  "exWidget spec = JObject [(''spec'', JObject spec)]"

lemmas extras_defs = exPlumbing_def exWidget_def GetIdentityContext_def GetKeyExtras_def GetApiRefExtras_def
  GetResourcesRefsExtras_def DeclaredIdentity_def hasInlineGETRef_def inlineParentIdentityForKey_def
  effectiveKeyExtras_def unionForKey_def filterDeclaredKeyExtras_def resolveExtras_def overlay_def
  sanitizeUndeclaredIdentityExtras_def authoritative_def identityDimensionKeys_def
  requestExtrasFullyDeclared_def WidgetReadsNoRequestExtras_def ExtrasFreeSpecFields_def

lemma key_extras_fix_body_extras_witness:
  "map_of (resolveExtras exPlumbing (Some \<lparr>ui_Username = ''bob'', ui_Groups = [''devs'']\<rparr>)
     (exWidget [(''keyExtras'', JArray [JString ''ns'']), (''identityContext'', JArray [JString ''groups''])])
     [(''ns'', JString ''demo''), (''username'', JString ''eve'')]) =
   map_of (resolveExtras exPlumbing (Some \<lparr>ui_Username = ''carol'', ui_Groups = [''devs'']\<rparr>)
     (exWidget [(''keyExtras'', JArray [JString ''ns'']), (''identityContext'', JArray [JString ''groups''])])
     [(''groups'', JNull), (''ns'', JString ''demo'')])"
  by (rule key_extras_fix_body_extras)
    (simp_all add: extras_defs separable_def identityComplete_def)

text \<open>The key of a request does not see an extra the widget does not declare as a key extra.\<close>

lemma undeclared_extra_not_in_key:
  assumes "k \<notin> set (GetKeyExtras pl cr)"
  shows "effectiveKeyExtras pl ui cr ((k, v) # req) = effectiveKeyExtras pl ui cr req"
proof -
  have "filterDeclaredKeyExtras pl cr ((k, v) # req) = filterDeclaredKeyExtras pl cr req"
  proof (cases "req = []")
    case True
    have "foldl (\<lambda>out k'. case map_of [(k, v)] k' of None \<Rightarrow> out | Some v \<Rightarrow> aput out k' v) [] ks = []"
      if "k \<notin> set ks" for ks using that by (induction ks) auto
    then show ?thesis using True assms by (simp add: filterDeclaredKeyExtras_def Let_def)
  next
    case False
    have "foldl (\<lambda>out k'. case map_of ((k, v) # req) k' of None \<Rightarrow> out | Some v \<Rightarrow> aput out k' v) out ks =
        foldl (\<lambda>out k'. case map_of req k' of None \<Rightarrow> out | Some v \<Rightarrow> aput out k' v) out ks"
      if "k \<notin> set ks" for ks out using that by (induction ks arbitrary: out) auto
    then show ?thesis using False assms by (simp add: filterDeclaredKeyExtras_def Let_def)
  qed
  then show ?thesis by (simp add: effectiveKeyExtras_def)
qed

text \<open>C39: The identity keys a widget declares are overwritten with the requester's own values only when the
  requester has some. For a requester without groups, whatever groups the client sends as a request extra
  reach the body of every widget that declares groups without making them a key extra, and the body may be
  stored under the key of the request that sent none, whose body sees no groups.\<close>

theorem spoofed_groups_reach_shared_cell:
  assumes "''groups'' \<in> set (GetIdentityContext pl cr)" "''groups'' \<notin> set (GetKeyExtras pl cr)" "ui_Groups u = []"
    and "distinct (map fst req)" "map_of req ''groups'' = None" "requestExtrasFullyDeclared pl cr req = (True, False)"
  shows "requestExtrasFullyDeclared pl cr ((''groups'', spoof) # req) = (True, False) \<and>
    effectiveKeyExtras pl (Some u) cr ((''groups'', spoof) # req) = effectiveKeyExtras pl (Some u) cr req \<and>
    map_of (resolveExtras pl (Some u) cr ((''groups'', spoof) # req)) ''groups'' = Some spoof \<and>
    map_of (resolveExtras pl (Some u) cr req) ''groups'' = None"
proof (intro conjI)
  have id: "''groups'' \<in> set identityDimensionKeys" by (simp add: identityDimensionKeys_def)
  show "requestExtrasFullyDeclared pl cr ((''groups'', spoof) # req) = (True, False)"
    using assms(6) id by (cases "req = []") (simp_all add: requestExtrasFullyDeclared_def)
  show "effectiveKeyExtras pl (Some u) cr ((''groups'', spoof) # req) = effectiveKeyExtras pl (Some u) cr req"
    by (rule undeclared_extra_not_in_key [OF assms(2)])
  have none: "map_of (DeclaredIdentity pl (Some u) cr) ''groups'' = None" using assms(3) by (simp add: map_of_DeclaredIdentity)
  have auth: "authoritative pl cr ''groups''" using assms(1) by (simp add: authoritative_def)
  have "distinct (map fst ((''groups'', spoof) # req))" using assms(4,5) by (simp add: map_of_eq_None_iff)
  then show "map_of (resolveExtras pl (Some u) cr ((''groups'', spoof) # req)) ''groups'' = Some spoof"
    by (simp add: map_of_resolveExtras none map_of_sanitize auth)
  show "map_of (resolveExtras pl (Some u) cr req) ''groups'' = None"
    using assms(5) by (simp add: map_of_resolveExtras [OF assms(4)] none map_of_sanitize auth)
qed

lemma spoofed_groups_reach_shared_cell_witness:
  "map_of (resolveExtras exPlumbing (Some \<lparr>ui_Username = ''bob'', ui_Groups = []\<rparr>)
     (exWidget [(''identityContext'', JArray [JString ''groups'']), (''widgetDataTemplate'', JArray [])])
     [(''groups'', JArray [JString ''admins''])]) ''groups'' = Some (JArray [JString ''admins''])"
  by (rule spoofed_groups_reach_shared_cell [THEN conjunct2, THEN conjunct2, THEN conjunct1])
    (simp_all add: extras_defs)

text \<open>An inline default of the data source aliases a request extra of the same name and value in the
  key: the request that sends it and the one that does not share a cell although only the first one's
  templates see it.\<close>

theorem inline_default_aliases_request:
  "let u = \<lparr>ui_Username = ''bob'', ui_Groups = [''devs'']\<rparr>;
       cr = exWidget [(''keyExtras'', JArray [JString ''ns'']),
         (''apiRef'', JObject [(''extras'', JObject [(''ns'', JString ''demo'')])]), (''widgetDataTemplate'', JArray [])];
       req = [(''ns'', JString ''demo'')]
   in requestExtrasFullyDeclared exPlumbing cr req = (True, False) \<and>
    effectiveKeyExtras exPlumbing (Some u) cr req = effectiveKeyExtras exPlumbing (Some u) cr [] \<and>
    map_of (mergeExtras [] (resolveExtras exPlumbing (Some u) cr req)) ''ns'' = Some (JString ''demo'') \<and>
    map_of (mergeExtras [] (resolveExtras exPlumbing (Some u) cr [])) ''ns'' = None"
  by (simp add: Let_def extras_defs mergeExtras_def)

end
