(* ===== verification/RASlice.thy ===== *)
theory RASlice
  imports ResolvedKey
begin

text \<open>
  Paging over the page-independent full list (cache/ra\_full\_list\_slice.go): one cell holds the whole
  result of a RESTAction and each page is cut from it. The reference is the RESTAction's own jq,
  \<open>range($offset; $offset + $perPage) | select(. < $len)\<close> over the sorted list.

  \<open>None\<close> is a nil map, or the result \<open>ok = false\<close>. Go's \<open>int\<close> has 64 bits and wraps: \<open>goInt\<close> is the
  value of a sum.
\<close>

section \<open>The probes\<close>

definition arrayFields :: "extras \<Rightarrow> (gostring \<times> json list) list" where
  "arrayFields full = List.map_filter (\<lambda>(k, v). case v of JArray a \<Rightarrow> Some (k, a) | _ \<Rightarrow> None) full"

definition goInt :: "int \<Rightarrow> int" where
  "goInt x = (x + 2 ^ 63) mod 2 ^ 64 - 2 ^ 63"

definition sliceBounds :: "int \<Rightarrow> int \<Rightarrow> int \<Rightarrow> int \<times> int" where
  "sliceBounds len offset perPage =
     (let start = offset;
          start = (if start < 0 then 0 else start);
          start = (if start > len then len else start);
          end' = goInt (offset + perPage);
          end' = (if end' < start then start else end');
          end' = (if end' > len then len else end')
      in (start, end'))"

definition GoSliceFullList :: "extras option \<Rightarrow> int \<Rightarrow> int \<Rightarrow> extras option" where
  "GoSliceFullList full offset perPage = (case full of None \<Rightarrow> None
     | Some m \<Rightarrow> (case arrayFields m of
           [(arrKey, arr)] \<Rightarrow>
             (let out = filter (\<lambda>(k, v). k \<noteq> arrKey) m in
              if perPage \<le> 0 then Some (aput out arrKey (JArray arr))
              else (case sliceBounds (int (length arr)) offset perPage of (start, end') \<Rightarrow>
                Some (aput out arrKey (JArray (take (nat (end' - start)) (drop (nat start) arr))))))
         | _ \<Rightarrow> None))"

definition IsStructurallyNonSliceable :: "extras option \<Rightarrow> extras option \<Rightarrow> int \<Rightarrow> bool" where
  "IsStructurallyNonSliceable full sRA perPage =
     (case (full, sRA) of (Some f, Some s) \<Rightarrow>
        if perPage \<le> 0 then False
        else if jsonMarshal (JObject f) \<noteq> jsonMarshal (JObject s) then False
        else (case arrayFields f of [(_, arr)] \<Rightarrow> int (length arr) > perPage | _ \<Rightarrow> False)
      | _ \<Rightarrow> False)"

definition FullListIsEmpty :: "extras option \<Rightarrow> bool" where
  "FullListIsEmpty full = (case full of None \<Rightarrow> False
     | Some m \<Rightarrow> (case arrayFields m of [(_, arr)] \<Rightarrow> arr = [] | _ \<Rightarrow> False))"

section \<open>The reference\<close>

definition jqPage :: "int \<Rightarrow> int \<Rightarrow> 'a list \<Rightarrow> 'a list" where
  "jqPage offset perPage arr = map (\<lambda>i. arr ! nat i) (filter (\<lambda>i. i < int (length arr)) [offset..offset + perPage - 1])"

lemma upto_map_nat:
  assumes "0 \<le> a"
  shows "[a..b] = map int [nat a..<nat (b + 1)]"
proof (cases "a \<le> b")
  case True
  have "map int [nat a..<nat (b + 1)] = map (\<lambda>k. a + int k) [0..<nat (b + 1) - nat a]"
    using assms True by (intro nth_equalityI) auto
  moreover have "[a..b] = map (\<lambda>k. a + int k) [0..<nat (b + 1) - nat a]"
    using assms True by (intro nth_equalityI) (auto simp: nat_diff_distrib')
  ultimately show ?thesis by simp
qed (use assms in simp)

lemma take_drop_nth:
  "take n (drop s xs) = map (\<lambda>i. xs ! i) (filter (\<lambda>i. i < length xs) [s..<s + n])"
proof -
  have f: "filter (\<lambda>i. i < length xs) [s..<s + n] = [s..<min (length xs) (s + n)]"
    by (induction n) auto
  show ?thesis unfolding f
    by (intro nth_equalityI) auto
qed

lemma goInt_id: "- (2 ^ 63) \<le> x \<Longrightarrow> x < 2 ^ 63 \<Longrightarrow> goInt x = x"
  by (simp add: goInt_def)

lemma goInt_wraps:
  assumes "2 ^ 63 \<le> x" "x < 2 ^ 64"
  shows "goInt x < 0"
proof -
  have "(x + 2 ^ 63) mod 2 ^ 64 = (x + 2 ^ 63 - 2 ^ 64) mod 2 ^ 64" by (rule minus_mod_self2 [symmetric])
  also have "\<dots> = x + 2 ^ 63 - 2 ^ 64" using assms by (intro mod_pos_pos_trivial) simp_all
  finally show ?thesis using assms(2) by (simp add: goInt_def)
qed

text \<open>The page of the reference, and the empty one where the sum is over the largest \<open>int\<close>.\<close>

definition servedPage :: "int \<Rightarrow> int \<Rightarrow> 'a list \<Rightarrow> 'a list" where
  "servedPage offset perPage arr = (if offset + perPage < 2 ^ 63 then jqPage offset perPage arr else [])"

lemma sliceBounds_page:
  assumes "0 \<le> offset" "0 < perPage" "offset < 2 ^ 63" "perPage < 2 ^ 63"
    and b: "sliceBounds (int (length arr)) offset perPage = (s, e)"
  shows "take (nat (e - s)) (drop (nat s) arr) = servedPage offset perPage arr"
proof (cases "offset + perPage < 2 ^ 63")
  case fits: True
  then have sum: "goInt (offset + perPage) = offset + perPage" using assms(1,2) by (intro goInt_id) simp_all
  show ?thesis
  proof (cases "offset \<le> int (length arr)")
    case True
    then have s: "s = offset" and e: "e = min (int (length arr)) (offset + perPage)"
      using assms(1,2) b sum by (auto simp: sliceBounds_def Let_def split: if_splits)
    have "nat (e - s) = min (length arr - nat offset) (nat perPage)" using True assms(1,2) by (simp add: s e)
    then have "take (nat (e - s)) (drop (nat s) arr) = take (nat perPage) (drop (nat offset) arr)"
      by (auto simp: s min_def)
    also have "\<dots> = jqPage offset perPage arr"
      using assms(1,2)
      by (simp add: jqPage_def take_drop_nth upto_map_nat filter_map comp_def nat_add_distrib)
    finally show ?thesis using fits by (simp add: servedPage_def)
  next
    case False
    then have "s = int (length arr)" "e = int (length arr)"
      using assms(1,2) b sum by (auto simp: sliceBounds_def Let_def split: if_splits)
    moreover have "jqPage offset perPage arr = []" using False by (auto simp: jqPage_def filter_empty_conv)
    ultimately show ?thesis using fits by (simp add: servedPage_def)
  qed
next
  case False
  then have "goInt (offset + perPage) < 0" using assms(3,4) by (intro goInt_wraps) simp_all
  then have "e = s" using assms(1) b by (auto simp: sliceBounds_def Let_def split: if_splits)
  then show ?thesis using False by (simp add: servedPage_def)
qed

text \<open>The pages of one size, in order, are the list.\<close>

lemma pages_tile:
  assumes "0 < n" "length arr \<le> n * k"
  shows "concat (map (\<lambda>p. jqPage (int (p * n)) (int n) arr) [0..<k]) = arr"
proof -
  have page: "jqPage (int (p * n)) (int n) arr = take n (drop (p * n) arr)" for p
    by (simp add: jqPage_def take_drop_nth upto_map_nat filter_map comp_def nat_add_distrib nat_mult_distrib
        flip: of_nat_mult of_nat_add)
  have "concat (map (\<lambda>p. take n (drop (p * n) arr)) [0..<k]) = take (k * n) arr"
  proof (induction k)
    case (Suc k)
    then show ?case by (simp add: take_add [symmetric] add.commute)
  qed simp
  then show ?thesis using assms unfolding page by (simp add: mult.commute)
qed

section \<open>Properties\<close>

text \<open>C32: A page cut from the full list is the page the RESTAction's own jq would have produced, as long as
  the sum of offset and size is an int, and the empty page where that sum wraps; every other field is passed
  through, and the reference pages of one size concatenate to the whole list; a result that does not hold
  exactly one array is refused.\<close>

theorem GoSliceFullList_is_jq_slice:
  assumes "distinct (map fst m)" "0 \<le> offset" "0 < perPage" "offset < 2 ^ 63" "perPage < 2 ^ 63"
  shows "case arrayFields m of
      [(key, arr)] \<Rightarrow> \<exists>out. GoSliceFullList (Some m) offset perPage = Some out \<and>
        map_of out = (map_of m)(key \<mapsto> JArray (if offset + perPage < 2 ^ 63 then jqPage offset perPage arr else [])) \<and>
        concat (map (\<lambda>p. jqPage (int p * perPage) perPage arr) [0..<length arr]) = arr
    | _ \<Rightarrow> GoSliceFullList (Some m) offset perPage = None"
proof (cases "\<exists>key arr. arrayFields m = [(key, arr)]")
  case True
  then obtain key arr where a: "arrayFields m = [(key, arr)]" by blast
  obtain s e where b: "sliceBounds (int (length arr)) offset perPage = (s, e)" by fastforce
  let ?out = "aput (filter (\<lambda>(k, v). k \<noteq> key) m) key (JArray (servedPage offset perPage arr))"
  have "GoSliceFullList (Some m) offset perPage = Some ?out"
    using assms(3) a b sliceBounds_page [OF assms(2-5) b] by (simp add: GoSliceFullList_def)
  moreover have "map_of (filter (\<lambda>(k, v). k \<noteq> key) m) k = (if k = key then None else map_of m k)" for k
    by (induction m) auto
  then have "map_of ?out = (map_of m)(key \<mapsto> JArray (servedPage offset perPage arr))"
    by (simp add: fun_eq_iff)
  moreover have "concat (map (\<lambda>p. jqPage (int p * perPage) perPage arr) [0..<length arr]) = arr"
    using pages_tile [of "nat perPage" arr "length arr"] assms(3) by (cases "arr = []") simp_all
  ultimately show ?thesis by (simp add: a servedPage_def)
next
  case False
  then show ?thesis by (auto simp: GoSliceFullList_def split: list.split)
qed

lemma GoSliceFullList_is_jq_slice_witness:
  "case arrayFields [(''list'', JArray [JNull, JBool True, JNumber ''7'']), (''kind'', JString ''x'')] of
      [(key, arr)] \<Rightarrow> \<exists>out. GoSliceFullList (Some [(''list'', JArray [JNull, JBool True, JNumber ''7'']),
          (''kind'', JString ''x'')]) 2 2 = Some out \<and>
        map_of out ''list'' = Some (JArray [JNumber ''7''])
    | _ \<Rightarrow> False"
proof -
  have a: "arrayFields [(''list'', JArray [JNull, JBool True, JNumber ''7'']), (''kind'', JString ''x'')] =
      [(''list'', [JNull, JBool True, JNumber ''7''])]" by (simp add: arrayFields_def map_filter_simps)
  have u: "[2..3] = [2, 3::int]" by (simp add: upto.simps)
  show ?thesis
    using GoSliceFullList_is_jq_slice [of "[(''list'', JArray [JNull, JBool True, JNumber ''7'']), (''kind'', JString ''x'')]" 2 2]
    by (auto simp: a jqPage_def u)
qed

end
