(* ===== verification/ResolvedStore.thy ===== *)
theory ResolvedStore
  imports ResolvedKey
begin

text \<open>
  The resolved-output cache (cache/resolved.go, cache/ra\_full\_list\_layers.go, cache/served\_cell.go,
  cache/seed\_origin.go, cache/refresher\_terminal.go, cache/put\_gated.go): state and operations.

  The store's mutex makes every operation one step on the state. The list of elements is the list of
  their keys, most recently used first, and the index gives the element of a key. The state also holds
  what the operations read and write outside the struct: the clock, the refresh suppressions, the
  declined-external marks, the two sequences, the incremental list cells, the dep edges recorded under
  a key and the keys an edge holder holds. A counter is a 64-bit word. Calls into components that the
  store only notifies are logged in order. An entry is a value with the identity of its object
  (\<open>en_id\<close>); each write is given a fresh object, as the resolvers do.

  Instants count nanoseconds from the zero \<open>time.Time\<close>. Sizes are integers: the bodies a process
  holds do not add up to \<open>2 ^ 63\<close> bytes.
\<close>

section \<open>State\<close>

type_synonym hitter = "gostring \<times> gostring list"

record ResolvedEntry =
  en_id :: nat
  RawJSON :: gostring
  ItemsLen :: nat
  listCell :: "nat option"
  Pinned :: bool
  contentVersion :: "64 word"
  recentHitters :: "hitter list option"
  TTLOverride :: int
  ExternalTTL :: bool
  SeededAtBoot :: bool
  StaleDerived :: bool
  SeedOrigin :: gostring
  Inputs :: "ResolvedKeyInputs option"
  CreatedAt :: int
  BornAt :: int
  resolveStart :: "64 word"
  hasResolveStart :: bool

record lruItem =
  it_key :: gostring
  it_entry :: ResolvedEntry
  it_bytes :: int
  it_extrasHash :: gostring
  it_gen :: "64 word"
  it_putSeq :: "64 word"
  it_lastRead :: int
  it_seedHitSeen :: bool

record tombstone =
  tb_gen :: "64 word"
  tb_expireAt :: int

text \<open>What the store reads of an incremental list cell: anchored, and the body and item count of its generation.\<close>

record listCellState =
  lc_anchored :: bool
  lc_gen :: "(gostring \<times> nat) option"
  lc_bodySeq :: "64 word"

record DepKey =
  dk_GVR :: "gostring \<times> gostring \<times> gostring"
  dk_Namespace :: gostring
  dk_Name :: gostring

datatype counter =
    HitTotal | MissTotal | StoreTotal
  | EvictLRUTotal | EvictTTLTotal | EvictMaxAgeTotal | EvictDeleteTotal | EvictNoRepresentativeTotal
  | EvictMaxAgeWarmCustomerTotal | EvictMaxAgeWarmInternalTotal | EvictTTLWarmCustomerTotal
  | RemintTotal | RemintByClass gostring | RemintRefusedColdTotal | RemintDeadlineEnqueuedTotal
  | ProactiveRefreshTotal | PutRefusedGenerationMovedTotal
  | ClassStoreTotal gostring | ClassEvictTotal gostring
  | ResidentPinTotal | ResidentDemoteTotal
  | SeedSeeded gostring | SeedHits gostring | SeedCellsHit gostring | DeclinedExternalRetired
  | SuppressedResidentGauge | WarmPastMaxAgeGauge | WarmSeededGauge | WarmLastReadGauge
  | OldestWarmBornAgeGauge | WarmInLeadWindowGauge | WarmKeyedPageGauge nat | WarmKeyedExtrasGauge nat

datatype storeCall =
    NoteServeWhileDirty gostring
  | EvictDirtyWindow gostring
  | NoteEntryClass gostring gostring
  | EndKnownStale gostring
  | NoteStalePushPut gostring ResolvedEntry
  | NoteRefreshWrite gostring bool
  | NoteRefreshPut gostring gostring bool
  | RemarkIfDepsMoved gostring bool
  | LayerRemark gostring
  | ListCellClosed nat gostring
  | EnqueueRefresh gostring

record store =
  st_now :: int
  st_order :: "gostring list"
  st_index :: "gostring \<Rightarrow> lruItem option"
  maxEntries :: int
  maxBytes :: int
  st_ttl :: int
  curBytes :: int
  maxResidentBytes :: int
  curResidentBytes :: int
  residentEntries :: int
  maxEntryAge :: int
  tombstones :: "(gostring \<times> tombstone) list"
  tombstoneTTL :: int
  tombstoneSweepAt :: int
  byRA :: "gostring \<Rightarrow> (gostring \<times> 64 word) list"
  byWidget :: "gostring \<Rightarrow> (gostring \<times> 64 word) list"
  st_count :: "counter \<Rightarrow> 64 word"
  refreshSuppressed :: "gostring \<Rightarrow> gostring option"
  declinedExternal :: "gostring set"
  storePutSeq :: "64 word"
  raContentVersionSeq :: "64 word"
  listCells :: "nat \<Rightarrow> listCellState"
  depEdges :: "gostring \<Rightarrow> DepKey list"
  edgeHolders :: "gostring set"
  st_calls :: "storeCall list"

definition bump :: "counter \<Rightarrow> store \<Rightarrow> store" where
  "bump c s = s\<lparr>st_count := (st_count s)(c := st_count s c + 1)\<rparr>"

definition notify :: "storeCall \<Rightarrow> store \<Rightarrow> store" where
  "notify c s = s\<lparr>st_calls := st_calls s @ [c]\<rparr>"

definition bumpIf :: "bool \<Rightarrow> counter \<Rightarrow> store \<Rightarrow> store" where
  "bumpIf b c s = (if b then bump c s else s)"

section \<open>Construction\<close>

definition nanos :: int where "nanos = 1000000000"

definition defaultResolvedCacheMaxEntries :: int where "defaultResolvedCacheMaxEntries = 100000"
definition defaultResolvedCacheMaxBytes :: int where "defaultResolvedCacheMaxBytes = 2 * 1024 * 1024 * 1024"
definition defaultResolvedCacheTTLSeconds :: int where "defaultResolvedCacheTTLSeconds = 3600"
definition defaultResolvedCacheMaxEntryAgeSeconds :: int where "defaultResolvedCacheMaxEntryAgeSeconds = 86400"
definition defaultResolvedCacheTombstoneTTLSeconds :: int where "defaultResolvedCacheTombstoneTTLSeconds = 300"
definition defaultResolvedCacheMaxResidentBytes :: int where "defaultResolvedCacheMaxResidentBytes = 512 * 1024 * 1024"

text \<open>The first argument is what the process holds outside the new store: clock, cells, edges.\<close>

definition newResolvedCache :: "store \<Rightarrow> int \<Rightarrow> int \<Rightarrow> int \<Rightarrow> store" where
  "newResolvedCache env mEntries mBytes ttl0 = env\<lparr>
     st_order := [], st_index := (\<lambda>_. None),
     maxEntries := (if mEntries \<le> 0 then defaultResolvedCacheMaxEntries else mEntries),
     maxBytes := (if mBytes \<le> 0 then defaultResolvedCacheMaxBytes else mBytes),
     st_ttl := (if ttl0 \<le> 0 then defaultResolvedCacheTTLSeconds * nanos else ttl0),
     maxEntryAge := defaultResolvedCacheMaxEntryAgeSeconds * nanos,
     maxResidentBytes := defaultResolvedCacheMaxResidentBytes,
     tombstones := [], tombstoneTTL := defaultResolvedCacheTombstoneTTLSeconds * nanos,
     curBytes := 0, curResidentBytes := 0, residentEntries := 0, tombstoneSweepAt := 0,
     byRA := (\<lambda>_. []), byWidget := (\<lambda>_. []), st_count := (\<lambda>_. 0)\<rparr>"

section \<open>Entries\<close>

definition isClass :: "gostring \<Rightarrow> ResolvedEntry \<Rightarrow> bool" where
  "isClass c e = (case Inputs e of None \<Rightarrow> False | Some inp \<Rightarrow> CacheEntryClass inp = c)"

definition isApistageEntry :: "ResolvedEntry \<Rightarrow> bool" where
  "isApistageEntry e = isClass CacheEntryClassApistage e"

definition isWidgetContentEntry :: "ResolvedEntry \<Rightarrow> bool" where
  "isWidgetContentEntry e = isClass CacheEntryClassWidgetContent e"

definition isRAFullListEntry :: "ResolvedEntry \<Rightarrow> bool" where
  "isRAFullListEntry e = isClass CacheEntryClassRAFullList e"

definition incremental :: "store \<Rightarrow> ResolvedEntry \<Rightarrow> bool" where
  "incremental s e = (case listCell e of None \<Rightarrow> False | Some c \<Rightarrow> lc_anchored (listCells s c))"

definition Raw :: "store \<Rightarrow> ResolvedEntry \<Rightarrow> gostring" where
  "Raw s e = (case listCell e of None \<Rightarrow> RawJSON e
     | Some c \<Rightarrow> (case lc_gen (listCells s c) of None \<Rightarrow> [] | Some g \<Rightarrow> fst g))"

definition RawLen :: "store \<Rightarrow> ResolvedEntry \<Rightarrow> int" where
  "RawLen s e = (case listCell e of None \<Rightarrow> int (length (RawJSON e))
     | Some c \<Rightarrow> (case lc_gen (listCells s c) of None \<Rightarrow> 0 | Some g \<Rightarrow> int (length (fst g))))"

definition itemCount :: "store \<Rightarrow> ResolvedEntry \<Rightarrow> int" where
  "itemCount s e = (case listCell e of
       Some c \<Rightarrow> (case lc_gen (listCells s c) of Some g \<Rightarrow> int (snd g) | None \<Rightarrow> 0)
     | None \<Rightarrow> int (ItemsLen e))"

definition itemsTreeOverheadFactor :: int where "itemsTreeOverheadFactor = 3"

definition entryBytes :: "store \<Rightarrow> ResolvedEntry \<Rightarrow> int" where
  "entryBytes s e =
     (if listCell e \<noteq> None then
        (let b = RawLen s e in if itemCount s e > 0 then b + b * itemsTreeOverheadFactor else b)
      else
        (let b = int (length (RawJSON e))
         in if ItemsLen e > 0 then b + int (length (RawJSON e)) * itemsTreeOverheadFactor else b))"

definition extrasHashForEntry :: "ResolvedEntry \<Rightarrow> gostring" where
  "extrasHashForEntry e = (case Inputs e of None \<Rightarrow> [] | Some inp \<Rightarrow> HashExtras (in_Extras inp))"

section \<open>Ages\<close>

definition effectiveTTLLocked :: "store \<Rightarrow> ResolvedEntry \<Rightarrow> int" where
  "effectiveTTLLocked s e =
     (if TTLOverride e > 0 \<and> (st_ttl s \<le> 0 \<or> TTLOverride e < st_ttl s) then TTLOverride e else st_ttl s)"

definition itemExpiredLocked :: "store \<Rightarrow> lruItem \<Rightarrow> bool \<times> bool" where
  "itemExpiredLocked s it =
     (let e = it_entry it; eff = effectiveTTLLocked s e in
      if incremental s e then (False, False)
      else (eff > 0 \<and> timeSub (st_now s) (CreatedAt e) > eff,
            maxEntryAge s > 0 \<and> BornAt e \<noteq> 0 \<and> timeSub (st_now s) (BornAt e) > maxEntryAge s))"

definition warmLocked :: "store \<Rightarrow> lruItem \<Rightarrow> bool" where
  "warmLocked s it \<longleftrightarrow> SeededAtBoot (it_entry it) \<or>
     it_lastRead it \<noteq> 0 \<and> st_ttl s > 0 \<and> timeSub (st_now s) (it_lastRead it) < st_ttl s"

definition remintLead :: "store \<Rightarrow> int" where
  "remintLead s = (let lead = maxEntryAge s div 2
     in if st_ttl s > 0 \<and> st_ttl s < lead then st_ttl s else lead)"

definition inRemintWindowLocked :: "lruItem \<Rightarrow> store \<Rightarrow> bool \<times> store" where
  "inRemintWindowLocked it s =
     (if maxEntryAge s \<le> 0 \<or> BornAt (it_entry it) = 0 then (False, s)
      else if timeSub (st_now s) (BornAt (it_entry it)) < maxEntryAge s - remintLead s then (False, s)
      else if \<not> warmLocked s it then (False, bump RemintRefusedColdTotal s)
      else (True, s))"

section \<open>Generations\<close>

definition tombstoneExpiredLocked :: "store \<Rightarrow> tombstone \<Rightarrow> bool" where
  "tombstoneExpiredLocked s t \<longleftrightarrow> tb_expireAt t \<noteq> 0 \<and> st_now s > tb_expireAt t"

definition currentGenLocked :: "gostring \<Rightarrow> store \<Rightarrow> 64 word \<times> store" where
  "currentGenLocked key s = (case st_index s key of
       Some it \<Rightarrow> (it_gen it, s)
     | None \<Rightarrow> (case map_of (tombstones s) key of
           Some t \<Rightarrow>
             if tombstoneExpiredLocked s t then (0, s\<lparr>tombstones := AList.delete key (tombstones s)\<rparr>)
             else (tb_gen t, s)
         | None \<Rightarrow> (0, s)))"

definition CaptureGen :: "gostring \<Rightarrow> store \<Rightarrow> 64 word \<times> store" where
  "CaptureGen key s = currentGenLocked key s"

definition maybeSweepTombstonesLocked :: "store \<Rightarrow> store" where
  "maybeSweepTombstonesLocked s =
     (if tombstoneTTL s \<le> 0 \<or> tombstones s = [] then s
      else if tombstoneSweepAt s \<noteq> 0 \<and> timeSub (st_now s) (tombstoneSweepAt s) < tombstoneTTL s then s
      else s\<lparr>tombstoneSweepAt := st_now s,
             tombstones := filter (\<lambda>(k, t). \<not> (tb_expireAt t \<noteq> 0 \<and> st_now s > tb_expireAt t)) (tombstones s)\<rparr>)"

definition bumpGenTombstoneLocked :: "gostring \<Rightarrow> 64 word \<Rightarrow> store \<Rightarrow> store" where
  "bumpGenTombstoneLocked key gen s =
     (if tombstoneTTL s \<le> 0 then s
      else maybeSweepTombstonesLocked (s\<lparr>tombstones := aput (tombstones s) key
             \<lparr>tb_gen = gen + 1, tb_expireAt = st_now s + tombstoneTTL s\<rparr>\<rparr>))"

definition SetTombstoneTTL :: "int \<Rightarrow> store \<Rightarrow> store" where
  "SetTombstoneTTL d s = s\<lparr>tombstoneTTL := d\<rparr>"

section \<open>Contexts\<close>

text \<open>
  What an operation reads of its context: the dry-run flag and the dep-generation sinks, the
  innermost first and its ancestors after it.
\<close>

record depGenSink =
  sk_startSeq :: "64 word"
  sk_layered :: "(gostring \<times> 64 word) list"
  sk_key :: gostring
  sk_own :: "DepKey list"

record resolveCtx =
  rc_inert :: bool
  rc_sinks :: "depGenSink list"

definition backgroundCtx :: resolveCtx where
  "backgroundCtx = \<lparr>rc_inert = False, rc_sinks = []\<rparr>"

definition DepGenStartSeqFromContext :: "resolveCtx \<Rightarrow> 64 word \<times> bool" where
  "DepGenStartSeqFromContext ctx = (case rc_sinks ctx of [] \<Rightarrow> (0, False) | sk # _ \<Rightarrow> (sk_startSeq sk, True))"

section \<open>Dep edges\<close>

definition stripDepEdges :: "gostring \<Rightarrow> store \<Rightarrow> store" where
  "stripDepEdges key s = s\<lparr>depEdges := (depEdges s)(key := [])\<rparr>"

definition releaseUnstoredLocked :: "gostring \<Rightarrow> store \<Rightarrow> store" where
  "releaseUnstoredLocked key s =
     (if st_index s key \<noteq> None then s
      else if key \<in> edgeHolders s then s
      else stripDepEdges key s)"

text \<open>
  The first sink in the chain that populates the key re-records what is missing of its own edges. The
  pointer test that skips the loop when nothing was stripped is left out: it only saves the loop.
\<close>

definition reassertOwnEdges :: "resolveCtx \<Rightarrow> gostring \<Rightarrow> store \<Rightarrow> store" where
  "reassertOwnEdges ctx key s =
     (if key = [] then s
      else case find (\<lambda>sk. sk_key sk = key) (rc_sinks ctx) of None \<Rightarrow> s
      | Some sk \<Rightarrow> s\<lparr>depEdges := (depEdges s)(key :=
          foldl (\<lambda>es dk. if dk \<in> set es then es else es @ [dk]) (depEdges s key) (sk_own sk))\<rparr>)"

section \<open>Layers\<close>

text \<open>
  The full-list cells a widget cell was sliced from, in both directions. A missing inner map is the
  empty one, so deleting an inner map that became empty needs no step.
\<close>

definition dropWidgetLocked :: "gostring \<Rightarrow> store \<Rightarrow> store" where
  "dropWidgetLocked w s = s\<lparr>
     byRA := (\<lambda>ra. if map_of (byWidget s w) ra \<noteq> None then AList.delete w (byRA s ra) else byRA s ra),
     byWidget := (byWidget s)(w := [])\<rparr>"

definition dropEdgeLocked :: "gostring \<Rightarrow> gostring \<Rightarrow> store \<Rightarrow> store" where
  "dropEdgeLocked ra w s = s\<lparr>byRA := (byRA s)(ra := AList.delete w (byRA s ra)),
     byWidget := (byWidget s)(w := AList.delete ra (byWidget s w))\<rparr>"

definition oldestVersion :: "(gostring \<times> 64 word) list \<Rightarrow> gostring \<times> 64 word \<Rightarrow> (gostring \<times> 64 word) list" where
  "oldestVersion out src = (case map_of out (fst src) of
       None \<Rightarrow> aput out (fst src) (snd src)
     | Some v \<Rightarrow> if snd src < v then aput out (fst src) (snd src) else out)"

definition sinkSources :: "resolveCtx \<Rightarrow> (gostring \<times> 64 word) list option" where
  "sinkSources ctx = (case rc_sinks ctx of [] \<Rightarrow> None
     | sk # _ \<Rightarrow> Some (foldl oldestVersion [] (sk_layered sk)))"

definition sameBytesPrior :: "gostring \<Rightarrow> ResolvedEntry \<Rightarrow> store \<Rightarrow> ResolvedEntry option" where
  "sameBytesPrior key e s = (case st_index s key of None \<Rightarrow> None
     | Some it \<Rightarrow> if Raw s (it_entry it) = Raw s e then Some (it_entry it) else None)"

definition raLayerEqualOf :: "ResolvedEntry \<Rightarrow> ResolvedEntry option \<Rightarrow> ResolvedEntry option" where
  "raLayerEqualOf e same =
     (if \<not> isRAFullListEntry e then None
      else case same of None \<Rightarrow> None
      | Some p \<Rightarrow> if isRAFullListEntry p \<and> contentVersion p \<noteq> 0 then Some p else None)"

definition raLayerEqualPrior :: "gostring \<Rightarrow> ResolvedEntry \<Rightarrow> store \<Rightarrow> ResolvedEntry option" where
  "raLayerEqualPrior key e s =
     (if \<not> isRAFullListEntry e then None else raLayerEqualOf e (sameBytesPrior key e s))"

definition raLayerConfirmPriorLocked :: "gostring \<Rightarrow> ResolvedEntry option \<Rightarrow> store \<Rightarrow> ResolvedEntry option" where
  "raLayerConfirmPriorLocked key equalPrior s = (case equalPrior of None \<Rightarrow> None
     | Some p \<Rightarrow> (case st_index s key of None \<Rightarrow> None
         | Some it \<Rightarrow> if en_id (it_entry it) = en_id p then Some p else None))"

text \<open>Writing a field of the entry object just stored, which the index may hold.\<close>

definition setEntryVersion :: "gostring \<Rightarrow> nat \<Rightarrow> 64 word \<Rightarrow> store \<Rightarrow> store" where
  "setEntryVersion key ptr v s = (case st_index s key of None \<Rightarrow> s
     | Some it \<Rightarrow> if en_id (it_entry it) = ptr
         then s\<lparr>st_index := (st_index s)(key \<mapsto> it\<lparr>it_entry := (it_entry it)\<lparr>contentVersion := v\<rparr>\<rparr>)\<rparr>
         else s)"

definition recordSource :: "gostring \<Rightarrow> store \<Rightarrow> gostring \<times> 64 word \<Rightarrow> store" where
  "recordSource w s src = s\<lparr>byRA := (byRA s)(fst src := aput (byRA s (fst src)) w (snd src)),
     byWidget := (byWidget s)(w := aput (byWidget s w) (fst src) (snd src))\<rparr>"

definition staleSource :: "store \<Rightarrow> gostring \<times> 64 word \<Rightarrow> bool" where
  "staleSource s src = (case st_index s (fst src) of None \<Rightarrow> True
     | Some it \<Rightarrow> contentVersion (it_entry it) \<noteq> snd src)"

definition raLayerCommitLocked ::
  "resolveCtx \<Rightarrow> bool \<Rightarrow> gostring \<Rightarrow> ResolvedEntry option \<Rightarrow> ResolvedEntry \<Rightarrow> store \<Rightarrow> gostring list \<times> store" where
  "raLayerCommitLocked ctx provenanceKnown key samePrior e s =
     (if isRAFullListEntry e then
        (case samePrior of
           Some p \<Rightarrow> ([], setEntryVersion key (en_id e) (contentVersion p) s)
         | None \<Rightarrow>
             (let v = raContentVersionSeq s + 1;
                  s' = setEntryVersion key (en_id e) v (s\<lparr>raContentVersionSeq := v\<rparr>)
              in (map fst (filter (\<lambda>(w, u). u \<noteq> v \<and> st_index s' w \<noteq> None) (byRA s' key)), s')))
      else
        (let srcs = (if provenanceKnown then sinkSources ctx else None);
             s' = dropWidgetLocked key s
         in case srcs of None \<Rightarrow> ([], s')
            | Some [] \<Rightarrow> ([], s')
            | Some sources \<Rightarrow>
                (let resident = st_index s' key \<noteq> None;
                     stale = list_ex (staleSource s') sources;
                     s'' = (if resident then foldl (recordSource key) s' sources else s')
                 in (if stale \<and> resident then [key] else [], s''))))"

definition raLayerForgetLocked :: "gostring \<Rightarrow> store \<Rightarrow> store" where
  "raLayerForgetLocked key s = dropWidgetLocked key s"

definition ForgetRAFullListConsumer :: "gostring \<Rightarrow> gostring \<Rightarrow> store \<Rightarrow> store" where
  "ForgetRAFullListConsumer ra w s = (if ra = [] \<or> w = [] then s else dropEdgeLocked ra w s)"

definition remarkLayerConsumers :: "gostring list \<Rightarrow> store \<Rightarrow> store" where
  "remarkLayerConsumers keys s = foldl (\<lambda>s w. notify (LayerRemark w) s) s keys"

section \<open>Removal\<close>

definition clearRefreshSuppression :: "gostring \<Rightarrow> store \<Rightarrow> store" where
  "clearRefreshSuppression key s = s\<lparr>refreshSuppressed := (refreshSuppressed s)(key := None)\<rparr>"

definition NoteRefreshDecline :: "gostring \<Rightarrow> gostring \<Rightarrow> bool \<Rightarrow> store \<Rightarrow> bool \<times> store" where
  "NoteRefreshDecline key reason permanent s =
     (if key = [] then (False, s)
      else if refreshSuppressed s key \<noteq> None then (True, s)
      else if \<not> permanent then (False, s)
      else (True, s\<lparr>refreshSuppressed := (refreshSuppressed s)(key \<mapsto> reason)\<rparr>))"

definition closeListCellOf :: "ResolvedEntry \<Rightarrow> gostring \<Rightarrow> store \<Rightarrow> store" where
  "closeListCellOf e reason s = (case listCell e of None \<Rightarrow> s
     | Some c \<Rightarrow> if \<not> lc_anchored (listCells s c) then s
         else notify (ListCellClosed c reason)
           (s\<lparr>listCells := (listCells s)(c := (listCells s c)\<lparr>lc_anchored := False\<rparr>)\<rparr>))"

definition floor0 :: "int \<Rightarrow> int" where "floor0 n = (if n < 0 then 0 else n)"

definition debit :: "lruItem \<Rightarrow> store \<Rightarrow> store" where
  "debit it s =
     (if Pinned (it_entry it)
      then s\<lparr>curResidentBytes := floor0 (curResidentBytes s - it_bytes it),
             residentEntries := floor0 (residentEntries s - 1)\<rparr>
      else s\<lparr>curBytes := floor0 (curBytes s - it_bytes it)\<rparr>)"

definition countClassEvict :: "ResolvedEntry \<Rightarrow> store \<Rightarrow> store" where
  "countClassEvict e s =
     bumpIf (isRAFullListEntry e) (ClassEvictTotal CacheEntryClassRAFullList)
       (bumpIf (isWidgetContentEntry e) (ClassEvictTotal CacheEntryClassWidgetContent)
         (bumpIf (isApistageEntry e) (ClassEvictTotal CacheEntryClassApistage) s))"

text \<open>\<open>delete(c.index, item.key)\<close> and \<open>c.order.Remove(el)\<close>; the element is named by its key.\<close>

definition detach :: "gostring \<Rightarrow> lruItem \<Rightarrow> store \<Rightarrow> store" where
  "detach el it s = s\<lparr>st_index := (st_index s)(it_key it := None), st_order := remove1 el (st_order s)\<rparr>"

definition removeElementLocked :: "gostring \<Rightarrow> lruItem \<Rightarrow> store \<Rightarrow> store" where
  "removeElementLocked el it s =
     (let s = bumpGenTombstoneLocked (it_key it) (it_gen it) s;
          s = detach el it s;
          s = raLayerForgetLocked (it_key it) s;
          s = closeListCellOf (it_entry it) ''evicted'' s;
          s = clearRefreshSuppression (it_key it) s;
          s = notify (EvictDirtyWindow (it_key it)) s;
          s = debit it s;
          s = countClassEvict (it_entry it) s
      in stripDepEdges (it_key it) s)"

definition deleteForDep :: "gostring \<Rightarrow> store \<Rightarrow> bool \<times> store" where
  "deleteForDep key s = (case st_index s key of None \<Rightarrow> (False, s)
     | Some it \<Rightarrow>
         (let s = bumpGenTombstoneLocked (it_key it) (it_gen it) s;
              s = detach key it s;
              s = raLayerForgetLocked (it_key it) s;
              s = closeListCellOf (it_entry it) ''deleted'' s;
              s = stripDepEdges (it_key it) s;
              s = clearRefreshSuppression (it_key it) s;
              s = notify (EvictDirtyWindow (it_key it)) s;
              s = debit it s;
              s = bump EvictDeleteTotal s
          in (True, countClassEvict (it_entry it) s)))"

section \<open>What the steps leave alone\<close>

lemma bump_fields [simp]:
  "st_now (bump c s) = st_now s" "st_order (bump c s) = st_order s" "st_index (bump c s) = st_index s"
  "maxEntries (bump c s) = maxEntries s" "maxBytes (bump c s) = maxBytes s" "st_ttl (bump c s) = st_ttl s"
  "curBytes (bump c s) = curBytes s" "maxResidentBytes (bump c s) = maxResidentBytes s"
  "curResidentBytes (bump c s) = curResidentBytes s" "residentEntries (bump c s) = residentEntries s"
  "maxEntryAge (bump c s) = maxEntryAge s" "tombstones (bump c s) = tombstones s"
  "tombstoneTTL (bump c s) = tombstoneTTL s" "tombstoneSweepAt (bump c s) = tombstoneSweepAt s"
  "byRA (bump c s) = byRA s" "byWidget (bump c s) = byWidget s"
  "refreshSuppressed (bump c s) = refreshSuppressed s" "storePutSeq (bump c s) = storePutSeq s"
  "raContentVersionSeq (bump c s) = raContentVersionSeq s" "listCells (bump c s) = listCells s"
  "depEdges (bump c s) = depEdges s" "edgeHolders (bump c s) = edgeHolders s"
  "declinedExternal (bump c s) = declinedExternal s"
  by (simp_all add: bump_def)

lemma notify_fields [simp]:
  "st_now (notify c s) = st_now s" "st_order (notify c s) = st_order s" "st_index (notify c s) = st_index s"
  "maxEntries (notify c s) = maxEntries s" "maxBytes (notify c s) = maxBytes s"
  "st_ttl (notify c s) = st_ttl s" "curBytes (notify c s) = curBytes s"
  "maxResidentBytes (notify c s) = maxResidentBytes s" "curResidentBytes (notify c s) = curResidentBytes s"
  "residentEntries (notify c s) = residentEntries s" "maxEntryAge (notify c s) = maxEntryAge s"
  "tombstones (notify c s) = tombstones s" "tombstoneTTL (notify c s) = tombstoneTTL s"
  "tombstoneSweepAt (notify c s) = tombstoneSweepAt s" "byRA (notify c s) = byRA s"
  "byWidget (notify c s) = byWidget s" "refreshSuppressed (notify c s) = refreshSuppressed s"
  "storePutSeq (notify c s) = storePutSeq s" "raContentVersionSeq (notify c s) = raContentVersionSeq s"
  "listCells (notify c s) = listCells s" "depEdges (notify c s) = depEdges s"
  "edgeHolders (notify c s) = edgeHolders s" "declinedExternal (notify c s) = declinedExternal s"
  by (simp_all add: notify_def)

lemma bumpIf_fields [simp]:
  "st_now (bumpIf b c s) = st_now s" "st_order (bumpIf b c s) = st_order s"
  "st_index (bumpIf b c s) = st_index s" "maxEntries (bumpIf b c s) = maxEntries s"
  "maxBytes (bumpIf b c s) = maxBytes s" "st_ttl (bumpIf b c s) = st_ttl s"
  "curBytes (bumpIf b c s) = curBytes s" "maxResidentBytes (bumpIf b c s) = maxResidentBytes s"
  "curResidentBytes (bumpIf b c s) = curResidentBytes s" "residentEntries (bumpIf b c s) = residentEntries s"
  "maxEntryAge (bumpIf b c s) = maxEntryAge s" "tombstones (bumpIf b c s) = tombstones s"
  "tombstoneTTL (bumpIf b c s) = tombstoneTTL s" "tombstoneSweepAt (bumpIf b c s) = tombstoneSweepAt s"
  "byRA (bumpIf b c s) = byRA s" "byWidget (bumpIf b c s) = byWidget s"
  "refreshSuppressed (bumpIf b c s) = refreshSuppressed s" "storePutSeq (bumpIf b c s) = storePutSeq s"
  "raContentVersionSeq (bumpIf b c s) = raContentVersionSeq s" "listCells (bumpIf b c s) = listCells s"
  "depEdges (bumpIf b c s) = depEdges s" "edgeHolders (bumpIf b c s) = edgeHolders s"
  "declinedExternal (bumpIf b c s) = declinedExternal s"
  by (simp_all add: bumpIf_def)

lemma countClassEvict_fields [simp]:
  "st_now (countClassEvict e s) = st_now s" "st_order (countClassEvict e s) = st_order s"
  "st_index (countClassEvict e s) = st_index s" "maxEntries (countClassEvict e s) = maxEntries s"
  "maxBytes (countClassEvict e s) = maxBytes s" "st_ttl (countClassEvict e s) = st_ttl s"
  "curBytes (countClassEvict e s) = curBytes s" "maxResidentBytes (countClassEvict e s) = maxResidentBytes s"
  "curResidentBytes (countClassEvict e s) = curResidentBytes s"
  "residentEntries (countClassEvict e s) = residentEntries s"
  "maxEntryAge (countClassEvict e s) = maxEntryAge s" "tombstones (countClassEvict e s) = tombstones s"
  "tombstoneTTL (countClassEvict e s) = tombstoneTTL s"
  "tombstoneSweepAt (countClassEvict e s) = tombstoneSweepAt s" "byRA (countClassEvict e s) = byRA s"
  "byWidget (countClassEvict e s) = byWidget s"
  "refreshSuppressed (countClassEvict e s) = refreshSuppressed s"
  "storePutSeq (countClassEvict e s) = storePutSeq s"
  "raContentVersionSeq (countClassEvict e s) = raContentVersionSeq s"
  "listCells (countClassEvict e s) = listCells s" "depEdges (countClassEvict e s) = depEdges s"
  "edgeHolders (countClassEvict e s) = edgeHolders s"
  "declinedExternal (countClassEvict e s) = declinedExternal s"
  by (simp_all add: countClassEvict_def)

lemma clearRefreshSuppression_fields [simp]:
  "st_now (clearRefreshSuppression k s) = st_now s" "st_order (clearRefreshSuppression k s) = st_order s"
  "st_index (clearRefreshSuppression k s) = st_index s"
  "maxEntries (clearRefreshSuppression k s) = maxEntries s"
  "maxBytes (clearRefreshSuppression k s) = maxBytes s" "st_ttl (clearRefreshSuppression k s) = st_ttl s"
  "curBytes (clearRefreshSuppression k s) = curBytes s"
  "maxResidentBytes (clearRefreshSuppression k s) = maxResidentBytes s"
  "curResidentBytes (clearRefreshSuppression k s) = curResidentBytes s"
  "residentEntries (clearRefreshSuppression k s) = residentEntries s"
  "maxEntryAge (clearRefreshSuppression k s) = maxEntryAge s"
  "tombstones (clearRefreshSuppression k s) = tombstones s"
  "tombstoneTTL (clearRefreshSuppression k s) = tombstoneTTL s"
  "tombstoneSweepAt (clearRefreshSuppression k s) = tombstoneSweepAt s"
  "byRA (clearRefreshSuppression k s) = byRA s" "byWidget (clearRefreshSuppression k s) = byWidget s"
  "storePutSeq (clearRefreshSuppression k s) = storePutSeq s"
  "raContentVersionSeq (clearRefreshSuppression k s) = raContentVersionSeq s"
  "listCells (clearRefreshSuppression k s) = listCells s"
  "depEdges (clearRefreshSuppression k s) = depEdges s"
  "edgeHolders (clearRefreshSuppression k s) = edgeHolders s"
  "declinedExternal (clearRefreshSuppression k s) = declinedExternal s"
  by (simp_all add: clearRefreshSuppression_def)

lemma stripDepEdges_fields [simp]:
  "st_now (stripDepEdges k s) = st_now s" "st_order (stripDepEdges k s) = st_order s"
  "st_index (stripDepEdges k s) = st_index s" "maxEntries (stripDepEdges k s) = maxEntries s"
  "maxBytes (stripDepEdges k s) = maxBytes s" "st_ttl (stripDepEdges k s) = st_ttl s"
  "curBytes (stripDepEdges k s) = curBytes s" "maxResidentBytes (stripDepEdges k s) = maxResidentBytes s"
  "curResidentBytes (stripDepEdges k s) = curResidentBytes s"
  "residentEntries (stripDepEdges k s) = residentEntries s" "maxEntryAge (stripDepEdges k s) = maxEntryAge s"
  "tombstones (stripDepEdges k s) = tombstones s" "tombstoneTTL (stripDepEdges k s) = tombstoneTTL s"
  "tombstoneSweepAt (stripDepEdges k s) = tombstoneSweepAt s" "byRA (stripDepEdges k s) = byRA s"
  "byWidget (stripDepEdges k s) = byWidget s" "refreshSuppressed (stripDepEdges k s) = refreshSuppressed s"
  "storePutSeq (stripDepEdges k s) = storePutSeq s"
  "raContentVersionSeq (stripDepEdges k s) = raContentVersionSeq s"
  "listCells (stripDepEdges k s) = listCells s" "edgeHolders (stripDepEdges k s) = edgeHolders s"
  "declinedExternal (stripDepEdges k s) = declinedExternal s"
  by (simp_all add: stripDepEdges_def)

lemma dropWidgetLocked_fields [simp]:
  "st_now (dropWidgetLocked k s) = st_now s" "st_order (dropWidgetLocked k s) = st_order s"
  "st_index (dropWidgetLocked k s) = st_index s" "maxEntries (dropWidgetLocked k s) = maxEntries s"
  "maxBytes (dropWidgetLocked k s) = maxBytes s" "st_ttl (dropWidgetLocked k s) = st_ttl s"
  "curBytes (dropWidgetLocked k s) = curBytes s"
  "maxResidentBytes (dropWidgetLocked k s) = maxResidentBytes s"
  "curResidentBytes (dropWidgetLocked k s) = curResidentBytes s"
  "residentEntries (dropWidgetLocked k s) = residentEntries s"
  "maxEntryAge (dropWidgetLocked k s) = maxEntryAge s" "tombstones (dropWidgetLocked k s) = tombstones s"
  "tombstoneTTL (dropWidgetLocked k s) = tombstoneTTL s"
  "tombstoneSweepAt (dropWidgetLocked k s) = tombstoneSweepAt s"
  "refreshSuppressed (dropWidgetLocked k s) = refreshSuppressed s"
  "storePutSeq (dropWidgetLocked k s) = storePutSeq s"
  "raContentVersionSeq (dropWidgetLocked k s) = raContentVersionSeq s"
  "listCells (dropWidgetLocked k s) = listCells s" "depEdges (dropWidgetLocked k s) = depEdges s"
  "edgeHolders (dropWidgetLocked k s) = edgeHolders s"
  "declinedExternal (dropWidgetLocked k s) = declinedExternal s"
  by (simp_all add: dropWidgetLocked_def)

lemma closeListCellOf_fields [simp]:
  "st_now (closeListCellOf e r s) = st_now s" "st_order (closeListCellOf e r s) = st_order s"
  "st_index (closeListCellOf e r s) = st_index s" "maxEntries (closeListCellOf e r s) = maxEntries s"
  "maxBytes (closeListCellOf e r s) = maxBytes s" "st_ttl (closeListCellOf e r s) = st_ttl s"
  "curBytes (closeListCellOf e r s) = curBytes s"
  "maxResidentBytes (closeListCellOf e r s) = maxResidentBytes s"
  "curResidentBytes (closeListCellOf e r s) = curResidentBytes s"
  "residentEntries (closeListCellOf e r s) = residentEntries s"
  "maxEntryAge (closeListCellOf e r s) = maxEntryAge s" "tombstones (closeListCellOf e r s) = tombstones s"
  "tombstoneTTL (closeListCellOf e r s) = tombstoneTTL s"
  "tombstoneSweepAt (closeListCellOf e r s) = tombstoneSweepAt s" "byRA (closeListCellOf e r s) = byRA s"
  "byWidget (closeListCellOf e r s) = byWidget s"
  "refreshSuppressed (closeListCellOf e r s) = refreshSuppressed s"
  "storePutSeq (closeListCellOf e r s) = storePutSeq s"
  "raContentVersionSeq (closeListCellOf e r s) = raContentVersionSeq s"
  "depEdges (closeListCellOf e r s) = depEdges s" "edgeHolders (closeListCellOf e r s) = edgeHolders s"
  "declinedExternal (closeListCellOf e r s) = declinedExternal s"
  by (simp_all add: closeListCellOf_def split: option.split)

lemma debit_fields [simp]:
  "st_now (debit it s) = st_now s" "st_order (debit it s) = st_order s" "st_index (debit it s) = st_index s"
  "maxEntries (debit it s) = maxEntries s" "maxBytes (debit it s) = maxBytes s"
  "st_ttl (debit it s) = st_ttl s" "maxResidentBytes (debit it s) = maxResidentBytes s"
  "maxEntryAge (debit it s) = maxEntryAge s" "tombstones (debit it s) = tombstones s"
  "tombstoneTTL (debit it s) = tombstoneTTL s" "tombstoneSweepAt (debit it s) = tombstoneSweepAt s"
  "byRA (debit it s) = byRA s" "byWidget (debit it s) = byWidget s"
  "refreshSuppressed (debit it s) = refreshSuppressed s" "storePutSeq (debit it s) = storePutSeq s"
  "raContentVersionSeq (debit it s) = raContentVersionSeq s" "listCells (debit it s) = listCells s"
  "depEdges (debit it s) = depEdges s" "edgeHolders (debit it s) = edgeHolders s"
  "declinedExternal (debit it s) = declinedExternal s"
  by (simp_all add: debit_def)

lemma detach_fields [simp]:
  "st_now (detach el it s) = st_now s" "maxEntries (detach el it s) = maxEntries s"
  "maxBytes (detach el it s) = maxBytes s" "st_ttl (detach el it s) = st_ttl s"
  "curBytes (detach el it s) = curBytes s" "maxResidentBytes (detach el it s) = maxResidentBytes s"
  "curResidentBytes (detach el it s) = curResidentBytes s"
  "residentEntries (detach el it s) = residentEntries s" "maxEntryAge (detach el it s) = maxEntryAge s"
  "tombstones (detach el it s) = tombstones s" "tombstoneTTL (detach el it s) = tombstoneTTL s"
  "tombstoneSweepAt (detach el it s) = tombstoneSweepAt s" "byRA (detach el it s) = byRA s"
  "byWidget (detach el it s) = byWidget s" "refreshSuppressed (detach el it s) = refreshSuppressed s"
  "storePutSeq (detach el it s) = storePutSeq s"
  "raContentVersionSeq (detach el it s) = raContentVersionSeq s" "listCells (detach el it s) = listCells s"
  "depEdges (detach el it s) = depEdges s" "edgeHolders (detach el it s) = edgeHolders s"
  "declinedExternal (detach el it s) = declinedExternal s"
  by (simp_all add: detach_def)

lemma bumpGenTombstoneLocked_fields [simp]:
  "st_now (bumpGenTombstoneLocked k g s) = st_now s" "st_order (bumpGenTombstoneLocked k g s) = st_order s"
  "st_index (bumpGenTombstoneLocked k g s) = st_index s"
  "maxEntries (bumpGenTombstoneLocked k g s) = maxEntries s"
  "maxBytes (bumpGenTombstoneLocked k g s) = maxBytes s" "st_ttl (bumpGenTombstoneLocked k g s) = st_ttl s"
  "curBytes (bumpGenTombstoneLocked k g s) = curBytes s"
  "maxResidentBytes (bumpGenTombstoneLocked k g s) = maxResidentBytes s"
  "curResidentBytes (bumpGenTombstoneLocked k g s) = curResidentBytes s"
  "residentEntries (bumpGenTombstoneLocked k g s) = residentEntries s"
  "maxEntryAge (bumpGenTombstoneLocked k g s) = maxEntryAge s"
  "tombstoneTTL (bumpGenTombstoneLocked k g s) = tombstoneTTL s"
  "byRA (bumpGenTombstoneLocked k g s) = byRA s" "byWidget (bumpGenTombstoneLocked k g s) = byWidget s"
  "refreshSuppressed (bumpGenTombstoneLocked k g s) = refreshSuppressed s"
  "storePutSeq (bumpGenTombstoneLocked k g s) = storePutSeq s"
  "raContentVersionSeq (bumpGenTombstoneLocked k g s) = raContentVersionSeq s"
  "listCells (bumpGenTombstoneLocked k g s) = listCells s"
  "depEdges (bumpGenTombstoneLocked k g s) = depEdges s"
  "edgeHolders (bumpGenTombstoneLocked k g s) = edgeHolders s"
  "declinedExternal (bumpGenTombstoneLocked k g s) = declinedExternal s"
  by (simp_all add: bumpGenTombstoneLocked_def maybeSweepTombstonesLocked_def)

lemma detach_map [simp]:
  "st_index (detach el it s) = (st_index s)(it_key it := None)"
  "st_order (detach el it s) = remove1 el (st_order s)"
  by (simp_all add: detach_def)

lemma dropWidgetLocked_layers [simp]:
  "byRA (dropWidgetLocked w s) ra =
     (if map_of (byWidget s w) ra \<noteq> None then AList.delete w (byRA s ra) else byRA s ra)"
  "byWidget (dropWidgetLocked w s) = (byWidget s)(w := [])"
  by (simp_all add: dropWidgetLocked_def)

lemma depEdges_stripDepEdges [simp]: "depEdges (stripDepEdges k s) = (depEdges s)(k := [])"
  by (simp add: stripDepEdges_def)

lemma refreshSuppressed_clear [simp]:
  "refreshSuppressed (clearRefreshSuppression k s) = (refreshSuppressed s)(k := None)"
  by (simp add: clearRefreshSuppression_def)

text \<open>What a removal leaves of the cells and the budgets.\<close>

lemma removeElementLocked_fields [simp]:
  "st_order (removeElementLocked el it s) = remove1 el (st_order s)"
  "st_index (removeElementLocked el it s) = (st_index s)(it_key it := None)"
  "curBytes (removeElementLocked el it s) = curBytes (debit it s)"
  "curResidentBytes (removeElementLocked el it s) = curResidentBytes (debit it s)"
  "residentEntries (removeElementLocked el it s) = residentEntries (debit it s)"
  "maxEntries (removeElementLocked el it s) = maxEntries s" "maxBytes (removeElementLocked el it s) = maxBytes s"
  "st_now (removeElementLocked el it s) = st_now s" "st_ttl (removeElementLocked el it s) = st_ttl s"
  "maxResidentBytes (removeElementLocked el it s) = maxResidentBytes s"
  "maxEntryAge (removeElementLocked el it s) = maxEntryAge s"
  "tombstoneTTL (removeElementLocked el it s) = tombstoneTTL s"
  "tombstones (removeElementLocked el it s) = tombstones (bumpGenTombstoneLocked (it_key it) (it_gen it) s)"
  "byWidget (removeElementLocked el it s) = byWidget (dropWidgetLocked (it_key it) s)"
  "byRA (removeElementLocked el it s) = byRA (dropWidgetLocked (it_key it) s)"
  "storePutSeq (removeElementLocked el it s) = storePutSeq s"
  "raContentVersionSeq (removeElementLocked el it s) = raContentVersionSeq s"
  "depEdges (removeElementLocked el it s) = (depEdges s)(it_key it := [])"
  "refreshSuppressed (removeElementLocked el it s) = (refreshSuppressed s)(it_key it := None)"
  by (simp_all add: removeElementLocked_def Let_def raLayerForgetLocked_def debit_def fun_eq_iff)

section \<open>The eviction sweep\<close>

definition victimOf :: "store \<Rightarrow> (gostring \<times> lruItem) option" where
  "victimOf s = (case find (\<lambda>k. case st_index s k of None \<Rightarrow> False | Some it \<Rightarrow> \<not> Pinned (it_entry it))
      (rev (st_order s)) of None \<Rightarrow> None
    | Some k \<Rightarrow> (case st_index s k of None \<Rightarrow> None | Some it \<Rightarrow> Some (k, it)))"

lemma victimOf_Some:
  "victimOf s = Some (k, it) \<Longrightarrow> k \<in> set (st_order s) \<and> st_index s k = Some it \<and> \<not> Pinned (it_entry it)"
  by (auto simp: victimOf_def dest!: find_SomeD split: option.splits)

text \<open>
  \<open>transientEntries\<close> is read once and counted down. Each turn takes one element off the list, so
  the loop ends.
\<close>

function evictLoop :: "int \<Rightarrow> store \<Rightarrow> store" where
  "evictLoop transientEntries s =
     (if transientEntries > maxEntries s \<or> curBytes s > maxBytes s then
        (case victimOf s of
           None \<Rightarrow> s
         | Some (k, it) \<Rightarrow> evictLoop (transientEntries - 1) (bump EvictLRUTotal (removeElementLocked k it s)))
      else s)"
  by pat_completeness auto
termination
proof (relation "measure (\<lambda>(n, s). length (st_order s))")
  fix n s v k it
  assume "victimOf s = Some v" "(k, it) = v"
  then have "k \<in> set (st_order s)" using victimOf_Some by blast
  then show "((n - 1, bump EvictLRUTotal (removeElementLocked k it s)), (n, s)) \<in> measure (\<lambda>(n, s). length (st_order s))"
    using length_pos_if_in_set [of k "st_order s"] by (simp add: length_remove1)
qed simp

declare evictLoop.simps [simp del]

definition evictUntilUnderCapsLocked :: "store \<Rightarrow> store" where
  "evictUntilUnderCapsLocked s = evictLoop (int (length (st_order s)) - residentEntries s) s"

end
