(* ===== verification/ResolvedPut.thy ===== *)
theory ResolvedPut
  imports ResolvedStore
begin

text \<open>
  The writes and the reads of the resolved-output cache (cache/resolved.go, cache/put\_gated.go,
  cache/served\_cell.go): the put core, the four writes with their generation guards, the gated
  exports, the two reads with their lazy evictions, and the evictions by other components.
\<close>

section \<open>Preparing a write\<close>

definition putPreamble :: "resolveCtx \<Rightarrow> ResolvedEntry \<Rightarrow> store \<Rightarrow> ResolvedEntry \<times> int \<times> gostring" where
  "putPreamble ctx e0 s =
     (let e = (if CreatedAt e0 = 0 then e0\<lparr>CreatedAt := st_now s\<rparr> else e0);
          e = (if BornAt e = 0 then e\<lparr>BornAt := CreatedAt e\<rparr> else e);
          e = (case DepGenStartSeqFromContext ctx of (q, ok) \<Rightarrow> e\<lparr>resolveStart := q, hasResolveStart := ok\<rparr>)
      in (e, entryBytes s e, extrasHashForEntry e))"

section \<open>The put core\<close>

definition unmarkDeclinedExternalOnPut :: "gostring \<Rightarrow> ResolvedEntry \<Rightarrow> store \<Rightarrow> store" where
  "unmarkDeclinedExternalOnPut key e s =
     (if ExternalTTL e then s
      else if key \<in> declinedExternal s
      then bump DeclinedExternalRetired (s\<lparr>declinedExternal := declinedExternal s - {key}\<rparr>) else s)"

definition bumpClassStoreLocked :: "bool \<Rightarrow> bool \<Rightarrow> bool \<Rightarrow> store \<Rightarrow> store" where
  "bumpClassStoreLocked apistage widgetContent raFullList s =
     bumpIf raFullList (ClassStoreTotal CacheEntryClassRAFullList)
       (bumpIf widgetContent (ClassStoreTotal CacheEntryClassWidgetContent)
         (bumpIf apistage (ClassStoreTotal CacheEntryClassApistage) s))"

definition noteEntryClassLocked :: "gostring \<Rightarrow> ResolvedEntry \<Rightarrow> store \<Rightarrow> store" where
  "noteEntryClassLocked key e s = (case Inputs e of None \<Rightarrow> s
     | Some inp \<Rightarrow> if CacheEntryClass inp = [] then s else notify (NoteEntryClass key (CacheEntryClass inp)) s)"

definition seedOrigins :: "gostring list" where "seedOrigins = [''base'', ''learned'']"

definition noteSeedOriginInsertLocked :: "ResolvedEntry \<Rightarrow> store \<Rightarrow> store" where
  "noteSeedOriginInsertLocked e s =
     (if SeedOrigin e \<in> set seedOrigins then bump (SeedSeeded (SeedOrigin e)) s else s)"

definition noteSeedOriginHitLocked :: "lruItem \<Rightarrow> store \<Rightarrow> lruItem \<times> store" where
  "noteSeedOriginHitLocked it s =
     (let g = SeedOrigin (it_entry it) in
      if g \<notin> set seedOrigins then (it, s)
      else if it_seedHitSeen it then (it, bump (SeedHits g) s)
      else (it\<lparr>it_seedHitSeen := True\<rparr>, bump (SeedCellsHit g) (bump (SeedHits g) s)))"

text \<open>The final pin status, with the demotion counted.\<close>

definition priorResident :: "gostring \<Rightarrow> store \<Rightarrow> int" where
  "priorResident key s = (case st_index s key of None \<Rightarrow> 0
     | Some old \<Rightarrow> if Pinned (it_entry old) then it_bytes old else 0)"

definition decidePin :: "gostring \<Rightarrow> int \<Rightarrow> ResolvedEntry \<Rightarrow> store \<Rightarrow> ResolvedEntry \<times> store" where
  "decidePin key bytes e s =
     (if Pinned e then
        (if maxResidentBytes s \<le> 0 then (e\<lparr>Pinned := False\<rparr>, bump ResidentDemoteTotal s)
         else if curResidentBytes s - priorResident key s + bytes > maxResidentBytes s
         then (e\<lparr>Pinned := False\<rparr>, bump ResidentDemoteTotal s)
         else (e, s))
      else (e, s))"

definition credit :: "bool \<Rightarrow> int \<Rightarrow> store \<Rightarrow> store" where
  "credit pinned bytes s =
     (if pinned then bump ResidentPinTotal
        (s\<lparr>curResidentBytes := curResidentBytes s + bytes, residentEntries := residentEntries s + 1\<rparr>)
      else s\<lparr>curBytes := curBytes s + bytes\<rparr>)"

text \<open>The replaced entry's share, without the floor the removals have.\<close>

definition uncredit :: "lruItem \<Rightarrow> store \<Rightarrow> store" where
  "uncredit old s =
     (if Pinned (it_entry old)
      then s\<lparr>curResidentBytes := curResidentBytes s - it_bytes old, residentEntries := residentEntries s - 1\<rparr>
      else s\<lparr>curBytes := curBytes s - it_bytes old\<rparr>)"

definition inheritFrom :: "bool \<Rightarrow> ResolvedEntry \<Rightarrow> ResolvedEntry \<Rightarrow> ResolvedEntry" where
  "inheritFrom freshMint old e =
     (let e = (if \<not> freshMint \<and> BornAt old \<noteq> 0 then e\<lparr>BornAt := BornAt old\<rparr> else e);
          e = (if en_id old \<noteq> en_id e \<and> recentHitters e = None then e\<lparr>recentHitters := recentHitters old\<rparr> else e)
      in e\<lparr>SeedOrigin := SeedOrigin old\<rparr>)"

text \<open>The end of both branches, before the sweep.\<close>

definition countStore :: "gostring \<Rightarrow> ResolvedEntry \<Rightarrow> ResolvedEntry \<Rightarrow> store \<Rightarrow> store" where
  "countStore key e0 e s =
     noteEntryClassLocked key e
       (bumpClassStoreLocked (isApistageEntry e0) (isWidgetContentEntry e0) (isRAFullListEntry e0) (bump StoreTotal s))"

definition replacedItem ::
  "ResolvedEntry \<Rightarrow> int \<Rightarrow> gostring \<Rightarrow> 64 word \<Rightarrow> 64 word \<Rightarrow> lruItem \<Rightarrow> lruItem" where
  "replacedItem e bytes extrasHash gen seq old =
     old\<lparr>it_entry := e, it_bytes := bytes, it_extrasHash := extrasHash, it_gen := gen, it_putSeq := seq\<rparr>"

definition replaceLocked ::
  "gostring \<Rightarrow> ResolvedEntry \<Rightarrow> ResolvedEntry \<Rightarrow> int \<Rightarrow> gostring \<Rightarrow> 64 word \<Rightarrow> bool \<Rightarrow> lruItem \<Rightarrow> store \<Rightarrow> store" where
  "replaceLocked key e0 e bytes extrasHash gen freshMint old s =
     (let s = uncredit old s;
          s = (if en_id (it_entry old) \<noteq> en_id e \<and> listCell (it_entry old) \<noteq> listCell e
               then closeListCellOf (it_entry old) ''replaced'' s else s);
          e = inheritFrom freshMint (it_entry old) e;
          seq = storePutSeq s + 1;
          s = s\<lparr>storePutSeq := seq, st_index := (st_index s)(key \<mapsto> replacedItem e bytes extrasHash gen seq old)\<rparr>;
          s = credit (Pinned e) bytes s;
          s = s\<lparr>st_order := key # remove1 key (st_order s)\<rparr>
      in countStore key e0 e s)"

definition freshItem ::
  "gostring \<Rightarrow> ResolvedEntry \<Rightarrow> int \<Rightarrow> gostring \<Rightarrow> 64 word \<Rightarrow> 64 word \<Rightarrow> lruItem" where
  "freshItem key e bytes extrasHash gen seq =
     \<lparr>it_key = key, it_entry = e, it_bytes = bytes, it_extrasHash = extrasHash, it_gen = gen,
      it_putSeq = seq, it_lastRead = (if \<not> SeededAtBoot e then CreatedAt e else 0), it_seedHitSeen = False\<rparr>"

definition insertLocked ::
  "gostring \<Rightarrow> ResolvedEntry \<Rightarrow> ResolvedEntry \<Rightarrow> int \<Rightarrow> gostring \<Rightarrow> 64 word \<Rightarrow> store \<Rightarrow> store" where
  "insertLocked key e0 e bytes extrasHash gen s =
     (let seq = storePutSeq s + 1;
          s = s\<lparr>storePutSeq := seq, st_order := key # st_order s,
                st_index := (st_index s)(key \<mapsto> freshItem key e bytes extrasHash gen seq)\<rparr>;
          s = credit (Pinned e) bytes s;
          s = countStore key e0 e s
      in noteSeedOriginInsertLocked e s)"

definition placeLocked ::
  "gostring \<Rightarrow> ResolvedEntry \<Rightarrow> int \<Rightarrow> gostring \<Rightarrow> 64 word \<Rightarrow> bool \<Rightarrow> store \<Rightarrow> store" where
  "placeLocked key e0 bytes extrasHash gen freshMint s =
     (case decidePin key bytes e0 s of (e, s) \<Rightarrow>
        (case st_index s key of
           Some old \<Rightarrow> replaceLocked key e0 e bytes extrasHash gen freshMint old s
         | None \<Rightarrow> insertLocked key e0 e bytes extrasHash gen s))"

definition putCoreLocked ::
  "gostring \<Rightarrow> ResolvedEntry \<Rightarrow> int \<Rightarrow> gostring \<Rightarrow> 64 word \<Rightarrow> bool \<Rightarrow> store \<Rightarrow> store" where
  "putCoreLocked key e0 bytes extrasHash gen freshMint s =
     (let s = s\<lparr>tombstones := AList.delete key (tombstones s)\<rparr>;
          s = unmarkDeclinedExternalOnPut key e0 s
      in evictUntilUnderCapsLocked (placeLocked key e0 bytes extrasHash gen freshMint s))"

section \<open>The writes\<close>

text \<open>What is computed before the lock is taken: the stamped entry, its weight and extras hash, and the
  resident prior with the same bytes.\<close>

record prepared =
  pr_entry :: ResolvedEntry
  pr_bytes :: int
  pr_extrasHash :: gostring
  pr_same :: "ResolvedEntry option"
  pr_equalPrior :: "ResolvedEntry option"

definition preparePut :: "resolveCtx \<Rightarrow> gostring \<Rightarrow> ResolvedEntry \<Rightarrow> store \<Rightarrow> prepared" where
  "preparePut ctx key e0 s = (case putPreamble ctx e0 s of (e, b, h) \<Rightarrow>
     \<lparr>pr_entry = e, pr_bytes = b, pr_extrasHash = h, pr_same = None, pr_equalPrior = raLayerEqualPrior key e s\<rparr>)"

definition prepareRefresh :: "resolveCtx \<Rightarrow> gostring \<Rightarrow> ResolvedEntry \<Rightarrow> store \<Rightarrow> prepared" where
  "prepareRefresh ctx key e0 s = (case putPreamble ctx e0 s of (e, b, h) \<Rightarrow>
     (let same = sameBytesPrior key e s
      in \<lparr>pr_entry = e, pr_bytes = b, pr_extrasHash = h, pr_same = same, pr_equalPrior = raLayerEqualOf e same\<rparr>))"

text \<open>The common middle of every accepted write, from the put core to the known-stale end.\<close>

definition storeUnderLock ::
  "resolveCtx \<Rightarrow> bool \<Rightarrow> gostring \<Rightarrow> prepared \<Rightarrow> 64 word \<Rightarrow> bool \<Rightarrow> store \<Rightarrow> gostring list \<times> store" where
  "storeUnderLock ctx provenanceKnown key pr gen freshMint s =
     (let samePrior = raLayerConfirmPriorLocked key (pr_equalPrior pr) s;
          s = putCoreLocked key (pr_entry pr) (pr_bytes pr) (pr_extrasHash pr) gen freshMint s;
          s = reassertOwnEdges ctx key s
      in case raLayerCommitLocked ctx provenanceKnown key samePrior (pr_entry pr) s of
           (remarks, s) \<Rightarrow> (remarks, notify (EndKnownStale key) s))"

definition commitPlain :: "resolveCtx \<Rightarrow> bool \<Rightarrow> gostring \<Rightarrow> prepared \<Rightarrow> store \<Rightarrow> store" where
  "commitPlain ctx provenanceKnown key pr s =
     (let s = clearRefreshSuppression key s in
      case currentGenLocked key s of (gen, s) \<Rightarrow>
      case storeUnderLock ctx provenanceKnown key pr gen False s of (remarks, s) \<Rightarrow>
        remarkLayerConsumers remarks (notify (NoteStalePushPut key (pr_entry pr)) s))"

definition putPlain :: "resolveCtx \<Rightarrow> bool \<Rightarrow> gostring \<Rightarrow> ResolvedEntry \<Rightarrow> store \<Rightarrow> store" where
  "putPlain ctx provenanceKnown key e s =
     (if rc_inert ctx then s else commitPlain ctx provenanceKnown key (preparePut ctx key e s) s)"

definition put :: "gostring \<Rightarrow> ResolvedEntry \<Rightarrow> store \<Rightarrow> store" where
  "put key e s = putPlain backgroundCtx False key e s"

definition putEndingKnownStale :: "resolveCtx \<Rightarrow> gostring \<Rightarrow> ResolvedEntry \<Rightarrow> store \<Rightarrow> store" where
  "putEndingKnownStale ctx key e s = putPlain ctx False key e s"

definition putThenRemark :: "resolveCtx \<Rightarrow> gostring \<Rightarrow> ResolvedEntry \<Rightarrow> store \<Rightarrow> store" where
  "putThenRemark ctx key e s =
     (if rc_inert ctx then s else notify (RemarkIfDepsMoved key True) (putPlain ctx True key e s))"

definition refusePut :: "gostring \<Rightarrow> store \<Rightarrow> store" where
  "refusePut key s = releaseUnstoredLocked key (bump PutRefusedGenerationMovedTotal s)"

definition commitIfGen :: "resolveCtx \<Rightarrow> gostring \<Rightarrow> prepared \<Rightarrow> 64 word \<Rightarrow> store \<Rightarrow> bool \<times> store" where
  "commitIfGen ctx key pr capturedGen s =
     (case currentGenLocked key s of (gen, s) \<Rightarrow>
        if gen \<noteq> capturedGen then (False, notify (NoteRefreshWrite key False) (refusePut key s))
        else
          (let s = clearRefreshSuppression key s in
           case storeUnderLock ctx True key pr capturedGen False s of (remarks, s) \<Rightarrow>
             (let s = notify (NoteStalePushPut key (pr_entry pr)) s;
                  s = notify (NoteRefreshWrite key True) s;
                  s = notify (RemarkIfDepsMoved key False) s
              in (True, remarkLayerConsumers remarks s))))"

definition putIfGen :: "resolveCtx \<Rightarrow> gostring \<Rightarrow> ResolvedEntry \<Rightarrow> 64 word \<Rightarrow> store \<Rightarrow> bool \<times> store" where
  "putIfGen ctx key e capturedGen s =
     (if rc_inert ctx then (False, s) else commitIfGen ctx key (preparePut ctx key e s) capturedGen s)"

definition commitReplace :: "resolveCtx \<Rightarrow> gostring \<Rightarrow> prepared \<Rightarrow> 64 word \<Rightarrow> store \<Rightarrow> bool \<times> store" where
  "commitReplace ctx key pr capturedGen s =
     (case st_index s key of None \<Rightarrow> (False, refusePut key s)
      | Some it \<Rightarrow>
          if it_gen it \<noteq> capturedGen then (False, refusePut key s)
          else
            (let s = clearRefreshSuppression key s in
             case storeUnderLock ctx True key pr capturedGen False s of (remarks, s) \<Rightarrow>
               (let s = notify (NoteStalePushPut key (pr_entry pr)) s;
                    s = notify (RemarkIfDepsMoved key False) s
                in (True, remarkLayerConsumers remarks s))))"

definition replaceIfGen :: "resolveCtx \<Rightarrow> gostring \<Rightarrow> ResolvedEntry \<Rightarrow> 64 word \<Rightarrow> store \<Rightarrow> bool \<times> store" where
  "replaceIfGen ctx key e capturedGen s =
     (if rc_inert ctx then (False, s) else commitReplace ctx key (preparePut ctx key e s) capturedGen s)"

definition RemintClasses :: "gostring list" where
  "RemintClasses = [''restactions'', ''widgets'', CacheEntryClassWidgetContent, CacheEntryClassApistage,
     CacheEntryClassRAFullList]"

definition noteRemintLocked :: "ResolvedEntry \<Rightarrow> store \<Rightarrow> store" where
  "noteRemintLocked e s =
     (let s = bump RemintTotal s in
      case Inputs e of None \<Rightarrow> s
      | Some inp \<Rightarrow> if CacheEntryClass inp \<in> set RemintClasses then bump (RemintByClass (CacheEntryClass inp)) s else s)"

definition commitRefresh :: "resolveCtx \<Rightarrow> gostring \<Rightarrow> prepared \<Rightarrow> 64 word \<Rightarrow> store \<Rightarrow> bool \<times> store" where
  "commitRefresh ctx key pr capturedGen s =
     (case st_index s key of None \<Rightarrow> (False, refusePut key s)
      | Some it \<Rightarrow>
          if it_gen it \<noteq> capturedGen then (False, refusePut key s)
          else
            (let identical = (case pr_same pr of None \<Rightarrow> False | Some p \<Rightarrow> en_id (it_entry it) = en_id p) in
             case inRemintWindowLocked it s of (freshMint, s) \<Rightarrow>
             (let pr = (if freshMint then pr\<lparr>pr_entry := (pr_entry pr)\<lparr>BornAt := st_now s\<rparr>\<rparr> else pr);
                  s = clearRefreshSuppression key s;
                  samePrior = raLayerConfirmPriorLocked key (pr_equalPrior pr) s;
                  s = putCoreLocked key (pr_entry pr) (pr_bytes pr) (pr_extrasHash pr) capturedGen freshMint s;
                  s = reassertOwnEdges ctx key s;
                  s = (if freshMint then noteRemintLocked (pr_entry pr) s else s)
              in case raLayerCommitLocked ctx True key samePrior (pr_entry pr) s of (remarks, s) \<Rightarrow>
                (let s = notify (EndKnownStale key) s;
                     cls = (case Inputs (pr_entry pr) of None \<Rightarrow> [] | Some inp \<Rightarrow> CacheEntryClass inp);
                     s = notify (NoteRefreshPut key cls identical) s;
                     s = notify (NoteStalePushPut key (pr_entry pr)) s;
                     s = notify (RemarkIfDepsMoved key False) s
                 in (True, remarkLayerConsumers remarks s)))))"

definition replaceIfGenRefresh :: "resolveCtx \<Rightarrow> gostring \<Rightarrow> ResolvedEntry \<Rightarrow> 64 word \<Rightarrow> store \<Rightarrow> bool \<times> store" where
  "replaceIfGenRefresh ctx key e capturedGen s =
     (if rc_inert ctx then (False, s) else commitRefresh ctx key (prepareRefresh ctx key e s) capturedGen s)"

section \<open>The gated exports\<close>

text \<open>\<open>v\<close> is the verdict's \<open>Store()\<close>.\<close>

definition PutResolved :: "bool \<Rightarrow> gostring \<Rightarrow> ResolvedEntry \<Rightarrow> store \<Rightarrow> bool \<times> store" where
  "PutResolved v key e s = (if \<not> v then (False, s) else (True, put key e s))"

definition PutResolvedIfGen :: "resolveCtx \<Rightarrow> bool \<Rightarrow> gostring \<Rightarrow> ResolvedEntry \<Rightarrow> 64 word \<Rightarrow> store \<Rightarrow> bool \<times> store" where
  "PutResolvedIfGen ctx v key e g s = (if \<not> v then (False, s) else putIfGen ctx key e g s)"

definition PutResolvedThenRemark :: "resolveCtx \<Rightarrow> bool \<Rightarrow> gostring \<Rightarrow> ResolvedEntry \<Rightarrow> store \<Rightarrow> bool \<times> store" where
  "PutResolvedThenRemark ctx v key e s = (if \<not> v then (False, s) else (True, putThenRemark ctx key e s))"

definition PutResolvedEndingKnownStale ::
  "resolveCtx \<Rightarrow> bool \<Rightarrow> gostring \<Rightarrow> ResolvedEntry \<Rightarrow> store \<Rightarrow> bool \<times> store" where
  "PutResolvedEndingKnownStale ctx v key e s = (if \<not> v then (False, s) else (True, putEndingKnownStale ctx key e s))"

definition ReplaceResolvedIfGen :: "resolveCtx \<Rightarrow> bool \<Rightarrow> gostring \<Rightarrow> ResolvedEntry \<Rightarrow> 64 word \<Rightarrow> store \<Rightarrow> bool \<times> store" where
  "ReplaceResolvedIfGen ctx v key e g s = (if \<not> v then (False, s) else replaceIfGen ctx key e g s)"

definition ReplaceResolvedIfGenRefresh ::
  "resolveCtx \<Rightarrow> bool \<Rightarrow> gostring \<Rightarrow> ResolvedEntry \<Rightarrow> 64 word \<Rightarrow> store \<Rightarrow> bool \<times> store" where
  "ReplaceResolvedIfGenRefresh ctx v key e g s = (if \<not> v then (False, s) else replaceIfGenRefresh ctx key e g s)"

definition isContentCellKey :: "gostring \<Rightarrow> ResolvedKeyInputs \<Rightarrow> bool" where
  "isContentCellKey key inp \<longleftrightarrow> CacheEntryClass inp = CacheEntryClassApistage \<and> ComputeKey inp = key"

definition PutContentIfGen :: "resolveCtx \<Rightarrow> gostring \<Rightarrow> ResolvedEntry \<Rightarrow> 64 word \<Rightarrow> store \<Rightarrow> bool \<times> store" where
  "PutContentIfGen ctx key e g s = (case Inputs e of None \<Rightarrow> (False, s)
     | Some inp \<Rightarrow> if \<not> isContentCellKey key inp then (False, s)
         else if rc_inert ctx then (False, s) else putIfGen ctx key e g s)"

section \<open>The reads\<close>

definition getCore :: "gostring \<Rightarrow> bool \<Rightarrow> store \<Rightarrow> ResolvedEntry option \<times> store" where
  "getCore key touch s = (case st_index s key of
       None \<Rightarrow> (None, bumpIf touch MissTotal s)
     | Some it \<Rightarrow>
         (case itemExpiredLocked s it of (pastTTL, pastMaxAge) \<Rightarrow>
            if pastTTL then
              (let s = bumpIf (touch \<and> warmLocked s it) EvictTTLWarmCustomerTotal s;
                   s = removeElementLocked key it s;
                   s = bump EvictTTLTotal s
               in (None, bumpIf touch MissTotal s))
            else if pastMaxAge then
              (let s = (if warmLocked s it
                        then bump (if touch then EvictMaxAgeWarmCustomerTotal else EvictMaxAgeWarmInternalTotal) s
                        else s);
                   s = removeElementLocked key it s;
                   s = bump EvictMaxAgeTotal s
               in (None, bumpIf touch MissTotal s))
            else if touch then
              (let s = s\<lparr>st_order := key # remove1 key (st_order s)\<rparr>;
                   it = it\<lparr>it_lastRead := st_now s\<rparr>;
                   s = bump HitTotal s
               in case noteSeedOriginHitLocked it s of (it, s) \<Rightarrow>
                    (Some (it_entry it), s\<lparr>st_index := (st_index s)(key \<mapsto> it)\<rparr>))
            else (Some (it_entry it), s)))"

definition Get :: "gostring \<Rightarrow> store \<Rightarrow> ResolvedEntry option \<times> store" where
  "Get key s = (case getCore key True s of
       (Some e, s) \<Rightarrow> (Some e, notify (NoteServeWhileDirty key) s)
     | (None, s) \<Rightarrow> (None, s))"

definition GetNoTouch :: "gostring \<Rightarrow> store \<Rightarrow> ResolvedEntry option \<times> store" where
  "GetNoTouch key s = getCore key False s"

definition Has :: "gostring \<Rightarrow> store \<Rightarrow> bool" where
  "Has key s = (st_index s key \<noteq> None)"

definition CellPutSeq :: "gostring \<Rightarrow> store \<Rightarrow> 64 word option" where
  "CellPutSeq key s = (if key = [] then None else case st_index s key of None \<Rightarrow> None
     | Some it \<Rightarrow> (case itemExpiredLocked s it of (pastTTL, pastMaxAge) \<Rightarrow>
         if pastTTL \<or> pastMaxAge then None else Some (it_putSeq it)))"

definition listBodySeq :: "store \<Rightarrow> ResolvedEntry \<Rightarrow> 64 word" where
  "listBodySeq s e = (case listCell e of None \<Rightarrow> 0 | Some c \<Rightarrow> lc_bodySeq (listCells s c))"

definition CellServeIdentity :: "gostring \<Rightarrow> store \<Rightarrow> (64 word \<times> 64 word) option" where
  "CellServeIdentity key s = (if key = [] then None else case st_index s key of None \<Rightarrow> None
     | Some it \<Rightarrow> (case itemExpiredLocked s it of (pastTTL, pastMaxAge) \<Rightarrow>
         if pastTTL \<or> pastMaxAge then None else Some (it_putSeq it, listBodySeq s (it_entry it))))"

definition tryPeekEntryClass :: "bool \<Rightarrow> gostring \<Rightarrow> store \<Rightarrow> gostring" where
  "tryPeekEntryClass lockFree key s = (if \<not> lockFree then [] else case st_index s key of None \<Rightarrow> []
     | Some it \<Rightarrow> (case Inputs (it_entry it) of None \<Rightarrow> [] | Some inp \<Rightarrow> CacheEntryClass inp))"

definition Len :: "store \<Rightarrow> int" where "Len s = int (length (st_order s))"
definition Bytes :: "store \<Rightarrow> int" where "Bytes s = curBytes s"
definition Caps :: "store \<Rightarrow> int \<times> int" where "Caps s = (maxEntries s, maxBytes s)"

section \<open>Re-accounting and evictions\<close>

definition reaccountEntry :: "gostring \<Rightarrow> ResolvedEntry \<Rightarrow> store \<Rightarrow> store" where
  "reaccountEntry key e s =
     (let b = entryBytes s e in
      case st_index s key of None \<Rightarrow> s
      | Some it \<Rightarrow>
          if en_id (it_entry it) \<noteq> en_id e \<or> it_bytes it = b then s
          else
            (let s = (if Pinned (it_entry it) then s\<lparr>curResidentBytes := curResidentBytes s + (b - it_bytes it)\<rparr>
                      else s\<lparr>curBytes := curBytes s + (b - it_bytes it)\<rparr>);
                 s = s\<lparr>st_index := (st_index s)(key \<mapsto> it\<lparr>it_bytes := b\<rparr>)\<rparr>
             in evictUntilUnderCapsLocked s))"

definition EvictUnrefreshable :: "gostring \<Rightarrow> ResolvedEntry \<Rightarrow> store \<Rightarrow> bool \<times> store" where
  "EvictUnrefreshable key want s = (case st_index s key of None \<Rightarrow> (False, s)
     | Some it \<Rightarrow> if en_id (it_entry it) \<noteq> en_id want then (False, s)
         else (True, bump EvictNoRepresentativeTotal (removeElementLocked key it s)))"

definition EvictStaleDerived :: "gostring \<Rightarrow> ResolvedEntry \<Rightarrow> store \<Rightarrow> bool \<times> store" where
  "EvictStaleDerived key want s =
     (if \<not> StaleDerived want then (False, s)
      else case st_index s key of None \<Rightarrow> (False, s)
      | Some it \<Rightarrow> if en_id (it_entry it) \<noteq> en_id want then (False, s)
          else (True, removeElementLocked key it s))"

definition reapOneMaxAgeSuppressed :: "gostring \<Rightarrow> store \<Rightarrow> bool \<times> store" where
  "reapOneMaxAgeSuppressed key s =
     (if maxEntryAge s \<le> 0 then (False, s)
      else case st_index s key of None \<Rightarrow> (False, s)
      | Some it \<Rightarrow>
          if refreshSuppressed s key = None then (False, s)
          else if BornAt (it_entry it) = 0 \<or> timeSub (st_now s) (BornAt (it_entry it)) \<le> maxEntryAge s then (False, s)
          else if incremental s (it_entry it) then (False, s)
          else (True, bump EvictMaxAgeTotal (removeElementLocked key it s)))"

definition reapOneMaxAgeCold :: "gostring \<Rightarrow> store \<Rightarrow> bool \<times> store" where
  "reapOneMaxAgeCold key s =
     (if maxEntryAge s \<le> 0 then (False, s)
      else case st_index s key of None \<Rightarrow> (False, s)
      | Some it \<Rightarrow>
          if refreshSuppressed s key \<noteq> None then (False, s)
          else if BornAt (it_entry it) = 0 \<or> timeSub (st_now s) (BornAt (it_entry it)) \<le> maxEntryAge s then (False, s)
          else if incremental s (it_entry it) then (False, s)
          else if warmLocked s it then (False, s)
          else (True, bump EvictMaxAgeTotal (removeElementLocked key it s)))"

definition ServeCell :: "bool \<Rightarrow> gostring \<Rightarrow> store \<Rightarrow> ResolvedEntry option \<times> (64 word \<times> 64 word) option \<times> store" where
  "ServeCell touch key s =
     (let ident = CellServeIdentity key s in
      case (if touch then Get key s else GetNoTouch key s) of
        (Some e, s) \<Rightarrow> (Some e, ident, s)
      | (None, s) \<Rightarrow> (None, None, s))"

end
