(* ===== verification/ResolvedWf.thy ===== *)
theory ResolvedWf
  imports ResolvedPut
begin

text \<open>
  The invariant of the resolved-output cache (cache/resolved.go): the index and the list of elements
  agree, the budgets are the sums they stand for, a resident key has no tombstone, the two directions
  of the layer index mirror each other and a removed cell leaves nothing in them. Every operation
  keeps it, in any interleaving, and after every operation the transient cells are under both caps.
\<close>

section \<open>Sums over the resident cells\<close>

definition weight :: "(lruItem \<Rightarrow> int) \<Rightarrow> (gostring \<Rightarrow> lruItem option) \<Rightarrow> gostring \<Rightarrow> int" where
  "weight f idx k = (case idx k of None \<Rightarrow> 0 | Some it \<Rightarrow> f it)"

definition total :: "(lruItem \<Rightarrow> int) \<Rightarrow> gostring list \<Rightarrow> (gostring \<Rightarrow> lruItem option) \<Rightarrow> int" where
  "total f ord idx = sum (weight f idx) (set ord)"

definition transientBytes :: "lruItem \<Rightarrow> int" where
  "transientBytes it = (if Pinned (it_entry it) then 0 else it_bytes it)"

definition residentBytes :: "lruItem \<Rightarrow> int" where
  "residentBytes it = (if Pinned (it_entry it) then it_bytes it else 0)"

definition residentCount :: "lruItem \<Rightarrow> int" where
  "residentCount it = (if Pinned (it_entry it) then 1 else 0)"

lemma weight_other: "k \<notin> A \<Longrightarrow> sum (weight f (idx(k := v))) A = sum (weight f idx) A"
  by (rule sum.cong) (auto simp: weight_def)

lemma total_split: "k \<in> set ord \<Longrightarrow> total f ord idx = weight f idx k + sum (weight f idx) (set ord - {k})"
  by (simp add: total_def sum.remove)

lemma total_remove:
  assumes "distinct ord" "k \<in> set ord" "idx k = Some it"
  shows "total f (remove1 k ord) (idx(k := None)) = total f ord idx - f it"
proof -
  have "total f (remove1 k ord) (idx(k := None)) = sum (weight f idx) (set ord - {k})"
    using assms(1) by (simp add: total_def weight_other)
  then show ?thesis using total_split [OF assms(2), of f idx] assms(3) by (simp add: weight_def)
qed

lemma total_insert:
  assumes "k \<notin> set ord"
  shows "total f (k # ord) (idx(k \<mapsto> it)) = total f ord idx + f it"
  using assms by (simp add: total_def weight_other) (simp add: weight_def)

lemma total_replace:
  assumes "k \<in> set ord" "idx k = Some it"
  shows "total f ord (idx(k \<mapsto> it')) = total f ord idx - f it + f it'"
  using total_split [OF assms(1), of f "idx(k \<mapsto> it')"] total_split [OF assms(1), of f idx] assms(2)
  by (simp add: weight_other) (simp add: weight_def)

lemma total_perm: "set ord = set ord' \<Longrightarrow> total f ord idx = total f ord' idx"
  by (simp add: total_def)

lemma total_move [simp]: "k \<in> set ord \<Longrightarrow> distinct ord \<Longrightarrow> total f (k # remove1 k ord) idx = total f ord idx"
  by (rule total_perm) auto

lemma total_ge:
  assumes "k \<in> set ord" "idx k = Some it" "\<And>k it. idx k = Some it \<Longrightarrow> 0 \<le> f it"
  shows "f it \<le> total f ord idx"
proof -
  have "0 \<le> sum (weight f idx) (set ord - {k})"
    by (rule sum_nonneg) (simp add: weight_def assms(3) split: option.split)
  then show ?thesis using total_split [OF assms(1), of f idx] assms(2) by (simp add: weight_def)
qed

section \<open>Well-formed stores\<close>

text \<open>The index, the list and the budgets.\<close>

definition cellsOK :: "store \<Rightarrow> bool" where
  "cellsOK s \<longleftrightarrow> distinct (st_order s) \<and> (\<forall>k. k \<in> set (st_order s) \<longleftrightarrow> st_index s k \<noteq> None) \<and>
     (\<forall>k it. st_index s k = Some it \<longrightarrow> it_key it = k \<and> 0 \<le> it_bytes it)"

definition budgetsOK :: "store \<Rightarrow> bool" where
  "budgetsOK s \<longleftrightarrow> curBytes s = total transientBytes (st_order s) (st_index s) \<and>
     curResidentBytes s = total residentBytes (st_order s) (st_index s) \<and>
     residentEntries s = total residentCount (st_order s) (st_index s)"

definition tombstonesOK :: "store \<Rightarrow> bool" where
  "tombstonesOK s \<longleftrightarrow> distinct (map fst (tombstones s)) \<and>
     (\<forall>k. st_index s k \<noteq> None \<longrightarrow> map_of (tombstones s) k = None)"

definition layersOK :: "store \<Rightarrow> bool" where
  "layersOK s \<longleftrightarrow> (\<forall>ra w. map_of (byRA s ra) w = map_of (byWidget s w) ra) \<and>
     (\<forall>w. st_index s w = None \<longrightarrow> byWidget s w = [])"

definition wf :: "store \<Rightarrow> bool" where
  "wf s \<longleftrightarrow> cellsOK s \<and> budgetsOK s \<and> tombstonesOK s \<and> layersOK s"

lemmas wf_defs = wf_def cellsOK_def budgetsOK_def tombstonesOK_def layersOK_def

definition transientCells :: "store \<Rightarrow> int" where
  "transientCells s = int (length (filter (\<lambda>k. case st_index s k of None \<Rightarrow> False | Some it \<Rightarrow> \<not> Pinned (it_entry it)) (st_order s)))"

definition capsOK :: "store \<Rightarrow> bool" where
  "capsOK s \<longleftrightarrow> transientCells s \<le> maxEntries s \<and> curBytes s \<le> maxBytes s"

lemma wf_resident: "wf s \<Longrightarrow> st_index s k = Some it \<Longrightarrow> k \<in> set (st_order s) \<and> it_key it = k \<and> 0 \<le> it_bytes it"
  by (auto simp: wf_defs)

lemma wf_keys: "wf s \<Longrightarrow> k \<in> set (st_order s) \<longleftrightarrow> st_index s k \<noteq> None"
  by (auto simp: wf_defs)

lemma wf_distinct: "wf s \<Longrightarrow> distinct (st_order s)"
  by (simp add: wf_defs)

lemma weights_nonneg: "0 \<le> it_bytes it \<Longrightarrow> 0 \<le> transientBytes it \<and> 0 \<le> residentBytes it \<and> 0 \<le> residentCount it"
  by (simp add: transientBytes_def residentBytes_def residentCount_def)

section \<open>Steps that do not touch the cells\<close>

lemma wf_bump [simp]: "wf (bump c s) = wf s" by (simp add: wf_defs)
lemma wf_bumpIf [simp]: "wf (bumpIf b c s) = wf s" by (simp add: wf_defs)
lemma wf_notify [simp]: "wf (notify c s) = wf s" by (simp add: wf_defs)
lemma wf_clear [simp]: "wf (clearRefreshSuppression k s) = wf s" by (simp add: wf_defs)
lemma wf_strip [simp]: "wf (stripDepEdges k s) = wf s" by (simp add: wf_defs)
lemma wf_close [simp]: "wf (closeListCellOf e r s) = wf s" by (simp add: wf_defs)
lemma wf_release [simp]: "wf (releaseUnstoredLocked k s) = wf s" by (simp add: releaseUnstoredLocked_def)

lemma capsOK_cong:
  "st_order s' = st_order s \<Longrightarrow> st_index s' = st_index s \<Longrightarrow> maxEntries s' = maxEntries s \<Longrightarrow>
   curBytes s' = curBytes s \<Longrightarrow> maxBytes s' = maxBytes s \<Longrightarrow> capsOK s' = capsOK s"
  by (simp add: capsOK_def transientCells_def)

lemma capsOK_bump [simp]: "capsOK (bump c s) = capsOK s" by (simp add: capsOK_def transientCells_def)
lemma capsOK_bumpIf [simp]: "capsOK (bumpIf b c s) = capsOK s" by (simp add: capsOK_def transientCells_def)
lemma capsOK_notify [simp]: "capsOK (notify c s) = capsOK s" by (simp add: capsOK_def transientCells_def)

section \<open>Removal\<close>

lemma map_of_filter_None: "distinct (map fst m) \<Longrightarrow> map_of m k = None \<Longrightarrow> map_of (filter P m) k = None"
  by (auto simp: map_of_eq_None_iff)

lemma sweep_tombstones:
  "tombstones (maybeSweepTombstonesLocked s) = tombstones s \<or>
   tombstones (maybeSweepTombstonesLocked s) = filter (\<lambda>(k, t). \<not> (tb_expireAt t \<noteq> 0 \<and> st_now s > tb_expireAt t)) (tombstones s)"
  by (simp add: maybeSweepTombstonesLocked_def)

lemma bump_tombstone_keys:
  assumes "distinct (map fst (tombstones s))"
  shows "distinct (map fst (tombstones (bumpGenTombstoneLocked k g s)))"
    and "x \<noteq> k \<Longrightarrow> map_of (tombstones s) x = None \<Longrightarrow> map_of (tombstones (bumpGenTombstoneLocked k g s)) x = None"
proof -
  let ?s = "s\<lparr>tombstones := aput (tombstones s) k \<lparr>tb_gen = g + 1, tb_expireAt = st_now s + tombstoneTTL s\<rparr>\<rparr>"
  have d: "distinct (map fst (tombstones ?s))" using assms by simp
  show "distinct (map fst (tombstones (bumpGenTombstoneLocked k g s)))"
    using sweep_tombstones [of ?s] d assms by (auto simp: bumpGenTombstoneLocked_def distinct_map_filter)
  assume "x \<noteq> k" "map_of (tombstones s) x = None"
  then show "map_of (tombstones (bumpGenTombstoneLocked k g s)) x = None"
    using sweep_tombstones [of ?s] map_of_filter_None [OF d, of x] by (auto simp: bumpGenTombstoneLocked_def)
qed

lemma mirror_drop:
  assumes "\<And>ra w. map_of (byRA s ra) w = map_of (byWidget s w) ra"
  shows "map_of (byRA (dropWidgetLocked k s) ra) w = map_of (byWidget (dropWidgetLocked k s) w) ra"
proof (cases "w = k")
  case True
  then show ?thesis using assms [of ra k] by (simp add: delete_conv')
next
  case False
  then show ?thesis using assms [of ra w] by (simp add: delete_conv')
qed

text \<open>A detached cell, with its share of the budgets taken off.\<close>

lemma debit_budgets:
  assumes "budgetsOK s" "cellsOK s" "st_index s k = Some it"
  shows "curBytes (debit it s) = total transientBytes (remove1 k (st_order s)) ((st_index s)(k := None))"
    "curResidentBytes (debit it s) = total residentBytes (remove1 k (st_order s)) ((st_index s)(k := None))"
    "residentEntries (debit it s) = total residentCount (remove1 k (st_order s)) ((st_index s)(k := None))"
proof -
  have k: "distinct (st_order s)" "k \<in> set (st_order s)" using assms(2,3) by (auto simp: cellsOK_def)
  have nn: "0 \<le> it_bytes it'" if "st_index s k' = Some it'" for k' it'
    using assms(2) that by (auto simp: cellsOK_def)
  have g: "transientBytes it \<le> curBytes s" "residentBytes it \<le> curResidentBytes s" "residentCount it \<le> residentEntries s"
    using assms(1) total_ge [where idx = "st_index s" and k = k and it = it] k(2) assms(3) weights_nonneg [OF nn]
    by (auto simp: budgetsOK_def)
  show "curBytes (debit it s) = total transientBytes (remove1 k (st_order s)) ((st_index s)(k := None))"
    "curResidentBytes (debit it s) = total residentBytes (remove1 k (st_order s)) ((st_index s)(k := None))"
    "residentEntries (debit it s) = total residentCount (remove1 k (st_order s)) ((st_index s)(k := None))"
    using assms(1) g
    unfolding total_remove [where ord = "st_order s" and idx = "st_index s" and k = k and it = it, OF k assms(3)]
    by (auto simp: debit_def budgetsOK_def floor0_def transientBytes_def residentBytes_def residentCount_def
        split: if_splits)
qed

text \<open>The three places a removal writes, whatever else it does.\<close>

lemma wf_removed:
  assumes "wf s" "st_index s k = Some it"
    and "st_order t = remove1 k (st_order s)" "st_index t = (st_index s)(k := None)"
    and "curBytes t = curBytes (debit it s)" "curResidentBytes t = curResidentBytes (debit it s)"
    and "residentEntries t = residentEntries (debit it s)"
    and "tombstones t = tombstones (bumpGenTombstoneLocked k g s)"
    and "byRA t = byRA (dropWidgetLocked k s)" "byWidget t = byWidget (dropWidgetLocked k s)"
  shows "wf t"
proof -
  have c: "cellsOK s" "budgetsOK s" "tombstonesOK s" "layersOK s" using assms(1) by (simp_all add: wf_def)
  have "cellsOK t" using c(1) assms(2,3,4) by (auto simp: cellsOK_def split: if_splits)
  moreover have "budgetsOK t" using debit_budgets [OF c(2,1) assms(2)] assms(3-7) by (simp add: budgetsOK_def)
  moreover have "tombstonesOK t"
    using c(3) bump_tombstone_keys [of s] assms(4,8) by (auto simp: tombstonesOK_def)
  moreover have "layersOK t"
  proof -
    have "\<And>ra w. map_of (byRA s ra) w = map_of (byWidget s w) ra" using c(4) by (simp add: layersOK_def)
    from mirror_drop [OF this] show ?thesis using c(4) assms(4,9,10)
      by (simp add: layersOK_def del: dropWidgetLocked_layers) (simp add: layersOK_def)
  qed
  ultimately show ?thesis by (simp add: wf_def)
qed

lemma wf_removeElementLocked: "wf s \<Longrightarrow> st_index s k = Some it \<Longrightarrow> wf (removeElementLocked k it s)"
  by (rule wf_removed [where k = k]) (simp_all add: wf_resident del: dropWidgetLocked_layers)

lemma deleteForDep_fields:
  assumes "st_index s k = Some it" "it_key it = k"
  shows "st_order (snd (deleteForDep k s)) = remove1 k (st_order s)"
    "st_index (snd (deleteForDep k s)) = (st_index s)(k := None)"
    "curBytes (snd (deleteForDep k s)) = curBytes (debit it s)"
    "curResidentBytes (snd (deleteForDep k s)) = curResidentBytes (debit it s)"
    "residentEntries (snd (deleteForDep k s)) = residentEntries (debit it s)"
    "tombstones (snd (deleteForDep k s)) = tombstones (bumpGenTombstoneLocked k (it_gen it) s)"
    "byRA (snd (deleteForDep k s)) = byRA (dropWidgetLocked k s)"
    "byWidget (snd (deleteForDep k s)) = byWidget (dropWidgetLocked k s)"
    "maxEntries (snd (deleteForDep k s)) = maxEntries s" "maxBytes (snd (deleteForDep k s)) = maxBytes s"
    "st_now (snd (deleteForDep k s)) = st_now s" "tombstoneTTL (snd (deleteForDep k s)) = tombstoneTTL s"
    "maxResidentBytes (snd (deleteForDep k s)) = maxResidentBytes s"
    "depEdges (snd (deleteForDep k s)) = (depEdges s)(k := [])"
  using assms by (simp_all add: deleteForDep_def Let_def raLayerForgetLocked_def debit_def fun_eq_iff)

lemma wf_deleteForDep: "wf s \<Longrightarrow> wf (snd (deleteForDep k s))"
proof (cases "st_index s k")
  case None
  then show "wf s \<Longrightarrow> ?thesis" by (simp add: deleteForDep_def)
next
  case (Some it)
  assume w: "wf s"
  note f = deleteForDep_fields [OF Some, OF wf_resident [OF w Some, THEN conjunct2, THEN conjunct1]]
  show ?thesis by (rule wf_removed [OF w Some f(1-8)])
qed

section \<open>The caps\<close>

lemma count_complement: "(\<Sum>k\<leftarrow>xs. if P k then 0 else 1) = int (length xs) - int (length (filter P xs))"
  by (induction xs) auto

lemma transient_total:
  assumes "cellsOK s"
  shows "transientCells s = int (length (st_order s)) - total residentCount (st_order s) (st_index s)"
proof -
  define P where "P = (\<lambda>k. case st_index s k of None \<Rightarrow> False | Some it \<Rightarrow> \<not> Pinned (it_entry it))"
  have d: "distinct (st_order s)" and r: "k \<in> set (st_order s) \<Longrightarrow> st_index s k \<noteq> None" for k
    using assms by (auto simp: cellsOK_def)
  have "weight residentCount (st_index s) k = (if P k then 0 else 1)" if "k \<in> set (st_order s)" for k
    using r [OF that] by (auto simp: weight_def P_def residentCount_def)
  then have "total residentCount (st_order s) (st_index s) = (\<Sum>k\<in>set (st_order s). if P k then 0 else 1)"
    unfolding total_def by (rule sum.cong [OF refl])
  also have "\<dots> = (\<Sum>k\<leftarrow>st_order s. if P k then 0 else 1)"
    by (simp add: sum_list_distinct_conv_sum_set [OF d])
  also have "\<dots> = int (length (st_order s)) - int (length (filter P (st_order s)))"
    by (rule count_complement)
  finally show ?thesis by (simp add: transientCells_def P_def)
qed

lemma victimOf_None: "victimOf s = None \<Longrightarrow> transientCells s = 0"
proof -
  assume v: "victimOf s = None"
  let ?P = "\<lambda>k. case st_index s k of None \<Rightarrow> False | Some it \<Rightarrow> \<not> Pinned (it_entry it)"
  have "find ?P (rev (st_order s)) = None"
  proof (cases "find ?P (rev (st_order s))")
    case (Some k)
    then have "?P k" using find_SomeD [OF Some] by simp
    then show ?thesis using v Some by (simp add: victimOf_def split: option.splits)
  qed simp
  then have "\<not> ?P k" if "k \<in> set (st_order s)" for k using that by (auto simp only: find_None_iff set_rev)
  then show ?thesis unfolding transientCells_def by (simp only: of_nat_eq_0_iff length_0_conv filter_empty_conv) simp
qed

lemma evictLoop_induct [consumes 1, case_names stop evict]:
  assumes "wf s"
    and "\<And>n s. wf s \<Longrightarrow> victimOf s = None \<or> n \<le> maxEntries s \<and> curBytes s \<le> maxBytes s \<Longrightarrow> P n s s"
    and "\<And>n s k it t. wf s \<Longrightarrow> victimOf s = Some (k, it) \<Longrightarrow> st_index s k = Some it \<Longrightarrow> \<not> Pinned (it_entry it) \<Longrightarrow>
        n > maxEntries s \<or> curBytes s > maxBytes s \<Longrightarrow>
        P (n - 1) (bump EvictLRUTotal (removeElementLocked k it s)) t \<Longrightarrow> P n s t"
  shows "P n s (evictLoop n s)"
  using assms(1)
proof (induction n s rule: evictLoop.induct)
  case (1 n s)
  show ?case
  proof (cases "n > maxEntries s \<or> curBytes s > maxBytes s")
    case False
    then have "evictLoop n s = s" by (simp add: evictLoop.simps)
    then show ?thesis using assms(2) [OF 1(2), of n] False by auto
  next
    case True
    show ?thesis
    proof (cases "victimOf s")
      case None
      then have "evictLoop n s = s" by (simp add: evictLoop.simps)
      then show ?thesis using assms(2) [OF 1(2)] None by auto
    next
      case (Some v)
      then obtain k it where v: "victimOf s = Some (k, it)" by (cases v) auto
      note it = victimOf_Some [OF v]
      let ?s = "bump EvictLRUTotal (removeElementLocked k it s)"
      have "wf ?s" using wf_removeElementLocked [OF 1(2)] it by simp
      then have "P (n - 1) ?s (evictLoop (n - 1) ?s)" using 1(1) [OF True v refl] by simp
      moreover have "evictLoop n s = evictLoop (n - 1) ?s" using True v by (simp add: evictLoop.simps [of n s])
      ultimately show ?thesis using assms(3) [OF 1(2) v, of n] it True by simp
    qed
  qed
qed

lemma wf_evictUntilUnderCapsLocked: "wf s \<Longrightarrow> wf (evictUntilUnderCapsLocked s)"
proof -
  assume "wf s"
  then have "wf (evictLoop n s)" for n by (induction n s rule: evictLoop_induct) auto
  then show ?thesis by (simp add: evictUntilUnderCapsLocked_def)
qed

lemma no_transient_bytes: "transientCells s = 0 \<Longrightarrow> total transientBytes (st_order s) (st_index s) = 0"
  unfolding total_def transientCells_def
  by (intro sum.neutral) (auto simp: weight_def transientBytes_def filter_empty_conv split: option.splits)

lemma transientCells_remove:
  assumes "wf s" "st_index s k = Some it" "\<not> Pinned (it_entry it)"
  shows "transientCells (bump c (removeElementLocked k it s)) = transientCells s - 1"
proof -
  have "wf (bump c (removeElementLocked k it s))" using wf_removeElementLocked [OF assms(1,2)] by simp
  then have "transientCells (bump c (removeElementLocked k it s)) =
      int (length (remove1 k (st_order s))) -
      total residentCount (remove1 k (st_order s)) ((st_index s)(k := None))"
    using transient_total [of "bump c (removeElementLocked k it s)"] wf_resident [OF assms(1,2)] by (simp add: wf_def)
  then show ?thesis
    using transient_total [of s] assms wf_resident [OF assms(1,2)] wf_distinct [OF assms(1)]
      total_remove [where ord = "st_order s" and idx = "st_index s" and k = k and it = it and f = residentCount]
      length_pos_if_in_set [of k "st_order s"]
    by (simp add: length_remove1 residentCount_def wf_def of_nat_diff Suc_leI)
qed

lemma evict_caps:
  assumes "wf s" "0 \<le> maxEntries s" "0 \<le> maxBytes s"
  shows "capsOK (evictUntilUnderCapsLocked s)"
proof -
  have "transientCells s = n \<longrightarrow> 0 \<le> maxEntries s \<longrightarrow> 0 \<le> maxBytes s \<longrightarrow> capsOK (evictLoop n s)" for n
    using assms(1)
  proof (induction n s rule: evictLoop_induct)
    case (stop n s)
    then show ?case using victimOf_None [of s] no_transient_bytes [of s]
      by (auto simp: capsOK_def wf_def budgetsOK_def)
  next
    case (evict n s k it t)
    then show ?case using transientCells_remove [OF evict(1,3,4)] by simp
  qed
  then show ?thesis using assms
    by (simp add: evictUntilUnderCapsLocked_def transient_total wf_def budgetsOK_def)
qed

section \<open>What the parts of a write leave alone\<close>

lemma unmark_fields [simp]:
  "st_now (unmarkDeclinedExternalOnPut k e s) = st_now s"
  "st_order (unmarkDeclinedExternalOnPut k e s) = st_order s"
  "st_index (unmarkDeclinedExternalOnPut k e s) = st_index s"
  "maxEntries (unmarkDeclinedExternalOnPut k e s) = maxEntries s"
  "maxBytes (unmarkDeclinedExternalOnPut k e s) = maxBytes s"
  "st_ttl (unmarkDeclinedExternalOnPut k e s) = st_ttl s"
  "curBytes (unmarkDeclinedExternalOnPut k e s) = curBytes s"
  "maxResidentBytes (unmarkDeclinedExternalOnPut k e s) = maxResidentBytes s"
  "curResidentBytes (unmarkDeclinedExternalOnPut k e s) = curResidentBytes s"
  "residentEntries (unmarkDeclinedExternalOnPut k e s) = residentEntries s"
  "maxEntryAge (unmarkDeclinedExternalOnPut k e s) = maxEntryAge s"
  "tombstones (unmarkDeclinedExternalOnPut k e s) = tombstones s"
  "tombstoneTTL (unmarkDeclinedExternalOnPut k e s) = tombstoneTTL s"
  "byRA (unmarkDeclinedExternalOnPut k e s) = byRA s"
  "byWidget (unmarkDeclinedExternalOnPut k e s) = byWidget s"
  "refreshSuppressed (unmarkDeclinedExternalOnPut k e s) = refreshSuppressed s"
  "storePutSeq (unmarkDeclinedExternalOnPut k e s) = storePutSeq s"
  "raContentVersionSeq (unmarkDeclinedExternalOnPut k e s) = raContentVersionSeq s"
  "listCells (unmarkDeclinedExternalOnPut k e s) = listCells s"
  "depEdges (unmarkDeclinedExternalOnPut k e s) = depEdges s"
  "edgeHolders (unmarkDeclinedExternalOnPut k e s) = edgeHolders s"
  by (simp_all add: unmarkDeclinedExternalOnPut_def)

lemma bumpClassStore_fields [simp]:
  "st_now (bumpClassStoreLocked a w r s) = st_now s" "st_order (bumpClassStoreLocked a w r s) = st_order s"
  "st_index (bumpClassStoreLocked a w r s) = st_index s"
  "maxEntries (bumpClassStoreLocked a w r s) = maxEntries s"
  "maxBytes (bumpClassStoreLocked a w r s) = maxBytes s" "st_ttl (bumpClassStoreLocked a w r s) = st_ttl s"
  "curBytes (bumpClassStoreLocked a w r s) = curBytes s"
  "maxResidentBytes (bumpClassStoreLocked a w r s) = maxResidentBytes s"
  "curResidentBytes (bumpClassStoreLocked a w r s) = curResidentBytes s"
  "residentEntries (bumpClassStoreLocked a w r s) = residentEntries s"
  "maxEntryAge (bumpClassStoreLocked a w r s) = maxEntryAge s"
  "tombstones (bumpClassStoreLocked a w r s) = tombstones s"
  "tombstoneTTL (bumpClassStoreLocked a w r s) = tombstoneTTL s" "byRA (bumpClassStoreLocked a w r s) = byRA s"
  "byWidget (bumpClassStoreLocked a w r s) = byWidget s"
  "refreshSuppressed (bumpClassStoreLocked a w r s) = refreshSuppressed s"
  "storePutSeq (bumpClassStoreLocked a w r s) = storePutSeq s"
  "raContentVersionSeq (bumpClassStoreLocked a w r s) = raContentVersionSeq s"
  "listCells (bumpClassStoreLocked a w r s) = listCells s"
  "depEdges (bumpClassStoreLocked a w r s) = depEdges s"
  "edgeHolders (bumpClassStoreLocked a w r s) = edgeHolders s"
  by (simp_all add: bumpClassStoreLocked_def)

lemma noteEntryClass_fields [simp]:
  "st_now (noteEntryClassLocked k e s) = st_now s" "st_order (noteEntryClassLocked k e s) = st_order s"
  "st_index (noteEntryClassLocked k e s) = st_index s" "maxEntries (noteEntryClassLocked k e s) = maxEntries s"
  "maxBytes (noteEntryClassLocked k e s) = maxBytes s" "st_ttl (noteEntryClassLocked k e s) = st_ttl s"
  "curBytes (noteEntryClassLocked k e s) = curBytes s"
  "maxResidentBytes (noteEntryClassLocked k e s) = maxResidentBytes s"
  "curResidentBytes (noteEntryClassLocked k e s) = curResidentBytes s"
  "residentEntries (noteEntryClassLocked k e s) = residentEntries s"
  "maxEntryAge (noteEntryClassLocked k e s) = maxEntryAge s"
  "tombstones (noteEntryClassLocked k e s) = tombstones s"
  "tombstoneTTL (noteEntryClassLocked k e s) = tombstoneTTL s" "byRA (noteEntryClassLocked k e s) = byRA s"
  "byWidget (noteEntryClassLocked k e s) = byWidget s"
  "refreshSuppressed (noteEntryClassLocked k e s) = refreshSuppressed s"
  "storePutSeq (noteEntryClassLocked k e s) = storePutSeq s"
  "raContentVersionSeq (noteEntryClassLocked k e s) = raContentVersionSeq s"
  "listCells (noteEntryClassLocked k e s) = listCells s" "depEdges (noteEntryClassLocked k e s) = depEdges s"
  "edgeHolders (noteEntryClassLocked k e s) = edgeHolders s"
  by (simp_all add: noteEntryClassLocked_def split: option.split)

lemma countStore_fields [simp]:
  "st_now (countStore k e0 e s) = st_now s" "st_order (countStore k e0 e s) = st_order s"
  "st_index (countStore k e0 e s) = st_index s" "maxEntries (countStore k e0 e s) = maxEntries s"
  "maxBytes (countStore k e0 e s) = maxBytes s" "st_ttl (countStore k e0 e s) = st_ttl s"
  "curBytes (countStore k e0 e s) = curBytes s" "maxResidentBytes (countStore k e0 e s) = maxResidentBytes s"
  "curResidentBytes (countStore k e0 e s) = curResidentBytes s"
  "residentEntries (countStore k e0 e s) = residentEntries s"
  "maxEntryAge (countStore k e0 e s) = maxEntryAge s" "tombstones (countStore k e0 e s) = tombstones s"
  "tombstoneTTL (countStore k e0 e s) = tombstoneTTL s" "byRA (countStore k e0 e s) = byRA s"
  "byWidget (countStore k e0 e s) = byWidget s" "refreshSuppressed (countStore k e0 e s) = refreshSuppressed s"
  "storePutSeq (countStore k e0 e s) = storePutSeq s"
  "raContentVersionSeq (countStore k e0 e s) = raContentVersionSeq s"
  "listCells (countStore k e0 e s) = listCells s" "depEdges (countStore k e0 e s) = depEdges s"
  "edgeHolders (countStore k e0 e s) = edgeHolders s"
  by (simp_all add: countStore_def)

lemma noteSeedOriginInsert_fields [simp]:
  "st_now (noteSeedOriginInsertLocked e s) = st_now s" "st_order (noteSeedOriginInsertLocked e s) = st_order s"
  "st_index (noteSeedOriginInsertLocked e s) = st_index s"
  "maxEntries (noteSeedOriginInsertLocked e s) = maxEntries s"
  "maxBytes (noteSeedOriginInsertLocked e s) = maxBytes s" "st_ttl (noteSeedOriginInsertLocked e s) = st_ttl s"
  "curBytes (noteSeedOriginInsertLocked e s) = curBytes s"
  "maxResidentBytes (noteSeedOriginInsertLocked e s) = maxResidentBytes s"
  "curResidentBytes (noteSeedOriginInsertLocked e s) = curResidentBytes s"
  "residentEntries (noteSeedOriginInsertLocked e s) = residentEntries s"
  "maxEntryAge (noteSeedOriginInsertLocked e s) = maxEntryAge s"
  "tombstones (noteSeedOriginInsertLocked e s) = tombstones s"
  "tombstoneTTL (noteSeedOriginInsertLocked e s) = tombstoneTTL s"
  "byRA (noteSeedOriginInsertLocked e s) = byRA s" "byWidget (noteSeedOriginInsertLocked e s) = byWidget s"
  "refreshSuppressed (noteSeedOriginInsertLocked e s) = refreshSuppressed s"
  "storePutSeq (noteSeedOriginInsertLocked e s) = storePutSeq s"
  "raContentVersionSeq (noteSeedOriginInsertLocked e s) = raContentVersionSeq s"
  "listCells (noteSeedOriginInsertLocked e s) = listCells s"
  "depEdges (noteSeedOriginInsertLocked e s) = depEdges s"
  "edgeHolders (noteSeedOriginInsertLocked e s) = edgeHolders s"
  by (simp_all add: noteSeedOriginInsertLocked_def)

lemma noteSeedOriginHit_fields [simp]:
  "st_now (snd (noteSeedOriginHitLocked it s)) = st_now s"
  "st_order (snd (noteSeedOriginHitLocked it s)) = st_order s"
  "st_index (snd (noteSeedOriginHitLocked it s)) = st_index s"
  "maxEntries (snd (noteSeedOriginHitLocked it s)) = maxEntries s"
  "maxBytes (snd (noteSeedOriginHitLocked it s)) = maxBytes s"
  "st_ttl (snd (noteSeedOriginHitLocked it s)) = st_ttl s"
  "curBytes (snd (noteSeedOriginHitLocked it s)) = curBytes s"
  "maxResidentBytes (snd (noteSeedOriginHitLocked it s)) = maxResidentBytes s"
  "curResidentBytes (snd (noteSeedOriginHitLocked it s)) = curResidentBytes s"
  "residentEntries (snd (noteSeedOriginHitLocked it s)) = residentEntries s"
  "maxEntryAge (snd (noteSeedOriginHitLocked it s)) = maxEntryAge s"
  "tombstones (snd (noteSeedOriginHitLocked it s)) = tombstones s"
  "tombstoneTTL (snd (noteSeedOriginHitLocked it s)) = tombstoneTTL s"
  "byRA (snd (noteSeedOriginHitLocked it s)) = byRA s"
  "byWidget (snd (noteSeedOriginHitLocked it s)) = byWidget s"
  "refreshSuppressed (snd (noteSeedOriginHitLocked it s)) = refreshSuppressed s"
  "storePutSeq (snd (noteSeedOriginHitLocked it s)) = storePutSeq s"
  "raContentVersionSeq (snd (noteSeedOriginHitLocked it s)) = raContentVersionSeq s"
  "listCells (snd (noteSeedOriginHitLocked it s)) = listCells s"
  "depEdges (snd (noteSeedOriginHitLocked it s)) = depEdges s"
  "edgeHolders (snd (noteSeedOriginHitLocked it s)) = edgeHolders s"
  by (simp_all add: noteSeedOriginHitLocked_def Let_def)

lemma decidePin_fields [simp]:
  "st_now (snd (decidePin k b e s)) = st_now s" "st_order (snd (decidePin k b e s)) = st_order s"
  "st_index (snd (decidePin k b e s)) = st_index s" "maxEntries (snd (decidePin k b e s)) = maxEntries s"
  "maxBytes (snd (decidePin k b e s)) = maxBytes s" "st_ttl (snd (decidePin k b e s)) = st_ttl s"
  "curBytes (snd (decidePin k b e s)) = curBytes s"
  "maxResidentBytes (snd (decidePin k b e s)) = maxResidentBytes s"
  "curResidentBytes (snd (decidePin k b e s)) = curResidentBytes s"
  "residentEntries (snd (decidePin k b e s)) = residentEntries s"
  "maxEntryAge (snd (decidePin k b e s)) = maxEntryAge s" "tombstones (snd (decidePin k b e s)) = tombstones s"
  "tombstoneTTL (snd (decidePin k b e s)) = tombstoneTTL s" "byRA (snd (decidePin k b e s)) = byRA s"
  "byWidget (snd (decidePin k b e s)) = byWidget s"
  "refreshSuppressed (snd (decidePin k b e s)) = refreshSuppressed s"
  "storePutSeq (snd (decidePin k b e s)) = storePutSeq s"
  "raContentVersionSeq (snd (decidePin k b e s)) = raContentVersionSeq s"
  "listCells (snd (decidePin k b e s)) = listCells s" "depEdges (snd (decidePin k b e s)) = depEdges s"
  "edgeHolders (snd (decidePin k b e s)) = edgeHolders s"
  by (simp_all add: decidePin_def)

lemma credit_fields [simp]:
  "st_now (credit p b s) = st_now s" "st_order (credit p b s) = st_order s"
  "st_index (credit p b s) = st_index s" "maxEntries (credit p b s) = maxEntries s"
  "maxBytes (credit p b s) = maxBytes s" "st_ttl (credit p b s) = st_ttl s"
  "maxResidentBytes (credit p b s) = maxResidentBytes s" "maxEntryAge (credit p b s) = maxEntryAge s"
  "tombstones (credit p b s) = tombstones s" "tombstoneTTL (credit p b s) = tombstoneTTL s"
  "byRA (credit p b s) = byRA s" "byWidget (credit p b s) = byWidget s"
  "refreshSuppressed (credit p b s) = refreshSuppressed s" "storePutSeq (credit p b s) = storePutSeq s"
  "raContentVersionSeq (credit p b s) = raContentVersionSeq s" "listCells (credit p b s) = listCells s"
  "depEdges (credit p b s) = depEdges s" "edgeHolders (credit p b s) = edgeHolders s"
  by (simp_all add: credit_def)

lemma uncredit_fields [simp]:
  "st_now (uncredit it s) = st_now s" "st_order (uncredit it s) = st_order s"
  "st_index (uncredit it s) = st_index s" "maxEntries (uncredit it s) = maxEntries s"
  "maxBytes (uncredit it s) = maxBytes s" "st_ttl (uncredit it s) = st_ttl s"
  "maxResidentBytes (uncredit it s) = maxResidentBytes s" "maxEntryAge (uncredit it s) = maxEntryAge s"
  "tombstones (uncredit it s) = tombstones s" "tombstoneTTL (uncredit it s) = tombstoneTTL s"
  "byRA (uncredit it s) = byRA s" "byWidget (uncredit it s) = byWidget s"
  "refreshSuppressed (uncredit it s) = refreshSuppressed s" "storePutSeq (uncredit it s) = storePutSeq s"
  "raContentVersionSeq (uncredit it s) = raContentVersionSeq s" "listCells (uncredit it s) = listCells s"
  "depEdges (uncredit it s) = depEdges s" "edgeHolders (uncredit it s) = edgeHolders s"
  by (simp_all add: uncredit_def)

lemma noteRemint_fields [simp]:
  "st_now (noteRemintLocked e s) = st_now s" "st_order (noteRemintLocked e s) = st_order s"
  "st_index (noteRemintLocked e s) = st_index s" "maxEntries (noteRemintLocked e s) = maxEntries s"
  "maxBytes (noteRemintLocked e s) = maxBytes s" "st_ttl (noteRemintLocked e s) = st_ttl s"
  "curBytes (noteRemintLocked e s) = curBytes s" "maxResidentBytes (noteRemintLocked e s) = maxResidentBytes s"
  "curResidentBytes (noteRemintLocked e s) = curResidentBytes s"
  "residentEntries (noteRemintLocked e s) = residentEntries s"
  "maxEntryAge (noteRemintLocked e s) = maxEntryAge s" "tombstones (noteRemintLocked e s) = tombstones s"
  "tombstoneTTL (noteRemintLocked e s) = tombstoneTTL s" "byRA (noteRemintLocked e s) = byRA s"
  "byWidget (noteRemintLocked e s) = byWidget s"
  "refreshSuppressed (noteRemintLocked e s) = refreshSuppressed s"
  "storePutSeq (noteRemintLocked e s) = storePutSeq s"
  "raContentVersionSeq (noteRemintLocked e s) = raContentVersionSeq s"
  "listCells (noteRemintLocked e s) = listCells s" "depEdges (noteRemintLocked e s) = depEdges s"
  "edgeHolders (noteRemintLocked e s) = edgeHolders s"
  by (simp_all add: noteRemintLocked_def Let_def split: option.split)

lemma inRemintWindow_fields [simp]:
  "st_now (snd (inRemintWindowLocked it s)) = st_now s"
  "st_order (snd (inRemintWindowLocked it s)) = st_order s"
  "st_index (snd (inRemintWindowLocked it s)) = st_index s"
  "maxEntries (snd (inRemintWindowLocked it s)) = maxEntries s"
  "maxBytes (snd (inRemintWindowLocked it s)) = maxBytes s"
  "st_ttl (snd (inRemintWindowLocked it s)) = st_ttl s"
  "curBytes (snd (inRemintWindowLocked it s)) = curBytes s"
  "maxResidentBytes (snd (inRemintWindowLocked it s)) = maxResidentBytes s"
  "curResidentBytes (snd (inRemintWindowLocked it s)) = curResidentBytes s"
  "residentEntries (snd (inRemintWindowLocked it s)) = residentEntries s"
  "maxEntryAge (snd (inRemintWindowLocked it s)) = maxEntryAge s"
  "tombstones (snd (inRemintWindowLocked it s)) = tombstones s"
  "tombstoneTTL (snd (inRemintWindowLocked it s)) = tombstoneTTL s"
  "byRA (snd (inRemintWindowLocked it s)) = byRA s" "byWidget (snd (inRemintWindowLocked it s)) = byWidget s"
  "refreshSuppressed (snd (inRemintWindowLocked it s)) = refreshSuppressed s"
  "storePutSeq (snd (inRemintWindowLocked it s)) = storePutSeq s"
  "raContentVersionSeq (snd (inRemintWindowLocked it s)) = raContentVersionSeq s"
  "listCells (snd (inRemintWindowLocked it s)) = listCells s"
  "depEdges (snd (inRemintWindowLocked it s)) = depEdges s"
  "edgeHolders (snd (inRemintWindowLocked it s)) = edgeHolders s"
  by (simp_all add: inRemintWindowLocked_def)

lemma reassertOwnEdges_fields [simp]:
  "st_now (reassertOwnEdges c k s) = st_now s" "st_order (reassertOwnEdges c k s) = st_order s"
  "st_index (reassertOwnEdges c k s) = st_index s" "maxEntries (reassertOwnEdges c k s) = maxEntries s"
  "maxBytes (reassertOwnEdges c k s) = maxBytes s" "st_ttl (reassertOwnEdges c k s) = st_ttl s"
  "curBytes (reassertOwnEdges c k s) = curBytes s"
  "maxResidentBytes (reassertOwnEdges c k s) = maxResidentBytes s"
  "curResidentBytes (reassertOwnEdges c k s) = curResidentBytes s"
  "residentEntries (reassertOwnEdges c k s) = residentEntries s"
  "maxEntryAge (reassertOwnEdges c k s) = maxEntryAge s" "tombstones (reassertOwnEdges c k s) = tombstones s"
  "tombstoneTTL (reassertOwnEdges c k s) = tombstoneTTL s" "byRA (reassertOwnEdges c k s) = byRA s"
  "byWidget (reassertOwnEdges c k s) = byWidget s"
  "refreshSuppressed (reassertOwnEdges c k s) = refreshSuppressed s"
  "storePutSeq (reassertOwnEdges c k s) = storePutSeq s"
  "raContentVersionSeq (reassertOwnEdges c k s) = raContentVersionSeq s"
  "listCells (reassertOwnEdges c k s) = listCells s" "edgeHolders (reassertOwnEdges c k s) = edgeHolders s"
  by (simp_all add: reassertOwnEdges_def split: option.split)

lemma remarkLayerConsumers_fields [simp]:
  "st_now (remarkLayerConsumers ks s) = st_now s" "st_order (remarkLayerConsumers ks s) = st_order s"
  "st_index (remarkLayerConsumers ks s) = st_index s" "maxEntries (remarkLayerConsumers ks s) = maxEntries s"
  "maxBytes (remarkLayerConsumers ks s) = maxBytes s" "st_ttl (remarkLayerConsumers ks s) = st_ttl s"
  "curBytes (remarkLayerConsumers ks s) = curBytes s"
  "maxResidentBytes (remarkLayerConsumers ks s) = maxResidentBytes s"
  "curResidentBytes (remarkLayerConsumers ks s) = curResidentBytes s"
  "residentEntries (remarkLayerConsumers ks s) = residentEntries s"
  "maxEntryAge (remarkLayerConsumers ks s) = maxEntryAge s"
  "tombstones (remarkLayerConsumers ks s) = tombstones s"
  "tombstoneTTL (remarkLayerConsumers ks s) = tombstoneTTL s" "byRA (remarkLayerConsumers ks s) = byRA s"
  "byWidget (remarkLayerConsumers ks s) = byWidget s"
  "refreshSuppressed (remarkLayerConsumers ks s) = refreshSuppressed s"
  "storePutSeq (remarkLayerConsumers ks s) = storePutSeq s"
  "raContentVersionSeq (remarkLayerConsumers ks s) = raContentVersionSeq s"
  "listCells (remarkLayerConsumers ks s) = listCells s" "depEdges (remarkLayerConsumers ks s) = depEdges s"
  "edgeHolders (remarkLayerConsumers ks s) = edgeHolders s"
  by (induction ks arbitrary: s) (simp_all add: remarkLayerConsumers_def)

lemma releaseUnstored_fields [simp]:
  "st_now (releaseUnstoredLocked k s) = st_now s" "st_order (releaseUnstoredLocked k s) = st_order s"
  "st_index (releaseUnstoredLocked k s) = st_index s" "maxEntries (releaseUnstoredLocked k s) = maxEntries s"
  "maxBytes (releaseUnstoredLocked k s) = maxBytes s" "st_ttl (releaseUnstoredLocked k s) = st_ttl s"
  "curBytes (releaseUnstoredLocked k s) = curBytes s"
  "maxResidentBytes (releaseUnstoredLocked k s) = maxResidentBytes s"
  "curResidentBytes (releaseUnstoredLocked k s) = curResidentBytes s"
  "residentEntries (releaseUnstoredLocked k s) = residentEntries s"
  "maxEntryAge (releaseUnstoredLocked k s) = maxEntryAge s"
  "tombstones (releaseUnstoredLocked k s) = tombstones s"
  "tombstoneTTL (releaseUnstoredLocked k s) = tombstoneTTL s" "byRA (releaseUnstoredLocked k s) = byRA s"
  "byWidget (releaseUnstoredLocked k s) = byWidget s"
  "refreshSuppressed (releaseUnstoredLocked k s) = refreshSuppressed s"
  "storePutSeq (releaseUnstoredLocked k s) = storePutSeq s"
  "raContentVersionSeq (releaseUnstoredLocked k s) = raContentVersionSeq s"
  "listCells (releaseUnstoredLocked k s) = listCells s"
  "edgeHolders (releaseUnstoredLocked k s) = edgeHolders s"
  by (simp_all add: releaseUnstoredLocked_def)

lemma refusePut_fields [simp]:
  "st_now (refusePut k s) = st_now s" "st_order (refusePut k s) = st_order s"
  "st_index (refusePut k s) = st_index s" "maxEntries (refusePut k s) = maxEntries s"
  "maxBytes (refusePut k s) = maxBytes s" "st_ttl (refusePut k s) = st_ttl s"
  "curBytes (refusePut k s) = curBytes s" "maxResidentBytes (refusePut k s) = maxResidentBytes s"
  "curResidentBytes (refusePut k s) = curResidentBytes s" "residentEntries (refusePut k s) = residentEntries s"
  "maxEntryAge (refusePut k s) = maxEntryAge s" "tombstones (refusePut k s) = tombstones s"
  "tombstoneTTL (refusePut k s) = tombstoneTTL s" "byRA (refusePut k s) = byRA s"
  "byWidget (refusePut k s) = byWidget s" "refreshSuppressed (refusePut k s) = refreshSuppressed s"
  "storePutSeq (refusePut k s) = storePutSeq s" "raContentVersionSeq (refusePut k s) = raContentVersionSeq s"
  "listCells (refusePut k s) = listCells s" "edgeHolders (refusePut k s) = edgeHolders s"
  by (simp_all add: refusePut_def)

lemma currentGen_fields [simp]:
  "st_now (snd (currentGenLocked k s)) = st_now s" "st_order (snd (currentGenLocked k s)) = st_order s"
  "st_index (snd (currentGenLocked k s)) = st_index s" "maxEntries (snd (currentGenLocked k s)) = maxEntries s"
  "maxBytes (snd (currentGenLocked k s)) = maxBytes s" "st_ttl (snd (currentGenLocked k s)) = st_ttl s"
  "curBytes (snd (currentGenLocked k s)) = curBytes s"
  "maxResidentBytes (snd (currentGenLocked k s)) = maxResidentBytes s"
  "curResidentBytes (snd (currentGenLocked k s)) = curResidentBytes s"
  "residentEntries (snd (currentGenLocked k s)) = residentEntries s"
  "maxEntryAge (snd (currentGenLocked k s)) = maxEntryAge s"
  "tombstoneTTL (snd (currentGenLocked k s)) = tombstoneTTL s" "byRA (snd (currentGenLocked k s)) = byRA s"
  "byWidget (snd (currentGenLocked k s)) = byWidget s"
  "refreshSuppressed (snd (currentGenLocked k s)) = refreshSuppressed s"
  "storePutSeq (snd (currentGenLocked k s)) = storePutSeq s"
  "raContentVersionSeq (snd (currentGenLocked k s)) = raContentVersionSeq s"
  "listCells (snd (currentGenLocked k s)) = listCells s" "depEdges (snd (currentGenLocked k s)) = depEdges s"
  "edgeHolders (snd (currentGenLocked k s)) = edgeHolders s"
  by (simp_all add: currentGenLocked_def split: option.split)

section \<open>Storing a cell\<close>

lemma inheritFrom_fields [simp]:
  "Pinned (inheritFrom fm old e) = Pinned e" "en_id (inheritFrom fm old e) = en_id e"
  "RawJSON (inheritFrom fm old e) = RawJSON e" "ItemsLen (inheritFrom fm old e) = ItemsLen e"
  "listCell (inheritFrom fm old e) = listCell e" "CreatedAt (inheritFrom fm old e) = CreatedAt e"
  "TTLOverride (inheritFrom fm old e) = TTLOverride e" "Inputs (inheritFrom fm old e) = Inputs e"
  "SeededAtBoot (inheritFrom fm old e) = SeededAtBoot e"
  "contentVersion (inheritFrom fm old e) = contentVersion e"
  by (simp_all add: inheritFrom_def Let_def)

text \<open>The element a write leaves under its key.\<close>

definition placedItem ::
  "gostring \<Rightarrow> ResolvedEntry \<Rightarrow> int \<Rightarrow> gostring \<Rightarrow> 64 word \<Rightarrow> bool \<Rightarrow> store \<Rightarrow> lruItem" where
  "placedItem key e0 bytes h gen fm s =
     (let e = fst (decidePin key bytes e0 s); seq = storePutSeq s + 1
      in case st_index s key of
           Some old \<Rightarrow> replacedItem (inheritFrom fm (it_entry old) e) bytes h gen seq old
         | None \<Rightarrow> freshItem key e bytes h gen seq)"

lemma placedItem_fields [simp]:
  "it_bytes (placedItem key e0 bytes h gen fm s) = bytes" "it_gen (placedItem key e0 bytes h gen fm s) = gen"
  "it_putSeq (placedItem key e0 bytes h gen fm s) = storePutSeq s + 1"
  by (simp_all add: placedItem_def replacedItem_def freshItem_def Let_def split: option.split)

lemma it_key_placedItem: "wf s \<Longrightarrow> it_key (placedItem key e0 bytes h gen fm s) = key"
  by (auto simp: placedItem_def replacedItem_def freshItem_def Let_def wf_resident split: option.split)

lemma pair_fst_snd: "(case p of (a, b) \<Rightarrow> f a b) = f (fst p) (snd p)"
  by (simp add: case_prod_beta)

lemma placeLocked_fields:
  "st_index (placeLocked key e0 bytes h gen fm s) = (st_index s)(key \<mapsto> placedItem key e0 bytes h gen fm s)"
  "wf s \<Longrightarrow> st_order (placeLocked key e0 bytes h gen fm s) = key # remove1 key (st_order s)"
  "tombstones (placeLocked key e0 bytes h gen fm s) = tombstones s"
  "byRA (placeLocked key e0 bytes h gen fm s) = byRA s"
  "byWidget (placeLocked key e0 bytes h gen fm s) = byWidget s"
  "st_now (placeLocked key e0 bytes h gen fm s) = st_now s"
  "maxEntries (placeLocked key e0 bytes h gen fm s) = maxEntries s"
  "maxBytes (placeLocked key e0 bytes h gen fm s) = maxBytes s"
  "maxResidentBytes (placeLocked key e0 bytes h gen fm s) = maxResidentBytes s"
  "st_ttl (placeLocked key e0 bytes h gen fm s) = st_ttl s"
  "maxEntryAge (placeLocked key e0 bytes h gen fm s) = maxEntryAge s"
  "tombstoneTTL (placeLocked key e0 bytes h gen fm s) = tombstoneTTL s"
  "storePutSeq (placeLocked key e0 bytes h gen fm s) = storePutSeq s + 1"
  "depEdges (placeLocked key e0 bytes h gen fm s) = depEdges s"
  "edgeHolders (placeLocked key e0 bytes h gen fm s) = edgeHolders s"
  "raContentVersionSeq (placeLocked key e0 bytes h gen fm s) = raContentVersionSeq s"
proof -
  have n: "remove1 key (st_order s) = st_order s" if "wf s" "st_index s key = None"
    using that wf_keys [of s key] by (simp add: remove1_idem)
  show "wf s \<Longrightarrow> st_order (placeLocked key e0 bytes h gen fm s) = key # remove1 key (st_order s)"
    using n by (simp add: placeLocked_def pair_fst_snd insertLocked_def replaceLocked_def Let_def split: option.split)
qed (simp_all add: placeLocked_def pair_fst_snd insertLocked_def replaceLocked_def Let_def placedItem_def
       split: option.split)

lemma placeLocked_budgets:
  "curBytes (placeLocked key e0 bytes h gen fm s) =
     curBytes s - weight transientBytes (st_index s) key + transientBytes (placedItem key e0 bytes h gen fm s)"
  "curResidentBytes (placeLocked key e0 bytes h gen fm s) =
     curResidentBytes s - weight residentBytes (st_index s) key + residentBytes (placedItem key e0 bytes h gen fm s)"
  "residentEntries (placeLocked key e0 bytes h gen fm s) =
     residentEntries s - weight residentCount (st_index s) key + residentCount (placedItem key e0 bytes h gen fm s)"
  by (simp_all add: placeLocked_def pair_fst_snd insertLocked_def replaceLocked_def Let_def placedItem_def
      weight_def uncredit_def credit_def transientBytes_def residentBytes_def residentCount_def replacedItem_def
      freshItem_def split: option.split)

lemma total_place:
  assumes "cellsOK s"
  shows "total f (key # remove1 key (st_order s)) ((st_index s)(key \<mapsto> it)) =
    total f (st_order s) (st_index s) - weight f (st_index s) key + f it"
proof (cases "st_index s key")
  case None
  then have "key \<notin> set (st_order s)" using assms by (auto simp: cellsOK_def)
  then show ?thesis using total_insert [of key "st_order s" f "st_index s" it] None
    by (simp add: remove1_idem weight_def)
next
  case (Some old)
  then have k: "key \<in> set (st_order s)" "distinct (st_order s)" using assms by (auto simp: cellsOK_def)
  show ?thesis
    using total_replace [where f = f and k = key and ord = "st_order s" and idx = "st_index s" and it = old and it' = it]
      k Some total_move [OF k, of f] by (simp add: weight_def)
qed

lemma map_of_delete_key: "map_of (AList.delete k m) k' = (if k' = k then None else map_of m k')"
  by (simp add: delete_conv')

lemma wf_placed:
  assumes "wf s" "0 \<le> bytes" "map_of (tombstones s) key = None"
  shows "wf (placeLocked key e0 bytes h gen fm s)" (is "wf ?t")
proof -
  have c: "cellsOK s" "budgetsOK s" "tombstonesOK s" "layersOK s" using assms(1) by (simp_all add: wf_def)
  note f = placeLocked_fields and o = placeLocked_fields(2) [OF assms(1)]
  have "cellsOK ?t" using c(1) assms(2) it_key_placedItem [OF assms(1)]
    by (auto simp: cellsOK_def f(1) o split: if_splits)
  moreover have "budgetsOK ?t" using c(2)
    by (simp add: budgetsOK_def placeLocked_budgets f(1) o total_place [OF c(1)])
  moreover have "tombstonesOK ?t" using c(3) assms(3) by (auto simp: tombstonesOK_def f)
  moreover have "layersOK ?t" using c(4) by (auto simp: layersOK_def f)
  ultimately show ?thesis by (simp add: wf_def)
qed

lemma wf_forgetTombstone: "wf s \<Longrightarrow> wf (s\<lparr>tombstones := AList.delete key (tombstones s)\<rparr>)"
  by (auto simp: wf_defs map_of_delete_key distinct_delete)

lemma wf_unmark: "wf (unmarkDeclinedExternalOnPut k e s) = wf s"
  by (simp add: wf_defs)

lemma putCoreLocked_wf_caps:
  assumes "wf s" "0 \<le> bytes" "0 \<le> maxEntries s" "0 \<le> maxBytes s"
  shows "wf (putCoreLocked key e0 bytes h gen fm s) \<and> capsOK (putCoreLocked key e0 bytes h gen fm s)"
proof -
  let ?s = "unmarkDeclinedExternalOnPut key e0 (s\<lparr>tombstones := AList.delete key (tombstones s)\<rparr>)"
  have "wf ?s" using wf_forgetTombstone [OF assms(1)] by (simp add: wf_unmark)
  then have w: "wf (placeLocked key e0 bytes h gen fm ?s)"
    by (rule wf_placed) (simp_all add: assms(2) map_of_delete_key)
  show ?thesis
    using wf_evictUntilUnderCapsLocked [OF w] evict_caps [OF w] assms(3,4)
    by (simp add: putCoreLocked_def placeLocked_fields)
qed

section \<open>Sound stores\<close>

definition sound :: "store \<Rightarrow> bool" where
  "sound s \<longleftrightarrow> wf s \<and> capsOK s \<and> 0 \<le> maxEntries s \<and> 0 \<le> maxBytes s"

lemma sound_frames [simp]:
  "sound (bump c s) = sound s" "sound (bumpIf b c s) = sound s" "sound (notify x s) = sound s"
  "sound (clearRefreshSuppression k s) = sound s" "sound (stripDepEdges k s) = sound s"
  "sound (releaseUnstoredLocked k s) = sound s" "sound (refusePut k s) = sound s"
  "sound (reassertOwnEdges ctx k s) = sound s" "sound (remarkLayerConsumers ks s) = sound s"
  "sound (noteRemintLocked e s) = sound s" "sound (snd (inRemintWindowLocked it s)) = sound s"
  by (simp_all add: sound_def wf_defs capsOK_def transientCells_def)

lemma evictUntil_fields [simp]:
  assumes "wf s"
  shows "maxEntries (evictUntilUnderCapsLocked s) = maxEntries s \<and> maxBytes (evictUntilUnderCapsLocked s) = maxBytes s \<and>
    st_now (evictUntilUnderCapsLocked s) = st_now s \<and> tombstoneTTL (evictUntilUnderCapsLocked s) = tombstoneTTL s \<and>
    st_ttl (evictUntilUnderCapsLocked s) = st_ttl s \<and> maxEntryAge (evictUntilUnderCapsLocked s) = maxEntryAge s \<and>
    maxResidentBytes (evictUntilUnderCapsLocked s) = maxResidentBytes s"
proof -
  have "maxEntries (evictLoop n s) = maxEntries s \<and> maxBytes (evictLoop n s) = maxBytes s \<and>
    st_now (evictLoop n s) = st_now s \<and> tombstoneTTL (evictLoop n s) = tombstoneTTL s \<and>
    st_ttl (evictLoop n s) = st_ttl s \<and> maxEntryAge (evictLoop n s) = maxEntryAge s \<and>
    maxResidentBytes (evictLoop n s) = maxResidentBytes s" for n
    using assms by (induction n s rule: evictLoop_induct) auto
  then show ?thesis by (simp add: evictUntilUnderCapsLocked_def)
qed

lemma putCoreLocked_settings [simp]:
  assumes "wf s" "0 \<le> bytes"
  shows "maxEntries (putCoreLocked key e0 bytes h gen fm s) = maxEntries s \<and>
    maxBytes (putCoreLocked key e0 bytes h gen fm s) = maxBytes s \<and>
    st_now (putCoreLocked key e0 bytes h gen fm s) = st_now s \<and>
    tombstoneTTL (putCoreLocked key e0 bytes h gen fm s) = tombstoneTTL s \<and>
    st_ttl (putCoreLocked key e0 bytes h gen fm s) = st_ttl s \<and>
    maxEntryAge (putCoreLocked key e0 bytes h gen fm s) = maxEntryAge s"
proof -
  let ?s = "unmarkDeclinedExternalOnPut key e0 (s\<lparr>tombstones := AList.delete key (tombstones s)\<rparr>)"
  have "wf ?s" using wf_forgetTombstone [OF assms(1)] by (simp add: wf_unmark)
  then have "wf (placeLocked key e0 bytes h gen fm ?s)"
    by (rule wf_placed) (simp_all add: assms(2) map_of_delete_key)
  from evictUntil_fields [OF this] show ?thesis by (simp add: putCoreLocked_def placeLocked_fields)
qed

lemma sound_putCoreLocked:
  "sound s \<Longrightarrow> 0 \<le> bytes \<Longrightarrow> sound (putCoreLocked key e0 bytes h gen fm s)"
  using putCoreLocked_wf_caps [of s bytes] by (simp add: sound_def)

text \<open>Writing the version of an entry changes no weight.\<close>

lemma sound_setEntryVersion [simp]:
  assumes "sound s"
  shows "sound (setEntryVersion key ptr v s)"
proof (cases "\<exists>it. st_index s key = Some it \<and> en_id (it_entry it) = ptr")
  case False
  then have "setEntryVersion key ptr v s = s" by (auto simp: setEntryVersion_def split: option.split)
  then show ?thesis using assms by simp
next
  case True
  then obtain it where it: "st_index s key = Some it" "en_id (it_entry it) = ptr" by blast
  let ?it = "it\<lparr>it_entry := (it_entry it)\<lparr>contentVersion := v\<rparr>\<rparr>"
  let ?t = "s\<lparr>st_index := (st_index s)(key \<mapsto> ?it)\<rparr>"
  have t: "setEntryVersion key ptr v s = ?t" using it by (simp add: setEntryVersion_def)
  have w: "wf s" and k: "key \<in> set (st_order s)" using assms it wf_resident by (auto simp: sound_def)
  have tot: "total f (st_order s) ((st_index s)(key \<mapsto> ?it)) = total f (st_order s) (st_index s)"
    if "f ?it = f it" for f
    using total_replace [where f = f and k = key and it = it and it' = ?it and ord = "st_order s" and idx = "st_index s"]
      k it(1) that by simp
  have "(\<lambda>k. case ((st_index s)(key \<mapsto> ?it)) k of None \<Rightarrow> False | Some it \<Rightarrow> \<not> Pinned (it_entry it)) =
      (\<lambda>k. case st_index s k of None \<Rightarrow> False | Some it \<Rightarrow> \<not> Pinned (it_entry it))"
    using it(1) by (auto simp: fun_eq_iff)
  then have "capsOK ?t = capsOK s" by (simp add: capsOK_def transientCells_def)
  moreover have "wf ?t"
    using w it(1) by (auto simp: wf_defs tot transientBytes_def residentBytes_def residentCount_def split: if_splits)
  ultimately show ?thesis using assms by (simp add: t sound_def)
qed

lemma sound_frame_seq [simp]: "sound (s\<lparr>raContentVersionSeq := v\<rparr>) = sound s"
  by (simp add: sound_def wf_defs capsOK_def transientCells_def)

lemma sound_dropWidgetLocked [simp]:
  assumes "sound s"
  shows "sound (dropWidgetLocked k s)"
proof -
  have l: "layersOK s" using assms by (simp add: sound_def wf_def)
  then have "\<And>ra w. map_of (byRA s ra) w = map_of (byWidget s w) ra" by (simp add: layersOK_def)
  from mirror_drop [OF this] have "layersOK (dropWidgetLocked k s)" using l
    by (simp add: layersOK_def del: dropWidgetLocked_layers) (simp add: layersOK_def)
  then show ?thesis using assms
    by (simp add: sound_def wf_def cellsOK_def budgetsOK_def tombstonesOK_def capsOK_def transientCells_def)
qed

lemma recordSource_frame:
  "st_order (recordSource w s src) = st_order s \<and> st_index (recordSource w s src) = st_index s \<and>
   curBytes (recordSource w s src) = curBytes s \<and> curResidentBytes (recordSource w s src) = curResidentBytes s \<and>
   residentEntries (recordSource w s src) = residentEntries s \<and> tombstones (recordSource w s src) = tombstones s \<and>
   maxEntries (recordSource w s src) = maxEntries s \<and> maxBytes (recordSource w s src) = maxBytes s"
  by (simp add: recordSource_def)

lemma sound_recordSource:
  assumes "sound s" "st_index s w \<noteq> None"
  shows "sound (recordSource w s src)"
proof -
  have "layersOK s" using assms(1) by (simp add: sound_def wf_def)
  then have "layersOK (recordSource w s src)" using assms(2)
    by (auto simp: layersOK_def recordSource_def)
  then show ?thesis using assms(1) recordSource_frame [of w s src]
    by (simp add: sound_def wf_def cellsOK_def budgetsOK_def tombstonesOK_def capsOK_def transientCells_def)
qed

lemma sound_recordSources:
  assumes "sound s" "st_index s w \<noteq> None"
  shows "sound (foldl (recordSource w) s srcs)"
proof -
  have "sound (foldl (recordSource w) s srcs) \<and> st_index (foldl (recordSource w) s srcs) w \<noteq> None"
    using assms
  proof (induction srcs arbitrary: s)
    case (Cons a srcs)
    show ?case using Cons.IH [of "recordSource w s a"] sound_recordSource [OF Cons.prems]
        recordSource_frame [of w s a] Cons.prems(2) by simp
  qed simp
  then show ?thesis by simp
qed

lemma sound_raLayerCommitLocked:
  assumes "sound s"
  shows "sound (snd (raLayerCommitLocked ctx pk key sp e s))"
proof -
  have "sound (foldl (recordSource key) (dropWidgetLocked key s) srcs)" if "st_index s key \<noteq> None" for srcs
    using sound_recordSources [of "dropWidgetLocked key s" key] assms that by simp
  then show ?thesis using assms
    by (auto simp: raLayerCommitLocked_def Let_def simp del: foldl.simps split: option.split list.split)
qed

section \<open>Every operation keeps the store sound\<close>

lemma sound_currentGenLocked [simp]: "sound s \<Longrightarrow> sound (snd (currentGenLocked k s))"
  by (auto simp: currentGenLocked_def sound_def capsOK_def transientCells_def wf_forgetTombstone
      split: option.split)

lemma sound_storeUnderLock:
  "sound s \<Longrightarrow> 0 \<le> pr_bytes pr \<Longrightarrow> sound (snd (storeUnderLock ctx pk key pr gen fm s))"
  by (simp add: storeUnderLock_def Let_def pair_fst_snd sound_raLayerCommitLocked sound_putCoreLocked)

lemma sound_commits:
  assumes "sound s" "0 \<le> pr_bytes pr"
  shows "sound (commitPlain ctx pk key pr s)" "sound (snd (commitIfGen ctx key pr g s))"
    "sound (snd (commitReplace ctx key pr g s))" "sound (snd (commitRefresh ctx key pr g s))"
proof -
  note split = pair_fst_snd Let_def
  show "sound (commitPlain ctx pk key pr s)" "sound (snd (commitIfGen ctx key pr g s))"
    "sound (snd (commitReplace ctx key pr g s))"
    using assms by (auto simp: commitPlain_def commitIfGen_def commitReplace_def split sound_storeUnderLock
        split: option.split)
  have "0 \<le> pr_bytes (if b then pr\<lparr>pr_entry := x\<rparr> else pr)" for b x using assms(2) by simp
  then show "sound (snd (commitRefresh ctx key pr g s))"
    using assms by (auto simp: commitRefresh_def split sound_raLayerCommitLocked sound_putCoreLocked
        split: option.split)
qed

lemma sound_removed:
  assumes "sound s" "st_index s k = Some it"
  shows "sound (removeElementLocked k it s)" "sound (snd (deleteForDep k s))"
proof -
  have w: "wf s" and n: "0 \<le> maxEntries s" "0 \<le> maxBytes s" and c: "capsOK s"
    using assms(1) by (simp_all add: sound_def)
  have k: "it_key it = k" "k \<in> set (st_order s)" "0 \<le> it_bytes it" using wf_resident [OF w assms(2)] by auto
  let ?P = "\<lambda>idx k. case idx k of None \<Rightarrow> False | Some it \<Rightarrow> \<not> Pinned (it_entry it)"
  have "filter (?P ((st_index s)(k := None))) (remove1 k (st_order s)) = filter (?P (st_index s)) (remove1 k (st_order s))"
    using wf_distinct [OF w] by (intro filter_cong) auto
  then have "length (filter (?P ((st_index s)(k := None))) (remove1 k (st_order s))) \<le> length (filter (?P (st_index s)) (st_order s))"
    by (simp add: filter_remove1 length_remove1)
  then have len: "int (length (filter (?P ((st_index s)(k := None))) (remove1 k (st_order s)))) \<le> maxEntries s"
    using c by (simp add: capsOK_def transientCells_def)
  have bytes: "curBytes (debit it s) \<le> maxBytes s" using c n k(3) by (auto simp: debit_def capsOK_def floor0_def)
  show "sound (removeElementLocked k it s)"
    using wf_removeElementLocked [OF w assms(2)] n len bytes k(1) by (simp add: sound_def capsOK_def transientCells_def)
  show "sound (snd (deleteForDep k s))"
    using wf_deleteForDep [OF w, of k] n len bytes
    by (simp add: sound_def capsOK_def transientCells_def deleteForDep_fields [OF assms(2) k(1)])
qed

lemma sound_evictions:
  assumes "sound s"
  shows "sound (snd (deleteForDep key s))" "sound (snd (EvictUnrefreshable key e s))"
    "sound (snd (EvictStaleDerived key e s))" "sound (snd (reapOneMaxAgeSuppressed key s))"
    "sound (snd (reapOneMaxAgeCold key s))"
proof -
  show "sound (snd (deleteForDep key s))"
    using assms sound_removed(2) [OF assms] by (cases "st_index s key") (simp_all add: deleteForDep_def)
qed (use assms in \<open>auto simp: EvictUnrefreshable_def EvictStaleDerived_def reapOneMaxAgeSuppressed_def
      reapOneMaxAgeCold_def sound_removed(1) split: option.split\<close>)

text \<open>A touch moves the cell to the front and changes no weight.\<close>

lemma sound_touch:
  assumes "sound s" "st_index s key = Some it"
    and "it_key it' = it_key it" "it_bytes it' = it_bytes it" "it_entry it' = it_entry it"
    and "st_order t = key # remove1 key (st_order s)" "st_index t = (st_index s)(key \<mapsto> it')"
    and "curBytes t = curBytes s" "curResidentBytes t = curResidentBytes s" "residentEntries t = residentEntries s"
    and "tombstones t = tombstones s" "byRA t = byRA s" "byWidget t = byWidget s"
    and "maxEntries t = maxEntries s" "maxBytes t = maxBytes s"
  shows "sound t"
proof -
  have c: "cellsOK s" "budgetsOK s" "tombstonesOK s" "layersOK s" and caps: "capsOK s"
    and n: "0 \<le> maxEntries s" "0 \<le> maxBytes s" using assms(1) by (simp_all add: sound_def wf_def)
  have k: "key \<in> set (st_order s)" using c(1) assms(2) by (auto simp: cellsOK_def)
  have tot: "total f (key # remove1 key (st_order s)) ((st_index s)(key \<mapsto> it')) = total f (st_order s) (st_index s)"
    if "f it' = f it" for f
    using that assms(2) by (simp add: total_place [OF c(1)] weight_def)
  have w: "cellsOK t" using c(1) assms(2,3,4,6,7) k by (auto simp: cellsOK_def split: if_splits)
  moreover have b: "budgetsOK t" using c(2) assms(4-10)
    by (simp add: budgetsOK_def tot transientBytes_def residentBytes_def residentCount_def)
  moreover have "tombstonesOK t" "layersOK t" using c(3,4) assms(2,7,11-13)
    by (auto simp: tombstonesOK_def layersOK_def)
  moreover have "transientCells t = transientCells s"
    using transient_total [OF w] transient_total [OF c(1)] c(2) b assms(6,10) k length_pos_if_in_set [OF k]
    by (simp add: budgetsOK_def length_remove1)
  ultimately show ?thesis using caps n assms(8,14,15) by (simp add: sound_def wf_def capsOK_def)
qed

lemma noteSeedOriginHit_item [simp]:
  "it_key (fst (noteSeedOriginHitLocked it s)) = it_key it" "it_bytes (fst (noteSeedOriginHitLocked it s)) = it_bytes it"
  "it_entry (fst (noteSeedOriginHitLocked it s)) = it_entry it" "it_gen (fst (noteSeedOriginHitLocked it s)) = it_gen it"
  "it_putSeq (fst (noteSeedOriginHitLocked it s)) = it_putSeq it"
  "it_lastRead (fst (noteSeedOriginHitLocked it s)) = it_lastRead it"
  by (simp_all add: noteSeedOriginHitLocked_def Let_def)

lemma sound_getCore: "sound s \<Longrightarrow> sound (snd (getCore key touch s))"
proof (cases "st_index s key")
  case None
  then show "sound s \<Longrightarrow> ?thesis" by (simp add: getCore_def)
next
  case (Some it)
  assume s: "sound s"
  have "sound (bumpIf b c (bump c' (removeElementLocked key it x)))" if "sound x" "st_index x = st_index s" for b c c' x
    using sound_removed(1) [OF that(1), of key it] that(2) Some by simp
  moreover have "sound (snd (noteSeedOriginHitLocked it' (bump HitTotal (s\<lparr>st_order := key # remove1 key (st_order s)\<rparr>)))
      \<lparr>st_index := (st_index s)(key \<mapsto> fst (noteSeedOriginHitLocked it' (bump HitTotal (s\<lparr>st_order := key # remove1 key (st_order s)\<rparr>))))\<rparr>)"
    if "it' = it\<lparr>it_lastRead := st_now s\<rparr>" for it'
    by (rule sound_touch [OF s Some]) (simp_all add: that)
  ultimately show ?thesis using s Some
    by (simp add: getCore_def Let_def pair_fst_snd)
qed

lemma sound_Get: "sound s \<Longrightarrow> sound (snd (Get key s))" "sound s \<Longrightarrow> sound (snd (GetNoTouch key s))"
proof -
  show "sound s \<Longrightarrow> sound (snd (Get key s))"
    using sound_getCore [of s key True] by (cases "getCore key True s") (simp add: Get_def split: option.split)
  show "sound s \<Longrightarrow> sound (snd (GetNoTouch key s))" by (simp add: GetNoTouch_def sound_getCore)
qed

lemma entryBytes_nonneg: "0 \<le> entryBytes s e"
  by (auto simp: entryBytes_def Let_def RawLen_def itemsTreeOverheadFactor_def split: option.split)

text \<open>A changed weight, before the sweep.\<close>

definition reaccounted :: "gostring \<Rightarrow> lruItem \<Rightarrow> int \<Rightarrow> store \<Rightarrow> store" where
  "reaccounted key it b s =
     (let s = (if Pinned (it_entry it) then s\<lparr>curResidentBytes := curResidentBytes s + (b - it_bytes it)\<rparr>
               else s\<lparr>curBytes := curBytes s + (b - it_bytes it)\<rparr>)
      in s\<lparr>st_index := (st_index s)(key \<mapsto> it\<lparr>it_bytes := b\<rparr>)\<rparr>)"

lemma wf_reaccounted:
  assumes "wf s" "st_index s key = Some it" "0 \<le> b"
  shows "wf (reaccounted key it b s)" (is "wf ?t")
proof -
  let ?it = "it\<lparr>it_bytes := b\<rparr>"
  have k: "key \<in> set (st_order s)" using wf_resident [OF assms(1,2)] by simp
  have tot: "total f (st_order s) ((st_index s)(key \<mapsto> ?it)) = total f (st_order s) (st_index s) - f it + f ?it" for f
    using total_replace [where f = f and k = key and it = it and it' = ?it and ord = "st_order s" and idx = "st_index s"]
      k assms(2) by simp
  have "cellsOK ?t" using assms by (auto simp: reaccounted_def wf_defs)
  moreover have "budgetsOK ?t" using assms(1)
    by (auto simp: reaccounted_def budgetsOK_def wf_def tot transientBytes_def residentBytes_def residentCount_def)
  moreover have "tombstonesOK ?t" "layersOK ?t" using assms(1,2) by (auto simp: reaccounted_def wf_defs)
  ultimately show ?thesis by (simp add: wf_def)
qed

lemma sound_reaccountEntry:
  assumes "sound s"
  shows "sound (reaccountEntry key e s)"
proof (cases "\<exists>it. st_index s key = Some it \<and> en_id (it_entry it) = en_id e \<and> it_bytes it \<noteq> entryBytes s e")
  case False
  then have "reaccountEntry key e s = s" by (auto simp: reaccountEntry_def Let_def split: option.split)
  then show ?thesis using assms by simp
next
  case True
  then obtain it where it: "st_index s key = Some it" "en_id (it_entry it) = en_id e" "it_bytes it \<noteq> entryBytes s e"
    by blast
  let ?t = "reaccounted key it (entryBytes s e) s"
  have w: "wf ?t" using wf_reaccounted [OF _ it(1) entryBytes_nonneg] assms by (simp add: sound_def)
  have "0 \<le> maxEntries ?t" "0 \<le> maxBytes ?t" using assms by (simp_all add: reaccounted_def sound_def)
  then show ?thesis
    using evict_caps [OF w] wf_evictUntilUnderCapsLocked [OF w] evictUntil_fields [OF w] it
    by (simp add: reaccountEntry_def Let_def reaccounted_def sound_def)
qed

lemma sound_ForgetRAFullListConsumer: "sound s \<Longrightarrow> sound (ForgetRAFullListConsumer ra w s)"
  by (auto simp: ForgetRAFullListConsumer_def dropEdgeLocked_def sound_def wf_defs capsOK_def transientCells_def
      map_of_delete_key)

lemma sound_newResolvedCache: "sound (newResolvedCache env n b t)"
  by (simp add: sound_def wf_defs capsOK_def transientCells_def newResolvedCache_def total_def
      defaultResolvedCacheMaxEntries_def defaultResolvedCacheMaxBytes_def)

section \<open>Runs\<close>

text \<open>
  What the store's lock serialises: the second halves of the writes, with whatever was prepared
  earlier outside the lock, the reads, the evictions, and the steps of the rest of the process on what
  the store reads of it (clock, list cells, dep edges, edge holders, declined marks).
\<close>

datatype storeOp =
    Commit resolveCtx bool gostring prepared
  | CommitIfGen resolveCtx gostring prepared "64 word"
  | CommitReplace resolveCtx gostring prepared "64 word"
  | CommitRefresh resolveCtx gostring prepared "64 word"
  | Read gostring
  | Peek gostring
  | Capture gostring
  | Delete gostring
  | Unrefreshable gostring ResolvedEntry
  | StaleBody gostring ResolvedEntry
  | ReapSuppressed gostring
  | ReapCold gostring
  | Reaccount gostring ResolvedEntry
  | ForgetConsumer gostring gostring
  | ReleaseOp gostring
  | SetTTL int
  | Decline gostring gostring bool
  | Clock nat
  | ListCell nat listCellState
  | RecordEdges gostring "DepKey list"
  | Holders "gostring set"
  | DeclineExternal gostring

fun applyOp :: "storeOp \<Rightarrow> store \<Rightarrow> store" where
  "applyOp (Commit ctx pk key pr) s = commitPlain ctx pk key pr s"
| "applyOp (CommitIfGen ctx key pr g) s = snd (commitIfGen ctx key pr g s)"
| "applyOp (CommitReplace ctx key pr g) s = snd (commitReplace ctx key pr g s)"
| "applyOp (CommitRefresh ctx key pr g) s = snd (commitRefresh ctx key pr g s)"
| "applyOp (Read key) s = snd (Get key s)"
| "applyOp (Peek key) s = snd (GetNoTouch key s)"
| "applyOp (Capture key) s = snd (CaptureGen key s)"
| "applyOp (Delete key) s = snd (deleteForDep key s)"
| "applyOp (Unrefreshable key e) s = snd (EvictUnrefreshable key e s)"
| "applyOp (StaleBody key e) s = snd (EvictStaleDerived key e s)"
| "applyOp (ReapSuppressed key) s = snd (reapOneMaxAgeSuppressed key s)"
| "applyOp (ReapCold key) s = snd (reapOneMaxAgeCold key s)"
| "applyOp (Reaccount key e) s = reaccountEntry key e s"
| "applyOp (ForgetConsumer ra w) s = ForgetRAFullListConsumer ra w s"
| "applyOp (ReleaseOp key) s = releaseUnstoredLocked key s"
| "applyOp (SetTTL d) s = SetTombstoneTTL d s"
| "applyOp (Decline key r p) s = snd (NoteRefreshDecline key r p s)"
| "applyOp (Clock d) s = s\<lparr>st_now := st_now s + int d\<rparr>"
| "applyOp (ListCell c x) s = s\<lparr>listCells := (listCells s)(c := x)\<rparr>"
| "applyOp (RecordEdges key ds) s = s\<lparr>depEdges := (depEdges s)(key := depEdges s key @ ds)\<rparr>"
| "applyOp (Holders ks) s = s\<lparr>edgeHolders := ks\<rparr>"
| "applyOp (DeclineExternal key) s = s\<lparr>declinedExternal := insert key (declinedExternal s)\<rparr>"

text \<open>A prepared write carries the weight the preamble computed, which is never negative.\<close>

fun weighed :: "storeOp \<Rightarrow> bool" where
  "weighed (Commit _ _ _ pr) \<longleftrightarrow> 0 \<le> pr_bytes pr"
| "weighed (CommitIfGen _ _ pr _) \<longleftrightarrow> 0 \<le> pr_bytes pr"
| "weighed (CommitReplace _ _ pr _) \<longleftrightarrow> 0 \<le> pr_bytes pr"
| "weighed (CommitRefresh _ _ pr _) \<longleftrightarrow> 0 \<le> pr_bytes pr"
| "weighed _ \<longleftrightarrow> True"

definition runOps :: "storeOp list \<Rightarrow> store \<Rightarrow> store" where
  "runOps ops s = foldl (\<lambda>s a. applyOp a s) s ops"

lemma prepare_weighed:
  "0 \<le> pr_bytes (preparePut ctx key e s)" "0 \<le> pr_bytes (prepareRefresh ctx key e s)"
  by (simp_all add: preparePut_def prepareRefresh_def putPreamble_def Let_def entryBytes_nonneg split: prod.split)

lemma sound_applyOp: "sound s \<Longrightarrow> weighed a \<Longrightarrow> sound (applyOp a s)"
proof (cases a)
  case (SetTTL d)
  then show "sound s \<Longrightarrow> ?thesis" by (simp add: SetTombstoneTTL_def sound_def wf_defs capsOK_def transientCells_def)
next
  case (Decline key r p)
  then show "sound s \<Longrightarrow> ?thesis" by (simp add: NoteRefreshDecline_def sound_def wf_defs capsOK_def transientCells_def)
qed (simp_all add: sound_commits sound_Get sound_evictions sound_reaccountEntry sound_ForgetRAFullListConsumer
      CaptureGen_def,
     simp_all add: sound_def wf_defs capsOK_def transientCells_def)

lemma sound_runOps: "sound s \<Longrightarrow> list_all weighed ops \<Longrightarrow> sound (runOps ops s)"
  by (induction ops arbitrary: s) (simp_all add: runOps_def sound_applyOp)

section \<open>Examples\<close>

definition exBlank :: store where
  "exBlank = \<lparr>st_now = 5 * nanos, st_order = [], st_index = (\<lambda>_. None), maxEntries = 0, maxBytes = 0, st_ttl = 0,
      curBytes = 0, maxResidentBytes = 0, curResidentBytes = 0, residentEntries = 0, maxEntryAge = 0,
      tombstones = [], tombstoneTTL = 0, tombstoneSweepAt = 0, byRA = (\<lambda>_. []), byWidget = (\<lambda>_. []),
      st_count = (\<lambda>_. 0), refreshSuppressed = (\<lambda>_. None), declinedExternal = {}, storePutSeq = 0,
      raContentVersionSeq = 0, listCells = (\<lambda>_. \<lparr>lc_anchored = False, lc_gen = None, lc_bodySeq = 0\<rparr>),
      depEdges = (\<lambda>_. []), edgeHolders = {}, st_calls = []\<rparr>"

text \<open>Two entries and ten bytes; every other bound is the default.\<close>

definition exConfigured :: store where
  "exConfigured = newResolvedCache exBlank 2 10 0"

definition exEntry :: "nat \<Rightarrow> gostring \<Rightarrow> ResolvedEntry" where
  "exEntry i body = \<lparr>en_id = i, RawJSON = body, ItemsLen = 0, listCell = None, Pinned = False, contentVersion = 0,
     recentHitters = None, TTLOverride = 0, ExternalTTL = False, SeededAtBoot = False, StaleDerived = False,
     SeedOrigin = [], Inputs = None, CreatedAt = 0, BornAt = 0, resolveStart = 0, hasResolveStart = False\<rparr>"

lemma exConfigured_sound: "sound exConfigured"
  unfolding exConfigured_def by (rule sound_newResolvedCache)

lemma exConfigured_fields:
  "maxEntries exConfigured = 2" "maxBytes exConfigured = 10" "st_index exConfigured = (\<lambda>_. None)"
  by (simp_all add: exConfigured_def newResolvedCache_def)

section \<open>The invariant\<close>

text \<open>C14: However the operations interleave, in a store built by the constructor the index and the list
  agree, both budgets are exactly the sums over the resident cells, a resident key has no tombstone, and
  the layer index mirrors itself and knows resident cells only.\<close>

theorem store_invariant:
  assumes "list_all weighed ops"
  shows "wf (runOps ops (newResolvedCache env mEntries mBytes ttl0))"
  using sound_runOps [OF sound_newResolvedCache assms] by (simp add: sound_def)

lemma store_invariant_witness:
  "wf (runOps [Commit backgroundCtx False ''k'' (preparePut backgroundCtx ''k'' (exEntry 1 ''body'') exBlank), Delete ''k'']
     (newResolvedCache exBlank 2 10 0))"
  by (rule store_invariant) (simp add: prepare_weighed)

text \<open>C17: After every operation the cells that may be evicted are within both caps.\<close>

theorem store_within_caps:
  assumes "list_all weighed ops"
  shows "let s = runOps ops (newResolvedCache env mEntries mBytes ttl0)
    in transientCells s \<le> maxEntries s \<and> Bytes s \<le> maxBytes s"
  using sound_runOps [OF sound_newResolvedCache assms] by (simp add: sound_def capsOK_def Bytes_def Let_def)

lemma store_within_caps_witness:
  "let s = runOps [Commit backgroundCtx False ''k'' (preparePut backgroundCtx ''k'' (exEntry 1 ''0123456789ABC'') exBlank)]
       (newResolvedCache exBlank 2 10 0)
   in transientCells s \<le> maxEntries s \<and> Bytes s \<le> maxBytes s"
  by (rule store_within_caps) (simp add: prepare_weighed)

end
