(* ===== verification/ResolvedSweep.thy ===== *)
theory ResolvedSweep
  imports ResolvedWf
begin

text \<open>
  What the eviction sweep of the resolved-output cache does (cache/resolved.go): it keeps the pinned
  cells and the longest run of most recently used other cells that fits both caps; so a stored body
  that fits is the body the next read of its key returns.
\<close>

definition transient :: "(gostring \<Rightarrow> lruItem option) \<Rightarrow> gostring \<Rightarrow> bool" where
  "transient idx k \<longleftrightarrow> (case idx k of None \<Rightarrow> False | Some it \<Rightarrow> \<not> Pinned (it_entry it))"

text \<open>The keys the sweep may take, most recently used first, and those it may not.\<close>

definition transientKeys :: "store \<Rightarrow> gostring list" where
  "transientKeys s = filter (transient (st_index s)) (st_order s)"

definition pinnedKeys :: "store \<Rightarrow> gostring list" where
  "pinnedKeys s = filter (\<lambda>k. \<not> transient (st_index s) k) (st_order s)"

definition fits :: "store \<Rightarrow> gostring list \<Rightarrow> bool" where
  "fits s ks \<longleftrightarrow> int (length ks) \<le> maxEntries s \<and> (\<Sum>k\<leftarrow>ks. weight transientBytes (st_index s) k) \<le> maxBytes s"

lemma transientCells_keys: "transientCells s = int (length (transientKeys s))"
  by (simp add: transientCells_def transientKeys_def transient_def [abs_def])

lemma curBytes_keys:
  assumes "wf s"
  shows "curBytes s = (\<Sum>k\<leftarrow>transientKeys s. weight transientBytes (st_index s) k)"
proof -
  have "weight transientBytes (st_index s) k = 0" if "\<not> transient (st_index s) k" for k
    using that by (simp add: weight_def transient_def transientBytes_def split: option.splits)
  then have "sum (weight transientBytes (st_index s)) (set (st_order s)) =
      sum (weight transientBytes (st_index s)) (set (transientKeys s))"
    by (intro sum.mono_neutral_right) (auto simp: transientKeys_def)
  then show ?thesis using assms
    by (simp add: wf_def budgetsOK_def total_def sum_list_distinct_conv_sum_set transientKeys_def wf_distinct)
qed

lemma find_rev_last: "find P (rev xs) = Some x \<Longrightarrow> filter P xs \<noteq> [] \<and> last (filter P xs) = x"
  by (induction xs rule: rev_induct) (auto split: if_splits)

lemma filter_remove_last:
  "distinct xs \<Longrightarrow> filter P xs \<noteq> [] \<Longrightarrow> filter P (remove1 (last (filter P xs)) xs) = butlast (filter P xs)"
proof (induction xs rule: rev_induct)
  case (snoc x xs)
  show ?case
  proof (cases "P x")
    case True
    then show ?thesis using snoc.prems by (simp add: remove1_append)
  next
    case False
    then have ne: "filter P xs \<noteq> []" using snoc.prems by simp
    then have "last (filter P xs) \<in> set xs" using last_in_set [OF ne] by auto
    then show ?thesis using snoc False ne by (simp add: remove1_append)
  qed
qed simp

lemma victim_keys:
  assumes "wf s" "victimOf s = Some (k, it)"
  shows "transientKeys s \<noteq> []" "last (transientKeys s) = k"
    "transientKeys (removeElementLocked k it s) = butlast (transientKeys s)"
    "pinnedKeys (removeElementLocked k it s) = pinnedKeys s"
proof -
  have it: "st_index s k = Some it" "k \<in> set (st_order s)" "\<not> Pinned (it_entry it)" "it_key it = k"
    using victimOf_Some [OF assms(2)] wf_resident [OF assms(1)] by auto
  have d: "distinct (st_order s)" using wf_distinct [OF assms(1)] .
  have "find (transient (st_index s)) (rev (st_order s)) = Some k"
    using assms(2) by (simp add: victimOf_def transient_def [abs_def] split: option.splits)
  from find_rev_last [OF this]
  show ne: "transientKeys s \<noteq> []" and l: "last (transientKeys s) = k" by (simp_all add: transientKeys_def)
  have idx: "filter (transient ((st_index s)(k := None))) (remove1 k (st_order s)) =
      filter (transient (st_index s)) (remove1 k (st_order s))"
    using d by (intro filter_cong) (auto simp: transient_def)
  then show "transientKeys (removeElementLocked k it s) = butlast (transientKeys s)"
    using filter_remove_last [OF d, of "transient (st_index s)"] ne l it(4) by (simp add: transientKeys_def)
  have "filter (\<lambda>x. \<not> transient ((st_index s)(k := None)) x) (remove1 k (st_order s)) =
      filter (\<lambda>x. \<not> transient (st_index s) x) (remove1 k (st_order s))"
    using d by (intro filter_cong) (auto simp: transient_def)
  moreover have "k \<notin> set (filter (\<lambda>x. \<not> transient (st_index s) x) (st_order s))" using it by (simp add: transient_def)
  ultimately show "pinnedKeys (removeElementLocked k it s) = pinnedKeys s"
    using it(4) by (simp add: pinnedKeys_def filter_remove1 remove1_idem)
qed

definition sweptTo :: "store \<Rightarrow> store \<Rightarrow> nat \<Rightarrow> bool" where
  "sweptTo s t m \<longleftrightarrow> m \<le> length (transientKeys s) \<and> transientKeys t = take m (transientKeys s) \<and>
     pinnedKeys t = pinnedKeys s \<and> (\<forall>k\<in>set (st_order t). st_index t k = st_index s k) \<and>
     fits s (take m (transientKeys s)) \<and>
     (m < length (transientKeys s) \<longrightarrow> \<not> fits s (take (Suc m) (transientKeys s)))"

lemma fits_cong:
  "maxEntries s = maxEntries t \<Longrightarrow> maxBytes s = maxBytes t \<Longrightarrow>
   (\<And>k. k \<in> set ks \<Longrightarrow> st_index s k = st_index t k) \<Longrightarrow> fits s ks = fits t ks"
  unfolding fits_def by (auto simp: weight_def cong: map_cong)

lemma evictLoop_sweeps:
  assumes "wf s"
  shows "int (length (transientKeys s)) = n \<longrightarrow> 0 \<le> maxEntries s \<longrightarrow> 0 \<le> maxBytes s \<longrightarrow> (\<exists>m. sweptTo s (evictLoop n s) m)"
  using assms
proof (induction n s rule: evictLoop_induct)
  case (stop n s)
  show ?case
  proof (intro impI exI)
    assume n: "int (length (transientKeys s)) = n" "0 \<le> maxEntries s" "0 \<le> maxBytes s"
    have "fits s (transientKeys s)"
    proof (cases "victimOf s = None")
      case True
      then have "transientKeys s = []" using victimOf_None [OF True] by (simp add: transientCells_keys)
      then show ?thesis using n by (simp add: fits_def)
    next
      case False
      then show ?thesis using stop(2) n curBytes_keys [OF stop(1)] by (auto simp: fits_def)
    qed
    then show "sweptTo s s (length (transientKeys s))" by (simp add: sweptTo_def)
  qed
next
  case (evict n s k it t)
  note v = victim_keys [OF evict(1,2)]
  let ?s = "bump EvictLRUTotal (removeElementLocked k it s)" and ?ks = "transientKeys s"
  have ks: "transientKeys ?s = butlast ?ks" "pinnedKeys ?s = pinnedKeys s"
    using v(3,4) by (simp_all add: transientKeys_def pinnedKeys_def)
  have d: "distinct ?ks" using wf_distinct [OF evict(1)] by (simp add: transientKeys_def)
  have kk: "it_key it = k" using wf_resident [OF evict(1,3)] by simp
  have nk: "k \<notin> set (butlast ?ks)" using d v(1,2) by (metis append_butlast_last_id distinct_append disjoint_insert(1) list.simps(15))
  show ?case
  proof (intro impI)
    assume n: "int (length ?ks) = n" "0 \<le> maxEntries s" "0 \<le> maxBytes s"
    then have "int (length (transientKeys ?s)) = n - 1" using v(1) by (simp add: ks of_nat_diff Suc_leI)
    then obtain m where m: "sweptTo ?s t m" using evict(6) n by auto
    have same: "fits ?s (take i (butlast ?ks)) = fits s (take i (butlast ?ks))" for i
      using nk kk by (intro fits_cong) (auto dest!: in_set_takeD)
    have t: "take i (butlast ?ks) = take i ?ks" if "i \<le> length (butlast ?ks)" for i
      using that by (simp add: butlast_conv_take min.absorb1)
    have le: "m \<le> length (butlast ?ks)" using m by (simp add: sweptTo_def ks)
    have "k \<notin> set (st_order t)"
    proof
      assume "k \<in> set (st_order t)"
      then have "k \<in> set (transientKeys t) \<or> k \<in> set (pinnedKeys t)" by (auto simp: transientKeys_def pinnedKeys_def)
      moreover have "k \<notin> set (pinnedKeys t)"
      proof -
        have "pinnedKeys t = pinnedKeys s" using m ks(2) by (simp add: sweptTo_def)
        then show ?thesis using evict(3,4) by (simp add: pinnedKeys_def transient_def)
      qed
      moreover have "transientKeys t = take m (butlast ?ks)" using m ks(1) by (simp add: sweptTo_def)
      then have "k \<notin> set (transientKeys t)" using nk by (auto dest: in_set_takeD)
      ultimately show False by blast
    qed
    moreover have "\<not> fits s ?ks"
      using evict(5) n curBytes_keys [OF evict(1)] by (auto simp: fits_def)
    ultimately have "sweptTo s t m"
      using m le same [of m] same [of "Suc m"] t [of m] t [of "Suc m"] v(1) kk by (cases "m < length (butlast ?ks)") (auto simp: sweptTo_def ks)
    then show "\<exists>m. sweptTo s t m" ..
  qed
qed

lemma swept:
  assumes "wf s" "0 \<le> maxEntries s" "0 \<le> maxBytes s"
  shows "\<exists>m. sweptTo s (evictUntilUnderCapsLocked s) m"
  using evictLoop_sweeps [OF assms(1), of "int (length (st_order s)) - residentEntries s"] assms
    transient_total [of s]
  by (simp add: evictUntilUnderCapsLocked_def wf_def budgetsOK_def transientCells_keys)

text \<open>C15: The sweep keeps every pinned cell where it is, and of the other cells the longest run of most
  recently used ones that is under both caps, as they are; so it takes no more than it must and always
  the least recently used.\<close>

theorem sweep_keeps_longest_fitting_run:
  assumes "wf s" "0 \<le> maxEntries s" "0 \<le> maxBytes s"
  shows "let ks = transientKeys s; t = evictUntilUnderCapsLocked s in
    \<exists>m \<le> length ks. transientKeys t = take m ks \<and> pinnedKeys t = pinnedKeys s \<and>
      (\<forall>k. k \<in> set (st_order t) \<longrightarrow> st_index t k = st_index s k) \<and>
      fits s (take m ks) \<and> (m < length ks \<longrightarrow> \<not> fits s (take (m + 1) ks))"
  using swept [OF assms] by (auto simp: sweptTo_def Let_def)

section \<open>Stored bodies are served\<close>

lemma swept_spares_front:
  assumes "sweptTo s t m" "st_order s = key # ks" "1 \<le> maxEntries s"
    and "weight transientBytes (st_index s) key \<le> maxBytes s" "wf t"
  shows "st_index t key = st_index s key"
proof -
  have "key \<in> set (st_order t)"
  proof (cases "transient (st_index s) key")
    case True
    have m: "m \<noteq> 0"
    proof
      assume "m = 0"
      then have "\<not> fits s [key]" using assms(1,2) True by (simp add: sweptTo_def transientKeys_def)
      then show False using assms(3,4) by (simp add: fits_def)
    qed
    have "key \<in> set (take m (transientKeys s))" using m assms(2) True
      by (cases m) (simp_all add: transientKeys_def)
    then have "key \<in> set (transientKeys t)" using assms(1) by (simp add: sweptTo_def)
    then show ?thesis by (simp add: transientKeys_def)
  next
    case False
    then have "key \<in> set (pinnedKeys t)" using assms(1,2) by (simp add: sweptTo_def pinnedKeys_def)
    then show ?thesis by (simp add: pinnedKeys_def)
  qed
  then show ?thesis using assms(1) by (simp add: sweptTo_def)
qed

lemma placeLocked_wf:
  assumes "wf s" "0 \<le> bytes"
  shows "wf (placeLocked key e0 bytes h gen fm (unmarkDeclinedExternalOnPut key e0 (s\<lparr>tombstones := AList.delete key (tombstones s)\<rparr>)))"
proof (rule wf_placed)
  show "wf (unmarkDeclinedExternalOnPut key e0 (s\<lparr>tombstones := AList.delete key (tombstones s)\<rparr>))"
    using wf_forgetTombstone [OF assms(1)] by (simp add: wf_unmark)
qed (simp_all add: assms(2) map_of_delete_key)

text \<open>The cells after the put core, by key.\<close>

lemma putCoreLocked_keeps:
  assumes "sound s" "0 \<le> bytes" "1 \<le> maxEntries s" "bytes \<le> maxBytes s"
  shows "\<exists>x. st_index (putCoreLocked key e0 bytes h gen fm s) key = Some (placedItem key e0 bytes h gen fm x) \<and>
    st_index x = st_index s \<and> storePutSeq x = storePutSeq s"
proof -
  let ?x = "unmarkDeclinedExternalOnPut key e0 (s\<lparr>tombstones := AList.delete key (tombstones s)\<rparr>)"
  let ?t = "placeLocked key e0 bytes h gen fm ?x"
  have w: "wf s" "0 \<le> maxEntries s" "0 \<le> maxBytes s" using assms(1) by (simp_all add: sound_def)
  have wt: "wf ?t" by (rule placeLocked_wf [OF w(1) assms(2)])
  have wx: "wf ?x" using wf_forgetTombstone [OF w(1)] by (simp add: wf_unmark)
  obtain m where m: "sweptTo ?t (evictUntilUnderCapsLocked ?t) m"
    using swept [OF wt] w by (auto simp: placeLocked_fields)
  have "weight transientBytes (st_index ?t) key \<le> maxBytes ?t"
    using assms(2,4) w(3) by (simp add: placeLocked_fields weight_def transientBytes_def)
  then have "st_index (evictUntilUnderCapsLocked ?t) key = st_index ?t key"
    using swept_spares_front [OF m placeLocked_fields(2) [OF wx] _ _ wf_evictUntilUnderCapsLocked [OF wt]] assms(3)
    by (simp add: placeLocked_fields)
  then show ?thesis by (intro exI [of _ ?x]) (simp add: putCoreLocked_def placeLocked_fields)
qed

lemma setEntryVersion_index:
  "\<exists>v'. st_index (setEntryVersion key p v s) =
     (st_index s)(key := map_option (\<lambda>it. it\<lparr>it_entry := (it_entry it)\<lparr>contentVersion := v'\<rparr>\<rparr>) (st_index s key))"
proof (cases "st_index s key")
  case None
  then show ?thesis by (simp add: setEntryVersion_def fun_upd_idem)
next
  case (Some it)
  have i: "(st_index s)(key \<mapsto> it) = st_index s" using Some by (simp add: fun_upd_idem)
  show ?thesis
  proof (cases "en_id (it_entry it) = p")
    case True
    then show ?thesis using Some by (intro exI [of _ v]) (simp add: setEntryVersion_def)
  next
    case False
    then show ?thesis using Some i
      by (intro exI [of _ "contentVersion (it_entry it)"]) (simp add: setEntryVersion_def)
  qed
qed

lemma recordSources_index [simp]: "st_index (foldl (recordSource w) s srcs) = st_index s"
  by (induction srcs arbitrary: s) (simp_all add: recordSource_frame)

lemma raLayerCommit_index:
  "\<exists>v. st_index (snd (raLayerCommitLocked ctx pk key sp e s)) =
     (st_index s)(key := map_option (\<lambda>it. it\<lparr>it_entry := (it_entry it)\<lparr>contentVersion := v\<rparr>\<rparr>) (st_index s key))"
proof (cases "isRAFullListEntry e")
  case True
  then show ?thesis
    using setEntryVersion_index [of key "en_id e" _ s]
      setEntryVersion_index [of key "en_id e" _ "s\<lparr>raContentVersionSeq := raContentVersionSeq s + 1\<rparr>"]
    by (cases sp) (simp_all add: raLayerCommitLocked_def Let_def)
next
  case False
  have "st_index (snd (raLayerCommitLocked ctx pk key sp e s)) = st_index s"
    using False by (simp add: raLayerCommitLocked_def Let_def del: foldl.simps split: option.split list.split)
  moreover have "(st_index s)(key := map_option (\<lambda>it. it\<lparr>it_entry := (it_entry it)\<lparr>contentVersion := v\<rparr>\<rparr>) (st_index s key)) = st_index s"
    if "\<And>it. st_index s key = Some it \<Longrightarrow> contentVersion (it_entry it) = v" for v
    using that by (cases "st_index s key") (auto simp: fun_upd_idem)
  ultimately show ?thesis by (cases "st_index s key") (metis option.distinct(1), metis option.inject)
qed

text \<open>The body, its coordinates and its clocks, apart from the birth.\<close>

definition sameBody :: "ResolvedEntry \<Rightarrow> ResolvedEntry \<Rightarrow> bool" where
  "sameBody a b \<longleftrightarrow> RawJSON a = RawJSON b \<and> ItemsLen a = ItemsLen b \<and> listCell a = listCell b \<and>
     Inputs a = Inputs b \<and> TTLOverride a = TTLOverride b \<and> CreatedAt a = CreatedAt b \<and> en_id a = en_id b"

lemma sameBody_refl [simp]: "sameBody e e"
  by (simp add: sameBody_def)

definition bornAfter :: "bool \<Rightarrow> lruItem option \<Rightarrow> ResolvedEntry \<Rightarrow> int" where
  "bornAfter fm old e = (case old of Some it \<Rightarrow>
     if \<not> fm \<and> BornAt (it_entry it) \<noteq> 0 then BornAt (it_entry it) else BornAt e | None \<Rightarrow> BornAt e)"

lemma decidePin_entry [simp]:
  "sameBody (fst (decidePin key b e s)) e" "BornAt (fst (decidePin key b e s)) = BornAt e"
  by (auto simp: decidePin_def sameBody_def)

lemma placedItem_entry:
  "sameBody (it_entry (placedItem key e b h gen fm s)) e"
  "BornAt (it_entry (placedItem key e b h gen fm s)) = bornAfter fm (st_index s key) e"
  using decidePin_entry(1) [of key b e s]
  by (simp_all add: placedItem_def Let_def sameBody_def replacedItem_def freshItem_def bornAfter_def inheritFrom_def
      split: option.split)

lemma storeUnderLock_keeps:
  assumes "sound s" "0 \<le> pr_bytes pr" "1 \<le> maxEntries s" "pr_bytes pr \<le> maxBytes s"
  shows "\<exists>it. st_index (snd (storeUnderLock ctx pk key pr gen fm s)) key = Some it \<and> it_gen it = gen \<and>
    sameBody (it_entry it) (pr_entry pr) \<and> BornAt (it_entry it) = bornAfter fm (st_index s key) (pr_entry pr)"
proof -
  let ?c = "putCoreLocked key (pr_entry pr) (pr_bytes pr) (pr_extrasHash pr) gen fm s"
  let ?p = "placedItem key (pr_entry pr) (pr_bytes pr) (pr_extrasHash pr) gen fm"
  obtain x where x: "st_index ?c key = Some (?p x)" "st_index x = st_index s"
    using putCoreLocked_keeps [OF assms(1,2,3,4)] by blast
  let ?r = "reassertOwnEdges ctx key ?c"
  obtain v where "st_index (snd (raLayerCommitLocked ctx pk key (raLayerConfirmPriorLocked key (pr_equalPrior pr) s) (pr_entry pr) ?r)) =
     (st_index ?r)(key := map_option (\<lambda>it. it\<lparr>it_entry := (it_entry it)\<lparr>contentVersion := v\<rparr>\<rparr>) (st_index ?r key))"
    using raLayerCommit_index by blast
  then have "st_index (snd (storeUnderLock ctx pk key pr gen fm s)) key =
      Some ((?p x)\<lparr>it_entry := (it_entry (?p x))\<lparr>contentVersion := v\<rparr>\<rparr>)"
    using x(1) by (simp add: storeUnderLock_def Let_def pair_fst_snd)
  then show ?thesis using placedItem_entry [of key "pr_entry pr" "pr_bytes pr" "pr_extrasHash pr" gen fm x] x(2)
    by (simp add: sameBody_def)
qed

definition settings :: "store \<Rightarrow> int list" where
  "settings s = [st_now s, st_ttl s, maxEntryAge s, maxEntries s, maxBytes s, tombstoneTTL s]"

lemma storeUnderLock_settings:
  assumes "sound s" "0 \<le> pr_bytes pr"
  shows "settings (snd (storeUnderLock ctx pk key pr gen fm s)) = settings s"
proof -
  have f: "settings (foldl (recordSource w) t srcs) = settings t" for w t srcs
    by (induction srcs arbitrary: t) (simp_all add: recordSource_def settings_def)
  have v: "settings (setEntryVersion k p x t) = settings t" for k p x t
    by (simp add: setEntryVersion_def settings_def split: option.split)
  have d: "settings (dropWidgetLocked k t) = settings t" "settings (t\<lparr>raContentVersionSeq := x\<rparr>) = settings t" for k t x
    by (simp_all add: settings_def)
  have "settings (snd (raLayerCommitLocked ctx pk key sp e t)) = settings t" for sp e t
    using f v d by (simp add: raLayerCommitLocked_def Let_def del: foldl.simps split: option.split list.split)
  moreover have "wf s" using assms(1) by (simp add: sound_def)
  note putCoreLocked_settings [OF this assms(2)]
  ultimately show ?thesis by (simp add: storeUnderLock_def Let_def pair_fst_snd) (simp add: settings_def)
qed

definition alive :: "store \<Rightarrow> ResolvedEntry \<Rightarrow> bool" where
  "alive s e \<longleftrightarrow> incremental s e \<or>
     \<not> (effectiveTTLLocked s e > 0 \<and> timeSub (st_now s) (CreatedAt e) > effectiveTTLLocked s e) \<and>
     \<not> (maxEntryAge s > 0 \<and> BornAt e \<noteq> 0 \<and> timeSub (st_now s) (BornAt e) > maxEntryAge s)"

lemma itemExpired_alive:
  "alive s (it_entry it) \<longleftrightarrow> itemExpiredLocked s it = (False, False)"
  by (auto simp: alive_def itemExpiredLocked_def Let_def)

lemma Get_alive:
  assumes "st_index s key = Some it"
  shows "fst (Get key s) = (if alive s (it_entry it) then Some (it_entry it) else None)"
    and "fst (GetNoTouch key s) = (if alive s (it_entry it) then Some (it_entry it) else None)"
proof -
  obtain a b where ab: "itemExpiredLocked s it = (a, b)" by fastforce
  show "fst (GetNoTouch key s) = (if alive s (it_entry it) then Some (it_entry it) else None)"
    using assms ab itemExpired_alive [of s it] by (cases a; cases b) (simp_all add: GetNoTouch_def getCore_def Let_def)
  have "fst (getCore key True s) = (if alive s (it_entry it) then Some (it_entry it) else None)"
    using assms ab itemExpired_alive [of s it]
    by (cases a; cases b) (simp_all add: getCore_def Let_def pair_fst_snd)
  then show "fst (Get key s) = (if alive s (it_entry it) then Some (it_entry it) else None)"
    by (cases "getCore key True s") (simp add: Get_def split: option.split)
qed

lemma timeSub_self [simp]: "timeSub t t = 0"
  by (simp add: timeSub_def maxDuration_def minDuration_def)

definition putUnderLock :: "resolveCtx \<Rightarrow> bool \<Rightarrow> gostring \<Rightarrow> ResolvedEntry \<Rightarrow> store \<Rightarrow> store" where
  "putUnderLock ctx pk key e s = snd (storeUnderLock ctx pk key (preparePut ctx key e s)
     (fst (currentGenLocked key s)) False (snd (currentGenLocked key (clearRefreshSuppression key s))))"

lemma putPlain_under_lock:
  assumes "\<not> rc_inert ctx"
  shows "st_index (putPlain ctx pk key e s) = st_index (putUnderLock ctx pk key e s)"
    "settings (putPlain ctx pk key e s) = settings (putUnderLock ctx pk key e s)"
proof -
  have "fst (currentGenLocked key (clearRefreshSuppression key s)) = fst (currentGenLocked key s)"
    by (simp add: currentGenLocked_def tombstoneExpiredLocked_def split: option.split)
  then show "st_index (putPlain ctx pk key e s) = st_index (putUnderLock ctx pk key e s)"
    "settings (putPlain ctx pk key e s) = settings (putUnderLock ctx pk key e s)"
    using assms by (simp_all add: putUnderLock_def putPlain_def commitPlain_def Let_def pair_fst_snd settings_def)
qed

lemma putPlain_settings: "sound s \<Longrightarrow> settings (putPlain ctx pk key e s) = settings s"
proof (cases "rc_inert ctx")
  case False
  assume "sound s"
  then have "sound (snd (currentGenLocked key (clearRefreshSuppression key s)))" by simp
  note storeUnderLock_settings [OF this prepare_weighed(1)]
  then show ?thesis unfolding putPlain_under_lock(2) [OF False] putUnderLock_def by (simp add: settings_def)
qed (simp add: putPlain_def)

lemma sound_putPlain: "sound s \<Longrightarrow> sound (putPlain ctx pk key e s)"
  by (simp add: putPlain_def sound_commits(1) prepare_weighed)

text \<open>The entry the preamble stamps from a fresh body.\<close>

lemma preparePut_fresh:
  assumes "CreatedAt e = 0" "BornAt e = 0"
  shows "RawJSON (pr_entry (preparePut ctx key e s)) = RawJSON e" "listCell (pr_entry (preparePut ctx key e s)) = listCell e"
    "Inputs (pr_entry (preparePut ctx key e s)) = Inputs e" "ItemsLen (pr_entry (preparePut ctx key e s)) = ItemsLen e"
    "CreatedAt (pr_entry (preparePut ctx key e s)) = st_now s" "BornAt (pr_entry (preparePut ctx key e s)) = st_now s"
    "pr_bytes (preparePut ctx key e s) = entryBytes s e"
  using assms by (auto simp: preparePut_def putPreamble_def Let_def entryBytes_def RawLen_def itemCount_def
      split: prod.split option.split)

text \<open>C16: In a sound store a freshly resolved body that fits the byte budget, stored under a key whose
  resident cell is not past the age cap, is what the next read of the key returns.\<close>

theorem put_then_get:
  assumes "sound s" "\<not> rc_inert ctx" "CreatedAt e = 0" "BornAt e = 0"
    and "1 \<le> maxEntries s" "entryBytes s e \<le> maxBytes s"
    and "\<And>it. st_index s key = Some it \<Longrightarrow> BornAt (it_entry it) \<noteq> 0 \<Longrightarrow> 0 < maxEntryAge s \<Longrightarrow>
      timeSub (st_now s) (BornAt (it_entry it)) \<le> maxEntryAge s"
  shows "\<exists>e'. fst (Get key (putPlain ctx pk key e s)) = Some e' \<and> RawJSON e' = RawJSON e \<and>
    listCell e' = listCell e \<and> Inputs e' = Inputs e \<and> ItemsLen e' = ItemsLen e"
proof -
  let ?pr = "preparePut ctx key e s" and ?s = "snd (currentGenLocked key (clearRefreshSuppression key s))"
  let ?t = "snd (storeUnderLock ctx pk key ?pr (fst (currentGenLocked key s)) False ?s)"
  note pr = preparePut_fresh [OF assms(3,4), of ctx key s]
  have sound: "sound ?s" using assms(1) by simp
  have b: "0 \<le> pr_bytes ?pr" by (rule prepare_weighed)
  have "pr_bytes ?pr \<le> maxBytes ?s" "1 \<le> maxEntries ?s" using assms(5,6) pr(7) by simp_all
  from storeUnderLock_keeps [OF sound b this(2,1), where ctx = ctx and pk = pk and key = key and fm = False
      and gen = "fst (currentGenLocked key s)"]
  obtain it where it: "st_index ?t key = Some it" "sameBody (it_entry it) (pr_entry ?pr)"
    "BornAt (it_entry it) = bornAfter False (st_index s key) (pr_entry ?pr)" by auto
  have now: "st_now (putPlain ctx pk key e s) = st_now s" "maxEntryAge (putPlain ctx pk key e s) = maxEntryAge s"
    using putPlain_settings [OF assms(1), of ctx pk key e] by (simp_all add: settings_def)
  have "alive (putPlain ctx pk key e s) (it_entry it)"
    using it(2,3) pr now assms(7)
    by (auto simp: alive_def sameBody_def bornAfter_def putPlain_under_lock [OF assms(2)] split: option.splits if_splits)
  then have "fst (Get key (putPlain ctx pk key e s)) = Some (it_entry it)"
    using it(1) by (simp add: Get_alive(1) putPlain_under_lock(1) [OF assms(2)] putUnderLock_def)
  then show ?thesis using it(2) pr by (simp add: sameBody_def)
qed

lemma put_then_get_witness:
  "\<exists>e'. fst (Get ''k'' (putPlain backgroundCtx False ''k'' (exEntry 1 ''body'') exConfigured)) = Some e' \<and>
    RawJSON e' = ''body'' \<and> listCell e' = None \<and> Inputs e' = None \<and> ItemsLen e' = 0"
  using put_then_get [OF exConfigured_sound, of backgroundCtx "exEntry 1 ''body''" "''k''" False]
  by (simp add: exConfigured_fields exEntry_def backgroundCtx_def entryBytes_def)

definition exThree :: store where
  "exThree = exConfigured\<lparr>st_order := [''c'', ''b'', ''a''],
     st_index := map_of (map (\<lambda>k. (k, freshItem k (exEntry 1 ''x'') 2 [] 0 1)) [''c'', ''b'', ''a'']), curBytes := 6\<rparr>"

lemma exThree_wf: "wf exThree" "0 \<le> maxEntries exThree" "0 \<le> maxBytes exThree"
  by (auto simp: wf_defs exThree_def exConfigured_def exBlank_def newResolvedCache_def freshItem_def exEntry_def total_def
      weight_def transientBytes_def residentBytes_def residentCount_def)

lemma sweep_keeps_longest_fitting_run_witness:
  "transientKeys (evictUntilUnderCapsLocked exThree) = [''c'', ''b'']"
proof -
  have k: "transientKeys exThree = [''c'', ''b'', ''a'']"
    by (simp add: transientKeys_def exThree_def transient_def freshItem_def exEntry_def)
  have f: "fits exThree [''c'', ''b'']" "\<not> fits exThree [''c'', ''b'', ''a'']"
    by (simp_all add: fits_def exThree_def exConfigured_fields weight_def freshItem_def transientBytes_def exEntry_def)
  define ks where "ks = [''c'', ''b'', ''a'']"
  obtain m where "m \<le> length ks" "transientKeys (evictUntilUnderCapsLocked exThree) = take m ks"
    "fits exThree (take m ks)" "m < length ks \<longrightarrow> \<not> fits exThree (take (m + 1) ks)"
    using sweep_keeps_longest_fitting_run [OF exThree_wf] unfolding Let_def k ks_def [symmetric] by blast
  then have m: "m \<le> 3" "transientKeys (evictUntilUnderCapsLocked exThree) = take m [''c'', ''b'', ''a'']"
    "fits exThree (take m [''c'', ''b'', ''a''])" "m < 3 \<longrightarrow> \<not> fits exThree (take (m + 1) [''c'', ''b'', ''a''])"
    by (simp_all add: ks_def numeral_3_eq_3)
  have "m = 2"
  proof (rule ccontr)
    assume "m \<noteq> 2"
    then consider "m = 0" | "m = 1" | "m = 3" using m(1) by linarith
    then show False
      using m f by cases (simp_all add: fits_def exThree_def exConfigured_fields weight_def transientBytes_def
          freshItem_def exEntry_def)
  qed
  then show ?thesis using m(2) by (simp add: numeral_2_eq_2)
qed

text \<open>A body above the byte cap takes every cell the sweep may take with it, and is not kept itself.\<close>

theorem oversized_put_flushes:
  assumes "sound s" "\<not> Pinned e" "maxBytes s < bytes"
  shows "transientKeys (putCoreLocked key e bytes h gen fm s) = []"
proof -
  let ?x = "unmarkDeclinedExternalOnPut key e (s\<lparr>tombstones := AList.delete key (tombstones s)\<rparr>)"
  let ?t = "placeLocked key e bytes h gen fm ?x"
  have w: "wf s" "0 \<le> maxEntries s" "0 \<le> maxBytes s" using assms(1) by (simp_all add: sound_def)
  have b: "0 \<le> bytes" using assms(3) w(3) by simp
  have wt: "wf ?t" by (rule placeLocked_wf [OF w(1) b])
  have wx: "wf ?x" using wf_forgetTombstone [OF w(1)] by (simp add: wf_unmark)
  obtain m where m: "sweptTo ?t (evictUntilUnderCapsLocked ?t) m"
    using swept [OF wt] w by (auto simp: placeLocked_fields)
  have p: "\<not> Pinned (it_entry (placedItem key e bytes h gen fm ?x))" using assms(2)
    by (simp add: placedItem_def Let_def replacedItem_def freshItem_def decidePin_def split: option.split)
  have t: "transientKeys ?t = key # filter (transient (st_index ?t)) (remove1 key (st_order s))"
    using placeLocked_fields(2) [OF wx] p by (simp add: transientKeys_def transient_def placeLocked_fields(1))
  have "m = 0"
  proof (rule ccontr)
    assume "m \<noteq> 0"
    then obtain rest where r: "take m (transientKeys ?t) = key # rest" using t by (cases m) auto
    have nn: "0 \<le> weight transientBytes (st_index ?t) k" for k
      using wf_resident [OF wt] by (auto simp: weight_def transientBytes_def split: option.split)
    have "0 \<le> (\<Sum>k\<leftarrow>rest. weight transientBytes (st_index ?t) k)" by (rule sum_list_nonneg) (auto simp: nn)
    moreover have "weight transientBytes (st_index ?t) key = bytes"
      using p by (simp add: weight_def placeLocked_fields(1) transientBytes_def)
    ultimately show False using m r assms(3) by (simp add: sweptTo_def fits_def placeLocked_fields)
  qed
  then show ?thesis using m by (simp add: sweptTo_def putCoreLocked_def)
qed

lemma oversized_put_flushes_witness:
  "transientKeys (putCoreLocked ''big'' (exEntry 2 ''0123456789ABC'') 13 [] 0 False
     (putPlain backgroundCtx False ''k'' (exEntry 1 ''body'') exConfigured)) = []"
proof (rule oversized_put_flushes)
  let ?s = "putPlain backgroundCtx False ''k'' (exEntry 1 ''body'') exConfigured"
  show "sound ?s" by (rule sound_putPlain [OF exConfigured_sound])
  show "\<not> Pinned (exEntry 2 ''0123456789ABC'')" by (simp add: exEntry_def)
  show "maxBytes ?s < 13"
    using putPlain_settings [OF exConfigured_sound] by (simp add: settings_def exConfigured_fields)
qed

end
