(* ===== verification/ResolvedGuard.thy ===== *)
theory ResolvedGuard
  imports ResolvedSweep
begin

text \<open>
  The generation guard of the resolved-output cache (cache/resolved.go): a write that captured the
  generation of its key before the key was removed is refused, whatever happens in between, as long as
  the write lands within the tombstone window of its capture and the capture did not read a tombstone
  that runs out in between. Without the last condition the guard fails: a generation number is reused.
\<close>

section \<open>The interface\<close>

text \<open>
  What a guarded write relies on: a bound on the generation of one key that no step lowers and that
  every removal of the key raises, while the window lasts.
\<close>

locale generation_guard =
  fixes step :: "'op \<Rightarrow> 's \<Rightarrow> 's"
    and sane :: "'s \<Rightarrow> bool"
    and within :: "'s \<Rightarrow> bool"
    and resident :: "'s \<Rightarrow> bool"
    and bounded :: "nat \<Rightarrow> nat \<Rightarrow> 's \<Rightarrow> bool"
    and limit :: nat
    and valid :: "'op \<Rightarrow> bool"
  assumes sane_step: "sane s \<Longrightarrow> valid a \<Longrightarrow> sane (step a s)"
    and within_back: "sane s \<Longrightarrow> valid a \<Longrightarrow> within (step a s) \<Longrightarrow> within s"
    and keep: "sane s \<Longrightarrow> bounded b u s \<Longrightarrow> valid a \<Longrightarrow> within (step a s) \<Longrightarrow> u + 1 < limit \<Longrightarrow>
      bounded b (u + 1) (step a s)"
    and removal: "sane s \<Longrightarrow> bounded b u s \<Longrightarrow> valid a \<Longrightarrow> within (step a s) \<Longrightarrow> u + 1 < limit \<Longrightarrow>
      resident s \<Longrightarrow> \<not> resident (step a s) \<Longrightarrow> bounded (b + 1) (u + 1) (step a s)"
begin

fun run :: "'op list \<Rightarrow> 's \<Rightarrow> 's" where
  "run [] s = s"
| "run (a # as) s = run as (step a s)"

fun removes :: "'op list \<Rightarrow> 's \<Rightarrow> bool" where
  "removes [] s \<longleftrightarrow> False"
| "removes (a # as) s \<longleftrightarrow> resident s \<and> \<not> resident (step a s) \<or> removes as (step a s)"

lemma within_run: "sane s \<Longrightarrow> list_all valid as \<Longrightarrow> within (run as s) \<Longrightarrow> within s"
proof (induction as arbitrary: s)
  case (Cons a as)
  then have "within (step a s)" using sane_step by simp
  then show ?case using within_back [of s a] Cons.prems by simp
qed simp

lemma run_keeps:
  "sane s \<Longrightarrow> bounded b u s \<Longrightarrow> list_all valid as \<Longrightarrow> within (run as s) \<Longrightarrow> u + length as < limit \<Longrightarrow>
   bounded b (u + length as) (run as s)"
proof (induction as arbitrary: s u)
  case (Cons a as)
  have w: "sane (step a s)" "within (step a s)"
    using sane_step within_run [of "step a s" as] Cons.prems by simp_all
  then have "bounded b (u + 1) (step a s)" using keep Cons.prems by simp
  from Cons.IH [OF w(1) this] Cons.prems show ?case by simp
qed simp

text \<open>Over a run that removes the key, the lower bound is raised.\<close>

theorem run_raises:
  "sane s \<Longrightarrow> bounded b u s \<Longrightarrow> list_all valid as \<Longrightarrow> within (run as s) \<Longrightarrow> u + length as < limit \<Longrightarrow> removes as s \<Longrightarrow>
   bounded (b + 1) (u + length as) (run as s)"
proof (induction as arbitrary: s u)
  case (Cons a as)
  have w: "sane (step a s)" "within (step a s)"
    using sane_step within_run [of "step a s" as] Cons.prems by simp_all
  show ?case
  proof (cases "resident s \<and> \<not> resident (step a s)")
    case True
    then have "bounded (b + 1) (u + 1) (step a s)" using removal Cons.prems w by simp
    from run_keeps [OF w(1) this] Cons.prems show ?thesis by simp
  next
    case False
    have "bounded b (u + 1) (step a s)" using keep Cons.prems w by simp
    from Cons.IH [OF w(1) this] Cons.prems False show ?thesis by simp
  qed
qed simp

end

section \<open>What the guard reads of a key\<close>

type_synonym guardView = "64 word option \<times> tombstone option \<times> int \<times> int"

definition view :: "gostring \<Rightarrow> store \<Rightarrow> guardView" where
  "view k s = (map_option it_gen (st_index s k), map_of (tombstones s) k, st_now s, tombstoneTTL s)"

text \<open>The key's generation is between the bounds, in a resident cell or in a tombstone that holds until \<open>T\<close>.\<close>

definition genIn :: "gostring \<Rightarrow> int \<Rightarrow> nat \<Rightarrow> nat \<Rightarrow> store \<Rightarrow> bool" where
  "genIn k T b u s \<longleftrightarrow> st_now s \<le> T \<and> T \<le> st_now s + tombstoneTTL s \<and> 0 < tombstoneTTL s \<and>
     (case st_index s k of Some it \<Rightarrow> b \<le> unat (it_gen it) \<and> unat (it_gen it) \<le> u
      | None \<Rightarrow> (case map_of (tombstones s) k of
            Some t \<Rightarrow> b \<le> unat (tb_gen t) \<and> unat (tb_gen t) \<le> u \<and> T \<le> tb_expireAt t
          | None \<Rightarrow> b = 0))"

lemma genIn_view: "view k s = view k t \<Longrightarrow> genIn k T b u s = genIn k T b u t"
  by (cases "st_index s k"; cases "st_index t k") (auto simp: genIn_def view_def)

lemma genIn_mono: "genIn k T b u s \<Longrightarrow> b' \<le> b \<Longrightarrow> u \<le> u' \<Longrightarrow> genIn k T b' u' s"
  by (auto simp: genIn_def split: option.splits)

lemma genIn_current:
  "genIn k T b u s \<Longrightarrow> b \<le> unat (fst (currentGenLocked k s)) \<and> unat (fst (currentGenLocked k s)) \<le> u"
  by (auto simp: genIn_def currentGenLocked_def tombstoneExpiredLocked_def split: option.splits)

lemma genIn_capture:
  assumes "0 < tombstoneTTL s" "st_now s \<le> T" "T \<le> st_now s + tombstoneTTL s"
    and "\<And>t. st_index s k = None \<Longrightarrow> map_of (tombstones s) k = Some t \<Longrightarrow> \<not> tombstoneExpiredLocked s t \<Longrightarrow> T \<le> tb_expireAt t"
  shows "genIn k T (unat (fst (CaptureGen k s))) (unat (fst (CaptureGen k s))) (snd (CaptureGen k s))"
  using assms by (auto simp: genIn_def CaptureGen_def currentGenLocked_def map_of_delete_key split: option.splits)

section \<open>Removal\<close>

lemma sweep_keeps_live:
  "map_of m k = Some t \<Longrightarrow> now \<le> tb_expireAt t \<Longrightarrow>
   map_of (filter (\<lambda>(k, t). \<not> (tb_expireAt t \<noteq> 0 \<and> now > tb_expireAt t)) m) k = Some t"
  by (induction m) (auto split: if_splits)

lemma bump_tombstone_self:
  assumes "0 < tombstoneTTL s"
  shows "map_of (tombstones (bumpGenTombstoneLocked k g s)) k = Some \<lparr>tb_gen = g + 1, tb_expireAt = st_now s + tombstoneTTL s\<rparr>"
proof -
  let ?t = "\<lparr>tb_gen = g + 1, tb_expireAt = st_now s + tombstoneTTL s\<rparr>"
  let ?m = "aput (tombstones s) k ?t"
  show ?thesis using sweep_tombstones [of "s\<lparr>tombstones := ?m\<rparr>"] assms sweep_keeps_live [of ?m k ?t "st_now s"]
    by (auto simp: bumpGenTombstoneLocked_def)
qed

lemma bump_tombstone_other:
  assumes "k' \<noteq> k" "map_of (tombstones s) k = Some t" "st_now s \<le> tb_expireAt t"
  shows "map_of (tombstones (bumpGenTombstoneLocked k' g s)) k = Some t"
proof -
  let ?m = "aput (tombstones s) k' \<lparr>tb_gen = g + 1, tb_expireAt = st_now s + tombstoneTTL s\<rparr>"
  show ?thesis using sweep_tombstones [of "s\<lparr>tombstones := ?m\<rparr>"] sweep_keeps_live [of ?m k t "st_now s"] assms
    by (auto simp: bumpGenTombstoneLocked_def)
qed

lemma genIn_removed_self:
  assumes "genIn k T b u s" "u + 1 < 2 ^ 64" "st_index s k = Some it"
    and "st_index t k = None" "tombstones t = tombstones (bumpGenTombstoneLocked k (it_gen it) s)"
    and "st_now t = st_now s" "tombstoneTTL t = tombstoneTTL s"
  shows "genIn k T (b + 1) (u + 1) t"
proof -
  have g: "b \<le> unat (it_gen it)" "unat (it_gen it) \<le> u" using assms(1,3) by (simp_all add: genIn_def)
  then have "unat (it_gen it + 1) = unat (it_gen it) + 1"
    using assms(2) by (subst unat_plus_simple [THEN iffD1]) (auto simp: word_le_nat_alt unat_word_ariths)
  then show ?thesis using assms g bump_tombstone_self [of s k "it_gen it"] by (simp add: genIn_def)
qed

lemma genIn_removed_other:
  assumes "genIn k T b u s" "k' \<noteq> k" "wf s"
    and "st_index t k = st_index s k" "tombstones t = tombstones (bumpGenTombstoneLocked k' g s)"
    and "st_now t = st_now s" "tombstoneTTL t = tombstoneTTL s"
  shows "genIn k T b u t"
proof (cases "st_index s k")
  case None
  show ?thesis
  proof (cases "map_of (tombstones s) k")
    case (Some tb)
    have "st_now s \<le> tb_expireAt tb" using assms(1) None Some by (simp add: genIn_def)
    from bump_tombstone_other [OF assms(2) Some this] show ?thesis using assms None Some by (simp add: genIn_def)
  next
    case n: None
    have "map_of (tombstones (bumpGenTombstoneLocked k' g s)) k = None"
      using bump_tombstone_keys(2) [of s k k'] n assms(2,3) by (simp add: wf_defs)
    then show ?thesis using assms None n by (simp add: genIn_def)
  qed
qed (use assms in \<open>simp add: genIn_def\<close>)

text \<open>Steps that only remove, and steps in general: the bounds hold, a removal raises the lower one.\<close>

definition guardEvict :: "gostring \<Rightarrow> int \<Rightarrow> store \<Rightarrow> store \<Rightarrow> bool" where
  "guardEvict k T s t \<longleftrightarrow> st_now t = st_now s \<and> (st_index s k = None \<longrightarrow> st_index t k = None) \<and>
     (\<forall>b u. genIn k T b u s \<longrightarrow>
       (if st_index s k \<noteq> None \<and> st_index t k = None then u + 1 < 2 ^ 64 \<longrightarrow> genIn k T (b + 1) (u + 1) t
        else genIn k T b u t))"

definition guardStep :: "gostring \<Rightarrow> int \<Rightarrow> store \<Rightarrow> store \<Rightarrow> bool" where
  "guardStep k T s t \<longleftrightarrow> st_now t = st_now s \<and> (\<forall>b u. genIn k T b u s \<longrightarrow> u + 1 < 2 ^ 64 \<longrightarrow>
     genIn k T b (u + 1) t \<and> (st_index s k \<noteq> None \<and> st_index t k = None \<longrightarrow> genIn k T (b + 1) (u + 1) t))"

lemma guardEvict_removed:
  assumes "wf s" "st_index s k' = Some it"
    and "st_index t = (st_index s)(k' := None)" "tombstones t = tombstones (bumpGenTombstoneLocked k' (it_gen it) s)"
    and "st_now t = st_now s" "tombstoneTTL t = tombstoneTTL s"
  shows "guardEvict k T s t"
proof (cases "k' = k")
  case True
  then show ?thesis unfolding guardEvict_def
    using genIn_removed_self [of k T _ _ s it t] assms by auto
next
  case False
  then show ?thesis unfolding guardEvict_def
    using genIn_removed_other [OF _ False assms(1), where t = t and g = "it_gen it"] assms by auto
qed

lemma view_now: "view k s = view k t \<Longrightarrow> st_now s = st_now t"
  by (simp add: view_def)

lemma view_resident: "view k s = view k t \<Longrightarrow> st_index s k = None \<longleftrightarrow> st_index t k = None"
  by (cases "st_index s k"; cases "st_index t k") (auto simp: view_def)

lemma guardEvict_view: "view k s = view k t \<Longrightarrow> guardEvict k T s t"
  using view_resident [of k s t] genIn_view [of k s t] view_now [of k s t] by (auto simp: guardEvict_def)

lemma guardEvict_trans: "guardEvict k T s t \<Longrightarrow> guardEvict k T t r \<Longrightarrow> guardEvict k T s r"
  unfolding guardEvict_def by (cases "st_index s k = None"; cases "st_index t k = None") fastforce+

lemma guardStep_evict: "guardEvict k T s t \<Longrightarrow> guardStep k T s t"
proof (unfold guardStep_def, intro conjI allI impI)
  assume "guardEvict k T s t"
  then show "st_now t = st_now s" by (simp add: guardEvict_def)
next
  fix b u :: nat
  assume e: "guardEvict k T s t" and g: "genIn k T b u s" "u + 1 < 2 ^ 64"
  have *: "genIn k T b (u + 1) t \<and> (st_index s k \<noteq> None \<and> st_index t k = None \<longrightarrow> genIn k T (b + 1) (u + 1) t)"
  proof (cases "st_index s k \<noteq> None \<and> st_index t k = None")
    case True
    then have "genIn k T (b + 1) (u + 1) t" using e g unfolding guardEvict_def by meson
    then show ?thesis using genIn_mono [of k T "b + 1" "u + 1" t b "u + 1"] by simp
  next
    case False
    then have "genIn k T b u t" using e g unfolding guardEvict_def by meson
    then show ?thesis using genIn_mono [of k T b u t b "u + 1"] False by auto
  qed
  then show "genIn k T b (u + 1) t" by simp
  show "genIn k T (b + 1) (u + 1) t" if "st_index s k \<noteq> None \<and> st_index t k = None" using * that by simp
qed

text \<open>A write is a step that keeps the bounds and the cell, followed by removals.\<close>

lemma guardStep_then_evict:
  assumes "\<And>b u. genIn k T b u s \<Longrightarrow> genIn k T b u p" "st_index s k \<noteq> None \<Longrightarrow> st_index p k \<noteq> None"
    and "st_now p = st_now s" "guardEvict k T p t"
  shows "guardStep k T s t"
proof -
  have "guardStep k T p t" by (rule guardStep_evict [OF assms(4)])
  then show ?thesis using assms(1,2) unfolding guardStep_def assms(3) [symmetric] by (metis assms(1,2))
qed

lemma guardStep_view_after: "guardStep k T s p \<Longrightarrow> view k p = view k t \<Longrightarrow> guardStep k T s t"
  using view_resident [of k p t] genIn_view [of k p t] view_now [of k p t] by (simp add: guardStep_def)

lemma guardStep_view_before: "view k s = view k p \<Longrightarrow> guardStep k T p t \<Longrightarrow> guardStep k T s t"
  using view_resident [of k s p] genIn_view [of k s p] view_now [of k s p] by (simp add: guardStep_def)

section \<open>The steps of the store\<close>

lemma guardEvict_evictLoop:
  assumes "wf s"
  shows "guardEvict k T s (evictLoop n s)"
  using assms
proof (induction n s rule: evictLoop_induct)
  case (stop n s)
  show ?case by (rule guardEvict_view) simp
next
  case (evict n s k' it t)
  have "guardEvict k T s (bump EvictLRUTotal (removeElementLocked k' it s))"
    by (rule guardEvict_removed [OF evict(1,3)]) (use wf_resident [OF evict(1,3)] in simp_all)
  then show ?case using evict(6) by (rule guardEvict_trans)
qed

lemma genIn_placed:
  assumes "genIn k T b u s" "key = k \<Longrightarrow> b \<le> unat gen \<and> unat gen \<le> u"
  shows "genIn k T b u (placeLocked key e0 bytes h gen fm (unmarkDeclinedExternalOnPut key e0 (s\<lparr>tombstones := AList.delete key (tombstones s)\<rparr>)))"
  using assms by (auto simp: genIn_def placeLocked_fields map_of_delete_key split: option.split)

lemma guardStep_putCoreLocked:
  assumes "wf s" "0 \<le> bytes" "gen = fst (currentGenLocked key s)"
  shows "guardStep k T s (putCoreLocked key e0 bytes h gen fm s)"
proof -
  let ?p = "placeLocked key e0 bytes h gen fm (unmarkDeclinedExternalOnPut key e0 (s\<lparr>tombstones := AList.delete key (tombstones s)\<rparr>))"
  have "guardEvict k T ?p (evictUntilUnderCapsLocked ?p)"
    unfolding evictUntilUnderCapsLocked_def by (rule guardEvict_evictLoop [OF placeLocked_wf [OF assms(1,2)]])
  moreover have "genIn k T b u s \<Longrightarrow> genIn k T b u ?p" for b u
    using genIn_current [of k T b u s] assms(3) by (intro genIn_placed) auto
  moreover have "st_index s k \<noteq> None \<Longrightarrow> st_index ?p k \<noteq> None" by (simp add: placeLocked_fields)
  ultimately have "guardStep k T s (evictUntilUnderCapsLocked ?p)" by (intro guardStep_then_evict [where p = ?p]) (simp_all add: placeLocked_fields)
  then show ?thesis by (simp add: putCoreLocked_def)
qed

lemma view_currentGenLocked:
  "view k (snd (currentGenLocked key s)) = view k s \<or> (key = k \<and> fst (currentGenLocked key s) = 0 \<and>
     (\<exists>t. st_index s k = None \<and> map_of (tombstones s) k = Some t \<and> tombstoneExpiredLocked s t))"
  by (auto simp: currentGenLocked_def view_def map_of_delete_key split: option.splits)

lemma view_frames [simp]:
  "view k (bump c s) = view k s" "view k (bumpIf b c s) = view k s" "view k (notify x s) = view k s"
  "view k (clearRefreshSuppression k' s) = view k s" "view k (stripDepEdges k' s) = view k s"
  "view k (releaseUnstoredLocked k' s) = view k s" "view k (refusePut k' s) = view k s"
  "view k (reassertOwnEdges ctx k' s) = view k s" "view k (remarkLayerConsumers ks s) = view k s"
  "view k (noteRemintLocked e s) = view k s" "view k (snd (inRemintWindowLocked it s)) = view k s"
  "view k (dropWidgetLocked k' s) = view k s" "view k (s\<lparr>raContentVersionSeq := v\<rparr>) = view k s"
  by (simp_all add: view_def)

lemma view_setEntryVersion [simp]: "view k (setEntryVersion key p v s) = view k s"
  by (auto simp: setEntryVersion_def view_def split: option.split)

lemma view_recordSources [simp]: "view k (foldl (recordSource w) s srcs) = view k s"
  by (induction srcs arbitrary: s) (simp_all add: recordSource_def view_def)

lemma view_raLayerCommitLocked [simp]: "view k (snd (raLayerCommitLocked ctx pk key sp e s)) = view k s"
  by (simp add: raLayerCommitLocked_def Let_def del: foldl.simps split: option.split list.split)

text \<open>The commits, one by one: the generation they store is the current one.\<close>

lemma wf_sound [simp]: "sound s \<Longrightarrow> wf s"
  by (simp add: sound_def)

lemma currentGenLocked_again:
  "fst (currentGenLocked key (snd (currentGenLocked key s))) = fst (currentGenLocked key s)"
  by (auto simp: currentGenLocked_def map_of_delete_key split: option.split)

lemma currentGenLocked_clear [simp]:
  "fst (currentGenLocked key (clearRefreshSuppression k s)) = fst (currentGenLocked key s)"
  by (auto simp: currentGenLocked_def tombstoneExpiredLocked_def split: option.split)

lemma genIn_lookup: "genIn k T b u s \<Longrightarrow> genIn k T b u (snd (currentGenLocked key s))"
proof -
  assume g: "genIn k T b u s"
  then have "\<not> (\<exists>t. st_index s k = None \<and> map_of (tombstones s) k = Some t \<and> tombstoneExpiredLocked s t)"
    by (auto simp: genIn_def tombstoneExpiredLocked_def)
  then have "view k (snd (currentGenLocked key s)) = view k s" using view_currentGenLocked [of k key s] by blast
  then show ?thesis using g genIn_view by metis
qed

lemma index_lookup [simp]: "st_index (snd (currentGenLocked key s)) = st_index s"
  by simp

lemma guardStep_lookup_before:
  assumes "guardStep k T (snd (currentGenLocked key s)) t"
  shows "guardStep k T s t"
  using assms genIn_lookup [of k T _ _ s key] unfolding guardStep_def by simp

lemma guardStep_storeUnderLock:
  assumes "sound s" "0 \<le> pr_bytes pr" "gen = fst (currentGenLocked key s)"
  shows "guardStep k T s (snd (storeUnderLock ctx pk key pr gen fm s))"
  by (rule guardStep_view_after [OF guardStep_putCoreLocked [OF wf_sound [OF assms(1)] assms(2,3)]])
    (simp add: storeUnderLock_def Let_def pair_fst_snd)

lemma guardStep_refuse: "view k s = view k t \<Longrightarrow> guardStep k T s t"
  by (rule guardStep_evict [OF guardEvict_view])

lemma guardStep_commitPlain:
  assumes "sound s" "0 \<le> pr_bytes pr"
  shows "guardStep k T s (commitPlain ctx pk key pr s)"
proof -
  let ?s = "snd (currentGenLocked key (clearRefreshSuppression key s))"
  have "fst (currentGenLocked key s) = fst (currentGenLocked key ?s)" by (simp add: currentGenLocked_again)
  then have "guardStep k T ?s (snd (storeUnderLock ctx pk key pr (fst (currentGenLocked key s)) False ?s))"
    using assms by (intro guardStep_storeUnderLock) simp_all
  then have "guardStep k T (clearRefreshSuppression key s)
      (snd (storeUnderLock ctx pk key pr (fst (currentGenLocked key s)) False ?s))" by (rule guardStep_lookup_before)
  then have "guardStep k T s (snd (storeUnderLock ctx pk key pr (fst (currentGenLocked key s)) False ?s))"
    by (rule guardStep_view_before [rotated]) simp
  then show ?thesis by (rule guardStep_view_after) (simp add: commitPlain_def Let_def pair_fst_snd)
qed

lemma guardStep_commitIfGen:
  assumes "sound s" "0 \<le> pr_bytes pr"
  shows "guardStep k T s (snd (commitIfGen ctx key pr g s))"
proof (cases "fst (currentGenLocked key s) = g")
  case False
  have "guardStep k T (snd (currentGenLocked key s)) (snd (commitIfGen ctx key pr g s))"
    by (rule guardStep_refuse) (use False in \<open>simp add: commitIfGen_def pair_fst_snd\<close>)
  then show ?thesis by (rule guardStep_lookup_before)
next
  case True
  let ?s = "clearRefreshSuppression key (snd (currentGenLocked key s))"
  have "g = fst (currentGenLocked key ?s)" using True by (simp add: currentGenLocked_again)
  then have "guardStep k T ?s (snd (storeUnderLock ctx True key pr g False ?s))"
    using assms by (intro guardStep_storeUnderLock) simp_all
  then have "guardStep k T (snd (currentGenLocked key s)) (snd (storeUnderLock ctx True key pr g False ?s))"
    by (rule guardStep_view_before [rotated]) simp
  then have "guardStep k T s (snd (storeUnderLock ctx True key pr g False ?s))" by (rule guardStep_lookup_before)
  then show ?thesis
    by (rule guardStep_view_after) (use True in \<open>simp add: commitIfGen_def Let_def pair_fst_snd\<close>)
qed

lemma guardStep_commitReplace:
  assumes "sound s" "0 \<le> pr_bytes pr"
  shows "guardStep k T s (snd (commitReplace ctx key pr g s))"
proof (cases "\<exists>it. st_index s key = Some it \<and> it_gen it = g")
  case False
  then show ?thesis by (intro guardStep_refuse) (auto simp: commitReplace_def split: option.split)
next
  case True
  then obtain it where it: "st_index s key = Some it" "it_gen it = g" by blast
  let ?s = "clearRefreshSuppression key s"
  have "g = fst (currentGenLocked key ?s)" using it by (simp add: currentGenLocked_def)
  then have "guardStep k T ?s (snd (storeUnderLock ctx True key pr g False ?s))"
    using assms by (intro guardStep_storeUnderLock) simp_all
  then have "guardStep k T s (snd (storeUnderLock ctx True key pr g False ?s))"
    by (rule guardStep_view_before [rotated]) simp
  then show ?thesis
    by (rule guardStep_view_after) (use it in \<open>simp add: commitReplace_def Let_def pair_fst_snd\<close>)
qed

lemma guardStep_commitRefresh:
  assumes "sound s" "0 \<le> pr_bytes pr"
  shows "guardStep k T s (snd (commitRefresh ctx key pr g s))"
proof (cases "\<exists>it. st_index s key = Some it \<and> it_gen it = g")
  case False
  then show ?thesis by (intro guardStep_refuse) (auto simp: commitRefresh_def split: option.split)
next
  case True
  then obtain it where it: "st_index s key = Some it" "it_gen it = g" by blast
  let ?r = "inRemintWindowLocked it s"
  let ?pr = "if fst ?r then pr\<lparr>pr_entry := (pr_entry pr)\<lparr>BornAt := st_now (snd ?r)\<rparr>\<rparr> else pr"
  let ?s = "clearRefreshSuppression key (snd ?r)"
  have "g = fst (currentGenLocked key ?s)" using it by (simp add: currentGenLocked_def)
  then have "guardStep k T ?s (putCoreLocked key (pr_entry ?pr) (pr_bytes ?pr) (pr_extrasHash ?pr) g (fst ?r) ?s)"
    using assms by (intro guardStep_putCoreLocked) simp_all
  then have "guardStep k T s (putCoreLocked key (pr_entry ?pr) (pr_bytes ?pr) (pr_extrasHash ?pr) g (fst ?r) ?s)"
    by (rule guardStep_view_before [rotated]) simp
  then show ?thesis
    by (rule guardStep_view_after) (use it in \<open>simp add: commitRefresh_def Let_def pair_fst_snd\<close>)
qed

text \<open>The other operations.\<close>

lemma guardStep_bump: "guardStep k T s t \<Longrightarrow> guardStep k T s (bump c t)"
  by (erule guardStep_view_after) simp

lemma guardStep_removeElement:
  assumes "sound s" "st_index s key = Some it" "view k s = view k r" "st_index r = st_index s" "wf r"
  shows "guardStep k T s (removeElementLocked key it r)"
proof -
  have "it_key it = key" using wf_resident [OF wf_sound [OF assms(1)] assms(2)] by simp
  then have "guardEvict k T r (removeElementLocked key it r)"
    using assms by (intro guardEvict_removed) simp_all
  then show ?thesis using guardStep_evict guardStep_view_before assms(3) by blast
qed

lemma guardStep_deleteForDep:
  assumes "sound s"
  shows "guardStep k T s (snd (deleteForDep key s))"
proof (cases "st_index s key")
  case None
  then show ?thesis by (intro guardStep_refuse) (simp add: deleteForDep_def)
next
  case (Some it)
  note r = wf_resident [OF wf_sound [OF assms] Some]
  show ?thesis
    by (rule guardStep_evict, rule guardEvict_removed [OF wf_sound [OF assms] Some])
      (use r in \<open>simp_all add: deleteForDep_fields [OF Some]\<close>)
qed

lemma guardStep_evictions:
  assumes "sound s"
  shows "guardStep k T s (snd (EvictUnrefreshable key e s))" "guardStep k T s (snd (EvictStaleDerived key e s))"
    "guardStep k T s (snd (reapOneMaxAgeSuppressed key s))" "guardStep k T s (snd (reapOneMaxAgeCold key s))"
proof -
  have rm: "guardStep k T s (bump c (removeElementLocked key it s))" "guardStep k T s (removeElementLocked key it s)"
    if "st_index s key = Some it" for c it
    using guardStep_removeElement [OF assms that, of k s T] assms by (simp_all add: guardStep_bump)
  have same: "guardStep k T s s" by (rule guardStep_refuse) simp
  show "guardStep k T s (snd (EvictUnrefreshable key e s))" "guardStep k T s (snd (EvictStaleDerived key e s))"
    "guardStep k T s (snd (reapOneMaxAgeSuppressed key s))" "guardStep k T s (snd (reapOneMaxAgeCold key s))"
    using rm same
    by (auto simp: EvictUnrefreshable_def EvictStaleDerived_def reapOneMaxAgeSuppressed_def reapOneMaxAgeCold_def
        split: option.split)
qed

lemma guardStep_getCore:
  assumes "sound s"
  shows "guardStep k T s (snd (getCore key touch s))"
proof (cases "st_index s key")
  case None
  then show ?thesis by (intro guardStep_refuse) (simp add: getCore_def)
next
  case (Some it)
  have rm: "guardStep k T s (bumpIf b c (bump c' (removeElementLocked key it r)))"
    if "view k s = view k r" "st_index r = st_index s" "sound r" for b c c' r
    by (rule guardStep_view_after [OF guardStep_removeElement [OF assms Some that(1,2) wf_sound [OF that(3)]]]) simp
  let ?h = "noteSeedOriginHitLocked (it\<lparr>it_lastRead := st_now s\<rparr>) (bump HitTotal (s\<lparr>st_order := key # remove1 key (st_order s)\<rparr>))"
  have touch: "guardStep k T s ((snd ?h)\<lparr>st_index := (st_index (snd ?h))(key \<mapsto> fst ?h)\<rparr>)"
    by (rule guardStep_refuse) (use Some in \<open>auto simp: view_def\<close>)
  have same: "guardStep k T s s" by (rule guardStep_refuse) simp
  show ?thesis
    using rm [of s] rm [of "bump EvictMaxAgeWarmCustomerTotal s"] rm [of "bump EvictMaxAgeWarmInternalTotal s"]
      rm [of "bumpIf (touch \<and> warmLocked s it) EvictTTLWarmCustomerTotal s"] touch same assms Some
    by (simp add: getCore_def Let_def pair_fst_snd)
qed

lemma guardStep_reads:
  assumes "sound s"
  shows "guardStep k T s (snd (Get key s))" "guardStep k T s (snd (GetNoTouch key s))"
proof -
  have "view k (snd (Get key s)) = view k (snd (getCore key True s))"
    by (cases "getCore key True s") (simp add: Get_def split: option.split)
  then show "guardStep k T s (snd (Get key s))"
    using guardStep_view_after [OF guardStep_getCore [OF assms]] by metis
  show "guardStep k T s (snd (GetNoTouch key s))" by (simp add: GetNoTouch_def guardStep_getCore [OF assms])
qed

lemma guardStep_reaccountEntry:
  assumes "sound s"
  shows "guardStep k T s (reaccountEntry key e s)"
proof (cases "\<exists>it. st_index s key = Some it \<and> en_id (it_entry it) = en_id e \<and> it_bytes it \<noteq> entryBytes s e")
  case False
  then have "reaccountEntry key e s = s" by (auto simp: reaccountEntry_def Let_def split: option.split)
  then show ?thesis by (simp add: guardStep_refuse)
next
  case True
  then obtain it where it: "st_index s key = Some it" "en_id (it_entry it) = en_id e" "it_bytes it \<noteq> entryBytes s e"
    by blast
  let ?t = "reaccounted key it (entryBytes s e) s"
  have "guardEvict k T ?t (evictUntilUnderCapsLocked ?t)"
    unfolding evictUntilUnderCapsLocked_def
    by (rule guardEvict_evictLoop [OF wf_reaccounted [OF wf_sound [OF assms] it(1) entryBytes_nonneg]])
  moreover have "view k s = view k ?t" using it(1) by (auto simp: reaccounted_def view_def)
  ultimately show ?thesis using it guardStep_evict guardStep_view_before
    by (auto simp: reaccountEntry_def Let_def reaccounted_def)
qed

section \<open>Runs of the store\<close>

text \<open>The tombstone window is set once, at startup.\<close>

fun keepsWindow :: "storeOp \<Rightarrow> bool" where
  "keepsWindow (SetTTL d) \<longleftrightarrow> False"
| "keepsWindow _ \<longleftrightarrow> True"

definition tick :: "storeOp \<Rightarrow> nat" where
  "tick a = (case a of Clock d \<Rightarrow> d | _ \<Rightarrow> 0)"

lemma guardStep_same: "guardStep k T s s"
  by (rule guardStep_refuse) simp

lemma guardStep_applyOp:
  assumes "sound s" "weighed a" "keepsWindow a" "tick a = 0"
  shows "guardStep k T s (applyOp a s)"
proof (cases a)
  case (Capture key)
  have "guardStep k T s (snd (currentGenLocked key s))"
    by (rule guardStep_lookup_before [OF guardStep_same])
  then show ?thesis using Capture by (simp add: CaptureGen_def)
next
  case (Decline key r p)
  then show ?thesis by (intro guardStep_refuse) (simp add: NoteRefreshDecline_def view_def)
next
  case (ForgetConsumer ra w)
  then show ?thesis by (intro guardStep_refuse) (simp add: ForgetRAFullListConsumer_def dropEdgeLocked_def view_def)
next
  case (ReleaseOp key)
  then show ?thesis by (intro guardStep_refuse) simp
next
  case (Clock d)
  then have "applyOp a s = s" using assms(4) by (simp add: tick_def)
  then show ?thesis by (simp add: guardStep_same)
qed (use assms in \<open>simp_all add: guardStep_commitPlain guardStep_commitIfGen guardStep_commitReplace
      guardStep_commitRefresh guardStep_reads guardStep_deleteForDep guardStep_evictions guardStep_reaccountEntry
      guardStep_refuse view_def\<close>)

lemma st_now_applyOp:
  assumes "sound s" "weighed a" "keepsWindow a"
  shows "st_now (applyOp a s) = st_now s + int (tick a)"
proof (cases "tick a = 0")
  case True
  then show ?thesis using guardStep_applyOp [OF assms True] by (simp add: guardStep_def)
next
  case False
  then obtain d where "a = Clock d" by (auto simp: tick_def split: storeOp.splits)
  then show ?thesis by (simp add: tick_def)
qed

lemma genIn_applyOp:
  assumes "sound s" "weighed a" "keepsWindow a" "genIn k T b u s" "st_now (applyOp a s) \<le> T" "u + 1 < 2 ^ 64"
  shows "genIn k T b (u + 1) (applyOp a s)"
    and "st_index s k \<noteq> None \<Longrightarrow> st_index (applyOp a s) k = None \<Longrightarrow> genIn k T (b + 1) (u + 1) (applyOp a s)"
proof -
  have "genIn k T b (u + 1) (applyOp a s) \<and>
    (st_index s k \<noteq> None \<and> st_index (applyOp a s) k = None \<longrightarrow> genIn k T (b + 1) (u + 1) (applyOp a s))"
  proof (cases "tick a = 0")
    case True
    then show ?thesis using guardStep_applyOp [OF assms(1-3) True] assms(4,6) unfolding guardStep_def by blast
  next
    case False
    then obtain d where a: "a = Clock d" by (auto simp: tick_def split: storeOp.splits)
    have "genIn k T b u (applyOp a s)" using assms(4,5) a by (auto simp: genIn_def split: option.splits)
    then show ?thesis using a by (auto intro: genIn_mono)
  qed
  then show "genIn k T b (u + 1) (applyOp a s)"
    and "st_index s k \<noteq> None \<Longrightarrow> st_index (applyOp a s) k = None \<Longrightarrow> genIn k T (b + 1) (u + 1) (applyOp a s)"
    by simp_all
qed

text \<open>The store keeps the contract, for every key and window.\<close>

interpretation store_guard: generation_guard applyOp sound "\<lambda>s. st_now s \<le> T" "Has k"
    "\<lambda>b u s. genIn k T b u s" "2 ^ 64" "\<lambda>a. weighed a \<and> keepsWindow a" for k T
proof
  show "sound s \<Longrightarrow> weighed a \<and> keepsWindow a \<Longrightarrow> sound (applyOp a s)" for s a
    by (simp add: sound_applyOp)
  show "sound s \<Longrightarrow> weighed a \<and> keepsWindow a \<Longrightarrow> st_now (applyOp a s) \<le> T \<Longrightarrow> st_now s \<le> T" for s a
    using st_now_applyOp [of s a] by simp
qed (use genIn_applyOp in \<open>simp_all add: Has_def\<close>)

lemma run_runOps: "store_guard.run ops s = runOps ops s"
  by (induction ops arbitrary: s) (simp_all add: runOps_def)

text \<open>Some operation of the run takes the key from resident to absent.\<close>

fun removedIn :: "gostring \<Rightarrow> storeOp list \<Rightarrow> store \<Rightarrow> bool" where
  "removedIn k [] s \<longleftrightarrow> False"
| "removedIn k (a # ops) s \<longleftrightarrow> Has k s \<and> \<not> Has k (applyOp a s) \<or> removedIn k ops (applyOp a s)"

lemma removes_removedIn: "store_guard.removes k ops s = removedIn k ops s"
  by (induction ops arbitrary: s) simp_all

text \<open>What a refused write does: nothing to the cells.\<close>

lemma refused_writes:
  assumes "fst (currentGenLocked key s) \<noteq> g"
  shows "\<not> fst (commitIfGen ctx key pr g s)" "st_index (snd (commitIfGen ctx key pr g s)) = st_index s"
    "\<not> fst (commitReplace ctx key pr g s)" "st_index (snd (commitReplace ctx key pr g s)) = st_index s"
    "\<not> fst (commitRefresh ctx key pr g s)" "st_index (snd (commitRefresh ctx key pr g s)) = st_index s"
  using assms by (auto simp: commitIfGen_def commitReplace_def commitRefresh_def pair_fst_snd currentGenLocked_def
      split: option.splits)

text \<open>C13: A write that captured its generation before the key was removed is refused by each of the three
  guarded writes and leaves every cell as it is, whatever other operations ran in between; provided the
  write lands within the tombstone window of the capture, the window is not changed meanwhile, a
  tombstone the capture read lasts until the write, and fewer than 2 to the 64 operations ran.\<close>

theorem stale_write_refused:
  assumes "sound s" "0 < tombstoneTTL s" "CaptureGen key s = (g, s')"
    and "list_all weighed ops" "list_all keepsWindow ops" "removedIn key ops s'"
    and "st_now (runOps ops s') \<le> st_now s + tombstoneTTL s"
    and "\<forall>t. map_of (tombstones s') key = Some t \<longrightarrow> st_now (runOps ops s') \<le> tb_expireAt t"
    and "unat g + length ops < 2 ^ 64"
  shows "let r = runOps ops s' in
    commitIfGen ctx key pr g r = (False, snd (commitIfGen ctx key pr g r)) \<and> st_index (snd (commitIfGen ctx key pr g r)) = st_index r \<and>
    commitReplace ctx key pr g r = (False, snd (commitReplace ctx key pr g r)) \<and> st_index (snd (commitReplace ctx key pr g r)) = st_index r \<and>
    commitRefresh ctx key pr g r = (False, snd (commitRefresh ctx key pr g r)) \<and> st_index (snd (commitRefresh ctx key pr g r)) = st_index r"
proof -
  let ?r = "runOps ops s'" and ?T = "st_now (runOps ops s')"
  have s': "s' = snd (currentGenLocked key s)" "g = fst (currentGenLocked key s)"
    using assms(3) by (simp_all add: CaptureGen_def)
  have v: "list_all (\<lambda>a. weighed a \<and> keepsWindow a) ops" using assms(4,5) by (simp add: list_all_iff)
  have so: "sound s'" using assms(1) by (simp add: s')
  have "?T \<le> ?T" by simp
  then have now: "st_now s' \<le> ?T" using store_guard.within_run [OF so v, of ?T] by (simp add: run_runOps)
  have "genIn key ?T (unat g) (unat g) s'"
    using assms(1,2,7,8) now
    by (auto simp: genIn_def s' currentGenLocked_def map_of_delete_key split: option.splits)
  from store_guard.run_raises [OF so this v] have "genIn key ?T (unat g + 1) (unat g + length ops) ?r"
    using assms(6,9) by (simp add: run_runOps removes_removedIn)
  from genIn_current [OF this] have "fst (currentGenLocked key ?r) \<noteq> g" by auto
  from refused_writes [OF this] show ?thesis by (simp add: Let_def prod_eq_iff)
qed

section \<open>Where the guard ends\<close>

lemma commitPlain_gen:
  assumes "sound s" "0 \<le> pr_bytes pr" "1 \<le> maxEntries s" "pr_bytes pr \<le> maxBytes s"
  shows "\<exists>it. st_index (commitPlain ctx pk key pr s) key = Some it \<and> it_gen it = fst (currentGenLocked key s) \<and>
      sameBody (it_entry it) (pr_entry pr)"
    and "settings (commitPlain ctx pk key pr s) = settings s"
proof -
  let ?s = "snd (currentGenLocked key (clearRefreshSuppression key s))"
  have so: "sound ?s" "1 \<le> maxEntries ?s" "pr_bytes pr \<le> maxBytes ?s" using assms by simp_all
  show "\<exists>it. st_index (commitPlain ctx pk key pr s) key = Some it \<and> it_gen it = fst (currentGenLocked key s) \<and>
      sameBody (it_entry it) (pr_entry pr)"
    using storeUnderLock_keeps [OF so(1) assms(2) so(2,3), where ctx = ctx and pk = pk and key = key and fm = False
        and gen = "fst (currentGenLocked key s)"]
    by (auto simp: commitPlain_def Let_def pair_fst_snd)
  have "settings (commitPlain ctx pk key pr s) = settings (snd (storeUnderLock ctx pk key pr (fst (currentGenLocked key s)) False ?s))"
    by (simp add: commitPlain_def Let_def pair_fst_snd settings_def)
  also have "\<dots> = settings s" using storeUnderLock_settings [OF so(1) assms(2)] by (simp add: settings_def)
  finally show "settings (commitPlain ctx pk key pr s) = settings s" .
qed

lemma commitIfGen_accepts:
  assumes "sound s" "0 \<le> pr_bytes pr" "1 \<le> maxEntries s" "pr_bytes pr \<le> maxBytes s"
    and "fst (currentGenLocked key s) = g"
  shows "fst (commitIfGen ctx key pr g s) \<and>
    (\<exists>it. st_index (snd (commitIfGen ctx key pr g s)) key = Some it \<and> sameBody (it_entry it) (pr_entry pr))"
proof -
  let ?s = "clearRefreshSuppression key (snd (currentGenLocked key s))"
  have so: "sound ?s" "1 \<le> maxEntries ?s" "pr_bytes pr \<le> maxBytes ?s" using assms by simp_all
  show ?thesis
    using storeUnderLock_keeps [OF so(1) assms(2) so(2,3), where ctx = ctx and pk = True and key = key and fm = False
        and gen = g] assms(5)
    by (auto simp: commitIfGen_def Let_def pair_fst_snd)
qed

lemma delete_leaves_tombstone:
  assumes "sound s" "st_index s key = Some it" "0 < tombstoneTTL s"
  defines "t \<equiv> snd (deleteForDep key s)"
  shows "st_index t key = None"
    and "map_of (tombstones t) key = Some \<lparr>tb_gen = it_gen it + 1, tb_expireAt = st_now s + tombstoneTTL s\<rparr>"
    and "st_now t = st_now s" "tombstoneTTL t = tombstoneTTL s" "maxEntries t = maxEntries s" "maxBytes t = maxBytes s"
    and "sound t"
proof -
  have "it_key it = key" using wf_resident [OF wf_sound [OF assms(1)] assms(2)] by simp
  note f = deleteForDep_fields [OF assms(2) this]
  show "st_index t key = None"
    and "map_of (tombstones t) key = Some \<lparr>tb_gen = it_gen it + 1, tb_expireAt = st_now s + tombstoneTTL s\<rparr>"
    and "st_now t = st_now s" "tombstoneTTL t = tombstoneTTL s" "maxEntries t = maxEntries s" "maxBytes t = maxBytes s"
    using bump_tombstone_self [OF assms(3)] by (simp_all add: t_def f)
  show "sound t" using sound_removed(2) [OF assms(1,2)] by (simp add: t_def)
qed

definition exWrite :: "nat \<Rightarrow> gostring \<Rightarrow> prepared" where
  "exWrite i body = preparePut backgroundCtx ''k'' (exEntry i body) exConfigured"

lemma exWrite_fields [simp]:
  "RawJSON (pr_entry (exWrite i body)) = body" "pr_bytes (exWrite i body) = int (length body)"
  by (simp_all add: exWrite_def exEntry_def preparePut_def putPreamble_def Let_def backgroundCtx_def
      DepGenStartSeqFromContext_def entryBytes_def)

text \<open>A cell is filled and deleted, and 299 seconds later a fill captures its generation.\<close>

definition exFill :: "storeOp list" where
  "exFill = [Commit backgroundCtx False ''k'' (exWrite 1 ''v1''), Delete ''k'', Clock (299 * 1000000000)]"

text \<open>Two seconds later another fill stores the key, and its object is deleted.\<close>

definition exRefill :: "storeOp list" where
  "exRefill = [Clock (2 * 1000000000), Commit backgroundCtx False ''k'' (exWrite 2 ''v2''), Delete ''k'']"

lemma fill_then_delete:
  fixes i :: nat
  assumes "sound s" "0 < tombstoneTTL s" "1 \<le> maxEntries s" "int (length body) \<le> maxBytes s"
    and "fst (currentGenLocked ''k'' s) = 0"
  defines "t \<equiv> runOps [Commit backgroundCtx False ''k'' (exWrite i body), Delete ''k''] s"
  shows "sound t \<and> st_index t ''k'' = None \<and>
    map_of (tombstones t) ''k'' = Some \<lparr>tb_gen = 1, tb_expireAt = st_now s + tombstoneTTL s\<rparr> \<and>
    st_now t = st_now s \<and> tombstoneTTL t = tombstoneTTL s \<and> maxEntries t = maxEntries s \<and> maxBytes t = maxBytes s"
proof -
  let ?c = "commitPlain backgroundCtx False ''k'' (exWrite i body) s"
  have b: "0 \<le> pr_bytes (exWrite i body)" "pr_bytes (exWrite i body) \<le> maxBytes s" using assms(4) by simp_all
  obtain it where it: "st_index ?c ''k'' = Some it" "it_gen it = 0"
    using commitPlain_gen(1) [OF assms(1) b(1) assms(3) b(2)] assms(5) by metis
  have st: "settings ?c = settings s" by (rule commitPlain_gen(2) [OF assms(1) b(1) assms(3) b(2)])
  have c: "sound ?c" "0 < tombstoneTTL ?c" using sound_commits(1) [OF assms(1) b(1)] st assms(2)
    by (simp_all add: settings_def)
  show ?thesis
    using delete_leaves_tombstone [OF c(1) it(1) c(2)] st it(2) by (simp add: t_def runOps_def settings_def)
qed

text \<open>C34: A generation number is used again once the tombstone that holds it has run out. A fill that
  captured a generation from a tombstone about to run out is accepted two seconds later, although the
  key was stored and deleted in between, and the cell is resident again with the body from before the
  deletion.\<close>

theorem generation_reuse_resurrects:
  "let c = CaptureGen ''k'' (runOps exFill exConfigured); r = runOps exRefill (snd c);
       w = commitIfGen backgroundCtx ''k'' (exWrite 3 ''v1'') (fst c) r
   in removedIn ''k'' exRefill (snd c) \<and> st_now r \<le> st_now (snd c) + tombstoneTTL (snd c) \<and>
      fst w \<and> (\<exists>it. st_index (snd w) ''k'' = Some it \<and> RawJSON (it_entry it) = ''v1'')"
proof -
  have ttl: "tombstoneTTL exConfigured = 300 * nanos" "st_now exConfigured = 5 * nanos" "tombstones exConfigured = []"
    by (simp_all add: exConfigured_def exBlank_def newResolvedCache_def defaultResolvedCacheTombstoneTTLSeconds_def)
  define a where "a = runOps [Commit backgroundCtx False ''k'' (exWrite 1 ''v1''), Delete ''k''] exConfigured"
  have a: "sound a" "st_index a ''k'' = None" "map_of (tombstones a) ''k'' = Some \<lparr>tb_gen = 1, tb_expireAt = 305 * nanos\<rparr>"
    "st_now a = 5 * nanos" "tombstoneTTL a = 300 * nanos" "maxEntries a = 2" "maxBytes a = 10"
    using fill_then_delete [OF exConfigured_sound, of "''v1''" 1]
    by (simp_all add: a_def ttl exConfigured_fields currentGenLocked_def nanos_def)
  define b where "b = runOps exFill exConfigured"
  have b': "b = a\<lparr>st_now := st_now a + 299 * nanos\<rparr>" by (simp add: b_def a_def exFill_def runOps_def nanos_def)
  have sb: "sound b" using sound_applyOp [OF a(1), of "Clock (299 * 1000000000)"] by (simp add: b' nanos_def)
  have cap: "CaptureGen ''k'' b = (1, b)"
    using a by (simp add: CaptureGen_def currentGenLocked_def tombstoneExpiredLocked_def b' nanos_def)
  define d where "d = applyOp (Clock (2 * 1000000000)) b"
  have sd: "sound d" unfolding d_def by (rule sound_applyOp [OF sb]) simp
  have d: "fst (currentGenLocked ''k'' d) = 0" "tombstoneTTL d = 300 * nanos" "maxEntries d = 2" "maxBytes d = 10"
    "st_now d = 306 * nanos"
    using a by (simp_all add: d_def b' currentGenLocked_def tombstoneExpiredLocked_def nanos_def)
  define r where "r = runOps exRefill b"
  have r': "r = runOps [Commit backgroundCtx False ''k'' (exWrite 2 ''v2''), Delete ''k''] d"
    by (simp add: r_def d_def exRefill_def runOps_def)
  have r: "sound r" "st_index r ''k'' = None" "map_of (tombstones r) ''k'' = Some \<lparr>tb_gen = 1, tb_expireAt = 606 * nanos\<rparr>"
    "st_now r = 306 * nanos" "maxEntries r = 2" "maxBytes r = 10"
    using fill_then_delete [OF sd, of "''v2''" 2] d by (simp_all add: r' nanos_def)
  have "fst (currentGenLocked ''k'' r) = 1" using r by (simp add: currentGenLocked_def tombstoneExpiredLocked_def nanos_def)
  then have w: "fst (commitIfGen backgroundCtx ''k'' (exWrite 3 ''v1'') 1 r) \<and>
      (\<exists>it. st_index (snd (commitIfGen backgroundCtx ''k'' (exWrite 3 ''v1'') 1 r)) ''k'' = Some it \<and> RawJSON (it_entry it) = ''v1'')"
    using commitIfGen_accepts [OF r(1), of "exWrite 3 ''v1''" "''k''" 1 backgroundCtx] r(5,6) by (auto simp: sameBody_def)
  have rem: "removedIn ''k'' exRefill b"
  proof -
    let ?c = "commitPlain backgroundCtx False ''k'' (exWrite 2 ''v2'') d"
    have "Has ''k'' ?c" using commitPlain_gen(1) [OF sd, of "exWrite 2 ''v2''" backgroundCtx False "''k''"] d by (auto simp: Has_def)
    moreover have "\<not> Has ''k'' (applyOp (Delete ''k'') ?c)" using r(2) by (simp add: r' runOps_def Has_def)
    ultimately show ?thesis by (simp add: exRefill_def d_def [symmetric, simplified] del: applyOp.simps) (simp add: d_def)
  qed
  have "st_now r \<le> st_now b + tombstoneTTL b" using r(4) a by (simp add: b' nanos_def)
  then show ?thesis using w rem by (simp add: Let_def b_def [symmetric] cap r_def [symmetric])
qed

text \<open>In the same process a capture right after the fill is protected from the deletion.\<close>

lemma stale_write_refused_witness:
  "let c = CaptureGen ''k'' (commitPlain backgroundCtx False ''k'' (exWrite 1 ''v1'') exConfigured);
       r = runOps [Delete ''k'', Clock 5] (snd c);
       w = commitIfGen backgroundCtx ''k'' (exWrite 3 ''v1'') (fst c) r
   in \<not> fst w \<and> st_index (snd w) = st_index r"
proof -
  let ?s = "commitPlain backgroundCtx False ''k'' (exWrite 1 ''v1'') exConfigured"
  have b: "0 \<le> pr_bytes (exWrite 1 ''v1'')" "1 \<le> maxEntries exConfigured" "pr_bytes (exWrite 1 ''v1'') \<le> maxBytes exConfigured"
    by (simp_all add: exConfigured_fields)
  have s: "sound ?s" by (rule sound_commits(1) [OF exConfigured_sound b(1)])
  have ttl: "tombstoneTTL exConfigured = 300 * nanos" "tombstones exConfigured = []"
    by (simp_all add: exConfigured_def exBlank_def newResolvedCache_def defaultResolvedCacheTombstoneTTLSeconds_def)
  have st: "tombstoneTTL ?s = 300 * nanos" using commitPlain_gen(2) [OF exConfigured_sound b] ttl by (simp add: settings_def)
  obtain it where it: "st_index ?s ''k'' = Some it" "it_gen it = 0"
    using commitPlain_gen(1) [OF exConfigured_sound b, of backgroundCtx False "''k''"] ttl
    by (auto simp: currentGenLocked_def exConfigured_fields)
  have c: "CaptureGen ''k'' ?s = (0, ?s)" using it by (simp add: CaptureGen_def currentGenLocked_def)
  have t: "map_of (tombstones ?s) ''k'' = None" using wf_sound [OF s] it(1) by (auto simp: wf_defs)
  have d: "st_now (snd (deleteForDep ''k'' ?s)) = st_now ?s" "st_index (snd (deleteForDep ''k'' ?s)) ''k'' = None"
    using delete_leaves_tombstone [OF s it(1)] st by (simp_all add: nanos_def)
  have "let r = runOps [Delete ''k'', Clock 5] ?s; w = commitIfGen backgroundCtx ''k'' (exWrite 3 ''v1'') 0 r
      in \<not> fst w \<and> st_index (snd w) = st_index r"
    using stale_write_refused [OF s _ c, of "[Delete ''k'', Clock 5]" backgroundCtx "exWrite 3 ''v1''"] st t d it(1)
    by (simp add: Let_def prod_eq_iff Has_def runOps_def nanos_def)
  then show ?thesis unfolding c Let_def fst_conv snd_conv .
qed

end
