(* ===== verification/ResolvedReaper.thy ===== *)
theory ResolvedReaper
  imports ResolvedSweep RBACMemo
begin

text \<open>
  The read-independent maintenance pass of the resolved-output cache (cache/resolved.go): the
  metadata-only projection of a cell, the batched walk over every resident cell, the decisions the
  pass takes per cell and what it then does to the store.

  The walk gives the store's mutex back between two batches, so each batch sees the store as it is at
  that moment: the walk takes one store per batch, \<open>view i\<close>. Go ranges over the index in any order: the
  snapshot of its keys is an argument. Wall-clock hold times, which only metrics read, are left out, and
  so is the switch that only test binaries can flip.
\<close>

section \<open>Metadata\<close>

record ResolvedEntryMeta =
  mt_CacheEntryClass :: gostring
  mt_KeyHash :: gostring
  mt_Path :: gostring
  mt_Group :: gostring
  mt_Version :: gostring
  mt_Resource :: gostring
  mt_Namespace :: gostring
  mt_Name :: gostring
  mt_Stage :: gostring
  mt_QueryHash :: gostring
  mt_AgeSeconds :: int
  mt_TTLRemainingSeconds :: int
  mt_LifetimeSeconds :: int
  mt_Pinned :: bool
  mt_LastReadSeconds :: int
  mt_SeededAtBoot :: bool
  mt_ItemsCount :: int
  mt_RawJSONBytes :: int
  mt_BindingUID :: gostring
  mt_SubjectBindingSet :: gostring
  mt_TTLOverrideSeconds :: int
  mt_Incremental :: bool
  mt_RBACSubGen :: "64 word"
  mt_PerPage :: int
  mt_Page :: int
  mt_ExtrasHash :: gostring
  mt_KeyedPage :: bool
  mt_KeyedExtras :: bool
  mt_BodySHA256 :: gostring

definition lifetimeSecondsOf :: "store \<Rightarrow> ResolvedEntry \<Rightarrow> int" where
  "lifetimeSecondsOf s e = (if BornAt e = 0 then 0 else seconds (timeSub (st_now s) (BornAt e)))"

definition lastReadSecondsOf :: "store \<Rightarrow> lruItem \<Rightarrow> int" where
  "lastReadSecondsOf s it = (if it_lastRead it = 0 then -1 else seconds (timeSub (st_now s) (it_lastRead it)))"

definition metaPathFromCoords :: "gostring \<Rightarrow> gostring \<Rightarrow> gostring \<Rightarrow> gostring \<Rightarrow> gostring \<Rightarrow> gostring" where
  "metaPathFromCoords gr version resource namespace name =
     (if gr = [] then ''/api/'' @ version else ''/apis/'' @ gr @ ''/'' @ version)
     @ (if namespace \<noteq> [] then ''/namespaces/'' @ namespace else [])
     @ ''/'' @ resource
     @ (if name \<noteq> [] then ''/'' @ name else [])"

definition ttlRemaining :: "store \<Rightarrow> ResolvedEntry \<Rightarrow> int" where
  "ttlRemaining s e =
     (let eff = effectiveTTLLocked s e in
      if eff > 0 then seconds (max 0 (eff - timeSub (st_now s) (CreatedAt e))) else 0)"

definition metaForItemLocked :: "store \<Rightarrow> lruItem \<Rightarrow> ResolvedEntryMeta" where
  "metaForItemLocked s it =
     (let e = it_entry it;
          meta = \<lparr>mt_CacheEntryClass = [], mt_KeyHash = it_key it, mt_Path = [], mt_Group = [], mt_Version = [],
            mt_Resource = [], mt_Namespace = [], mt_Name = [], mt_Stage = [], mt_QueryHash = [],
            mt_AgeSeconds = seconds (timeSub (st_now s) (CreatedAt e)),
            mt_TTLRemainingSeconds = ttlRemaining s e, mt_LifetimeSeconds = lifetimeSecondsOf s e,
            mt_Pinned = Pinned e, mt_LastReadSeconds = lastReadSecondsOf s it,
            mt_SeededAtBoot = SeededAtBoot e, mt_ItemsCount = itemCount s e, mt_RawJSONBytes = RawLen s e,
            mt_BindingUID = [], mt_SubjectBindingSet = [],
            mt_TTLOverrideSeconds = seconds (TTLOverride e), mt_Incremental = incremental s e,
            mt_RBACSubGen = 0, mt_PerPage = 0, mt_Page = 0, mt_ExtrasHash = it_extrasHash it,
            mt_KeyedPage = False, mt_KeyedExtras = False, mt_BodySHA256 = []\<rparr>
      in case Inputs e of None \<Rightarrow> meta
         | Some inp \<Rightarrow> meta\<lparr>mt_BindingUID := BindingUID inp, mt_SubjectBindingSet := SubjectBindingSet inp,
             mt_CacheEntryClass := CacheEntryClass inp, mt_Group := in_Group inp, mt_Version := in_Version inp,
             mt_Resource := in_Resource inp, mt_Namespace := in_Namespace inp, mt_Name := in_Name inp,
             mt_Stage := Stage inp,
             mt_QueryHash := (if in_Query inp \<noteq> [] then hexEncode (take 8 (sha256Sum (in_Query inp))) else []),
             mt_RBACSubGen := in_RBACSubGen inp, mt_PerPage := PerPage inp, mt_Page := in_Page inp,
             mt_KeyedPage := (in_Page inp > 0 \<or> PerPage inp > 0), mt_KeyedExtras := (in_Extras inp \<noteq> []),
             mt_Path := metaPathFromCoords (in_Group inp) (in_Version inp) (in_Resource inp) (in_Namespace inp)
               (in_Name inp)\<rparr>)"

text \<open>A visitor returns whether the walk goes on, and its own state.\<close>

fun visitUntil :: "('m \<Rightarrow> 'a \<Rightarrow> bool \<times> 'a) \<Rightarrow> 'm list \<Rightarrow> 'a \<Rightarrow> 'a" where
  "visitUntil fn [] a = a"
| "visitUntil fn (m # ms) a = (case fn m a of (True, a) \<Rightarrow> visitUntil fn ms a | (False, a) \<Rightarrow> a)"

definition residentItems :: "store \<Rightarrow> gostring list \<Rightarrow> lruItem list" where
  "residentItems s ks = List.map_filter (st_index s) ks"

definition RangeMetadata :: "(ResolvedEntryMeta \<Rightarrow> 'a \<Rightarrow> bool \<times> 'a) \<Rightarrow> store \<Rightarrow> 'a \<Rightarrow> 'a" where
  "RangeMetadata fn s a = visitUntil fn (map (metaForItemLocked s) (residentItems s (st_order s))) a"

text \<open>The sample ranges over the index too; \<open>keys\<close> is the order of that range.\<close>

definition RangeMetadataSample ::
  "int \<Rightarrow> gostring list \<Rightarrow> (ResolvedEntryMeta \<Rightarrow> 'a \<Rightarrow> bool \<times> 'a) \<Rightarrow> store \<Rightarrow> 'a \<Rightarrow> 'a" where
  "RangeMetadataSample n keys fn s a =
     (if n \<le> 0 then a
      else visitUntil fn (map (metaForItemLocked s) (take (nat n) (residentItems s keys))) a)"

definition MetadataForKey :: "gostring \<Rightarrow> store \<Rightarrow> ResolvedEntryMeta option" where
  "MetadataForKey key s =
     (if key = [] then None
      else case find (\<lambda>it. it_key it = key) (residentItems s (st_order s)) of None \<Rightarrow> None
      | Some it \<Rightarrow> Some ((metaForItemLocked s it)\<lparr>mt_BodySHA256 := sha256Hex (Raw s (it_entry it))\<rparr>))"

section \<open>The batched walk\<close>

definition projectBatch :: "store \<Rightarrow> gostring list \<Rightarrow> (ResolvedEntryMeta \<times> bool) list" where
  "projectBatch s chunk = map (\<lambda>it. (metaForItemLocked s it, warmLocked s it)) (residentItems s chunk)"

function batchedFrom ::
  "nat \<Rightarrow> nat \<Rightarrow> (nat \<Rightarrow> store) \<Rightarrow> gostring list
     \<Rightarrow> (nat \<Rightarrow> (ResolvedEntryMeta \<times> bool) list \<Rightarrow> 'a \<Rightarrow> bool \<times> 'a) \<Rightarrow> 'a \<Rightarrow> 'a" where
  "batchedFrom batch i view keys fn a =
     (if keys = [] \<or> batch = 0 then a
      else case fn i (projectBatch (view i) (take batch keys)) a of
          (True, a) \<Rightarrow> batchedFrom batch (Suc i) view (drop batch keys) fn a
        | (False, a) \<Rightarrow> a)"
  by pat_completeness auto
termination by (relation "measure (\<lambda>(batch, i, view, keys, fn, a). length keys)") auto

declare batchedFrom.simps [simp del]

definition rangeMetadataBatched ::
  "int \<Rightarrow> (nat \<Rightarrow> store) \<Rightarrow> gostring list
     \<Rightarrow> (nat \<Rightarrow> (ResolvedEntryMeta \<times> bool) list \<Rightarrow> 'a \<Rightarrow> bool \<times> 'a) \<Rightarrow> 'a \<Rightarrow> 'a" where
  "rangeMetadataBatched batch view keys fn a =
     (if batch \<le> 0 then a else batchedFrom (nat batch) 0 view keys fn a)"

definition RangeMetadataBatched ::
  "int \<Rightarrow> (nat \<Rightarrow> store) \<Rightarrow> gostring list \<Rightarrow> (ResolvedEntryMeta list \<Rightarrow> 'a \<Rightarrow> bool \<times> 'a) \<Rightarrow> 'a \<Rightarrow> 'a" where
  "RangeMetadataBatched batch view keys fn a =
     rangeMetadataBatched batch view keys (\<lambda>_ ms a. fn (map fst ms) a) a"

section \<open>The decisions\<close>

definition reapMaxAgeBatch :: int where "reapMaxAgeBatch = 512"

definition RefreshSuppressedReason :: "gostring \<Rightarrow> store \<Rightarrow> gostring option" where
  "RefreshSuppressedReason key s = refreshSuppressed s key"

definition b3ClassIndex :: "gostring \<Rightarrow> nat option" where
  "b3ClassIndex c = (if c = ''restactions'' then Some 0 else if c = ''widgets'' then Some 1
     else if c = CacheEntryClassRAFullList then Some 2 else None)"

definition b3Classes :: nat where "b3Classes = 3"

definition deadlineJitterSeconds :: "gostring \<Rightarrow> int \<Rightarrow> int" where
  "deadlineJitterSeconds keyHash leadSec =
     (let spread = leadSec div 2 in
      if spread \<le> 1 then 0
      else uint (fnv1a fnvOffset (stringBytes keyHash) mod word_of_int spread))"

record reapWalk =
  wk_suppressedResident :: "64 word"
  wk_warmPastMaxAge :: "64 word"
  wk_warmSeeded :: "64 word"
  wk_warmLastRead :: "64 word"
  wk_oldestWarm :: int
  wk_warmInLead :: "64 word"
  wk_deadlineOnly :: "64 word"
  wk_warmKeyedPage :: "nat \<Rightarrow> 64 word"
  wk_warmKeyedExtras :: "nat \<Rightarrow> 64 word"
  wk_suppressedCandidates :: "gostring list"
  wk_coldCandidates :: "gostring list"
  wk_refreshCandidates :: "gostring list"

definition emptyWalk :: reapWalk where
  "emptyWalk = \<lparr>wk_suppressedResident = 0, wk_warmPastMaxAge = 0, wk_warmSeeded = 0, wk_warmLastRead = 0,
     wk_oldestWarm = 0, wk_warmInLead = 0, wk_deadlineOnly = 0, wk_warmKeyedPage = (\<lambda>_. 0),
     wk_warmKeyedExtras = (\<lambda>_. 0), wk_suppressedCandidates = [], wk_coldCandidates = [], wk_refreshCandidates = []\<rparr>"

text \<open>The bounds in whole seconds: the age cap, the lifetime, the lead of the re-mint window.\<close>

record reapBounds =
  rb_maxAgeSec :: int
  rb_ttlSec :: int
  rb_leadSec :: int

definition boundsOf :: "store \<Rightarrow> reapBounds" where
  "boundsOf s = \<lparr>rb_maxAgeSec = seconds (maxEntryAge s), rb_ttlSec = seconds (st_ttl s),
     rb_leadSec = seconds (remintLead s)\<rparr>"

definition ttlApproaching :: "reapBounds \<Rightarrow> ResolvedEntryMeta \<Rightarrow> bool" where
  "ttlApproaching b m \<longleftrightarrow> rb_ttlSec b > 0 \<and> mt_TTLRemainingSeconds m < rb_ttlSec b div 4"

definition inLead :: "reapBounds \<Rightarrow> int \<Rightarrow> ResolvedEntryMeta \<Rightarrow> bool" where
  "inLead b offset m \<longleftrightarrow> rb_maxAgeSec b > 0 \<and> rb_leadSec b > 0 \<and>
     mt_LifetimeSeconds m \<ge> rb_maxAgeSec b - rb_leadSec b + offset"

definition deadlineApproaching :: "reapBounds \<Rightarrow> ResolvedEntryMeta \<Rightarrow> bool" where
  "deadlineApproaching b m \<longleftrightarrow> inLead b (deadlineJitterSeconds (mt_KeyHash m) (rb_leadSec b)) m"

text \<open>What the walk counts of every cell, before the incremental ones are skipped.\<close>

definition countWarm :: "ResolvedEntryMeta \<Rightarrow> bool \<Rightarrow> reapWalk \<Rightarrow> reapWalk" where
  "countWarm m warm w =
     (let w = (if warm \<and> \<not> mt_Incremental m \<and> mt_LifetimeSeconds m > wk_oldestWarm w
               then w\<lparr>wk_oldestWarm := mt_LifetimeSeconds m\<rparr> else w);
          w = (if mt_SeededAtBoot m then w\<lparr>wk_warmSeeded := wk_warmSeeded w + 1\<rparr>
               else if warm then w\<lparr>wk_warmLastRead := wk_warmLastRead w + 1\<rparr> else w)
      in case b3ClassIndex (mt_CacheEntryClass m) of None \<Rightarrow> w
         | Some b \<Rightarrow> if \<not> warm then w else
             (let w = (if mt_KeyedPage m
                       then w\<lparr>wk_warmKeyedPage := (wk_warmKeyedPage w)(b := wk_warmKeyedPage w b + 1)\<rparr> else w)
              in if mt_KeyedExtras m
                 then w\<lparr>wk_warmKeyedExtras := (wk_warmKeyedExtras w)(b := wk_warmKeyedExtras w b + 1)\<rparr> else w))"

definition chooseReap :: "reapBounds \<Rightarrow> ResolvedEntryMeta \<Rightarrow> bool \<Rightarrow> bool \<Rightarrow> reapWalk \<Rightarrow> reapWalk" where
  "chooseReap b m warm suppressed w =
     (let pastMaxAge = (rb_maxAgeSec b > 0 \<and> mt_LifetimeSeconds m > rb_maxAgeSec b) in
      if suppressed then
        (let w = w\<lparr>wk_suppressedResident := wk_suppressedResident w + 1\<rparr>
         in if pastMaxAge then w\<lparr>wk_suppressedCandidates := wk_suppressedCandidates w @ [mt_KeyHash m]\<rparr> else w)
      else if pastMaxAge \<and> \<not> warm then w\<lparr>wk_coldCandidates := wk_coldCandidates w @ [mt_KeyHash m]\<rparr>
      else if pastMaxAge \<and> warm then w\<lparr>wk_warmPastMaxAge := wk_warmPastMaxAge w + 1\<rparr>
      else w)"

definition chooseRefresh :: "reapBounds \<Rightarrow> ResolvedEntryMeta \<Rightarrow> bool \<Rightarrow> bool \<Rightarrow> reapWalk \<Rightarrow> reapWalk" where
  "chooseRefresh b m warm suppressed w =
     (let w = (if warm \<and> inLead b 0 m then w\<lparr>wk_warmInLead := wk_warmInLead w + 1\<rparr> else w)
      in if warm \<and> \<not> suppressed \<and> mt_TTLOverrideSeconds m = 0 \<and> (ttlApproaching b m \<or> deadlineApproaching b m) then
           (let w = w\<lparr>wk_refreshCandidates := wk_refreshCandidates w @ [mt_KeyHash m]\<rparr>
            in if deadlineApproaching b m \<and> \<not> ttlApproaching b m
               then w\<lparr>wk_deadlineOnly := wk_deadlineOnly w + 1\<rparr> else w)
         else w)"

definition visitMeta :: "reapBounds \<Rightarrow> store \<Rightarrow> reapWalk \<Rightarrow> ResolvedEntryMeta \<times> bool \<Rightarrow> reapWalk" where
  "visitMeta b s w mw = (case mw of (m, warm) \<Rightarrow>
     (let w = countWarm m warm w in
      if mt_Incremental m then w
      else (let suppressed = (RefreshSuppressedReason (mt_KeyHash m) s \<noteq> None)
            in chooseRefresh b m warm suppressed (chooseReap b m warm suppressed w))))"

definition reapWalkOf :: "(nat \<Rightarrow> store) \<Rightarrow> gostring list \<Rightarrow> store \<Rightarrow> reapWalk" where
  "reapWalkOf view keys s = rangeMetadataBatched reapMaxAgeBatch view keys
     (\<lambda>i ms w. (True, foldl (visitMeta (boundsOf s) (view i)) w ms)) emptyWalk"

section \<open>The pass\<close>

definition setCount :: "counter \<Rightarrow> 64 word \<Rightarrow> store \<Rightarrow> store" where
  "setCount c v s = s\<lparr>st_count := (st_count s)(c := v)\<rparr>"

definition publishWalk :: "reapWalk \<Rightarrow> store \<Rightarrow> store" where
  "publishWalk w s =
     (let s = setCount SuppressedResidentGauge (wk_suppressedResident w) s;
          s = setCount WarmPastMaxAgeGauge (wk_warmPastMaxAge w) s;
          s = setCount WarmSeededGauge (wk_warmSeeded w) s;
          s = setCount WarmLastReadGauge (wk_warmLastRead w) s;
          s = setCount OldestWarmBornAgeGauge (word_of_int (wk_oldestWarm w)) s;
          s = setCount WarmInLeadWindowGauge (wk_warmInLead w) s;
          s = setCount RemintDeadlineEnqueuedTotal (st_count s RemintDeadlineEnqueuedTotal + wk_deadlineOnly w) s
      in foldl (\<lambda>s i. setCount (WarmKeyedExtrasGauge i) (wk_warmKeyedExtras w i)
                 (setCount (WarmKeyedPageGauge i) (wk_warmKeyedPage w i) s)) s [0..<b3Classes])"

fun reapEach :: "(gostring \<Rightarrow> store \<Rightarrow> bool \<times> store) \<Rightarrow> gostring list \<Rightarrow> nat \<times> store \<Rightarrow> nat \<times> store" where
  "reapEach f [] (n, s) = (n, s)"
| "reapEach f (k # ks) (n, s) = (case f k s of (b, s) \<Rightarrow> reapEach f ks (if b then Suc n else n, s))"

definition enqueueRefreshes :: "gostring list \<Rightarrow> store \<Rightarrow> store" where
  "enqueueRefreshes ks s = foldl (\<lambda>s k. bump ProactiveRefreshTotal (notify (EnqueueRefresh k) s)) s ks"

text \<open>What the pass does with what its walk found.\<close>

definition actOn :: "reapWalk \<Rightarrow> store \<Rightarrow> nat \<times> store" where
  "actOn w s =
     (case reapEach reapOneMaxAgeCold (wk_coldCandidates w)
         (reapEach reapOneMaxAgeSuppressed (wk_suppressedCandidates w) (0, publishWalk w s)) of
        (n, s) \<Rightarrow> (n, enqueueRefreshes (wk_refreshCandidates w) s))"

definition reapPastMaxEntryAge :: "(nat \<Rightarrow> store) \<Rightarrow> gostring list \<Rightarrow> store \<Rightarrow> nat \<times> store" where
  "reapPastMaxEntryAge view keys s = actOn (reapWalkOf view keys s) s"

section \<open>The walk, quietly\<close>

lemma residentItems_append: "residentItems s (ks @ ls) = residentItems s ks @ residentItems s ls"
  by (simp add: residentItems_def map_filter_def)

lemma projectBatch_append: "projectBatch s (ks @ ls) = projectBatch s ks @ projectBatch s ls"
  by (simp add: projectBatch_def residentItems_append)

text \<open>When nothing moves between the batches, the batches add up to one pass over the keys.\<close>

lemma batchedFrom_quiet:
  assumes "0 < batch"
  shows "batchedFrom batch i (\<lambda>_. s) keys (\<lambda>_ ms w. (True, foldl g w ms)) a = foldl g a (projectBatch s keys)"
  using assms
proof (induction keys arbitrary: i a rule: length_induct)
  case (1 keys)
  show ?case
  proof (cases "keys = []")
    case True
    then show ?thesis by (simp add: batchedFrom.simps [of batch i] projectBatch_def residentItems_def map_filter_def)
  next
    case False
    then have "length (drop batch keys) < length keys" using 1(2) by simp
    then have "batchedFrom batch (Suc i) (\<lambda>_. s) (drop batch keys) (\<lambda>_ ms w. (True, foldl g w ms))
        (foldl g a (projectBatch s (take batch keys)))
      = foldl g (foldl g a (projectBatch s (take batch keys))) (projectBatch s (drop batch keys))"
      using 1 by blast
    also have "\<dots> = foldl g a (projectBatch s keys)"
      using projectBatch_append [of s "take batch keys" "drop batch keys"] by simp
    finally show ?thesis using False 1(2) by (simp add: batchedFrom.simps [of batch i])
  qed
qed

lemma reapWalkOf_quiet:
  "reapWalkOf (\<lambda>_. s) keys s = foldl (visitMeta (boundsOf s) s) emptyWalk (projectBatch s keys)"
  by (simp add: reapWalkOf_def rangeMetadataBatched_def reapMaxAgeBatch_def batchedFrom_quiet)

definition pastCapMeta :: "reapBounds \<Rightarrow> ResolvedEntryMeta \<Rightarrow> bool" where
  "pastCapMeta b m \<longleftrightarrow> rb_maxAgeSec b > 0 \<and> mt_LifetimeSeconds m > rb_maxAgeSec b"

definition dueMeta :: "reapBounds \<Rightarrow> store \<Rightarrow> ResolvedEntryMeta \<times> bool \<Rightarrow> bool" where
  "dueMeta b s mw \<longleftrightarrow> snd mw \<and> \<not> mt_Incremental (fst mw) \<and> refreshSuppressed s (mt_KeyHash (fst mw)) = None \<and>
     mt_TTLOverrideSeconds (fst mw) = 0 \<and> (ttlApproaching b (fst mw) \<or> deadlineApproaching b (fst mw))"

lemma countWarm_candidates [simp]:
  "wk_suppressedCandidates (countWarm m warm w) = wk_suppressedCandidates w"
  "wk_coldCandidates (countWarm m warm w) = wk_coldCandidates w"
  "wk_refreshCandidates (countWarm m warm w) = wk_refreshCandidates w"
  by (simp_all add: countWarm_def Let_def split: option.split)

lemma visitMeta_candidates:
  "wk_suppressedCandidates (visitMeta b s w (m, warm)) = wk_suppressedCandidates w @
     (if \<not> mt_Incremental m \<and> pastCapMeta b m \<and> refreshSuppressed s (mt_KeyHash m) \<noteq> None then [mt_KeyHash m] else [])"
  "wk_coldCandidates (visitMeta b s w (m, warm)) = wk_coldCandidates w @
     (if \<not> mt_Incremental m \<and> pastCapMeta b m \<and> refreshSuppressed s (mt_KeyHash m) = None \<and> \<not> warm
      then [mt_KeyHash m] else [])"
  "wk_refreshCandidates (visitMeta b s w (m, warm)) = wk_refreshCandidates w @
     (if dueMeta b s (m, warm) then [mt_KeyHash m] else [])"
  by (simp_all add: visitMeta_def Let_def chooseReap_def chooseRefresh_def pastCapMeta_def dueMeta_def
      RefreshSuppressedReason_def)

lemma walk_candidates:
  "wk_suppressedCandidates (foldl (visitMeta b s) w ms) = wk_suppressedCandidates w @
     map (mt_KeyHash \<circ> fst) (filter (\<lambda>(m, warm). \<not> mt_Incremental m \<and> pastCapMeta b m \<and>
       refreshSuppressed s (mt_KeyHash m) \<noteq> None) ms)"
  "wk_coldCandidates (foldl (visitMeta b s) w ms) = wk_coldCandidates w @
     map (mt_KeyHash \<circ> fst) (filter (\<lambda>(m, warm). \<not> mt_Incremental m \<and> pastCapMeta b m \<and>
       refreshSuppressed s (mt_KeyHash m) = None \<and> \<not> warm) ms)"
  "wk_refreshCandidates (foldl (visitMeta b s) w ms) = wk_refreshCandidates w @
     map (mt_KeyHash \<circ> fst) (filter (dueMeta b s) ms)"
proof (induction ms arbitrary: w)
  case (Cons mw ms)
  { case 1 show ?case using Cons(1) by (cases mw) (simp add: visitMeta_candidates) }
  { case 2 show ?case using Cons(2) by (cases mw) (simp add: visitMeta_candidates) }
  { case 3 show ?case using Cons(3) by (cases mw) (simp add: visitMeta_candidates) }
qed simp_all

text \<open>The fields of a projection the decisions read.\<close>

lemma meta_fields [simp]:
  "mt_KeyHash (metaForItemLocked s it) = it_key it"
  "mt_LifetimeSeconds (metaForItemLocked s it) = lifetimeSecondsOf s (it_entry it)"
  "mt_Incremental (metaForItemLocked s it) = incremental s (it_entry it)"
  "mt_SeededAtBoot (metaForItemLocked s it) = SeededAtBoot (it_entry it)"
  "mt_TTLRemainingSeconds (metaForItemLocked s it) = ttlRemaining s (it_entry it)"
  "mt_TTLOverrideSeconds (metaForItemLocked s it) = seconds (TTLOverride (it_entry it))"
  by (simp_all add: metaForItemLocked_def Let_def split: option.split)

section \<open>One reap\<close>

definition reapClock :: "store \<Rightarrow> int \<times> int \<times> int \<times> (nat \<Rightarrow> listCellState)" where
  "reapClock s = (st_now s, maxEntryAge s, st_ttl s, listCells s)"

definition enqueued :: "store \<Rightarrow> gostring list" where
  "enqueued s = List.map_filter (\<lambda>c. case c of EnqueueRefresh k \<Rightarrow> Some k | _ \<Rightarrow> None) (st_calls s)"

definition judged :: "store \<Rightarrow> gostring \<Rightarrow> lruItem option \<times> gostring option" where
  "judged s k = (st_index s k, refreshSuppressed s k)"

definition agedOut :: "store \<Rightarrow> lruItem \<Rightarrow> bool" where
  "agedOut s it \<longleftrightarrow> 0 < maxEntryAge s \<and> BornAt (it_entry it) \<noteq> 0 \<and>
     maxEntryAge s < timeSub (st_now s) (BornAt (it_entry it)) \<and> \<not> incremental s (it_entry it)"

definition suppressedPastCap :: "store \<Rightarrow> gostring \<Rightarrow> bool" where
  "suppressedPastCap s k = (case st_index s k of None \<Rightarrow> False
     | Some it \<Rightarrow> refreshSuppressed s k \<noteq> None \<and> agedOut s it)"

definition coldPastCap :: "store \<Rightarrow> gostring \<Rightarrow> bool" where
  "coldPastCap s k = (case st_index s k of None \<Rightarrow> False
     | Some it \<Rightarrow> refreshSuppressed s k = None \<and> agedOut s it \<and> \<not> warmLocked s it)"

lemma reapClock_cong:
  assumes "reapClock s = reapClock t"
  shows "incremental s e = incremental t e" "warmLocked s it = warmLocked t it" "agedOut s it = agedOut t it"
  using assms by (auto simp: reapClock_def incremental_def warmLocked_def agedOut_def split: option.splits)

lemma pastCap_cong:
  assumes "reapClock s = reapClock t" "judged s k = judged t k"
  shows "coldPastCap s k = coldPastCap t k" "suppressedPastCap s k = suppressedPastCap t k"
  using assms(2) reapClock_cong [OF assms(1)]
  by (auto simp: judged_def coldPastCap_def suppressedPastCap_def split: option.splits)

text \<open>The contract the two reaps share: what they decide, and that they touch the cell they remove only.\<close>

locale reap_one =
  fixes reap :: "gostring \<Rightarrow> store \<Rightarrow> bool \<times> store" and cond :: "store \<Rightarrow> gostring \<Rightarrow> bool"
  assumes decides: "wf s \<Longrightarrow> fst (reap k s) = cond s k"
    and keeps: "wf s \<Longrightarrow> \<not> cond s k \<Longrightarrow> snd (reap k s) = s"
    and sane: "wf s \<Longrightarrow> wf (snd (reap k s))"
    and clock: "wf s \<Longrightarrow> reapClock (snd (reap k s)) = reapClock s"
    and others: "wf s \<Longrightarrow> k' \<noteq> k \<Longrightarrow> judged (snd (reap k s)) k' = judged s k'"
    and gone: "wf s \<Longrightarrow> cond s k \<Longrightarrow> judged (snd (reap k s)) k = (None, None)"
    and silent: "wf s \<Longrightarrow> enqueued (snd (reap k s)) = enqueued s"
    and absent: "judged s k = (None, None) \<Longrightarrow> \<not> cond s k"
    and cong: "reapClock s = reapClock t \<Longrightarrow> judged s k = judged t k \<Longrightarrow> cond s k = cond t k"
begin

lemma judged_reap:
  assumes "wf s"
  shows "judged (snd (reap k s)) k' = (if k' = k \<and> cond s k then (None, None) else judged s k')"
  using gone [OF assms, of k] others [OF assms, of k' k] keeps [OF assms, of k] by auto

lemma cond_reap:
  assumes "wf s"
  shows "cond (snd (reap k s)) k' \<longleftrightarrow> cond s k' \<and> k' \<noteq> k"
proof (cases "k' = k")
  case True
  then show ?thesis
    using absent [of "snd (reap k s)" k] gone [OF assms, of k] keeps [OF assms, of k] by metis
next
  case False
  then show ?thesis using cong [OF clock [OF assms] others [OF assms]] by simp
qed


definition reaped :: "gostring list \<Rightarrow> store \<Rightarrow> gostring set" where
  "reaped ks s = {k \<in> set ks. cond s k}"

lemma reaped_step:
  assumes "wf s"
  shows "reaped (k # ks) s = reaped ks (snd (reap k s)) \<union> (if cond s k then {k} else {})"
    "k \<notin> reaped ks (snd (reap k s)) \<or> \<not> cond s k"
  using cond_reap [OF assms, of k] keeps [OF assms, of k] by (auto simp: reaped_def)

lemma reapEach_removes:
  assumes "wf s" "reapEach reap ks (n, s) = (m, t)"
  shows "wf t \<and> reapClock t = reapClock s \<and> enqueued t = enqueued s \<and> m = n + card (reaped ks s) \<and>
    (\<forall>k. judged t k = (if k \<in> reaped ks s then (None, None) else judged s k))"
  using assms
proof (induction ks arbitrary: n s)
  case Nil
  then show ?case by (auto simp: reaped_def)
next
  case (Cons a ks)
  let ?s = "snd (reap a s)"
  have w: "wf ?s" by (rule sane [OF Cons(2)])
  have "reapEach reap ks (if cond s a then Suc n else n, ?s) = (m, t)"
    using Cons(3) decides [OF Cons(2), of a] by (simp add: split_beta)
  note IH = Cons(1) [OF w this] and step = reaped_step [OF Cons(2), of a ks]
  have fin: "finite (reaped ks ?s)" by (simp add: reaped_def)
  have "m = n + card (reaped (a # ks) s)"
  proof (cases "cond s a")
    case True
    then show ?thesis using IH step fin by simp
  next
    case False
    then show ?thesis using IH step by simp
  qed
  moreover have "judged t k = (if k \<in> reaped (a # ks) s then (None, None) else judged s k)" for k
    using IH step judged_reap [OF Cons(2), of a k] by (cases "k \<in> reaped ks ?s") auto
  ultimately show ?case using IH clock [OF Cons(2)] silent [OF Cons(2)] by simp
qed

end

lemma closeListCellOf_quiet: "\<not> incremental s e \<Longrightarrow> closeListCellOf e r s = s"
  by (auto simp: closeListCellOf_def incremental_def split: option.split)

lemma removeElementLocked_clock:
  assumes "\<not> incremental s (it_entry it)"
  shows "reapClock (removeElementLocked k it s) = reapClock s"
proof -
  have "closeListCellOf (it_entry it) r t = t" if "listCells t = listCells s" for r t
    using assms that by (intro closeListCellOf_quiet) (cases "listCell (it_entry it)"; simp add: incremental_def)
  then show ?thesis by (simp add: reapClock_def removeElementLocked_def Let_def raLayerForgetLocked_def)
qed

lemma reapClock_bump [simp]: "reapClock (bump c s) = reapClock s"
  by (simp add: reapClock_def)

lemma st_calls_frames [simp]:
  "st_calls (bump c s) = st_calls s" "st_calls (bumpIf b c s) = st_calls s"
  "st_calls (countClassEvict e s) = st_calls s" "st_calls (debit it s) = st_calls s"
  "st_calls (detach k it s) = st_calls s" "st_calls (dropWidgetLocked k s) = st_calls s"
  "st_calls (clearRefreshSuppression k s) = st_calls s" "st_calls (stripDepEdges k s) = st_calls s"
  "st_calls (bumpGenTombstoneLocked k g s) = st_calls s"
  by (simp_all add: bump_def bumpIf_def countClassEvict_def debit_def detach_def dropWidgetLocked_def
      clearRefreshSuppression_def stripDepEdges_def bumpGenTombstoneLocked_def maybeSweepTombstonesLocked_def)

lemma enqueued_frames [simp]:
  "enqueued (bump c s) = enqueued s" "enqueued (countClassEvict e s) = enqueued s"
  "enqueued (debit it s) = enqueued s" "enqueued (detach k it s) = enqueued s"
  "enqueued (dropWidgetLocked k s) = enqueued s" "enqueued (clearRefreshSuppression k s) = enqueued s"
  "enqueued (stripDepEdges k s) = enqueued s" "enqueued (bumpGenTombstoneLocked k g s) = enqueued s"
  by (simp_all add: enqueued_def)

lemma enqueued_notify [simp]:
  "enqueued (notify c s) = enqueued s @ (case c of EnqueueRefresh k \<Rightarrow> [k] | _ \<Rightarrow> [])"
  by (cases c) (simp_all add: enqueued_def notify_def map_filter_def)

lemma enqueued_closeListCellOf [simp]: "enqueued (closeListCellOf e r s) = enqueued s"
  by (auto simp: closeListCellOf_def enqueued_def notify_def map_filter_def split: option.split)

lemma enqueued_removed [simp]: "enqueued (removeElementLocked k it s) = enqueued s"
  by (simp add: removeElementLocked_def Let_def raLayerForgetLocked_def)

lemma judged_removed:
  assumes "wf s" "st_index s k = Some it"
  shows "judged (bump c (removeElementLocked k it s)) k' = (if k' = k then (None, None) else judged s k')"
  using wf_resident [OF assms] by (simp add: judged_def)

lemma wf_reaped: "wf s \<Longrightarrow> st_index s k = Some it \<Longrightarrow> wf (bump c (removeElementLocked k it s))"
  using wf_removeElementLocked by simp

interpretation suppressed_reap: reap_one reapOneMaxAgeSuppressed suppressedPastCap
proof
  fix s :: store and k k' :: gostring
  assume w: "wf s"
  note defs = reapOneMaxAgeSuppressed_def suppressedPastCap_def agedOut_def
  show "fst (reapOneMaxAgeSuppressed k s) = suppressedPastCap s k"
    "\<not> suppressedPastCap s k \<Longrightarrow> snd (reapOneMaxAgeSuppressed k s) = s"
    by (auto simp: defs split: option.split)
  show "wf (snd (reapOneMaxAgeSuppressed k s))" "reapClock (snd (reapOneMaxAgeSuppressed k s)) = reapClock s"
    "enqueued (snd (reapOneMaxAgeSuppressed k s)) = enqueued s"
    using w wf_reaped [OF w] by (auto simp: defs removeElementLocked_clock split: option.split)
  show "k' \<noteq> k \<Longrightarrow> judged (snd (reapOneMaxAgeSuppressed k s)) k' = judged s k'"
    "suppressedPastCap s k \<Longrightarrow> judged (snd (reapOneMaxAgeSuppressed k s)) k = (None, None)"
    using judged_removed [OF w] by (auto simp: defs split: option.splits)
next
  show "judged s k = (None, None) \<Longrightarrow> \<not> suppressedPastCap s k" for s k
    by (simp add: suppressedPastCap_def judged_def)
  show "reapClock s = reapClock t \<Longrightarrow> judged s k = judged t k \<Longrightarrow> suppressedPastCap s k = suppressedPastCap t k" for s t k
    by (rule pastCap_cong(2))
qed

interpretation cold_reap: reap_one reapOneMaxAgeCold coldPastCap
proof
  fix s :: store and k k' :: gostring
  assume w: "wf s"
  note defs = reapOneMaxAgeCold_def coldPastCap_def agedOut_def
  show "fst (reapOneMaxAgeCold k s) = coldPastCap s k"
    "\<not> coldPastCap s k \<Longrightarrow> snd (reapOneMaxAgeCold k s) = s"
    by (auto simp: defs split: option.split)
  show "wf (snd (reapOneMaxAgeCold k s))" "reapClock (snd (reapOneMaxAgeCold k s)) = reapClock s"
    "enqueued (snd (reapOneMaxAgeCold k s)) = enqueued s"
    using w wf_reaped [OF w] by (auto simp: defs removeElementLocked_clock split: option.split)
  show "k' \<noteq> k \<Longrightarrow> judged (snd (reapOneMaxAgeCold k s)) k' = judged s k'"
    "coldPastCap s k \<Longrightarrow> judged (snd (reapOneMaxAgeCold k s)) k = (None, None)"
    using judged_removed [OF w] by (auto simp: defs split: option.splits)
next
  show "judged s k = (None, None) \<Longrightarrow> \<not> coldPastCap s k" for s k
    by (simp add: coldPastCap_def judged_def)
  show "reapClock s = reapClock t \<Longrightarrow> judged s k = judged t k \<Longrightarrow> coldPastCap s k = coldPastCap t k" for s t k
    by (rule pastCap_cong(1))
qed

section \<open>The whole pass\<close>

lemma setCount_frame:
  "reapClock (setCount c v s) = reapClock s" "judged (setCount c v s) k = judged s k" "wf (setCount c v s) = wf s"
  "enqueued (setCount c v s) = enqueued s"
  by (simp_all add: setCount_def reapClock_def judged_def wf_defs enqueued_def)

lemma publishWalk_frame:
  "reapClock (publishWalk w s) = reapClock s" "judged (publishWalk w s) k = judged s k"
  "wf (publishWalk w s) = wf s" "enqueued (publishWalk w s) = enqueued s"
  by (simp_all add: publishWalk_def Let_def b3Classes_def setCount_frame upt_rec)

lemma enqueueRefreshes_frame:
  "reapClock (enqueueRefreshes ks s) = reapClock s" "judged (enqueueRefreshes ks s) k = judged s k"
  "wf (enqueueRefreshes ks s) = wf s" "enqueued (enqueueRefreshes ks s) = enqueued s @ ks"
  by (induction ks arbitrary: s)
    (simp_all add: enqueueRefreshes_def notify_def bump_def reapClock_def judged_def wf_defs enqueued_def map_filter_def)

lemma actOn_effect:
  assumes "wf s" "actOn w s = (n, t)"
  shows "wf t" "reapClock t = reapClock s" "enqueued t = enqueued s @ wk_refreshCandidates w"
    "judged t k = (if k \<in> set (wk_suppressedCandidates w) \<and> suppressedPastCap s k
        \<or> k \<in> set (wk_coldCandidates w) \<and> coldPastCap s k then (None, None) else judged s k)"
    "n = card {k \<in> set (wk_suppressedCandidates w). suppressedPastCap s k}
       + card {k \<in> set (wk_coldCandidates w). coldPastCap s k}"
proof -
  let ?p = "publishWalk w s"
  obtain m u where u: "reapEach reapOneMaxAgeSuppressed (wk_suppressedCandidates w) (0, ?p) = (m, u)" by fastforce
  obtain n' v where v: "reapEach reapOneMaxAgeCold (wk_coldCandidates w) (m, u) = (n', v)" by fastforce
  have t: "n = n'" "t = enqueueRefreshes (wk_refreshCandidates w) v" using assms(2) u v by (simp_all add: actOn_def)
  have pw: "wf ?p" using assms(1) by (simp add: publishWalk_frame)
  note A = suppressed_reap.reapEach_removes [OF pw u]
  note B = cold_reap.reapEach_removes [OF conjunct1 [OF A] v]
  have p: "suppressedPastCap ?p k = suppressedPastCap s k" "coldPastCap ?p k = coldPastCap s k" for k
    by (rule pastCap_cong; simp add: publishWalk_frame)+
  have uk: "judged u k = (if k \<in> set (wk_suppressedCandidates w) \<and> suppressedPastCap s k then (None, None) else judged s k)" for k
    using A p by (simp add: suppressed_reap.reaped_def publishWalk_frame)
  have cold: "coldPastCap u k = coldPastCap s k" for k
  proof (cases "k \<in> set (wk_suppressedCandidates w) \<and> suppressedPastCap s k")
    case True
    then have "judged u k = (None, None)" using uk by simp
    then have "\<not> coldPastCap u k" by (rule cold_reap.absent)
    moreover have "\<not> coldPastCap s k" using True by (auto simp: coldPastCap_def suppressedPastCap_def split: option.splits)
    ultimately show ?thesis by simp
  next
    case False
    then have "judged u k = judged s k" unfolding uk by (rule if_not_P)
    then show ?thesis using A by (intro pastCap_cong) (simp_all add: publishWalk_frame)
  qed
  show "wf t" "reapClock t = reapClock s" "enqueued t = enqueued s @ wk_refreshCandidates w"
    using A B by (simp_all add: t enqueueRefreshes_frame publishWalk_frame)
  show "judged t k = (if k \<in> set (wk_suppressedCandidates w) \<and> suppressedPastCap s k
        \<or> k \<in> set (wk_coldCandidates w) \<and> coldPastCap s k then (None, None) else judged s k)"
    using B uk [of k] by (simp add: t enqueueRefreshes_frame cold_reap.reaped_def cold)
  show "n = card {k \<in> set (wk_suppressedCandidates w). suppressedPastCap s k}
       + card {k \<in> set (wk_coldCandidates w). coldPastCap s k}"
    using A B p cold by (simp add: t suppressed_reap.reaped_def cold_reap.reaped_def)
qed

section \<open>Seconds\<close>

lemma seconds_gtD: "seconds b < seconds a \<Longrightarrow> b < a"
proof (rule ccontr)
  assume lt: "seconds b < seconds a" and "\<not> b < a"
  then have "a \<le> b" by simp
  then have "seconds a \<le> seconds b"
    using zdiv_mono1 [of a b 1000000000] zdiv_mono1 [of "- b" "- a" 1000000000]
      pos_imp_zdiv_nonneg_iff [of 1000000000 "- a"] pos_imp_zdiv_nonneg_iff [of 1000000000 b]
    by (auto simp: seconds_def)
  with lt show False by simp
qed

lemma seconds_nonneg: "0 \<le> seconds d \<longleftrightarrow> -1000000000 < d"
  by (auto simp: seconds_def)

lemma seconds_nanos [simp]: "seconds (n * nanos) = n" "seconds nanos = 1" "seconds 0 = 0" "0 < nanos" "nanos \<noteq> 0"
  by (simp_all add: seconds_def nanos_def zdiv_zminus1_eq_if)

lemma jitter_bounds: "0 \<le> deadlineJitterSeconds key lead \<and>
   (1 < lead div 2 \<longrightarrow> lead < 2 ^ 63 \<longrightarrow> deadlineJitterSeconds key lead < lead div 2)"
proof (cases "lead div 2 \<le> 1")
  case False
  let ?m = "word_of_int (lead div 2) :: 64 word" and ?h = "fnv1a fnvOffset (stringBytes key)"
  have j: "deadlineJitterSeconds key lead = uint (?h mod ?m)"
    using False unfolding deadlineJitterSeconds_def Let_def by (simp only: if_False)
  have "uint (?h mod ?m) < lead div 2" if "lead < 2 ^ 63"
  proof -
    have u: "uint ?m = lead div 2" using False that by (simp add: uint_word_of_int_eq take_bit_int_eq_self)
    have "uint (?h mod ?m) = uint ?h mod (lead div 2)" unfolding uint_mod u ..
    then show ?thesis using False by (simp add: pos_mod_bound)
  qed
  then show ?thesis unfolding j by (auto simp: uint_ge_0)
qed (simp add: deadlineJitterSeconds_def Let_def)

definition pastCap :: "store \<Rightarrow> lruItem \<Rightarrow> bool" where
  "pastCap s it \<longleftrightarrow> 0 < seconds (maxEntryAge s) \<and> seconds (maxEntryAge s) < lifetimeSecondsOf s (it_entry it)"

lemma pastCap_aged: "pastCap s it \<Longrightarrow> \<not> incremental s (it_entry it) \<Longrightarrow> agedOut s it"
  using seconds_gtD [of 0 "maxEntryAge s"] seconds_gtD [of "maxEntryAge s" "timeSub (st_now s) (BornAt (it_entry it))"]
  by (auto simp: pastCap_def agedOut_def lifetimeSecondsOf_def seconds_def split: if_splits)

section \<open>What the walk finds\<close>

definition reapable :: "store \<Rightarrow> gostring \<Rightarrow> bool" where
  "reapable s k = (case st_index s k of None \<Rightarrow> False
     | Some it \<Rightarrow> pastCap s it \<and> \<not> incremental s (it_entry it) \<and>
         (refreshSuppressed s k \<noteq> None \<or> \<not> warmLocked s it))"

definition refreshDue :: "store \<Rightarrow> gostring \<Rightarrow> bool" where
  "refreshDue s k = (case st_index s k of None \<Rightarrow> False
     | Some it \<Rightarrow> dueMeta (boundsOf s) s (metaForItemLocked s it, warmLocked s it))"

lemma residentItems_keys:
  assumes "wf s"
  shows "map it_key (filter P (residentItems s ks)) =
    filter (\<lambda>k. case st_index s k of None \<Rightarrow> False | Some it \<Rightarrow> P it) ks"
proof (induction ks)
  case (Cons k ks)
  then show ?case using wf_resident [OF assms, of k]
    by (cases "st_index s k") (simp_all add: residentItems_def map_filter_def)
qed (simp add: residentItems_def map_filter_def)

lemma projectBatch_keys:
  assumes "wf s"
  shows "map (mt_KeyHash \<circ> fst) (filter Q (projectBatch s ks)) =
    filter (\<lambda>k. case st_index s k of None \<Rightarrow> False | Some it \<Rightarrow> Q (metaForItemLocked s it, warmLocked s it)) ks"
  using residentItems_keys [OF assms, of "\<lambda>it. Q (metaForItemLocked s it, warmLocked s it)" ks]
  by (simp add: projectBatch_def filter_map comp_def)

lemma pastCapMeta_iff [simp]: "pastCapMeta (boundsOf s) (metaForItemLocked s it) = pastCap s it"
  by (simp add: pastCapMeta_def boundsOf_def pastCap_def)

lemma quiet_candidates:
  assumes "wf s"
  shows "wk_suppressedCandidates (reapWalkOf (\<lambda>_. s) keys s) = filter (\<lambda>k. reapable s k \<and> refreshSuppressed s k \<noteq> None) keys"
    "wk_coldCandidates (reapWalkOf (\<lambda>_. s) keys s) = filter (\<lambda>k. reapable s k \<and> refreshSuppressed s k = None) keys"
    "wk_refreshCandidates (reapWalkOf (\<lambda>_. s) keys s) = filter (refreshDue s) keys"
proof -
  note c = walk_candidates [of "boundsOf s" s emptyWalk "projectBatch s keys"]
    and key = wf_resident(1) [OF assms]
  show "wk_suppressedCandidates (reapWalkOf (\<lambda>_. s) keys s) = filter (\<lambda>k. reapable s k \<and> refreshSuppressed s k \<noteq> None) keys"
    using key unfolding reapWalkOf_quiet c(1) projectBatch_keys [OF assms]
    by (auto simp: emptyWalk_def reapable_def intro!: filter_cong split: option.split)
  show "wk_coldCandidates (reapWalkOf (\<lambda>_. s) keys s) = filter (\<lambda>k. reapable s k \<and> refreshSuppressed s k = None) keys"
    using key unfolding reapWalkOf_quiet c(2) projectBatch_keys [OF assms]
    by (auto simp: emptyWalk_def reapable_def intro!: filter_cong split: option.split)
  show "wk_refreshCandidates (reapWalkOf (\<lambda>_. s) keys s) = filter (refreshDue s) keys"
    unfolding reapWalkOf_quiet c(3) projectBatch_keys [OF assms]
    by (simp add: emptyWalk_def refreshDue_def [abs_def])
qed

lemma reapable_reaped:
  "reapable s k \<Longrightarrow> refreshSuppressed s k \<noteq> None \<Longrightarrow> suppressedPastCap s k"
  "reapable s k \<Longrightarrow> refreshSuppressed s k = None \<Longrightarrow> coldPastCap s k"
  by (auto simp: reapable_def suppressedPastCap_def coldPastCap_def pastCap_aged split: option.splits)

section \<open>Example\<close>

text \<open>A day and an hour after the start: a seeded cell and an unread cell as old as the process, and a fresh one.\<close>

definition exAgedEntry :: "bool \<Rightarrow> int \<Rightarrow> ResolvedEntry" where
  "exAgedEntry seeded born = (exEntry 1 ''x'')\<lparr>SeededAtBoot := seeded, BornAt := born * nanos, CreatedAt := born * nanos\<rparr>"

definition exAgedItem :: "gostring \<Rightarrow> bool \<Rightarrow> int \<Rightarrow> lruItem" where
  "exAgedItem k seeded born = freshItem k (exAgedEntry seeded born) 2 [] 0 1"

definition exAged :: store where
  "exAged = exConfigured\<lparr>st_now := 90000 * nanos, st_order := [''fresh'', ''cold'', ''seeded''],
     st_index := [''fresh'' \<mapsto> exAgedItem ''fresh'' False 89999, ''cold'' \<mapsto> exAgedItem ''cold'' False 1,
       ''seeded'' \<mapsto> exAgedItem ''seeded'' True 1], curBytes := 6\<rparr>"

lemma exAged_fields [simp]:
  "st_now exAged = 90000 * nanos" "maxEntryAge exAged = 86400 * nanos" "st_ttl exAged = 3600 * nanos"
  "refreshSuppressed exAged = (\<lambda>_. None)" "enqueued exAged = []"
  "st_index exAged = [''fresh'' \<mapsto> exAgedItem ''fresh'' False 89999, ''cold'' \<mapsto> exAgedItem ''cold'' False 1,
     ''seeded'' \<mapsto> exAgedItem ''seeded'' True 1]"
  by (simp_all add: exAged_def exConfigured_def newResolvedCache_def exBlank_def enqueued_def map_filter_def
      defaultResolvedCacheMaxEntryAgeSeconds_def defaultResolvedCacheTTLSeconds_def)

lemma exAged_wf: "wf exAged"
  by (auto simp: wf_defs exAged_def exConfigured_def exBlank_def newResolvedCache_def exAgedItem_def freshItem_def
      exAgedEntry_def exEntry_def total_def weight_def transientBytes_def residentBytes_def residentCount_def)

lemma exAgedItem_fields [simp]:
  "it_entry (exAgedItem k b n) = exAgedEntry b n" "BornAt (exAgedEntry b n) = n * nanos"
  "CreatedAt (exAgedEntry b n) = n * nanos" "SeededAtBoot (exAgedEntry b n) = b" "listCell (exAgedEntry b n) = None"
  "TTLOverride (exAgedEntry b n) = 0" "it_lastRead (exAgedItem k b n) = (if b then 0 else n * nanos)" "it_key (exAgedItem k b n) = k"
  by (simp_all add: exAgedItem_def freshItem_def exAgedEntry_def exEntry_def)

lemma exAged_ages: "n \<in> {1, 89999} \<Longrightarrow> timeSub (90000 * nanos) (n * nanos) = (90000 - n) * nanos"
  by (auto simp: timeSub_def minDuration_def maxDuration_def nanos_def)

lemma exAged_lead: "remintLead exAged = 3600 * nanos"
  by (simp add: remintLead_def Let_def nanos_def)

lemma exAged_reapable: "reapable exAged k \<longleftrightarrow> k = ''cold''"
  using exAged_ages [of 1] exAged_ages [of 89999]
  by (simp add: reapable_def pastCap_def lifetimeSecondsOf_def warmLocked_def incremental_def)

section \<open>Properties of the pass\<close>

text \<open>C18: When nothing else runs meanwhile, the pass removes exactly the cells whose key is
  older than the age cap in whole seconds and that nobody reads or nobody can refresh, counts them, and
  leaves every other cell as it was; a cell of an anchored list never goes.\<close>

theorem reap_pass_exact:
  assumes "wf s" "set keys = dom (st_index s)" "reapPastMaxEntryAge (\<lambda>_. s) keys s = (n, t)"
  shows "n = card {k. reapable s k} \<and> (\<forall>k. st_index t k = (if reapable s k then None else st_index s k))"
proof -
  note a = assms(3) [unfolded reapPastMaxEntryAge_def]
  note e = actOn_effect [OF assms(1) a, unfolded quiet_candidates [OF assms(1)]]
  have dom: "k \<in> set keys" if "reapable s k" for k
    using that assms(2) by (auto simp: reapable_def split: option.splits)
  have S: "{k \<in> set (filter (\<lambda>k. reapable s k \<and> refreshSuppressed s k \<noteq> None) keys). suppressedPastCap s k}
      = {k. reapable s k \<and> refreshSuppressed s k \<noteq> None}" (is "?S = ?S'")
    using dom reapable_reaped(1) by auto
  have C: "{k \<in> set (filter (\<lambda>k. reapable s k \<and> refreshSuppressed s k = None) keys). coldPastCap s k}
      = {k. reapable s k \<and> refreshSuppressed s k = None}" (is "?C = ?C'")
    using dom reapable_reaped(2) by auto
  have fin: "finite ?S'" "finite ?C'" using dom by (auto intro: finite_subset [of _ "set keys"])
  have part: "{k. reapable s k} = ?S' \<union> ?C'" by auto
  have "card (?S' \<union> ?C') = card ?S' + card ?C'" by (rule card_Un_disjoint [OF fin]) auto
  then have "n = card {k. reapable s k}" using e(5) unfolding S C part by (simp only:)
  moreover have "st_index t k = (if reapable s k then None else st_index s k)" for k
    using e(4) [of k] dom [of k] reapable_reaped [of s k] by (auto simp: judged_def split: if_splits)
  ultimately show ?thesis by blast
qed

lemma reap_pass_exact_witness:
  "case reapPastMaxEntryAge (\<lambda>_. exAged) [''cold'', ''fresh'', ''seeded''] exAged of (n, t) \<Rightarrow>
     n = 1 \<and> \<not> Has ''cold'' t \<and> Has ''fresh'' t \<and> Has ''seeded'' t"
proof -
  have keys: "set [''cold'', ''fresh'', ''seeded''] = dom (st_index exAged)" by auto
  obtain n t where t: "reapPastMaxEntryAge (\<lambda>_. exAged) [''cold'', ''fresh'', ''seeded''] exAged = (n, t)" by fastforce
  show ?thesis using reap_pass_exact [OF exAged_wf keys t] by (simp add: t exAged_reapable Has_def)
qed

text \<open>C19: However stale what the walk saw is, the pass removes no cell that is now within the
  age cap or of an anchored list, and no cell still refreshable that is read or seeded.\<close>

theorem stale_walk_reaps_safely:
  assumes "wf s" "st_index s k = Some it"
    and "timeSub (st_now s) (BornAt (it_entry it)) \<le> maxEntryAge s \<or> BornAt (it_entry it) = 0 \<or>
      incremental s (it_entry it) \<or> refreshSuppressed s k = None \<and> warmLocked s it"
  shows "st_index (snd (reapPastMaxEntryAge view keys s)) k = Some it"
proof -
  obtain n t where t: "actOn (reapWalkOf view keys s) s = (n, t)" by fastforce
  have "\<not> suppressedPastCap s k" "\<not> coldPastCap s k"
    using assms(2,3) by (auto simp: suppressedPastCap_def coldPastCap_def agedOut_def)
  then show ?thesis
    using actOn_effect(4) [OF assms(1) t, of k] assms(2) t by (simp add: reapPastMaxEntryAge_def judged_def)
qed

lemma stale_walk_reaps_safely_witness:
  "st_index (snd (reapPastMaxEntryAge (\<lambda>_. exBlank) [''seeded''] exAged)) ''seeded'' = Some (exAgedItem ''seeded'' True 1)"
  by (rule stale_walk_reaps_safely [OF exAged_wf]) (simp_all add: warmLocked_def)

text \<open>When nothing else runs meanwhile, the pass enqueues a refresh for exactly the warm
  cells whose body or whose key comes to its end and that a refresh may replace, in the order of the
  walk.\<close>

theorem pass_refreshes_due_cells:
  assumes "wf s"
  shows "enqueued (snd (reapPastMaxEntryAge (\<lambda>_. s) keys s)) = enqueued s @ filter (refreshDue s) keys"
proof -
  obtain n t where t: "actOn (reapWalkOf (\<lambda>_. s) keys s) s = (n, t)" by fastforce
  show ?thesis
    using actOn_effect(3) [OF assms t] t quiet_candidates(3) [OF assms] by (simp add: reapPastMaxEntryAge_def)
qed

lemma pass_refreshes_due_cells_witness:
  "enqueued (snd (reapPastMaxEntryAge (\<lambda>_. exAged) [''cold'', ''fresh'', ''seeded''] exAged)) = [''seeded'']"
proof -
  note defs = refreshDue_def dueMeta_def warmLocked_def incremental_def ttlApproaching_def boundsOf_def
    ttlRemaining_def effectiveTTLLocked_def
  have "refreshDue exAged ''seeded''" "\<not> refreshDue exAged ''cold''"
    using exAged_ages [of 1] by (simp_all add: defs)
  moreover have "\<not> refreshDue exAged ''fresh''"
    using exAged_ages [of 89999] jitter_bounds [of "''fresh''" 3600]
    by (simp add: defs exAged_lead deadlineApproaching_def inLead_def lifetimeSecondsOf_def)
  ultimately show ?thesis using pass_refreshes_due_cells [OF exAged_wf] by simp
qed

section \<open>The deadline\<close>

text \<open>The age of the key in nanoseconds, from its age in seconds.\<close>

lemma lifetime_lower: "0 < n \<Longrightarrow> n \<le> lifetimeSecondsOf s e \<Longrightarrow> n * nanos \<le> timeSub (st_now s) (BornAt e) \<and> BornAt e \<noteq> 0"
  by (auto simp: lifetimeSecondsOf_def seconds_def nanos_def split: if_splits)

lemma remintLead_half:
  assumes "0 < maxEntryAge s"
  shows "0 \<le> remintLead s \<and> 2 * remintLead s \<le> maxEntryAge s"
  using assms by (auto simp: remintLead_def Let_def)

text \<open>A refresh the birth clock asks for is always early enough and never too early: with an
  age cap of whole seconds, a warm cell enqueued for its deadline is inside the window in which a
  refresh may renew its birth, and every cell in the second half of that window is due, whatever the
  offset drawn from its key.\<close>

theorem deadline_inside_window:
  assumes "maxEntryAge s = M * nanos" "maxEntryAge s \<le> maxDuration"
  shows "(deadlineApproaching (boundsOf s) (metaForItemLocked s it) \<and> warmLocked s it \<longrightarrow>
      fst (inRemintWindowLocked it s)) \<and>
    (0 < M \<and> 0 < seconds (remintLead s) \<and>
      M - seconds (remintLead s) div 2 \<le> lifetimeSecondsOf s (it_entry it) \<longrightarrow>
      deadlineApproaching (boundsOf s) (metaForItemLocked s it))"
proof (intro conjI impI)
  let ?L = "seconds (remintLead s)" and ?age = "timeSub (st_now s) (BornAt (it_entry it))"
  have M: "seconds (maxEntryAge s) = M" using assms(1) by (simp add: seconds_def nanos_def zdiv_zminus1_eq_if)
  note d = deadlineApproaching_def inLead_def boundsOf_def
  { assume "deadlineApproaching (boundsOf s) (metaForItemLocked s it) \<and> warmLocked s it"
    then have due: "0 < M" "0 < ?L" "M - ?L \<le> lifetimeSecondsOf s (it_entry it)" "warmLocked s it"
      using jitter_bounds [of "it_key it" ?L] by (auto simp: d M)
    have pos: "0 < maxEntryAge s" using due(1) assms(1) by (simp add: nanos_def)
    have lead: "?L * nanos \<le> remintLead s" "2 * remintLead s \<le> maxEntryAge s"
      using remintLead_half [OF pos] by (auto simp: seconds_def nanos_def)
    have "2 * ?L \<le> M" using lead assms(1) due(2) by (simp add: nanos_def)
    then have "0 < M - ?L" using due(1,2) by simp
    from lifetime_lower [OF this due(3)] have "(M - ?L) * nanos \<le> ?age" "BornAt (it_entry it) \<noteq> 0" by auto
    moreover have "maxEntryAge s - remintLead s \<le> (M - ?L) * nanos" using lead(1) assms(1) by (simp add: left_diff_distrib)
    ultimately show "fst (inRemintWindowLocked it s)" using pos due(4) by (simp add: inRemintWindowLocked_def) }
  { assume a: "0 < M \<and> 0 < ?L \<and> M - ?L div 2 \<le> lifetimeSecondsOf s (it_entry it)"
    have "M < 2 ^ 63" using assms by (simp add: nanos_def maxDuration_def)
    moreover have "2 * remintLead s \<le> maxEntryAge s" using remintLead_half [of s] a assms(1) by (simp add: nanos_def)
    ultimately have "?L < 2 ^ 63" using assms by (auto simp: seconds_def nanos_def maxDuration_def)
    then have "deadlineJitterSeconds (it_key it) ?L \<le> ?L - ?L div 2"
      using jitter_bounds [of "it_key it" ?L] a
      by (cases "1 < ?L div 2") (auto simp: deadlineJitterSeconds_def)
    then show "deadlineApproaching (boundsOf s) (metaForItemLocked s it)" using a by (simp add: d M) }
qed

lemma deadline_inside_window_witness:
  "fst (inRemintWindowLocked (exAgedItem ''seeded'' True 1) exAged)"
proof -
  have "lifetimeSecondsOf exAged (exAgedEntry True 1) = 89999"
    using exAged_ages [of 1] by (simp add: lifetimeSecondsOf_def nanos_def [symmetric])
  moreover have "86400 * nanos \<le> maxDuration" by (simp add: nanos_def maxDuration_def)
  ultimately show ?thesis
    using deadline_inside_window [of exAged 86400 "exAgedItem ''seeded'' True 1"] by (simp add: warmLocked_def exAged_lead)
qed

section \<open>Projections hide bodies\<close>

text \<open>
  The store with everything blanked that is a requester's: the bytes of the bodies (their lengths stay),
  the values of the extras, the names of the representatives and of the recent hitters.
\<close>

definition blank :: "gostring \<Rightarrow> gostring" where
  "blank s = replicate (length s) (CHR 0x00)"

definition redactInputs :: "ResolvedKeyInputs \<Rightarrow> ResolvedKeyInputs" where
  "redactInputs inp = inp\<lparr>RepresentativeUsername := [], RepresentativeGroups := [],
     in_Extras := (if in_Extras inp = [] then [] else [([], JNull)])\<rparr>"

definition redactEntry :: "ResolvedEntry \<Rightarrow> ResolvedEntry" where
  "redactEntry e = e\<lparr>RawJSON := blank (RawJSON e), recentHitters := None,
     Inputs := map_option redactInputs (Inputs e)\<rparr>"

definition redactItem :: "lruItem \<Rightarrow> lruItem" where
  "redactItem it = it\<lparr>it_entry := redactEntry (it_entry it)\<rparr>"

definition redactStore :: "store \<Rightarrow> store" where
  "redactStore s = s\<lparr>st_index := (\<lambda>k. map_option redactItem (st_index s k)),
     listCells := (\<lambda>c. (listCells s c)\<lparr>lc_gen := map_option (\<lambda>(b, n). (blank b, n)) (lc_gen (listCells s c))\<rparr>)\<rparr>"

lemma redactEntry_fields [simp]:
  "listCell (redactEntry e) = listCell e" "BornAt (redactEntry e) = BornAt e" "CreatedAt (redactEntry e) = CreatedAt e"
  "TTLOverride (redactEntry e) = TTLOverride e" "Pinned (redactEntry e) = Pinned e"
  "SeededAtBoot (redactEntry e) = SeededAtBoot e" "ItemsLen (redactEntry e) = ItemsLen e"
  "length (RawJSON (redactEntry e)) = length (RawJSON e)"
  by (simp_all add: redactEntry_def blank_def)

lemma redactStore_fields [simp]:
  "st_now (redactStore s) = st_now s" "st_ttl (redactStore s) = st_ttl s" "st_order (redactStore s) = st_order s"
  "refreshSuppressed (redactStore s) = refreshSuppressed s" "maxEntryAge (redactStore s) = maxEntryAge s"
  "lc_anchored (listCells (redactStore s) c) = lc_anchored (listCells s c)"
  "st_index (redactStore s) k = map_option redactItem (st_index s k)"
  by (simp_all add: redactStore_def)

lemma redact_reads [simp]:
  "incremental (redactStore s) (redactEntry e) = incremental s e"
  "RawLen (redactStore s) (redactEntry e) = RawLen s e"
  "itemCount (redactStore s) (redactEntry e) = itemCount s e"
  "effectiveTTLLocked (redactStore s) (redactEntry e) = effectiveTTLLocked s e"
  "lifetimeSecondsOf (redactStore s) (redactEntry e) = lifetimeSecondsOf s e"
  by (auto simp: incremental_def RawLen_def itemCount_def effectiveTTLLocked_def lifetimeSecondsOf_def redactStore_def
      blank_def split: option.split)

lemma redactItem_fields [simp]:
  "it_key (redactItem it) = it_key it" "it_lastRead (redactItem it) = it_lastRead it"
  "it_extrasHash (redactItem it) = it_extrasHash it" "it_entry (redactItem it) = redactEntry (it_entry it)"
  by (simp_all add: redactItem_def)

lemma meta_redact [simp]: "metaForItemLocked (redactStore s) (redactItem it) = metaForItemLocked s it"
proof -
  have "ttlRemaining (redactStore s) (redactEntry e) = ttlRemaining s e" for e
    by (simp add: ttlRemaining_def Let_def)
  moreover have "lastReadSecondsOf (redactStore s) (redactItem it) = lastReadSecondsOf s it"
    by (simp add: lastReadSecondsOf_def)
  moreover have "Inputs (redactEntry e) = map_option redactInputs (Inputs e)" for e
    by (simp add: redactEntry_def)
  ultimately show ?thesis
    by (cases "Inputs (it_entry it)") (simp_all add: metaForItemLocked_def Let_def redactInputs_def)
qed

lemma warm_redact [simp]: "warmLocked (redactStore s) (redactItem it) = warmLocked s it"
  by (simp add: warmLocked_def)

lemma residentItems_redact: "residentItems (redactStore s) ks = map redactItem (residentItems s ks)"
  by (induction ks) (auto simp: residentItems_def map_filter_def)

lemma projectBatch_redact: "projectBatch (redactStore s) ks = projectBatch s ks"
  by (simp add: projectBatch_def residentItems_redact comp_def)

lemma batchedFrom_redact: "batchedFrom batch i (\<lambda>i. redactStore (view i)) keys fn a = batchedFrom batch i view keys fn a"
proof (induction batch i view keys fn a rule: batchedFrom.induct)
  case (1 batch i view keys fn a)
  then show ?case
    by (subst (1 2) batchedFrom.simps) (auto simp: projectBatch_redact split: prod.split bool.split)
qed

text \<open>No walk over the metadata tells a store from the same store with every body, every extra and every
  requester's name blanked: whatever a visitor reports comes from lengths, ages, counts and the key's
  coordinates.\<close>

theorem metadata_hides_bodies:
  "RangeMetadata fn (redactStore s) a = RangeMetadata fn s a \<and>
   RangeMetadataSample n keys fn (redactStore s) a = RangeMetadataSample n keys fn s a \<and>
   RangeMetadataBatched batch (\<lambda>i. redactStore (view i)) keys gn b = RangeMetadataBatched batch view keys gn b"
  by (simp add: RangeMetadata_def RangeMetadataSample_def RangeMetadataBatched_def rangeMetadataBatched_def
      residentItems_redact batchedFrom_redact comp_def take_map)

end
