(* ===== verification/DepIndex.thy ===== *)
theory DepIndex
  imports ResolvedPut
begin

text \<open>
  The dependency tracker (cache/deps.go): which resolved cells depend on which coordinates, the
  sequence of dep events and the stamps it leaves, the sinks of the resolves, and the check of an
  accepted write that asks whether a dependency moved while its body was resolved.

  Here every operation is one step. The forward index maps a coordinate to its bucket of keys, the
  reverse index a key to its edges; Go ranges over both in any order, the model in insertion order.
  Calls into components the tracker only notifies are logged. The list-interest shadow
  (deps\_list\_interest.go) and the attribution of marks to metric classes change no mark and are left
  out; so are log lines and the switches of test builds.
\<close>

section \<open>State\<close>

type_synonym GVR = "gostring \<times> gostring \<times> gostring"

definition listWildcard :: gostring where "listWildcard = ''*''"
definition defaultDepsMaxRecords :: int where "defaultDepsMaxRecords = 1000000"

record keySet =
  ks_keys :: "gostring list"
  ks_count :: int
  ks_lastBumpSeq :: "64 word"

text \<open>A key's edge set; \<open>dse_id\<close> is the identity of its object.\<close>

record depSet =
  dse_id :: nat
  dse_deps :: "DepKey list"

record depSink =
  ds_startSeq :: "64 word"
  ds_deps :: "DepKey list"
  ds_own :: "DepKey list"
  ds_putKey :: gostring
  ds_checkedSeq :: "64 word"
  ds_putRemarked :: bool
  ds_asOf :: "(DepKey \<times> 64 word) list"
  ds_putBoot :: bool
  ds_key :: gostring
  ds_ownDS :: "nat option"
  ds_ownStripped :: bool

text \<open>What the tracker reads of a context: the dry-run flag, the key, and the sinks, the innermost first.\<close>

record depCtx =
  dc_inert :: bool
  dc_key :: gostring
  dc_sinks :: "nat list"

datatype depCounter = RecordTotal | RecordDroppedCap | RecordDroppedNoKey | SelfEvictDelete | EvictSelfGoneTotal
  | DegradedNoEvict | DirtyMarkTotal | EnqueueUpdateTotal | RemoveL1Total | UnguardedPutTotal
  | MovedRemarkBoot | MovedRemarkGuarded | ReassertChecked | ReassertedEdges

datatype depCall =
    DirtyHook gostring GVR
  | MultiHook gostring GVR "GVR list"
  | MergeTrigger gostring GVR
  | PlainRefresh gostring
  | RefreshRemarkNoted gostring
  | MemoCoordinateMoved GVR gostring gostring
  | MemoTypeMoved GVR
  | MemoBucketGone DepKey
  | MemoL1Gone gostring
  | ObjectGone GVR gostring gostring
  | ListCellsPending GVR gostring gostring
  | ListCellsUnanchored GVR
  | EvictionPublished gostring
  | InformerEnsured GVR

text \<open>Which of the refresher's hooks are wired.\<close>

record hooks =
  enqueueFn :: bool
  mergeTriggersFn :: bool
  enqueueMultiFn :: bool

record DepTracker =
  forward :: "(DepKey \<times> keySet) list"
  rev_deps :: "(gostring \<times> depSet) list"
  nextDepSet :: nat
  captures :: "(gostring \<times> nat) list"
  captureBufs :: "DepKey list list"
  gvrLastBump :: "GVR \<Rightarrow> 64 word"
  gvrLastTypeBump :: "GVR \<Rightarrow> 64 word"
  totalRecords :: int
  maxRecords :: int
  coordinates :: int
  depEventSeq :: "64 word"
  dt_count :: "depCounter \<Rightarrow> 64 word"
  dt_hooks :: hooks
  sinks :: "depSink list"
  dt_calls :: "depCall list"

definition newDepTracker :: "int \<Rightarrow> DepTracker" where
  "newDepTracker n = \<lparr>forward = [], rev_deps = [], nextDepSet = 0, captures = [], captureBufs = [], gvrLastBump = (\<lambda>_. 0),
     gvrLastTypeBump = (\<lambda>_. 0), totalRecords = 0, maxRecords = (if n \<le> 0 then defaultDepsMaxRecords else n),
     coordinates = 0, depEventSeq = 0, dt_count = (\<lambda>_. 0), dt_hooks = \<lparr>enqueueFn = False, mergeTriggersFn = False, enqueueMultiFn = False\<rparr>, sinks = [], dt_calls = []\<rparr>"

definition tally :: "depCounter \<Rightarrow> nat \<Rightarrow> DepTracker \<Rightarrow> DepTracker" where
  "tally c n d = d\<lparr>dt_count := (dt_count d)(c := dt_count d c + of_nat n)\<rparr>"

definition call :: "depCall \<Rightarrow> DepTracker \<Rightarrow> DepTracker" where
  "call c d = d\<lparr>dt_calls := dt_calls d @ [c]\<rparr>"

definition SetRefreshMultiTriggerHook :: "bool \<Rightarrow> DepTracker \<Rightarrow> DepTracker" where
  "SetRefreshMultiTriggerHook fn d = d\<lparr>dt_hooks := (dt_hooks d)\<lparr>enqueueMultiFn := fn\<rparr>\<rparr>"

definition SetRefreshTriggerMergeHook :: "bool \<Rightarrow> DepTracker \<Rightarrow> DepTracker" where
  "SetRefreshTriggerMergeHook fn d = d\<lparr>dt_hooks := (dt_hooks d)\<lparr>mergeTriggersFn := fn\<rparr>\<rparr>"

definition SetRefreshHook :: "bool \<Rightarrow> DepTracker \<Rightarrow> DepTracker" where
  "SetRefreshHook fn d = d\<lparr>dt_hooks := (dt_hooks d)\<lparr>enqueueFn := fn, enqueueMultiFn := False\<rparr>\<rparr>"

section \<open>Sinks\<close>

definition sinkFromContext :: "depCtx \<Rightarrow> nat option" where
  "sinkFromContext ctx = (case dc_sinks ctx of [] \<Rightarrow> None | i # _ \<Rightarrow> Some i)"

definition blankSink :: "64 word \<Rightarrow> depSink" where
  "blankSink seq = \<lparr>ds_startSeq = seq, ds_deps = [], ds_own = [], ds_putKey = [], ds_checkedSeq = 0,
     ds_putRemarked = False, ds_asOf = [], ds_putBoot = False, ds_key = [],
     ds_ownDS = None, ds_ownStripped = False\<rparr>"

definition installSink :: "depSink \<Rightarrow> depCtx \<Rightarrow> DepTracker \<Rightarrow> depCtx \<times> DepTracker" where
  "installSink s ctx d = (ctx\<lparr>dc_sinks := length (sinks d) # dc_sinks ctx\<rparr>, d\<lparr>sinks := sinks d @ [s]\<rparr>)"

definition WithDepGenSink :: "depCtx \<Rightarrow> DepTracker \<Rightarrow> depCtx \<times> DepTracker" where
  "WithDepGenSink ctx d = installSink (blankSink (depEventSeq d)) ctx d"

definition WithContentDepGenSink :: "depCtx \<Rightarrow> GVR \<Rightarrow> gostring \<Rightarrow> gostring \<Rightarrow> DepTracker \<Rightarrow> depCtx \<times> DepTracker" where
  "WithContentDepGenSink ctx gvr namespace name d =
     (let name = (if name = [] then listWildcard else name) in
      installSink ((blankSink (depEventSeq d))\<lparr>ds_deps := [\<lparr>dk_GVR = gvr, dk_Namespace = namespace, dk_Name = name\<rparr>]\<rparr>)
        ctx d)"

definition WithL1KeyContext :: "depCtx \<Rightarrow> gostring \<Rightarrow> DepTracker \<Rightarrow> depCtx \<times> DepTracker" where
  "WithL1KeyContext ctx l1Key d =
     (if l1Key = [] then (ctx, tally RecordDroppedNoKey 1 d)
      else installSink ((blankSink (depEventSeq d))\<lparr>ds_key := l1Key\<rparr>) (ctx\<lparr>dc_key := l1Key\<rparr>) d)"

definition DepGenEpochNow :: "DepTracker \<Rightarrow> 64 word" where
  "DepGenEpochNow d = depEventSeq d"

definition WithL1KeyContextFromEpoch ::
  "depCtx \<Rightarrow> gostring \<Rightarrow> 64 word \<Rightarrow> DepKey list \<Rightarrow> DepTracker \<Rightarrow> depCtx \<times> DepTracker" where
  "WithL1KeyContextFromEpoch ctx l1Key epoch pre d =
     (if l1Key = [] then (ctx, tally RecordDroppedNoKey 1 d)
      else
        (let epoch = (if epoch > depEventSeq d then depEventSeq d else epoch)
         in installSink ((blankSink epoch)\<lparr>ds_deps := pre, ds_key := l1Key\<rparr>) (ctx\<lparr>dc_key := l1Key\<rparr>) d))"

definition addDepLocked :: "DepKey \<Rightarrow> depSink \<Rightarrow> depSink" where
  "addDepLocked dk s = (if dk \<in> set (ds_deps s) then s else s\<lparr>ds_deps := ds_deps s @ [dk]\<rparr>)"

definition addOwnLocked :: "DepKey \<Rightarrow> depSink \<Rightarrow> depSink" where
  "addOwnLocked dk s = (if dk \<in> set (ds_own s) then s else s\<lparr>ds_own := ds_own s @ [dk]\<rparr>)"

definition ownDepsLocked :: "depSink \<Rightarrow> DepKey list" where
  "ownDepsLocked s = filter (\<lambda>dk. dk \<in> set (ds_own s)) (ds_deps s)"

definition updSink :: "nat \<Rightarrow> (depSink \<Rightarrow> depSink) \<Rightarrow> DepTracker \<Rightarrow> DepTracker" where
  "updSink i f d = d\<lparr>sinks := (sinks d)[i := f (sinks d ! i)]\<rparr>"

text \<open>A record reaches the sink of its context and every ancestor.\<close>

definition noteSinks :: "depCtx \<Rightarrow> gostring \<Rightarrow> DepKey \<Rightarrow> DepTracker \<Rightarrow> DepTracker" where
  "noteSinks ctx l1Key dk d = foldl (\<lambda>d i. updSink i (\<lambda>s.
       let s = addDepLocked dk s
       in if ds_key s \<noteq> [] \<and> ds_key s = l1Key then addOwnLocked dk s else s) d) d (dc_sinks ctx)"

text \<open>The sink whose own key is recorded.\<close>

definition ownSink :: "depCtx \<Rightarrow> gostring \<Rightarrow> DepTracker \<Rightarrow> nat option" where
  "ownSink ctx l1Key d = find (\<lambda>i. ds_key (sinks d ! i) \<noteq> [] \<and> ds_key (sinks d ! i) = l1Key) (dc_sinks ctx)"

definition noteOwnDepSet :: "nat \<Rightarrow> depSink \<Rightarrow> depSink" where
  "noteOwnDepSet ds s = (case ds_ownDS s of None \<Rightarrow> s\<lparr>ds_ownDS := Some ds\<rparr>
     | Some cur \<Rightarrow> if cur \<noteq> ds then s\<lparr>ds_ownStripped := True\<rparr> else s)"

definition recheckSink :: "depCtx \<Rightarrow> gostring \<Rightarrow> DepTracker \<Rightarrow> nat option" where
  "recheckSink ctx l1Key d = find (\<lambda>i. ds_putKey (sinks d ! i) \<noteq> [] \<and> ds_putKey (sinks d ! i) = l1Key \<and>
       \<not> ds_putRemarked (sinks d ! i)) (dc_sinks ctx)"

section \<open>Dep events\<close>

definition gvrLastBumpSeq :: "GVR \<Rightarrow> DepTracker \<Rightarrow> 64 word" where
  "gvrLastBumpSeq gvr d = gvrLastBump d gvr"

definition storeMaxSeq :: "64 word \<Rightarrow> 64 word \<Rightarrow> 64 word" where
  "storeMaxSeq cur v = (if v \<le> cur then cur else v)"

definition coordinateBuckets :: "GVR \<Rightarrow> gostring \<Rightarrow> gostring \<Rightarrow> DepKey list" where
  "coordinateBuckets gvr namespace name =
     [\<lparr>dk_GVR = gvr, dk_Namespace = namespace, dk_Name = name\<rparr>]
     @ (if namespace \<noteq> [] then [\<lparr>dk_GVR = gvr, dk_Namespace = [], dk_Name = name\<rparr>] else [])
     @ [\<lparr>dk_GVR = gvr, dk_Namespace = namespace, dk_Name = listWildcard\<rparr>]
     @ (if namespace \<noteq> [] then [\<lparr>dk_GVR = gvr, dk_Namespace = [], dk_Name = listWildcard\<rparr>] else [])"

definition stampBucket :: "64 word \<Rightarrow> DepTracker \<Rightarrow> DepKey \<Rightarrow> DepTracker" where
  "stampBucket seq d dk = (case map_of (forward d) dk of None \<Rightarrow> d
     | Some ks \<Rightarrow> d\<lparr>forward := aput (forward d) dk (ks\<lparr>ks_lastBumpSeq := storeMaxSeq (ks_lastBumpSeq ks) seq\<rparr>)\<rparr>)"

definition raiseFloor :: "GVR \<Rightarrow> 64 word \<Rightarrow> DepTracker \<Rightarrow> DepTracker" where
  "raiseFloor gvr seq d = d\<lparr>gvrLastBump := (gvrLastBump d)(gvr := storeMaxSeq (gvrLastBump d gvr) seq)\<rparr>"

definition nextSeq :: "DepTracker \<Rightarrow> DepTracker" where
  "nextSeq d = d\<lparr>depEventSeq := depEventSeq d + 1\<rparr>"

definition bumpCoordinateGen :: "GVR \<Rightarrow> gostring \<Rightarrow> gostring \<Rightarrow> DepTracker \<Rightarrow> DepTracker" where
  "bumpCoordinateGen gvr namespace name d =
     (let d = nextSeq d; seq = depEventSeq d;
          d = raiseFloor gvr seq d;
          d = foldl (stampBucket seq) d (coordinateBuckets gvr namespace name)
      in call (MemoCoordinateMoved gvr namespace name) d)"

definition typeBuckets :: "GVR \<Rightarrow> bool \<Rightarrow> DepTracker \<Rightarrow> DepKey list" where
  "typeBuckets gvr listOnly d =
     filter (\<lambda>dk. dk_GVR dk = gvr \<and> (\<not> listOnly \<or> dk_Name dk = listWildcard)) (map fst (forward d))"

definition bumpResourceTypeGen :: "GVR \<Rightarrow> bool \<Rightarrow> DepTracker \<Rightarrow> DepTracker" where
  "bumpResourceTypeGen gvr listOnly d =
     (let d = call (ListCellsUnanchored gvr) d;
          d = nextSeq d; seq = depEventSeq d;
          d = raiseFloor gvr seq d;
          d = d\<lparr>gvrLastTypeBump := (gvrLastTypeBump d)(gvr := storeMaxSeq (gvrLastTypeBump d gvr) seq)\<rparr>;
          d = foldl (stampBucket seq) d (typeBuckets gvr listOnly d)
      in call (MemoTypeMoved gvr) d)"

definition depMovedSince :: "DepKey \<Rightarrow> 64 word \<Rightarrow> DepTracker \<Rightarrow> bool" where
  "depMovedSince dk seq d = (case map_of (forward d) dk of
       Some ks \<Rightarrow> ks_lastBumpSeq ks > seq
     | None \<Rightarrow> gvrLastBumpSeq (dk_GVR dk) d > seq)"

definition ContentCoordinateMovedSince :: "GVR \<Rightarrow> gostring \<Rightarrow> gostring \<Rightarrow> 64 word \<Rightarrow> DepTracker \<Rightarrow> bool" where
  "ContentCoordinateMovedSince gvr namespace name seq d =
     (let name = (if name = [] then listWildcard else name)
      in depMovedSince \<lparr>dk_GVR = gvr, dk_Namespace = namespace, dk_Name = name\<rparr> seq d)"

section \<open>The check of an accepted write\<close>

definition enqueueRemark :: "gostring \<Rightarrow> GVR list \<Rightarrow> DepTracker \<Rightarrow> DepTracker" where
  "enqueueRemark l1Key triggers d =
     (if enqueueMultiFn (dt_hooks d) then
        call (if triggers = [] then MultiHook l1Key ([], [], []) [] else MultiHook l1Key (last triggers) (butlast triggers)) d
      else if \<not> enqueueFn (dt_hooks d) then call (PlainRefresh l1Key) d
      else if triggers = [] then call (DirtyHook l1Key ([], [], [])) d
      else call (DirtyHook l1Key (last triggers))
             (if mergeTriggersFn (dt_hooks d) then foldl (\<lambda>d g. call (MergeTrigger l1Key g) d) d (butlast triggers)
              else d))"

definition noteMovedRemark :: "bool \<Rightarrow> DepTracker \<Rightarrow> DepTracker" where
  "noteMovedRemark boot d = tally (if boot then MovedRemarkBoot else MovedRemarkGuarded) 1 d"

definition checkFloor :: "depSink \<Rightarrow> DepKey \<Rightarrow> 64 word" where
  "checkFloor s dk = (case map_of (ds_asOf s) dk of None \<Rightarrow> ds_startSeq s
     | Some f \<Rightarrow> if f < ds_startSeq s then f else ds_startSeq s)"

fun movedGVRs :: "depSink \<Rightarrow> DepKey list \<Rightarrow> GVR list \<Rightarrow> DepTracker \<Rightarrow> GVR list" where
  "movedGVRs s [] moved d = moved"
| "movedGVRs s (dk # dks) moved d =
     movedGVRs s dks (if depMovedSince dk (checkFloor s dk) d \<and> dk_GVR dk \<notin> set moved
       then moved @ [dk_GVR dk] else moved) d"

definition remarkIfDepsMovedFrom :: "depCtx \<Rightarrow> gostring \<Rightarrow> bool \<Rightarrow> DepTracker \<Rightarrow> DepTracker" where
  "remarkIfDepsMovedFrom ctx l1Key boot d =
     (if l1Key = [] then d
      else case sinkFromContext ctx of
        None \<Rightarrow> enqueueRemark l1Key [] (call (RefreshRemarkNoted l1Key) (tally UnguardedPutTotal 1 d))
      | Some i \<Rightarrow>
          (let s = sinks d ! i;
               d = updSink i (\<lambda>s. s\<lparr>ds_putKey := l1Key, ds_checkedSeq := depEventSeq d, ds_putRemarked := False,
                     ds_putBoot := boot\<rparr>) d;
               moved = movedGVRs s (ds_deps s) [] d
           in if moved = [] then d
              else enqueueRemark l1Key moved (call (RefreshRemarkNoted l1Key) (noteMovedRemark boot
                (updSink i (\<lambda>s. s\<lparr>ds_putRemarked := True\<rparr>) d)))))"

definition remarkIfDepsMoved :: "depCtx \<Rightarrow> gostring \<Rightarrow> DepTracker \<Rightarrow> DepTracker" where
  "remarkIfDepsMoved ctx l1Key d = remarkIfDepsMovedFrom ctx l1Key False d"

definition recheckAfterPutRecord :: "nat \<Rightarrow> gostring \<Rightarrow> DepKey \<Rightarrow> DepTracker \<Rightarrow> DepTracker" where
  "recheckAfterPutRecord i l1Key dk d =
     (let s = sinks d ! i in
      if ds_putRemarked s \<or> ds_putKey s \<noteq> l1Key \<or> \<not> depMovedSince dk (ds_checkedSeq s) d then d
      else enqueueRemark l1Key [dk_GVR dk] (call (RefreshRemarkNoted l1Key) (noteMovedRemark (ds_putBoot s)
        (updSink i (\<lambda>s. s\<lparr>ds_putRemarked := True\<rparr>) d))))"

section \<open>Recording\<close>

definition tapCapture :: "gostring \<Rightarrow> DepKey \<Rightarrow> DepTracker \<Rightarrow> DepTracker" where
  "tapCapture l1Key dk d = d\<lparr>captureBufs := foldl (\<lambda>bufs (k, h). if k = l1Key then bufs[h := bufs ! h @ [dk]] else bufs)
     (captureBufs d) (captures d)\<rparr>"

text \<open>\<open>LoadOrStore\<close> of the bucket: a new one inherits the floor of its resource.\<close>

definition loadBucket :: "DepKey \<Rightarrow> DepTracker \<Rightarrow> keySet \<times> bool \<times> DepTracker" where
  "loadBucket dk d = (case map_of (forward d) dk of
       Some ks \<Rightarrow> (ks, True, d)
     | None \<Rightarrow>
         (let ks = \<lparr>ks_keys = [], ks_count = 0, ks_lastBumpSeq = storeMaxSeq 0 (gvrLastBumpSeq (dk_GVR dk) d)\<rparr>
          in (ks, False, d\<lparr>forward := aput (forward d) dk ks, coordinates := coordinates d + 1\<rparr>)))"

definition addReverse :: "gostring \<Rightarrow> DepKey \<Rightarrow> DepTracker \<Rightarrow> DepTracker" where
  "addReverse l1Key dk d =
     (case map_of (rev_deps d) l1Key of
        None \<Rightarrow> d\<lparr>rev_deps := aput (rev_deps d) l1Key \<lparr>dse_id = nextDepSet d, dse_deps = [dk]\<rparr>,
                   nextDepSet := nextDepSet d + 1\<rparr>
      | Some ds \<Rightarrow> if dk \<in> set (dse_deps ds) then d
          else d\<lparr>rev_deps := aput (rev_deps d) l1Key (ds\<lparr>dse_deps := dse_deps ds @ [dk]\<rparr>)\<rparr>)"

text \<open>The identity of the key's edge set, for the sink that records under its own key.\<close>

definition noteOwn :: "nat option \<Rightarrow> gostring \<Rightarrow> DepTracker \<Rightarrow> DepTracker" where
  "noteOwn own l1Key d = (case own of None \<Rightarrow> d
     | Some i \<Rightarrow> updSink i (\<lambda>s. case map_of (rev_deps d) l1Key of
           Some ds \<Rightarrow> noteOwnDepSet (dse_id ds) s | None \<Rightarrow> s\<lparr>ds_ownStripped := True\<rparr>) d)"

definition dropAtCap :: "gostring \<Rightarrow> DepKey \<Rightarrow> keySet \<Rightarrow> bool \<Rightarrow> DepTracker \<Rightarrow> DepTracker" where
  "dropAtCap l1Key dk ks loadedBucket d =
     (let d = d\<lparr>forward := aput (forward d) dk (ks\<lparr>ks_keys := remove1 l1Key (ks_keys ks @ [l1Key])\<rparr>)\<rparr>;
          d = tally RecordDroppedCap 1 d
      in if \<not> loadedBucket \<and> ks_count ks = 0
         then call (MemoBucketGone dk) (d\<lparr>forward := AList.delete dk (forward d), coordinates := coordinates d - 1\<rparr>)
         else d)"

definition commitEdge :: "nat option \<Rightarrow> gostring \<Rightarrow> DepKey \<Rightarrow> keySet \<Rightarrow> DepTracker \<Rightarrow> DepTracker" where
  "commitEdge own l1Key dk ks d =
     (let d = d\<lparr>forward := aput (forward d) dk (ks\<lparr>ks_keys := ks_keys ks @ [l1Key], ks_count := ks_count ks + 1\<rparr>),
                totalRecords := totalRecords d + 1\<rparr>
      in noteOwn own l1Key (addReverse l1Key dk (tally RecordTotal 1 d)))"

definition insertEdge :: "bool \<Rightarrow> nat option \<Rightarrow> gostring \<Rightarrow> DepKey \<Rightarrow> DepTracker \<Rightarrow> DepTracker" where
  "insertEdge plain own l1Key dk d =
     (case loadBucket dk d of (ks, loadedBucket, d) \<Rightarrow>
        if l1Key \<in> set (ks_keys ks)
        then noteOwn own l1Key (if dk_Name dk = listWildcard \<and> plain then addReverse l1Key dk d else d)
        else if totalRecords d \<ge> maxRecords d then dropAtCap l1Key dk ks loadedBucket d
        else commitEdge own l1Key dk ks d)"

definition recordInternalMode :: "bool \<Rightarrow> depCtx \<Rightarrow> gostring \<Rightarrow> DepKey \<Rightarrow> DepTracker \<Rightarrow> DepTracker" where
  "recordInternalMode plain ctx l1Key dk d =
     (let d = noteSinks ctx l1Key dk d;
          recheck = recheckSink ctx l1Key d;
          d = tapCapture l1Key dk d;
          d = insertEdge plain (ownSink ctx l1Key d) l1Key dk d
      in case recheck of None \<Rightarrow> d | Some i \<Rightarrow> recheckAfterPutRecord i l1Key dk d)"

definition recordInternal :: "depCtx \<Rightarrow> gostring \<Rightarrow> DepKey \<Rightarrow> DepTracker \<Rightarrow> DepTracker" where
  "recordInternal ctx l1Key dk d = recordInternalMode True ctx l1Key dk d"

definition Record :: "depCtx \<Rightarrow> gostring \<Rightarrow> GVR \<Rightarrow> gostring \<Rightarrow> gostring \<Rightarrow> DepTracker \<Rightarrow> DepTracker" where
  "Record ctx l1Key gvr namespace name d =
     (if dc_inert ctx then d
      else if l1Key = [] then tally RecordDroppedNoKey 1 d
      else if name = [] then d
      else recordInternal ctx l1Key \<lparr>dk_GVR = gvr, dk_Namespace = namespace, dk_Name = name\<rparr> d)"

definition RecordList :: "depCtx \<Rightarrow> gostring \<Rightarrow> GVR \<Rightarrow> gostring \<Rightarrow> DepTracker \<Rightarrow> DepTracker" where
  "RecordList ctx l1Key gvr namespace d =
     (if dc_inert ctx then d
      else if l1Key = [] then tally RecordDroppedNoKey 1 d
      else recordInternal ctx l1Key \<lparr>dk_GVR = gvr, dk_Namespace = namespace, dk_Name = listWildcard\<rparr> d)"

section \<open>Removal\<close>

definition dropKeyFrom :: "gostring \<Rightarrow> DepTracker \<Rightarrow> DepKey \<Rightarrow> DepTracker" where
  "dropKeyFrom l1Key d dk = (case map_of (forward d) dk of None \<Rightarrow> d
     | Some ks \<Rightarrow>
         if l1Key \<notin> set (ks_keys ks) then d
         else
           (let newCount = ks_count ks - 1;
                d = d\<lparr>forward := aput (forward d) dk (ks\<lparr>ks_keys := remove1 l1Key (ks_keys ks), ks_count := newCount\<rparr>),
                      totalRecords := totalRecords d - 1\<rparr>
            in if newCount = 0
               then call (MemoBucketGone dk) (d\<lparr>forward := AList.delete dk (forward d), coordinates := coordinates d - 1\<rparr>)
               else d))"

definition RemoveL1Key :: "gostring \<Rightarrow> DepTracker \<Rightarrow> DepTracker" where
  "RemoveL1Key l1Key d =
     (if l1Key = [] then d
      else case map_of (rev_deps d) l1Key of None \<Rightarrow> d
      | Some ds \<Rightarrow>
          (let d = d\<lparr>rev_deps := AList.delete l1Key (rev_deps d)\<rparr>;
               d = call (MemoL1Gone l1Key) d;
               d = foldl (dropKeyFrom l1Key) d (dse_deps ds)
           in tally RemoveL1Total 1 d))"

section \<open>Lookups\<close>

definition hasEdges :: "gostring \<Rightarrow> DepTracker \<Rightarrow> bool" where
  "hasEdges l1Key d = (map_of (rev_deps d) l1Key \<noteq> None)"

definition hasBucket :: "DepKey \<Rightarrow> DepTracker \<Rightarrow> bool" where
  "hasBucket dk d = (map_of (forward d) dk \<noteq> None)"

definition hasExactEdge :: "gostring \<Rightarrow> DepKey \<Rightarrow> DepTracker \<Rightarrow> bool" where
  "hasExactEdge l1Key dk d = (case map_of (rev_deps d) l1Key of None \<Rightarrow> False
     | Some ds \<Rightarrow> dk \<in> set (dse_deps ds) \<and>
         (case map_of (forward d) dk of None \<Rightarrow> False | Some ks \<Rightarrow> l1Key \<in> set (ks_keys ks)))"

definition EdgesUnder :: "gostring \<Rightarrow> DepTracker \<Rightarrow> DepKey list" where
  "EdgesUnder l1Key d = (if l1Key = [] then [] else case map_of (rev_deps d) l1Key of None \<Rightarrow> [] | Some ds \<Rightarrow> dse_deps ds)"

definition bucketKeys :: "DepTracker \<Rightarrow> DepKey \<Rightarrow> gostring list" where
  "bucketKeys d dk = (case map_of (forward d) dk of None \<Rightarrow> [] | Some ks \<Rightarrow> ks_keys ks)"

text \<open>Every pair of a bucket and a key in it, the exact buckets first.\<close>

definition rangeMatchBuckets :: "GVR \<Rightarrow> gostring \<Rightarrow> gostring \<Rightarrow> DepTracker \<Rightarrow> (DepKey \<times> gostring) list" where
  "rangeMatchBuckets gvr namespace name d =
     concat (map (\<lambda>dk. map (\<lambda>k. (dk, k)) (bucketKeys d dk)) (coordinateBuckets gvr namespace name))"

definition preferExact :: "(gostring \<times> DepKey) list \<Rightarrow> DepKey \<times> gostring \<Rightarrow> (gostring \<times> DepKey) list" where
  "preferExact out m = (case m of (dk, l1) \<Rightarrow> (case map_of out l1 of
       None \<Rightarrow> aput out l1 dk
     | Some prev \<Rightarrow> if dk_Name prev = listWildcard \<and> dk_Name dk \<noteq> listWildcard then aput out l1 dk else out))"

definition collectMatchesWithDep :: "GVR \<Rightarrow> gostring \<Rightarrow> gostring \<Rightarrow> DepTracker \<Rightarrow> (gostring \<times> DepKey) list" where
  "collectMatchesWithDep gvr namespace name d = foldl preferExact [] (rangeMatchBuckets gvr namespace name d)"

definition collectMatches :: "GVR \<Rightarrow> gostring \<Rightarrow> gostring \<Rightarrow> DepTracker \<Rightarrow> gostring list" where
  "collectMatches gvr namespace name d = map fst (collectMatchesWithDep gvr namespace name d)"

definition hasEdge :: "gostring \<Rightarrow> DepKey \<Rightarrow> DepTracker \<Rightarrow> bool" where
  "hasEdge l1Key dk d =
     (map_of (collectMatchesWithDep (dk_GVR dk) (dk_Namespace dk) (dk_Name dk) d) l1Key \<noteq> None)"

text \<open>A match of the mark loop: whether only list buckets reached the key.\<close>

definition noteMatch :: "(gostring \<times> bool) list \<Rightarrow> DepKey \<times> gostring \<Rightarrow> (gostring \<times> bool) list" where
  "noteMatch out m = (case m of (dk, l1) \<Rightarrow>
     (let isList = (dk_Name dk = listWildcard) in
      case map_of out l1 of None \<Rightarrow> aput out l1 isList
      | Some prev \<Rightarrow> if prev \<and> \<not> isList then aput out l1 False else out))"

definition collectMatchesForMark :: "GVR \<Rightarrow> gostring \<Rightarrow> gostring \<Rightarrow> DepTracker \<Rightarrow> (gostring \<times> bool) list" where
  "collectMatchesForMark gvr namespace name d = foldl noteMatch [] (rangeMatchBuckets gvr namespace name d)"

definition collectTypeMatches :: "GVR \<Rightarrow> bool \<Rightarrow> DepTracker \<Rightarrow> (gostring \<times> DepKey) list" where
  "collectTypeMatches gvr listOnly d = foldl preferExact []
     (concat (map (\<lambda>dk. map (\<lambda>k. (dk, k)) (bucketKeys d dk)) (typeBuckets gvr listOnly d)))"

section \<open>Captures and replays\<close>

definition BeginCapture :: "gostring \<Rightarrow> DepTracker \<Rightarrow> nat \<times> DepTracker" where
  "BeginCapture l1Key d =
     (let h = length (captureBufs d);
          d = d\<lparr>captureBufs := captureBufs d @ [[]]\<rparr>
      in (h, if l1Key = [] then d else d\<lparr>captures := captures d @ [(l1Key, h)]\<rparr>))"

text \<open>A handle is a buffer that was opened, or nil.\<close>

definition EndCapture :: "gostring \<Rightarrow> nat option \<Rightarrow> DepTracker \<Rightarrow> DepKey list \<times> DepTracker" where
  "EndCapture l1Key h d = (case h of None \<Rightarrow> ([], d)
     | Some h \<Rightarrow> (captureBufs d ! h, d\<lparr>captures := remove1 (l1Key, h) (captures d)\<rparr>))"

definition replayEdge :: "depCtx \<Rightarrow> gostring \<Rightarrow> DepTracker \<Rightarrow> DepKey \<Rightarrow> DepTracker" where
  "replayEdge ctx dst d e =
     (let d = call (InformerEnsured (dk_GVR e)) d in
      if dk_Name e = listWildcard then RecordList ctx dst (dk_GVR e) (dk_Namespace e) d
      else Record ctx dst (dk_GVR e) (dk_Namespace e) (dk_Name e) d)"

definition ReplayEdges :: "depCtx \<Rightarrow> gostring \<Rightarrow> DepKey list \<Rightarrow> DepTracker \<Rightarrow> DepTracker" where
  "ReplayEdges ctx dst edges d =
     (if dst = [] \<or> dc_inert ctx then d else foldl (replayEdge ctx dst) d edges)"

definition lowerFloor :: "64 word \<Rightarrow> depSink \<Rightarrow> DepKey \<Rightarrow> depSink" where
  "lowerFloor asOf s e = (case map_of (ds_asOf s) e of
       None \<Rightarrow> s\<lparr>ds_asOf := aput (ds_asOf s) e asOf\<rparr>
     | Some cur \<Rightarrow> if asOf < cur then s\<lparr>ds_asOf := aput (ds_asOf s) e asOf\<rparr> else s)"

definition ReplayEdgesAsOf :: "depCtx \<Rightarrow> gostring \<Rightarrow> DepKey list \<Rightarrow> 64 word \<Rightarrow> DepTracker \<Rightarrow> DepTracker" where
  "ReplayEdgesAsOf ctx dst edges asOf d =
     (if dst = [] then d
      else ReplayEdges ctx dst edges
        (foldl (\<lambda>d i. updSink i (\<lambda>s. foldl (lowerFloor asOf) s edges) d) d (dc_sinks ctx)))"

text \<open>Nothing to do when the key's edge set is still the one the resolve recorded into.\<close>

definition ownSetKept :: "gostring \<Rightarrow> depSink \<Rightarrow> DepTracker \<Rightarrow> bool" where
  "ownSetKept key s d = (case ds_ownDS s of None \<Rightarrow> False
     | Some ds \<Rightarrow> \<not> ds_ownStripped s \<and>
         (case map_of (rev_deps d) key of None \<Rightarrow> False | Some cur \<Rightarrow> dse_id cur = ds))"

definition reassertEdges :: "depCtx \<Rightarrow> gostring \<Rightarrow> DepTracker \<Rightarrow> DepTracker" where
  "reassertEdges ctx key d =
     (if key = [] then d
      else case find (\<lambda>i. ds_key (sinks d ! i) = key) (dc_sinks ctx) of None \<Rightarrow> d
      | Some i \<Rightarrow>
          if ownSetKept key (sinks d ! i) d \<or> ds_own (sinks d ! i) = [] then d
          else foldl (\<lambda>d dk. if hasExactEdge key dk d then d
                 else tally ReassertedEdges 1
                   (recordInternalMode True \<lparr>dc_inert = False, dc_key = [], dc_sinks = []\<rparr> key dk d))
               (tally ReassertChecked 1 d) (ownDepsLocked (sinks d ! i)))"

end
