(* ===== verification/DepIndexWf.thy ===== *)
theory DepIndexWf
  imports DepIndex
begin

text \<open>
  The invariant of the dependency tracker (cache/deps.go): the two indexes mirror each other, no bucket
  is empty, the gauges count what they stand for, and no stamp is later than the floor of its resource
  nor a floor later than the event sequence. Every operation keeps it.
\<close>

declare map_of_eq_Some_iff [simp del] split_paired_All [simp del] split_paired_Ex [simp del]

section \<open>The invariant\<close>

definition edgesOf :: "DepTracker \<Rightarrow> gostring \<Rightarrow> DepKey list" where
  "edgesOf d k = (case map_of (rev_deps d) k of None \<Rightarrow> [] | Some ds \<Rightarrow> dse_deps ds)"

definition bucketsOK :: "DepTracker \<Rightarrow> bool" where
  "bucketsOK d \<longleftrightarrow> distinct (map fst (forward d)) \<and>
     (\<forall>dk ks. map_of (forward d) dk = Some ks \<longrightarrow>
        ks_keys ks \<noteq> [] \<and> distinct (ks_keys ks) \<and> ks_count ks = int (length (ks_keys ks)))"

definition stampsOK :: "DepTracker \<Rightarrow> bool" where
  "stampsOK d \<longleftrightarrow> (\<forall>dk ks. map_of (forward d) dk = Some ks \<longrightarrow> ks_lastBumpSeq ks \<le> gvrLastBump d (dk_GVR dk)) \<and>
     (\<forall>g. gvrLastTypeBump d g \<le> gvrLastBump d g \<and> gvrLastBump d g \<le> depEventSeq d)"

definition gaugesOK :: "DepTracker \<Rightarrow> bool" where
  "gaugesOK d \<longleftrightarrow> totalRecords d = sumValues ks_count (forward d) \<and> coordinates d = int (length (forward d)) \<and>
     totalRecords d \<le> maxRecords d"

text \<open>The indexes mirror each other, but for the edges in \<open>rest\<close>, which only the forward index still has.\<close>

definition mirrored :: "(DepKey \<Rightarrow> gostring \<Rightarrow> bool) \<Rightarrow> DepTracker \<Rightarrow> bool" where
  "mirrored rest d \<longleftrightarrow> distinct (map fst (rev_deps d)) \<and>
     (\<forall>dk k. k \<in> set (bucketKeys d dk) \<longleftrightarrow> dk \<in> set (edgesOf d k) \<or> rest dk k) \<and>
     (\<forall>k ds. map_of (rev_deps d) k = Some ds \<longrightarrow> dse_deps ds \<noteq> [] \<and> distinct (dse_deps ds))"

definition depWf :: "DepTracker \<Rightarrow> bool" where
  "depWf d \<longleftrightarrow> bucketsOK d \<and> stampsOK d \<and> gaugesOK d \<and> mirrored (\<lambda>_ _. False) d"

lemmas depWf_defs = depWf_def bucketsOK_def stampsOK_def gaugesOK_def mirrored_def

text \<open>The part of the tracker the invariant is about.\<close>

definition indexOf where
  "indexOf d = (forward d, rev_deps d, gvrLastBump d, gvrLastTypeBump d, totalRecords d, maxRecords d, coordinates d,
     depEventSeq d, nextDepSet d)"

lemma indexOf_cong:
  assumes "indexOf d = indexOf d'"
  shows "depWf d = depWf d'" "depMovedSince dk seq d = depMovedSince dk seq d'" "depEventSeq d = depEventSeq d'"
    "bucketKeys d = bucketKeys d'" "edgesOf d = edgesOf d'" "gvrLastBump d = gvrLastBump d'"
  using assms
  by (simp_all add: indexOf_def depWf_defs bucketKeys_def [abs_def] edgesOf_def [abs_def] depMovedSince_def
      gvrLastBumpSeq_def split: option.split)

section \<open>Steps beside the indexes\<close>

lemma indexOf_side [simp]:
  "indexOf (tally c n d) = indexOf d" "indexOf (call x d) = indexOf d" "indexOf (updSink i f d) = indexOf d"
  "indexOf (tapCapture k dk d) = indexOf d" "indexOf (noteOwn own k d) = indexOf d"
  "indexOf (noteMovedRemark b d) = indexOf d" "indexOf (snd (BeginCapture k d)) = indexOf d"
  "indexOf (snd (EndCapture k h d)) = indexOf d" "indexOf (SetRefreshHook b d) = indexOf d"
  "indexOf (SetRefreshMultiTriggerHook b d) = indexOf d" "indexOf (SetRefreshTriggerMergeHook b d) = indexOf d"
  "indexOf (snd (installSink s ctx d)) = indexOf d"
  "indexOf (d\<lparr>dt_calls := cs\<rparr>) = indexOf d"
  by (simp_all add: indexOf_def tally_def call_def updSink_def tapCapture_def noteOwn_def noteMovedRemark_def
      BeginCapture_def EndCapture_def SetRefreshHook_def SetRefreshMultiTriggerHook_def
      SetRefreshTriggerMergeHook_def installSink_def Let_def split: option.split)

lemma indexOf_fold [simp]:
  "(\<And>d x. indexOf (f d x) = indexOf d) \<Longrightarrow> indexOf (foldl f d xs) = indexOf d"
  by (induction xs arbitrary: d) simp_all

lemma indexOf_sinks [simp]:
  "indexOf (snd (WithDepGenSink ctx d)) = indexOf d"
  "indexOf (snd (WithContentDepGenSink ctx g ns n d)) = indexOf d"
  "indexOf (snd (WithL1KeyContext ctx k d)) = indexOf d"
  "indexOf (snd (WithL1KeyContextFromEpoch ctx k ep pre d)) = indexOf d"
  by (simp_all add: WithDepGenSink_def WithContentDepGenSink_def WithL1KeyContext_def WithL1KeyContextFromEpoch_def
      Let_def)

lemma indexOf_noteSinks [simp]: "indexOf (noteSinks ctx k dk d) = indexOf d"
  by (simp add: noteSinks_def)

lemma indexOf_enqueueRemark [simp]: "indexOf (enqueueRemark k ts d) = indexOf d"
  by (simp add: enqueueRemark_def)

lemma indexOf_remark [simp]:
  "indexOf (remarkIfDepsMovedFrom ctx k b d) = indexOf d" "indexOf (recheckAfterPutRecord i k dk d) = indexOf d"
  by (simp_all add: remarkIfDepsMovedFrom_def recheckAfterPutRecord_def Let_def split: option.split)

section \<open>Recording\<close>

lemma bucketKeys_aput [simp]:
  "bucketKeys (d\<lparr>forward := aput (forward d) dk ks, totalRecords := n\<rparr>) = (bucketKeys d)(dk := ks_keys ks)"
  "bucketKeys (d\<lparr>forward := aput (forward d) dk ks\<rparr>) = (bucketKeys d)(dk := ks_keys ks)"
  by (auto simp: bucketKeys_def)

lemma edgesOf_addReverse:
  "edgesOf (addReverse k dk d) k' =
     (if k' = k \<and> dk \<notin> set (edgesOf d k) then edgesOf d k @ [dk] else edgesOf d k')"
  by (auto simp: addReverse_def edgesOf_def split: option.split)

lemma addReverse_fields [simp]:
  "forward (addReverse k dk d) = forward d" "gvrLastBump (addReverse k dk d) = gvrLastBump d"
  "gvrLastTypeBump (addReverse k dk d) = gvrLastTypeBump d" "totalRecords (addReverse k dk d) = totalRecords d"
  "maxRecords (addReverse k dk d) = maxRecords d" "coordinates (addReverse k dk d) = coordinates d"
  "depEventSeq (addReverse k dk d) = depEventSeq d" "bucketKeys (addReverse k dk d) = bucketKeys d"
  by (simp_all add: addReverse_def bucketKeys_def [abs_def] split: option.split)

lemma addReverse_rev:
  assumes "distinct (map fst (rev_deps d))"
    and "\<forall>k ds. map_of (rev_deps d) k = Some ds \<longrightarrow> dse_deps ds \<noteq> [] \<and> distinct (dse_deps ds)"
  shows "distinct (map fst (rev_deps (addReverse k dk d)))"
    and "\<forall>k' ds. map_of (rev_deps (addReverse k dk d)) k' = Some ds \<longrightarrow> dse_deps ds \<noteq> [] \<and> distinct (dse_deps ds)"
  using assms by (auto simp: addReverse_def split: option.split)

text \<open>What a new edge makes of the indexes.\<close>

lemma addReverse_known: "dk \<in> set (edgesOf d k) \<Longrightarrow> addReverse k dk d = d"
  by (auto simp: addReverse_def edgesOf_def split: option.splits)

lemma mirror_iff: "depWf d \<Longrightarrow> k \<in> set (bucketKeys d dk) \<longleftrightarrow> dk \<in> set (edgesOf d k)"
  by (simp add: depWf_def mirrored_def)

definition edgeBucket :: "gostring \<Rightarrow> DepKey \<Rightarrow> DepTracker \<Rightarrow> keySet" where
  "edgeBucket k dk d = (case map_of (forward d) dk of
       None \<Rightarrow> \<lparr>ks_keys = [k], ks_count = 1, ks_lastBumpSeq = gvrLastBump d (dk_GVR dk)\<rparr>
     | Some ks \<Rightarrow> ks\<lparr>ks_keys := ks_keys ks @ [k], ks_count := ks_count ks + 1\<rparr>)"

definition withEdge :: "gostring \<Rightarrow> DepKey \<Rightarrow> DepTracker \<Rightarrow> DepTracker" where
  "withEdge k dk d = addReverse k dk (d\<lparr>
     coordinates := coordinates d + (if map_of (forward d) dk = None then 1 else 0),
     forward := aput (forward d) dk (edgeBucket k dk d), totalRecords := totalRecords d + 1\<rparr>)"

lemma storeMaxSeq_zero [simp]: "storeMaxSeq 0 v = v"
  by (simp add: storeMaxSeq_def)

lemma indexOf_addReverse: "indexOf (addReverse k dk (tally c n d)) = indexOf (addReverse k dk d)"
  by (simp add: indexOf_def addReverse_def tally_def split: option.split)

text \<open>A record leaves the indexes as they were, or adds exactly the edge.\<close>

lemma insertEdge_effect:
  assumes "depWf d"
  shows "indexOf (insertEdge plain own k dk d) = indexOf d \<or>
    k \<notin> set (bucketKeys d dk) \<and> totalRecords d < maxRecords d \<and>
      indexOf (insertEdge plain own k dk d) = indexOf (withEdge k dk d)"
proof (cases "map_of (forward d) dk")
  case (Some ks)
  have keys: "bucketKeys d dk = ks_keys ks" using Some by (simp add: bucketKeys_def)
  have load: "loadBucket dk d = (ks, True, d)" using Some by (simp add: loadBucket_def)
  consider (known) "k \<in> set (ks_keys ks)" | (full) "k \<notin> set (ks_keys ks)" "totalRecords d \<ge> maxRecords d"
    | (new) "k \<notin> set (ks_keys ks)" "totalRecords d < maxRecords d" by fastforce
  then show ?thesis
  proof cases
    case known
    then have "addReverse k dk d = d" unfolding keys [symmetric] mirror_iff [OF assms] by (rule addReverse_known)
    then show ?thesis using known by (simp add: insertEdge_def load)
  next
    case full
    then have "ks\<lparr>ks_keys := remove1 k (ks_keys ks @ [k])\<rparr> = ks" by (simp add: remove1_append)
    then show ?thesis using full aput_same [OF Some] by (simp add: insertEdge_def load dropAtCap_def)
  next
    case new
    then show ?thesis
      by (simp add: insertEdge_def load commitEdge_def keys withEdge_def edgeBucket_def Some indexOf_addReverse)
  qed
next
  case None
  let ?ks = "\<lparr>ks_keys = [], ks_count = 0, ks_lastBumpSeq = gvrLastBump d (dk_GVR dk)\<rparr>"
  let ?d = "d\<lparr>forward := aput (forward d) dk ?ks, coordinates := coordinates d + 1\<rparr>"
  have load: "loadBucket dk d = (?ks, False, ?d)" using None by (simp add: loadBucket_def Let_def gvrLastBumpSeq_def)
  show ?thesis
  proof (cases "totalRecords d \<ge> maxRecords d")
    case True
    then have "indexOf (insertEdge plain own k dk d) = indexOf d"
      using delete_aput_new [OF None] by (simp add: insertEdge_def load dropAtCap_def Let_def indexOf_def tally_def call_def)
    then show ?thesis ..
  next
    case False
    then show ?thesis using None
      by (simp add: insertEdge_def load commitEdge_def withEdge_def edgeBucket_def indexOf_addReverse bucketKeys_def)
  qed
qed

lemma depWf_withEdge:
  assumes wf: "depWf d" and new: "k \<notin> set (bucketKeys d dk)" and room: "totalRecords d < maxRecords d"
  shows "depWf (withEdge k dk d)"
proof -
  let ?b = "edgeBucket k dk d"
  let ?d = "d\<lparr>coordinates := coordinates d + (if map_of (forward d) dk = None then 1 else 0),
     forward := aput (forward d) dk ?b, totalRecords := totalRecords d + 1\<rparr>"
  have keys: "ks_keys ?b = bucketKeys d dk @ [k]" "ks_count ?b = int (length (ks_keys ?b))"
    "ks_lastBumpSeq ?b \<le> gvrLastBump d (dk_GVR dk)"
    using wf by (auto simp: edgeBucket_def bucketKeys_def depWf_defs split: option.split)
  have dist: "distinct (bucketKeys d dk)" using wf by (auto simp: bucketKeys_def depWf_defs split: option.split)
  have bk: "bucketKeys ?d = (bucketKeys d)(dk := bucketKeys d dk @ [k])"
    using keys(1) by (auto simp: bucketKeys_def fun_eq_iff)
  have "edgesOf ?d = edgesOf d" by (simp add: edgesOf_def [abs_def])
  have "dk \<notin> set (edgesOf d k)" using wf new by (simp add: depWf_def mirrored_def)
  have B: "bucketsOK (withEdge k dk d)"
    using wf keys dist new by (auto simp: withEdge_def depWf_def bucketsOK_def)
  have S: "stampsOK (withEdge k dk d)" using wf keys(3) by (auto simp: withEdge_def depWf_def stampsOK_def)
  have G: "gaugesOK (withEdge k dk d)"
    using wf room by (auto simp: withEdge_def depWf_def gaugesOK_def edgeBucket_def split: option.split)
  have M: "mirrored (\<lambda>_ _. False) (withEdge k dk d)"
  proof -
    have "k' \<in> set (bucketKeys (withEdge k dk d) dk') \<longleftrightarrow> dk' \<in> set (edgesOf (withEdge k dk d) k')" for k' dk'
      using wf new by (auto simp: withEdge_def bk edgesOf_addReverse \<open>edgesOf ?d = edgesOf d\<close> depWf_def mirrored_def)
    moreover have "distinct (map fst (rev_deps (withEdge k dk d)))"
      "\<forall>k' ds. map_of (rev_deps (withEdge k dk d)) k' = Some ds \<longrightarrow> dse_deps ds \<noteq> [] \<and> distinct (dse_deps ds)"
      unfolding withEdge_def using wf by (intro addReverse_rev; auto simp: depWf_def mirrored_def)+
    ultimately show ?thesis by (simp add: mirrored_def)
  qed
  show ?thesis using B S G M by (simp add: depWf_def)
qed

lemma depWf_insertEdge: "depWf d \<Longrightarrow> depWf (insertEdge plain own k dk d)"
  using insertEdge_effect [of d plain own k dk] depWf_withEdge [of d k dk] indexOf_cong(1) by metis

lemma depWf_record: "depWf d \<Longrightarrow> depWf (recordInternalMode plain ctx k dk d)"
proof -
  assume "depWf d"
  then have "depWf (tapCapture k dk (noteSinks ctx k dk d))"
    using indexOf_cong(1) [of d "tapCapture k dk (noteSinks ctx k dk d)"] by simp
  from depWf_insertEdge [OF this] show ?thesis
    unfolding recordInternalMode_def Let_def
    by (auto split: option.split simp: indexOf_cong(1) [OF indexOf_remark(2)])
qed

section \<open>Stamps\<close>

lemma storeMaxSeq_max [simp]: "storeMaxSeq a b = max a b"
  using linear [of a b] by (auto simp: storeMaxSeq_def max_def)

definition stamped :: "64 word \<Rightarrow> DepKey list \<Rightarrow> DepTracker \<Rightarrow> DepKey \<Rightarrow> keySet option" where
  "stamped seq dks d dk = (case map_of (forward d) dk of None \<Rightarrow> None
     | Some ks \<Rightarrow> Some (if dk \<in> set dks then ks\<lparr>ks_lastBumpSeq := max (ks_lastBumpSeq ks) seq\<rparr> else ks))"

lemma stampBucket_fields [simp]:
  "nextDepSet (stampBucket seq d dk) = nextDepSet d"
  "rev_deps (stampBucket seq d dk) = rev_deps d" "gvrLastBump (stampBucket seq d dk) = gvrLastBump d"
  "gvrLastTypeBump (stampBucket seq d dk) = gvrLastTypeBump d" "totalRecords (stampBucket seq d dk) = totalRecords d"
  "maxRecords (stampBucket seq d dk) = maxRecords d" "coordinates (stampBucket seq d dk) = coordinates d"
  "depEventSeq (stampBucket seq d dk) = depEventSeq d" "length (forward (stampBucket seq d dk)) = length (forward d)"
  "sumValues ks_count (forward (stampBucket seq d dk)) = sumValues ks_count (forward d)"
  "bucketKeys (stampBucket seq d dk) = bucketKeys d" "sinks (stampBucket seq d dk) = sinks d"
  "distinct (map fst (forward d)) \<Longrightarrow> distinct (map fst (forward (stampBucket seq d dk)))"
  by (auto simp: stampBucket_def bucketKeys_def fun_eq_iff split: option.split)

lemma foldl_stamp_fields [simp]:
  "nextDepSet (foldl (stampBucket seq) d dks) = nextDepSet d"
  "rev_deps (foldl (stampBucket seq) d dks) = rev_deps d" "gvrLastBump (foldl (stampBucket seq) d dks) = gvrLastBump d"
  "gvrLastTypeBump (foldl (stampBucket seq) d dks) = gvrLastTypeBump d"
  "totalRecords (foldl (stampBucket seq) d dks) = totalRecords d"
  "maxRecords (foldl (stampBucket seq) d dks) = maxRecords d" "coordinates (foldl (stampBucket seq) d dks) = coordinates d"
  "depEventSeq (foldl (stampBucket seq) d dks) = depEventSeq d"
  "length (forward (foldl (stampBucket seq) d dks)) = length (forward d)"
  "sumValues ks_count (forward (foldl (stampBucket seq) d dks)) = sumValues ks_count (forward d)"
  "bucketKeys (foldl (stampBucket seq) d dks) = bucketKeys d" "sinks (foldl (stampBucket seq) d dks) = sinks d"
  "distinct (map fst (forward d)) \<Longrightarrow> distinct (map fst (forward (foldl (stampBucket seq) d dks)))"
  by (induction dks arbitrary: d) simp_all

lemma foldl_stamp: "map_of (forward (foldl (stampBucket seq) d dks)) dk = stamped seq dks d dk"
proof (induction dks arbitrary: d)
  case (Cons a dks)
  then show ?case by (auto simp: stamped_def stampBucket_def split: option.split)
qed (simp add: stamped_def split: option.split)

text \<open>An event: the sequence goes up, then the floor, then the stamps of some buckets.\<close>

definition struckBy :: "GVR \<Rightarrow> bool \<Rightarrow> DepKey list \<Rightarrow> DepTracker \<Rightarrow> DepTracker" where
  "struckBy gvr typeEvent dks d =
     (let d = nextSeq d; seq = depEventSeq d; d = raiseFloor gvr seq d;
          d = (if typeEvent then d\<lparr>gvrLastTypeBump := (gvrLastTypeBump d)(gvr := storeMaxSeq (gvrLastTypeBump d gvr) seq)\<rparr> else d)
      in foldl (stampBucket seq) d dks)"

lemma bump_struck:
  "indexOf (bumpCoordinateGen gvr ns n d) = indexOf (struckBy gvr False (coordinateBuckets gvr ns n) d)"
  "indexOf (bumpResourceTypeGen gvr lo d) = indexOf (struckBy gvr True (typeBuckets gvr lo d) (call (ListCellsUnanchored gvr) d))"
  by (simp_all add: bumpCoordinateGen_def bumpResourceTypeGen_def struckBy_def Let_def typeBuckets_def
      call_def nextSeq_def raiseFloor_def)

lemma struckBy_fields [simp]:
  "rev_deps (struckBy g t dks d) = rev_deps d" "totalRecords (struckBy g t dks d) = totalRecords d"
  "maxRecords (struckBy g t dks d) = maxRecords d" "coordinates (struckBy g t dks d) = coordinates d"
  "depEventSeq (struckBy g t dks d) = depEventSeq d + 1" "bucketKeys (struckBy g t dks d) = bucketKeys d"
  "length (forward (struckBy g t dks d)) = length (forward d)"
  "sumValues ks_count (forward (struckBy g t dks d)) = sumValues ks_count (forward d)"
  "gvrLastBump (struckBy g t dks d) = (gvrLastBump d)(g := max (gvrLastBump d g) (depEventSeq d + 1))"
  "map_of (forward (struckBy g t dks d)) dk = stamped (depEventSeq d + 1) dks d dk"
  "distinct (map fst (forward d)) \<Longrightarrow> distinct (map fst (forward (struckBy g t dks d)))"
  by (simp_all add: struckBy_def Let_def nextSeq_def raiseFloor_def foldl_stamp, simp_all add: stamped_def bucketKeys_def [abs_def])

lemma indexOf_stamp: "indexOf d = indexOf d' \<Longrightarrow> indexOf (stampBucket q d dk) = indexOf (stampBucket q d' dk)"
  by (auto simp: indexOf_def stampBucket_def split: option.splits)

lemma indexOf_foldl_stamp:
  "indexOf d = indexOf d' \<Longrightarrow> indexOf (foldl (stampBucket q) d dks) = indexOf (foldl (stampBucket q) d' dks)"
proof (induction dks arbitrary: d d')
  case (Cons a dks)
  show ?case using Cons.IH [OF indexOf_stamp [OF Cons.prems]] by simp
qed simp

lemma indexOf_struckBy: "indexOf d = indexOf d' \<Longrightarrow> indexOf (struckBy g t dks d) = indexOf (struckBy g t dks d')"
proof -
  assume eq: "indexOf d = indexOf d'"
  define raised where "raised = (\<lambda>d. let d = nextSeq d; d = raiseFloor g (depEventSeq d) d
     in if t then d\<lparr>gvrLastTypeBump := (gvrLastTypeBump d)(g := storeMaxSeq (gvrLastTypeBump d g) (depEventSeq d))\<rparr> else d)"
  have "struckBy g t dks d = foldl (stampBucket (depEventSeq d + 1)) (raised d) dks" for d
    by (simp add: struckBy_def raised_def Let_def nextSeq_def raiseFloor_def)
  moreover have "indexOf (raised d) = indexOf (raised d')"
    using eq by (simp add: raised_def Let_def nextSeq_def raiseFloor_def indexOf_def)
  moreover have "depEventSeq d = depEventSeq d'" using eq by (simp add: indexOf_def)
  ultimately show ?thesis using indexOf_foldl_stamp [of "raised d" "raised d'"] by simp
qed

text \<open>A struck tracker is well-formed unless the sequence wraps around.\<close>

lemma depWf_struckBy:
  assumes wf: "depWf d" and wrap: "depEventSeq d + 1 \<noteq> 0" and own: "\<forall>dk\<in>set dks. dk_GVR dk = gvr"
  shows "depWf (struckBy gvr t dks d)"
proof -
  have up: "depEventSeq d < depEventSeq d + 1" using wrap unatSuc [of "depEventSeq d"] by (simp add: word_less_nat_alt add.commute)
  have floor: "gvrLastBump d g \<le> depEventSeq d + 1" for g
  proof -
    have "gvrLastBump d g \<le> depEventSeq d" using wf by (simp add: depWf_def stampsOK_def)
    then show ?thesis using up by simp
  qed
  have "bucketsOK (struckBy gvr t dks d)"
    using wf by (auto simp: depWf_def bucketsOK_def stamped_def split: option.splits if_splits)
  moreover have "stampsOK (struckBy gvr t dks d)"
  proof -
    have "gvrLastTypeBump (struckBy gvr t dks d) g \<le> gvrLastBump (struckBy gvr t dks d) g \<and>
        gvrLastBump (struckBy gvr t dks d) g \<le> depEventSeq d + 1" for g
      using wf floor [of g] order_trans [OF _ floor, of "gvrLastTypeBump d g" g]
      by (auto simp: depWf_def stampsOK_def struckBy_def Let_def nextSeq_def raiseFloor_def le_max_iff_disj)
    moreover have "ks_lastBumpSeq ks \<le> gvrLastBump (struckBy gvr t dks d) (dk_GVR dk)"
      if k: "stamped (depEventSeq d + 1) dks d dk = Some ks" for dk ks
      using wf own k by (auto simp: stamped_def depWf_def stampsOK_def le_max_iff_disj split: option.splits if_splits)
    ultimately show ?thesis by (simp add: stampsOK_def)
  qed
  moreover have "gaugesOK (struckBy gvr t dks d)" using wf by (simp add: depWf_def gaugesOK_def)
  moreover have "mirrored (\<lambda>_ _. False) (struckBy gvr t dks d)"
    using wf by (simp add: depWf_def mirrored_def edgesOf_def)
  ultimately show ?thesis by (simp add: depWf_def)
qed

section \<open>Removal\<close>

lemma depWf_dropKeyFrom:
  assumes "bucketsOK d" "stampsOK d" "gaugesOK d" "mirrored (\<lambda>dk' k'. k' = k \<and> (dk' = dk \<or> dk' \<in> set rest)) d"
    and "edgesOf d k = []" "dk \<notin> set rest"
  shows "bucketsOK (dropKeyFrom k d dk) \<and> stampsOK (dropKeyFrom k d dk) \<and> gaugesOK (dropKeyFrom k d dk) \<and>
    mirrored (\<lambda>dk' k'. k' = k \<and> dk' \<in> set rest) (dropKeyFrom k d dk) \<and> edgesOf (dropKeyFrom k d dk) k = []"
proof -
  have "k \<in> set (bucketKeys d dk)" using assms(4) by (simp add: mirrored_def)
  then obtain ks where ks: "map_of (forward d) dk = Some ks" "k \<in> set (ks_keys ks)"
    by (cases "map_of (forward d) dk") (auto simp: bucketKeys_def)
  have ok: "distinct (ks_keys ks)" "ks_count ks = int (length (ks_keys ks))" "distinct (map fst (forward d))"
    using assms(1) ks(1) by (auto simp: bucketsOK_def)
  have len: "int (length (remove1 k (ks_keys ks))) = ks_count ks - 1"
    using ks(2) length_pos_if_in_set [OF ks(2)] by (simp only: length_remove1 ok(2) if_True)
  let ?t = "dropKeyFrom k d dk"
  have fwd: "map_of (forward ?t) dk' = (if dk' = dk then (if ks_count ks - 1 = 0 then None
        else Some (ks\<lparr>ks_keys := remove1 k (ks_keys ks), ks_count := ks_count ks - 1\<rparr>)) else map_of (forward d) dk')" for dk'
    using ks by (auto simp: dropKeyFrom_def call_def Let_def delete_conv)
  have rest: "rev_deps ?t = rev_deps d" "gvrLastBump ?t = gvrLastBump d" "gvrLastTypeBump ?t = gvrLastTypeBump d"
    "depEventSeq ?t = depEventSeq d" "maxRecords ?t = maxRecords d" "totalRecords ?t = totalRecords d - 1"
    using ks by (auto simp: dropKeyFrom_def call_def Let_def)
  have one: "ks_count ks - 1 = 0 \<longleftrightarrow> remove1 k (ks_keys ks) = []"
    unfolding len [symmetric] by simp
  have keys: "bucketKeys ?t = (bucketKeys d)(dk := remove1 k (bucketKeys d dk))"
    using one ks(1) by (auto simp: bucketKeys_def fwd fun_eq_iff)
  have B: "bucketsOK ?t"
  proof -
    have "distinct (map fst (forward ?t))"
      using ok(3) ks by (auto simp: dropKeyFrom_def call_def Let_def intro: distinct_delete)
    then show ?thesis using assms(1) ok one len by (auto simp: bucketsOK_def fwd split: if_splits)
  qed
  have G: "gaugesOK ?t"
    using assms(3) ks ok by (auto simp: gaugesOK_def dropKeyFrom_def call_def Let_def sumValues_delete length_delete_key)
  have S: "stampsOK ?t" using assms(2) ks(1) by (auto simp: stampsOK_def fwd rest split: if_splits)
  have db: "distinct (bucketKeys d dk)" using ok(1) ks(1) by (simp add: bucketKeys_def)
  have edges: "edgesOf ?t = edgesOf d" by (simp add: edgesOf_def [abs_def] rest)
  have old: "k' \<in> set (bucketKeys d dk') \<longleftrightarrow> dk' \<in> set (edgesOf d k') \<or> k' = k \<and> (dk' = dk \<or> dk' \<in> set rest)" for k' dk'
    using assms(4) by (simp add: mirrored_def)
  have "k' \<in> set (bucketKeys ?t dk') \<longleftrightarrow> dk' \<in> set (edgesOf ?t k') \<or> k' = k \<and> dk' \<in> set rest" for k' dk'
    using assms(5,6) by (auto simp: keys set_remove1_eq [OF db] old edges)
  then have M: "mirrored (\<lambda>dk' k'. k' = k \<and> dk' \<in> set rest) ?t"
    using assms(4) by (simp add: mirrored_def rest)
  show ?thesis using B S G M assms(5) by (simp add: edgesOf_def rest)
qed

lemma removal_fold:
  assumes "bucketsOK d" "stampsOK d" "gaugesOK d" "mirrored (\<lambda>dk k'. k' = k \<and> dk \<in> set dks) d"
    and "edgesOf d k = []" "distinct dks"
  shows "depWf (foldl (dropKeyFrom k) d dks)"
  using assms
proof (induction dks arbitrary: d)
  case (Cons dk dks)
  then have "mirrored (\<lambda>dk' k'. k' = k \<and> (dk' = dk \<or> dk' \<in> set dks)) d" by simp
  from depWf_dropKeyFrom [OF Cons.prems(1-3) this Cons.prems(5)] Cons show ?case by simp
qed (simp add: depWf_def)

lemma depWf_RemoveL1Key:
  assumes "depWf d"
  shows "depWf (RemoveL1Key k d)"
proof (cases "k = [] \<or> map_of (rev_deps d) k = None")
  case False
  then obtain ds where ds: "map_of (rev_deps d) k = Some ds" "k \<noteq> []" by auto
  let ?d = "call (MemoL1Gone k) (d\<lparr>rev_deps := AList.delete k (rev_deps d)\<rparr>)"
  have e: "edgesOf ?d k' = (if k' = k then [] else edgesOf d k')" for k'
    by (simp add: edgesOf_def call_def delete_conv)
  have b: "bucketKeys ?d = bucketKeys d" by (simp add: bucketKeys_def [abs_def] call_def)
  have ok: "bucketsOK ?d" "stampsOK ?d" "gaugesOK ?d" "distinct (dse_deps ds)"
    using assms ds by (auto simp: depWf_defs call_def)
  moreover have "mirrored (\<lambda>dk k'. k' = k \<and> dk \<in> set (dse_deps ds)) ?d"
  proof -
    have "k' \<in> set (bucketKeys ?d dk) \<longleftrightarrow> dk \<in> set (edgesOf ?d k') \<or> k' = k \<and> dk \<in> set (dse_deps ds)" for k' dk
      using mirror_iff [OF assms, of k' dk] ds(1) unfolding e b by (auto simp: edgesOf_def)
    then show ?thesis using assms by (auto simp: mirrored_def depWf_def call_def delete_conv intro: distinct_delete)
  qed
  ultimately have "depWf (foldl (dropKeyFrom k) ?d (dse_deps ds))" by (intro removal_fold) (simp_all add: e)
  then show ?thesis using ds by (simp add: RemoveL1Key_def indexOf_cong(1) [OF indexOf_side(1)])
qed (use assms in \<open>auto simp: RemoveL1Key_def\<close>)

section \<open>Runs\<close>

text \<open>What the rest of the process asks of the tracker, one call after the other.\<close>

datatype depOp =
    NewSink depCtx
  | NewContentSink depCtx GVR gostring gostring
  | NewKeyScope depCtx gostring
  | NewEpochScope depCtx gostring "64 word" "DepKey list"
  | RecordOp depCtx gostring GVR gostring gostring
  | RecordListOp depCtx gostring GVR gostring
  | NarrowableOp depCtx gostring DepKey
  | Replay depCtx gostring "DepKey list"
  | ReplayAsOf depCtx gostring "DepKey list" "64 word"
  | Reassert depCtx gostring
  | PutCheck depCtx gostring bool
  | RemoveKey gostring
  | OpenCapture gostring
  | CloseCapture gostring "nat option"
  | WireHook bool
  | ObjectMoved GVR gostring gostring
  | TypeMoved GVR bool
  | WireMergeHook bool
  | WireMultiHook bool

fun applyDep :: "depOp \<Rightarrow> DepTracker \<Rightarrow> DepTracker" where
  "applyDep (NewSink ctx) d = snd (WithDepGenSink ctx d)"
| "applyDep (NewContentSink ctx g ns n) d = snd (WithContentDepGenSink ctx g ns n d)"
| "applyDep (NewKeyScope ctx k) d = snd (WithL1KeyContext ctx k d)"
| "applyDep (NewEpochScope ctx k e pre) d = snd (WithL1KeyContextFromEpoch ctx k e pre d)"
| "applyDep (RecordOp ctx k g ns n) d = Record ctx k g ns n d"
| "applyDep (RecordListOp ctx k g ns) d = RecordList ctx k g ns d"
| "applyDep (NarrowableOp ctx k dk) d = recordInternalMode False ctx k dk d"
| "applyDep (Replay ctx k es) d = ReplayEdges ctx k es d"
| "applyDep (ReplayAsOf ctx k es a) d = ReplayEdgesAsOf ctx k es a d"
| "applyDep (Reassert ctx k) d = reassertEdges ctx k d"
| "applyDep (PutCheck ctx k b) d = remarkIfDepsMovedFrom ctx k b d"
| "applyDep (RemoveKey k) d = RemoveL1Key k d"
| "applyDep (OpenCapture k) d = snd (BeginCapture k d)"
| "applyDep (CloseCapture k h) d = snd (EndCapture k h d)"
| "applyDep (WireHook h) d = SetRefreshHook h d"
| "applyDep (ObjectMoved g ns n) d = bumpCoordinateGen g ns n d"
| "applyDep (TypeMoved g lo) d = bumpResourceTypeGen g lo d"
| "applyDep (WireMergeHook h) d = SetRefreshTriggerMergeHook h d"
| "applyDep (WireMultiHook h) d = SetRefreshMultiTriggerHook h d"

definition runDep :: "depOp list \<Rightarrow> DepTracker \<Rightarrow> DepTracker" where
  "runDep ops d = foldl (\<lambda>d a. applyDep a d) d ops"

lemma coordinateBuckets_gvr: "dk \<in> set (coordinateBuckets g ns n) \<Longrightarrow> dk_GVR dk = g"
  by (auto simp: coordinateBuckets_def split: if_splits)

lemma typeBuckets_gvr: "dk \<in> set (typeBuckets g lo d) \<Longrightarrow> dk_GVR dk = g"
  by (simp add: typeBuckets_def)

text \<open>
  An operation is a record (or several), a removal, an event, or leaves the indexes alone: a property
  that these steps keep is kept by every operation.
\<close>

lemma op_induct:
  assumes "P d"
    and cong: "\<And>d d'. indexOf d = indexOf d' \<Longrightarrow> P d \<Longrightarrow> P d'"
    and rec: "\<And>plain ctx k dk d. P d \<Longrightarrow> P (recordInternalMode plain ctx k dk d)"
    and remove: "\<And>k d. P d \<Longrightarrow> P (RemoveL1Key k d)"
    and event: "\<And>g t dks. \<forall>dk\<in>set dks. dk_GVR dk = g \<Longrightarrow> (\<exists>ns n. a = ObjectMoved g ns n) \<or> (\<exists>lo. a = TypeMoved g lo) \<Longrightarrow>
       P (struckBy g t dks d)"
  shows "P (applyDep a d)"
proof -
  have side: "P (f d)" if "\<And>d. indexOf (f d) = indexOf d" "P d" for f d
    using cong [of d "f d"] that by simp
  have side': "P d'" if "indexOf d' = indexOf d" for d' using cong [of d d'] that assms(1) by simp
  have fold: "P (foldl f d xs)" if "\<And>d x. P d \<Longrightarrow> P (f d x)" "P d" for f :: "DepTracker \<Rightarrow> 'x \<Rightarrow> DepTracker" and d xs
    using that by (induction xs arbitrary: d) simp_all
  have recs: "P (Record ctx k g ns n d)" "P (RecordList ctx k g ns d)" if "P d" for ctx k g ns n d
    using that rec side [of "tally RecordDroppedNoKey 1"]
    by (simp_all add: Record_def RecordList_def recordInternal_def)
  have replay: "P (ReplayEdges ctx k es d)" if "P d" for ctx k es d
    unfolding ReplayEdges_def using that
    by (auto intro!: fold recs side [of "call _"] simp: replayEdge_def Let_def)
  show ?thesis
  proof (cases a)
    case (ReplayAsOf ctx k es q)
    have "P (foldl (\<lambda>d i. updSink i (\<lambda>s. foldl (lowerFloor q) s es) d) d (dc_sinks ctx))"
      by (rule fold [OF _ assms(1)]) (rule side [of "updSink _ _"], simp_all)
    then show ?thesis using ReplayAsOf assms(1) replay by (simp add: ReplayEdgesAsOf_def)
  next
    case (Reassert ctx k)
    have "P (foldl (\<lambda>d dk. if hasExactEdge k dk d then d
        else tally ReassertedEdges 1 (recordInternalMode True \<lparr>dc_inert = False, dc_key = [], dc_sinks = []\<rparr> k dk d)) d' xs)"
      if "P d'" for d' xs
      by (rule fold [OF _ that]) (auto intro: side [of "tally _ _"] rec)
    then show ?thesis using Reassert assms(1) side [of "tally ReassertChecked 1"]
      by (auto simp: reassertEdges_def split: option.split)
  next
    case (ObjectMoved g ns n)
    then have "P (struckBy g False (coordinateBuckets g ns n) d)" by (intro event) (auto dest: coordinateBuckets_gvr)
    then show ?thesis using cong bump_struck(1) ObjectMoved by (metis applyDep.simps(16))
  next
    case (TypeMoved g lo)
    then have "P (struckBy g True (typeBuckets g lo d) d)" by (intro event) (auto dest: typeBuckets_gvr)
    moreover have "indexOf (struckBy g True dks (call x d)) = indexOf (struckBy g True dks d)" for x dks
      by (rule indexOf_struckBy) simp
    ultimately show ?thesis using cong bump_struck(2) TypeMoved by (metis applyDep.simps(17))
  qed (use assms(1) in \<open>auto intro: side' recs replay remove rec\<close>)
qed

end
