(* ===== verification/DepMoved.thy ===== *)
theory DepMoved
  imports DepIndexWf
begin

text \<open>
  What the dependency tracker (cache/deps.go) promises over any run of its operations: the invariant,
  and that no event between the entry of a resolve and its accepted write is missed by the check of
  that write, whatever was recorded, removed or pruned in between.
\<close>

section \<open>One operation\<close>

lemma indexOf_withEdge: "indexOf d = indexOf d' \<Longrightarrow> indexOf (withEdge k dk d) = indexOf (withEdge k dk d')"
  by (auto simp: indexOf_def withEdge_def edgeBucket_def addReverse_def split: option.splits)

lemma record_effect:
  assumes "depWf d"
  shows "indexOf (recordInternalMode plain ctx k dk d) = indexOf d \<or>
    k \<notin> set (bucketKeys d dk) \<and> totalRecords d < maxRecords d \<and>
      indexOf (recordInternalMode plain ctx k dk d) = indexOf (withEdge k dk d)"
proof -
  let ?d = "tapCapture k dk (noteSinks ctx k dk d)"
  have eq: "indexOf ?d = indexOf d" by simp
  have "depWf ?d" using assms indexOf_cong(1) [OF eq] by simp
  moreover have "indexOf (recordInternalMode plain ctx k dk d) = indexOf (insertEdge plain (ownSink ctx k ?d) k dk ?d)"
    unfolding recordInternalMode_def Let_def by (auto split: option.split)
  ultimately show ?thesis
    using insertEdge_effect [of ?d plain "ownSink ctx k ?d" k dk] eq indexOf_withEdge [OF eq, of k dk] indexOf_cong(4) [OF eq]
    by (auto simp: indexOf_def)
qed

lemma withEdge_fields [simp]:
  "gvrLastBump (withEdge k dk d) = gvrLastBump d" "depEventSeq (withEdge k dk d) = depEventSeq d"
  "map_of (forward (withEdge k dk d)) dk' = (if dk' = dk then Some (edgeBucket k dk d) else map_of (forward d) dk')"
  by (auto simp: withEdge_def)

lemma dropKeyFrom_stamps:
  "gvrLastBump (dropKeyFrom k d dk) = gvrLastBump d \<and> depEventSeq (dropKeyFrom k d dk) = depEventSeq d \<and>
   (map_of (forward (dropKeyFrom k d dk)) dk' = None \<or>
     (\<exists>ks ks'. map_of (forward d) dk' = Some ks \<and> map_of (forward (dropKeyFrom k d dk)) dk' = Some ks' \<and>
        ks_lastBumpSeq ks' = ks_lastBumpSeq ks))"
  by (cases "map_of (forward d) dk'") (auto simp: dropKeyFrom_def call_def Let_def delete_conv split: option.split)

text \<open>A removal leaves every stamp it does not prune.\<close>

definition stampsKept :: "DepTracker \<Rightarrow> DepTracker \<Rightarrow> bool" where
  "stampsKept d d' \<longleftrightarrow> gvrLastBump d' = gvrLastBump d \<and> depEventSeq d' = depEventSeq d \<and>
     (\<forall>dk ks'. map_of (forward d') dk = Some ks' \<longrightarrow>
        (\<exists>ks. map_of (forward d) dk = Some ks \<and> ks_lastBumpSeq ks' = ks_lastBumpSeq ks))"

lemma stampsKept_refl: "stampsKept d d"
  by (simp add: stampsKept_def)

lemma stampsKept_trans: "stampsKept d d' \<Longrightarrow> stampsKept d' d'' \<Longrightarrow> stampsKept d d''"
  unfolding stampsKept_def by metis

lemma stampsKept_RemoveL1Key: "stampsKept d (RemoveL1Key k d)"
proof -
  have drop: "stampsKept d (dropKeyFrom k d dk)" for d dk
    using dropKeyFrom_stamps [of k d dk] unfolding stampsKept_def by (metis option.distinct(1) option.inject)
  have "stampsKept d (foldl (dropKeyFrom k) d dks)" for d dks
    by (induction dks arbitrary: d) (auto intro: stampsKept_refl stampsKept_trans drop)
  note fold = this
  have "stampsKept d (tally c n (foldl (dropKeyFrom k) (call x (d\<lparr>rev_deps := r\<rparr>)) dks))" for c n x r dks
    using fold [of "call x (d\<lparr>rev_deps := r\<rparr>)" dks] by (simp add: stampsKept_def tally_def call_def)
  then show ?thesis by (simp add: RemoveL1Key_def stampsKept_refl split: option.split)
qed

section \<open>The invariant over a run\<close>

definition atSeq :: "64 word \<Rightarrow> DepTracker \<Rightarrow> bool" where
  "atSeq q d \<longleftrightarrow> depWf d \<and> depEventSeq d \<in> {q, q + 1}"

lemma atSeq_op:
  assumes "depWf d" "depEventSeq d + 1 \<noteq> 0"
  shows "atSeq (depEventSeq d) (applyDep a d)"
proof (rule op_induct [where P = "atSeq (depEventSeq d)"])
  show "atSeq (depEventSeq d) d" using assms(1) by (simp add: atSeq_def)
  show "atSeq q d''" if "indexOf d' = indexOf d''" "atSeq q d'" for q d' d''
    using that(2) indexOf_cong(1,3) [OF that(1)] by (simp add: atSeq_def)
  show "atSeq q (recordInternalMode plain ctx k dk d')" if "atSeq q d'" for q plain ctx k dk d'
    using that depWf_record [of d' plain ctx k dk] record_effect [of d' plain ctx k dk]
    by (auto simp: atSeq_def indexOf_def)
  show "atSeq q (RemoveL1Key k d')" if "atSeq q d'" for q k d'
    using that depWf_RemoveL1Key [of d' k] stampsKept_RemoveL1Key [of d' k] by (simp add: atSeq_def stampsKept_def)
  show "atSeq (depEventSeq d) (struckBy g t dks d)" if "\<forall>dk\<in>set dks. dk_GVR dk = g" for g t dks
    using depWf_struckBy [OF assms that] by (simp add: atSeq_def)
qed

lemma runDep_Cons: "runDep (a # ops) d = runDep ops (applyDep a d)"
  by (simp add: runDep_def)

lemma runDep_append: "runDep (xs @ ys) d = runDep ys (runDep xs d)"
  by (simp add: runDep_def)

text \<open>Fewer than \<open>2 ^ 64\<close> events: the sequence does not wrap around.\<close>

lemma atSeq_unat: "atSeq q d \<Longrightarrow> q + 1 \<noteq> 0 \<Longrightarrow> depWf d \<and> unat (depEventSeq d) \<le> Suc (unat q) \<and> q \<le> depEventSeq d"
  using unatSuc [of q] by (auto simp: atSeq_def add.commute word_le_nat_alt)

lemma no_wrap: "unat (q :: 64 word) + Suc n < 2 ^ 64 \<Longrightarrow> q + 1 \<noteq> 0"
proof
  assume "unat q + Suc n < 2 ^ 64" "q + 1 = 0"
  then have "q = - 1" by (simp add: eq_neg_iff_add_eq_0)
  with \<open>unat q + Suc n < 2 ^ 64\<close> show False by (simp add: unsigned_minus_1_eq_mask mask_eq_exp_minus_1)
qed

lemma runDep_wf:
  assumes "depWf d" "unat (depEventSeq d) + length ops < 2 ^ 64"
  shows "depWf (runDep ops d) \<and> unat (depEventSeq (runDep ops d)) \<le> unat (depEventSeq d) + length ops \<and>
    depEventSeq d \<le> depEventSeq (runDep ops d)"
  using assms
proof (induction ops arbitrary: d)
  case (Cons a ops)
  have nw: "depEventSeq d + 1 \<noteq> 0" using Cons.prems(2) by (intro no_wrap [of _ "length ops"]) simp
  have a: "depWf (applyDep a d)" "unat (depEventSeq (applyDep a d)) \<le> Suc (unat (depEventSeq d))"
    "depEventSeq d \<le> depEventSeq (applyDep a d)"
    using atSeq_unat [OF atSeq_op [OF Cons.prems(1) nw, of a] nw] by auto
  with Cons.IH [OF a(1)] Cons.prems(2) show ?case by (auto simp: runDep_Cons intro: order_trans)
qed (simp add: runDep_def)

lemma depWf_newDepTracker: "depWf (newDepTracker n)"
  by (simp add: depWf_defs newDepTracker_def bucketKeys_def edgesOf_def defaultDepsMaxRecords_def)

section \<open>A move stays visible\<close>

text \<open>An event on the bucket's resource after \<open>q\<close> is in the floor, and in the bucket when there is one.\<close>

definition movedSince :: "DepKey \<Rightarrow> 64 word \<Rightarrow> DepTracker \<Rightarrow> bool" where
  "movedSince dk q d \<longleftrightarrow> depWf d \<and> q < gvrLastBump d (dk_GVR dk) \<and>
     (\<forall>ks. map_of (forward d) dk = Some ks \<longrightarrow> q < ks_lastBumpSeq ks)"

lemma movedSince_moved: "movedSince dk q d \<Longrightarrow> depMovedSince dk q d"
  by (simp add: movedSince_def depMovedSince_def gvrLastBumpSeq_def split: option.split)

lemma movedSince_op:
  assumes "movedSince dk q d" "depEventSeq d + 1 \<noteq> 0"
  shows "movedSince dk q (applyDep a d)"
proof (rule op_induct [where P = "movedSince dk q"])
  show "movedSince dk q d" by fact
  show "movedSince dk q d''" if "indexOf d' = indexOf d''" "movedSince dk q d'" for d' d''
    using that(2) indexOf_cong(1) [OF that(1)] that(1) by (simp add: movedSince_def indexOf_def)
  show "movedSince dk q (recordInternalMode plain ctx k dk' d')" if m: "movedSince dk q d'" for plain ctx k dk' d'
  proof -
    have w: "depWf d'" using m by (simp add: movedSince_def)
    have "movedSince dk q (withEdge k dk' d')" if "depWf (withEdge k dk' d')"
      using m that by (auto simp: movedSince_def edgeBucket_def split: option.splits)
    then show ?thesis using m depWf_record [OF w, of plain ctx k dk'] record_effect [OF w, of plain ctx k dk']
      by (auto simp: movedSince_def indexOf_def depWf_withEdge [OF w])
  qed
  show "movedSince dk q (RemoveL1Key k d')" if "movedSince dk q d'" for k d'
    using that depWf_RemoveL1Key [of d' k] stampsKept_RemoveL1Key [of d' k]
    by (fastforce simp: movedSince_def stampsKept_def)
  show "movedSince dk q (struckBy g t dks d)" if "\<forall>dk\<in>set dks. dk_GVR dk = g" for g t dks
    using assms depWf_struckBy [OF _ assms(2) that, of t]
    by (auto simp: movedSince_def stamped_def less_max_iff_disj split: option.splits)
qed

lemma movedSince_run:
  "movedSince dk q d \<Longrightarrow> unat (depEventSeq d) + length ops < 2 ^ 64 \<Longrightarrow> movedSince dk q (runDep ops d)"
proof (induction ops arbitrary: d)
  case (Cons a ops)
  have w: "depWf d" using Cons.prems(1) by (simp add: movedSince_def)
  have nw: "depEventSeq d + 1 \<noteq> 0" using Cons.prems(2) by (intro no_wrap [of _ "length ops"]) simp
  have "unat (depEventSeq (applyDep a d)) \<le> Suc (unat (depEventSeq d))" using atSeq_unat [OF atSeq_op [OF w nw, of a] nw] by simp
  then show ?case using Cons.IH [OF movedSince_op [OF Cons.prems(1) nw, of a]] Cons.prems(2) by (simp add: runDep_Cons)
qed (simp add: runDep_def)

text \<open>Which operation is an event that reaches a bucket.\<close>

definition reaches :: "depOp \<Rightarrow> DepKey \<Rightarrow> bool" where
  "reaches a dk \<longleftrightarrow> (\<exists>g ns n. a = ObjectMoved g ns n \<and> dk \<in> set (coordinateBuckets g ns n)) \<or>
     (\<exists>g lo. a = TypeMoved g lo \<and> dk_GVR dk = g \<and> (lo \<longrightarrow> dk_Name dk = listWildcard))"

lemma movedSince_event:
  assumes "depWf d" "depEventSeq d + 1 \<noteq> 0" "reaches a dk" "q \<le> depEventSeq d"
  shows "movedSince dk q (applyDep a d)"
proof -
  have "depEventSeq d < depEventSeq d + 1"
    using assms(2) unatSuc [of "depEventSeq d"] by (simp add: word_less_nat_alt add.commute)
  then have q: "q < depEventSeq d + 1" using assms(4) by simp
  have struck: "movedSince dk q (struckBy (dk_GVR dk) t dks d)"
    if "\<forall>dk'\<in>set dks. dk_GVR dk' = dk_GVR dk" "dk \<in> set dks \<or> map_of (forward d) dk = None" for t dks
    using depWf_struckBy [OF assms(1,2) that(1), of t] q that(2)
    by (auto simp: movedSince_def stamped_def less_max_iff_disj split: option.splits)
  have cong: "movedSince dk q d''" if "indexOf d'' = indexOf d'" "movedSince dk q d'" for d' d''
    using that(2) indexOf_cong(1) [OF that(1)] that(1) by (simp add: movedSince_def indexOf_def)
  from assms(3) consider (obj) g ns n where "a = ObjectMoved g ns n" "dk \<in> set (coordinateBuckets g ns n)"
    | (type) lo where "a = TypeMoved (dk_GVR dk) lo" "lo \<longrightarrow> dk_Name dk = listWildcard"
    unfolding reaches_def by blast
  then show ?thesis
  proof cases
    case obj
    then have "dk_GVR dk = g" by (simp add: coordinateBuckets_gvr)
    then show ?thesis using cong [OF bump_struck(1)] struck [of "coordinateBuckets g ns n" False] obj
      by (simp add: coordinateBuckets_gvr)
  next
    case type
    have "dk \<in> set (typeBuckets (dk_GVR dk) lo d) \<or> map_of (forward d) dk = None"
      using type(2) by (cases "map_of (forward d) dk") (auto simp: typeBuckets_def rev_image_eqI dest!: map_of_SomeD)
    from struck [OF _ this, of True] have "movedSince dk q (struckBy (dk_GVR dk) True (typeBuckets (dk_GVR dk) lo d) d)"
      by (simp add: typeBuckets_gvr)
    then show ?thesis using cong [OF bump_struck(2)] cong [OF indexOf_struckBy [OF indexOf_side(2)]] type(1) by simp
  qed
qed

lemma event_stays_visible:
  assumes "depWf d" "unat (depEventSeq d) + length ops < 2 ^ 64" "a \<in> set ops" "reaches a dk" "q \<le> depEventSeq d"
  shows "movedSince dk q (runDep ops d)"
proof -
  obtain xs ys where ops: "ops = xs @ a # ys" using split_list [OF assms(3)] by blast
  let ?x = "runDep xs d"
  have x: "depWf ?x" "unat (depEventSeq ?x) \<le> unat (depEventSeq d) + length xs" "depEventSeq d \<le> depEventSeq ?x"
    using runDep_wf [OF assms(1), of xs] assms(2) ops by auto
  have nw: "depEventSeq ?x + 1 \<noteq> 0" using x(2) assms(2) ops by (intro no_wrap [of _ "length ys"]) simp
  have "movedSince dk q (applyDep a ?x)" using movedSince_event [OF x(1) nw assms(4)] assms(5) x(3) by simp
  moreover have "unat (depEventSeq (applyDep a ?x)) \<le> Suc (unat (depEventSeq ?x))"
    using atSeq_unat [OF atSeq_op [OF x(1) nw, of a] nw] by simp
  ultimately show ?thesis using movedSince_run [of dk q "applyDep a ?x" ys] x(2) assms(2) ops
    by (simp add: runDep_append runDep_Cons)
qed

section \<open>Sinks\<close>

text \<open>A sink keeps its start and never forgets a dependency.\<close>

definition sinksKept :: "DepTracker \<Rightarrow> DepTracker \<Rightarrow> bool" where
  "sinksKept d d' \<longleftrightarrow> length (sinks d) \<le> length (sinks d') \<and>
     (\<forall>i < length (sinks d). ds_startSeq (sinks d' ! i) = ds_startSeq (sinks d ! i) \<and>
        set (ds_deps (sinks d ! i)) \<subseteq> set (ds_deps (sinks d' ! i)))"

lemma sinksKept_refl [simp]: "sinksKept d d"
  by (simp add: sinksKept_def)

lemma sinksKept_trans [trans]:
  assumes "sinksKept d d'" "sinksKept d' d''"
  shows "sinksKept d d''"
proof -
  have "ds_startSeq (sinks d'' ! i) = ds_startSeq (sinks d ! i)"
    "set (ds_deps (sinks d ! i)) \<subseteq> set (ds_deps (sinks d'' ! i))" if "i < length (sinks d)" for i
    using assms that unfolding sinksKept_def by (metis order.strict_trans2, meson order.strict_trans2 order_trans)
  then show ?thesis using assms by (auto simp: sinksKept_def)
qed

lemma sinksKept_same: "sinks d' = sinks d \<Longrightarrow> sinksKept d d'"
  by (simp add: sinksKept_def)

lemma sinksKept_updSink:
  "(\<And>s. ds_startSeq (f s) = ds_startSeq s \<and> set (ds_deps s) \<subseteq> set (ds_deps (f s))) \<Longrightarrow> sinksKept d (updSink i f d)"
  by (cases "i < length (sinks d)") (auto simp: sinksKept_def updSink_def nth_list_update list_update_beyond)

lemma sinksKept_foldl: "(\<And>d x. sinksKept d (f d x)) \<Longrightarrow> sinksKept d (foldl f d xs)"
  by (induction xs arbitrary: d) (auto intro: sinksKept_trans)

lemma sinks_side [simp]:
  "sinks (tally c n d) = sinks d" "sinks (call x d) = sinks d" "sinks (tapCapture k dk d) = sinks d"
  "sinks (addReverse k dk d) = sinks d" "sinks (noteMovedRemark b d) = sinks d"
  "sinks (dropKeyFrom k d dk) = sinks d" "sinks (nextSeq d) = sinks d" "sinks (raiseFloor g q d) = sinks d"
  by (simp_all add: tally_def call_def tapCapture_def addReverse_def noteMovedRemark_def dropKeyFrom_def Let_def
      nextSeq_def raiseFloor_def split: option.split)

lemma sinks_enqueueRemark [simp]: "sinks (enqueueRemark k ts d) = sinks d"
proof -
  have "sinks (foldl (\<lambda>d g. call (MergeTrigger k g) d) d gs) = sinks d" for gs
    by (induction gs arbitrary: d) simp_all
  then show ?thesis by (simp add: enqueueRemark_def)
qed

lemma sinksKept_noteOwn: "sinksKept d (noteOwn own k d)"
  by (auto simp: noteOwn_def noteOwnDepSet_def intro!: sinksKept_updSink split: option.split)

lemma sinksKept_noteSinks: "sinksKept d (noteSinks ctx k dk d)"
  unfolding noteSinks_def
  by (rule sinksKept_foldl, rule sinksKept_updSink) (auto simp: Let_def addDepLocked_def addOwnLocked_def)

lemma sinksKept_recheck: "sinksKept d (recheckAfterPutRecord i k dk d)"
proof -
  have "sinksKept d (updSink i (\<lambda>s. s\<lparr>ds_putRemarked := True\<rparr>) d)" by (rule sinksKept_updSink) simp
  then show ?thesis by (simp add: recheckAfterPutRecord_def Let_def sinksKept_def)
qed

lemma sinksKept_insertEdge: "sinksKept d (insertEdge plain own k dk d)"
proof -
  obtain ks b d' where l: "loadBucket dk d = (ks, b, d')" by (cases "loadBucket dk d")
  then have l': "sinks d' = sinks d" by (auto simp: loadBucket_def Let_def split: option.splits)
  have s: "sinksKept d d''" if "sinks d'' = sinks d" for d'' using that by (rule sinksKept_same)
  have n: "sinksKept d (noteOwn own k d'')" if "sinks d'' = sinks d" for d''
    using sinksKept_trans [OF s [OF that] sinksKept_noteOwn] .
  show ?thesis using l'
    by (auto simp: insertEdge_def l dropAtCap_def commitEdge_def Let_def intro!: s n)
qed

lemma sinksKept_record: "sinksKept d (recordInternalMode plain ctx k dk d)"
proof -
  let ?a = "tapCapture k dk (noteSinks ctx k dk d)"
  have "sinksKept d ?a" using sinksKept_trans [OF sinksKept_noteSinks sinksKept_same] by simp
  from sinksKept_trans [OF this sinksKept_insertEdge, of plain "ownSink ctx k ?a" k dk]
  show ?thesis unfolding recordInternalMode_def Let_def
    by (auto split: option.split intro: sinksKept_trans sinksKept_recheck)
qed

lemma sinksKept_struck: "sinks (struckBy g t dks d) = sinks d"
  by (simp add: struckBy_def Let_def)

lemma sinksKept_events: "sinks (bumpCoordinateGen g ns n d) = sinks d" "sinks (bumpResourceTypeGen g lo d) = sinks d"
  by (simp_all add: bumpCoordinateGen_def bumpResourceTypeGen_def Let_def)

lemma sinksKept_putCheck: "sinksKept d (remarkIfDepsMovedFrom ctx k b d)"
proof (cases "k = [] \<or> sinkFromContext ctx = None")
  case False
  then obtain i where i: "sinkFromContext ctx = Some i" "k \<noteq> []" by auto
  let ?d = "updSink i (\<lambda>s. s\<lparr>ds_putKey := k, ds_checkedSeq := depEventSeq d, ds_putRemarked := False, ds_putBoot := b\<rparr>) d"
  have "sinksKept d ?d" by (rule sinksKept_updSink) simp
  moreover have "sinksKept d' (updSink i (\<lambda>s. s\<lparr>ds_putRemarked := True\<rparr>) d')" for d' by (rule sinksKept_updSink) simp
  ultimately have "sinksKept d (updSink i (\<lambda>s. s\<lparr>ds_putRemarked := True\<rparr>) ?d)" by (rule sinksKept_trans)
  with \<open>sinksKept d ?d\<close> show ?thesis using i
    by (auto simp: remarkIfDepsMovedFrom_def Let_def intro: sinksKept_trans [OF _ sinksKept_same])
qed (auto simp: remarkIfDepsMovedFrom_def intro: sinksKept_same)

lemma sinksKept_op: "sinksKept d (applyDep a d)"
proof -
  have inst: "sinksKept d (snd (installSink s ctx d))" for s ctx
    by (auto simp: installSink_def sinksKept_def nth_append)
  have tl: "sinksKept d (tally c n d)" for c n d by (rule sinksKept_same) simp
  have recs: "sinksKept d (Record ctx k g ns n d)" "sinksKept d (RecordList ctx k g ns d)" for ctx k g ns n d
    by (simp_all add: Record_def RecordList_def recordInternal_def sinksKept_record tl)
  have replay: "sinksKept d (ReplayEdges ctx k es d)" for ctx k es d
    unfolding ReplayEdges_def replayEdge_def Let_def
    by (auto intro!: sinksKept_foldl sinksKept_trans [OF sinksKept_same recs(1)] sinksKept_trans [OF sinksKept_same recs(2)])
  have low: "ds_startSeq (foldl (lowerFloor q) s es) = ds_startSeq s \<and> ds_deps (foldl (lowerFloor q) s es) = ds_deps s" for q s es
    by (induction es arbitrary: s) (auto simp: lowerFloor_def split: option.splits)
  show ?thesis
  proof (cases a)
    case (ReplayAsOf ctx k es q)
    have "sinksKept d (foldl (\<lambda>d i. updSink i (\<lambda>s. foldl (lowerFloor q) s es) d) d (dc_sinks ctx))"
      by (rule sinksKept_foldl, rule sinksKept_updSink) (simp add: low)
    then show ?thesis using ReplayAsOf sinksKept_trans [OF _ replay] by (simp add: ReplayEdgesAsOf_def)
  next
    case (Reassert ctx k)
    have "sinksKept d (foldl (\<lambda>d dk. if hasExactEdge k dk d then d
        else tally ReassertedEdges 1 (recordInternalMode True \<lparr>dc_inert = False, dc_key = [], dc_sinks = []\<rparr> k dk d)) d xs)" for d xs
      by (rule sinksKept_foldl) (auto intro: sinksKept_trans [OF sinksKept_record tl])
    from sinksKept_trans [OF tl this] show ?thesis unfolding Reassert applyDep.simps reassertEdges_def
      by (simp split: option.split)
  next
    case (PutCheck ctx k b)
    then show ?thesis by (simp add: sinksKept_putCheck)
  next
    case (RemoveKey k)
    have "sinks (foldl (dropKeyFrom k) d dks) = sinks d" for d dks by (induction dks arbitrary: d) simp_all
    then show ?thesis using RemoveKey by (auto simp: RemoveL1Key_def Let_def intro!: sinksKept_same split: option.split)
  qed (auto simp: recs replay sinksKept_record sinksKept_events WithDepGenSink_def WithContentDepGenSink_def WithL1KeyContext_def
      WithL1KeyContextFromEpoch_def Let_def BeginCapture_def EndCapture_def SetRefreshHook_def SetRefreshMultiTriggerHook_def SetRefreshTriggerMergeHook_def
      intro!: inst tl intro: sinksKept_same split: option.split)
qed

lemma sinksKept_run: "sinksKept d (runDep ops d)"
  by (induction ops arbitrary: d) (auto simp: runDep_Cons runDep_def intro: sinksKept_trans sinksKept_op)

section \<open>The check of an accepted write\<close>

text \<open>Which operation is a record that reaches the sink \<open>i\<close>.\<close>

definition recordsUnder :: "nat \<Rightarrow> DepKey \<Rightarrow> depOp \<Rightarrow> bool" where
  "recordsUnder i dk a = (case a of
       RecordOp ctx k g ns n \<Rightarrow> \<not> dc_inert ctx \<and> k \<noteq> [] \<and> n \<noteq> [] \<and> i \<in> set (dc_sinks ctx) \<and>
         dk = \<lparr>dk_GVR = g, dk_Namespace = ns, dk_Name = n\<rparr>
     | RecordListOp ctx k g ns \<Rightarrow> \<not> dc_inert ctx \<and> k \<noteq> [] \<and> i \<in> set (dc_sinks ctx) \<and>
         dk = \<lparr>dk_GVR = g, dk_Namespace = ns, dk_Name = listWildcard\<rparr>
     | NarrowableOp ctx k dk' \<Rightarrow> i \<in> set (dc_sinks ctx) \<and> dk = dk'
     | _ \<Rightarrow> False)"

lemma noteSinks_adds:
  assumes "i \<in> set (dc_sinks ctx)" "i < length (sinks d)"
  shows "dk \<in> set (ds_deps (sinks (noteSinks ctx k dk d) ! i))"
proof -
  let ?f = "\<lambda>s. let s = addDepLocked dk s in if ds_key s \<noteq> [] \<and> ds_key s = k then addOwnLocked dk s else s"
  have adds: "dk \<in> set (ds_deps (?f s))" "ds_startSeq (?f s) = ds_startSeq s" "set (ds_deps s) \<subseteq> set (ds_deps (?f s))" for s
    by (auto simp: Let_def addDepLocked_def addOwnLocked_def)
  have "dk \<in> set (ds_deps (sinks (foldl (\<lambda>d i. updSink i ?f d) d is') ! i))"
    if "i \<in> set is' \<or> dk \<in> set (ds_deps (sinks d ! i))" "i < length (sinks d)" for is'
    using that
  proof (induction is' arbitrary: d)
    case (Cons j is')
    have kept: "sinksKept d (updSink j ?f d)" by (rule sinksKept_updSink) (use adds in blast)
    have "dk \<in> set (ds_deps (sinks (updSink j ?f d) ! i))" if "j = i"
      using that Cons.prems(2) adds(1) by (simp add: updSink_def)
    then show ?case using Cons.IH [of "updSink j ?f d"] Cons.prems kept by (auto simp: sinksKept_def)
  qed simp
  then show ?thesis using assms by (simp add: noteSinks_def)
qed

lemma recordsUnder_adds:
  assumes "recordsUnder i dk a" "i < length (sinks d)"
  shows "dk \<in> set (ds_deps (sinks (applyDep a d) ! i))"
proof -
  have rec: "dk \<in> set (ds_deps (sinks (recordInternalMode plain ctx k dk d) ! i))" if "i \<in> set (dc_sinks ctx)" for plain ctx k
  proof -
    let ?n = "noteSinks ctx k dk d" and ?a = "tapCapture k dk (noteSinks ctx k dk d)"
    have n: "dk \<in> set (ds_deps (sinks ?a ! i))" "i < length (sinks ?a)"
      using noteSinks_adds [OF that assms(2)] sinksKept_noteSinks [of d ctx k dk] assms(2) by (auto simp: sinksKept_def)
    have "sinksKept ?a (recordInternalMode plain ctx k dk d)"
      unfolding recordInternalMode_def Let_def
      by (auto split: option.split intro: sinksKept_insertEdge sinksKept_trans [OF sinksKept_insertEdge sinksKept_recheck])
    then show ?thesis using n by (auto simp: sinksKept_def)
  qed
  show ?thesis using assms(1) rec
    by (cases a) (auto simp: recordsUnder_def Record_def RecordList_def recordInternal_def)
qed

definition remarkCalls :: "hooks \<Rightarrow> gostring \<Rightarrow> GVR list \<Rightarrow> depCall list" where
  "remarkCalls h key ts =
     (if enqueueMultiFn h then [MultiHook key (last ts) (butlast ts)]
      else if \<not> enqueueFn h then [PlainRefresh key]
      else (if mergeTriggersFn h then map (MergeTrigger key) (butlast ts) else []) @ [DirtyHook key (last ts)])"

lemma enqueueRemark_calls:
  "ts \<noteq> [] \<Longrightarrow> dt_calls (enqueueRemark key ts d) = dt_calls d @ remarkCalls (dt_hooks d) key ts"
proof -
  have "dt_calls (foldl (\<lambda>d g. call (MergeTrigger key g) d) d gs) = dt_calls d @ map (MergeTrigger key) gs" for gs
    by (induction gs arbitrary: d) (simp_all add: call_def)
  then show "ts \<noteq> [] \<Longrightarrow> ?thesis" by (auto simp: enqueueRemark_def remarkCalls_def call_def)
qed

lemma depMovedSince_mono: "depMovedSince dk q d \<Longrightarrow> q' \<le> q \<Longrightarrow> depMovedSince dk q' d"
  by (auto simp: depMovedSince_def split: option.splits)

lemma movedGVRs_acc: "set moved \<subseteq> set (movedGVRs s dks moved d)"
  by (induction s dks moved d rule: movedGVRs.induct) (auto split: if_splits)

lemma movedGVRs_has: "dk \<in> set dks \<Longrightarrow> depMovedSince dk (checkFloor s dk) d \<Longrightarrow> dk_GVR dk \<in> set (movedGVRs s dks moved d)"
proof (induction s dks moved d rule: movedGVRs.induct)
  case (2 s a dks moved d)
  show ?case
  proof (cases "dk = a")
    case True
    let ?m = "if depMovedSince a (checkFloor s a) d \<and> dk_GVR a \<notin> set moved then moved @ [dk_GVR a] else moved"
    have "dk_GVR a \<in> set ?m" using 2(3) True by auto
    then show ?thesis using movedGVRs_acc [of ?m s dks d] True by auto
  next
    case False
    then show ?thesis using 2 by simp
  qed
qed simp

lemma remark_effect:
  assumes "sinkFromContext ctx = Some i" "key \<noteq> []" "dk \<in> set (ds_deps (sinks d ! i))"
    and "depMovedSince dk (ds_startSeq (sinks d ! i)) d"
  shows "\<exists>ts. dk_GVR dk \<in> set ts \<and> dt_calls (remarkIfDepsMovedFrom ctx key b d) =
    dt_calls d @ RefreshRemarkNoted key # remarkCalls (dt_hooks d) key ts"
proof -
  let ?d = "updSink i (\<lambda>s. s\<lparr>ds_putKey := key, ds_checkedSeq := depEventSeq d, ds_putRemarked := False, ds_putBoot := b\<rparr>) d"
  let ?ts = "movedGVRs (sinks d ! i) (ds_deps (sinks d ! i)) [] ?d"
  have "checkFloor (sinks d ! i) dk \<le> ds_startSeq (sinks d ! i)"
    by (auto simp: checkFloor_def split: option.split)
  then have "depMovedSince dk (checkFloor (sinks d ! i) dk) ?d"
    using depMovedSince_mono [OF assms(4)] indexOf_cong(2) [of ?d d] by simp
  then have ts: "dk_GVR dk \<in> set ?ts" using movedGVRs_has [OF assms(3)] by blast
  then have "?ts \<noteq> []" by auto
  then have "dt_calls (remarkIfDepsMovedFrom ctx key b d) = dt_calls d @ RefreshRemarkNoted key # remarkCalls (dt_hooks d) key ?ts"
    using assms(1,2) by (simp add: remarkIfDepsMovedFrom_def Let_def enqueueRemark_calls)
      (simp add: call_def tally_def noteMovedRemark_def updSink_def)
  with ts show ?thesis by blast
qed

section \<open>Properties\<close>

text \<open>C4: However records, removals, replays, checks and events follow each other, short of \<open>2 ^ 64\<close> of them, in
  a tracker built by the constructor the two indexes mirror each other, no bucket is empty, the gauges
  count the edges and the coordinates, the cap holds, and no stamp runs ahead of the event sequence.\<close>

theorem dep_index_invariant:
  assumes "length ops < 2 ^ 64"
  shows "depWf (runDep ops (newDepTracker n))"
  using runDep_wf [OF depWf_newDepTracker, of n ops] assms by (simp add: newDepTracker_def)

definition exGVR :: GVR where "exGVR = (''apps'', ''v1'', ''deployments'')"
definition exCtx :: "nat list \<Rightarrow> depCtx" where "exCtx is' = \<lparr>dc_inert = False, dc_key = ''w'', dc_sinks = is'\<rparr>"

lemma dep_index_invariant_witness:
  "depWf (runDep [RecordOp (exCtx []) ''w'' exGVR ''ns'' ''web'', RecordListOp (exCtx []) ''v'' exGVR ''ns'',
     ObjectMoved exGVR ''ns'' ''web'', RemoveKey ''w''] (newDepTracker 10))"
  by (rule dep_index_invariant) simp

text \<open>C1: Let a resolve open its scope and record a dependency under it, itself or through a nested
  resolve, and let an event reach the dependency before its write is accepted, before or after the record,
  with any other operation in between. Then the check of the accepted write enqueues the key again, once,
  with the resource of the dependency among the triggers.\<close>

theorem moved_dependency_is_remarked:
  assumes "length pre + length mid < 2 ^ 64" "WithL1KeyContext ctx key (runDep pre (newDepTracker n)) = (ctx', d)"
    and "key \<noteq> []" "r \<in> set mid" "recordsUnder (length (sinks (runDep pre (newDepTracker n)))) dk r"
    and "e \<in> set mid" "reaches e dk"
  shows "\<exists>ts. dk_GVR dk \<in> set ts \<and> dt_calls (remarkIfDepsMoved ctx' key (runDep mid d)) =
    dt_calls (runDep mid d) @ RefreshRemarkNoted key # remarkCalls (dt_hooks (runDep mid d)) key ts"
proof -
  let ?d0 = "runDep pre (newDepTracker n)" and ?t = "runDep mid d"
  define i where "i = length (sinks ?d0)"
  have d0: "depWf ?d0" "unat (depEventSeq ?d0) \<le> length pre"
    using runDep_wf [OF depWf_newDepTracker, of n pre] assms(1) by (auto simp: newDepTracker_def)
  have d: "d = snd (WithL1KeyContext ctx key ?d0)" "sinkFromContext ctx' = Some i"
    "sinks d = sinks ?d0 @ [(blankSink (depEventSeq ?d0))\<lparr>ds_key := key\<rparr>]"
    using assms(2,3) by (auto simp: WithL1KeyContext_def installSink_def sinkFromContext_def i_def)
  have w: "depWf d" "depEventSeq d = depEventSeq ?d0"
    using d0(1) indexOf_cong(1,3) [OF indexOf_sinks(3), of ctx key ?d0] by (simp_all add: d(1))
  have start: "ds_startSeq (sinks ?t ! i) = depEventSeq d" "i < length (sinks d)"
    using sinksKept_run [of d mid] d(3) w(2) by (auto simp: sinksKept_def i_def blankSink_def)
  have "dk \<in> set (ds_deps (sinks ?t ! i))"
  proof -
    obtain xs ys where mid: "mid = xs @ r # ys" using split_list [OF assms(4)] by blast
    have "i < length (sinks (runDep xs d))" using sinksKept_run [of d xs] start(2) by (auto simp: sinksKept_def)
    then have "dk \<in> set (ds_deps (sinks (applyDep r (runDep xs d)) ! i))" "i < length (sinks (applyDep r (runDep xs d)))"
      using recordsUnder_adds [of i dk r "runDep xs d"] assms(5) sinksKept_op [of "runDep xs d" r]
      by (auto simp: i_def sinksKept_def)
    then show ?thesis using sinksKept_run [of "applyDep r (runDep xs d)" ys]
      by (auto simp: mid runDep_append runDep_Cons sinksKept_def)
  qed
  moreover have "depMovedSince dk (ds_startSeq (sinks ?t ! i)) ?t"
    unfolding start(1) using event_stays_visible [OF w(1) _ assms(6,7)] w(2) d0(2) assms(1) by (simp add: movedSince_moved)
  ultimately show ?thesis unfolding remarkIfDepsMoved_def using remark_effect [OF d(2) assms(3)] by blast
qed

lemma moved_dependency_is_remarked_witness:
  "\<exists>ts. exGVR \<in> set ts \<and> (let (ctx, d) = WithL1KeyContext (exCtx []) ''w'' (runDep [] (newDepTracker 10));
       d = runDep [ObjectMoved exGVR ''ns'' ''web'', RecordOp ctx ''w'' exGVR ''ns'' ''web''] d
     in dt_calls (remarkIfDepsMoved ctx ''w'' d) = dt_calls d @ RefreshRemarkNoted ''w'' # remarkCalls (dt_hooks d) ''w'' ts)"
proof -
  let ?d0 = "runDep [] (newDepTracker 10)"
  obtain ctx d where s: "WithL1KeyContext (exCtx []) ''w'' ?d0 = (ctx, d)" by fastforce
  let ?mid = "[ObjectMoved exGVR ''ns'' ''web'', RecordOp ctx ''w'' exGVR ''ns'' ''web'']"
  let ?dk = "\<lparr>dk_GVR = exGVR, dk_Namespace = ''ns'', dk_Name = ''web''\<rparr>"
  have r: "recordsUnder (length (sinks ?d0)) ?dk (RecordOp ctx ''w'' exGVR ''ns'' ''web'')"
    using s by (auto simp: recordsUnder_def WithL1KeyContext_def installSink_def exCtx_def)
  have e: "reaches (ObjectMoved exGVR ''ns'' ''web'') ?dk" by (auto simp: reaches_def coordinateBuckets_def)
  from moved_dependency_is_remarked [OF _ s _ _ r _ e, of ?mid] show ?thesis
    unfolding s Let_def by simp
qed

end
