(* ===== verification/DepEvents.thy ===== *)
theory DepEvents
  imports DepMoved ResolvedWf
begin

text \<open>
  How a dep event invalidates the resolved cells (cache/deps.go): the coordinate event, which evicts
  what represents a deleted object and marks every other dependent, the two events of a whole resource
  type, the eviction of a cell whose own object is gone, and the release of edges whose resolve stored
  nothing. The tracker and the store move together: what drops a cell drops its edges by the strip hook.
\<close>

section \<open>The tracker and the store it is wired to\<close>

datatype objectState = objUnknown | objExists | objAbsent | objUnknownDegraded

record depWorld =
  w_deps :: DepTracker
  w_store :: "store option"

definition onDeps :: "(DepTracker \<Rightarrow> DepTracker) \<Rightarrow> depWorld \<Rightarrow> depWorld" where
  "onDeps f w = w\<lparr>w_deps := f (w_deps w)\<rparr>"

text \<open>A store operation that may drop the cell \<open>key\<close>; the store's strip hook is \<open>RemoveL1Key\<close>.\<close>

definition stripping :: "gostring \<Rightarrow> (store \<Rightarrow> 'a \<times> store) \<Rightarrow> store \<Rightarrow> depWorld \<Rightarrow> 'a \<times> depWorld" where
  "stripping key f s w = (case f s of (r, s') \<Rightarrow>
     (r, \<lparr>w_deps = (if st_index s key \<noteq> None \<and> st_index s' key = None then RemoveL1Key key (w_deps w) else w_deps w),
          w_store = Some s'\<rparr>))"

definition isSelfRepresentation :: "gostring \<Rightarrow> DepKey \<Rightarrow> depWorld \<Rightarrow> bool \<times> depWorld" where
  "isSelfRepresentation l1Key deleted w = (case w_store w of None \<Rightarrow> (False, w)
     | Some s \<Rightarrow> (case stripping l1Key (GetNoTouch l1Key) s w of
           (None, w) \<Rightarrow> (False, w)
         | (Some e, w) \<Rightarrow> (case Inputs e of None \<Rightarrow> (False, w)
             | Some i \<Rightarrow> ((in_Group i, in_Version i, in_Resource i) = dk_GVR deleted \<and>
                   in_Namespace i = dk_Namespace deleted \<and> in_Name i = dk_Name deleted, w))))"

section \<open>Evictions\<close>

definition deleteCell :: "gostring \<Rightarrow> depWorld \<Rightarrow> bool \<times> depWorld" where
  "deleteCell l1Key w = (case w_store w of None \<Rightarrow> (False, w) | Some s \<Rightarrow> stripping l1Key (deleteForDep l1Key) s w)"

definition evictInto :: "gostring list \<times> depWorld \<Rightarrow> gostring \<Rightarrow> gostring list \<times> depWorld" where
  "evictInto r l1Key = (case r of (gone, w) \<Rightarrow> (case deleteCell l1Key w of
     (b, w) \<Rightarrow> (if b then gone @ [l1Key] else gone, w)))"

definition runEvictionBatch :: "gostring list \<Rightarrow> depWorld \<Rightarrow> depWorld" where
  "runEvictionBatch keys w =
     (case foldl evictInto ([], w) keys of (gone, w) \<Rightarrow>
        foldl (\<lambda>w k. onDeps (call (EvictionPublished k)) w)
          (if gone = [] then w else onDeps (tally SelfEvictDelete (length gone)) w) gone)"

definition evictSelfEntry :: "gostring \<Rightarrow> depCounter \<Rightarrow> depWorld \<Rightarrow> bool \<times> depWorld" where
  "evictSelfEntry l1Key counter w =
     (if l1Key = [] then (False, w)
      else case deleteCell l1Key w of (evicted, w) \<Rightarrow> (evicted, if evicted then onDeps (tally counter 1) w else w))"

definition EvictSelfGone :: "gostring \<Rightarrow> ResolvedKeyInputs option \<Rightarrow> depWorld \<Rightarrow> bool \<times> depWorld" where
  "EvictSelfGone l1Key gone w =
     (let w = (case gone of None \<Rightarrow> w
        | Some i \<Rightarrow>
            (let gvr = (in_Group i, in_Version i, in_Resource i) in
             if gvr = ([], [], []) \<and> in_Namespace i = [] \<and> in_Name i = [] then w
             else onDeps (call (ObjectGone gvr (in_Namespace i) (in_Name i))) w))
      in case evictSelfEntry l1Key EvictSelfGoneTotal w of (evicted, w) \<Rightarrow>
           (evicted, if evicted then onDeps (call (EvictionPublished l1Key)) w else w))"

definition ReleaseUnstored :: "depCtx \<Rightarrow> gostring \<Rightarrow> depWorld \<Rightarrow> depWorld" where
  "ReleaseUnstored ctx l1Key w =
     (if l1Key = [] \<or> dc_inert ctx \<or> \<not> hasEdges l1Key (w_deps w) then w
      else case w_store w of None \<Rightarrow> w
      | Some s \<Rightarrow>
          if l1Key \<in> edgeHolders s \<or> st_index s l1Key \<noteq> None then w
          else \<lparr>w_deps = RemoveL1Key l1Key (w_deps w), w_store = Some (releaseUnstoredLocked l1Key s)\<rparr>)"

section \<open>The coordinate event\<close>

text \<open>The mark loop: which dependents are evicted and which are marked, in the order of the range.\<close>

fun partitionMatches ::
  "objectState \<Rightarrow> DepKey \<Rightarrow> (gostring \<times> bool) list \<Rightarrow> depWorld \<Rightarrow> gostring list \<times> gostring list \<times> depWorld" where
  "partitionMatches state self [] w = ([], [], w)"
| "partitionMatches state self ((l1Key, listOnly) # ms) w =
     (case (if state = objAbsent \<or> \<not> listOnly then isSelfRepresentation l1Key self w else (False, w)) of
        (isSelf, w) \<Rightarrow> (case partitionMatches state self ms w of (toEvict, toMark, w) \<Rightarrow>
           if state = objAbsent \<and> isSelf then (l1Key # toEvict, toMark, w) else (toEvict, l1Key # toMark, w)))"

definition enqueueMarks :: "GVR \<Rightarrow> gostring list \<Rightarrow> DepTracker \<Rightarrow> DepTracker" where
  "enqueueMarks gvr toMark d =
     foldl (\<lambda>d k. if enqueueFn (dt_hooks d) then call (DirtyHook k gvr) d else d) d toMark"

definition OnObjectEvent :: "GVR \<Rightarrow> gostring \<Rightarrow> gostring \<Rightarrow> objectState \<Rightarrow> depWorld \<Rightarrow> (nat \<times> nat) \<times> depWorld" where
  "OnObjectEvent gvr namespace name state w =
     (let w = onDeps (call (ListCellsPending gvr namespace name)) w;
          w = (if state = objAbsent then onDeps (call (ObjectGone gvr namespace name)) w else w);
          w = onDeps (bumpCoordinateGen gvr namespace name) w;
          matched = collectMatchesForMark gvr namespace name (w_deps w)
      in if matched = [] then ((0, 0), w)
         else case partitionMatches state \<lparr>dk_GVR = gvr, dk_Namespace = namespace, dk_Name = name\<rparr> matched w of
           (toEvict, toMark, w) \<Rightarrow>
           (let w = (if state = objUnknownDegraded then onDeps (tally DegradedNoEvict 1) w else w);
                w = (if toEvict \<noteq> [] then runEvictionBatch toEvict w else w);
                w = onDeps (enqueueMarks gvr toMark) w;
                w = onDeps (tally DirtyMarkTotal (length toMark)) w;
                w = (if state \<noteq> objAbsent then onDeps (tally EnqueueUpdateTotal (length toMark)) w else w)
            in ((length toEvict, length toMark), w)))"

definition OnAdd :: "GVR \<Rightarrow> gostring \<Rightarrow> gostring \<Rightarrow> depWorld \<Rightarrow> nat \<times> depWorld" where
  "OnAdd gvr namespace name w = (case OnObjectEvent gvr namespace name objExists w of ((_, marked), w) \<Rightarrow> (marked, w))"

definition OnUpdate :: "GVR \<Rightarrow> gostring \<Rightarrow> gostring \<Rightarrow> depWorld \<Rightarrow> nat \<times> depWorld" where
  "OnUpdate gvr namespace name w = (case OnObjectEvent gvr namespace name objExists w of ((_, marked), w) \<Rightarrow> (marked, w))"

definition OnDelete :: "GVR \<Rightarrow> gostring \<Rightarrow> gostring \<Rightarrow> depWorld \<Rightarrow> nat \<times> depWorld" where
  "OnDelete gvr namespace name w = (case OnObjectEvent gvr namespace name objAbsent w of ((evicted, _), w) \<Rightarrow> (evicted, w))"

section \<open>The events of a resource type\<close>

definition dirtyMarkResourceType :: "GVR \<Rightarrow> gostring list \<Rightarrow> DepTracker \<Rightarrow> nat \<times> DepTracker" where
  "dirtyMarkResourceType gvr matched d =
     (if matched = [] then (0, d)
      else (length matched, tally DirtyMarkTotal (length matched) (enqueueMarks gvr matched d)))"

definition OnResourceTypeAvailable :: "GVR \<Rightarrow> DepTracker \<Rightarrow> nat \<times> DepTracker" where
  "OnResourceTypeAvailable gvr d =
     (let d = bumpResourceTypeGen gvr True d
      in dirtyMarkResourceType gvr (map fst (collectTypeMatches gvr True d)) d)"

definition OnResourceTypeRemoved :: "GVR \<Rightarrow> DepTracker \<Rightarrow> nat \<times> DepTracker" where
  "OnResourceTypeRemoved gvr d =
     (let d = bumpResourceTypeGen gvr False d
      in dirtyMarkResourceType gvr (map fst (collectTypeMatches gvr False d)) d)"

section \<open>What a lookup finds\<close>

text \<open>A fold that files each match under its key.\<close>

lemma keyed_fold:
  fixes f :: "(gostring \<times> 'b) list \<Rightarrow> DepKey \<times> gostring \<Rightarrow> (gostring \<times> 'b) list"
  assumes "\<And>out m. fst ` set (f out m) = insert (snd m) (fst ` set out)"
    and "\<And>out m. distinct (map fst out) \<Longrightarrow> distinct (map fst (f out m))"
  shows "fst ` set (foldl f [] ms) = snd ` set ms \<and> distinct (map fst (foldl f [] ms))"
proof -
  have "fst ` set (foldl f out ms) = fst ` set out \<union> snd ` set ms" for out
    by (induction ms arbitrary: out) (simp_all add: assms(1))
  moreover have "distinct (map fst out) \<Longrightarrow> distinct (map fst (foldl f out ms))" for out
    by (induction ms arbitrary: out) (simp_all add: assms(2))
  ultimately show ?thesis by force
qed

lemma known_key: "map_of m k = Some v \<Longrightarrow> insert k (fst ` set m) = fst ` set m"
  by (rule insert_absorb) (auto simp: rev_image_eqI dest: map_of_SomeD)

lemmas noteMatch_keys = keyed_fold [of noteMatch]
lemmas preferExact_keys = keyed_fold [of preferExact]

lemma match_steps:
  "fst ` set (noteMatch out m) = insert (snd m) (fst ` set out)"
  "distinct (map fst out) \<Longrightarrow> distinct (map fst (noteMatch out m))"
  "fst ` set (preferExact out' m) = insert (snd m) (fst ` set out')"
  "distinct (map fst out') \<Longrightarrow> distinct (map fst (preferExact out' m))"
proof -
  obtain dk k where m: "m = (dk, k)" by fastforce
  show "fst ` set (noteMatch out m) = insert (snd m) (fst ` set out)"
    by (cases "map_of out k") (simp_all add: m noteMatch_def Let_def known_key)
  show "distinct (map fst out) \<Longrightarrow> distinct (map fst (noteMatch out m))"
    by (cases "map_of out k") (simp_all add: m noteMatch_def Let_def)
  show "fst ` set (preferExact out' m) = insert (snd m) (fst ` set out')"
    by (cases "map_of out' k") (simp_all add: m preferExact_def known_key)
  show "distinct (map fst out') \<Longrightarrow> distinct (map fst (preferExact out' m))"
    by (cases "map_of out' k") (simp_all add: m preferExact_def)
qed

text \<open>The keys an event on a coordinate is about: those with an edge in one of its buckets.\<close>

definition dependents :: "GVR \<Rightarrow> gostring \<Rightarrow> gostring \<Rightarrow> DepTracker \<Rightarrow> gostring set" where
  "dependents gvr namespace name d = (\<Union>dk\<in>set (coordinateBuckets gvr namespace name). set (bucketKeys d dk))"

lemma matches_dependents:
  "fst ` set (collectMatchesForMark gvr ns n d) = dependents gvr ns n d"
  "distinct (map fst (collectMatchesForMark gvr ns n d))"
  using noteMatch_keys [of "rangeMatchBuckets gvr ns n d"]
  by (simp_all add: match_steps collectMatchesForMark_def rangeMatchBuckets_def dependents_def image_UN image_image)

definition typeDependents :: "GVR \<Rightarrow> bool \<Rightarrow> DepTracker \<Rightarrow> gostring set" where
  "typeDependents gvr listOnly d =
     {k. \<exists>dk. k \<in> set (bucketKeys d dk) \<and> dk_GVR dk = gvr \<and> (listOnly \<longrightarrow> dk_Name dk = listWildcard)}"

lemma in_bucket: "k \<in> set (bucketKeys d dk) \<Longrightarrow> dk \<in> fst ` set (forward d)"
  by (cases "map_of (forward d) dk") (auto simp: bucketKeys_def rev_image_eqI dest: map_of_SomeD)

lemma type_matches:
  "fst ` set (collectTypeMatches gvr lo d) = typeDependents gvr lo d" "distinct (map fst (collectTypeMatches gvr lo d))"
proof -
  let ?ms = "concat (map (\<lambda>dk. map (\<lambda>k. (dk, k)) (bucketKeys d dk)) (typeBuckets gvr lo d))"
  have "snd ` set ?ms = (\<Union>dk\<in>set (typeBuckets gvr lo d). set (bucketKeys d dk))"
    by (simp add: image_UN image_image)
  also have "\<dots> = typeDependents gvr lo d"
    using in_bucket [of _ d] by (auto simp: typeBuckets_def typeDependents_def simp flip: set_map)
  finally have "snd ` set ?ms = typeDependents gvr lo d" .
  then show "fst ` set (collectTypeMatches gvr lo d) = typeDependents gvr lo d"
    "distinct (map fst (collectTypeMatches gvr lo d))"
    using preferExact_keys [of ?ms] by (simp_all add: match_steps collectTypeMatches_def)
qed

text \<open>The flag of the mark loop is what the full precedence comes to: only list buckets matched.\<close>

lemma mark_flag:
  "map_of (collectMatchesForMark gvr ns n d) k =
   map_option (\<lambda>dk. dk_Name dk = listWildcard) (map_of (collectMatchesWithDep gvr ns n d) k)"
proof -
  have "map_of (foldl noteMatch out ms) k = map_option (\<lambda>dk. dk_Name dk = listWildcard) (map_of (foldl preferExact out' ms) k)"
    if "\<And>k. map_of out k = map_option (\<lambda>dk. dk_Name dk = listWildcard) (map_of out' k)" for out out' ms k
    using that
  proof (induction ms arbitrary: out out')
    case (Cons m ms)
    obtain dk l where m: "m = (dk, l)" by fastforce
    have "map_of (noteMatch out m) k = map_option (\<lambda>dk. dk_Name dk = listWildcard) (map_of (preferExact out' m) k)" for k
      by (cases "map_of out' l") (auto simp: m noteMatch_def preferExact_def Let_def Cons.prems)
    then show ?case using Cons.IH by simp
  qed simp
  then show ?thesis by (simp add: collectMatchesForMark_def collectMatchesWithDep_def)
qed

section \<open>What a probe or an eviction drops\<close>

definition pastBound :: "store \<Rightarrow> lruItem \<Rightarrow> bool" where
  "pastBound s it \<longleftrightarrow> (let e = it_entry it; eff = effectiveTTLLocked s e in
     eff > 0 \<and> timeSub (st_now s) (CreatedAt e) > eff \<or>
     maxEntryAge s > 0 \<and> BornAt e \<noteq> 0 \<and> timeSub (st_now s) (BornAt e) > maxEntryAge s)"

definition represents :: "store \<Rightarrow> DepKey \<Rightarrow> gostring \<Rightarrow> bool" where
  "represents s self k \<longleftrightarrow> (case st_index s k of None \<Rightarrow> False
     | Some it \<Rightarrow> (case Inputs (it_entry it) of None \<Rightarrow> False
         | Some i \<Rightarrow> (in_Group i, in_Version i, in_Resource i) = dk_GVR self \<and>
             in_Namespace i = dk_Namespace self \<and> in_Name i = dk_Name self))"

definition overdue :: "store \<Rightarrow> gostring \<Rightarrow> bool" where
  "overdue s k \<longleftrightarrow> (case st_index s k of None \<Rightarrow> False | Some it \<Rightarrow> pastBound s it)"

definition sameClock :: "store \<Rightarrow> store \<Rightarrow> bool" where
  "sameClock s s' \<longleftrightarrow> st_now s' = st_now s \<and> st_ttl s' = st_ttl s \<and> maxEntryAge s' = maxEntryAge s"

lemma pastBound_clock: "sameClock s s' \<Longrightarrow> pastBound s' = pastBound s"
  by (simp add: fun_eq_iff sameClock_def pastBound_def effectiveTTLLocked_def)

definition hookCalls :: "DepTracker \<Rightarrow> (gostring \<times> GVR) list" where
  "hookCalls d = [(k, g). DirtyHook k g \<leftarrow> dt_calls d]"

definition publishedCalls :: "DepTracker \<Rightarrow> gostring list" where
  "publishedCalls d = [k. EvictionPublished k \<leftarrow> dt_calls d]"

lemma told_frames [simp]:
  "hookCalls (tally c n d) = hookCalls d" "publishedCalls (tally c n d) = publishedCalls d"
  "hookCalls (call x d) = hookCalls d @ (case x of DirtyHook k g \<Rightarrow> [(k, g)] | _ \<Rightarrow> [])"
  "publishedCalls (call x d) = publishedCalls d @ (case x of EvictionPublished k \<Rightarrow> [k] | _ \<Rightarrow> [])"
  "hookCalls (d\<lparr>forward := f\<rparr>) = hookCalls d" "publishedCalls (d\<lparr>forward := f\<rparr>) = publishedCalls d"
  "hookCalls (d\<lparr>rev_deps := r\<rparr>) = hookCalls d" "publishedCalls (d\<lparr>rev_deps := r\<rparr>) = publishedCalls d"
  "hookCalls (d\<lparr>coordinates := n'\<rparr>) = hookCalls d" "publishedCalls (d\<lparr>coordinates := n'\<rparr>) = publishedCalls d"
  "hookCalls (d\<lparr>totalRecords := n'\<rparr>) = hookCalls d" "publishedCalls (d\<lparr>totalRecords := n'\<rparr>) = publishedCalls d"
  "dt_hooks (tally c n d) = dt_hooks d" "dt_hooks (call x d) = dt_hooks d"
  by (simp_all add: hookCalls_def publishedCalls_def tally_def call_def)

text \<open>The cells \<open>X\<close> left the store, and their edges the tracker; nobody was told yet.\<close>

definition dropped :: "gostring set \<Rightarrow> depWorld \<Rightarrow> depWorld \<Rightarrow> bool" where
  "dropped X w w' \<longleftrightarrow> (\<exists>s s'. w_store w = Some s \<and> w_store w' = Some s' \<and> (wf s \<longrightarrow> wf s') \<and> sameClock s s' \<and>
     (\<forall>k. st_index s' k = (if k \<in> X then None else st_index s k)) \<and>
     (\<forall>k. k \<noteq> [] \<longrightarrow> edgesOf (w_deps w') k = (if k \<in> X then [] else edgesOf (w_deps w) k)) \<and>
     dt_hooks (w_deps w') = dt_hooks (w_deps w) \<and> hookCalls (w_deps w') = hookCalls (w_deps w) \<and>
     publishedCalls (w_deps w') = publishedCalls (w_deps w) \<and> (depWf (w_deps w) \<longrightarrow> depWf (w_deps w')))"

lemma dropped_refl: "w_store w = Some s \<Longrightarrow> dropped {} w w"
  by (simp add: dropped_def sameClock_def)

lemma dropped_trans:
  assumes "dropped X w w'" "dropped Y w' w''"
  shows "dropped (X \<union> Y) w w''"
proof -
  obtain s s' where s: "w_store w = Some s" "w_store w' = Some s'" using assms(1) by (auto simp: dropped_def)
  obtain s'' where s'': "w_store w'' = Some s''" using assms(2) by (auto simp: dropped_def)
  show ?thesis using assms s s'' by (simp add: dropped_def sameClock_def)
qed

lemma calls_RemoveL1Key:
  "dt_hooks (RemoveL1Key k d) = dt_hooks d" "hookCalls (RemoveL1Key k d) = hookCalls d"
  "publishedCalls (RemoveL1Key k d) = publishedCalls d"
  "edgesOf (RemoveL1Key k d) k' = (if k' = k \<and> k \<noteq> [] then [] else edgesOf d k')"
proof -
  have drop: "dt_hooks (dropKeyFrom k d dk) = dt_hooks d" "hookCalls (dropKeyFrom k d dk) = hookCalls d"
    "publishedCalls (dropKeyFrom k d dk) = publishedCalls d" "rev_deps (dropKeyFrom k d dk) = rev_deps d" for d dk
    by (simp_all add: dropKeyFrom_def Let_def split: option.split) (simp_all add: call_def)
  have "dt_hooks (foldl (dropKeyFrom k) d dks) = dt_hooks d" "hookCalls (foldl (dropKeyFrom k) d dks) = hookCalls d"
    "publishedCalls (foldl (dropKeyFrom k) d dks) = publishedCalls d" "rev_deps (foldl (dropKeyFrom k) d dks) = rev_deps d" for d dks
    by (induction dks arbitrary: d) (simp_all add: drop)
  note fold = this
  show "dt_hooks (RemoveL1Key k d) = dt_hooks d" "hookCalls (RemoveL1Key k d) = hookCalls d"
    "publishedCalls (RemoveL1Key k d) = publishedCalls d"
    "edgesOf (RemoveL1Key k d) k' = (if k' = k \<and> k \<noteq> [] then [] else edgesOf d k')"
    by (auto simp: RemoveL1Key_def Let_def fold edgesOf_def split: option.split)
      (auto simp: tally_def call_def fold delete_conv)
qed

text \<open>A store operation that drops the cell drops exactly it; one that does not leaves everything.\<close>

lemma stripping_drops:
  assumes "w_store w = Some s" "f s = (r, s')" "wf s \<longrightarrow> wf s'" "sameClock s s'"
    and "st_index s k \<noteq> None" "st_index s' = (st_index s)(k := None)"
  shows "\<exists>w'. stripping k f s w = (r, w') \<and> dropped {k} w w'"
  using assms by (auto simp: stripping_def dropped_def calls_RemoveL1Key depWf_RemoveL1Key)

lemma stripping_same: "w_store w = Some s \<Longrightarrow> f s = (r, s) \<Longrightarrow> stripping k f s w = (r, w)"
  by (cases w) (auto simp: stripping_def)

lemma GetNoTouch_cases:
  assumes "wf s"
  obtains (absent) "st_index s k = None" "GetNoTouch k s = (None, s)"
  | (overdue) s' where "overdue s k" "st_index s k \<noteq> None" "GetNoTouch k s = (None, s')" "wf s'" "sameClock s s'"
      "st_index s' = (st_index s)(k := None)"
  | (live) it where "st_index s k = Some it" "GetNoTouch k s = (Some (it_entry it), s)"
proof (cases "st_index s k")
  case None
  then show ?thesis using absent by (simp add: GetNoTouch_def getCore_def bumpIf_def)
next
  case (Some it)
  have k: "it_key it = k" using wf_resident [OF assms Some] by simp
  obtain a b where e: "itemExpiredLocked s it = (a, b)" by fastforce
  show ?thesis
  proof (cases "a \<or> b")
    case True
    have "overdue s k" using e True Some by (auto simp: overdue_def pastBound_def itemExpiredLocked_def Let_def split: if_splits)
    moreover have "\<exists>s'. GetNoTouch k s = (None, s') \<and> wf s' \<and> sameClock s s' \<and> st_index s' = (st_index s)(k := None)"
      using True wf_removeElementLocked [OF assms Some] k wf_removeElementLocked [of "bump _ s" k it] assms Some
      by (auto simp: GetNoTouch_def getCore_def Some e bumpIf_def sameClock_def)
    ultimately show ?thesis using overdue Some by blast
  next
    case False
    then show ?thesis using live [OF Some] Some e by (simp add: GetNoTouch_def getCore_def)
  qed
qed

lemma represents_cong: "st_index s' k = st_index s k \<Longrightarrow> represents s' self k = represents s self k"
  by (simp add: represents_def)

lemma probe_drops:
  assumes "w_store w = Some s" "wf s"
  shows "\<exists>X w'. isSelfRepresentation k self w = (k \<notin> X \<and> represents s self k, w') \<and> dropped X w w' \<and>
    X \<subseteq> {k} \<and> (\<forall>x\<in>X. overdue s x)"
proof (rule GetNoTouch_cases [OF assms(2), of k])
  assume "st_index s k = None" "GetNoTouch k s = (None, s)"
  then show ?thesis using stripping_same [OF assms(1), of "GetNoTouch k"] dropped_refl [OF assms(1)]
    by (intro exI [of _ "{}"] exI [of _ w]) (simp add: isSelfRepresentation_def assms(1) represents_def)
next
  fix s' assume s': "overdue s k" "st_index s k \<noteq> None" "GetNoTouch k s = (None, s')" "wf s'" "sameClock s s'"
    "st_index s' = (st_index s)(k := None)"
  then obtain w' where "stripping k (GetNoTouch k) s w = (None, w')" "dropped {k} w w'"
    using stripping_drops [OF assms(1), of "GetNoTouch k"] by blast
  then show ?thesis using s'(1)
    by (intro exI [of _ "{k}"] exI [of _ w']) (simp add: isSelfRepresentation_def assms(1))
next
  fix it assume "st_index s k = Some it" "GetNoTouch k s = (Some (it_entry it), s)"
  then show ?thesis using stripping_same [OF assms(1), of "GetNoTouch k"] dropped_refl [OF assms(1)]
    by (intro exI [of _ "{}"] exI [of _ w])
      (auto simp: isSelfRepresentation_def assms(1) represents_def split: option.split)
qed

lemma dropped_store:
  assumes "dropped X w w'" "w_store w = Some s"
  obtains s' where "w_store w' = Some s'" "wf s \<longrightarrow> wf s'" "sameClock s s'"
    "\<And>k. st_index s' k = (if k \<in> X then None else st_index s k)"
  using assms by (auto simp: dropped_def)

lemma overdue_dropped:
  assumes "sameClock s s'" "\<And>k. st_index s' k = (if k \<in> X then None else st_index s k)"
  shows "overdue s' k \<Longrightarrow> overdue s k"
  using assms(2) [of k] pastBound_clock [OF assms(1)] by (auto simp: overdue_def split: if_splits option.splits)

text \<open>The mark loop splits the matches: the cells that represent the deleted object, and all the rest.\<close>

lemma partition_splits:
  assumes "w_store w = Some s" "wf s" "distinct (map fst ms)" "partitionMatches state self ms w = (ev, mk, w')"
  shows "\<exists>X. dropped X w w' \<and> X \<subseteq> fst ` set ms \<and> (\<forall>x\<in>X. overdue s x) \<and> distinct (ev @ mk) \<and>
    set ev \<union> set mk = fst ` set ms \<and>
    set ev = {k \<in> fst ` set ms. state = objAbsent \<and> k \<notin> X \<and> represents s self k}"
  using assms
proof (induction state self ms w arbitrary: s ev mk w' rule: partitionMatches.induct)
  case (1 state self w)
  then show ?case using dropped_refl by auto
next
  case (2 state self k lo ms w)
  obtain isSelf w1 where p: "(if state = objAbsent \<or> \<not> lo then isSelfRepresentation k self w else (False, w)) = (isSelf, w1)"
    by fastforce
  obtain X1 where X1: "dropped X1 w w1" "X1 \<subseteq> {k}" "\<forall>x\<in>X1. overdue s x"
    "state = objAbsent \<Longrightarrow> isSelf \<longleftrightarrow> k \<notin> X1 \<and> represents s self k"
  proof (cases "state = objAbsent \<or> \<not> lo")
    case True
    then show ?thesis using probe_drops [OF 2(2,3), of k self] p that by auto
  next
    case False
    then show ?thesis using p dropped_refl [OF 2(2)] that [of "{}"] by auto
  qed
  obtain s1 where s1: "w_store w1 = Some s1" "wf s1" "sameClock s s1"
    "\<And>k. st_index s1 k = (if k \<in> X1 then None else st_index s k)"
    using dropped_store [OF X1(1) 2(2)] 2(3) by metis
  obtain ev1 mk1 w2 where r: "partitionMatches state self ms w1 = (ev1, mk1, w2)" by (metis prod_cases3)
  have "k \<notin> fst ` set ms" "distinct (map fst ms)" using 2(4) by (auto simp flip: set_map)
  from 2(1) [OF p [symmetric] s1(1,2) this(2) r] obtain X2 where X2: "dropped X2 w1 w2" "X2 \<subseteq> fst ` set ms" "\<forall>x\<in>X2. overdue s1 x"
    "distinct (ev1 @ mk1)" "set ev1 \<union> set mk1 = fst ` set ms"
    "set ev1 = {k \<in> fst ` set ms. state = objAbsent \<and> k \<notin> X2 \<and> represents s1 self k}" by blast
  have out: "(ev, mk, w') = (if state = objAbsent \<and> isSelf then (k # ev1, mk1, w2) else (ev1, k # mk1, w2))"
    using 2(5) p r by simp
  have rep: "represents s1 self k' = represents s self k'" if "k' \<in> fst ` set ms" for k'
    using that \<open>k \<notin> fst ` set ms\<close> X1(2) s1(4) [of k'] by (intro represents_cong) auto
  have ev1: "set ev1 = {k' \<in> fst ` set ms. state = objAbsent \<and> k' \<notin> X1 \<union> X2 \<and> represents s self k'}"
    using X2(6) rep X1(2) \<open>k \<notin> fst ` set ms\<close> by auto
  have "dropped (X1 \<union> X2) w w'" using dropped_trans [OF X1(1) X2(1)] out by (auto split: if_splits)
  moreover have "\<forall>x\<in>X1 \<union> X2. overdue s x" using X1(3) X2(3) overdue_dropped [OF s1(3,4)] by blast
  moreover have "distinct (ev @ mk)" "set ev \<union> set mk = fst ` set ((k, lo) # ms)"
    using out X2(4,5) \<open>k \<notin> fst ` set ms\<close> by (auto split: if_splits)
  moreover have "set ev = {k' \<in> fst ` set ((k, lo) # ms). state = objAbsent \<and> k' \<notin> X1 \<union> X2 \<and> represents s self k'}"
  proof (cases "state = objAbsent")
    case True
    then show ?thesis using out ev1 X1(4) X2(2) \<open>k \<notin> fst ` set ms\<close> by (auto split: if_splits)
  qed (use out ev1 in auto)
  moreover have "X1 \<union> X2 \<subseteq> fst ` set ((k, lo) # ms)" using X1(2) X2(2) by auto
  ultimately show ?case by blast
qed

text \<open>The eviction batch drops every cell it is given, and tells the subscribers once each.\<close>

lemma deleteCell_drops:
  assumes "w_store w = Some s" "wf s" "st_index s k \<noteq> None"
  shows "\<exists>w'. deleteCell k w = (True, w') \<and> dropped {k} w w'"
proof -
  obtain it where it: "st_index s k = Some it" using assms(3) by auto
  obtain r s' where d: "deleteForDep k s = (r, s')" by fastforce
  have k: "it_key it = k" using wf_resident [OF assms(2) it] by simp
  have "r = True" using d by (simp add: deleteForDep_def it Let_def)
  moreover have "wf s'" "st_index s' = (st_index s)(k := None)" "st_now s' = st_now s"
    using wf_deleteForDep [OF assms(2), of k] deleteForDep_fields [OF it k] d by simp_all
  moreover have "st_ttl s' = st_ttl s" "maxEntryAge s' = maxEntryAge s"
    using d by (auto simp: deleteForDep_def it Let_def raLayerForgetLocked_def)
  ultimately show ?thesis using stripping_drops [where f = "deleteForDep k", OF assms(1) d, of k] assms(3)
    by (simp add: deleteCell_def assms(1) sameClock_def)
qed

lemma evict_all:
  assumes "w_store w = Some s" "wf s" "distinct ks" "\<forall>k\<in>set ks. st_index s k \<noteq> None"
  shows "\<exists>w'. foldl evictInto (gone, w) ks = (gone @ ks, w') \<and> dropped (set ks) w w'"
  using assms
proof (induction ks arbitrary: gone w s)
  case Nil
  then show ?case using dropped_refl by simp
next
  case (Cons k ks)
  obtain w1 where w1: "deleteCell k w = (True, w1)" "dropped {k} w w1"
    using deleteCell_drops [OF Cons.prems(1,2)] Cons.prems(4) by auto
  obtain s1 where s1: "w_store w1 = Some s1" "wf s1" "\<And>k'. st_index s1 k' = (if k' \<in> {k} then None else st_index s k')"
    using dropped_store [OF w1(2) Cons.prems(1)] Cons.prems(2) by metis
  have live: "\<forall>k\<in>set ks. st_index s1 k \<noteq> None" using Cons.prems(3,4) s1(3) by auto
  obtain w2 where "foldl evictInto ((gone @ [k]), w1) ks = ((gone @ [k]) @ ks, w2)" "dropped (set ks) w1 w2"
    using Cons.IH [OF s1(1,2) _ live, of "gone @ [k]"] Cons.prems(3) by auto
  moreover have "evictInto (gone, w) k = (gone @ [k], w1)" by (simp add: evictInto_def w1(1))
  ultimately show ?case using dropped_trans [OF w1(2)] by auto
qed

text \<open>Telling changes no cell and no edge.\<close>

definition told :: "(DepTracker \<Rightarrow> DepTracker) \<Rightarrow> bool" where
  "told f \<longleftrightarrow> (\<forall>d. indexOf (f d) = indexOf d \<and> dt_hooks (f d) = dt_hooks d)"

lemma told_frame:
  assumes "told f"
  shows "w_store (onDeps f w) = w_store w" "edgesOf (w_deps (onDeps f w)) = edgesOf (w_deps w)"
    "depWf (w_deps (onDeps f w)) = depWf (w_deps w)" "dt_hooks (w_deps (onDeps f w)) = dt_hooks (w_deps w)"
proof -
  have i: "indexOf (f (w_deps w)) = indexOf (w_deps w)" and h: "dt_hooks (f (w_deps w)) = dt_hooks (w_deps w)"
    using assms by (auto simp: told_def)
  then show "w_store (onDeps f w) = w_store w" "edgesOf (w_deps (onDeps f w)) = edgesOf (w_deps w)"
    "depWf (w_deps (onDeps f w)) = depWf (w_deps w)" "dt_hooks (w_deps (onDeps f w)) = dt_hooks (w_deps w)"
    by (simp_all add: onDeps_def h indexOf_cong(1) [OF i] indexOf_cong(5) [OF i])
qed

lemma told_steps: "told (tally c n)" "told (call x)"
  by (simp_all add: told_def)

lemma enqueueMarks_effect:
  "indexOf (enqueueMarks g ks d) = indexOf d \<and> dt_hooks (enqueueMarks g ks d) = dt_hooks d \<and>
   hookCalls (enqueueMarks g ks d) = hookCalls d @ (if enqueueFn (dt_hooks d) then map (\<lambda>k. (k, g)) ks else []) \<and>
   publishedCalls (enqueueMarks g ks d) = publishedCalls d"
  unfolding enqueueMarks_def by (induction ks arbitrary: d) auto

lemma told_enqueueMarks: "told (enqueueMarks g ks)"
  by (simp add: told_def enqueueMarks_effect)

lemma publish_each:
  "w_store (foldl (\<lambda>w k. onDeps (call (EvictionPublished k)) w) w ks) = w_store w \<and>
   edgesOf (w_deps (foldl (\<lambda>w k. onDeps (call (EvictionPublished k)) w) w ks)) = edgesOf (w_deps w) \<and>
   depWf (w_deps (foldl (\<lambda>w k. onDeps (call (EvictionPublished k)) w) w ks)) = depWf (w_deps w) \<and>
   dt_hooks (w_deps (foldl (\<lambda>w k. onDeps (call (EvictionPublished k)) w) w ks)) = dt_hooks (w_deps w) \<and>
   hookCalls (w_deps (foldl (\<lambda>w k. onDeps (call (EvictionPublished k)) w) w ks)) = hookCalls (w_deps w) \<and>
   publishedCalls (w_deps (foldl (\<lambda>w k. onDeps (call (EvictionPublished k)) w) w ks)) = publishedCalls (w_deps w) @ ks"
  by (induction ks arbitrary: w) (simp_all add: told_frame [OF told_steps(2)], simp_all add: onDeps_def)

text \<open>A step that told the subscribers of \<open>pub\<close> and the refresher of \<open>marks\<close>, and dropped \<open>X\<close>.\<close>

definition reacted :: "gostring set \<Rightarrow> gostring list \<Rightarrow> (gostring \<times> GVR) list \<Rightarrow> depWorld \<Rightarrow> depWorld \<Rightarrow> bool" where
  "reacted X pub marks w w' \<longleftrightarrow> (\<exists>s s'. w_store w = Some s \<and> w_store w' = Some s' \<and> (wf s \<longrightarrow> wf s') \<and>
     (\<forall>k. st_index s' k = (if k \<in> X then None else st_index s k)) \<and>
     (\<forall>k. k \<noteq> [] \<longrightarrow> edgesOf (w_deps w') k = (if k \<in> X then [] else edgesOf (w_deps w) k)) \<and>
     dt_hooks (w_deps w') = dt_hooks (w_deps w) \<and> hookCalls (w_deps w') = hookCalls (w_deps w) @ marks \<and>
     publishedCalls (w_deps w') = publishedCalls (w_deps w) @ pub \<and> (depWf (w_deps w) \<longrightarrow> depWf (w_deps w')))"

lemma store_onDeps: "w_store (onDeps f w) = w_store w"
  by (simp add: onDeps_def)

lemma reacted_dropped: "dropped X w w' \<Longrightarrow> reacted X [] [] w w'"
  by (auto simp: dropped_def reacted_def)

lemma reacted_trans:
  assumes "reacted X p m w w'" "reacted Y p' m' w' w''"
  shows "reacted (X \<union> Y) (p @ p') (m @ m') w w''"
proof -
  obtain s s' where s: "w_store w = Some s" "w_store w' = Some s'" using assms(1) by (auto simp: reacted_def)
  obtain s'' where s'': "w_store w'' = Some s''" using assms(2) by (auto simp: reacted_def)
  show ?thesis using assms s s'' by (simp add: reacted_def)
qed

lemma reacted_tally: "w_store w = Some s \<Longrightarrow> reacted {} [] [] w (onDeps (tally c n) w)"
  by (simp add: reacted_def told_frame [OF told_steps(1)], simp add: onDeps_def)

lemma reacted_marks:
  "w_store w = Some s \<Longrightarrow> enqueueFn (dt_hooks (w_deps w)) \<Longrightarrow>
   reacted {} [] (map (\<lambda>k. (k, g)) ks) w (onDeps (enqueueMarks g ks) w)"
  by (simp add: reacted_def told_frame [OF told_enqueueMarks], simp add: onDeps_def enqueueMarks_effect)

lemma reacted_evictions:
  assumes "w_store w = Some s" "wf s" "distinct ks" "\<forall>k\<in>set ks. st_index s k \<noteq> None"
  shows "reacted (set ks) ks [] w (runEvictionBatch ks w)"
proof -
  obtain w1 where w1: "foldl evictInto ([], w) ks = (ks, w1)" "dropped (set ks) w w1"
    using evict_all [OF assms, of "[]"] by auto
  let ?w2 = "if ks = [] then w1 else onDeps (tally SelfEvictDelete (length ks)) w1"
  obtain s1 where s1: "w_store w1 = Some s1" using w1(2) by (auto simp: dropped_def)
  have "reacted {} [] [] w1 ?w2" using reacted_tally [OF s1] reacted_dropped [OF dropped_refl [OF s1]] by simp
  moreover have "w_store ?w2 = Some s1" using s1 by (simp add: onDeps_def)
  then have "reacted {} ks [] ?w2 (foldl (\<lambda>w k. onDeps (call (EvictionPublished k)) w) ?w2 ks)"
    by (simp add: reacted_def publish_each)
  ultimately show ?thesis
    using reacted_trans [OF reacted_trans [OF reacted_dropped [OF w1(2)]]] by (fastforce simp: runEvictionBatch_def w1(1))
qed

section \<open>The event\<close>

lemma stamp_told:
  "hookCalls (foldl (stampBucket q) d dks) = hookCalls d \<and> publishedCalls (foldl (stampBucket q) d dks) = publishedCalls d \<and>
   dt_hooks (foldl (stampBucket q) d dks) = dt_hooks d"
  by (induction dks arbitrary: d) (simp_all add: stampBucket_def hookCalls_def publishedCalls_def split: option.split)

lemma raise_told [simp]:
  "hookCalls (raiseFloor g q (nextSeq d)) = hookCalls d" "publishedCalls (raiseFloor g q (nextSeq d)) = publishedCalls d"
  "dt_hooks (raiseFloor g q (nextSeq d)) = dt_hooks d"
  by (simp_all add: raiseFloor_def nextSeq_def hookCalls_def publishedCalls_def)

lemma bump_told:
  "hookCalls (bumpCoordinateGen g ns n d) = hookCalls d" "publishedCalls (bumpCoordinateGen g ns n d) = publishedCalls d"
  "dt_hooks (bumpCoordinateGen g ns n d) = dt_hooks d"
  by (simp_all add: bumpCoordinateGen_def Let_def stamp_told)

lemma bump_index:
  "edgesOf (bumpCoordinateGen g ns n d) = edgesOf d" "bucketKeys (bumpCoordinateGen g ns n d) = bucketKeys d"
  "depWf d \<Longrightarrow> depEventSeq d + 1 \<noteq> 0 \<Longrightarrow> depWf (bumpCoordinateGen g ns n d)"
proof -
  show "edgesOf (bumpCoordinateGen g ns n d) = edgesOf d" "bucketKeys (bumpCoordinateGen g ns n d) = bucketKeys d"
    unfolding indexOf_cong(4) [OF bump_struck(1)] indexOf_cong(5) [OF bump_struck(1)]
    by (simp_all add: edgesOf_def [abs_def])
  show "depWf d \<Longrightarrow> depEventSeq d + 1 \<noteq> 0 \<Longrightarrow> depWf (bumpCoordinateGen g ns n d)"
    unfolding indexOf_cong(1) [OF bump_struck(1)] by (rule depWf_struckBy) (auto dest: coordinateBuckets_gvr)
qed

lemma announced:
  assumes "w_store w = Some s" "depEventSeq (w_deps w) + 1 \<noteq> 0"
  shows "reacted {} [] [] w (onDeps (bumpCoordinateGen g ns n)
     (if b then onDeps (call (ObjectGone g ns n)) (onDeps (call (ListCellsPending g ns n)) w)
      else onDeps (call (ListCellsPending g ns n)) w)) \<and>
   bucketKeys (w_deps (onDeps (bumpCoordinateGen g ns n)
     (if b then onDeps (call (ObjectGone g ns n)) (onDeps (call (ListCellsPending g ns n)) w)
      else onDeps (call (ListCellsPending g ns n)) w))) = bucketKeys (w_deps w)"
proof -
  have pre: "edgesOf (call x d) = edgesOf d" "bucketKeys (call x d) = bucketKeys d" "depWf (call x d) = depWf d"
    "depEventSeq (call x d) = depEventSeq d" for x d
    using indexOf_cong(1,3,4,5) [OF indexOf_side(2)] by simp_all
  show ?thesis using assms by (simp add: reacted_def onDeps_def bump_told bump_index pre)
qed

definition "eventPost gvr ns name state s w evicted marked X w' \<longleftrightarrow>
  distinct (evicted @ marked) \<and> set evicted \<union> set marked = dependents gvr ns name (w_deps w) \<and>
  X \<subseteq> dependents gvr ns name (w_deps w) \<and> (\<forall>k\<in>X. overdue s k) \<and>
  set evicted = {k \<in> dependents gvr ns name (w_deps w). state = objAbsent \<and> k \<notin> X \<and>
     represents s \<lparr>dk_GVR = gvr, dk_Namespace = ns, dk_Name = name\<rparr> k} \<and>
  reacted (set evicted \<union> X) evicted (map (\<lambda>k. (k, gvr)) marked) w w'"

lemma eventPostD:
  assumes "eventPost gvr ns name state s w evicted marked X w'"
  shows "distinct (evicted @ marked)" "set evicted \<union> set marked = dependents gvr ns name (w_deps w)"
    "X \<subseteq> dependents gvr ns name (w_deps w)" "\<forall>k\<in>X. overdue s k"
    "set evicted = {k \<in> dependents gvr ns name (w_deps w). state = objAbsent \<and> k \<notin> X \<and>
       represents s \<lparr>dk_GVR = gvr, dk_Namespace = ns, dk_Name = name\<rparr> k}"
    "reacted (set evicted \<union> X) evicted (map (\<lambda>k. (k, gvr)) marked) w w'"
  using assms unfolding eventPost_def by blast+

lemma event_post:
  assumes "w_store w = Some s" "wf s" "depEventSeq (w_deps w) + 1 \<noteq> 0" "enqueueFn (dt_hooks (w_deps w))"
    and "OnObjectEvent gvr ns name state w = ((n, m), w')"
  shows "\<exists>evicted marked X. n = length evicted \<and> m = length marked \<and> eventPost gvr ns name state s w evicted marked X w'"
proof -
  let ?self = "\<lparr>dk_GVR = gvr, dk_Namespace = ns, dk_Name = name\<rparr>"
  let ?w1 = "onDeps (bumpCoordinateGen gvr ns name)
     (if state = objAbsent then onDeps (call (ObjectGone gvr ns name)) (onDeps (call (ListCellsPending gvr ns name)) w)
      else onDeps (call (ListCellsPending gvr ns name)) w)"
  let ?ms = "collectMatchesForMark gvr ns name (w_deps ?w1)"
  note ann = announced [OF assms(1,3), of gvr ns name "state = objAbsent"]
  have deps: "fst ` set ?ms = dependents gvr ns name (w_deps w)" "distinct (map fst ?ms)"
    using ann by (simp_all add: matches_dependents dependents_def)
  have w1: "w_store ?w1 = Some s" using assms(1) by (simp add: onDeps_def)
  show ?thesis
  proof (cases "?ms = []")
    case True
    then have "((n, m), w') = ((0, 0), ?w1)" using assms(5) by (simp add: OnObjectEvent_def Let_def)
    then show ?thesis using ann deps(1) True
      by (intro exI [of _ "[]"] exI [of _ "{}"]) (simp add: eventPost_def)
  next
    case False
    obtain ev mk w2 where p: "partitionMatches state ?self ?ms ?w1 = (ev, mk, w2)" by (metis prod_cases3)
    obtain X where X: "dropped X ?w1 w2" "X \<subseteq> fst ` set ?ms" "\<forall>x\<in>X. overdue s x" "distinct (ev @ mk)"
      "set ev \<union> set mk = fst ` set ?ms" "set ev = {k \<in> fst ` set ?ms. state = objAbsent \<and> k \<notin> X \<and> represents s ?self k}"
      using partition_splits [OF w1 assms(2) deps(2) p] by blast
    obtain s2 where s2: "w_store w2 = Some s2" "wf s2" "\<And>k. st_index s2 k = (if k \<in> X then None else st_index s k)"
      using dropped_store [OF X(1) w1] assms(2) by metis
    let ?w3 = "if state = objUnknownDegraded then onDeps (tally DegradedNoEvict 1) w2 else w2"
    let ?w4 = "if ev \<noteq> [] then runEvictionBatch ev ?w3 else ?w3"
    let ?w5 = "onDeps (enqueueMarks gvr mk) ?w4"
    let ?w6 = "onDeps (tally DirtyMarkTotal (length mk)) ?w5"
    let ?w7 = "if state \<noteq> objAbsent then onDeps (tally EnqueueUpdateTotal (length mk)) ?w6 else ?w6"
    have out: "n = length ev" "m = length mk" "w' = ?w7"
      using assms(5) False p by (auto simp: OnObjectEvent_def Let_def)
    have none: "reacted {} [] [] v v" if "w_store v = Some t" for v t using reacted_dropped [OF dropped_refl [OF that]] .
    have r3: "reacted {} [] [] w2 ?w3" "w_store ?w3 = Some s2" using reacted_tally [OF s2(1)] none [OF s2(1)] s2(1) by (auto simp: onDeps_def)
    have "st_index s2 k \<noteq> None" if "k \<in> set ev" for k
      using that X(6) s2(3) [of k] by (auto simp: represents_def split: option.splits)
    then have r4: "reacted (set ev) ev [] ?w3 ?w4"
      using reacted_evictions [OF r3(2) s2(2), of ev] X(4) none [OF r3(2)] by auto
    have to4: "reacted (X \<union> set ev) ev [] w ?w4"
      using reacted_trans [OF reacted_trans [OF reacted_trans [OF conjunct1 [OF ann] reacted_dropped [OF X(1)]] r3(1)] r4] by simp
    then obtain s4 where s4: "w_store ?w4 = Some s4" "enqueueFn (dt_hooks (w_deps ?w4))"
      using assms(4) unfolding reacted_def by auto
    have r5: "reacted {} [] (map (\<lambda>k. (k, gvr)) mk) ?w4 ?w5" using reacted_marks [OF s4] .
    have s5: "w_store ?w5 = Some s4" "w_store ?w6 = Some s4" using s4(1) by (simp_all only: store_onDeps)
    have "reacted {} [] [] ?w5 ?w6" "reacted {} [] [] ?w6 ?w7"
      using reacted_tally [OF s5(1)] reacted_tally [OF s5(2)] none [OF s5(2)] by auto
    then have "reacted (X \<union> set ev) ev (map (\<lambda>k. (k, gvr)) mk) w w'"
      unfolding out(3) using reacted_trans [OF reacted_trans [OF reacted_trans [OF to4 r5]]] by fastforce
    then show ?thesis using X deps(1) out(1,2)
      by (intro exI [of _ ev] exI [of _ mk] exI [of _ X]) (simp add: eventPost_def Un_commute)
  qed
qed

section \<open>Properties\<close>

text \<open>C3: A coordinate event splits the keys with an edge in one of the coordinate's buckets into those it
  evicts and those it marks, each once. It evicts exactly the live cells that represent the object, and
  only when the object is absent; the probe may drop cells past their age bound on the way. Every evicted
  key is published, every other dependent goes to the refresher with the event's resource, no other cell
  is touched, and no bucket holds a key whose cell is gone.\<close>

theorem event_splits_dependents:
  assumes "w_store w = Some s" "wf s" "depWf (w_deps w)" "depEventSeq (w_deps w) + 1 \<noteq> 0"
    and "enqueueFn (dt_hooks (w_deps w))" "OnObjectEvent gvr ns name state w = ((n, m), w')"
  shows "\<exists>evicted marked late s'. w_store w' = Some s' \<and> n = length evicted \<and> m = length marked \<and>
    distinct (evicted @ marked) \<and> set evicted \<union> set marked = dependents gvr ns name (w_deps w) \<and>
    set evicted = {k \<in> dependents gvr ns name (w_deps w). state = objAbsent \<and> k \<notin> late \<and>
       represents s \<lparr>dk_GVR = gvr, dk_Namespace = ns, dk_Name = name\<rparr> k} \<and>
    late \<subseteq> dependents gvr ns name (w_deps w) \<and> (\<forall>k\<in>late. overdue s k) \<and>
    hookCalls (w_deps w') = hookCalls (w_deps w) @ map (\<lambda>k. (k, gvr)) marked \<and>
    publishedCalls (w_deps w') = publishedCalls (w_deps w) @ evicted \<and>
    (\<forall>k. st_index s' k = (if k \<in> set evicted \<union> late then None else st_index s k)) \<and>
    (\<forall>k\<in>set evicted \<union> late. k \<noteq> [] \<longrightarrow> (\<forall>dk. k \<notin> set (bucketKeys (w_deps w') dk)))"
proof -
  obtain ev mk X where e: "n = length ev" "m = length mk" "eventPost gvr ns name state s w ev mk X w'"
    using event_post [OF assms(1,2,4,5,6)] by blast
  then obtain s' where s': "w_store w' = Some s'" using assms(1) by (auto simp: eventPost_def reacted_def)
  have gone: "\<forall>k\<in>set ev \<union> X. k \<noteq> [] \<longrightarrow> (\<forall>dk. k \<notin> set (bucketKeys (w_deps w') dk))"
  proof (intro ballI impI allI)
    fix k dk assume "k \<in> set ev \<union> X" "k \<noteq> []"
    then show "k \<notin> set (bucketKeys (w_deps w') dk)"
      using e(3) assms(3) mirror_iff [of "w_deps w'" k dk] by (auto simp: eventPost_def reacted_def)
  qed
  have "reacted (set ev \<union> X) ev (map (\<lambda>k. (k, gvr)) mk) w w'" by (rule eventPostD [OF e(3)])
  then have r: "hookCalls (w_deps w') = hookCalls (w_deps w) @ map (\<lambda>k. (k, gvr)) mk"
    "publishedCalls (w_deps w') = publishedCalls (w_deps w) @ ev"
    "\<forall>k. st_index s' k = (if k \<in> set ev \<union> X then None else st_index s k)"
    using s' assms(1) by (simp_all add: reacted_def)
  note post = eventPostD [OF e(3)]
  show ?thesis
    by (rule exI [of _ ev], rule exI [of _ mk], rule exI [of _ X], rule exI [of _ s'], intro conjI)
      (rule s' e(1,2) r gone post)+
qed

text \<open>One cell that depends on a deployment by name, and the refresher wired.\<close>

definition exDeps :: DepTracker where
  "exDeps = runDep [RecordOp (exCtx []) ''w'' exGVR ''ns'' ''web'', WireHook True] (newDepTracker 10)"

lemma exDeps_index:
  "forward exDeps = [(\<lparr>dk_GVR = exGVR, dk_Namespace = ''ns'', dk_Name = ''web''\<rparr>, \<lparr>ks_keys = [''w''], ks_count = 1, ks_lastBumpSeq = 0\<rparr>)]"
  "depEventSeq exDeps = 0" "enqueueFn (dt_hooks exDeps)"
  by (simp_all add: exDeps_def runDep_def Record_def recordInternal_def recordInternalMode_def exCtx_def noteSinks_def recheckSink_def
      tapCapture_def insertEdge_def loadBucket_def newDepTracker_def defaultDepsMaxRecords_def commitEdge_def noteOwn_def ownSink_def
      addReverse_def tally_def SetRefreshHook_def gvrLastBumpSeq_def Let_def)

lemma exDeps_facts:
  "depWf exDeps" "dependents exGVR ''ns'' ''web'' exDeps = {''w''}" "typeDependents exGVR False exDeps = {''w''}"
proof -
  show "depWf exDeps" unfolding exDeps_def
    by (rule conjunct1 [OF runDep_wf [OF depWf_newDepTracker]]) (simp add: newDepTracker_def)
  show "dependents exGVR ''ns'' ''web'' exDeps = {''w''}"
    by (simp add: dependents_def coordinateBuckets_def bucketKeys_def exDeps_index listWildcard_def)
  show "typeDependents exGVR False exDeps = {''w''}"
    by (auto simp: typeDependents_def bucketKeys_def exDeps_index)
qed

lemma event_splits_dependents_witness:
  "\<exists>n m w'. OnObjectEvent exGVR ''ns'' ''web'' objExists \<lparr>w_deps = exDeps, w_store = Some exConfigured\<rparr> = ((n, m), w') \<and>
     n = 0 \<and> hookCalls (w_deps w') = hookCalls exDeps @ [(''w'', exGVR)]"
proof -
  let ?w = "\<lparr>w_deps = exDeps, w_store = Some exConfigured\<rparr>"
  obtain n m w' where e: "OnObjectEvent exGVR ''ns'' ''web'' objExists ?w = ((n, m), w')" by (metis prod.exhaust)
  have s: "w_store ?w = Some exConfigured" "wf exConfigured" "depWf (w_deps ?w)" "depEventSeq (w_deps ?w) + 1 \<noteq> 0"
    "enqueueFn (dt_hooks (w_deps ?w))"
    using exConfigured_sound exDeps_facts(1) by (simp_all add: sound_def exDeps_index)
  from event_splits_dependents [OF s e, unfolded depWorld.select_convs exDeps_facts(2)] show ?thesis
  proof (elim exE conjE)
    fix evicted marked late
    assume n: "n = length evicted" and d: "distinct (evicted @ marked)" and u: "set evicted \<union> set marked = {''w''}"
      and ev: "set evicted = {k \<in> {''w''}. objExists = objAbsent \<and> k \<notin> late \<and>
         represents exConfigured \<lparr>dk_GVR = exGVR, dk_Namespace = ''ns'', dk_Name = ''web''\<rparr> k}"
      and h: "hookCalls (w_deps w') = hookCalls exDeps @ map (\<lambda>k. (k, exGVR)) marked"
    have none: "evicted = []" using ev by simp
    then have "set marked = {''w''}" "distinct marked" using d u by simp_all
    then have "length marked = 1" using distinct_card [of marked] by simp
    then have "marked = [''w'']" using \<open>set marked = {''w''}\<close> by (cases marked) auto
    then show ?thesis using e n none h by (intro exI [of _ n] exI [of _ m] exI [of _ w']) simp
  qed
qed

text \<open>The appearance of a resource type marks exactly the keys with a list edge of the resource, its removal
  exactly the keys with any edge of it, each once, and both count what they mark.\<close>

theorem type_event_marks:
  assumes "enqueueFn (dt_hooks d)"
    and "(m, d') = (if removed then OnResourceTypeRemoved gvr d else OnResourceTypeAvailable gvr d)"
  shows "\<exists>marked. distinct marked \<and> set marked = typeDependents gvr (\<not> removed) d \<and> m = length marked \<and>
    hookCalls d' = hookCalls d @ map (\<lambda>k. (k, gvr)) marked \<and> bucketKeys d' = bucketKeys d"
proof -
  let ?d = "bumpResourceTypeGen gvr (\<not> removed) d"
  let ?ks = "map fst (collectTypeMatches gvr (\<not> removed) ?d)"
  have b: "bucketKeys ?d = bucketKeys d" unfolding indexOf_cong(4) [OF bump_struck(2)]
    by (simp add: indexOf_cong(4) [OF indexOf_side(2)])
  have h: "hookCalls ?d = hookCalls d" "dt_hooks ?d = dt_hooks d"
    by (simp_all add: bumpResourceTypeGen_def Let_def stamp_told hookCalls_def nextSeq_def raiseFloor_def call_def)
      (simp_all add: stamp_told [unfolded hookCalls_def])
  have ks: "distinct ?ks" "set ?ks = typeDependents gvr (\<not> removed) d"
    using type_matches [of gvr "\<not> removed" ?d] by (simp_all add: typeDependents_def b)
  have "(m, d') = dirtyMarkResourceType gvr ?ks ?d"
    using assms(2) by (cases removed) (simp_all add: OnResourceTypeRemoved_def OnResourceTypeAvailable_def Let_def)
  then have "m = length ?ks" "hookCalls d' = hookCalls d @ map (\<lambda>k. (k, gvr)) ?ks" "bucketKeys d' = bucketKeys d"
    using assms(1) h b enqueueMarks_effect [of gvr ?ks ?d]
      indexOf_cong(4) [of "enqueueMarks gvr ?ks ?d" ?d] indexOf_cong(4) [OF indexOf_side(1)]
    by (auto simp: dirtyMarkResourceType_def split: if_splits)
  with ks show ?thesis by blast
qed

lemma type_event_marks_witness:
  "\<exists>m d' marked. (m, d') = OnResourceTypeRemoved exGVR exDeps \<and> set marked = {''w''} \<and> m = length marked \<and>
     hookCalls d' = hookCalls exDeps @ map (\<lambda>k. (k, exGVR)) marked"
proof -
  obtain m d' where e: "(m, d') = OnResourceTypeRemoved exGVR exDeps" by (metis prod.exhaust)
  then have "(m, d') = (if True then OnResourceTypeRemoved exGVR exDeps else OnResourceTypeAvailable exGVR exDeps)" by simp
  from type_event_marks [OF exDeps_index(3) this] show ?thesis using e by (auto simp: exDeps_facts(3))
qed

end
