(* ===== verification/DepRace.thy ===== *)
theory DepRace
  imports DepIndex
begin

text \<open>
  The dependency tracker (cache/deps.go) under concurrency. The tracker takes no lock over its indexes:
  an event, a resolve and a removal interleave at every atomic access. Here each is a thread that makes
  one access per step, a bucket is an object with an address (so that a pruned bucket and its
  replacement differ), and a run is any order of steps. A range over one bucket and the compare-and-swap
  loop of a stamp count as one access. One dependency per resolve, one coordinate per event; the record
  cap, the reverse index's own races and the metrics are left out.

  Shown: an event that a resolve did not read is never lost while the bucket of the dependency stays the
  same object and the resolve records before it stores. Each of the two provisos is needed, and so is
  that the bucket was there before: without any one of them an event is lost.
\<close>

section \<open>Shared state and threads\<close>

text \<open>\<open>sh_rv\<close> is the version of what the informer's indexer holds: every applied event raises it.\<close>

record depShared =
  sh_seq :: "64 word"
  sh_rv :: nat
  sh_floor :: "GVR \<Rightarrow> 64 word"
  sh_forward :: "DepKey \<Rightarrow> nat option"
  sh_heap :: "nat \<Rightarrow> keySet"
  sh_next :: nat
  sh_reverse :: "gostring \<Rightarrow> DepKey list"
  sh_cells :: "gostring \<Rightarrow> nat option"
  sh_marks :: "gostring list"

record depEvent =
  ev_gvr :: GVR
  ev_ns :: gostring
  ev_name :: gostring
  ev_rv :: nat
  ev_seq :: "64 word"
  ev_found :: "gostring list"

text \<open>A resolve of one cell with one dependency; a late one records after it stored (the content cells).\<close>

record depJob =
  jb_key :: gostring
  jb_dk :: DepKey
  jb_late :: bool
  jb_start :: "64 word"
  jb_body :: nat
  jb_checked :: "64 word"
  jb_remarked :: bool

datatype depThread =
    EvApply depEvent | EvAdd depEvent | EvFloor depEvent
  | EvLoad depEvent "DepKey list" | EvStamp depEvent DepKey nat "DepKey list"
  | EvVisit depEvent "DepKey list" | EvRange depEvent DepKey nat "DepKey list"
  | EvMark depEvent | EvDone depEvent
  | ResEnter depJob | ResFetch depJob
  | RecBucket depJob | RecFloor depJob nat | RecStamp depJob nat "64 word" | RecKey depJob nat | RecCount depJob nat
  | RecReverse depJob
  | ResPut depJob | ResSeq depJob | ScanLoad depJob | ScanStamp depJob nat | ScanFloor depJob | ResRemark depJob
  | LateLoad depJob | LateStamp depJob nat | LateFloor depJob | LateRemark depJob | ResDone depJob
  | RmReverse gostring | RmLoad gostring "DepKey list" | RmKey gostring DepKey nat "DepKey list"
  | RmCount gostring DepKey nat "DepKey list" | RmPrune gostring DepKey nat "DepKey list" | RmDone gostring

definition evBuckets :: "depEvent \<Rightarrow> DepKey list" where
  "evBuckets ev = coordinateBuckets (ev_gvr ev) (ev_ns ev) (ev_name ev)"

definition updBucket :: "nat \<Rightarrow> (keySet \<Rightarrow> keySet) \<Rightarrow> depShared \<Rightarrow> depShared" where
  "updBucket a f s = s\<lparr>sh_heap := (sh_heap s)(a := f (sh_heap s a))\<rparr>"

section \<open>One access\<close>

text \<open>The event: the indexer first, then the sequence, the floor, the stamps, the collect, the marks.\<close>

fun stepEvent :: "depThread \<Rightarrow> depShared \<Rightarrow> depThread \<times> depShared" where
  "stepEvent (EvApply ev) s = (EvAdd (ev\<lparr>ev_rv := sh_rv s + 1\<rparr>), s\<lparr>sh_rv := sh_rv s + 1\<rparr>)"
| "stepEvent (EvAdd ev) s = (EvFloor (ev\<lparr>ev_seq := sh_seq s + 1\<rparr>), s\<lparr>sh_seq := sh_seq s + 1\<rparr>)"
| "stepEvent (EvFloor ev) s = (EvLoad ev (evBuckets ev),
     s\<lparr>sh_floor := (sh_floor s)(ev_gvr ev := storeMaxSeq (sh_floor s (ev_gvr ev)) (ev_seq ev))\<rparr>)"
| "stepEvent (EvLoad ev []) s = (EvVisit ev (evBuckets ev), s)"
| "stepEvent (EvLoad ev (dk # todo)) s =
     (case sh_forward s dk of None \<Rightarrow> EvLoad ev todo | Some a \<Rightarrow> EvStamp ev dk a todo, s)"
| "stepEvent (EvStamp ev dk a todo) s =
     (EvLoad ev todo, updBucket a (\<lambda>ks. ks\<lparr>ks_lastBumpSeq := storeMaxSeq (ks_lastBumpSeq ks) (ev_seq ev)\<rparr>) s)"
| "stepEvent (EvVisit ev []) s = (EvMark ev, s)"
| "stepEvent (EvVisit ev (dk # todo)) s =
     (case sh_forward s dk of None \<Rightarrow> EvVisit ev todo | Some a \<Rightarrow> EvRange ev dk a todo, s)"
| "stepEvent (EvRange ev dk a todo) s = (EvVisit (ev\<lparr>ev_found := ev_found ev @ ks_keys (sh_heap s a)\<rparr>) todo, s)"
| "stepEvent (EvMark ev) s = (EvDone ev, s\<lparr>sh_marks := sh_marks s @ remdups (ev_found ev)\<rparr>)"
| "stepEvent t s = (t, s)"

text \<open>A record: the bucket, its floor when it is new, the key, the count, the reverse edge.\<close>

fun stepRecord :: "depThread \<Rightarrow> depShared \<Rightarrow> depThread \<times> depShared" where
  "stepRecord (RecBucket j) s = (case sh_forward s (jb_dk j) of
       Some a \<Rightarrow> (RecKey j a, s)
     | None \<Rightarrow> (RecFloor j (sh_next s),
         s\<lparr>sh_forward := (sh_forward s)(jb_dk j \<mapsto> sh_next s),
           sh_heap := (sh_heap s)(sh_next s := \<lparr>ks_keys = [], ks_count = 0, ks_lastBumpSeq = 0\<rparr>),
           sh_next := sh_next s + 1\<rparr>))"
| "stepRecord (RecFloor j a) s = (RecStamp j a (sh_floor s (dk_GVR (jb_dk j))), s)"
| "stepRecord (RecStamp j a f) s =
     (RecKey j a, updBucket a (\<lambda>ks. ks\<lparr>ks_lastBumpSeq := storeMaxSeq (ks_lastBumpSeq ks) f\<rparr>) s)"
| "stepRecord (RecKey j a) s =
     (if jb_key j \<in> set (ks_keys (sh_heap s a))
      then (if jb_late j then LateLoad j else ResPut j, s)
      else (RecCount j a, updBucket a (\<lambda>ks. ks\<lparr>ks_keys := ks_keys ks @ [jb_key j]\<rparr>) s))"
| "stepRecord (RecCount j a) s = (RecReverse j, updBucket a (\<lambda>ks. ks\<lparr>ks_count := ks_count ks + 1\<rparr>) s)"
| "stepRecord (RecReverse j) s =
     (if jb_late j then LateLoad j else ResPut j,
      s\<lparr>sh_reverse := (sh_reverse s)(jb_key j := List.insert (jb_dk j) (sh_reverse s (jb_key j)))\<rparr>)"
| "stepRecord t s = (t, s)"

text \<open>The resolve: the entry, the read, the record, the write, the check; a late one records after the check.\<close>

definition afterCheck :: "depJob \<Rightarrow> depThread" where
  "afterCheck j = (if jb_late j then RecBucket j else ResDone j)"

fun stepResolve :: "depThread \<Rightarrow> depShared \<Rightarrow> depThread \<times> depShared" where
  "stepResolve (ResEnter j) s = (ResFetch (j\<lparr>jb_start := sh_seq s\<rparr>), s)"
| "stepResolve (ResFetch j) s =
     (let j = j\<lparr>jb_body := sh_rv s\<rparr> in (if jb_late j then ResPut j else RecBucket j, s))"
| "stepResolve (ResPut j) s = (ResSeq j, s\<lparr>sh_cells := (sh_cells s)(jb_key j \<mapsto> jb_body j)\<rparr>)"
| "stepResolve (ResSeq j) s = (ScanLoad (j\<lparr>jb_checked := sh_seq s, jb_remarked := False\<rparr>), s)"
| "stepResolve (ScanLoad j) s =
     (case sh_forward s (jb_dk j) of Some a \<Rightarrow> ScanStamp j a | None \<Rightarrow> ScanFloor j, s)"
| "stepResolve (ScanStamp j a) s =
     (if ks_lastBumpSeq (sh_heap s a) > jb_start j then ResRemark j else afterCheck j, s)"
| "stepResolve (ScanFloor j) s =
     (if sh_floor s (dk_GVR (jb_dk j)) > jb_start j then ResRemark j else afterCheck j, s)"
| "stepResolve (ResRemark j) s = (afterCheck (j\<lparr>jb_remarked := True\<rparr>), s\<lparr>sh_marks := sh_marks s @ [jb_key j]\<rparr>)"
| "stepResolve (LateLoad j) s =
     (if jb_remarked j then ResDone j
      else case sh_forward s (jb_dk j) of Some a \<Rightarrow> LateStamp j a | None \<Rightarrow> LateFloor j, s)"
| "stepResolve (LateStamp j a) s =
     (if ks_lastBumpSeq (sh_heap s a) > jb_checked j then LateRemark j else ResDone j, s)"
| "stepResolve (LateFloor j) s =
     (if sh_floor s (dk_GVR (jb_dk j)) > jb_checked j then LateRemark j else ResDone j, s)"
| "stepResolve (LateRemark j) s = (ResDone (j\<lparr>jb_remarked := True\<rparr>), s\<lparr>sh_marks := sh_marks s @ [jb_key j]\<rparr>)"
| "stepResolve t s = stepRecord t s"

text \<open>A removal: the reverse edges, then per bucket the key, the count, and the bucket when it is empty.\<close>

fun stepRemove :: "depThread \<Rightarrow> depShared \<Rightarrow> depThread \<times> depShared" where
  "stepRemove (RmReverse k) s = (RmLoad k (sh_reverse s k), s\<lparr>sh_reverse := (sh_reverse s)(k := [])\<rparr>)"
| "stepRemove (RmLoad k []) s = (RmDone k, s)"
| "stepRemove (RmLoad k (dk # todo)) s =
     (case sh_forward s dk of None \<Rightarrow> RmLoad k todo | Some a \<Rightarrow> RmKey k dk a todo, s)"
| "stepRemove (RmKey k dk a todo) s =
     (if k \<in> set (ks_keys (sh_heap s a))
      then (RmCount k dk a todo, updBucket a (\<lambda>ks. ks\<lparr>ks_keys := remove1 k (ks_keys ks)\<rparr>) s)
      else (RmLoad k todo, s))"
| "stepRemove (RmCount k dk a todo) s =
     (if ks_count (sh_heap s a) - 1 = 0 then RmPrune k dk a todo else RmLoad k todo,
      updBucket a (\<lambda>ks. ks\<lparr>ks_count := ks_count ks - 1\<rparr>) s)"
| "stepRemove (RmPrune k dk a todo) s =
     (RmLoad k todo, if sh_forward s dk = Some a then s\<lparr>sh_forward := (sh_forward s)(dk := None)\<rparr> else s)"
| "stepRemove t s = (t, s)"

definition isEvent :: "depThread \<Rightarrow> bool" where
  "isEvent t = (case t of EvApply _ \<Rightarrow> True | EvAdd _ \<Rightarrow> True | EvFloor _ \<Rightarrow> True | EvLoad _ _ \<Rightarrow> True
     | EvStamp _ _ _ _ \<Rightarrow> True | EvVisit _ _ \<Rightarrow> True | EvRange _ _ _ _ \<Rightarrow> True | EvMark _ \<Rightarrow> True | EvDone _ \<Rightarrow> True | _ \<Rightarrow> False)"

definition isRemove :: "depThread \<Rightarrow> bool" where
  "isRemove t = (case t of RmReverse _ \<Rightarrow> True | RmLoad _ _ \<Rightarrow> True | RmKey _ _ _ _ \<Rightarrow> True
     | RmCount _ _ _ _ \<Rightarrow> True | RmPrune _ _ _ _ \<Rightarrow> True | RmDone _ \<Rightarrow> True | _ \<Rightarrow> False)"

definition stepThread :: "depThread \<Rightarrow> depShared \<Rightarrow> depThread \<times> depShared" where
  "stepThread t s = (if isEvent t then stepEvent t s else if isRemove t then stepRemove t s else stepResolve t s)"

section \<open>Runs\<close>

type_synonym depMachine = "depThread list \<times> depShared"

fun stepAt :: "depMachine \<Rightarrow> nat \<Rightarrow> depMachine" where
  "stepAt (ts, s) i = (case stepThread (ts ! i) s of (t, s') \<Rightarrow> (ts[i := t], s'))"

definition runSchedule :: "nat list \<Rightarrow> depMachine \<Rightarrow> depMachine" where
  "runSchedule is' m = foldl stepAt m is'"

definition emptyShared :: depShared where
  "emptyShared = \<lparr>sh_seq = 0, sh_rv = 0, sh_floor = (\<lambda>_. 0), sh_forward = (\<lambda>_. None),
     sh_heap = (\<lambda>_. \<lparr>ks_keys = [], ks_count = 0, ks_lastBumpSeq = 0\<rparr>), sh_next = 0, sh_reverse = (\<lambda>_. []),
     sh_cells = (\<lambda>_. None), sh_marks = []\<rparr>"

definition newEvent :: "GVR \<Rightarrow> gostring \<Rightarrow> gostring \<Rightarrow> depThread" where
  "newEvent g ns n = EvApply \<lparr>ev_gvr = g, ev_ns = ns, ev_name = n, ev_rv = 0, ev_seq = 0, ev_found = []\<rparr>"

definition newResolve :: "gostring \<Rightarrow> DepKey \<Rightarrow> bool \<Rightarrow> depThread" where
  "newResolve k dk late = ResEnter \<lparr>jb_key = k, jb_dk = dk, jb_late = late, jb_start = 0, jb_body = 0,
     jb_checked = 0, jb_remarked = False\<rparr>"

section \<open>The environment of two threads\<close>

definition stampOf :: "nat \<Rightarrow> depShared \<Rightarrow> 64 word" where "stampOf a s = ks_lastBumpSeq (sh_heap s a)"
definition keysOf :: "nat \<Rightarrow> depShared \<Rightarrow> gostring list" where "keysOf a s = ks_keys (sh_heap s a)"

text \<open>What every step leaves to a thread that works on bucket \<open>a\<close> under key \<open>k\<close>.\<close>

definition grows :: "nat \<Rightarrow> gostring \<Rightarrow> depShared \<Rightarrow> depShared \<Rightarrow> bool" where
  "grows a k s s' \<longleftrightarrow> sh_seq s \<le> sh_seq s' \<and> sh_rv s \<le> sh_rv s' \<and> sh_next s \<le> sh_next s' \<and>
     stampOf a s \<le> stampOf a s' \<and> (k \<in> set (keysOf a s) \<longrightarrow> k \<in> set (keysOf a s')) \<and> set (sh_marks s) \<subseteq> set (sh_marks s')"

fun removes :: "gostring \<Rightarrow> depThread \<Rightarrow> bool" where
  "removes k (RmReverse k') \<longleftrightarrow> k' = k"
| "removes k (RmLoad k' _) \<longleftrightarrow> k' = k"
| "removes k (RmKey k' _ _ _) \<longleftrightarrow> k' = k"
| "removes k (RmCount k' _ _ _) \<longleftrightarrow> k' = k"
| "removes k (RmPrune k' _ _ _) \<longleftrightarrow> k' = k"
| "removes k _ \<longleftrightarrow> False"

lemmas kinds = isEvent_def isRemove_def
lemmas storeMax = storeMaxSeq_def

lemma step_not_remover: "\<not> removes k t \<Longrightarrow> \<not> removes k (fst (stepThread t s))"
proof (cases t)
  case (EvLoad ev todo) then show ?thesis by (cases todo) (auto simp: stepThread_def kinds split: option.split)
next
  case (EvVisit ev todo) then show ?thesis by (cases todo) (auto simp: stepThread_def kinds split: option.split)
next
  case (RmLoad k' todo)
  moreover assume "\<not> removes k t"
  ultimately show ?thesis by (cases todo) (auto simp: stepThread_def kinds split: option.split)
qed (auto simp: stepThread_def kinds afterCheck_def Let_def split: option.split)

lemma step_grows:
  assumes "\<not> removes k t" "a < sh_next s" "stepThread t s = (t', s')" "sh_seq s \<le> sh_seq s'"
  shows "grows a k s s'"
proof (cases t)
  case (EvLoad ev todo)
  then show ?thesis using assms by (cases todo) (auto simp: stepThread_def kinds grows_def)
next
  case (EvVisit ev todo)
  then show ?thesis using assms by (cases todo) (auto simp: stepThread_def kinds grows_def)
next
  case (RmLoad k' todo)
  then show ?thesis using assms by (cases todo) (auto simp: stepThread_def kinds grows_def)
qed (use assms in \<open>auto simp: stepThread_def kinds grows_def stampOf_def keysOf_def updBucket_def storeMax Let_def
       split: option.splits if_splits\<close>)

section \<open>The resolve and the event\<close>

text \<open>Where a resolve of \<open>k\<close> that records \<open>dk\<close> first stands, while \<open>a\<close> is the bucket of \<open>dk\<close>.\<close>

definition jobOK :: "gostring \<Rightarrow> DepKey \<Rightarrow> depJob \<Rightarrow> bool" where
  "jobOK k dk j \<longleftrightarrow> jb_key j = k \<and> jb_dk j = dk \<and> \<not> jb_late j"

definition readOK :: "gostring \<Rightarrow> DepKey \<Rightarrow> depShared \<Rightarrow> depJob \<Rightarrow> bool" where
  "readOK k dk s j \<longleftrightarrow> jobOK k dk j \<and> jb_start j \<le> sh_seq s \<and> jb_body j \<le> sh_rv s"

definition heldOK :: "gostring \<Rightarrow> DepKey \<Rightarrow> nat \<Rightarrow> depShared \<Rightarrow> depJob \<Rightarrow> bool" where
  "heldOK k dk a s j \<longleftrightarrow> readOK k dk s j \<and> k \<in> set (keysOf a s)"

fun resOK :: "gostring \<Rightarrow> DepKey \<Rightarrow> nat \<Rightarrow> depShared \<Rightarrow> depThread \<Rightarrow> bool" where
  "resOK k dk a s (ResEnter j) \<longleftrightarrow> jobOK k dk j"
| "resOK k dk a s (ResFetch j) \<longleftrightarrow> jobOK k dk j \<and> jb_start j \<le> sh_seq s"
| "resOK k dk a s (RecBucket j) \<longleftrightarrow> readOK k dk s j"
| "resOK k dk a s (RecKey j a') \<longleftrightarrow> readOK k dk s j \<and> a' = a"
| "resOK k dk a s (RecCount j a') \<longleftrightarrow> heldOK k dk a s j"
| "resOK k dk a s (RecReverse j) \<longleftrightarrow> heldOK k dk a s j"
| "resOK k dk a s (ResPut j) \<longleftrightarrow> heldOK k dk a s j"
| "resOK k dk a s (ResSeq j) \<longleftrightarrow> heldOK k dk a s j"
| "resOK k dk a s (ScanLoad j) \<longleftrightarrow> heldOK k dk a s j"
| "resOK k dk a s (ScanStamp j a') \<longleftrightarrow> heldOK k dk a s j \<and> a' = a"
| "resOK k dk a s (ResRemark j) \<longleftrightarrow> heldOK k dk a s j"
| "resOK k dk a s (ResDone j) \<longleftrightarrow> heldOK k dk a s j"
| "resOK k dk a s _ \<longleftrightarrow> False"

lemmas okDefs = jobOK_def readOK_def heldOK_def grows_def

lemma resOK_grows: "resOK k dk a s t \<Longrightarrow> grows a k s s' \<Longrightarrow> resOK k dk a s' t"
  by (cases t) (auto simp: okDefs)

lemma resOK_step:
  assumes "resOK k dk a s t" "sh_forward s dk = Some a" "stepThread t s = (t', s')"
  shows "resOK k dk a s' t'"
  using assms
  by (cases t) (auto simp: stepThread_def kinds okDefs keysOf_def updBucket_def Let_def afterCheck_def split: if_splits)

text \<open>Where an event that reaches \<open>dk\<close> stands.\<close>

definition evSeen :: "DepKey \<Rightarrow> depShared \<Rightarrow> depEvent \<Rightarrow> bool" where
  "evSeen dk s ev \<longleftrightarrow> dk \<in> set (evBuckets ev) \<and> ev_rv ev \<le> sh_rv s \<and> ev_seq ev \<le> sh_seq s"

definition evStamped :: "DepKey \<Rightarrow> nat \<Rightarrow> depShared \<Rightarrow> depEvent \<Rightarrow> bool" where
  "evStamped dk a s ev \<longleftrightarrow> evSeen dk s ev \<and> ev_seq ev \<le> stampOf a s"

fun evOK :: "DepKey \<Rightarrow> nat \<Rightarrow> depShared \<Rightarrow> depThread \<Rightarrow> bool" where
  "evOK dk a s (EvApply ev) \<longleftrightarrow> dk \<in> set (evBuckets ev)"
| "evOK dk a s (EvAdd ev) \<longleftrightarrow> dk \<in> set (evBuckets ev) \<and> ev_rv ev \<le> sh_rv s"
| "evOK dk a s (EvFloor ev) \<longleftrightarrow> evSeen dk s ev"
| "evOK dk a s (EvLoad ev todo) \<longleftrightarrow> evSeen dk s ev \<and> (dk \<in> set todo \<or> evStamped dk a s ev)"
| "evOK dk a s (EvStamp ev dk' a' todo) \<longleftrightarrow> evSeen dk s ev \<and>
     (dk' = dk \<longrightarrow> a' = a) \<and> (dk' = dk \<or> dk \<in> set todo \<or> evStamped dk a s ev)"
| "evOK dk a s (EvVisit ev todo) \<longleftrightarrow> evStamped dk a s ev"
| "evOK dk a s (EvRange ev dk' a' todo) \<longleftrightarrow> evStamped dk a s ev \<and> (dk' = dk \<longrightarrow> a' = a)"
| "evOK dk a s (EvMark ev) \<longleftrightarrow> evStamped dk a s ev"
| "evOK dk a s (EvDone ev) \<longleftrightarrow> evStamped dk a s ev \<and> set (ev_found ev) \<subseteq> set (sh_marks s)"
| "evOK dk a s _ \<longleftrightarrow> False"

lemma evOK_grows: "evOK dk a s t \<Longrightarrow> grows a k s s' \<Longrightarrow> evOK dk a s' t"
  by (cases t) (auto simp: evSeen_def evStamped_def grows_def)

lemma evOK_step:
  assumes "evOK dk a s t" "sh_forward s dk = Some a" "stepThread t s = (t', s')" "sh_seq s \<le> sh_seq s'"
  shows "evOK dk a s' t'"
proof (cases t)
  case (EvLoad ev todo)
  then show ?thesis using assms by (cases todo) (auto simp: stepThread_def kinds split: option.splits)
next
  case (EvVisit ev todo)
  then show ?thesis using assms by (cases todo) (auto simp: stepThread_def kinds split: option.splits)
next
  case (EvStamp ev dk' a' todo)
  then show ?thesis using assms
    by (auto simp: stepThread_def kinds evSeen_def evStamped_def evBuckets_def stampOf_def updBucket_def storeMax split: if_splits)
qed (use assms in \<open>auto simp: stepThread_def kinds evSeen_def evStamped_def evBuckets_def stampOf_def\<close>)

text \<open>What the two know of each other: a resolve that read before the event was applied has an earlier
  sequence, and is marked if the event did not find its key.\<close>

fun evOf :: "depThread \<Rightarrow> depEvent option" where
  "evOf (EvFloor ev) = Some ev"
| "evOf (EvLoad ev _) = Some ev"
| "evOf (EvStamp ev _ _ _) = Some ev"
| "evOf (EvVisit ev _) = Some ev"
| "evOf (EvRange ev _ _ _) = Some ev"
| "evOf (EvMark ev) = Some ev"
| "evOf (EvDone ev) = Some ev"
| "evOf _ = None"

fun readJob :: "depThread \<Rightarrow> depJob option" where
  "readJob (RecBucket j) = Some j"
| "readJob (RecKey j _) = Some j"
| "readJob (RecCount j _) = Some j"
| "readJob (RecReverse j) = Some j"
| "readJob (ResPut j) = Some j"
| "readJob (ResSeq j) = Some j"
| "readJob (ScanLoad j) = Some j"
| "readJob (ScanStamp j _) = Some j"
| "readJob (ResRemark j) = Some j"
| "readJob (ResDone j) = Some j"
| "readJob _ = None"

fun visited :: "DepKey \<Rightarrow> depThread \<Rightarrow> bool" where
  "visited dk (EvVisit ev todo) \<longleftrightarrow> dk \<notin> set todo"
| "visited dk (EvRange ev dk' a todo) \<longleftrightarrow> dk' \<noteq> dk \<and> dk \<notin> set todo"
| "visited dk (EvMark ev) \<longleftrightarrow> True"
| "visited dk (EvDone ev) \<longleftrightarrow> True"
| "visited dk _ \<longleftrightarrow> False"

text \<open>The event was applied after the read: the check of the resolve or the collect of the event sees the other.\<close>

definition orderedOK :: "gostring \<Rightarrow> DepKey \<Rightarrow> depShared \<Rightarrow> depThread \<Rightarrow> depThread \<Rightarrow> bool" where
  "orderedOK k dk s e r \<longleftrightarrow> (\<forall>j. readJob r = Some j \<longrightarrow>
     (\<forall>ev. e = EvAdd ev \<longrightarrow> jb_start j \<le> sh_seq s) \<and>
     (\<forall>ev. evOf e = Some ev \<and> jb_body j < ev_rv ev \<longrightarrow> jb_start j < ev_seq ev \<and>
        (visited dk e \<and> k \<notin> set (ev_found ev) \<and> r = ResDone j \<longrightarrow> k \<in> set (sh_marks s))))"

lemma orderedOK_grows: "orderedOK k dk s e r \<Longrightarrow> grows a k s s' \<Longrightarrow> orderedOK k dk s' e r"
  by (fastforce simp: orderedOK_def grows_def)

lemma readJob_start: "resOK k dk a s r \<Longrightarrow> readJob r = Some j \<Longrightarrow> jb_start j \<le> sh_seq s \<and> jb_body j \<le> sh_rv s"
  by (cases r) (auto simp: okDefs)

lemma done_held: "resOK k dk a s (ResDone j) \<Longrightarrow> k \<in> set (keysOf a s)"
  by (simp add: heldOK_def)

lemma visited_stamped: "evOK dk a s e \<Longrightarrow> visited dk e \<Longrightarrow> evOf e = Some ev \<Longrightarrow> ev_seq ev \<le> stampOf a s"
  by (cases e) (auto simp: evStamped_def)

lemma orderedOK_event:
  assumes "orderedOK k dk s e r" "evOK dk a s e" "resOK k dk a s r" "sh_forward s dk = Some a"
    and "stepThread e s = (e', s')" "sh_seq s \<le> sh_seq s'"
  shows "orderedOK k dk s' e' r"
proof -
  have up: "sh_seq s < sh_seq s + 1" if "sh_seq s \<le> sh_seq s + 1"
    using that by (simp add: less_le)
  show ?thesis
  proof (cases e)
    case (EvLoad ev todo)
    then show ?thesis using assms by (cases todo) (auto simp: stepThread_def kinds orderedOK_def evSeen_def evStamped_def split: option.splits)
  next
    case (EvVisit ev todo)
    then show ?thesis using assms by (cases todo) (auto simp: stepThread_def kinds orderedOK_def split: option.splits)
  next
    case (EvRange ev dk' a' todo)
    then show ?thesis using assms done_held [of k dk a s]
      by (auto simp: stepThread_def kinds orderedOK_def keysOf_def)
  next
    case (EvApply ev)
    then show ?thesis using assms readJob_start [OF assms(3)] by (auto simp: stepThread_def kinds orderedOK_def)
  next
    case (EvAdd ev)
    then show ?thesis using assms readJob_start [OF assms(3)] up
      by (auto simp: stepThread_def kinds orderedOK_def intro: le_less_trans)
  qed (use assms in \<open>auto simp: stepThread_def kinds orderedOK_def updBucket_def\<close>)
qed

lemma orderedOK_resolve:
  assumes "orderedOK k dk s e r" "evOK dk a s e" "resOK k dk a s r" "sh_forward s dk = Some a"
    and "stepThread r s = (r', s')"
  shows "orderedOK k dk s' e r'"
proof (cases r)
  case (ResFetch j)
  have "ev_rv ev \<le> sh_rv s" if "evOf e = Some ev" for ev
    using assms(2) that by (cases e) (auto simp: evSeen_def evStamped_def)
  then show ?thesis using assms ResFetch by (fastforce simp: stepThread_def kinds orderedOK_def okDefs Let_def)
next
  case (ScanStamp j a')
  have "jb_start j < stampOf a s" if "evOf e = Some ev" "jb_body j < ev_rv ev" "visited dk e" for ev
    using assms(1) that ScanStamp visited_stamped [OF assms(2) that(3,1)] by (auto simp: orderedOK_def)
  then show ?thesis using assms ScanStamp
    by (auto simp: stepThread_def kinds orderedOK_def okDefs stampOf_def afterCheck_def split: if_splits)
next
  case (ResRemark j)
  then show ?thesis using assms by (auto simp: stepThread_def kinds orderedOK_def okDefs afterCheck_def)
qed (use assms in \<open>auto simp: stepThread_def kinds orderedOK_def okDefs updBucket_def split: if_splits\<close>)

section \<open>Runs on one bucket\<close>

text \<open>Runs in any order of steps, as long as \<open>a\<close> stays the bucket of \<open>dk\<close> and the sequence does not wrap around.\<close>

inductive quietRun :: "DepKey \<Rightarrow> nat \<Rightarrow> depMachine \<Rightarrow> depMachine \<Rightarrow> bool" for dk a where
  start: "sh_forward (snd m) dk = Some a \<Longrightarrow> a < sh_next (snd m) \<Longrightarrow> quietRun dk a m m"
| step: "quietRun dk a m m' \<Longrightarrow> i < length (fst m') \<Longrightarrow> sh_forward (snd (stepAt m' i)) dk = Some a \<Longrightarrow>
    sh_seq (snd m') \<le> sh_seq (snd (stepAt m' i)) \<Longrightarrow> quietRun dk a m (stepAt m' i)"

definition twoOK :: "gostring \<Rightarrow> DepKey \<Rightarrow> nat \<Rightarrow> nat \<Rightarrow> nat \<Rightarrow> depMachine \<Rightarrow> bool" where
  "twoOK k dk a e r m \<longleftrightarrow> e < length (fst m) \<and> r < length (fst m) \<and> e \<noteq> r \<and>
     (\<forall>t\<in>set (fst m). \<not> removes k t) \<and> sh_forward (snd m) dk = Some a \<and> a < sh_next (snd m) \<and>
     evOK dk a (snd m) (fst m ! e) \<and> resOK k dk a (snd m) (fst m ! r) \<and> orderedOK k dk (snd m) (fst m ! e) (fst m ! r)"

lemma twoOK_step:
  assumes "twoOK k dk a e r (ts, s)" "i < length ts" "stepThread (ts ! i) s = (t', s')"
    and "sh_forward s' dk = Some a" "sh_seq s \<le> sh_seq s'"
  shows "twoOK k dk a e r (ts[i := t'], s')"
proof -
  have inv: "evOK dk a s (ts ! e)" "resOK k dk a s (ts ! r)" "orderedOK k dk s (ts ! e) (ts ! r)" "sh_forward s dk = Some a"
    "a < sh_next s" "e \<noteq> r" "e < length ts" "r < length ts" "\<forall>t\<in>set ts. \<not> removes k t"
    using assms(1) by (simp_all add: twoOK_def)
  have nr: "\<not> removes k (ts ! i)" using inv(9) assms(2) by simp
  have g: "grows a k s s'" using step_grows [OF nr inv(5) assms(3,5)] .
  have "\<not> removes k t'" using step_not_remover [OF nr, of s] assms(3) by simp
  then have rm: "\<forall>t\<in>set (ts[i := t']). \<not> removes k t" using inv(9) by (auto dest!: subsetD [OF set_update_subset_insert])
  consider (event) "i = e" | (resolve) "i = r" | (other) "i \<noteq> e" "i \<noteq> r" by blast
  then have "evOK dk a s' (ts[i := t'] ! e) \<and> resOK k dk a s' (ts[i := t'] ! r) \<and> orderedOK k dk s' (ts[i := t'] ! e) (ts[i := t'] ! r)"
  proof cases
    case event
    then show ?thesis using inv assms(3,5) g resOK_grows evOK_step orderedOK_event by auto
  next
    case resolve
    then show ?thesis using inv assms(3,5) g evOK_grows resOK_step orderedOK_resolve by auto
  next
    case other
    then show ?thesis using inv g evOK_grows resOK_grows orderedOK_grows by auto
  qed
  moreover have "a < sh_next s'" using g inv(5) by (simp add: grows_def)
  ultimately show ?thesis using inv rm assms(4) by (simp add: twoOK_def)
qed

lemma twoOK_run: "quietRun dk a m m' \<Longrightarrow> twoOK k dk a e r m \<Longrightarrow> twoOK k dk a e r m'"
proof (induction rule: quietRun.induct)
  case (step m m' i)
  obtain ts s where m': "m' = (ts, s)" by fastforce
  obtain t' s' where st: "stepThread (ts ! i) s = (t', s')" by fastforce
  show ?case using twoOK_step [of k dk a e r ts s i t' s'] step st by (simp add: m')
qed

section \<open>Properties\<close>

text \<open>C2: Any number of events, resolves, records and removals run interleaved at every access. Let a resolve
  of a cell record its dependency before it stores, let nobody strip the cell's own edges, and let the
  bucket of the dependency be the same object throughout. Then whenever the resolve and an event on the
  dependency have both finished, and the stored body is older than the event, the key was enqueued: by the
  event that found the edge or by the check of the write that saw the stamp.\<close>

theorem no_event_lost:
  assumes "quietRun dk a (ts, s) (ts', s')" "\<forall>t\<in>set ts. \<not> removes k t"
    and "e < length ts" "ts ! e = newEvent g ns n" "dk \<in> set (coordinateBuckets g ns n)"
    and "r < length ts" "ts ! r = newResolve k dk False"
    and "ts' ! e = EvDone ev" "ts' ! r = ResDone j" "jb_body j < ev_rv ev"
  shows "k \<in> set (sh_marks s')"
proof -
  have "e \<noteq> r" using assms(4,7) by (auto simp: newEvent_def newResolve_def)
  moreover have "sh_forward s dk = Some a \<and> a < sh_next s"
    using assms(1) by (induction "(ts, s)" "(ts', s')" arbitrary: ts' s' rule: quietRun.induct) auto
  ultimately have "twoOK k dk a e r (ts, s)" using assms(2-7)
    by (simp add: twoOK_def newEvent_def newResolve_def jobOK_def orderedOK_def evBuckets_def)
  from twoOK_run [OF assms(1) this] have "evOK dk a s' (EvDone ev)" "orderedOK k dk s' (EvDone ev) (ResDone j)"
    by (simp_all add: twoOK_def assms(8,9))
  then show ?thesis using assms(10) by (auto simp: orderedOK_def)
qed

fun finished :: "depThread \<Rightarrow> bool" where
  "finished (EvDone _) \<longleftrightarrow> True"
| "finished (ResDone _) \<longleftrightarrow> True"
| "finished (RmDone _) \<longleftrightarrow> True"
| "finished _ \<longleftrightarrow> False"

section \<open>Concrete runs\<close>

fun quiet :: "DepKey \<Rightarrow> nat \<Rightarrow> nat list \<Rightarrow> depMachine \<Rightarrow> bool" where
  "quiet dk a [] m \<longleftrightarrow> True"
| "quiet dk a (i # is') m \<longleftrightarrow> (let m' = stepAt m i in
     i < length (fst m) \<and> sh_forward (snd m') dk = Some a \<and> sh_seq (snd m) \<le> sh_seq (snd m') \<and> quiet dk a is' m')"

lemma quietRun_schedule:
  "quietRun dk a m0 m \<Longrightarrow> quiet dk a is' m \<Longrightarrow> quietRun dk a m0 (runSchedule is' m)"
proof (induction is' arbitrary: m)
  case (Cons i is')
  then show ?case using quietRun.step [OF Cons.prems(1), of i] by (simp add: runSchedule_def Let_def)
qed (simp add: runSchedule_def)

definition raceGVR :: GVR where "raceGVR = (''apps'', ''v1'', ''deployments'')"
definition raceKey :: DepKey where "raceKey = \<lparr>dk_GVR = raceGVR, dk_Namespace = ''ns'', dk_Name = ''web''\<rparr>"

text \<open>One cell \<open>v\<close> already depends on the object.\<close>

definition warmShared :: depShared where
  "warmShared = emptyShared\<lparr>sh_forward := [raceKey \<mapsto> 0], sh_next := 1, sh_reverse := (\<lambda>_. [])(''v'' := [raceKey]),
     sh_heap := (sh_heap emptyShared)(0 := \<lparr>ks_keys = [''v''], ks_count = 1, ks_lastBumpSeq = 0\<rparr>)\<rparr>"

definition raceEvent :: depThread where "raceEvent = newEvent raceGVR ''ns'' ''web''"

definition raceJob :: depJob where
  "raceJob = \<lparr>jb_key = ''w'', jb_dk = raceKey, jb_late = False, jb_start = 0, jb_body = 0, jb_checked = 0, jb_remarked = False\<rparr>"

text \<open>A second recorder stores and checks before the creator of the bucket has inherited the floor.\<close>

definition coldRun :: depMachine where
  "coldRun = runSchedule (replicate 2 0 @ replicate 14 2 @ replicate 3 1 @ replicate 8 0 @ replicate 9 1)
     ([newResolve ''w'' raceKey False, newResolve ''v'' raceKey False, raceEvent], emptyShared)"

text \<open>A late resolve takes its checked sequence inside the event, and both its scans miss the event.\<close>

definition tornRun :: depMachine where
  "tornRun = runSchedule (replicate 2 0 @ replicate 2 1 @ replicate 4 0 @ replicate 12 1 @ replicate 9 0)
     ([newResolve ''w'' raceKey True, raceEvent], emptyShared)"

text \<open>The event stamps the bucket before the resolve records and checks, and collects after.\<close>

definition watchedSchedule :: "nat list" where
  "watchedSchedule = replicate 2 1 @ replicate 5 0 @ replicate 9 1 @ replicate 14 0"

definition watchedStart :: depMachine where
  "watchedStart = ([raceEvent, newResolve ''w'' raceKey False], warmShared)"

lemma no_event_lost_witness:
  "''w'' \<in> set (sh_marks (snd (runSchedule watchedSchedule watchedStart)))"
proof -
  let ?ts = "fst (runSchedule watchedSchedule watchedStart)"
  let ?ev = "\<lparr>ev_gvr = raceGVR, ev_ns = ''ns'', ev_name = ''web'', ev_rv = 1, ev_seq = 1, ev_found = [''v'', ''w'']\<rparr>"
  let ?j = "\<lparr>jb_key = ''w'', jb_dk = raceKey, jb_late = False, jb_start = 0, jb_body = 0, jb_checked = 1, jb_remarked = True\<rparr>"
  have "quiet raceKey 0 watchedSchedule watchedStart" by code_simp
  then have run: "quietRun raceKey 0 ([raceEvent, newResolve ''w'' raceKey False], warmShared)
      (?ts, snd (runSchedule watchedSchedule watchedStart))"
    using quietRun_schedule [OF quietRun.start, of watchedStart raceKey 0 watchedSchedule]
    by (simp add: watchedStart_def warmShared_def)
  have e: "?ts ! 0 = EvDone ?ev" by code_simp
  have j: "?ts ! 1 = ResDone ?j" by code_simp
  show ?thesis
    by (rule no_event_lost [where g = raceGVR and ns = "''ns''" and n = "''web''", OF run _ _ _ _ _ _ e j])
      (simp_all add: raceEvent_def raceKey_def coordinateBuckets_def newResolve_def newEvent_def)
qed

section \<open>An edge in a pruned bucket\<close>

text \<open>Threads that neither hold the key \<open>k\<close> nor work for it nor remove it.\<close>

fun apart :: "gostring \<Rightarrow> depShared \<Rightarrow> depThread \<Rightarrow> bool" where
  "apart k s (EvApply ev) \<longleftrightarrow> k \<notin> set (ev_found ev)"
| "apart k s (EvAdd ev) \<longleftrightarrow> k \<notin> set (ev_found ev)"
| "apart k s (EvFloor ev) \<longleftrightarrow> k \<notin> set (ev_found ev)"
| "apart k s (EvLoad ev todo) \<longleftrightarrow> k \<notin> set (ev_found ev)"
| "apart k s (EvStamp ev dk a todo) \<longleftrightarrow> k \<notin> set (ev_found ev)"
| "apart k s (EvVisit ev todo) \<longleftrightarrow> k \<notin> set (ev_found ev)"
| "apart k s (EvRange ev dk a todo) \<longleftrightarrow> k \<notin> set (ev_found ev) \<and> k \<notin> set (keysOf a s)"
| "apart k s (EvMark ev) \<longleftrightarrow> k \<notin> set (ev_found ev)"
| "apart k s (EvDone ev) \<longleftrightarrow> True"
| "apart k s (ResEnter j) \<longleftrightarrow> jb_key j \<noteq> k"
| "apart k s (ResFetch j) \<longleftrightarrow> jb_key j \<noteq> k"
| "apart k s (RecBucket j) \<longleftrightarrow> jb_key j \<noteq> k"
| "apart k s (RecFloor j a) \<longleftrightarrow> jb_key j \<noteq> k"
| "apart k s (RecStamp j a f) \<longleftrightarrow> jb_key j \<noteq> k"
| "apart k s (RecKey j a) \<longleftrightarrow> jb_key j \<noteq> k"
| "apart k s (RecCount j a) \<longleftrightarrow> jb_key j \<noteq> k"
| "apart k s (RecReverse j) \<longleftrightarrow> jb_key j \<noteq> k"
| "apart k s (ResPut j) \<longleftrightarrow> jb_key j \<noteq> k"
| "apart k s (ResSeq j) \<longleftrightarrow> jb_key j \<noteq> k"
| "apart k s (ScanLoad j) \<longleftrightarrow> jb_key j \<noteq> k"
| "apart k s (ScanStamp j a) \<longleftrightarrow> jb_key j \<noteq> k"
| "apart k s (ScanFloor j) \<longleftrightarrow> jb_key j \<noteq> k"
| "apart k s (ResRemark j) \<longleftrightarrow> jb_key j \<noteq> k"
| "apart k s (LateLoad j) \<longleftrightarrow> jb_key j \<noteq> k"
| "apart k s (LateStamp j a) \<longleftrightarrow> jb_key j \<noteq> k"
| "apart k s (LateFloor j) \<longleftrightarrow> jb_key j \<noteq> k"
| "apart k s (LateRemark j) \<longleftrightarrow> jb_key j \<noteq> k"
| "apart k s (ResDone j) \<longleftrightarrow> True"
| "apart k s (RmReverse k') \<longleftrightarrow> k' \<noteq> k"
| "apart k s (RmLoad k' todo) \<longleftrightarrow> k' \<noteq> k"
| "apart k s (RmKey k' dk a todo) \<longleftrightarrow> k' \<noteq> k"
| "apart k s (RmCount k' dk a todo) \<longleftrightarrow> k' \<noteq> k"
| "apart k s (RmPrune k' dk a todo) \<longleftrightarrow> k' \<noteq> k"
| "apart k s (RmDone k') \<longleftrightarrow> True"

text \<open>No bucket an event can reach holds \<open>k\<close>, and nothing enqueued it, though its cell and its own edge are there.\<close>

definition stranded :: "gostring \<Rightarrow> DepKey \<Rightarrow> nat \<Rightarrow> depShared \<Rightarrow> bool" where
  "stranded k dk v s \<longleftrightarrow> (\<forall>dk' a. sh_forward s dk' = Some a \<longrightarrow> k \<notin> set (keysOf a s)) \<and> k \<notin> set (sh_marks s) \<and>
     sh_cells s k = Some v \<and> dk \<in> set (sh_reverse s k)"

definition noNewHolder :: "gostring \<Rightarrow> depShared \<Rightarrow> depShared \<Rightarrow> bool" where
  "noNewHolder k s s' \<longleftrightarrow> (\<forall>a. k \<in> set (keysOf a s') \<longrightarrow> k \<in> set (keysOf a s))"

lemma apart_mono: "apart k s t \<Longrightarrow> noNewHolder k s s' \<Longrightarrow> apart k s' t"
  by (cases t) (auto simp: noNewHolder_def)

lemma apart_step:
  assumes "apart k s t" "stranded k dk v s" "stepThread t s = (t', s')"
  shows "stranded k dk v s'" "noNewHolder k s s'" "apart k s' t'"
proof -
  have "stranded k dk v s' \<and> noNewHolder k s s' \<and> apart k s' t'"
  proof (cases t)
    case (EvLoad ev todo)
    then show ?thesis using assms by (cases todo) (auto simp: stepThread_def kinds noNewHolder_def split: option.splits)
  next
    case (EvVisit ev todo)
    then show ?thesis using assms
      by (cases todo) (auto simp: stepThread_def kinds noNewHolder_def stranded_def split: option.splits)
  next
    case (RmLoad k' todo)
    then show ?thesis using assms by (cases todo) (auto simp: stepThread_def kinds noNewHolder_def split: option.splits)
  qed (use assms in \<open>auto simp: stepThread_def kinds noNewHolder_def stranded_def keysOf_def updBucket_def afterCheck_def
       Let_def split: option.splits if_splits dest: subsetD [OF set_remove1_subset]\<close>)
  then show "stranded k dk v s'" "noNewHolder k s s'" "apart k s' t'" by auto
qed

lemma stranded_run:
  assumes "stranded k dk v s" "\<forall>t\<in>set ts. apart k s t" "\<forall>i\<in>set is'. i < length ts"
  shows "stranded k dk v (snd (runSchedule is' (ts, s)))"
  using assms
proof (induction is' arbitrary: ts s)
  case (Cons i is')
  obtain t' s' where st: "stepThread (ts ! i) s = (t', s')" by fastforce
  have "apart k s (ts ! i)" using Cons.prems(2,3) by simp
  note step = apart_step [OF this Cons.prems(1) st]
  have "\<forall>t\<in>set (ts[i := t']). apart k s' t"
    using Cons.prems(2) step(2,3) apart_mono by (auto dest!: subsetD [OF set_update_subset_insert])
  then show ?case using Cons.IH [OF step(1), of "ts[i := t']"] Cons.prems(3) st by (simp add: runSchedule_def)
qed (simp add: runSchedule_def)

text \<open>The removal takes the last key of the bucket between its load and the insert of \<open>k\<close>; then the resolve goes on.\<close>

definition pruneBetween :: "nat list" where
  "pruneBetween = [1, 0, 0, 0, 1, 1, 1, 1, 1, 1, 1]"

lemma runSchedule_Nil: "runSchedule [] m = m"
  by (simp add: runSchedule_def)

lemma runSchedule_Cons: "runSchedule (i # is') m = runSchedule is' (stepAt m i)"
  by (simp add: runSchedule_def)

lemma runSchedule_append: "runSchedule (is' @ js) m = runSchedule js (runSchedule is' m)"
  by (simp add: runSchedule_def)

lemmas runOnce = runSchedule_Cons runSchedule_Nil stepThread_def kinds

definition prunedShared :: "depShared \<Rightarrow> DepKey \<Rightarrow> nat \<Rightarrow> depShared" where
  "prunedShared s dk a = s\<lparr>sh_forward := (sh_forward s)(dk := None),
     sh_heap := (sh_heap s)(a := (sh_heap s a)\<lparr>ks_keys := [], ks_count := 0\<rparr>)\<rparr>"

lemma removal_prunes:
  assumes "sh_forward s dk = Some a" "ks_keys (sh_heap s a) = [k0]" "ks_count (sh_heap s a) = 1"
  shows "runSchedule [0, 0, 0] (RmKey k0 dk a todo # ts, s) = (RmLoad k0 todo # ts, prunedShared s dk a)"
  using assms by (simp add: runOnce updBucket_def prunedShared_def)

definition heldShared :: "depShared \<Rightarrow> depJob \<Rightarrow> nat \<Rightarrow> depShared" where
  "heldShared s j a = s\<lparr>sh_heap := (sh_heap s)(a := (sh_heap s a)\<lparr>ks_keys := ks_keys (sh_heap s a) @ [jb_key j],
       ks_count := ks_count (sh_heap s a) + 1\<rparr>),
     sh_reverse := (sh_reverse s)(jb_key j := List.insert (jb_dk j) (sh_reverse s (jb_key j))),
     sh_cells := (sh_cells s)(jb_key j \<mapsto> jb_body j)\<rparr>"

lemma resolve_stores:
  assumes "jb_key j \<notin> set (ks_keys (sh_heap s a))" "sh_forward s (jb_dk j) = None" "\<not> jb_late j"
    and "sh_floor s (dk_GVR (jb_dk j)) \<le> jb_start j"
  shows "runSchedule [1, 1, 1, 1, 1, 1, 1] (t # RecKey j a # ts, s)
    = (t # ResDone (j\<lparr>jb_checked := sh_seq s, jb_remarked := False\<rparr>) # ts, heldShared s j a)"
  using assms by (simp add: runOnce updBucket_def heldShared_def afterCheck_def not_less)

lemma prune_strands:
  assumes "sh_forward s dk = Some a" "\<forall>dk'. sh_forward s dk' = Some a \<longrightarrow> dk' = dk"
    and "ks_keys (sh_heap s a) = [k0]" "ks_count (sh_heap s a) = 1" "k0 \<noteq> k"
    and "jb_key j = k" "jb_dk j = dk" "\<not> jb_late j" "sh_floor s (dk_GVR dk) \<le> jb_start j"
    and "\<forall>dk' a'. sh_forward s dk' = Some a' \<longrightarrow> k \<notin> set (keysOf a' s)" "k \<notin> set (sh_marks s)"
  shows "\<exists>s' j'. runSchedule pruneBetween (RmKey k0 dk a todo # RecBucket j # ts, s) = (RmLoad k0 todo # ResDone j' # ts, s') \<and>
    stranded k dk (jb_body j) s'"
proof -
  let ?s = "prunedShared s dk a"
  have "stepAt (RmKey k0 dk a todo # RecBucket j # ts, s) 1 = (RmKey k0 dk a todo # RecKey j a # ts, s)"
    using assms(1,7) by (simp add: stepThread_def kinds)
  then have "runSchedule pruneBetween (RmKey k0 dk a todo # RecBucket j # ts, s)
      = runSchedule [1, 1, 1, 1, 1, 1, 1] (runSchedule [0, 0, 0] (RmKey k0 dk a todo # RecKey j a # ts, s))"
    unfolding pruneBetween_def by (simp only: runSchedule_Cons runSchedule_Nil)
  also have "\<dots> = (RmLoad k0 todo # ResDone (j\<lparr>jb_checked := sh_seq ?s, jb_remarked := False\<rparr>) # ts, heldShared ?s j a)"
    unfolding removal_prunes [OF assms(1,3,4)]
    by (rule resolve_stores) (use assms(6-9) in \<open>simp_all add: prunedShared_def\<close>)
  finally show ?thesis
    using assms(2,6,7,10,11) by (auto simp: stranded_def heldShared_def prunedShared_def keysOf_def)
qed

definition startsApart :: "gostring \<Rightarrow> depThread \<Rightarrow> bool" where
  "startsApart k t \<longleftrightarrow> (\<exists>g ns n. t = newEvent g ns n) \<or> (\<exists>k'. k' \<noteq> k \<and> t = RmReverse k') \<or>
     (\<exists>k' dk late. k' \<noteq> k \<and> t = newResolve k' dk late)"

lemma startsApart_apart: "startsApart k t \<Longrightarrow> apart k s t"
  by (auto simp: startsApart_def newEvent_def newResolve_def)

lemma newEvent_apart: "startsApart k (newEvent g ns n)"
  unfolding startsApart_def by blast

text \<open>C38: A resolve of cell k loads the bucket of its dependency while a removal is about to take the bucket's last
  other key; the removal prunes the bucket, and the resolve inserts k into the detached one, stores, checks
  and returns. From then on, whatever events, removals of other cells and resolves of other cells run, in
  whatever interleaving, no event enqueues k: its body stays, its own reverse edge names the dependency, and
  no bucket an event can reach holds k.\<close>

theorem pruned_bucket_loses_events:
  assumes "sh_forward s dk = Some a" "\<forall>dk'. sh_forward s dk' = Some a \<longrightarrow> dk' = dk"
    and "ks_keys (sh_heap s a) = [k0]" "ks_count (sh_heap s a) = 1" "k0 \<noteq> k"
    and "jb_key j = k" "jb_dk j = dk" "\<not> jb_late j" "sh_floor s (dk_GVR dk) \<le> jb_start j"
    and "\<forall>dk' a'. sh_forward s dk' = Some a' \<longrightarrow> k \<notin> set (ks_keys (sh_heap s a'))" "k \<notin> set (sh_marks s)"
    and "\<forall>t\<in>set others. startsApart k t" "\<forall>i\<in>set is'. i < length others + 2"
    and "runSchedule (pruneBetween @ is') (RmKey k0 dk a todo # RecBucket j # others, s) = (ts', s')"
  shows "k \<notin> set (sh_marks s') \<and> sh_cells s' k = Some (jb_body j) \<and> dk \<in> set (sh_reverse s' k) \<and>
    (\<forall>dk' a'. sh_forward s' dk' = Some a' \<longrightarrow> k \<notin> set (ks_keys (sh_heap s' a')))"
proof -
  have "\<forall>dk' a'. sh_forward s dk' = Some a' \<longrightarrow> k \<notin> set (keysOf a' s)" using assms(10) by (simp add: keysOf_def)
  from prune_strands [OF assms(1-9) this assms(11), of todo others]
  obtain s1 j1 where one: "runSchedule pruneBetween (RmKey k0 dk a todo # RecBucket j # others, s)
      = (RmLoad k0 todo # ResDone j1 # others, s1)" "stranded k dk (jb_body j) s1" by blast
  have "runSchedule is' (RmLoad k0 todo # ResDone j1 # others, s1) = (ts', s')"
    using assms(14) unfolding runSchedule_append one(1) .
  moreover have "stranded k dk (jb_body j) (snd (runSchedule is' (RmLoad k0 todo # ResDone j1 # others, s1)))"
  proof (rule stranded_run [OF one(2)])
    show "\<forall>t\<in>set (RmLoad k0 todo # ResDone j1 # others). apart k s1 t"
      using assms(5,12) startsApart_apart by simp
  qed (use assms(13) in simp)
  ultimately have "stranded k dk (jb_body j) s'" by simp
  then show ?thesis unfolding stranded_def keysOf_def by blast
qed

lemma pruned_bucket_loses_events_witness:
  "''w'' \<notin> set (sh_marks (snd (runSchedule (pruneBetween @ replicate 14 2)
     ([RmKey ''v'' raceKey 0 [], RecBucket raceJob, raceEvent], warmShared))))"
proof -
  obtain ts s' where run: "runSchedule (pruneBetween @ replicate 14 2)
      (RmKey ''v'' raceKey 0 [] # RecBucket raceJob # [raceEvent], warmShared) = (ts, s')" by fastforce
  have "''w'' \<notin> set (sh_marks s') \<and> sh_cells s' ''w'' = Some (jb_body raceJob) \<and> raceKey \<in> set (sh_reverse s' ''w'') \<and>
    (\<forall>dk' a'. sh_forward s' dk' = Some a' \<longrightarrow> ''w'' \<notin> set (ks_keys (sh_heap s' a')))"
    by (rule pruned_bucket_loses_events [OF _ _ _ _ _ _ _ _ _ _ _ _ _ run])
      (auto simp: warmShared_def raceJob_def emptyShared_def raceEvent_def newEvent_apart split: if_splits)
  then show ?thesis using run by simp
qed

text \<open>A resolve that finds the bucket of another before its creator has raised it to the floor passes its
  check, although an event was applied, stamped and collected after its read.\<close>

theorem cold_bucket_loses_event:
  "case coldRun of (ts, s) \<Rightarrow> list_all finished ts \<and> sh_cells s ''w'' = Some 0 \<and> sh_rv s = 1 \<and>
     ''w'' \<notin> set (sh_marks s)"
  by code_simp

text \<open>A resolve that records after its write misses an event that has taken its sequence but not yet raised
  the floor when the write is checked: neither the scan nor the re-check after the record sees it.\<close>

theorem late_record_loses_event:
  "case tornRun of (ts, s) \<Rightarrow> list_all finished ts \<and> sh_cells s ''w'' = Some 0 \<and> sh_rv s = 1 \<and>
     ''w'' \<notin> set (sh_marks s)"
  by code_simp

end
