(* ===== verification/DepStamp.thy ===== *)
theory DepStamp
  imports DepIndex
begin

text \<open>
  The stamp of a bucket or of a resource floor under contention (\<open>storeMaxSeq\<close> in cache/deps.go): a load and a
  compare-and-swap in a loop, which another event may make fail. Here the loop runs access by access; the
  other theories take it as one step. Shown: a loop can be delayed only by the loops that succeed meanwhile,
  so it ends after a bounded number of its own accesses, and together they do what one-step stamps do in any
  order.
\<close>

section \<open>The loop\<close>

text \<open>\<open>StampCAS v cur\<close> has loaded \<open>cur\<close> and is about to swap \<open>v\<close> in.\<close>

datatype stampThread = StampLoad "64 word" | StampCAS "64 word" "64 word" | StampDone

fun stepStamp :: "stampThread \<Rightarrow> 64 word \<Rightarrow> stampThread \<times> 64 word" where
  "stepStamp (StampLoad v) a = (if v \<le> a then StampDone else StampCAS v a, a)"
| "stepStamp (StampCAS v cur) a = (if a = cur then (StampDone, v) else (StampLoad v, a))"
| "stepStamp StampDone a = (StampDone, a)"

type_synonym stampMachine = "stampThread list \<times> 64 word"

fun stampAccess :: "stampMachine \<Rightarrow> nat \<Rightarrow> stampMachine" where
  "stampAccess (ts, a) i = (if i < length ts then case stepStamp (ts ! i) a of (t, a') \<Rightarrow> (ts[i := t], a') else (ts, a))"

definition runStamps :: "nat list \<Rightarrow> stampMachine \<Rightarrow> stampMachine" where
  "runStamps is' m = foldl stampAccess m is'"

section \<open>How long a loop runs\<close>

text \<open>What is left of loop \<open>i\<close>: two accesses for each other loop that may still succeed, and its own round.\<close>

definition othersLeft :: "nat \<Rightarrow> stampThread list \<Rightarrow> nat" where
  "othersLeft i ts = card {j. j < length ts \<and> j \<noteq> i \<and> ts ! j \<noteq> StampDone}"

definition ownLeft :: "stampThread \<Rightarrow> 64 word \<Rightarrow> nat" where
  "ownLeft t a = (case t of StampLoad _ \<Rightarrow> 2 | StampCAS _ cur \<Rightarrow> if a = cur then 1 else 3 | StampDone \<Rightarrow> 0)"

definition stampsLeft :: "nat \<Rightarrow> stampMachine \<Rightarrow> nat" where
  "stampsLeft i m = (if fst m ! i = StampDone then 0 else 2 * othersLeft i (fst m) + ownLeft (fst m ! i) (snd m))"

lemma othersLeft_update:
  assumes "j < length ts"
  shows "othersLeft i (ts[j := t]) \<le> othersLeft i ts \<or> ts ! j = StampDone"
    "j \<noteq> i \<Longrightarrow> ts ! j \<noteq> StampDone \<Longrightarrow> Suc (othersLeft i (ts[j := StampDone])) = othersLeft i ts"
    "othersLeft i (ts[i := t]) = othersLeft i ts"
proof -
  let ?S = "{j. j < length ts \<and> j \<noteq> i \<and> ts ! j \<noteq> StampDone}"
  have "{k. k < length (ts[j := t]) \<and> k \<noteq> i \<and> ts[j := t] ! k \<noteq> StampDone} \<subseteq> ?S" if "ts ! j \<noteq> StampDone"
    using that assms by (auto simp: nth_list_update split: if_splits)
  then show "othersLeft i (ts[j := t]) \<le> othersLeft i ts \<or> ts ! j = StampDone"
    unfolding othersLeft_def by (cases "ts ! j = StampDone") (simp_all add: card_mono)
  show "Suc (othersLeft i (ts[j := StampDone])) = othersLeft i ts" if "j \<noteq> i" "ts ! j \<noteq> StampDone"
  proof -
    have eq: "{k. k < length (ts[j := StampDone]) \<and> k \<noteq> i \<and> ts[j := StampDone] ! k \<noteq> StampDone} = ?S - {j}"
      using assms by (auto simp: nth_list_update split: if_splits)
    have "j \<in> ?S" using that assms by simp
    then have "Suc (card (?S - {j})) = card ?S" by (intro card_Suc_Diff1) simp_all
    then show ?thesis unfolding othersLeft_def eq by simp
  qed
  have "{k. k < length (ts[i := t]) \<and> k \<noteq> i \<and> ts[i := t] ! k \<noteq> StampDone} = ?S"
    by (auto simp: nth_list_update)
  then show "othersLeft i (ts[i := t]) = othersLeft i ts" by (simp add: othersLeft_def)
qed

lemma stampAccess_left:
  assumes "i < length ts"
  shows "stampsLeft i (stampAccess (ts, a) j) \<le> stampsLeft i (ts, a)"
    "ts ! i \<noteq> StampDone \<Longrightarrow> stampsLeft i (stampAccess (ts, a) i) < stampsLeft i (ts, a)"
proof -
  show own: "stampsLeft i (stampAccess (ts, a) i) < stampsLeft i (ts, a)" if "ts ! i \<noteq> StampDone"
    using assms that by (cases "ts ! i") (auto simp: stampsLeft_def ownLeft_def othersLeft_update(3))
  show "stampsLeft i (stampAccess (ts, a) j) \<le> stampsLeft i (ts, a)"
  proof (cases "j < length ts \<and> j \<noteq> i \<and> ts ! i \<noteq> StampDone")
    case False
    then show ?thesis
      using own assms by (cases "j < length ts"; cases "j = i"; cases "ts ! i = StampDone")
        (auto simp: stampsLeft_def split: prod.split)
  next
    case True
    note u = othersLeft_update(1,2) [of j ts i]
    show ?thesis
    proof (cases "ts ! j")
      case (StampLoad v)
      then show ?thesis using True u(1) [of "StampCAS v a"] u(1) [of StampDone]
        by (auto simp: stampsLeft_def)
    next
      case (StampCAS v cur)
      show ?thesis
      proof (cases "a = cur")
        case True
        have "ownLeft (ts ! i) v \<le> ownLeft (ts ! i) a + 2" by (cases "ts ! i") (auto simp: ownLeft_def)
        then show ?thesis using u(2) StampCAS True \<open>j < length ts \<and> j \<noteq> i \<and> ts ! i \<noteq> StampDone\<close>
          by (auto simp: stampsLeft_def)
      next
        case False
        then show ?thesis using u(1) [of "StampLoad v"] StampCAS True by (auto simp: stampsLeft_def)
      qed
    next
      case StampDone
      then have "ts[j := StampDone] = ts" by (metis list_update_id)
      then show ?thesis using StampDone True by simp
    qed
  qed
qed

lemma runStamps_length: "length (fst (runStamps is' m)) = length (fst m)"
proof (induction is' arbitrary: m)
  case (Cons j is')
  have "length (fst (stampAccess m j)) = length (fst m)" by (cases m) (auto split: prod.split)
  then show ?case using Cons [of "stampAccess m j"] by (simp add: runStamps_def)
qed (simp add: runStamps_def)

lemma runStamps_ends:
  assumes "i < length ts" "stampsLeft i (ts, a) \<le> count_list is' i"
  shows "fst (runStamps is' (ts, a)) ! i = StampDone"
  using assms
proof (induction is' arbitrary: ts a)
  case Nil
  then show ?case by (cases "ts ! i") (auto simp: runStamps_def stampsLeft_def ownLeft_def split: if_splits)
next
  case (Cons j is')
  obtain ts' a' where m: "stampAccess (ts, a) j = (ts', a')" by fastforce
  have len: "i < length ts'" using m Cons.prems(1) by (auto split: if_splits prod.splits)
  have "stampsLeft i (ts', a') \<le> count_list is' i"
  proof (cases "j = i \<and> ts ! i \<noteq> StampDone")
    case True
    then have "stampsLeft i (ts', a') < stampsLeft i (ts, a)" using stampAccess_left(2) [OF Cons.prems(1), of a] m by simp
    then show ?thesis using Cons.prems(2) True by simp
  next
    case False
    show ?thesis
    proof (cases "ts ! i = StampDone")
      case True
      then have "stampsLeft i (ts, a) = 0" by (simp add: stampsLeft_def)
      then show ?thesis using stampAccess_left(1) [OF Cons.prems(1), of a j] m by simp
    next
      case live: False
      then show ?thesis using False stampAccess_left(1) [OF Cons.prems(1), of a j] Cons.prems(2) m by simp
    qed
  qed
  then show ?case using Cons.IH [OF len] m by (simp add: runStamps_def)
qed

section \<open>What the loops leave\<close>

fun valueOf :: "stampThread \<Rightarrow> 64 word option" where
  "valueOf (StampLoad v) = Some v"
| "valueOf (StampCAS v cur) = Some v"
| "valueOf StampDone = None"

text \<open>The word is the largest of what it was and of what the loops that are through stamped.\<close>

definition stampsOK :: "64 word \<Rightarrow> 64 word list \<Rightarrow> stampMachine \<Rightarrow> bool" where
  "stampsOK a0 vs m \<longleftrightarrow> length (fst m) = length vs \<and> a0 \<le> snd m \<and> snd m \<in> insert a0 (set vs) \<and>
     (\<forall>i<length vs. (fst m ! i = StampDone \<longrightarrow> vs ! i \<le> snd m) \<and>
        (\<forall>v. valueOf (fst m ! i) = Some v \<longrightarrow> v = vs ! i) \<and>
        (\<forall>v cur. fst m ! i = StampCAS v cur \<longrightarrow> cur < v))"

lemma stampsOK_D:
  assumes "stampsOK a0 vs (ts, a)" "j < length ts"
  shows "vs ! j \<in> set vs" "valueOf (ts ! j) = Some v \<Longrightarrow> v = vs ! j" "ts ! j = StampCAS v cur \<Longrightarrow> cur < v"
  using assms by (auto simp: stampsOK_def)

lemma stampsOK_set:
  assumes "stampsOK a0 vs (ts, a)" "j < length ts" "a \<le> a'" "a' = a \<or> a' = vs ! j"
    "t = StampDone \<Longrightarrow> vs ! j \<le> a'" "\<And>v. valueOf t = Some v \<Longrightarrow> v = vs ! j" "\<And>v cur. t = StampCAS v cur \<Longrightarrow> cur < v"
  shows "stampsOK a0 vs (ts[j := t], a')"
proof -
  have "vs ! j \<in> set vs" using assms(1,2) by (rule stampsOK_D(1))
  then show ?thesis
    using assms unfolding stampsOK_def by (auto simp: nth_list_update intro: order_trans)
qed

lemma stampsOK_step:
  assumes "stampsOK a0 vs (ts, a)"
  shows "stampsOK a0 vs (stampAccess (ts, a) j)"
proof (cases "j < length ts")
  case True
  note set = stampsOK_set [OF assms True]
  show ?thesis
  proof (cases "ts ! j")
    case (StampLoad v)
    then have "v = vs ! j" using stampsOK_D(2) [OF assms True] by simp
    then show ?thesis using StampLoad True by (auto intro!: set)
  next
    case (StampCAS v cur)
    then have "v = vs ! j" "cur < v" using stampsOK_D(2,3) [OF assms True] by auto
    then show ?thesis using StampCAS True by (auto intro!: set)
  next
    case StampDone
    then have "ts[j := StampDone] = ts" by (metis list_update_id)
    then show ?thesis using StampDone True assms by simp
  qed
next
  case False
  then show ?thesis using assms by simp
qed

lemma stampsOK_run: "stampsOK a0 vs m \<Longrightarrow> stampsOK a0 vs (runStamps is' m)"
proof (induction is' arbitrary: m)
  case (Cons j is')
  then show ?case using stampsOK_step [of a0 vs "fst m" "snd m" j] by (simp add: runStamps_def)
qed (simp add: runStamps_def)

lemma storeMaxSeq_fold:
  "a \<le> foldl storeMaxSeq a vs \<and> (\<forall>v\<in>set vs. v \<le> foldl storeMaxSeq a vs) \<and> foldl storeMaxSeq a vs \<in> insert a (set vs)"
proof (induction vs arbitrary: a)
  case (Cons v vs)
  from Cons [of "storeMaxSeq a v"] show ?case by (auto simp: storeMaxSeq_def split: if_splits)
qed simp

text \<open>C35: However the accesses of concurrent stamps of one word interleave, each of n loops is through after at most
  2n accesses of its own, and when all are, the word is what n one-step stamps leave, in whatever order.\<close>

theorem stamps_end_and_keep_the_largest:
  assumes "\<forall>i<length vs. 2 * length vs \<le> count_list is' i" "mset vs' = mset vs"
  shows "runStamps is' (map StampLoad vs, a) = (replicate (length vs) StampDone, foldl storeMaxSeq a vs')"
proof -
  obtain ts w where m: "runStamps is' (map StampLoad vs, a) = (ts, w)" by fastforce
  have len: "length ts = length vs" using runStamps_length [of is' "(map StampLoad vs, a)"] m by simp
  have through: "ts ! i = StampDone" if "i < length vs" for i
  proof -
    have "{j. j < length (map StampLoad vs) \<and> j \<noteq> i \<and> map StampLoad vs ! j \<noteq> StampDone} \<subseteq> {..<length vs} - {i}" by auto
    then have "othersLeft i (map StampLoad vs) \<le> card ({..<length vs} - {i})" unfolding othersLeft_def by (intro card_mono) simp_all
    then have "stampsLeft i (map StampLoad vs, a) \<le> 2 * length vs" using that by (simp add: stampsLeft_def ownLeft_def)
    then show ?thesis
      using runStamps_ends [of i "map StampLoad vs" a is'] assms(1) that m by fastforce
  qed
  have "stampsOK a vs (map StampLoad vs, a)" by (simp add: stampsOK_def)
  then have ok: "stampsOK a vs (ts, w)" using stampsOK_run m by metis
  have "set vs' = set vs" using assms(2) by (metis set_mset_mset)
  moreover have "v \<le> w" if "v \<in> set vs" for v
    using ok through that by (auto simp: stampsOK_def in_set_conv_nth)
  moreover have "a \<le> w" "w \<in> insert a (set vs)" using ok by (simp_all add: stampsOK_def)
  ultimately have "w = foldl storeMaxSeq a vs'"
    using storeMaxSeq_fold [of a vs'] by (metis antisym insert_iff)
  moreover have "ts = replicate (length vs) StampDone" using len through by (intro nth_equalityI) auto
  ultimately show ?thesis using m by simp
qed

lemma stamps_end_and_keep_the_largest_witness:
  "runStamps (concat (replicate 4 [0, 1, 1])) (map StampLoad [7, 5], 3) = (replicate 2 StampDone, foldl storeMaxSeq 3 [5, 7])"
proof -
  have "count_list (concat (replicate 4 [0, 1, 1])) i \<ge> 4" if "i < 2" for i :: nat
    using that by (cases i) (auto simp: eval_nat_numeral)
  then have "\<forall>i<length [7 :: 64 word, 5]. 2 * length [7 :: 64 word, 5] \<le> count_list (concat (replicate 4 [0, 1, 1])) i"
    by simp
  then show ?thesis
    using stamps_end_and_keep_the_largest [of "[7, 5]" "concat (replicate 4 [0, 1, 1])" "[5, 7]" 3] by (simp add: numeral_2_eq_2)
qed

end
