(* ===== verification/WorkQueue.thy ===== *)
theory WorkQueue
  imports Prelude
begin

text \<open>
  The rate-limiting work queue of client-go, which the informer bridge (cache/deps\_watch.go) and the tiers
  of the refresher (cache/refresher.go) use. The library is not part of the repository: \<open>Q\<close> holds its
  operations, and \<open>queueLaws\<close> states what its documentation promises of them: an added key is kept, once,
  until a worker gets it, also when it is added while it is processed or waits for a delay.
\<close>

section \<open>The operations\<close>

text \<open>\<open>wq_get\<close> is \<open>None\<close> where \<open>Get\<close> would block, which is where \<open>Len\<close> is 0; a delay is in nanoseconds.\<close>

record ('k, 'q) workqueue =
  wq_new :: 'q
  wq_add :: "'k \<Rightarrow> 'q \<Rightarrow> 'q"
  wq_addRateLimited :: "'k \<Rightarrow> 'q \<Rightarrow> 'q"
  wq_addAfter :: "'k \<Rightarrow> nat \<Rightarrow> 'q \<Rightarrow> 'q"
  wq_get :: "'q \<Rightarrow> ('k \<times> 'q) option"
  wq_done :: "'k \<Rightarrow> 'q \<Rightarrow> 'q"
  wq_forget :: "'k \<Rightarrow> 'q \<Rightarrow> 'q"
  wq_numRequeues :: "'q \<Rightarrow> 'k \<Rightarrow> nat"
  wq_shuttingDown :: "'q \<Rightarrow> bool"

text \<open>How often both workers put one key back before they give up on it.\<close>

definition maxRefreshRequeues :: nat where "maxRefreshRequeues = 5"

section \<open>What the queue promises\<close>

text \<open>\<open>P\<close> is what is queued, waits for its delay, or was added while it is processed; \<open>elapse\<close> lets time pass.\<close>

definition queueLaws :: "('k, 'q) workqueue \<Rightarrow> ('q \<Rightarrow> 'k set) \<Rightarrow> ('q \<Rightarrow> 'q) \<Rightarrow> bool" where
  "queueLaws Q P elapse \<longleftrightarrow>
     P (wq_new Q) = {} \<and> wq_numRequeues Q (wq_new Q) = (\<lambda>_. 0) \<and> \<not> wq_shuttingDown Q (wq_new Q) \<and>
     (\<forall>k q. P (wq_add Q k q) = insert k (P q) \<and> wq_numRequeues Q (wq_add Q k q) = wq_numRequeues Q q \<and>
        wq_shuttingDown Q (wq_add Q k q) = wq_shuttingDown Q q) \<and>
     (\<forall>k q. P (wq_addRateLimited Q k q) = insert k (P q) \<and>
        wq_numRequeues Q (wq_addRateLimited Q k q) = (wq_numRequeues Q q)(k := Suc (wq_numRequeues Q q k)) \<and>
        wq_shuttingDown Q (wq_addRateLimited Q k q) = wq_shuttingDown Q q) \<and>
     (\<forall>k d q. P (wq_addAfter Q k d q) = insert k (P q) \<and>
        wq_numRequeues Q (wq_addAfter Q k d q) = wq_numRequeues Q q \<and>
        wq_shuttingDown Q (wq_addAfter Q k d q) = wq_shuttingDown Q q) \<and>
     (\<forall>k q q'. wq_get Q q = Some (k, q') \<longrightarrow> k \<in> P q \<and> P q - {k} \<subseteq> P q' \<and> P q' \<subseteq> P q \<and>
        wq_numRequeues Q q' = wq_numRequeues Q q \<and> wq_shuttingDown Q q' = wq_shuttingDown Q q) \<and>
     (\<forall>k q. P (wq_done Q k q) = P q \<and> wq_numRequeues Q (wq_done Q k q) = wq_numRequeues Q q \<and>
        wq_shuttingDown Q (wq_done Q k q) = wq_shuttingDown Q q) \<and>
     (\<forall>k q. P (wq_forget Q k q) = P q \<and> wq_numRequeues Q (wq_forget Q k q) = (wq_numRequeues Q q)(k := 0) \<and>
        wq_shuttingDown Q (wq_forget Q k q) = wq_shuttingDown Q q) \<and>
     (\<forall>q. P (elapse q) = P q \<and> wq_numRequeues Q (elapse q) = wq_numRequeues Q q \<and>
        wq_shuttingDown Q (elapse q) = wq_shuttingDown Q q)"

lemma queue_laws:
  assumes "queueLaws Q P elapse"
  shows "P (wq_new Q) = {}" "wq_numRequeues Q (wq_new Q) = (\<lambda>_. 0)" "\<not> wq_shuttingDown Q (wq_new Q)"
    "P (wq_add Q k q) = insert k (P q)" "wq_numRequeues Q (wq_add Q k q) = wq_numRequeues Q q"
    "wq_shuttingDown Q (wq_add Q k q) = wq_shuttingDown Q q"
    "P (wq_addRateLimited Q k q) = insert k (P q)"
    "wq_numRequeues Q (wq_addRateLimited Q k q) = (wq_numRequeues Q q)(k := Suc (wq_numRequeues Q q k))"
    "wq_shuttingDown Q (wq_addRateLimited Q k q) = wq_shuttingDown Q q"
    "P (wq_addAfter Q k d q) = insert k (P q)" "wq_numRequeues Q (wq_addAfter Q k d q) = wq_numRequeues Q q"
    "P (wq_done Q k q) = P q" "wq_numRequeues Q (wq_done Q k q) = wq_numRequeues Q q"
    "wq_shuttingDown Q (wq_done Q k q) = wq_shuttingDown Q q"
    "P (wq_forget Q k q) = P q" "wq_numRequeues Q (wq_forget Q k q) = (wq_numRequeues Q q)(k := 0)"
    "wq_shuttingDown Q (wq_forget Q k q) = wq_shuttingDown Q q"
    "P (elapse q) = P q" "wq_numRequeues Q (elapse q) = wq_numRequeues Q q"
    "wq_shuttingDown Q (elapse q) = wq_shuttingDown Q q"
  using assms by (simp_all add: queueLaws_def)

lemma get_law:
  assumes "queueLaws Q P elapse" "wq_get Q q = Some (k, q')"
  shows "P q - {k} \<subseteq> P q'" "wq_numRequeues Q q' = wq_numRequeues Q q" "wq_shuttingDown Q q' = wq_shuttingDown Q q"
  using assms unfolding queueLaws_def by blast+

section \<open>A queue that keeps the promises\<close>

record 'k exQueue =
  eq_ready :: "'k list"
  eq_dirty :: "'k list"
  eq_busy :: "'k list"
  eq_delayed :: "'k list"
  eq_fails :: "'k \<Rightarrow> nat"

definition eq_enqueue :: "'k \<Rightarrow> 'k exQueue \<Rightarrow> 'k exQueue" where
  "eq_enqueue k q = (if k \<in> set (eq_ready q) \<or> k \<in> set (eq_dirty q) then q
     else if k \<in> set (eq_busy q) then q\<lparr>eq_dirty := k # eq_dirty q\<rparr>
     else q\<lparr>eq_ready := eq_ready q @ [k]\<rparr>)"

definition exQ :: "('k, 'k exQueue) workqueue" where
  "exQ = \<lparr>wq_new = \<lparr>eq_ready = [], eq_dirty = [], eq_busy = [], eq_delayed = [], eq_fails = (\<lambda>_. 0)\<rparr>,
     wq_add = eq_enqueue,
     wq_addRateLimited = (\<lambda>k q. q\<lparr>eq_delayed := List.insert k (eq_delayed q), eq_fails := (eq_fails q)(k := Suc (eq_fails q k))\<rparr>),
     wq_addAfter = (\<lambda>k d q. q\<lparr>eq_delayed := List.insert k (eq_delayed q)\<rparr>),
     wq_get = (\<lambda>q. case eq_ready q of [] \<Rightarrow> None
       | k # ks \<Rightarrow> Some (k, q\<lparr>eq_ready := ks, eq_busy := k # eq_busy q\<rparr>)),
     wq_done = (\<lambda>k q. if k \<in> set (eq_dirty q)
       then q\<lparr>eq_busy := removeAll k (eq_busy q), eq_dirty := removeAll k (eq_dirty q), eq_ready := eq_ready q @ [k]\<rparr>
       else q\<lparr>eq_busy := removeAll k (eq_busy q)\<rparr>),
     wq_forget = (\<lambda>k q. q\<lparr>eq_fails := (eq_fails q)(k := 0)\<rparr>),
     wq_numRequeues = eq_fails,
     wq_shuttingDown = (\<lambda>_. False)\<rparr>"

definition eq_pending :: "'k exQueue \<Rightarrow> 'k set" where
  "eq_pending q = set (eq_ready q) \<union> set (eq_dirty q) \<union> set (eq_delayed q)"

definition eq_elapse :: "'k exQueue \<Rightarrow> 'k exQueue" where
  "eq_elapse q = foldl (\<lambda>q k. eq_enqueue k q) (q\<lparr>eq_delayed := []\<rparr>) (eq_delayed q)"

lemma eq_enqueue: "eq_pending (eq_enqueue k q) = insert k (eq_pending q)" "eq_fails (eq_enqueue k q) = eq_fails q"
  by (auto simp: eq_pending_def eq_enqueue_def)

lemma eq_enqueues:
  "eq_pending (foldl (\<lambda>q k. eq_enqueue k q) q ks) = eq_pending q \<union> set ks \<and>
   eq_fails (foldl (\<lambda>q k. eq_enqueue k q) q ks) = eq_fails q"
  by (induction ks arbitrary: q) (auto simp: eq_enqueue)

lemma eq_elapse: "eq_pending (eq_elapse q) = eq_pending q" "eq_fails (eq_elapse q) = eq_fails q"
  by (simp_all add: eq_elapse_def eq_enqueues) (auto simp: eq_pending_def)

lemma exQ_laws: "queueLaws exQ eq_pending eq_elapse"
  unfolding queueLaws_def
  by (intro conjI allI impI)
    (auto simp: exQ_def eq_enqueue eq_elapse, auto simp: eq_pending_def split: list.splits)

end
