(* ===== verification/DepWatch.thy ===== *)
theory DepWatch
  imports DepEvents WorkQueue
begin

text \<open>
  The bridge from the informers to the dependency tracker (cache/deps\_watch.go): the handlers that
  enqueue the coordinate of an event, the one worker that probes the informer for the state of the object
  and acts on it, and the bookkeeping of what is still on its way to the tracker. The watcher is modelled as
  far as the bridge reads it (cache/watcher.go): which informers it has and whether it may trust one.

  The work queue is client-go's (theory \<open>WorkQueue\<close>). The transition masks of the list-interest shadow are left out, and so are panics: the worker
  recovers from one, drops the event and goes on. There is one watcher in a process, so whether the bridge
  has bound it is a truth value.
\<close>

section \<open>The watcher as the bridge reads it\<close>

record depEventKey =
  ek_gvr :: GVR
  ek_namespace :: gostring
  ek_name :: gostring

text \<open>What an informer answers at the moment: whether its first list is in, and of a key of its indexer
  whether it is held, \<open>None\<close> an error.\<close>

record informer =
  HasSynced :: bool
  GetByKey :: "gostring \<Rightarrow> bool option"

record ResourceWatcher =
  modePassthrough :: bool
  informers :: "GVR \<Rightarrow> informer option"
  watchBroken :: "GVR \<Rightarrow> bool"
  listRefused :: "GVR \<Rightarrow> bool"
  disco_wired :: bool
  confirmed :: "GVR \<Rightarrow> bool"
  syncCh :: "GVR \<Rightarrow> bool option"
  lastEventAt :: "GVR \<Rightarrow> int option"
  rw_now :: int

definition resourceTypeConfirmedLocked :: "GVR \<Rightarrow> ResourceWatcher \<Rightarrow> bool" where
  "resourceTypeConfirmedLocked gvr rw \<longleftrightarrow> (if \<not> disco_wired rw then True else confirmed rw gvr)"

definition servableLocked :: "GVR \<Rightarrow> ResourceWatcher \<Rightarrow> informer option" where
  "servableLocked gvr rw = (case informers rw gvr of None \<Rightarrow> None
     | Some gi \<Rightarrow> if \<not> HasSynced gi then None
         else if watchBroken rw gvr then None
         else if \<not> resourceTypeConfirmedLocked gvr rw then None
         else Some gi)"

definition IsServable :: "GVR \<Rightarrow> ResourceWatcher option \<Rightarrow> bool" where
  "IsServable gvr w = (case w of None \<Rightarrow> False
     | Some rw \<Rightarrow> if modePassthrough rw then False else servableLocked gvr rw \<noteq> None)"

record ServabilitySnapshot =
  sv_Registered :: bool
  sv_HasSynced :: bool
  sv_WatchHealthy :: bool
  sv_TypeConfirmed :: bool
  sv_ListRefused :: bool

definition noSnapshot :: ServabilitySnapshot where
  "noSnapshot = \<lparr>sv_Registered = False, sv_HasSynced = False, sv_WatchHealthy = False, sv_TypeConfirmed = False,
     sv_ListRefused = False\<rparr>"

definition ServabilitySnapshotFor :: "GVR \<Rightarrow> ResourceWatcher option \<Rightarrow> ServabilitySnapshot" where
  "ServabilitySnapshotFor gvr w = (case w of None \<Rightarrow> noSnapshot
     | Some rw \<Rightarrow> if modePassthrough rw then noSnapshot
         else case informers rw gvr of None \<Rightarrow> noSnapshot
         | Some gi \<Rightarrow> \<lparr>sv_Registered = True, sv_HasSynced = HasSynced gi, sv_WatchHealthy = (\<not> watchBroken rw gvr),
             sv_TypeConfirmed = resourceTypeConfirmedLocked gvr rw, sv_ListRefused = listRefused rw gvr\<rparr>)"

definition probeObjectState :: "ResourceWatcher option \<Rightarrow> GVR \<Rightarrow> gostring \<Rightarrow> gostring \<Rightarrow> objectState" where
  "probeObjectState w gvr namespace name = (case w of None \<Rightarrow> objUnknown
     | Some rw \<Rightarrow> if modePassthrough rw then objUnknown
         else case servableLocked gvr rw of None \<Rightarrow> objUnknown
         | Some gi \<Rightarrow> (case GetByKey gi (if namespace \<noteq> [] then namespace @ ''/'' @ name else name) of
               None \<Rightarrow> objUnknown | Some True \<Rightarrow> objExists | Some False \<Rightarrow> objAbsent))"

definition WatchedAbsent :: "ResourceWatcher option \<Rightarrow> GVR \<Rightarrow> gostring \<Rightarrow> gostring \<Rightarrow> bool" where
  "WatchedAbsent w gvr namespace name = (if name = [] then False else probeObjectState w gvr namespace name = objAbsent)"

definition syncChState :: "GVR \<Rightarrow> ResourceWatcher \<Rightarrow> bool \<times> bool" where
  "syncChState gvr rw = (case syncCh rw gvr of None \<Rightarrow> (False, False) | Some True \<Rightarrow> (True, True) | Some False \<Rightarrow> (True, False))"

definition noteInformerEvent :: "GVR \<Rightarrow> ResourceWatcher \<Rightarrow> ResourceWatcher" where
  "noteInformerEvent gvr rw = rw\<lparr>lastEventAt := (lastEventAt rw)(gvr \<mapsto> rw_now rw)\<rparr>"

definition crdGVR :: GVR where
  "crdGVR = (''apiextensions.k8s.io'', ''v1'', ''customresourcedefinitions'')"

definition IsCRDGVR :: "GVR \<Rightarrow> bool" where
  "IsCRDGVR gvr \<longleftrightarrow> gvr = crdGVR"

text \<open>The object of an event: one with metadata, one without, or the last known state of an object whose
  deletion the watch missed.\<close>

datatype eventObject = Meta gostring gostring | Opaque | DeletedFinalStateUnknown eventObject

definition metaNSName :: "eventObject \<Rightarrow> gostring \<times> gostring" where
  "metaNSName obj = (case obj of Meta ns name \<Rightarrow> (ns, name) | _ \<Rightarrow> ([], []))"

section \<open>The state of the bridge\<close>

datatype submitSource = dmSourceWatch | dmSourceStoreSwap | dmSourceReconcile

datatype bridgeCounter = AddDroppedPreSync | AddPropagated | AddNilSyncCh | EventsSubmitted
  | AddInitialListPastSync | AddLivePreSyncCh | SubmitDroppedShutdown
  | ProbeExists | ProbeAbsent | ProbeUnknown | ProbeUnknownDegraded | SubmitsFrom submitSource

datatype crdLifecycleKind = crdLifecycleAdd | crdLifecycleUpdate | crdLifecycleDelete

text \<open>The last two fields are the process around the bridge: its watcher, and the tracker with its store.\<close>

record 'q depWatch =
  dw_queue :: "'q option"
  dw_bound :: bool
  queued :: "depEventKey set"
  processing :: "depEventKey set"
  nilSyncWarned :: bool
  dw_count :: "bridgeCounter \<Rightarrow> 64 word"
  dw_crd :: "(crdLifecycleKind \<times> eventObject) list"
  dw_rw :: ResourceWatcher
  dw_world :: depWorld

definition count1 :: "bridgeCounter \<Rightarrow> 'q depWatch \<Rightarrow> 'q depWatch" where
  "count1 c w = w\<lparr>dw_count := (dw_count w)(c := dw_count w c + 1)\<rparr>"

definition onQueue :: "('q \<Rightarrow> 'q) \<Rightarrow> 'q depWatch \<Rightarrow> 'q depWatch" where
  "onQueue f w = w\<lparr>dw_queue := map_option f (dw_queue w)\<rparr>"

definition markQueued :: "depEventKey \<Rightarrow> 'q depWatch \<Rightarrow> 'q depWatch" where
  "markQueued k w = w\<lparr>queued := insert k (queued w)\<rparr>"

definition beginProcessing :: "depEventKey \<Rightarrow> 'q depWatch \<Rightarrow> 'q depWatch" where
  "beginProcessing k w = w\<lparr>queued := queued w - {k}, processing := insert k (processing w)\<rparr>"

definition endProcessing :: "depEventKey \<Rightarrow> 'q depWatch \<Rightarrow> 'q depWatch" where
  "endProcessing k w = w\<lparr>processing := processing w - {k}\<rparr>"

definition startWorker :: "(depEventKey, 'q) workqueue \<Rightarrow> 'q depWatch \<Rightarrow> 'q depWatch" where
  "startWorker Q w = (case dw_queue w of None \<Rightarrow> w\<lparr>dw_queue := Some (wq_new Q)\<rparr> | Some _ \<Rightarrow> w)"

section \<open>The handlers\<close>

text \<open>The submit up to the mark; whether it goes on to the queue.\<close>

definition submitMark :: "(depEventKey, 'q) workqueue \<Rightarrow> depEventKey \<Rightarrow> submitSource \<Rightarrow> 'q depWatch \<Rightarrow> bool \<times> 'q depWatch" where
  "submitMark Q k source w =
     (let w = count1 (SubmitsFrom source) (count1 EventsSubmitted (startWorker Q (w\<lparr>dw_bound := True\<rparr>)))
      in case dw_queue w of None \<Rightarrow> (False, w)
         | Some q \<Rightarrow> if wq_shuttingDown Q q then (False, count1 SubmitDroppedShutdown w) else (True, markQueued k w))"

definition submitDepEvent :: "(depEventKey, 'q) workqueue \<Rightarrow> depEventKey \<Rightarrow> submitSource \<Rightarrow> 'q depWatch \<Rightarrow> 'q depWatch" where
  "submitDepEvent Q k source w =
     (case submitMark Q k source w of (True, w) \<Rightarrow> onQueue (wq_add Q k) w | (False, w) \<Rightarrow> w)"

definition noteNilSyncCh :: "'q depWatch \<Rightarrow> 'q depWatch" where
  "noteNilSyncCh w = (count1 AddNilSyncCh w)\<lparr>nilSyncWarned := True\<rparr>"

definition addEventPostSync :: "GVR \<Rightarrow> 'q depWatch \<Rightarrow> bool \<times> 'q depWatch" where
  "addEventPostSync gvr w = (case syncCh (dw_rw w) gvr of None \<Rightarrow> (False, noteNilSyncCh w) | Some closed \<Rightarrow> (closed, w))"

definition addGate :: "GVR \<Rightarrow> bool \<Rightarrow> bool \<Rightarrow> 'q depWatch \<Rightarrow> bool \<times> 'q depWatch" where
  "addGate gvr isInInitialList fromInformer w =
     (if fromInformer then
        (case syncChState gvr (dw_rw w) of (present, closed) \<Rightarrow>
          (let w = (if \<not> present then noteNilSyncCh w else w)
           in if isInInitialList then
                (let w = count1 AddDroppedPreSync w
                 in (False, if present \<and> closed then count1 AddInitialListPastSync w else w))
              else (True, if present \<and> \<not> closed then count1 AddLivePreSyncCh w else w)))
      else case addEventPostSync gvr w of (True, w) \<Rightarrow> (True, w) | (False, w) \<Rightarrow> (False, count1 AddDroppedPreSync w))"

definition crdSideEffect :: "GVR \<Rightarrow> crdLifecycleKind \<Rightarrow> eventObject \<Rightarrow> 'q depWatch \<Rightarrow> 'q depWatch" where
  "crdSideEffect gvr kind obj w = (if IsCRDGVR gvr then w\<lparr>dw_crd := dw_crd w @ [(kind, obj)]\<rparr> else w)"

definition eventKey :: "GVR \<Rightarrow> eventObject \<Rightarrow> depEventKey" where
  "eventKey gvr obj = (case metaNSName obj of (ns, name) \<Rightarrow> \<lparr>ek_gvr = gvr, ek_namespace = ns, ek_name = name\<rparr>)"

definition stampEvent :: "GVR \<Rightarrow> 'q depWatch \<Rightarrow> 'q depWatch" where
  "stampEvent gvr w = w\<lparr>dw_rw := noteInformerEvent gvr (dw_rw w)\<rparr>"

definition handlerAdd :: "(depEventKey, 'q) workqueue \<Rightarrow> GVR \<Rightarrow> eventObject \<Rightarrow> bool \<Rightarrow> bool \<Rightarrow> submitSource \<Rightarrow> 'q depWatch \<Rightarrow> 'q depWatch" where
  "handlerAdd Q gvr obj isInInitialList fromInformer source w =
     (case addGate gvr isInInitialList fromInformer w of (False, w) \<Rightarrow> w
      | (True, w) \<Rightarrow> crdSideEffect gvr crdLifecycleAdd obj
          (submitDepEvent Q (eventKey gvr obj) source (stampEvent gvr (count1 AddPropagated w))))"

definition handlerUpdate :: "(depEventKey, 'q) workqueue \<Rightarrow> GVR \<Rightarrow> eventObject \<Rightarrow> submitSource \<Rightarrow> 'q depWatch \<Rightarrow> 'q depWatch" where
  "handlerUpdate Q gvr newObj source w =
     crdSideEffect gvr crdLifecycleUpdate newObj (submitDepEvent Q (eventKey gvr newObj) source (stampEvent gvr w))"

definition handlerDelete :: "(depEventKey, 'q) workqueue \<Rightarrow> GVR \<Rightarrow> eventObject \<Rightarrow> submitSource \<Rightarrow> 'q depWatch \<Rightarrow> 'q depWatch" where
  "handlerDelete Q gvr obj source w =
     (let obj = (case obj of DeletedFinalStateUnknown o' \<Rightarrow> o' | _ \<Rightarrow> obj)
      in crdSideEffect gvr crdLifecycleDelete obj (submitDepEvent Q (eventKey gvr obj) source (stampEvent gvr w)))"

section \<open>The worker\<close>

definition probeNow :: "depEventKey \<Rightarrow> 'q depWatch \<Rightarrow> objectState" where
  "probeNow k w = probeObjectState (if dw_bound w then Some (dw_rw w) else None) (ek_gvr k) (ek_namespace k) (ek_name k)"

definition hookDeps :: "depEventKey \<Rightarrow> objectState \<Rightarrow> 'q depWatch \<Rightarrow> 'q depWatch" where
  "hookDeps k state w = w\<lparr>dw_world := snd (OnObjectEvent (ek_gvr k) (ek_namespace k) (ek_name k) state (dw_world w))\<rparr>"

definition requeues :: "(depEventKey, 'q) workqueue \<Rightarrow> depEventKey \<Rightarrow> objectState \<Rightarrow> 'q depWatch \<Rightarrow> bool" where
  "requeues Q k state w \<longleftrightarrow> state \<noteq> objExists \<and> state \<noteq> objAbsent \<and>
     (case dw_queue w of None \<Rightarrow> False | Some q \<Rightarrow> wq_numRequeues Q q k < maxRefreshRequeues)"

definition actOnState :: "(depEventKey, 'q) workqueue \<Rightarrow> depEventKey \<Rightarrow> objectState \<Rightarrow> 'q depWatch \<Rightarrow> 'q depWatch" where
  "actOnState Q k state w =
     (if state = objExists then hookDeps k state (onQueue (wq_forget Q k) (count1 ProbeExists w))
      else if state = objAbsent then hookDeps k state (onQueue (wq_forget Q k) (count1 ProbeAbsent w))
      else (let w = count1 ProbeUnknown w
        in if requeues Q k state w then onQueue (wq_addRateLimited Q k) (markQueued k w)
           else hookDeps k objUnknownDegraded (onQueue (wq_forget Q k) (count1 ProbeUnknownDegraded w))))"

definition handleDepEvent :: "(depEventKey, 'q) workqueue \<Rightarrow> depEventKey \<Rightarrow> 'q depWatch \<Rightarrow> 'q depWatch" where
  "handleDepEvent Q k w = (let w = beginProcessing k w in endProcessing k (actOnState Q k (probeNow k w) w))"

text \<open>One round of the loop; \<open>None\<close> where \<open>Get\<close> blocks.\<close>

definition runDepEventWorker :: "(depEventKey, 'q) workqueue \<Rightarrow> 'q depWatch \<Rightarrow> 'q depWatch option" where
  "runDepEventWorker Q w = (case dw_queue w of None \<Rightarrow> None
     | Some q \<Rightarrow> (case wq_get Q q of None \<Rightarrow> None
         | Some (item, q) \<Rightarrow> Some (onQueue (wq_done Q item) (handleDepEvent Q item (w\<lparr>dw_queue := Some q\<rparr>)))))"

text \<open>An informer's ADD is gated on its flag alone, another one's on the sync channel.\<close>

lemma addGate_iff:
  "fst (addGate gvr isInInitialList fromInformer w) \<longleftrightarrow>
     (if fromInformer then \<not> isInInitialList else syncCh (dw_rw w) gvr = Some True)"
  by (auto simp: addGate_def syncChState_def addEventPostSync_def Let_def split: option.split bool.split prod.split)

lemma probe_iff:
  "probeObjectState (Some rw) gvr ns name = objAbsent \<longleftrightarrow> IsServable gvr (Some rw) \<and>
     (\<exists>gi. informers rw gvr = Some gi \<and> GetByKey gi (if ns \<noteq> [] then ns @ ''/'' @ name else name) = Some False)"
  by (auto simp: probeObjectState_def IsServable_def servableLocked_def split: option.splits bool.splits if_splits)

section \<open>Runs of the bridge\<close>

text \<open>Where the worker stands, and what was logged, the newest first.\<close>

datatype workerPc = Waiting | Taken depEventKey | Begun depEventKey | Probed depEventKey objectState
  | Acted depEventKey | Ended depEventKey

datatype bridgeEntry = Submitted depEventKey | ProbeOf depEventKey objectState | HookOf depEventKey objectState
  | Requeued depEventKey

record 'q bridgeRun =
  br_watch :: "'q depWatch"
  br_subs :: "depEventKey list"
  br_pc :: workerPc
  br_log :: "bridgeEntry list"

definition actEntry :: "(depEventKey, 'q) workqueue \<Rightarrow> depEventKey \<Rightarrow> objectState \<Rightarrow> 'q depWatch \<Rightarrow> bridgeEntry" where
  "actEntry Q k state w = (if requeues Q k state w then Requeued k
     else HookOf k (if state = objExists \<or> state = objAbsent then state else objUnknownDegraded))"

text \<open>Handlers submit on goroutines of their own: each marks, and adds to the queue later. Between any two
  steps the watcher and the tracker may change in any way.\<close>

inductive bridgeStep :: "(depEventKey, 'q) workqueue \<Rightarrow> ('q \<Rightarrow> 'q) \<Rightarrow> 'q bridgeRun \<Rightarrow> 'q bridgeRun \<Rightarrow> bool" for Q elapse where
  mark: "submitMark Q k source (br_watch r) = (True, w) \<Longrightarrow>
    bridgeStep Q elapse r (r\<lparr>br_watch := w, br_subs := k # br_subs r, br_log := Submitted k # br_log r\<rparr>)"
| refused: "submitMark Q k source (br_watch r) = (False, w) \<Longrightarrow> bridgeStep Q elapse r (r\<lparr>br_watch := w\<rparr>)"
| add: "k \<in> set (br_subs r) \<Longrightarrow>
    bridgeStep Q elapse r (r\<lparr>br_watch := onQueue (wq_add Q k) (br_watch r), br_subs := remove1 k (br_subs r)\<rparr>)"
| get: "br_pc r = Waiting \<Longrightarrow> dw_queue (br_watch r) = Some q \<Longrightarrow> wq_get Q q = Some (k, q') \<Longrightarrow>
    bridgeStep Q elapse r (r\<lparr>br_watch := (br_watch r)\<lparr>dw_queue := Some q'\<rparr>, br_pc := Taken k\<rparr>)"
| beginning: "br_pc r = Taken k \<Longrightarrow>
    bridgeStep Q elapse r (r\<lparr>br_watch := beginProcessing k (br_watch r), br_pc := Begun k\<rparr>)"
| probe: "br_pc r = Begun k \<Longrightarrow> state = probeNow k (br_watch r) \<Longrightarrow>
    bridgeStep Q elapse r (r\<lparr>br_pc := Probed k state, br_log := ProbeOf k state # br_log r\<rparr>)"
| act: "br_pc r = Probed k state \<Longrightarrow>
    bridgeStep Q elapse r (r\<lparr>br_watch := actOnState Q k state (br_watch r), br_pc := Acted k,
      br_log := actEntry Q k state (br_watch r) # br_log r\<rparr>)"
| ending: "br_pc r = Acted k \<Longrightarrow>
    bridgeStep Q elapse r (r\<lparr>br_watch := endProcessing k (br_watch r), br_pc := Ended k\<rparr>)"
| finish: "br_pc r = Ended k \<Longrightarrow>
    bridgeStep Q elapse r (r\<lparr>br_watch := onQueue (wq_done Q k) (br_watch r), br_pc := Waiting\<rparr>)"
| elapse: "bridgeStep Q elapse r (r\<lparr>br_watch := onQueue elapse (br_watch r)\<rparr>)"
| world: "bridgeStep Q elapse r (r\<lparr>br_watch := (br_watch r)\<lparr>dw_rw := rw, dw_world := dw\<rparr>\<rparr>)"

definition newDepWatch :: "ResourceWatcher \<Rightarrow> depWorld \<Rightarrow> 'q depWatch" where
  "newDepWatch rw dw = \<lparr>dw_queue = None, dw_bound = False, queued = {}, processing = {}, nilSyncWarned = False,
     dw_count = (\<lambda>_. 0), dw_crd = [], dw_rw = rw, dw_world = dw\<rparr>"

inductive bridgeReach :: "(depEventKey, 'q) workqueue \<Rightarrow> ('q \<Rightarrow> 'q) \<Rightarrow> 'q bridgeRun \<Rightarrow> bool" for Q elapse where
  start: "bridgeReach Q elapse \<lparr>br_watch = newDepWatch rw dw, br_subs = [], br_pc = Waiting, br_log = []\<rparr>"
| more: "bridgeReach Q elapse r \<Longrightarrow> bridgeStep Q elapse r r' \<Longrightarrow> bridgeReach Q elapse r'"

section \<open>Nothing submitted is lost\<close>

definition probedSince :: "depEventKey \<Rightarrow> objectState \<Rightarrow> bridgeEntry list \<Rightarrow> bool" where
  "probedSince k state log \<longleftrightarrow> (\<exists>ys xs. log = ys @ ProbeOf k state # xs \<and> Submitted k \<notin> set ys)"

text \<open>The tracker was told a state of the coordinate that was probed after its last submission.\<close>

definition answered :: "depEventKey \<Rightarrow> bridgeEntry list \<Rightarrow> bool" where
  "answered k log \<longleftrightarrow> (\<exists>zs said ys state xs. log = zs @ HookOf k said # ys @ ProbeOf k state # xs \<and>
     Submitted k \<notin> set (zs @ ys) \<and> (said = state \<or> said = objUnknownDegraded \<and> state = objUnknown))"

fun requeuesSince :: "depEventKey \<Rightarrow> bridgeEntry list \<Rightarrow> nat" where
  "requeuesSince k [] = 0"
| "requeuesSince k (e # log) = (if e = Requeued k then Suc (requeuesSince k log)
     else if \<exists>said. e = HookOf k said then 0 else requeuesSince k log)"

definition pendingIn :: "('q \<Rightarrow> depEventKey set) \<Rightarrow> 'q bridgeRun \<Rightarrow> depEventKey set" where
  "pendingIn P r = (case dw_queue (br_watch r) of None \<Rightarrow> {} | Some q \<Rightarrow> P q)"

definition inHand :: "workerPc \<Rightarrow> depEventKey set" where
  "inHand pc = (case pc of Begun k \<Rightarrow> {k} | Probed k _ \<Rightarrow> {k} | Acted k \<Rightarrow> {k} | _ \<Rightarrow> {})"

definition underWay :: "depEventKey \<Rightarrow> 'q bridgeRun \<Rightarrow> bool" where
  "underWay k r \<longleftrightarrow> k \<in> queued (br_watch r) \<or> br_pc r = Begun k \<or>
     (\<exists>state. br_pc r = Probed k state \<and> probedSince k state (br_log r))"

definition bridgeInv :: "(depEventKey, 'q) workqueue \<Rightarrow> ('q \<Rightarrow> depEventKey set) \<Rightarrow> 'q bridgeRun \<Rightarrow> bool" where
  "bridgeInv Q P r \<longleftrightarrow>
     (case dw_queue (br_watch r) of
        None \<Rightarrow> br_pc r = Waiting \<and> br_subs r = [] \<and> br_log r = [] \<and> queued (br_watch r) = {}
      | Some q \<Rightarrow> \<not> wq_shuttingDown Q q \<and>
          (\<forall>k. wq_numRequeues Q q k \<le> maxRefreshRequeues \<and> requeuesSince k (br_log r) = wq_numRequeues Q q k)) \<and>
     processing (br_watch r) = inHand (br_pc r) \<and>
     queued (br_watch r) \<subseteq> set (br_subs r) \<union> pendingIn P r \<union> (case br_pc r of Taken k \<Rightarrow> {k} | _ \<Rightarrow> {}) \<and>
     (\<forall>k state. br_pc r = Probed k state \<longrightarrow> state \<noteq> objUnknownDegraded) \<and>
     (\<forall>k. Submitted k \<in> set (br_log r) \<longrightarrow> answered k (br_log r) \<or> underWay k r)"

lemma answered_Cons: "answered k log \<Longrightarrow> e \<noteq> Submitted k \<Longrightarrow> answered k (e # log)"
  unfolding answered_def by (metis append_Cons set_ConsD)

lemma probedSince_Cons:
  "probedSince k state log \<Longrightarrow> e \<noteq> Submitted k \<Longrightarrow> probedSince k state (e # log)"
  "probedSince k state (ProbeOf k state # log)"
  unfolding probedSince_def by (metis append_Cons set_ConsD, metis append_Nil empty_iff empty_set)

lemma answered_hook:
  assumes "probedSince k state log" "said = state \<or> said = objUnknownDegraded \<and> state = objUnknown"
  shows "answered k (HookOf k said # log)"
proof -
  obtain ys xs where "log = ys @ ProbeOf k state # xs" "Submitted k \<notin> set ys"
    using assms(1) by (auto simp: probedSince_def)
  then have "HookOf k said # log = [] @ HookOf k said # ys @ ProbeOf k state # xs \<and> Submitted k \<notin> set ([] @ ys)" by simp
  then show ?thesis unfolding answered_def using assms(2) by blast
qed

lemma bridge_frames [simp]:
  "dw_queue (count1 c w) = dw_queue w" "queued (count1 c w) = queued w" "processing (count1 c w) = processing w"
  "dw_queue (onQueue f w) = map_option f (dw_queue w)" "queued (onQueue f w) = queued w" "processing (onQueue f w) = processing w"
  "dw_queue (markQueued k w) = dw_queue w" "queued (markQueued k w) = insert k (queued w)" "processing (markQueued k w) = processing w"
  "dw_queue (hookDeps k st w) = dw_queue w" "queued (hookDeps k st w) = queued w" "processing (hookDeps k st w) = processing w"
  "dw_queue (beginProcessing k w) = dw_queue w" "queued (beginProcessing k w) = queued w - {k}"
  "processing (beginProcessing k w) = insert k (processing w)"
  "dw_queue (endProcessing k w) = dw_queue w" "queued (endProcessing k w) = queued w" "processing (endProcessing k w) = processing w - {k}"
  "requeues Q k st (count1 c w) = requeues Q k st w"
  by (simp_all add: count1_def onQueue_def markQueued_def hookDeps_def beginProcessing_def endProcessing_def requeues_def)

lemma act_frames [simp]:
  "dw_queue (actOnState Q k st w) = map_option (if requeues Q k st w then wq_addRateLimited Q k else wq_forget Q k) (dw_queue w)"
  "queued (actOnState Q k st w) = (if requeues Q k st w then insert k (queued w) else queued w)"
  "processing (actOnState Q k st w) = processing w"
  by (auto simp: actOnState_def Let_def requeues_def)

lemma submit_frames:
  assumes "submitMark Q k source w = (b, w')"
  shows "dw_queue w' = Some (case dw_queue w of None \<Rightarrow> wq_new Q | Some q \<Rightarrow> q)" "processing w' = processing w"
    "b \<longleftrightarrow> \<not> wq_shuttingDown Q (case dw_queue w of None \<Rightarrow> wq_new Q | Some q \<Rightarrow> q)"
    "queued w' = (if b then insert k (queued w) else queued w)"
  using assms by (auto simp: submitMark_def Let_def startWorker_def split: option.splits if_splits)

lemma probe_state: "probeNow k w \<noteq> objUnknownDegraded"
  by (auto simp: probeNow_def probeObjectState_def split: option.split bool.split)

lemma bridgeInv_step:
  assumes L: "queueLaws Q P elapse" and s: "bridgeStep Q elapse r r'" and i: "bridgeInv Q P r"
  shows "bridgeInv Q P r'"
  using s i
proof (cases rule: bridgeStep.cases)
  case (mark k source w)
  note f = submit_frames [OF mark(2)]
  show ?thesis
  proof (cases "dw_queue (br_watch r)")
    case None
    then show ?thesis using i f queue_laws(1-3) [OF L]
      by (auto simp: mark(1) bridgeInv_def pendingIn_def underWay_def inHand_def)
  next
    case (Some q)
    have "answered j (Submitted k # br_log r)" if "answered j (br_log r)" "j \<noteq> k" for j
      using that by (intro answered_Cons) simp_all
    moreover have "probedSince j st (Submitted k # br_log r)" if "probedSince j st (br_log r)" "j \<noteq> k" for j st
      using that by (intro probedSince_Cons) simp_all
    ultimately show ?thesis using i f Some
      by (auto simp: mark(1) bridgeInv_def pendingIn_def underWay_def)
  qed
next
  case (refused k source w)
  note f = submit_frames [OF refused(2)]
  have False using f(3) i queue_laws(3) [OF L] by (cases "dw_queue (br_watch r)") (auto simp: bridgeInv_def)
  then show ?thesis ..
next
  case (add k)
  then show ?thesis using i
    by (cases "dw_queue (br_watch r)") (auto simp: bridgeInv_def pendingIn_def underWay_def queue_laws [OF L])
next
  case (get q k q')
  then show ?thesis using i get_law [OF L get(4)]
    by (auto simp: bridgeInv_def pendingIn_def underWay_def inHand_def)
next
  case (beginning k)
  then show ?thesis using i by (auto simp: bridgeInv_def pendingIn_def underWay_def inHand_def split: option.splits)
next
  case (probe k state)
  then show ?thesis using i probe_state [of k "br_watch r"] answered_Cons [of _ "br_log r" "ProbeOf k state"]
    by (auto simp: bridgeInv_def pendingIn_def underWay_def inHand_def probedSince_Cons split: option.splits)
next
  case (act k state)
  then obtain q where q: "dw_queue (br_watch r) = Some q" using i by (auto simp: bridgeInv_def split: option.splits)
  note L = queue_laws [OF L]
  have st: "state \<noteq> objUnknownDegraded" using i act(2) by (auto simp: bridgeInv_def)
  show ?thesis
  proof (cases "requeues Q k state (br_watch r)")
    case True
    then have "wq_numRequeues Q q k < maxRefreshRequeues" by (simp add: requeues_def q)
    moreover have "answered j (Requeued k # br_log r)" if "answered j (br_log r)" for j
      using that by (rule answered_Cons) simp
    ultimately show ?thesis using i True q
      by (auto simp: act bridgeInv_def pendingIn_def underWay_def inHand_def actEntry_def L)
  next
    case False
    let ?e = "actEntry Q k state (br_watch r)"
    obtain said where e: "?e = HookOf k said" and said: "said = state \<or> said = objUnknownDegraded \<and> state = objUnknown"
      using st False by (cases state) (auto simp: actEntry_def)
    have "answered j (?e # br_log r)" if "answered j (br_log r)" for j
      using that by (rule answered_Cons) (simp add: e)
    moreover have "answered k (?e # br_log r)" if "probedSince k state (br_log r)"
      unfolding e using that said by (rule answered_hook)
    ultimately show ?thesis using i False q
      by (auto simp: act bridgeInv_def pendingIn_def underWay_def inHand_def e L)
  qed
next
  case (ending k)
  then show ?thesis using i by (auto simp: bridgeInv_def pendingIn_def underWay_def inHand_def split: option.splits)
next
  case (finish k)
  then show ?thesis using i
    by (cases "dw_queue (br_watch r)") (auto simp: bridgeInv_def pendingIn_def underWay_def inHand_def queue_laws [OF L])
next
  case elapse
  then show ?thesis using i
    by (cases "dw_queue (br_watch r)") (auto simp: bridgeInv_def pendingIn_def underWay_def queue_laws [OF L])
next
  case (world rw dw)
  then show ?thesis using i
    by (cases "dw_queue (br_watch r)") (auto simp: bridgeInv_def pendingIn_def underWay_def)
qed

lemma bridgeInv_reach:
  assumes "queueLaws Q P elapse" "bridgeReach Q elapse r"
  shows "bridgeInv Q P r"
  using assms(2)
proof induction
  case (start rw dw)
  then show ?case by (simp add: bridgeInv_def newDepWatch_def inHand_def)
next
  case (more r r')
  then show ?case using bridgeInv_step [OF assms(1)] by blast
qed

text \<open>C5: Whatever the watcher and the tracker do and however the goroutines interleave, a coordinate a handler
  submitted is either still marked as on its way, so that the comparator of the list cells skips it, or the
  tracker was told a state of it that was probed after its last submission; when the queue is empty and nobody
  is at work, the tracker was told of every submitted coordinate.\<close>

theorem no_submission_lost:
  assumes "queueLaws Q P elapse" "bridgeReach Q elapse r" "Submitted k \<in> set (br_log r)"
  shows "(answered k (br_log r) \<or> k \<in> queued (br_watch r) \<or> k \<in> processing (br_watch r)) \<and>
    (br_subs r = [] \<and> br_pc r = Waiting \<and> pendingIn P r = {} \<longrightarrow> answered k (br_log r))"
proof -
  note i = bridgeInv_reach [OF assms(1,2)]
  then have "answered k (br_log r) \<or> underWay k r" using assms(3) by (simp add: bridgeInv_def)
  moreover have "k \<in> queued (br_watch r) \<or> k \<in> processing (br_watch r)" if "underWay k r"
    using that i by (auto simp: underWay_def bridgeInv_def inHand_def)
  moreover have "\<not> underWay k r" if "br_subs r = []" "br_pc r = Waiting" "pendingIn P r = {}"
    using that i by (auto simp: underWay_def bridgeInv_def)
  ultimately show ?thesis by blast
qed

text \<open>C36: Between two calls of the tracker a coordinate is put back at most \<open>maxRefreshRequeues\<close> times: the probe
  that cannot decide after that is turned into a mark.\<close>

theorem requeue_budget:
  assumes "queueLaws Q P elapse" "bridgeReach Q elapse r"
  shows "requeuesSince k (br_log r) \<le> maxRefreshRequeues"
proof (cases "dw_queue (br_watch r)")
  case None
  then show ?thesis using bridgeInv_reach [OF assms] by (auto simp: bridgeInv_def)
next
  case (Some q)
  then show ?thesis using bridgeInv_reach [OF assms] by (auto simp: bridgeInv_def)
qed

section \<open>A run\<close>

definition exKey :: depEventKey where
  "exKey = \<lparr>ek_gvr = (''apps'', ''v1'', ''deployments''), ek_namespace = ''ns'', ek_name = ''web''\<rparr>"

definition exRW :: ResourceWatcher where
  "exRW = \<lparr>modePassthrough = False, informers = (\<lambda>_. None), watchBroken = (\<lambda>_. False), listRefused = (\<lambda>_. False),
     disco_wired = False, confirmed = (\<lambda>_. False), syncCh = (\<lambda>_. None), lastEventAt = (\<lambda>_. None), rw_now = 0\<rparr>"

definition exWorld :: depWorld where
  "exWorld = \<lparr>w_deps = newDepTracker 0, w_store = None\<rparr>"

definition exMarked :: "depEventKey exQueue bridgeRun" where
  "exMarked = \<lparr>br_watch = snd (submitMark exQ exKey dmSourceWatch (newDepWatch exRW exWorld)), br_subs = [exKey],
     br_pc = Waiting, br_log = [Submitted exKey]\<rparr>"

lemma exMarked_reached: "bridgeReach exQ eq_elapse exMarked"
proof -
  let ?r = "\<lparr>br_watch = newDepWatch exRW exWorld, br_subs = [], br_pc = Waiting, br_log = []\<rparr>"
  have "submitMark exQ exKey dmSourceWatch (br_watch ?r) = (True, br_watch exMarked)"
    by (simp add: exMarked_def submitMark_def Let_def startWorker_def newDepWatch_def exQ_def count1_def)
  from bridgeStep.mark [OF this, of eq_elapse] show ?thesis
    by (intro bridgeReach.more [OF bridgeReach.start [of exQ eq_elapse exRW exWorld]]) (simp add: exMarked_def)
qed

lemma no_submission_lost_witness:
  "answered exKey (br_log exMarked) \<or> exKey \<in> queued (br_watch exMarked) \<or> exKey \<in> processing (br_watch exMarked)"
  using no_submission_lost [OF exQ_laws exMarked_reached, of exKey] by (simp add: exMarked_def)

lemma requeue_budget_witness: "requeuesSince exKey (br_log exMarked) \<le> maxRefreshRequeues"
  by (rule requeue_budget [OF exQ_laws exMarked_reached])

end
