(* ===== verification/DepReconcile.thy ===== *)
theory DepReconcile
  imports DepWatch ResolvedReaper
begin

text \<open>
  The audit of lost deletions (cache/deps\_reconcile.go): it walks the metadata of resident cells, probes the
  informer once for each coordinate a cell represents, and hands a coordinate whose object is absent to the
  worker of the bridge, which evicts what represents it. Hold times and log lines are left out; the walk
  reads the watcher and the tracker as they are when it starts, and \<open>late i\<close> is whether the wall-time cap
  is over after batch \<open>i\<close>.
\<close>

section \<open>State\<close>

record ReconcileEntry =
  re_KeyHash :: gostring
  re_CacheEntryClass :: gostring
  re_key :: depEventKey

record ReconcileReport =
  rp_Sampled :: nat
  rp_Probed :: nat
  rp_Divergent :: nat
  rp_Unknown :: nat
  rp_SkippedNoEdge :: nat
  rp_Entries :: "ReconcileEntry list"
  rp_Batches :: nat
  rp_Truncated :: bool
  rp_DryRun :: bool

record reconcileCandidate =
  rc_keyHash :: gostring
  rc_class :: gostring
  rc_key :: depEventKey

record 'q reconcileState =
  rs_w :: "'q depWatch"
  rs_rep :: ReconcileReport
  rs_verdicts :: "depEventKey \<Rightarrow> objectState option"
  rs_submitted :: "depEventKey set"
  rs_dryRun :: bool

definition emptyReport :: "bool \<Rightarrow> ReconcileReport" where
  "emptyReport dryRun = \<lparr>rp_Sampled = 0, rp_Probed = 0, rp_Divergent = 0, rp_Unknown = 0, rp_SkippedNoEdge = 0,
     rp_Entries = [], rp_Batches = 0, rp_Truncated = False, rp_DryRun = dryRun\<rparr>"

definition onReport :: "(ReconcileReport \<Rightarrow> ReconcileReport) \<Rightarrow> 'q reconcileState \<Rightarrow> 'q reconcileState" where
  "onReport f st = st\<lparr>rs_rep := f (rs_rep st)\<rparr>"

section \<open>The walk\<close>

definition collect ::
  "reconcileCandidate list \<Rightarrow> ResolvedEntryMeta \<Rightarrow> 'q reconcileState \<Rightarrow> reconcileCandidate list \<times> 'q reconcileState" where
  "collect cands m st =
     (let st = onReport (\<lambda>r. r\<lparr>rp_Sampled := rp_Sampled r + 1\<rparr>) st
      in if mt_Name m = [] \<or> mt_Resource m = [] then (cands, st)
         else (cands @ [\<lparr>rc_keyHash = mt_KeyHash m, rc_class = mt_CacheEntryClass m,
           rc_key = \<lparr>ek_gvr = (mt_Group m, mt_Version m, mt_Resource m), ek_namespace = mt_Namespace m,
             ek_name = mt_Name m\<rparr>\<rparr>], st))"

definition verdictOf :: "depEventKey \<Rightarrow> 'q reconcileState \<Rightarrow> objectState \<times> 'q reconcileState" where
  "verdictOf k st = (case rs_verdicts st k of Some v \<Rightarrow> (v, st)
     | None \<Rightarrow> (let v = probeObjectState (Some (dw_rw (rs_w st))) (ek_gvr k) (ek_namespace k) (ek_name k);
           st = onReport (\<lambda>r. r\<lparr>rp_Probed := rp_Probed r + 1\<rparr>) (st\<lparr>rs_verdicts := (rs_verdicts st)(k \<mapsto> v)\<rparr>)
         in (v, if v = objUnknown then onReport (\<lambda>r. r\<lparr>rp_Unknown := rp_Unknown r + 1\<rparr>) st else st)))"

definition depKeyOf :: "depEventKey \<Rightarrow> DepKey" where
  "depKeyOf k = \<lparr>dk_GVR = ek_gvr k, dk_Namespace = ek_namespace k, dk_Name = ek_name k\<rparr>"

definition submitDivergent :: "(depEventKey, 'q) workqueue \<Rightarrow> depEventKey \<Rightarrow> 'q reconcileState \<Rightarrow> 'q reconcileState" where
  "submitDivergent Q k st =
     (if k \<in> rs_submitted st then st
      else let st = onReport (\<lambda>r. r\<lparr>rp_Divergent := rp_Divergent r + 1\<rparr>) (st\<lparr>rs_submitted := insert k (rs_submitted st)\<rparr>)
        in if rs_dryRun st then st else st\<lparr>rs_w := submitDepEvent Q k dmSourceReconcile (rs_w st)\<rparr>)"

definition probeOne :: "(depEventKey, 'q) workqueue \<Rightarrow> 'q reconcileState \<Rightarrow> reconcileCandidate \<Rightarrow> 'q reconcileState" where
  "probeOne Q st c =
     (case verdictOf (rc_key c) st of (v, st) \<Rightarrow>
        if v \<noteq> objAbsent then st
        else if \<not> hasEdge (rc_keyHash c) (depKeyOf (rc_key c)) (w_deps (dw_world (rs_w st)))
          then onReport (\<lambda>r. r\<lparr>rp_SkippedNoEdge := rp_SkippedNoEdge r + 1\<rparr>) st
        else onReport (\<lambda>r. r\<lparr>rp_Entries := rp_Entries r @
            [\<lparr>re_KeyHash = rc_keyHash c, re_CacheEntryClass = rc_class c, re_key = rc_key c\<rparr>]\<rparr>)
          (submitDivergent Q (rc_key c) st))"

definition probeCands :: "(depEventKey, 'q) workqueue \<Rightarrow> reconcileCandidate list \<Rightarrow> 'q reconcileState \<Rightarrow> 'q reconcileState" where
  "probeCands Q cands st = foldl (probeOne Q) st cands"

definition collectAll ::
  "ResolvedEntryMeta list \<Rightarrow> 'q reconcileState \<Rightarrow> reconcileCandidate list \<times> 'q reconcileState" where
  "collectAll metas st = foldl (\<lambda>(cands, st) m. collect cands m st) ([], st) metas"

definition startState :: "'q depWatch \<Rightarrow> bool \<Rightarrow> 'q reconcileState" where
  "startState w dryRun = \<lparr>rs_w = w, rs_rep = emptyReport dryRun, rs_verdicts = (\<lambda>_. None), rs_submitted = {},
     rs_dryRun = dryRun\<rparr>"

definition reconcileFullBatch :: int where "reconcileFullBatch = 512"

text \<open>\<open>view i\<close> is the store when batch \<open>i\<close> is projected and \<open>keys\<close> the order of the range over its index.\<close>

definition reconcileWalk ::
  "(depEventKey, 'q) workqueue \<Rightarrow> (nat \<Rightarrow> store) option \<Rightarrow> bool \<Rightarrow> gostring list \<Rightarrow> (nat \<Rightarrow> bool) \<Rightarrow> int \<Rightarrow> bool \<Rightarrow> 'q depWatch
     \<Rightarrow> ReconcileReport \<times> 'q depWatch" where
  "reconcileWalk Q stores rwPresent keys late limit dryRun w =
     (case stores of None \<Rightarrow> (emptyReport dryRun, w)
      | Some view \<Rightarrow>
        if \<not> rwPresent then (emptyReport dryRun, w)
        else let st =
          (if limit > 0 then
             (case RangeMetadataSample limit keys (\<lambda>m (cands, st). (True, collect cands m st)) (view 0)
                 ([], startState w dryRun) of (cands, st) \<Rightarrow> probeCands Q cands st)
           else RangeMetadataBatched reconcileFullBatch view keys (\<lambda>metas st.
             let st = onReport (\<lambda>r. r\<lparr>rp_Batches := rp_Batches r + 1\<rparr>) st in
             case collectAll metas st of (cands, st) \<Rightarrow>
               (let st = probeCands Q cands st
                in if late (rp_Batches (rs_rep st)) then (False, onReport (\<lambda>r. r\<lparr>rp_Truncated := True\<rparr>) st) else (True, st)))
             (startState w dryRun))
          in (rs_rep st, rs_w st))"

definition reconcileOnce ::
  "(depEventKey, 'q) workqueue \<Rightarrow> (nat \<Rightarrow> store) option \<Rightarrow> bool \<Rightarrow> gostring list \<Rightarrow> int \<Rightarrow> 'q depWatch \<Rightarrow> ReconcileReport \<times> 'q depWatch" where
  "reconcileOnce Q stores rwPresent keys limit w = reconcileWalk Q stores rwPresent keys (\<lambda>_. False) limit False w"

section \<open>The counters\<close>

record depsReconcile =
  ticks :: "64 word"
  sampled :: "64 word"
  probed :: "64 word"
  divergence :: "64 word"
  unknown :: "64 word"
  skippedNoEdge :: "64 word"

definition account :: "ReconcileReport \<Rightarrow> depsReconcile \<Rightarrow> depsReconcile" where
  "account res r = r\<lparr>sampled := sampled r + of_nat (rp_Sampled res), probed := probed r + of_nat (rp_Probed res),
     divergence := divergence r + of_nat (rp_Divergent res), unknown := unknown r + of_nat (rp_Unknown res),
     skippedNoEdge := skippedNoEdge r + of_nat (rp_SkippedNoEdge res)\<rparr>"

definition reconcileTick ::
  "(depEventKey, 'q) workqueue \<Rightarrow> (nat \<Rightarrow> store) option \<Rightarrow> bool \<Rightarrow> gostring list \<Rightarrow> int \<Rightarrow> depsReconcile \<Rightarrow> 'q depWatch \<Rightarrow> depsReconcile \<times> 'q depWatch" where
  "reconcileTick Q stores rwPresent keys sample r w =
     (if stores = None \<or> \<not> rwPresent then (r, w)
      else case reconcileOnce Q stores rwPresent keys sample w of (res, w) \<Rightarrow>
        (account res (r\<lparr>ticks := ticks r + 1\<rparr>), w))"

definition ReconcileFullDryRun ::
  "(depEventKey, 'q) workqueue \<Rightarrow> (nat \<Rightarrow> store) option \<Rightarrow> bool \<Rightarrow> gostring list \<Rightarrow> (nat \<Rightarrow> bool) \<Rightarrow> bool \<Rightarrow> depsReconcile \<Rightarrow> 'q depWatch
     \<Rightarrow> (ReconcileReport \<times> bool) \<times> depsReconcile \<times> 'q depWatch" where
  "ReconcileFullDryRun Q stores rwPresent keys late dryRun r w =
     (if stores = None \<or> \<not> rwPresent then ((emptyReport dryRun, False), r, w)
      else case reconcileWalk Q stores rwPresent keys late 0 dryRun w of (rep, w) \<Rightarrow>
        ((rep, True), if \<not> dryRun then account rep r else r, w))"

section \<open>What a pass finds\<close>

definition stateIn :: "'q depWatch \<Rightarrow> depEventKey \<Rightarrow> objectState" where
  "stateIn w k = probeObjectState (Some (dw_rw w)) (ek_gvr k) (ek_namespace k) (ek_name k)"

text \<open>A candidate whose object is gone and that the worker can reach.\<close>

definition lostDelete :: "'q depWatch \<Rightarrow> reconcileCandidate \<Rightarrow> bool" where
  "lostDelete w c \<longleftrightarrow> stateIn w (rc_key c) = objAbsent \<and> hasEdge (rc_keyHash c) (depKeyOf (rc_key c)) (w_deps (dw_world w))"

definition submitAll :: "(depEventKey, 'q) workqueue \<Rightarrow> bool \<Rightarrow> depEventKey list \<Rightarrow> 'q depWatch \<Rightarrow> 'q depWatch" where
  "submitAll Q dryRun ks w = (if dryRun then w else foldl (\<lambda>w k. submitDepEvent Q k dmSourceReconcile w) w ks)"

lemma submit_keeps:
  "dw_rw (submitDepEvent Q k src w) = dw_rw w" "dw_world (submitDepEvent Q k src w) = dw_world w"
  by (auto simp: submitDepEvent_def submitMark_def Let_def startWorker_def count1_def markQueued_def onQueue_def split: option.splits)

lemma submitAll_keeps [simp]:
  "dw_rw (submitAll Q dry ks w) = dw_rw w" "dw_world (submitAll Q dry ks w) = dw_world w"
proof -
  have "dw_rw (foldl (\<lambda>w k. submitDepEvent Q k dmSourceReconcile w) w ks) = dw_rw w \<and>
      dw_world (foldl (\<lambda>w k. submitDepEvent Q k dmSourceReconcile w) w ks) = dw_world w" for ks
    by (induction ks arbitrary: w) (simp_all add: submit_keeps)
  then show "dw_rw (submitAll Q dry ks w) = dw_rw w" "dw_world (submitAll Q dry ks w) = dw_world w"
    by (simp_all add: submitAll_def)
qed

lemma submitAll_snoc: "submitAll Q dry (ks @ [k]) w = (if dry then submitAll Q dry ks w else submitDepEvent Q k dmSourceReconcile (submitAll Q dry ks w))"
  by (simp add: submitAll_def)

definition entryOf :: "reconcileCandidate \<Rightarrow> ReconcileEntry" where
  "entryOf c = \<lparr>re_KeyHash = rc_keyHash c, re_CacheEntryClass = rc_class c, re_key = rc_key c\<rparr>"

text \<open>What holds after the candidates \<open>cs\<close> of a pass that started in \<open>w\<close>.\<close>

definition auditInv :: "(depEventKey, 'q) workqueue \<Rightarrow> 'q depWatch \<Rightarrow> bool \<Rightarrow> reconcileCandidate list \<Rightarrow> depEventKey list \<Rightarrow> 'q reconcileState \<Rightarrow> bool" where
  "auditInv Q w dry cs ks st \<longleftrightarrow>
     rs_dryRun st = dry \<and> distinct ks \<and> set ks = rc_key ` set (filter (lostDelete w) cs) \<and>
     rs_w st = submitAll Q dry ks w \<and> rs_submitted st = set ks \<and>
     rs_verdicts st = (\<lambda>k. if k \<in> rc_key ` set cs then Some (stateIn w k) else None) \<and>
     rp_Probed (rs_rep st) = card (rc_key ` set cs) \<and>
     rp_Unknown (rs_rep st) = card {k \<in> rc_key ` set cs. stateIn w k = objUnknown} \<and>
     rp_Divergent (rs_rep st) = length ks \<and>
     rp_SkippedNoEdge (rs_rep st) = length (filter (\<lambda>c. stateIn w (rc_key c) = objAbsent \<and> \<not> lostDelete w c) cs) \<and>
     rp_Entries (rs_rep st) = map entryOf (filter (lostDelete w) cs)"

lemma verdict_step:
  assumes "auditInv Q w dry cs ks st"
  shows "\<exists>st1. verdictOf k st = (stateIn w k, st1) \<and>
      rs_w st1 = rs_w st \<and> rs_submitted st1 = rs_submitted st \<and> rs_dryRun st1 = rs_dryRun st \<and>
      rs_verdicts st1 = (\<lambda>j. if j \<in> insert k (rc_key ` set cs) then Some (stateIn w j) else None) \<and>
      rp_Probed (rs_rep st1) = card (insert k (rc_key ` set cs)) \<and>
      rp_Unknown (rs_rep st1) = card {j \<in> insert k (rc_key ` set cs). stateIn w j = objUnknown} \<and>
      rp_Divergent (rs_rep st1) = rp_Divergent (rs_rep st) \<and> rp_SkippedNoEdge (rs_rep st1) = rp_SkippedNoEdge (rs_rep st) \<and>
      rp_Entries (rs_rep st1) = rp_Entries (rs_rep st) \<and> rp_Sampled (rs_rep st1) = rp_Sampled (rs_rep st)"
proof (cases "k \<in> rc_key ` set cs")
  case True
  then have "verdictOf k st = (stateIn w k, st)" using assms by (simp add: verdictOf_def auditInv_def)
  then show ?thesis using assms by (simp add: auditInv_def insert_absorb [OF True])
next
  case False
  then have "rs_verdicts st k = None" and now: "dw_rw (rs_w st) = dw_rw w" using assms by (simp_all add: auditInv_def)
  moreover have "{j. (j = k \<or> j \<in> rc_key ` set cs) \<and> stateIn w j = objUnknown} =
      (if stateIn w k = objUnknown then insert k {j \<in> rc_key ` set cs. stateIn w j = objUnknown}
       else {j \<in> rc_key ` set cs. stateIn w j = objUnknown})" by auto
  ultimately show ?thesis using assms False
    by (auto simp: verdictOf_def Let_def auditInv_def onReport_def stateIn_def)
qed

lemma auditInv_step:
  assumes "auditInv Q w dry cs ks st"
  shows "\<exists>ks'. auditInv Q w dry (cs @ [c]) ks' (probeOne Q st c)"
    "rp_Sampled (rs_rep (probeOne Q st c)) = rp_Sampled (rs_rep st)"
proof -
  note i = assms [unfolded auditInv_def]
  let ?k = "rc_key c"
  have w: "dw_world (rs_w st) = dw_world w" using i by simp
  obtain st1 where v: "verdictOf ?k st = (stateIn w ?k, st1)"
    and st1: "rs_w st1 = rs_w st" "rs_submitted st1 = rs_submitted st" "rs_dryRun st1 = rs_dryRun st"
      "rs_verdicts st1 = (\<lambda>j. if j \<in> insert ?k (rc_key ` set cs) then Some (stateIn w j) else None)"
      "rp_Probed (rs_rep st1) = card (insert ?k (rc_key ` set cs))"
      "rp_Unknown (rs_rep st1) = card {j \<in> insert ?k (rc_key ` set cs). stateIn w j = objUnknown}"
      "rp_Divergent (rs_rep st1) = rp_Divergent (rs_rep st)" "rp_SkippedNoEdge (rs_rep st1) = rp_SkippedNoEdge (rs_rep st)"
      "rp_Entries (rs_rep st1) = rp_Entries (rs_rep st)" "rp_Sampled (rs_rep st1) = rp_Sampled (rs_rep st)"
    using verdict_step [OF assms, of ?k] by blast
  have edge: "hasEdge (rc_keyHash c) (depKeyOf ?k) (w_deps (dw_world (rs_w st1))) \<longleftrightarrow> lostDelete w c"
    if "stateIn w ?k = objAbsent" using that w st1(1) by (simp add: lostDelete_def)
  note defs = auditInv_def probeOne_def v onReport_def
  show "\<exists>ks'. auditInv Q w dry (cs @ [c]) ks' (probeOne Q st c)"
  proof (cases "lostDelete w c")
    case False
    then show ?thesis using i st1 edge
      by (intro exI [of _ ks], cases "stateIn w ?k = objAbsent") (simp_all add: defs)
  next
    case True
    then have absent: "stateIn w ?k = objAbsent" by (simp add: lostDelete_def)
    have keys: "rc_key ` set (filter (lostDelete w) (cs @ [c])) = insert ?k (rc_key ` set (filter (lostDelete w) cs))"
      using True by auto
    show ?thesis
    proof (cases "?k \<in> set ks")
      case old: True
      then show ?thesis using i st1 edge [OF absent] True absent
        by (intro exI [of _ ks]) (simp add: defs submitDivergent_def entryOf_def keys insert_absorb)
    next
      case new: False
      then show ?thesis using i st1 edge [OF absent] True absent
        by (intro exI [of _ "ks @ [?k]"]) (simp add: defs submitDivergent_def entryOf_def keys Let_def submitAll_snoc)
    qed
  qed
  show "rp_Sampled (rs_rep (probeOne Q st c)) = rp_Sampled (rs_rep st)"
    using st1 by (auto simp: probeOne_def v submitDivergent_def Let_def onReport_def)
qed

definition candidatesOf :: "ResolvedEntryMeta list \<Rightarrow> reconcileCandidate list" where
  "candidatesOf metas = map (\<lambda>m. \<lparr>rc_keyHash = mt_KeyHash m, rc_class = mt_CacheEntryClass m,
     rc_key = \<lparr>ek_gvr = (mt_Group m, mt_Version m, mt_Resource m), ek_namespace = mt_Namespace m, ek_name = mt_Name m\<rparr>\<rparr>)
     (filter (\<lambda>m. mt_Name m \<noteq> [] \<and> mt_Resource m \<noteq> []) metas)"

lemma auditInv_fold:
  assumes "auditInv Q w dry cs ks st"
  shows "\<exists>ks'. auditInv Q w dry (cs @ cs') ks' (probeCands Q cs' st)"
    "rp_Sampled (rs_rep (probeCands Q cs' st)) = rp_Sampled (rs_rep st)"
proof -
  have "(\<exists>ks'. auditInv Q w dry (cs @ cs') ks' (probeCands Q cs' st)) \<and>
      rp_Sampled (rs_rep (probeCands Q cs' st)) = rp_Sampled (rs_rep st)"
    using assms
  proof (induction cs' arbitrary: cs ks st)
    case Nil
    then show ?case by (auto simp: probeCands_def)
  next
    case (Cons c cs')
    obtain ks1 where "auditInv Q w dry (cs @ [c]) ks1 (probeOne Q st c)" using auditInv_step(1) [OF Cons.prems] by blast
    from Cons.IH [OF this] show ?case using auditInv_step(2) [OF Cons.prems, of c] by (simp add: probeCands_def)
  qed
  then show "\<exists>ks'. auditInv Q w dry (cs @ cs') ks' (probeCands Q cs' st)"
    "rp_Sampled (rs_rep (probeCands Q cs' st)) = rp_Sampled (rs_rep st)" by blast+
qed

lemma collect_step:
  "collect cands m st = (cands @ candidatesOf [m], onReport (\<lambda>r. r\<lparr>rp_Sampled := rp_Sampled r + 1\<rparr>) st)"
  by (simp add: collect_def candidatesOf_def Let_def)

lemma collect_fold:
  "foldl (\<lambda>(cands, st) m. collect cands m st) (cands, st) metas =
     (cands @ candidatesOf metas, onReport (\<lambda>r. r\<lparr>rp_Sampled := rp_Sampled r + length metas\<rparr>) st)"
proof (induction metas arbitrary: cands st)
  case Nil
  then show ?case by (cases st) (simp add: candidatesOf_def onReport_def)
next
  case (Cons m metas)
  have "candidatesOf (m # metas) = candidatesOf [m] @ candidatesOf metas" by (simp add: candidatesOf_def)
  then show ?case by (simp only: foldl.simps prod.case collect_step [of cands m st] Cons.IH) (simp add: onReport_def)
qed

lemma visit_collect:
  "visitUntil (\<lambda>m (cands, st). (True, collect cands m st)) metas a = foldl (\<lambda>(cands, st) m. collect cands m st) a metas"
  by (induction metas arbitrary: a) (auto split: prod.splits)

lemma auditInv_start:
  "auditInv Q w dry [] [] (onReport (\<lambda>r. r\<lparr>rp_Sampled := n\<rparr>) (startState w dry))"
  by (simp add: auditInv_def startState_def onReport_def emptyReport_def submitAll_def)

text \<open>C7: A sampled audit hands the worker exactly the coordinates whose object the informer is sure is absent and
  for which a sampled cell has an edge, each once, and none on a dry run; its report counts each sampled cell,
  each coordinate once, the undecided coordinates, and the cells the worker could not reach.\<close>

theorem audit_submits_lost_deletes:
  assumes "limit > 0" "reconcileWalk Q (Some view) True keys late limit dryRun w = (rep, w')"
    and "metas = map (metaForItemLocked (view 0)) (take (nat limit) (residentItems (view 0) keys))"
  shows "\<exists>ks. distinct ks \<and> set ks = rc_key ` {c \<in> set (candidatesOf metas). lostDelete w c} \<and>
    w' = (if dryRun then w else foldl (\<lambda>w k. submitDepEvent Q k dmSourceReconcile w) w ks) \<and>
    rp_Divergent rep = length ks \<and> rp_Sampled rep = length metas \<and>
    rp_Probed rep = card (rc_key ` set (candidatesOf metas)) \<and>
    rp_Unknown rep = card {k \<in> rc_key ` set (candidatesOf metas). stateIn w k = objUnknown} \<and>
    rp_SkippedNoEdge rep = length (filter (\<lambda>c. stateIn w (rc_key c) = objAbsent \<and> \<not> lostDelete w c) (candidatesOf metas)) \<and>
    rp_Entries rep = map entryOf (filter (lostDelete w) (candidatesOf metas))"
proof -
  let ?init = "onReport (\<lambda>r. r\<lparr>rp_Sampled := length metas\<rparr>) (startState w dryRun)"
  let ?st = "probeCands Q (candidatesOf metas) ?init"
  have st0: "onReport (\<lambda>r. r\<lparr>rp_Sampled := rp_Sampled r + length metas\<rparr>) (startState w dryRun) = ?init"
    by (simp add: onReport_def startState_def emptyReport_def)
  have "RangeMetadataSample limit keys (\<lambda>m (cands, st). (True, collect cands m st)) (view 0) ([], startState w dryRun)
      = (candidatesOf metas, ?init)"
    using assms(1) unfolding RangeMetadataSample_def visit_collect assms(3) [symmetric] collect_fold st0 by simp
  then have "(rep, w') = (rs_rep ?st, rs_w ?st)"
    using assms(1,2) by (simp only: reconcileWalk_def Let_def option.case if_True not_True_eq_False if_False prod.case)
  moreover obtain ks where ks: "auditInv Q w dryRun (candidatesOf metas) ks ?st"
    using auditInv_fold(1) [OF auditInv_start, of Q w dryRun "candidatesOf metas" "length metas"] by auto
  moreover have "rp_Sampled (rs_rep ?st) = length metas"
    using auditInv_fold(2) [OF auditInv_start, of Q "candidatesOf metas" "length metas" w dryRun] by (simp add: onReport_def)
  ultimately show ?thesis
    by (intro exI [of _ ks]) (simp add: auditInv_def submitAll_def)
qed

section \<open>What the worker makes of it\<close>

lemma edge_dependent: "hasEdge k dk d \<Longrightarrow> k \<in> dependents (dk_GVR dk) (dk_Namespace dk) (dk_Name dk) d"
proof -
  assume "hasEdge k dk d"
  then have "map_of (collectMatchesForMark (dk_GVR dk) (dk_Namespace dk) (dk_Name dk) d) k \<noteq> None"
    by (simp add: hasEdge_def mark_flag)
  then show ?thesis unfolding matches_dependents(1) [symmetric] by (simp add: map_of_eq_None_iff)
qed

text \<open>C6: When the worker takes a coordinate the audit handed it and the object is still absent, no audited cell
  that represents the object stays in the store.\<close>

theorem audited_cell_is_evicted:
  assumes "lostDelete w c" "dw_bound w" "w_store (dw_world w) = Some s" "wf s" "enqueueFn (dt_hooks (w_deps (dw_world w)))"
    and "depEventSeq (w_deps (dw_world w)) + 1 \<noteq> 0" "represents s (depKeyOf (rc_key c)) (rc_keyHash c)"
  shows "\<exists>s'. w_store (dw_world (handleDepEvent Q (rc_key c) w)) = Some s' \<and> st_index s' (rc_keyHash c) = None"
proof -
  let ?k = "rc_key c"
  have "probeNow ?k (beginProcessing ?k w) = objAbsent"
    using assms(1,2) by (simp add: lostDelete_def stateIn_def probeNow_def beginProcessing_def)
  then have world: "dw_world (handleDepEvent Q ?k w) = snd (OnObjectEvent (ek_gvr ?k) (ek_namespace ?k) (ek_name ?k) objAbsent (dw_world w))"
    by (simp add: handleDepEvent_def Let_def actOnState_def hookDeps_def endProcessing_def onQueue_def count1_def beginProcessing_def)
  obtain n m w' where e: "OnObjectEvent (ek_gvr ?k) (ek_namespace ?k) (ek_name ?k) objAbsent (dw_world w) = ((n, m), w')"
    by (metis prod.exhaust)
  obtain ev mk X where p: "eventPost (ek_gvr ?k) (ek_namespace ?k) (ek_name ?k) objAbsent s (dw_world w) ev mk X w'"
    using event_post [OF assms(3,4,6,5) e] by blast
  obtain s' where s': "w_store w' = Some s'" "\<And>j. st_index s' j = (if j \<in> set ev \<union> X then None else st_index s j)"
    using eventPostD(6) [OF p] assms(3) by (auto simp: reacted_def)
  have "rc_keyHash c \<in> dependents (ek_gvr ?k) (ek_namespace ?k) (ek_name ?k) (w_deps (dw_world w))"
    using edge_dependent [of "rc_keyHash c" "depKeyOf ?k"] assms(1) by (simp add: lostDelete_def depKeyOf_def)
  then have "rc_keyHash c \<in> set ev \<union> X" using eventPostD [OF p] assms(7) by (auto simp: depKeyOf_def)
  then show ?thesis using world e s' by simp
qed

section \<open>An example\<close>

text \<open>A cell of the deployment \<open>ns/web\<close> with its edge, and an informer that does not hold the object.\<close>

definition exInputs :: ResolvedKeyInputs where
  "exInputs = \<lparr>CacheEntryClass = ''restactions'', in_Group = fst exGVR, in_Version = fst (snd exGVR),
     in_Resource = snd (snd exGVR), in_Namespace = ''ns'', in_Name = ''web'', BindingUID = [], SubjectBindingSet = [],
     RepresentativeUsername = [], RepresentativeGroups = [], PerPage = 0, in_Page = 0, in_Extras = [], Stage = [],
     in_Query = [], HasUAF = False, in_RBACSubGen = 0, in_AtRiskClass = AtRiskNone\<rparr>"

definition exOrphaned :: store where
  "exOrphaned = exConfigured\<lparr>st_order := [''w''],
     st_index := [''w'' \<mapsto> freshItem ''w'' ((exEntry 1 ''x'')\<lparr>Inputs := Some exInputs\<rparr>) 2 [] 0 1], curBytes := 2\<rparr>"

definition exGone :: "depEventKey exQueue depWatch" where
  "exGone = (newDepWatch (exRW\<lparr>informers := [exGVR \<mapsto> \<lparr>HasSynced = True, GetByKey = (\<lambda>_. Some False)\<rparr>]\<rparr>)
     \<lparr>w_deps = exDeps, w_store = Some exOrphaned\<rparr>)\<lparr>dw_bound := True\<rparr>"

definition exCandidate :: reconcileCandidate where
  "exCandidate = \<lparr>rc_keyHash = ''w'', rc_class = ''restactions'',
     rc_key = \<lparr>ek_gvr = exGVR, ek_namespace = ''ns'', ek_name = ''web''\<rparr>\<rparr>"

lemma exOrphaned_wf: "wf exOrphaned"
  by (auto simp: wf_defs exOrphaned_def exConfigured_def exBlank_def newResolvedCache_def freshItem_def exEntry_def total_def
      weight_def transientBytes_def residentBytes_def residentCount_def)

lemma exGone_lost: "lostDelete exGone exCandidate"
proof -
  have "stateIn exGone (rc_key exCandidate) = objAbsent"
    by (simp add: stateIn_def probeObjectState_def servableLocked_def resourceTypeConfirmedLocked_def exGone_def
        exCandidate_def newDepWatch_def exRW_def)
  moreover have "hasEdge ''w'' (depKeyOf (rc_key exCandidate)) exDeps"
    by (simp add: hasEdge_def collectMatchesWithDep_def rangeMatchBuckets_def coordinateBuckets_def bucketKeys_def
        exDeps_index depKeyOf_def exCandidate_def preferExact_def listWildcard_def)
  ultimately show ?thesis by (simp add: lostDelete_def exCandidate_def exGone_def newDepWatch_def)
qed

lemma audited_cell_is_evicted_witness:
  "\<exists>s'. w_store (dw_world (handleDepEvent exQ (rc_key exCandidate) exGone)) = Some s' \<and> st_index s' ''w'' = None"
proof -
  have "dw_bound exGone" "w_store (dw_world exGone) = Some exOrphaned"
    "enqueueFn (dt_hooks (w_deps (dw_world exGone)))" "depEventSeq (w_deps (dw_world exGone)) + 1 \<noteq> 0"
    "represents exOrphaned (depKeyOf (rc_key exCandidate)) (rc_keyHash exCandidate)"
    by (simp_all add: exGone_def newDepWatch_def exDeps_index represents_def exOrphaned_def freshItem_def exEntry_def
        exInputs_def exCandidate_def depKeyOf_def)
  from audited_cell_is_evicted [OF exGone_lost this(1,2) exOrphaned_wf this(3-5), of exQ] show ?thesis
    by (simp add: exCandidate_def)
qed

lemma audit_submits_lost_deletes_witness:
  "rp_Divergent (fst (reconcileWalk exQ (Some (\<lambda>_. exOrphaned)) True [''w''] (\<lambda>_. False) 8 False exGone)) = 1"
proof -
  let ?r = "reconcileWalk exQ (Some (\<lambda>_. exOrphaned)) True [''w''] (\<lambda>_. False) 8 False exGone"
  let ?metas = "map (metaForItemLocked exOrphaned) (take (nat 8) (residentItems exOrphaned [''w'']))"
  have "candidatesOf ?metas = [exCandidate]"
    by (simp add: residentItems_def exOrphaned_def map_filter_simps metaForItemLocked_def Let_def candidatesOf_def
        exCandidate_def exInputs_def exGVR_def freshItem_def exEntry_def)
  then obtain ks where "distinct ks" "set ks = {rc_key exCandidate}" "rp_Divergent (fst ?r) = length ks"
    using audit_submits_lost_deletes [of 8 exQ "\<lambda>_. exOrphaned" "[''w'']" "\<lambda>_. False" False exGone "fst ?r" "snd ?r", OF _ _ refl]
      exGone_lost by auto
  then show ?thesis using distinct_card [of ks] by simp
qed

end
