(* ===== verification/DirtyWindow.thy ===== *)
theory DirtyWindow
  imports Prelude
begin

text \<open>
  The window of a cell from the change of its inputs to its fresh body (cache/dirty\_window.go), the
  KNOWN-STALE state a failed refresh leaves (cache/known\_stale.go), and the slots of its revalidations.

  A stamp is an immutable value replaced by compare-and-swap in a retry loop: one operation is one step. The
  zero \<open>time.Time\<close> is \<open>None\<close>; an instant is a number of milliseconds. Counters are unbounded. The
  components that only listen (the push ledger of a store swap, the stale-push and stale-retry chains, the
  histogram hook) are left out, and so are the percentile gauges.
\<close>

section \<open>State\<close>

datatype knownStaleReason = knownStaleNone | knownStaleDeclined | knownStaleDropped | knownStaleSuppressed
  | knownStaleNotServable

datatype unfreshReason = unfreshRemarked | unfreshEvicted | unfreshDeclined | unfreshDropped

datatype windowKeep = windowEnd | windowKeepAccepted | windowKeepFailed

record dirtyStamp =
  ds_t0 :: nat
  ds_inflight :: bool
  ds_next :: "nat option"
  ds_stale :: knownStaleReason
  ds_seq :: "64 word"
  ds_began :: "nat option"

record windows =
  dirty :: "gostring \<Rightarrow> dirtyStamp option"
  samples :: "nat list"
  unfresh :: "unfreshReason \<Rightarrow> nat"
  knownStaleServed :: "knownStaleReason \<Rightarrow> nat"
  knownStaleReadThroughTotal :: nat

definition stampAt :: "nat \<Rightarrow> 64 word \<Rightarrow> dirtyStamp" where
  "stampAt t0 seq = \<lparr>ds_t0 = t0, ds_inflight = False, ds_next = None, ds_stale = knownStaleNone, ds_seq = seq,
     ds_began = None\<rparr>"

definition setStamp :: "gostring \<Rightarrow> dirtyStamp option \<Rightarrow> windows \<Rightarrow> windows" where
  "setStamp key s w = w\<lparr>dirty := (dirty w)(key := s)\<rparr>"

definition countUnfresh :: "unfreshReason \<Rightarrow> windows \<Rightarrow> windows" where
  "countUnfresh r w = w\<lparr>unfresh := (unfresh w)(r := unfresh w r + 1)\<rparr>"

section \<open>The window\<close>

text \<open>The first mark opens it; one during a re-resolve is kept as \<open>next\<close>; the latest one gives the sequence.\<close>

definition markDirtyKey :: "gostring \<Rightarrow> 64 word \<Rightarrow> nat \<Rightarrow> windows \<Rightarrow> windows" where
  "markDirtyKey key seq now w =
     (if key = [] then w
      else case dirty w key of
        None \<Rightarrow> setStamp key (Some (stampAt now seq)) w
      | Some s \<Rightarrow>
          if ds_seq s \<ge> seq \<and> (\<not> ds_inflight s \<or> ds_next s \<noteq> None) then w
          else setStamp key (Some (s\<lparr>ds_seq := seq,
            ds_next := (if ds_inflight s \<and> ds_next s = None then Some now else ds_next s)\<rparr>)) w)"

definition beginWindow :: "gostring \<Rightarrow> nat \<Rightarrow> windows \<Rightarrow> nat option \<times> windows" where
  "beginWindow key now w = (case dirty w key of
       None \<Rightarrow> (None, w)
     | Some s \<Rightarrow> (Some (ds_t0 s), setStamp key (Some (s\<lparr>ds_inflight := True, ds_began := Some now\<rparr>)) w))"

text \<open>What becomes of the stamp of a dequeue that settles.\<close>

definition settledStamp :: "nat \<Rightarrow> windowKeep \<Rightarrow> knownStaleReason \<Rightarrow> dirtyStamp \<Rightarrow> dirtyStamp option" where
  "settledStamp t0 keep stale s =
     (if keep = windowKeepAccepted then Some (stampAt t0 (ds_seq s))
      else if keep = windowKeepFailed then Some ((stampAt t0 (ds_seq s))\<lparr>ds_stale := ds_stale s\<rparr>)
      else if stale \<noteq> knownStaleNone then Some ((stampAt t0 (ds_seq s))\<lparr>ds_stale := stale\<rparr>)
      else map_option (\<lambda>next'. stampAt next' (ds_seq s)) (ds_next s))"

definition settleWindow ::
  "gostring \<Rightarrow> nat \<Rightarrow> windowKeep \<Rightarrow> knownStaleReason \<Rightarrow> windows \<Rightarrow> bool \<times> windows" where
  "settleWindow key t0 keep stale w = (case dirty w key of
       None \<Rightarrow> (True, w)
     | Some s \<Rightarrow> if \<not> ds_inflight s \<or> ds_t0 s \<noteq> t0 then (True, w)
                 else (False, setStamp key (settledStamp t0 keep stale s) w))"

definition sampleFresh :: "nat \<Rightarrow> nat \<Rightarrow> windows \<Rightarrow> windows" where
  "sampleFresh t0 now w = w\<lparr>samples := samples w @ [now - t0]\<rparr>"

definition windowFresh :: "gostring \<Rightarrow> nat \<Rightarrow> nat \<Rightarrow> windows \<Rightarrow> windows" where
  "windowFresh key t0 now w = sampleFresh t0 now (snd (settleWindow key t0 windowEnd knownStaleNone w))"

definition unfreshStale :: "unfreshReason \<Rightarrow> knownStaleReason \<Rightarrow> knownStaleReason" where
  "unfreshStale reason ks =
     (let ks = (if ks \<noteq> knownStaleNone then ks
                else if reason = unfreshDeclined then knownStaleDeclined
                else if reason = unfreshDropped then knownStaleDropped else ks)
      in if reason = unfreshRemarked \<or> reason = unfreshEvicted then knownStaleNone else ks)"

definition windowUnfresh :: "gostring \<Rightarrow> nat \<Rightarrow> unfreshReason \<Rightarrow> knownStaleReason \<Rightarrow> windows \<Rightarrow> windows" where
  "windowUnfresh key t0 reason ks w =
     (let keep = (if reason = unfreshRemarked then windowKeepAccepted else windowEnd)
      in case settleWindow key t0 keep (unfreshStale reason ks) w of
           (gone, w) \<Rightarrow> countUnfresh (if gone then unfreshEvicted else reason) w)"

definition windowContinue :: "gostring \<Rightarrow> nat \<Rightarrow> windows \<Rightarrow> windows" where
  "windowContinue key t0 w = (case settleWindow key t0 windowKeepFailed knownStaleNone w of
     (gone, w) \<Rightarrow> if gone then countUnfresh unfreshEvicted w else w)"

definition evictDirtyWindow :: "gostring \<Rightarrow> windows \<Rightarrow> windows" where
  "evictDirtyWindow key w = (case dirty w key of
       None \<Rightarrow> w
     | Some s \<Rightarrow> let w = setStamp key None w
                 in if \<not> ds_inflight s \<and> ds_stale s = knownStaleNone then countUnfresh unfreshEvicted w else w)"

section \<open>What the serve path reads\<close>

definition dirtySince :: "gostring \<Rightarrow> windows \<Rightarrow> nat option" where
  "dirtySince key w = map_option ds_t0 (dirty w key)"

definition InputsMovedSincePut :: "gostring \<Rightarrow> windows \<Rightarrow> bool" where
  "InputsMovedSincePut key w \<longleftrightarrow> dirty w key \<noteq> None"

definition knownStaleStamp :: "gostring \<Rightarrow> windows \<Rightarrow> dirtyStamp option" where
  "knownStaleStamp key w = (if key = [] then None else case dirty w key of
       None \<Rightarrow> None | Some s \<Rightarrow> if ds_stale s = knownStaleNone then None else Some s)"

definition KnownStale :: "gostring \<Rightarrow> windows \<Rightarrow> (nat \<times> knownStaleReason) option" where
  "KnownStale key w = map_option (\<lambda>s. (ds_t0 s, ds_stale s)) (knownStaleStamp key w)"

definition KnownStaleReadThrough :: "gostring \<Rightarrow> windows \<Rightarrow> bool \<times> windows" where
  "KnownStaleReadThrough key w = (if knownStaleStamp key w = None then (False, w)
     else (True, w\<lparr>knownStaleReadThroughTotal := knownStaleReadThroughTotal w + 1\<rparr>))"

definition noteKnownStaleServe :: "dirtyStamp option \<Rightarrow> windows \<Rightarrow> windows" where
  "noteKnownStaleServe st w = (case st of None \<Rightarrow> w
     | Some s \<Rightarrow> if ds_stale s = knownStaleNone then w
                 else w\<lparr>knownStaleServed := (knownStaleServed w)(ds_stale s := knownStaleServed w (ds_stale s) + 1)\<rparr>)"

text \<open>A mark of the key waits for a dequeue.\<close>

definition dirtyPending :: "gostring \<Rightarrow> windows \<Rightarrow> bool" where
  "dirtyPending key w = (case dirty w key of None \<Rightarrow> False
     | Some s \<Rightarrow> ds_stale s = knownStaleNone \<and> (\<not> ds_inflight s \<or> ds_next s \<noteq> None))"

section \<open>An accepted write\<close>

record knownStaleEnd =
  ke_t0 :: "nat option"
  ke_reopened :: bool

text \<open>\<open>ke_t0\<close> is the start of a window that the write closed, \<open>None\<close> where there is no sample to take.\<close>

definition endKnownStaleOnPut :: "gostring \<Rightarrow> 64 word option \<Rightarrow> windows \<Rightarrow> knownStaleEnd \<times> windows" where
  "endKnownStaleOnPut key startSeq w =
     (let none = \<lparr>ke_t0 = None, ke_reopened = False\<rparr>
      in if key = [] then (none, w)
         else case startSeq of None \<Rightarrow> (none, w)
         | Some start \<Rightarrow> (case dirty w key of
               None \<Rightarrow> (none, w)
             | Some s \<Rightarrow>
                 if ds_stale s = knownStaleNone then (none, w)
                 else if ds_inflight s then (none, setStamp key (Some (s\<lparr>ds_stale := knownStaleNone\<rparr>)) w)
                 else if start < ds_seq s
                 then (\<lparr>ke_t0 = None, ke_reopened = True\<rparr>, setStamp key (Some (stampAt (ds_t0 s) (ds_seq s))) w)
                 else (\<lparr>ke_t0 = Some (ds_t0 s), ke_reopened = False\<rparr>, setStamp key None w)))"

text \<open>The outcome of a dequeue, as the sink on its context recorded it.\<close>

record refreshOutcome =
  ro_accepted :: bool
  ro_refused :: bool
  ro_remarked :: bool

definition settleDequeue :: "gostring \<Rightarrow> nat \<Rightarrow> bool \<Rightarrow> refreshOutcome \<Rightarrow> nat \<Rightarrow> windows \<Rightarrow> windows" where
  "settleDequeue key t0 hadEntry o' now w =
     (if \<not> hadEntry then windowUnfresh key t0 unfreshEvicted knownStaleNone w
      else if ro_accepted o' \<and> ro_remarked o' then windowUnfresh key t0 unfreshRemarked knownStaleNone w
      else if ro_accepted o' then windowFresh key t0 now w
      else if ro_refused o' then windowUnfresh key t0 unfreshEvicted knownStaleNone w
      else windowUnfresh key t0 unfreshDeclined knownStaleDeclined w)"

section \<open>Revalidation slots\<close>

text \<open>A held slot is whether a read was absorbed into the attempt in flight.\<close>

type_synonym revalSlots = "gostring \<Rightarrow> bool option"

definition claimRevalSlot :: "gostring \<Rightarrow> revalSlots \<Rightarrow> bool \<times> revalSlots" where
  "claimRevalSlot key m = (case m key of None \<Rightarrow> (True, m(key \<mapsto> False)) | Some _ \<Rightarrow> (False, m(key \<mapsto> True)))"

text \<open>Whether there was a slot, and whether the attempt reruns.\<close>

definition settleRevalSlot :: "gostring \<Rightarrow> bool \<Rightarrow> windows \<Rightarrow> revalSlots \<Rightarrow> bool \<times> bool \<times> revalSlots" where
  "settleRevalSlot key mayRerun w m = (case m key of
       None \<Rightarrow> (False, False, m)
     | Some rerun \<Rightarrow> if rerun \<and> mayRerun \<and> KnownStale key w \<noteq> None then (True, True, m(key \<mapsto> False))
                     else (True, False, m(key := None)))"

definition ClaimDemandRevalidation :: "gostring \<Rightarrow> bool \<Rightarrow> revalSlots \<Rightarrow> bool \<times> revalSlots" where
  "ClaimDemandRevalidation key suppressed m =
     (if key = [] \<or> suppressed then (False, m) else claimRevalSlot key m)"

record DemandSettle =
  Fresh :: bool
  Rerun :: bool
  Refused :: bool

text \<open>The settle of one demand attempt, run once.\<close>

definition settleDemand :: "gostring \<Rightarrow> refreshOutcome \<Rightarrow> windows \<Rightarrow> revalSlots \<Rightarrow> DemandSettle \<times> revalSlots" where
  "settleDemand key o' w m = (case settleRevalSlot key (\<not> ro_accepted o') w m of
     (held, rerun, m) \<Rightarrow> (\<lparr>Fresh = ro_accepted o', Rerun = rerun, Refused = ro_refused o'\<rparr>, m))"

section \<open>What an operation does to a stamp\<close>

lemma dirty_setStamp [simp]: "dirty (setStamp k s w) k' = (if k' = k then s else dirty w k')"
  by (simp add: setStamp_def)

lemma dirty_counts [simp]: "dirty (countUnfresh r w) = dirty w" "dirty (sampleFresh t0 now w) = dirty w"
  by (simp_all add: countUnfresh_def sampleFresh_def)

lemma settleWindow_dirty:
  "dirty (snd (settleWindow k t0 keep ks w)) k' =
     (case dirty w k' of None \<Rightarrow> None
      | Some s \<Rightarrow> if k' = k \<and> ds_inflight s \<and> ds_t0 s = t0 then settledStamp t0 keep ks s else Some s)"
  by (auto simp: settleWindow_def split: option.splits)

lemma windowFresh_dirty: "dirty (windowFresh k t0 now w) = dirty (snd (settleWindow k t0 windowEnd knownStaleNone w))"
  by (simp add: windowFresh_def)

lemma windowUnfresh_dirty:
  "dirty (windowUnfresh k t0 r ks w) =
     dirty (snd (settleWindow k t0 (if r = unfreshRemarked then windowKeepAccepted else windowEnd) (unfreshStale r ks) w))"
  by (simp add: windowUnfresh_def split: prod.split)

lemma windowContinue_dirty:
  "dirty (windowContinue k t0 w) = dirty (snd (settleWindow k t0 windowKeepFailed knownStaleNone w))"
  by (simp add: windowContinue_def split: prod.split)

lemma evictDirtyWindow_dirty: "dirty (evictDirtyWindow k w) = (dirty w)(k := None)"
  by (auto simp: evictDirtyWindow_def Let_def fun_eq_iff split: option.split)

lemmas window_dirty = settleWindow_dirty windowFresh_dirty windowUnfresh_dirty windowContinue_dirty
  evictDirtyWindow_dirty

lemma unfreshStale_cases:
  "unfreshStale unfreshRemarked ks = knownStaleNone" "unfreshStale unfreshEvicted ks = knownStaleNone"
  "unfreshStale unfreshDeclined ks \<noteq> knownStaleNone" "unfreshStale unfreshDropped ks \<noteq> knownStaleNone"
  by (auto simp: unfreshStale_def Let_def)

lemma settledStamp_at_rest: "settledStamp t0 keep ks s = Some s' \<Longrightarrow> \<not> ds_inflight s' \<and> ds_next s' = None"
  by (auto simp: settledStamp_def stampAt_def split: if_splits)

lemma KnownStale_iff: "KnownStale k w \<noteq> None \<longleftrightarrow> k \<noteq> [] \<and> (\<exists>s. dirty w k = Some s \<and> ds_stale s \<noteq> knownStaleNone)"
  by (auto simp: KnownStale_def knownStaleStamp_def split: option.splits)

end
