(* ===== verification/Refresher.thy ===== *)
theory Refresher
  imports DirtyWindow WorkQueue DepIndex
begin

text \<open>
  The refresher (cache/refresher.go, cache/refresher\_viewed.go, cache/refresher\_terminal.go): the hook a
  dirty mark reaches, the three tiers of work queues and how a worker picks one, the set of keys a worker has
  in hand, and what a dequeue does with its key before and after the re-resolve.

  A definition is a stretch of one goroutine (\<open>RefreshRuns\<close> says which stretches a run may not interrupt). A tier
  is a work queue of client-go. The re-resolve itself is a callback of the dispatchers and stays open. Counters, timing
  stamps, work labels, the shadow audit of narrowed marks and log lines are left out.
\<close>

section \<open>State\<close>

datatype refreshTier = tierNormal | tierClusterList | tierViewed

datatype promotion = promotedViewedPending | promotedViewedDone

record 'q refresher =
  win :: windows
  bgRevalidationInflight :: revalSlots
  triggerGVRByKey :: "gostring \<Rightarrow> GVR list option"
  tierQ :: "refreshTier \<Rightarrow> 'q"
  clusterListKeys :: "gostring set"
  promotedKeys :: "gostring \<Rightarrow> promotion option"
  inFlightKeys :: "gostring \<Rightarrow> bool option"
  suppressedKeys :: "gostring set"
  parallelism :: nat
  viewedActive :: int
  lastViewed :: bool

definition viewedWakeKey :: gostring where "viewedWakeKey = CHR 0x00 # ''refresher:viewed-wake''"

definition onWin :: "(windows \<Rightarrow> windows) \<Rightarrow> 'q refresher \<Rightarrow> 'q refresher" where
  "onWin f r = r\<lparr>win := f (win r)\<rparr>"

definition onTier :: "refreshTier \<Rightarrow> ('q \<Rightarrow> 'q) \<Rightarrow> 'q refresher \<Rightarrow> 'q refresher" where
  "onTier t f r = r\<lparr>tierQ := (tierQ r)(t := f (tierQ r t))\<rparr>"

definition isEmpty :: "(gostring, 'q) workqueue \<Rightarrow> 'q \<Rightarrow> bool" where
  "isEmpty Q q = (case wq_get Q q of None \<Rightarrow> True | Some _ \<Rightarrow> False)"

section \<open>The tiers\<close>

text \<open>The viewed tier leaves at least one worker to the others; a single worker alternates.\<close>

definition viewedSlotFree :: "(gostring, 'q) workqueue \<Rightarrow> 'q refresher \<Rightarrow> bool" where
  "viewedSlotFree Q r =
     (if parallelism r \<le> 1
      then \<not> lastViewed r \<or> (isEmpty Q (tierQ r tierNormal) \<and> isEmpty Q (tierQ r tierClusterList))
      else viewedActive r < int (parallelism r) - 1)"

definition wakeViewed :: "(gostring, 'q) workqueue \<Rightarrow> 'q refresher \<Rightarrow> 'q refresher" where
  "wakeViewed Q r = (if viewedSlotFree Q r then onTier tierNormal (wq_add Q viewedWakeKey) r else r)"

definition enqueue :: "(gostring, 'q) workqueue \<Rightarrow> gostring \<Rightarrow> 'q refresher \<Rightarrow> 'q refresher" where
  "enqueue Q key r = (if key = [] then r else onTier tierNormal (wq_add Q key) r)"

definition enqueueClusterList :: "(gostring, 'q) workqueue \<Rightarrow> gostring \<Rightarrow> 'q refresher \<Rightarrow> 'q refresher" where
  "enqueueClusterList Q key r = (if key = [] then r else onTier tierClusterList (wq_add Q key) r)"

definition enqueueViewed :: "(gostring, 'q) workqueue \<Rightarrow> gostring \<Rightarrow> 'q refresher \<Rightarrow> 'q refresher" where
  "enqueueViewed Q key r = (if key = [] then r else wakeViewed Q (onTier tierViewed (wq_add Q key) r))"

definition routeDirty :: "(gostring, 'q) workqueue \<Rightarrow> gostring set \<Rightarrow> gostring \<Rightarrow> 'q refresher \<Rightarrow> 'q refresher" where
  "routeDirty Q armed key r =
     (if key \<in> armed then enqueueViewed Q key r
      else if key \<in> clusterListKeys r then enqueueClusterList Q key r
      else enqueue Q key r)"

definition enqueueRevalidation :: "(gostring, 'q) workqueue \<Rightarrow> gostring \<Rightarrow> 'q refresher \<Rightarrow> 'q refresher" where
  "enqueueRevalidation Q key r = (if key \<in> clusterListKeys r then enqueueClusterList Q key r else enqueue Q key r)"

section \<open>A dirty mark\<close>

definition mergeTriggerGVR :: "gostring \<Rightarrow> GVR \<Rightarrow> 'q refresher \<Rightarrow> 'q refresher" where
  "mergeTriggerGVR key gvr r =
     (if key = [] then r
      else let merged = (case triggerGVRByKey r key of None \<Rightarrow> [gvr]
             | Some old \<Rightarrow> if gvr \<in> set old then old else old @ [gvr])
           in r\<lparr>triggerGVRByKey := (triggerGVRByKey r)(key \<mapsto> merged)\<rparr>)"

definition mergeTriggers :: "gostring \<Rightarrow> GVR list \<Rightarrow> 'q refresher \<Rightarrow> 'q refresher" where
  "mergeTriggers key gs r = foldl (\<lambda>r g. mergeTriggerGVR key g r) r gs"

text \<open>\<open>gs\<close> are the earlier triggers of the remark and then the last one.\<close>

definition onDirtyMark ::
  "(gostring, 'q) workqueue \<Rightarrow> bool \<Rightarrow> gostring set \<Rightarrow> 64 word \<Rightarrow> nat \<Rightarrow> gostring \<Rightarrow> GVR list \<Rightarrow> 'q refresher \<Rightarrow> 'q refresher" where
  "onDirtyMark Q resident armed seq now key gs r =
     (if \<not> resident then r
      else routeDirty Q armed key (onWin (markDirtyKey key seq now) (mergeTriggers key gs r)))"

definition promoteOnArm :: "(gostring, 'q) workqueue \<Rightarrow> gostring \<Rightarrow> 'q refresher \<Rightarrow> 'q refresher" where
  "promoteOnArm Q key r =
     (if key = [] \<or> \<not> dirtyPending key (win r) then r
      else enqueueViewed Q key (r\<lparr>promotedKeys := (promotedKeys r)(key \<mapsto> promotedViewedPending)\<rparr>))"

section \<open>A worker takes a key\<close>

definition tryPriorityGet ::
  "(gostring, 'q) workqueue \<Rightarrow> refreshTier \<Rightarrow> 'q refresher \<Rightarrow> (gostring \<times> 'q refresher) option" where
  "tryPriorityGet Q t r =
     (if t = tierViewed \<and> \<not> viewedSlotFree Q r then None
      else case wq_get Q (tierQ r t) of None \<Rightarrow> None
      | Some (key, q) \<Rightarrow> let r = r\<lparr>tierQ := (tierQ r)(t := q)\<rparr>
          in Some (key, if t = tierViewed then r\<lparr>viewedActive := viewedActive r + 1, lastViewed := True\<rparr> else r))"

text \<open>The top of \<open>processNext\<close>: viewed, then cluster lists, then the rest; \<open>None\<close> where the worker blocks.\<close>

definition selectKey ::
  "(gostring, 'q) workqueue \<Rightarrow> 'q refresher \<Rightarrow> (gostring \<times> refreshTier \<times> 'q refresher) option" where
  "selectKey Q r = (case tryPriorityGet Q tierViewed r of
       Some (key, r) \<Rightarrow> Some (key, tierViewed, r)
     | None \<Rightarrow> (case tryPriorityGet Q tierClusterList r of
           Some (key, r) \<Rightarrow> Some (key, tierClusterList, r\<lparr>lastViewed := False\<rparr>)
         | None \<Rightarrow> (case wq_get Q (tierQ r tierNormal) of
               None \<Rightarrow> None
             | Some (key, q) \<Rightarrow> Some (key, tierNormal, r\<lparr>tierQ := (tierQ r)(tierNormal := q), lastViewed := False\<rparr>))))"

text \<open>The wake key is no refresh: the worker goes back to the probe and wakes another one if more wait.\<close>

definition wakeHandled :: "(gostring, 'q) workqueue \<Rightarrow> 'q refresher \<Rightarrow> 'q refresher" where
  "wakeHandled Q r =
     (let r = onTier tierNormal (wq_done Q viewedWakeKey) r
      in case wq_get Q (tierQ r tierViewed) of None \<Rightarrow> r
         | Some (_, q) \<Rightarrow> if isEmpty Q q then r else wakeViewed Q r)"

text \<open>The exactly-once skip.\<close>

definition consumedElsewhere :: "gostring \<Rightarrow> refreshTier \<Rightarrow> 'q refresher \<Rightarrow> bool \<times> 'q refresher" where
  "consumedElsewhere key t r =
     (let pending = (triggerGVRByKey r key \<noteq> None)
      in if t = tierViewed
         then (\<not> pending, if promotedKeys r key = Some promotedViewedPending
                           then r\<lparr>promotedKeys := (promotedKeys r)(key \<mapsto> promotedViewedDone)\<rparr> else r)
         else case promotedKeys r key of None \<Rightarrow> (False, r)
           | Some v \<Rightarrow> if v = promotedViewedPending \<or> \<not> pending
                       then (True, r\<lparr>promotedKeys := (promotedKeys r)(key := None)\<rparr>) else (False, r))"

definition claimInFlight :: "gostring \<Rightarrow> 'q refresher \<Rightarrow> bool \<times> 'q refresher" where
  "claimInFlight key r = (case inFlightKeys r key of
       Some _ \<Rightarrow> (False, r\<lparr>inFlightKeys := (inFlightKeys r)(key \<mapsto> True)\<rparr>)
     | None \<Rightarrow> (True, r\<lparr>inFlightKeys := (inFlightKeys r)(key \<mapsto> False)\<rparr>))"

definition releaseInFlight :: "(gostring, 'q) workqueue \<Rightarrow> gostring set \<Rightarrow> gostring \<Rightarrow> 'q refresher \<Rightarrow> 'q refresher" where
  "releaseInFlight Q armed key r =
     (let deferred = (inFlightKeys r key = Some True);
          r = r\<lparr>inFlightKeys := (inFlightKeys r)(key := None)\<rparr>
      in if deferred then routeDirty Q armed key r else r)"

text \<open>The deferred end of a dequeue: the slot of the viewed tier, and \<open>Done\<close>.\<close>

definition leaveTier :: "(gostring, 'q) workqueue \<Rightarrow> gostring \<Rightarrow> refreshTier \<Rightarrow> 'q refresher \<Rightarrow> 'q refresher" where
  "leaveTier Q key t r =
     (if t = tierViewed
      then let r = onTier t (wq_done Q key) (r\<lparr>viewedActive := viewedActive r - 1\<rparr>)
           in if isEmpty Q (tierQ r tierViewed) then r else wakeViewed Q r
      else onTier t (wq_done Q key) r)"

section \<open>A dequeue before the re-resolve\<close>

text \<open>A suppressed key of a resident cell is forgotten, and the cell left KNOWN-STALE.\<close>

definition suppressedSkip ::
  "(gostring, 'q) workqueue \<Rightarrow> gostring \<Rightarrow> refreshTier \<Rightarrow> nat \<Rightarrow> 'q refresher \<Rightarrow> 'q refresher" where
  "suppressedSkip Q key t now r =
     (let r = (onTier t (wq_forget Q key) r)\<lparr>triggerGVRByKey := (triggerGVRByKey r)(key := None)\<rparr>
      in case beginWindow key now (win r) of
           (None, w) \<Rightarrow> r\<lparr>win := w\<rparr>
         | (Some t0, w) \<Rightarrow> r\<lparr>win := windowUnfresh key t0 unfreshDeclined knownStaleSuppressed w\<rparr>)"

text \<open>A cell younger than the floor is put back for the rest of it.\<close>

definition floorDefer ::
  "(gostring, 'q) workqueue \<Rightarrow> gostring \<Rightarrow> refreshTier \<Rightarrow> nat \<Rightarrow> 'q refresher \<Rightarrow> 'q refresher" where
  "floorDefer Q key t remaining r = onTier t (\<lambda>q. wq_addAfter Q key remaining (wq_forget Q key q)) r"

text \<open>The dequeue takes the trigger set.\<close>

definition takeTriggers :: "gostring \<Rightarrow> refreshTier \<Rightarrow> 'q refresher \<Rightarrow> GVR list \<times> 'q refresher" where
  "takeTriggers key t r =
     (case triggerGVRByKey r key of None \<Rightarrow> [] | Some gs \<Rightarrow> gs,
      r\<lparr>promotedKeys := (if t = tierViewed then promotedKeys r else (promotedKeys r)(key := None)),
        triggerGVRByKey := (triggerGVRByKey r)(key := None)\<rparr>)"

text \<open>
  A dequeue that re-resolves: whether it read an entry, what it took, the window it opened, and the
  sequence and generation its handler captured on entry.
\<close>

record refreshRun =
  rr_key :: gostring
  rr_tier :: refreshTier
  rr_had :: bool
  rr_triggers :: "GVR list"
  rr_t0 :: "nat option"
  rr_outcome :: refreshOutcome
  rr_start :: "(64 word \<times> nat) option"

definition beginRun :: "gostring \<Rightarrow> refreshTier \<Rightarrow> bool \<Rightarrow> nat \<Rightarrow> 'q refresher \<Rightarrow> refreshRun \<times> 'q refresher" where
  "beginRun key t had now r =
     (case takeTriggers key t r of (gs, r) \<Rightarrow> case beginWindow key now (win r) of (t0, w) \<Rightarrow>
        (\<lparr>rr_key = key, rr_tier = t, rr_had = had, rr_triggers = gs, rr_t0 = t0,
          rr_outcome = \<lparr>ro_accepted = False, ro_refused = False, ro_remarked = False\<rparr>, rr_start = None\<rparr>,
         r\<lparr>win := w\<rparr>))"

section \<open>A dequeue after the re-resolve\<close>

datatype refreshErr = ErrSelfObjectGone | ErrContentNotServable | ErrOther

text \<open>The window of a dequeue whose error is final.\<close>

definition dropWindow :: "gostring \<Rightarrow> nat \<Rightarrow> refreshErr \<Rightarrow> windows \<Rightarrow> windows" where
  "dropWindow key t0 e w = (case e of
       ErrSelfObjectGone \<Rightarrow> (case settleWindow key t0 windowEnd knownStaleNone w of
         (gone, w) \<Rightarrow> countUnfresh (if gone then unfreshEvicted else unfreshDropped) w)
     | ErrContentNotServable \<Rightarrow> windowUnfresh key t0 unfreshDropped knownStaleNotServable w
     | ErrOther \<Rightarrow> windowUnfresh key t0 unfreshDropped knownStaleDropped w)"

definition onOpenWindow :: "(nat \<Rightarrow> windows \<Rightarrow> windows) \<Rightarrow> refreshRun \<Rightarrow> 'q refresher \<Rightarrow> 'q refresher" where
  "onOpenWindow f d r = (case rr_t0 d of None \<Rightarrow> r | Some t0 \<Rightarrow> onWin (f t0) r)"

definition drops :: "(gostring, 'q) workqueue \<Rightarrow> bool \<Rightarrow> refreshRun \<Rightarrow> 'q refresher \<Rightarrow> bool" where
  "drops Q nonRetryable d r \<longleftrightarrow>
     nonRetryable \<or> wq_numRequeues Q (tierQ r (rr_tier d)) (rr_key d) \<ge> maxRefreshRequeues"

text \<open>The tail of \<open>processNext\<close>; the flag is whether the cell itself is evicted then.\<close>

definition settleRun ::
  "(gostring, 'q) workqueue \<Rightarrow> refreshErr option \<Rightarrow> bool \<Rightarrow> nat \<Rightarrow> refreshRun \<Rightarrow> 'q refresher \<Rightarrow> bool \<times> 'q refresher" where
  "settleRun Q err nonRetryable now d r =
     (let key = rr_key d; t = rr_tier d
      in case err of
        None \<Rightarrow> (False, onOpenWindow (\<lambda>t0. settleDequeue key t0 (rr_had d) (rr_outcome d) now) d
                  (onTier t (wq_forget Q key) r))
      | Some e \<Rightarrow>
          if drops Q nonRetryable d r
          then (e = ErrSelfObjectGone, onOpenWindow (\<lambda>t0. dropWindow key t0 e) d (onTier t (wq_forget Q key) r))
          else (False, onTier t (wq_addRateLimited Q key)
                 (mergeTriggers key (rr_triggers d) (onOpenWindow (\<lambda>t0. windowContinue key t0) d r))))"

section \<open>Revalidation in the background\<close>

definition RevalidateKnownStaleInBackground :: "(gostring, 'q) workqueue \<Rightarrow> gostring \<Rightarrow> 'q refresher \<Rightarrow> 'q refresher" where
  "RevalidateKnownStaleInBackground Q key r =
     (if KnownStale key (win r) = None \<or> key \<in> suppressedKeys r then r
      else case claimRevalSlot key (bgRevalidationInflight r) of
        (claimed, m) \<Rightarrow> let r = r\<lparr>bgRevalidationInflight := m\<rparr>
          in if claimed then enqueueRevalidation Q key r else r)"

definition settleBackgroundRevalidation :: "(gostring, 'q) workqueue \<Rightarrow> gostring \<Rightarrow> 'q refresher \<Rightarrow> 'q refresher" where
  "settleBackgroundRevalidation Q key r =
     (case settleRevalSlot key True (win r) (bgRevalidationInflight r) of
        (held, rerun, m) \<Rightarrow> let r = r\<lparr>bgRevalidationInflight := m\<rparr>
          in if held \<and> rerun then enqueueRevalidation Q key r else r)"

section \<open>Suppression\<close>

definition noteDecline :: "gostring \<Rightarrow> bool \<Rightarrow> 'q refresher \<Rightarrow> bool \<times> 'q refresher" where
  "noteDecline key permanent r =
     (if key = [] then (False, r)
      else if key \<in> suppressedKeys r then (True, r)
      else if \<not> permanent then (False, r)
      else (True, r\<lparr>suppressedKeys := insert key (suppressedKeys r)\<rparr>))"

definition clearSuppressed :: "gostring \<Rightarrow> 'q refresher \<Rightarrow> 'q refresher" where
  "clearSuppressed key r = r\<lparr>suppressedKeys := suppressedKeys r - {key}\<rparr>"

end
