(* ===== verification/RefreshRuns.thy ===== *)
theory RefreshRuns
  imports Refresher
begin

text \<open>
  The refresher at work: events, marks on their way, customers' writes, evictions, tabs that arm keys, and any
  number of workers, in every interleaving. A cell is the sequence of dep events its resolve began at, and
  \<open>fw_last\<close> is the sequence of the last event that concerns a cell: a cell with an older body is stale.

  Some runs of accesses count as one step: the residency decision of a mark with its merge, stamp and routing;
  the read of a dequeue with the triggers it takes and the window it opens, and a suppressed skip as a whole;
  an accepted write with the outcome it notes; and the tail of a dequeue, with the eviction of a cell whose own
  object is gone. What a read and a take that are pulled apart lose is shown in \<open>RefreshCorrect\<close>.
  Every write here carries the sink of its resolve; the plain writes of the boot carriers have none and are
  not part of the run. That an accepted write remarks its cell when a dependency moved since its resolve
  began is the theorem of the dependency tracker, and is a part of the step here.
\<close>

section \<open>The world\<close>

datatype refreshPc = Idle | Popped gostring refreshTier | Admitted gostring refreshTier | Held gostring refreshTier
  | Running refreshRun | Settled gostring refreshTier | Noted gostring refreshTier | Leaving gostring refreshTier

record 'q refreshWorld =
  fw_r :: "'q refresher"
  fw_cells :: "gostring \<Rightarrow> 64 word option"
  fw_gen :: "gostring \<Rightarrow> nat"
  fw_seq :: "64 word"
  fw_last :: "gostring \<Rightarrow> 64 word"
  fw_marks :: "(gostring \<times> GVR list) list"
  fw_armed :: "gostring set"
  fw_pc :: "nat \<Rightarrow> refreshPc"
  fw_now :: nat

definition zeroGVR :: GVR where "zeroGVR = ([], [], [])"

text \<open>A key is the hex digest of its inputs.\<close>

definition validKey :: "gostring \<Rightarrow> bool" where "validKey k \<longleftrightarrow> k \<noteq> [] \<and> k \<noteq> viewedWakeKey"

definition withR :: "('q refresher \<Rightarrow> 'q refresher) \<Rightarrow> 'q refreshWorld \<Rightarrow> 'q refreshWorld" where
  "withR f w = w\<lparr>fw_r := f (fw_r w)\<rparr>"

definition goTo :: "nat \<Rightarrow> refreshPc \<Rightarrow> 'q refresher \<Rightarrow> 'q refreshWorld \<Rightarrow> 'q refreshWorld" where
  "goTo i pc r w = w\<lparr>fw_r := r, fw_pc := (fw_pc w)(i := pc)\<rparr>"

definition eventOn :: "gostring list \<Rightarrow> GVR \<Rightarrow> 'q refreshWorld \<Rightarrow> 'q refreshWorld" where
  "eventOn ks g w = w\<lparr>fw_seq := fw_seq w + 1,
     fw_last := (\<lambda>k. if k \<in> set ks then fw_seq w + 1 else fw_last w k),
     fw_marks := map (\<lambda>k. (k, [g])) ks @ fw_marks w\<rparr>"

definition deliverMark :: "(gostring, 'q) workqueue \<Rightarrow> gostring \<Rightarrow> GVR list \<Rightarrow> 'q refreshWorld \<Rightarrow> 'q refreshWorld" where
  "deliverMark Q k gs w =
     withR (onDirtyMark Q (fw_cells w k \<noteq> None) (fw_armed w) (fw_seq w) (fw_now w) k gs)
       (w\<lparr>fw_marks := remove1 (k, gs) (fw_marks w)\<rparr>)"

text \<open>An accepted write of a body whose resolve began at \<open>start\<close>, with its remark; \<open>gs\<close> is what moved.\<close>

definition acceptPut :: "gostring \<Rightarrow> 64 word \<Rightarrow> GVR list \<Rightarrow> 'q refreshWorld \<Rightarrow> 'q refreshWorld" where
  "acceptPut k start gs w =
     (let r = clearSuppressed k (fw_r w) in
      case endKnownStaleOnPut k (Some start) (win r) of (e, wn) \<Rightarrow>
        w\<lparr>fw_cells := (fw_cells w)(k \<mapsto> start),
          fw_r := r\<lparr>win := (case ke_t0 e of None \<Rightarrow> wn | Some t0 \<Rightarrow> sampleFresh t0 (fw_now w) wn)\<rparr>,
          fw_marks := (if ke_reopened e then [(k, [zeroGVR])] else []) @
            (if start < fw_last w k then [(k, gs)] else []) @ fw_marks w\<rparr>)"

definition evictCell :: "gostring \<Rightarrow> 'q refreshWorld \<Rightarrow> 'q refreshWorld" where
  "evictCell k w =
     w\<lparr>fw_cells := (fw_cells w)(k := None), fw_gen := (fw_gen w)(k := fw_gen w k + 1),
       fw_r := onWin (evictDirtyWindow k) (clearSuppressed k (fw_r w))\<rparr>"

text \<open>The re-resolve enters its handler, and writes.\<close>

definition enterRun :: "'q refreshWorld \<Rightarrow> refreshRun \<Rightarrow> refreshRun" where
  "enterRun w d = d\<lparr>rr_start := Some (fw_seq w, fw_gen w (rr_key d))\<rparr>"

definition acceptRun :: "64 word \<Rightarrow> 'q refreshWorld \<Rightarrow> refreshRun \<Rightarrow> refreshRun" where
  "acceptRun start w d = d\<lparr>rr_outcome := (rr_outcome d)\<lparr>ro_accepted := True,
     ro_remarked := ro_remarked (rr_outcome d) \<or> start < fw_last w (rr_key d)\<rparr>\<rparr>"

definition refuseRun :: "refreshRun \<Rightarrow> refreshRun" where
  "refuseRun d = d\<lparr>rr_outcome := (rr_outcome d)\<lparr>ro_refused := True\<rparr>\<rparr>"

definition settleWorld ::
  "(gostring, 'q) workqueue \<Rightarrow> nat \<Rightarrow> refreshErr option \<Rightarrow> bool \<Rightarrow> refreshRun \<Rightarrow> 'q refreshWorld \<Rightarrow> 'q refreshWorld" where
  "settleWorld Q i err nonRetryable d w =
     (case settleRun Q err nonRetryable (fw_now w) d (fw_r w) of (evict, r) \<Rightarrow>
        let w = goTo i (Settled (rr_key d) (rr_tier d)) r w in if evict then evictCell (rr_key d) w else w)"

inductive refreshStep :: "(gostring, 'q) workqueue \<Rightarrow> ('q \<Rightarrow> 'q) \<Rightarrow> 'q refreshWorld \<Rightarrow> 'q refreshWorld \<Rightarrow> bool"
  for Q elapse where
  eventful: "fw_seq w < fw_seq w + 1 \<Longrightarrow> refreshStep Q elapse w (eventOn ks g w)"
| marking: "(k, gs) \<in> set (fw_marks w) \<Longrightarrow> refreshStep Q elapse w (deliverMark Q k gs w)"
| arming: "refreshStep Q elapse w (withR (promoteOnArm Q k) (w\<lparr>fw_armed := insert k (fw_armed w)\<rparr>))"
| disarm: "refreshStep Q elapse w (w\<lparr>fw_armed := fw_armed w - {k}\<rparr>)"
| writing: "start \<le> fw_seq w \<Longrightarrow> gs \<noteq> [] \<Longrightarrow> refreshStep Q elapse w (acceptPut k start gs w)"
| evict: "refreshStep Q elapse w (evictCell k w)"
| decline: "refreshStep Q elapse w (withR (\<lambda>r. snd (noteDecline k permanent r)) w)"
| revalidate: "refreshStep Q elapse w (withR (RevalidateKnownStaleInBackground Q k) w)"
| proactive: "refreshStep Q elapse w (withR (enqueue Q k) w)"
| listing: "refreshStep Q elapse w
    (withR (\<lambda>r. enqueueClusterList Q k (r\<lparr>clusterListKeys := insert k (clusterListKeys r)\<rparr>)) w)"
| elapse: "refreshStep Q elapse w (withR (onTier t elapse) w)"
| wake: "refreshStep Q elapse w (withR (wakeViewed Q) w)"
| ticking: "refreshStep Q elapse w (w\<lparr>fw_now := fw_now w + 1\<rparr>)"
| pop: "fw_pc w i = Idle \<Longrightarrow> selectKey Q (fw_r w) = Some (k, t, r) \<Longrightarrow> \<not> (t = tierNormal \<and> k = viewedWakeKey) \<Longrightarrow>
    refreshStep Q elapse w (goTo i (Popped k t) r w)"
| awake: "fw_pc w i = Idle \<Longrightarrow> selectKey Q (fw_r w) = Some (viewedWakeKey, tierNormal, r) \<Longrightarrow>
    refreshStep Q elapse w (goTo i Idle (wakeHandled Q r) w)"
| skip: "fw_pc w i = Popped k t \<Longrightarrow> consumedElsewhere k t (fw_r w) = (True, r) \<Longrightarrow>
    refreshStep Q elapse w (goTo i (Leaving k t) (onTier t (wq_forget Q k) r) w)"
| admit: "fw_pc w i = Popped k t \<Longrightarrow> consumedElsewhere k t (fw_r w) = (False, r) \<Longrightarrow>
    refreshStep Q elapse w (goTo i (Admitted k t) r w)"
| stepAside: "fw_pc w i = Admitted k t \<Longrightarrow> claimInFlight k (fw_r w) = (False, r) \<Longrightarrow>
    refreshStep Q elapse w (goTo i (Leaving k t) r w)"
| claim: "fw_pc w i = Admitted k t \<Longrightarrow> claimInFlight k (fw_r w) = (True, r) \<Longrightarrow>
    refreshStep Q elapse w (goTo i (Held k t) r w)"
| suppressed: "fw_pc w i = Held k t \<Longrightarrow> fw_cells w k \<noteq> None \<Longrightarrow> k \<in> suppressedKeys (fw_r w) \<Longrightarrow>
    refreshStep Q elapse w (goTo i (Settled k t) (suppressedSkip Q k t (fw_now w) (fw_r w)) w)"
| floored: "fw_pc w i = Held k t \<Longrightarrow> fw_cells w k \<noteq> None \<Longrightarrow> k \<notin> suppressedKeys (fw_r w) \<Longrightarrow>
    refreshStep Q elapse w (goTo i (Settled k t) (floorDefer Q k t remaining (fw_r w)) w)"
| starting: "fw_pc w i = Held k t \<Longrightarrow> \<not> (fw_cells w k \<noteq> None \<and> k \<in> suppressedKeys (fw_r w)) \<Longrightarrow>
    beginRun k t (fw_cells w k \<noteq> None) (fw_now w) (fw_r w) = (d, r) \<Longrightarrow>
    refreshStep Q elapse w (goTo i (Running d) r w)"
| enter: "fw_pc w i = Running d \<Longrightarrow> rr_had d \<Longrightarrow> rr_start d = None \<Longrightarrow>
    refreshStep Q elapse w (goTo i (Running (enterRun w d)) (fw_r w) w)"
| accept: "fw_pc w i = Running d \<Longrightarrow> rr_had d \<Longrightarrow> rr_start d = Some (start, gen) \<Longrightarrow> gs \<noteq> [] \<Longrightarrow>
    fw_cells w (rr_key d) \<noteq> None \<Longrightarrow> fw_gen w (rr_key d) = gen \<Longrightarrow>
    refreshStep Q elapse w (acceptPut (rr_key d) start gs (goTo i (Running (acceptRun start w d)) (fw_r w) w))"
| refuse: "fw_pc w i = Running d \<Longrightarrow> rr_had d \<Longrightarrow> rr_start d = Some (start, gen) \<Longrightarrow>
    fw_cells w (rr_key d) = None \<or> fw_gen w (rr_key d) \<noteq> gen \<Longrightarrow>
    refreshStep Q elapse w (goTo i (Running (refuseRun d)) (fw_r w) w)"
| settle: "fw_pc w i = Running d \<Longrightarrow> rr_had d \<or> err = None \<Longrightarrow>
    refreshStep Q elapse w (settleWorld Q i err nonRetryable d w)"
| noting: "fw_pc w i = Settled k t \<Longrightarrow>
    refreshStep Q elapse w (goTo i (Noted k t) (settleBackgroundRevalidation Q k (fw_r w)) w)"
| release: "fw_pc w i = Noted k t \<Longrightarrow>
    refreshStep Q elapse w (goTo i (Leaving k t) (releaseInFlight Q (fw_armed w) k (fw_r w)) w)"
| leave: "fw_pc w i = Leaving k t \<Longrightarrow> refreshStep Q elapse w (goTo i Idle (leaveTier Q k t (fw_r w)) w)"

definition newRefresher :: "(gostring, 'q) workqueue \<Rightarrow> nat \<Rightarrow> 'q refresher" where
  "newRefresher Q n = \<lparr>win = \<lparr>dirty = (\<lambda>_. None), samples = [], unfresh = (\<lambda>_. 0), knownStaleServed = (\<lambda>_. 0),
       knownStaleReadThroughTotal = 0\<rparr>,
     bgRevalidationInflight = (\<lambda>_. None), triggerGVRByKey = (\<lambda>_. None), tierQ = (\<lambda>_. wq_new Q),
     clusterListKeys = {}, promotedKeys = (\<lambda>_. None), inFlightKeys = (\<lambda>_. None), suppressedKeys = {},
     parallelism = n, viewedActive = 0, lastViewed = False\<rparr>"

definition newWorld :: "(gostring, 'q) workqueue \<Rightarrow> nat \<Rightarrow> 'q refreshWorld" where
  "newWorld Q n = \<lparr>fw_r = newRefresher Q n, fw_cells = (\<lambda>_. None), fw_gen = (\<lambda>_. 0), fw_seq = 0, fw_last = (\<lambda>_. 0),
     fw_marks = [], fw_armed = {}, fw_pc = (\<lambda>_. Idle), fw_now = 1\<rparr>"

inductive refreshReach :: "(gostring, 'q) workqueue \<Rightarrow> ('q \<Rightarrow> 'q) \<Rightarrow> 'q refreshWorld \<Rightarrow> bool" for Q elapse where
  start: "refreshReach Q elapse (newWorld Q n)"
| more: "refreshReach Q elapse w \<Longrightarrow> refreshStep Q elapse w w' \<Longrightarrow> refreshReach Q elapse w'"

section \<open>What is kept\<close>

fun pcKey :: "refreshPc \<Rightarrow> gostring option" where
  "pcKey Idle = None"
| "pcKey (Popped k t) = Some k"
| "pcKey (Admitted k t) = Some k"
| "pcKey (Held k t) = Some k"
| "pcKey (Running d) = Some (rr_key d)"
| "pcKey (Settled k t) = Some k"
| "pcKey (Noted k t) = Some k"
| "pcKey (Leaving k t) = Some k"

text \<open>The workers that have a key before its triggers are taken, and those that have claimed it.\<close>

fun takes :: "refreshPc \<Rightarrow> gostring option" where
  "takes (Popped k t) = Some k"
| "takes (Admitted k t) = Some k"
| "takes (Held k t) = Some k"
| "takes _ = None"

fun owns :: "refreshPc \<Rightarrow> gostring option" where
  "owns (Held k t) = Some k"
| "owns (Running d) = Some (rr_key d)"
| "owns (Settled k t) = Some k"
| "owns (Noted k t) = Some k"
| "owns _ = None"

definition carried :: "('q \<Rightarrow> gostring set) \<Rightarrow> 'q refreshWorld \<Rightarrow> gostring \<Rightarrow> bool" where
  "carried P w k \<longleftrightarrow> (\<exists>t. k \<in> P (tierQ (fw_r w) t)) \<or> (\<exists>i. takes (fw_pc w i) = Some k) \<or>
     inFlightKeys (fw_r w) k = Some True"

definition ownInv :: "'q refreshWorld \<Rightarrow> gostring \<Rightarrow> bool" where
  "ownInv w k \<longleftrightarrow> (\<forall>i. owns (fw_pc w i) = Some k \<longrightarrow> inFlightKeys (fw_r w) k \<noteq> None) \<and>
     (\<forall>i j. owns (fw_pc w i) = Some k \<longrightarrow> owns (fw_pc w j) = Some k \<longrightarrow> i = j) \<and>
     (inFlightKeys (fw_r w) k \<noteq> None \<longrightarrow> (\<exists>i. owns (fw_pc w i) = Some k))"

definition carryInv :: "('q \<Rightarrow> gostring set) \<Rightarrow> 'q refreshWorld \<Rightarrow> gostring \<Rightarrow> bool" where
  "carryInv P w k \<longleftrightarrow> (triggerGVRByKey (fw_r w) k \<noteq> None \<longrightarrow> carried P w k) \<and>
     triggerGVRByKey (fw_r w) k \<noteq> Some [] \<and> (\<forall>gs. (k, gs) \<in> set (fw_marks w) \<longrightarrow> gs \<noteq> []) \<and>
     (promotedKeys (fw_r w) k = Some promotedViewedPending \<longrightarrow>
        k \<in> P (tierQ (fw_r w) tierViewed) \<or> (\<exists>i. fw_pc w i = Popped k tierViewed))"

text \<open>The stamp in flight belongs to the run of a worker.\<close>

definition runsStamp :: "'q refreshWorld \<Rightarrow> dirtyStamp \<Rightarrow> refreshRun \<Rightarrow> bool" where
  "runsStamp w s d \<longleftrightarrow> rr_t0 d = Some (ds_t0 s) \<and> rr_had d \<and>
     (ro_accepted (rr_outcome d) \<longrightarrow> ds_stale s = knownStaleNone) \<and> \<not> ro_refused (rr_outcome d) \<and>
     (\<forall>start gen. rr_start d = Some (start, gen) \<longrightarrow> gen = fw_gen w (rr_key d))"

definition windowInv :: "'q refreshWorld \<Rightarrow> gostring \<Rightarrow> bool" where
  "windowInv w k \<longleftrightarrow> (dirty (win (fw_r w)) k \<noteq> None \<longrightarrow> fw_cells w k \<noteq> None) \<and>
     (\<forall>s. dirty (win (fw_r w)) k = Some s \<longrightarrow> ds_inflight s \<longrightarrow>
        (triggerGVRByKey (fw_r w) k \<noteq> None \<longrightarrow> ds_next s \<noteq> None) \<and>
        (\<exists>i d. fw_pc w i = Running d \<and> rr_key d = k \<and> runsStamp w s d)) \<and>
     (\<forall>i d. fw_pc w i = Running d \<longrightarrow> rr_key d = k \<longrightarrow> \<not> rr_had d \<longrightarrow> rr_t0 d = None)"

definition staleKnown :: "'q refreshWorld \<Rightarrow> gostring \<Rightarrow> bool" where
  "staleKnown w k \<longleftrightarrow> (\<exists>s. dirty (win (fw_r w)) k = Some s \<and> ds_stale s \<noteq> knownStaleNone)"

definition markPending :: "'q refreshWorld \<Rightarrow> gostring \<Rightarrow> bool" where
  "markPending w k \<longleftrightarrow> triggerGVRByKey (fw_r w) k \<noteq> None \<and> dirty (win (fw_r w)) k \<noteq> None"

definition reresolving :: "'q refreshWorld \<Rightarrow> gostring \<Rightarrow> bool" where
  "reresolving w k \<longleftrightarrow> (\<exists>s i d. dirty (win (fw_r w)) k = Some s \<and> ds_inflight s \<and> fw_pc w i = Running d \<and>
     rr_key d = k \<and> \<not> ro_accepted (rr_outcome d) \<and> rr_triggers d \<noteq> [])"

definition freshInv :: "'q refreshWorld \<Rightarrow> gostring \<Rightarrow> bool" where
  "freshInv w k \<longleftrightarrow> (\<forall>b. fw_cells w k = Some b \<longrightarrow> b < fw_last w k \<longrightarrow>
     (\<exists>gs. (k, gs) \<in> set (fw_marks w)) \<or> staleKnown w k \<or> markPending w k \<or> reresolving w k)"

definition refreshInv :: "('q \<Rightarrow> gostring set) \<Rightarrow> 'q refreshWorld \<Rightarrow> gostring \<Rightarrow> bool" where
  "refreshInv P w k \<longleftrightarrow> ownInv w k \<and> carryInv P w k \<and> windowInv w k \<and> freshInv w k"

text \<open>What a step does that does not concern a key.\<close>

definition pcSame :: "gostring \<Rightarrow> refreshPc \<Rightarrow> refreshPc \<Rightarrow> bool" where
  "pcSame k a b \<longleftrightarrow> (owns b = Some k \<longleftrightarrow> owns a = Some k) \<and> (takes b = Some k \<longleftrightarrow> takes a = Some k) \<and>
     (\<forall>t. b = Popped k t \<longleftrightarrow> a = Popped k t) \<and> (\<forall>d. rr_key d = k \<longrightarrow> (b = Running d \<longleftrightarrow> a = Running d))"

definition sameFor :: "('q \<Rightarrow> gostring set) \<Rightarrow> gostring \<Rightarrow> 'q refreshWorld \<Rightarrow> 'q refreshWorld \<Rightarrow> bool" where
  "sameFor P k w w' \<longleftrightarrow> dirty (win (fw_r w')) k = dirty (win (fw_r w)) k \<and>
     triggerGVRByKey (fw_r w') k = triggerGVRByKey (fw_r w) k \<and> promotedKeys (fw_r w') k = promotedKeys (fw_r w) k \<and>
     inFlightKeys (fw_r w') k = inFlightKeys (fw_r w) k \<and>
     (\<forall>t. k \<in> P (tierQ (fw_r w) t) \<longrightarrow> k \<in> P (tierQ (fw_r w') t)) \<and>
     fw_cells w' k = fw_cells w k \<and> fw_gen w' k = fw_gen w k \<and> fw_last w' k = fw_last w k \<and>
     (\<forall>gs. (k, gs) \<in> set (fw_marks w') \<longleftrightarrow> (k, gs) \<in> set (fw_marks w)) \<and>
     (\<forall>i. pcSame k (fw_pc w i) (fw_pc w' i))"

lemma pcSame_refl [simp]: "pcSame k a a" by (simp add: pcSame_def)

lemma pcSame_other: "pcKey a \<noteq> Some k \<Longrightarrow> pcKey b \<noteq> Some k \<Longrightarrow> pcSame k a b"
  unfolding pcSame_def by (cases a; cases b) auto

lemma sameFor_pc:
  assumes "sameFor P k w w'"
  shows "owns (fw_pc w' i) = Some k \<longleftrightarrow> owns (fw_pc w i) = Some k"
    "takes (fw_pc w' i) = Some k \<longleftrightarrow> takes (fw_pc w i) = Some k"
    "fw_pc w' i = Popped k t \<longleftrightarrow> fw_pc w i = Popped k t"
    "rr_key d = k \<Longrightarrow> fw_pc w' i = Running d \<longleftrightarrow> fw_pc w i = Running d"
  using assms unfolding sameFor_def pcSame_def by blast+

lemma sameFor_inv:
  assumes s: "sameFor P k w w'" and i: "refreshInv P w k"
  shows "refreshInv P w' k"
proof -
  note pc = sameFor_pc [OF s]
  have run: "(\<exists>i d. fw_pc w' i = Running d \<and> rr_key d = k \<and> R d) \<longleftrightarrow> (\<exists>i d. fw_pc w i = Running d \<and> rr_key d = k \<and> R d)"
    for R using pc(4) by blast
  have "carried P w k \<Longrightarrow> carried P w' k" using s unfolding carried_def pc sameFor_def by (elim conjE) metis
  moreover have "runsStamp w' st d \<longleftrightarrow> runsStamp w st d" if "rr_key d = k" for st d
    using s that by (simp add: runsStamp_def sameFor_def)
  moreover have "staleKnown w' k = staleKnown w k" "markPending w' k = markPending w k"
    using s by (simp_all add: staleKnown_def markPending_def sameFor_def)
  moreover have "reresolving w' k = reresolving w k"
    using s pc(4) unfolding reresolving_def sameFor_def by (elim conjE) metis
  ultimately show ?thesis
    using i s unfolding refreshInv_def ownInv_def carryInv_def windowInv_def freshInv_def pc
    unfolding sameFor_def by (elim conjE) (intro conjI; metis pc(4))
qed

section \<open>Operations that only queue\<close>

definition keeps :: "('q \<Rightarrow> gostring set) \<Rightarrow> 'q refresher \<Rightarrow> 'q refresher \<Rightarrow> bool" where
  "keeps P r r' \<longleftrightarrow> win r' = win r \<and> triggerGVRByKey r' = triggerGVRByKey r \<and> promotedKeys r' = promotedKeys r \<and>
     inFlightKeys r' = inFlightKeys r \<and> (\<forall>t. P (tierQ r t) \<subseteq> P (tierQ r' t))"

lemma keeps_refl [simp]: "keeps P r r" by (simp add: keeps_def)

lemma keeps_trans: "keeps P r r' \<Longrightarrow> keeps P r' r'' \<Longrightarrow> keeps P r r''"
  unfolding keeps_def by (metis order_trans)

lemma keeps_onTier: "P (tierQ r t) \<subseteq> P (f (tierQ r t)) \<Longrightarrow> keeps P r (onTier t f r)"
  by (simp add: keeps_def onTier_def)

lemma keeps_fields: "keeps P r r' \<Longrightarrow> keeps P r (r'\<lparr>bgRevalidationInflight := m\<rparr>)"
  "keeps P r r' \<Longrightarrow> keeps P r (r'\<lparr>clusterListKeys := c\<rparr>)" "keeps P r r' \<Longrightarrow> keeps P r (r'\<lparr>viewedActive := v\<rparr>)"
  "keeps P r r' \<Longrightarrow> keeps P r (r'\<lparr>lastViewed := l\<rparr>)" "keeps P r r' \<Longrightarrow> keeps P r (r'\<lparr>suppressedKeys := s\<rparr>)"
  by (simp_all add: keeps_def)

lemma keeps_queue:
  assumes L: "queueLaws Q P elapse"
  shows "keeps P r (onTier t (wq_add Q k) r)" "keeps P r (onTier t (wq_forget Q k) r)"
    "keeps P r (onTier t (wq_done Q k) r)" "keeps P r (onTier t (wq_addRateLimited Q k) r)"
    "keeps P r (onTier t elapse r)" "keeps P r (wakeViewed Q r)"
  by (auto simp: wakeViewed_def queue_laws [OF L] intro!: keeps_onTier)

lemma keeps_enqueue:
  assumes L: "queueLaws Q P elapse"
  shows "keeps P r (enqueue Q k r)" "keeps P r (enqueueClusterList Q k r)" "keeps P r (enqueueViewed Q k r)"
    "keeps P r (routeDirty Q armed k r)" "keeps P r (enqueueRevalidation Q k r)"
proof -
  show *: "keeps P r (enqueue Q k r)" "keeps P r (enqueueClusterList Q k r)" "keeps P r (enqueueViewed Q k r)"
    using keeps_trans [OF keeps_queue(1) [OF L] keeps_queue(6) [OF L]]
    by (simp_all add: enqueue_def enqueueClusterList_def enqueueViewed_def keeps_queue [OF L])
  then show "keeps P r (routeDirty Q armed k r)" "keeps P r (enqueueRevalidation Q k r)"
    by (simp_all add: routeDirty_def enqueueRevalidation_def)
qed

lemma route_waits:
  assumes L: "queueLaws Q P elapse" and "k \<noteq> []"
  shows "\<exists>t. k \<in> P (tierQ (routeDirty Q armed k r) t)" "k \<in> P (tierQ (enqueueViewed Q k r) tierViewed)"
proof -
  show *: "k \<in> P (tierQ (enqueueViewed Q k r) tierViewed)"
  proof -
    let ?r = "onTier tierViewed (wq_add Q k) r"
    have "P (tierQ ?r tierViewed) \<subseteq> P (tierQ (wakeViewed Q ?r) tierViewed)"
      using keeps_queue(6) [OF L, of ?r] by (simp add: keeps_def)
    moreover have "k \<in> P (tierQ ?r tierViewed)" by (simp add: onTier_def queue_laws [OF L])
    ultimately show ?thesis using assms(2) by (auto simp: enqueueViewed_def)
  qed
  have "k \<in> P (tierQ (enqueue Q k r) tierNormal)" "k \<in> P (tierQ (enqueueClusterList Q k r) tierClusterList)"
    using assms(2) by (simp_all add: enqueue_def enqueueClusterList_def onTier_def queue_laws [OF L])
  then show "\<exists>t. k \<in> P (tierQ (routeDirty Q armed k r) t)" using * by (auto simp: routeDirty_def)
qed

lemma keeps_rest:
  assumes L: "queueLaws Q P elapse"
  shows "keeps P r (wakeHandled Q r)" "keeps P r (leaveTier Q k t r)" "keeps P r (RevalidateKnownStaleInBackground Q k r)"
    "keeps P r (settleBackgroundRevalidation Q k r)" "keeps P r (snd (noteDecline k permanent r))"
    "keeps P r (floorDefer Q k t d r)" "keeps P r (enqueueClusterList Q k (r\<lparr>clusterListKeys := c\<rparr>))"
proof -
  note q = keeps_queue [OF L] and e = keeps_enqueue [OF L]
  show "keeps P r (wakeHandled Q r)"
    using q(3) keeps_trans [OF q(3) q(6)] by (auto simp: wakeHandled_def Let_def split: option.split)
  have "keeps P (r\<lparr>viewedActive := v\<rparr>) r' \<Longrightarrow> keeps P r r'" for v r' by (simp add: keeps_def)
  from this [OF q(3)] this [OF keeps_trans [OF q(3) q(6)]] show "keeps P r (leaveTier Q k t r)"
    using q(3) by (simp add: leaveTier_def Let_def)
  have bg: "keeps P (r\<lparr>bgRevalidationInflight := m\<rparr>) r' \<Longrightarrow> keeps P r r'" for m r' by (simp add: keeps_def)
  show "keeps P r (RevalidateKnownStaleInBackground Q k r)" "keeps P r (settleBackgroundRevalidation Q k r)"
    using bg [OF e(5)] keeps_fields(1) [OF keeps_refl]
    by (auto simp: RevalidateKnownStaleInBackground_def settleBackgroundRevalidation_def Let_def split: prod.split)
  show "keeps P r (snd (noteDecline k permanent r))"
    by (simp add: noteDecline_def keeps_def)
  show "keeps P r (floorDefer Q k t d r)" unfolding floorDefer_def by (rule keeps_onTier) (auto simp: queue_laws [OF L])
  have "keeps P (r\<lparr>clusterListKeys := c\<rparr>) r' \<Longrightarrow> keeps P r r'" for r' by (simp add: keeps_def)
  then show "keeps P r (enqueueClusterList Q k (r\<lparr>clusterListKeys := c\<rparr>))" using e(2) by blast
qed

lemma keeps_inv:
  assumes "keeps P (fw_r w) r" "pcSame k (fw_pc w i) pc" "refreshInv P w k"
  shows "refreshInv P (goTo i pc r w) k"
  using assms(1,2) by (intro sameFor_inv [OF _ assms(3)]) (auto simp: sameFor_def keeps_def goTo_def)

lemma keeps_inv_withR:
  assumes "keeps P (fw_r w) (f (fw_r w))" "refreshInv P w k"
  shows "refreshInv P (withR f w) k"
  using assms(1) by (intro sameFor_inv [OF _ assms(2)]) (auto simp: sameFor_def keeps_def withR_def)

section \<open>Marks and writes\<close>

lemma merge_fields [simp]:
  "win (mergeTriggerGVR k g r) = win r" "promotedKeys (mergeTriggerGVR k g r) = promotedKeys r"
  "inFlightKeys (mergeTriggerGVR k g r) = inFlightKeys r" "tierQ (mergeTriggerGVR k g r) = tierQ r"
  "k' \<noteq> k \<Longrightarrow> triggerGVRByKey (mergeTriggerGVR k g r) k' = triggerGVRByKey r k'"
  by (simp_all add: mergeTriggerGVR_def Let_def)

lemma merges_fields [simp]:
  "win (mergeTriggers k gs r) = win r" "promotedKeys (mergeTriggers k gs r) = promotedKeys r"
  "inFlightKeys (mergeTriggers k gs r) = inFlightKeys r" "tierQ (mergeTriggers k gs r) = tierQ r"
  "k' \<noteq> k \<Longrightarrow> triggerGVRByKey (mergeTriggers k gs r) k' = triggerGVRByKey r k'"
  by (induction gs arbitrary: r) (simp_all add: mergeTriggers_def)

lemma merges_own:
  assumes "k \<noteq> []"
  shows "gs \<noteq> [] \<or> triggerGVRByKey r k \<noteq> None \<Longrightarrow> triggerGVRByKey (mergeTriggers k gs r) k \<noteq> None"
    "triggerGVRByKey r k \<noteq> Some [] \<Longrightarrow> triggerGVRByKey (mergeTriggers k gs r) k \<noteq> Some []"
    "gs = [] \<Longrightarrow> mergeTriggers k gs r = r"
proof -
  have *: "triggerGVRByKey (mergeTriggerGVR k g r) k \<noteq> None"
    "triggerGVRByKey r k \<noteq> Some [] \<Longrightarrow> triggerGVRByKey (mergeTriggerGVR k g r) k \<noteq> Some []" for g and r :: "'a refresher"
    using assms by (auto simp: mergeTriggerGVR_def Let_def split: option.split)
  show "gs \<noteq> [] \<or> triggerGVRByKey r k \<noteq> None \<Longrightarrow> triggerGVRByKey (mergeTriggers k gs r) k \<noteq> None"
    using *(1) by (induction gs arbitrary: r) (auto simp: mergeTriggers_def)
  show "triggerGVRByKey r k \<noteq> Some [] \<Longrightarrow> triggerGVRByKey (mergeTriggers k gs r) k \<noteq> Some []"
    using *(2) by (induction gs arbitrary: r) (auto simp: mergeTriggers_def)
qed (simp add: mergeTriggers_def)

lemma markDirtyKey_other: "k' \<noteq> k \<Longrightarrow> dirty (markDirtyKey k seq now w) k' = dirty w k'"
  by (simp add: markDirtyKey_def split: option.split)

lemma markDirtyKey_own:
  assumes "k \<noteq> []"
  obtains s where "dirty (markDirtyKey k seq now w) k = Some s"
    "\<not> ds_inflight s \<or> ds_next s \<noteq> None \<and> (\<exists>s0. dirty w k = Some s0 \<and> ds_inflight s0 \<and> ds_t0 s0 = ds_t0 s \<and> ds_stale s0 = ds_stale s)"
proof (cases "dirty w k")
  case None
  then show ?thesis using that assms by (simp add: markDirtyKey_def stampAt_def)
next
  case (Some s0)
  then show ?thesis using that assms by (cases "ds_seq s0 \<ge> seq"; cases "ds_inflight s0"; cases "ds_next s0") (auto simp: markDirtyKey_def)
qed

lemma runsStamp_cong:
  "ds_t0 s = ds_t0 s' \<Longrightarrow> ds_stale s = ds_stale s' \<or> ds_stale s = knownStaleNone \<Longrightarrow> fw_gen w = fw_gen w' \<Longrightarrow>
     runsStamp w' s' d \<Longrightarrow> runsStamp w s d"
  by (auto simp: runsStamp_def)

lemma onDirtyMark_effect:
  assumes L: "queueLaws Q P elapse" and r': "r' = onDirtyMark Q res armed seq now k gs r"
  shows "promotedKeys r' = promotedKeys r" "inFlightKeys r' = inFlightKeys r" "P (tierQ r t) \<subseteq> P (tierQ r' t)"
    "k' \<noteq> k \<Longrightarrow> triggerGVRByKey r' k' = triggerGVRByKey r k'" "k' \<noteq> k \<Longrightarrow> dirty (win r') k' = dirty (win r) k'"
    "res \<Longrightarrow> win r' = markDirtyKey k seq now (win r)"
    "res \<Longrightarrow> triggerGVRByKey r' = triggerGVRByKey (mergeTriggers k gs r)"
proof -
  have "keeps P (onWin (markDirtyKey k seq now) (mergeTriggers k gs r)) r'" if res
    using keeps_enqueue(4) [OF L] that by (simp add: r' onDirtyMark_def)
  moreover have "r' = r" if "\<not> res" using that by (simp add: r' onDirtyMark_def)
  ultimately show "promotedKeys r' = promotedKeys r" "inFlightKeys r' = inFlightKeys r" "P (tierQ r t) \<subseteq> P (tierQ r' t)"
    "k' \<noteq> k \<Longrightarrow> triggerGVRByKey r' k' = triggerGVRByKey r k'" "k' \<noteq> k \<Longrightarrow> dirty (win r') k' = dirty (win r) k'"
    "res \<Longrightarrow> win r' = markDirtyKey k seq now (win r)" "res \<Longrightarrow> triggerGVRByKey r' = triggerGVRByKey (mergeTriggers k gs r)"
    by (cases res; auto simp: keeps_def onWin_def markDirtyKey_other)+
qed

lemma mark_inv:
  assumes L: "queueLaws Q P elapse" and k: "k \<noteq> []" and i: "refreshInv P w k" and m: "(k0, gs) \<in> set (fw_marks w)"
  shows "refreshInv P (deliverMark Q k0 gs w) k"
proof (cases "k = k0 \<and> fw_cells w k \<noteq> None")
  case False
  let ?r = "onDirtyMark Q (fw_cells w k0 \<noteq> None) (fw_armed w) (fw_seq w) (fw_now w) k0 gs (fw_r w)"
  have r: "deliverMark Q k0 gs w = w\<lparr>fw_marks := remove1 (k0, gs) (fw_marks w), fw_r := ?r\<rparr>"
    by (simp add: deliverMark_def withR_def)
  show ?thesis
  proof (cases "k = k0")
    case True
    then have none: "fw_cells w k = None" "?r = fw_r w" using False by (simp_all add: onDirtyMark_def)
    have "set (remove1 (k0, gs) (fw_marks w)) \<subseteq> set (fw_marks w)" by (rule set_remove1_subset)
    then show ?thesis
      using i none unfolding r refreshInv_def ownInv_def carryInv_def windowInv_def freshInv_def carried_def runsStamp_def
      by auto
  next
    case other: False
    have "sameFor P k w (deliverMark Q k0 gs w)"
      using onDirtyMark_effect(1,2,4,5) [OF L refl] subsetD [OF onDirtyMark_effect(3) [OF L refl]] other
      unfolding r by (simp add: sameFor_def)
    then show ?thesis using i by (rule sameFor_inv)
  qed
next
  case True
  define w' where "w' = deliverMark Q k0 gs w"
  have r: "fw_r w' = onDirtyMark Q True (fw_armed w) (fw_seq w) (fw_now w) k gs (fw_r w)" "fw_cells w' = fw_cells w"
    "fw_pc w' = fw_pc w" "fw_gen w' = fw_gen w" "set (fw_marks w') \<subseteq> set (fw_marks w)"
    using True by (auto simp: w'_def deliverMark_def withR_def set_remove1_subset)
  note e = onDirtyMark_effect [OF L r(1)]
  obtain s where s: "dirty (win (fw_r w')) k = Some s" "\<not> ds_inflight s \<or> ds_next s \<noteq> None \<and>
      (\<exists>s0. dirty (win (fw_r w)) k = Some s0 \<and> ds_inflight s0 \<and> ds_t0 s0 = ds_t0 s \<and> ds_stale s0 = ds_stale s)"
    using markDirtyKey_own [OF k] e(6) by metis
  have gs: "gs \<noteq> []" using i m True unfolding refreshInv_def carryInv_def by blast
  have t: "triggerGVRByKey (fw_r w') k \<noteq> None" "triggerGVRByKey (fw_r w') k \<noteq> Some []"
    using merges_own(1,2) [OF k, where gs = gs and r = "fw_r w"] gs i e(7) unfolding refreshInv_def carryInv_def by metis+
  have "ownInv w' k" using i e(2) r(3) unfolding refreshInv_def ownInv_def by simp
  moreover have "carryInv P w' k"
  proof -
    have "\<exists>t. k \<in> P (tierQ (fw_r w') t)" unfolding r(1) onDirtyMark_def using route_waits [OF L k] by simp
    then show ?thesis
      using i e(1,3) t r(3,5) unfolding refreshInv_def carryInv_def carried_def by auto
  qed
  moreover have "windowInv w' k"
  proof -
    have "\<exists>i d. fw_pc w' i = Running d \<and> rr_key d = k \<and> runsStamp w' s d" if "ds_inflight s"
      using s(2) that i r(3,4) runsStamp_cong unfolding refreshInv_def windowInv_def by metis
    then show ?thesis using i s r(2,3) True unfolding refreshInv_def windowInv_def by auto
  qed
  moreover have "freshInv w' k" using t s by (simp add: freshInv_def markPending_def)
  ultimately show ?thesis unfolding refreshInv_def w'_def by simp
qed

lemma event_inv:
  assumes "refreshInv P w k"
  shows "refreshInv P (eventOn ks g w) k"
proof -
  let ?w = "eventOn ks g w"
  have w: "fw_r ?w = fw_r w" "fw_cells ?w = fw_cells w" "fw_gen ?w = fw_gen w" "fw_pc ?w = fw_pc w"
    "(k, gs) \<in> set (fw_marks ?w) \<longleftrightarrow> (k \<in> set ks \<and> gs = [g]) \<or> (k, gs) \<in> set (fw_marks w)"
    "k \<notin> set ks \<Longrightarrow> fw_last ?w k = fw_last w k" for gs
    by (auto simp: eventOn_def)
  have "freshInv ?w k"
    using assms w(6) unfolding refreshInv_def freshInv_def staleKnown_def markPending_def reresolving_def w(1-5)
    by (cases "k \<in> set ks") auto
  then show ?thesis
    using assms unfolding refreshInv_def ownInv_def carryInv_def carried_def windowInv_def runsStamp_def w by auto
qed

lemma arm_inv:
  assumes L: "queueLaws Q P elapse" and i: "refreshInv P w k"
  shows "refreshInv P (withR (promoteOnArm Q k0) (w\<lparr>fw_armed := A\<rparr>)) k"
proof -
  let ?w = "withR (promoteOnArm Q k0) (w\<lparr>fw_armed := A\<rparr>)"
  let ?r = "(fw_r w)\<lparr>promotedKeys := (promotedKeys (fw_r w))(k0 \<mapsto> promotedViewedPending)\<rparr>"
  have same: "refreshInv P ?w k" if "promotedKeys (fw_r ?w) k = promotedKeys (fw_r w) k"
    using keeps_enqueue(3) [OF L, of ?r k0] that
    by (intro sameFor_inv [OF _ i]) (auto simp: sameFor_def withR_def promoteOnArm_def keeps_def)
  show ?thesis
  proof (cases "k = k0 \<and> k0 \<noteq> [] \<and> dirtyPending k0 (win (fw_r w))")
    case False
    then show ?thesis
      using same keeps_enqueue(3) [OF L, of ?r k0] by (auto simp: withR_def promoteOnArm_def keeps_def)
  next
    case True
    then have k: "k0 = k" "k \<noteq> []" and r: "fw_r ?w = enqueueViewed Q k ?r"
      by (auto simp: withR_def promoteOnArm_def split: if_splits)
    have e: "keeps P ?r (fw_r ?w)" "k \<in> P (tierQ (fw_r ?w) tierViewed)"
      unfolding r using keeps_enqueue(3) [OF L] route_waits(2) [OF L k(2)] by blast+
    have w: "fw_cells ?w = fw_cells w" "fw_gen ?w = fw_gen w" "fw_pc ?w = fw_pc w" "fw_marks ?w = fw_marks w"
      "fw_last ?w = fw_last w" by (simp_all add: withR_def)
    show ?thesis
      using i e unfolding refreshInv_def ownInv_def carryInv_def carried_def windowInv_def runsStamp_def freshInv_def
        staleKnown_def markPending_def reresolving_def keeps_def w by auto
  qed
qed

lemma endKnownStaleOnPut_stamp:
  assumes "endKnownStaleOnPut k0 st wn = (e, wn')" "dirty wn' k = Some s'"
  obtains s where "dirty wn k = Some s"
    "ds_inflight s' \<longrightarrow> ds_inflight s \<and> ds_t0 s' = ds_t0 s \<and> ds_next s' = ds_next s \<and>
       (ds_stale s' = ds_stale s \<or> ds_stale s' = knownStaleNone)"
  using assms by (auto simp: endKnownStaleOnPut_def Let_def stampAt_def split: if_splits option.splits)

lemma endKnownStaleOnPut_other: "k \<noteq> k0 \<Longrightarrow> dirty (snd (endKnownStaleOnPut k0 st wn)) k = dirty wn k"
  by (simp add: endKnownStaleOnPut_def Let_def split: option.split)

lemma endKnownStaleOnPut_ends:
  "k \<noteq> [] \<Longrightarrow> dirty (snd (endKnownStaleOnPut k (Some st) wn)) k = Some s \<Longrightarrow> ds_stale s = knownStaleNone"
  by (auto simp: endKnownStaleOnPut_def Let_def stampAt_def split: if_splits option.splits)

lemma acceptPut_fields:
  "dirty (win (fw_r (acceptPut k0 st gs w))) = dirty (snd (endKnownStaleOnPut k0 (Some st) (win (fw_r w))))"
  "triggerGVRByKey (fw_r (acceptPut k0 st gs w)) = triggerGVRByKey (fw_r w)"
  "promotedKeys (fw_r (acceptPut k0 st gs w)) = promotedKeys (fw_r w)"
  "inFlightKeys (fw_r (acceptPut k0 st gs w)) = inFlightKeys (fw_r w)" "tierQ (fw_r (acceptPut k0 st gs w)) = tierQ (fw_r w)"
  "fw_cells (acceptPut k0 st gs w) = (fw_cells w)(k0 \<mapsto> st)" "fw_gen (acceptPut k0 st gs w) = fw_gen w"
  "fw_last (acceptPut k0 st gs w) = fw_last w" "fw_pc (acceptPut k0 st gs w) = fw_pc w"
  by (auto simp: acceptPut_def clearSuppressed_def Let_def split: prod.split option.split)

lemma acceptPut_marks:
  "(k, hs) \<in> set (fw_marks (acceptPut k0 st gs w)) \<Longrightarrow> (k, hs) \<in> set (fw_marks w) \<or> k = k0 \<and> (hs = gs \<or> hs = [zeroGVR])"
  "(k, hs) \<in> set (fw_marks w) \<Longrightarrow> (k, hs) \<in> set (fw_marks (acceptPut k0 st gs w))"
  "st < fw_last w k0 \<Longrightarrow> (k0, gs) \<in> set (fw_marks (acceptPut k0 st gs w))"
  by (auto simp: acceptPut_def clearSuppressed_def Let_def split: prod.splits if_splits)

end
