(* ===== verification/RefreshKept.thy ===== *)
theory RefreshKept
  imports RefreshRuns
begin

text \<open>
  Every step of the refresher (cache/refresher.go and its companions) keeps the invariant of \<open>RefreshRuns\<close>,
  one lemma per step: an accepted write, an eviction, a worker that takes, claims, floors, suppresses,
  re-resolves, settles and lets go of a key.
\<close>

section \<open>An accepted write\<close>

text \<open>An accepted write, up to the outcome the run of the worker notes.\<close>

lemma put_window:
  assumes w: "windowInv w k" and c: "fw_cells w' k \<noteq> None" and f: "fw_pc w' = fw_pc w" "fw_gen w' = fw_gen w"
    "triggerGVRByKey (fw_r w') = triggerGVRByKey (fw_r w)"
    and s: "\<And>s. dirty (win (fw_r w')) k = Some s \<Longrightarrow> ds_inflight s \<Longrightarrow>
      \<exists>s0. dirty (win (fw_r w)) k = Some s0 \<and> ds_inflight s0 \<and> ds_t0 s = ds_t0 s0 \<and> ds_next s = ds_next s0 \<and>
        (ds_stale s = ds_stale s0 \<or> ds_stale s = knownStaleNone)"
  shows "windowInv w' k"
  unfolding windowInv_def
proof (intro conjI allI impI)
  show "fw_cells w' k \<noteq> None" by (rule c)
  fix st assume st: "dirty (win (fw_r w')) k = Some st" "ds_inflight st"
  obtain s0 where s0: "dirty (win (fw_r w)) k = Some s0" "ds_inflight s0" "ds_t0 st = ds_t0 s0" "ds_next st = ds_next s0"
    "ds_stale st = ds_stale s0 \<or> ds_stale st = knownStaleNone" using s [OF st] by blast
  show "ds_next st \<noteq> None" if "triggerGVRByKey (fw_r w') k \<noteq> None"
    using w s0 that f(3) unfolding windowInv_def by auto
  obtain i d where "fw_pc w i = Running d" "rr_key d = k" "runsStamp w s0 d"
    using w s0 unfolding windowInv_def by blast
  then show "\<exists>i d. fw_pc w' i = Running d \<and> rr_key d = k \<and> runsStamp w' st d"
    using runsStamp_cong [of st s0 w' w d] s0 f by auto
next
  fix i d assume "fw_pc w' i = Running d" "rr_key d = k" "\<not> rr_had d"
  then show "rr_t0 d = None" using w f(1) unfolding windowInv_def by auto
qed

lemma put_inv:
  assumes i: "refreshInv P w k" and gs: "gs \<noteq> []"
  shows "refreshInv P (acceptPut k0 st gs w) k"
proof (cases "k = k0")
  case False
  have "(k, hs) \<in> set (fw_marks (acceptPut k0 st gs w)) \<longleftrightarrow> (k, hs) \<in> set (fw_marks w)" for hs
    using False acceptPut_marks(1,2) by blast
  then have "sameFor P k w (acceptPut k0 st gs w)"
    using False endKnownStaleOnPut_other [OF False] unfolding sameFor_def acceptPut_fields by simp
  then show ?thesis using i by (rule sameFor_inv)
next
  case True
  let ?w = "acceptPut k0 st gs w"
  have "freshInv ?w k" using acceptPut_marks(3) [of st w k0 gs] True by (auto simp: freshInv_def acceptPut_fields)
  moreover have "carryInv P ?w k"
  proof -
    have "hs \<noteq> []" if "(k, hs) \<in> set (fw_marks ?w)" for hs
      using acceptPut_marks(1) [OF that] i gs unfolding refreshInv_def carryInv_def by auto
    then show ?thesis
      using i unfolding refreshInv_def carryInv_def carried_def acceptPut_fields by simp
  qed
  moreover have "windowInv ?w k"
  proof (rule put_window)
    show "windowInv w k" using i by (simp add: refreshInv_def)
    fix s assume s: "dirty (win (fw_r ?w)) k = Some s" "ds_inflight s"
    obtain e wn where e: "endKnownStaleOnPut k0 (Some st) (win (fw_r w)) = (e, wn)" by fastforce
    show "\<exists>s0. dirty (win (fw_r w)) k = Some s0 \<and> ds_inflight s0 \<and> ds_t0 s = ds_t0 s0 \<and> ds_next s = ds_next s0 \<and>
        (ds_stale s = ds_stale s0 \<or> ds_stale s = knownStaleNone)"
      using endKnownStaleOnPut_stamp [OF e, of k s] s unfolding acceptPut_fields e by auto
  qed (use True in \<open>simp_all add: acceptPut_fields\<close>)
  ultimately show ?thesis using i unfolding refreshInv_def ownInv_def acceptPut_fields by blast
qed

lemma evict_inv:
  assumes "refreshInv P w k"
  shows "refreshInv P (evictCell k0 w) k"
proof -
  let ?w = "evictCell k0 w"
  have w: "dirty (win (fw_r ?w)) = (dirty (win (fw_r w)))(k0 := None)" "triggerGVRByKey (fw_r ?w) = triggerGVRByKey (fw_r w)"
    "promotedKeys (fw_r ?w) = promotedKeys (fw_r w)" "inFlightKeys (fw_r ?w) = inFlightKeys (fw_r w)"
    "tierQ (fw_r ?w) = tierQ (fw_r w)" "fw_cells ?w = (fw_cells w)(k0 := None)"
    "fw_gen ?w = (fw_gen w)(k0 := fw_gen w k0 + 1)" "fw_last ?w = fw_last w" "fw_pc ?w = fw_pc w" "fw_marks ?w = fw_marks w"
    by (simp_all add: evictCell_def onWin_def clearSuppressed_def evictDirtyWindow_dirty)
  show ?thesis
  proof (cases "k = k0")
    case False
    then show ?thesis by (intro sameFor_inv [OF _ assms]) (simp add: sameFor_def w)
  next
    case True
    then show ?thesis
      using assms unfolding refreshInv_def ownInv_def carryInv_def carried_def windowInv_def freshInv_def w by simp
  qed
qed

section \<open>A worker takes a key\<close>

lemma goTo_fields [simp]:
  "fw_r (goTo i pc r w) = r" "fw_cells (goTo i pc r w) = fw_cells w" "fw_gen (goTo i pc r w) = fw_gen w"
  "fw_last (goTo i pc r w) = fw_last w" "fw_marks (goTo i pc r w) = fw_marks w"
  "fw_pc (goTo i pc r w) = (fw_pc w)(i := pc)" "fw_seq (goTo i pc r w) = fw_seq w"
  by (simp_all add: goTo_def)

definition isRunning :: "refreshPc \<Rightarrow> bool" where
  "isRunning pc \<longleftrightarrow> (case pc of Running _ \<Rightarrow> True | _ \<Rightarrow> False)"

lemma ownInv_goTo:
  assumes "ownInv w k" "owns pc = Some k \<longleftrightarrow> owns (fw_pc w i) = Some k"
    "inFlightKeys r k = None \<longleftrightarrow> inFlightKeys (fw_r w) k = None"
  shows "ownInv (goTo i pc r w) k"
proof -
  have "owns (((fw_pc w)(i := pc)) j) = Some k \<longleftrightarrow> owns (fw_pc w j) = Some k" for j using assms(2) by simp
  then show ?thesis using assms(1,3) unfolding ownInv_def goTo_fields by metis
qed

lemma window_fresh_goTo:
  assumes "windowInv w k" "freshInv w k" "\<not> isRunning (fw_pc w i)" "\<not> isRunning pc"
    "dirty (win r) k = dirty (win (fw_r w)) k" "triggerGVRByKey r k = triggerGVRByKey (fw_r w) k"
  shows "windowInv (goTo i pc r w) k" "freshInv (goTo i pc r w) k"
proof -
  have *: "((fw_pc w)(i := pc)) j = Running d \<longleftrightarrow> fw_pc w j = Running d" for j d
    using assms(3,4) by (auto simp: isRunning_def)
  show "windowInv (goTo i pc r w) k"
    using assms(1,5,6) unfolding windowInv_def runsStamp_def goTo_fields * by simp
  show "freshInv (goTo i pc r w) k"
    using assms(2,5,6) unfolding freshInv_def staleKnown_def markPending_def reresolving_def goTo_fields * by simp
qed

lemma carried_goTo:
  assumes "carried P w k" "takes (fw_pc w i) = Some k \<longrightarrow> takes pc = Some k \<or> inFlightKeys r k = Some True \<or> (\<exists>t. k \<in> P (tierQ r t))"
    "\<And>t. k \<in> P (tierQ (fw_r w) t) \<Longrightarrow> k \<in> P (tierQ r t) \<or> takes pc = Some k"
    "inFlightKeys (fw_r w) k = Some True \<Longrightarrow> inFlightKeys r k = Some True \<or> (\<exists>t. k \<in> P (tierQ r t))"
  shows "carried P (goTo i pc r w) k"
  using assms unfolding carried_def goTo_fields by (metis fun_upd_apply)

lemma tryPriorityGet_effect:
  assumes L: "queueLaws Q P elapse" and "tryPriorityGet Q t r = Some (k, r')"
  shows "win r' = win r" "triggerGVRByKey r' = triggerGVRByKey r" "promotedKeys r' = promotedKeys r"
    "inFlightKeys r' = inFlightKeys r" "P (tierQ r t') - (if t' = t then {k} else {}) \<subseteq> P (tierQ r' t')"
  using assms(2) get_law(1) [OF L, of "tierQ r t"]
  by (auto simp: tryPriorityGet_def Let_def split: if_splits option.splits prod.splits)

lemma selectKey_effect:
  assumes L: "queueLaws Q P elapse" and s: "selectKey Q r = Some (k, t, r')"
  shows "win r' = win r" "triggerGVRByKey r' = triggerGVRByKey r" "promotedKeys r' = promotedKeys r"
    "inFlightKeys r' = inFlightKeys r" "P (tierQ r t') - (if t' = t then {k} else {}) \<subseteq> P (tierQ r' t')"
proof -
  have "win r' = win r \<and> triggerGVRByKey r' = triggerGVRByKey r \<and> promotedKeys r' = promotedKeys r \<and>
    inFlightKeys r' = inFlightKeys r \<and> P (tierQ r t') - (if t' = t then {k} else {}) \<subseteq> P (tierQ r' t')"
  proof (cases "tryPriorityGet Q tierViewed r")
    case (Some x)
    then have t: "t = tierViewed" and get: "tryPriorityGet Q tierViewed r = Some (k, r')"
      using s by (auto simp: selectKey_def split: prod.splits)
    show ?thesis unfolding t by (intro conjI tryPriorityGet_effect [OF L get])
  next
    case none: None
    show ?thesis
    proof (cases "tryPriorityGet Q tierClusterList r")
      case (Some x)
      then obtain r1 where t: "t = tierClusterList" "r' = r1\<lparr>lastViewed := False\<rparr>"
          and get: "tryPriorityGet Q tierClusterList r = Some (k, r1)"
        using s none by (auto simp: selectKey_def split: prod.splits)
      show ?thesis
        using tryPriorityGet_effect(1-4) [OF L get] tryPriorityGet_effect(5) [OF L get, of t'] unfolding t by simp
    next
      case None
      then obtain q where t: "t = tierNormal" "r' = r\<lparr>tierQ := (tierQ r)(tierNormal := q), lastViewed := False\<rparr>"
          and get: "wq_get Q (tierQ r tierNormal) = Some (k, q)"
        using s none by (auto simp: selectKey_def split: option.splits)
      show ?thesis using get_law(1) [OF L get] unfolding t by auto
    qed
  qed
  then show "win r' = win r" "triggerGVRByKey r' = triggerGVRByKey r" "promotedKeys r' = promotedKeys r"
    "inFlightKeys r' = inFlightKeys r" "P (tierQ r t') - (if t' = t then {k} else {}) \<subseteq> P (tierQ r' t')" by blast+
qed

lemma carryInv_goTo:
  assumes c: "carryInv P w k"
    and t: "triggerGVRByKey r k = triggerGVRByKey (fw_r w) k \<or> triggerGVRByKey r k = None"
    and cc: "triggerGVRByKey r k \<noteq> None \<Longrightarrow> carried P w k \<Longrightarrow> carried P (goTo n pc r w) k"
    and p: "promotedKeys r k = Some promotedViewedPending \<Longrightarrow> promotedKeys (fw_r w) k = Some promotedViewedPending"
    and q: "promotedKeys r k = Some promotedViewedPending \<Longrightarrow> k \<in> P (tierQ (fw_r w) tierViewed) \<Longrightarrow>
      k \<in> P (tierQ r tierViewed) \<or> pc = Popped k tierViewed"
    and o': "promotedKeys r k = Some promotedViewedPending \<Longrightarrow> fw_pc w n = Popped k tierViewed \<Longrightarrow>
      k \<in> P (tierQ r tierViewed) \<or> pc = Popped k tierViewed"
  shows "carryInv P (goTo n pc r w) k"
  unfolding carryInv_def goTo_fields
proof (intro conjI allI impI)
  show "carried P (goTo n pc r w) k" if "triggerGVRByKey r k \<noteq> None"
    using c t cc [OF that] that unfolding carryInv_def by auto
  show "triggerGVRByKey r k \<noteq> Some []" using c t unfolding carryInv_def by auto
  show "gs \<noteq> []" if "(k, gs) \<in> set (fw_marks w)" for gs using c that unfolding carryInv_def by blast
  assume pend: "promotedKeys r k = Some promotedViewedPending"
  then consider "k \<in> P (tierQ (fw_r w) tierViewed)" | i where "fw_pc w i = Popped k tierViewed"
    using c p unfolding carryInv_def by blast
  then show "k \<in> P (tierQ r tierViewed) \<or> (\<exists>i. ((fw_pc w)(n := pc)) i = Popped k tierViewed)"
  proof cases
    case 1
    then show ?thesis using q [OF pend] by (metis fun_upd_same)
  next
    case (2 i)
    then show ?thesis using o' [OF pend] by (cases "i = n") (metis fun_upd_same, metis fun_upd_other)
  qed
qed

lemma pop_inv:
  assumes L: "queueLaws Q P elapse" and i: "refreshInv P w k" and idle: "fw_pc w n = Idle"
    and s: "selectKey Q (fw_r w) = Some (k0, t, r)"
  shows "refreshInv P (goTo n (Popped k0 t) r w) k"
proof -
  note e = selectKey_effect [OF L s]
  have q: "k \<in> P (tierQ (fw_r w) t') \<Longrightarrow> k \<in> P (tierQ r t') \<or> (k = k0 \<and> t' = t)" for t'
    using e(5) [of t'] by (auto split: if_splits)
  have "carried P (goTo n (Popped k0 t) r w) k" if "carried P w k"
    by (rule carried_goTo [OF that]) (use idle q e(4) in auto)
  then have "carryInv P (goTo n (Popped k0 t) r w) k"
    using i idle q [of tierViewed] by (intro carryInv_goTo) (auto simp: refreshInv_def e(2,3))
  then show ?thesis
    using i idle e ownInv_goTo [of w k "Popped k0 t" n r] window_fresh_goTo [of w k n "Popped k0 t" r]
    by (simp add: refreshInv_def isRunning_def)
qed

lemma awake_inv:
  assumes L: "queueLaws Q P elapse" and i: "refreshInv P w k" and k: "k \<noteq> viewedWakeKey" and idle: "fw_pc w n = Idle"
    and s: "selectKey Q (fw_r w) = Some (viewedWakeKey, tierNormal, r)"
  shows "refreshInv P (goTo n Idle (wakeHandled Q r) w) k"
proof -
  note e = selectKey_effect [OF L s]
  let ?w = "goTo n Idle r w"
  have "refreshInv P ?w k"
  proof (rule sameFor_inv [OF _ i])
    have "k \<in> P (tierQ (fw_r w) t) \<longrightarrow> k \<in> P (tierQ r t)" for t using e(5) [of t] k by (auto split: if_splits)
    then show "sameFor P k w ?w" using e idle by (simp add: sameFor_def)
  qed
  then have "refreshInv P (goTo n Idle (wakeHandled Q r) ?w) k"
    using keeps_inv [of P ?w "wakeHandled Q r" k n Idle] keeps_rest(1) [OF L, of r] by simp
  then show ?thesis by (simp add: goTo_def)
qed

lemma consumedElsewhere_effect:
  assumes "consumedElsewhere k0 t r = (b, r')"
  shows "win r' = win r" "triggerGVRByKey r' = triggerGVRByKey r" "inFlightKeys r' = inFlightKeys r" "tierQ r' = tierQ r"
    "k \<noteq> k0 \<Longrightarrow> promotedKeys r' k = promotedKeys r k"
    "promotedKeys r' k0 = Some promotedViewedPending \<Longrightarrow> t \<noteq> tierViewed \<and> promotedKeys r k0 = Some promotedViewedPending"
    "b \<Longrightarrow> triggerGVRByKey r k0 \<noteq> None \<Longrightarrow> t \<noteq> tierViewed \<and> promotedKeys r k0 = Some promotedViewedPending"
  using assms by (auto simp: consumedElsewhere_def Let_def split: if_splits option.splits)

lemma popped_inv:
  assumes L: "queueLaws Q P elapse" and i: "refreshInv P w k" and pc: "fw_pc w n = Popped k0 t"
    and c: "consumedElsewhere k0 t (fw_r w) = (b, r)"
    and r': "keeps P r r'" and pc': "pc' = (if b then Leaving k0 t else Admitted k0 t)"
  shows "refreshInv P (goTo n pc' r' w) k"
proof -
  note e = consumedElsewhere_effect [OF c]
  have r: "win r' = win (fw_r w)" "triggerGVRByKey r' = triggerGVRByKey (fw_r w)" "inFlightKeys r' = inFlightKeys (fw_r w)"
    "promotedKeys r' = promotedKeys r" "P (tierQ (fw_r w) t') \<subseteq> P (tierQ r' t')" for t'
    using r' e(1-4) by (auto simp: keeps_def)
  have other: "\<exists>i. fw_pc (goTo n pc' r' w) i = Popped k tierViewed"
    if "fw_pc w i = Popped k tierViewed" "k \<noteq> k0 \<or> t \<noteq> tierViewed" for i
    using that pc by (intro exI [of _ i]) auto
  have promo: "promotedKeys r' k = Some promotedViewedPending \<Longrightarrow>
      promotedKeys (fw_r w) k = Some promotedViewedPending \<and> (k \<noteq> k0 \<or> t \<noteq> tierViewed)"
    using e(5,6) r(4) by (cases "k = k0") auto
  have "carried P (goTo n pc' r' w) k" if "triggerGVRByKey (fw_r w) k \<noteq> None" "carried P w k"
  proof (cases "b \<and> k = k0")
    case False
    then show ?thesis by (intro carried_goTo [OF that(2)]) (use pc pc' r in auto)
  next
    case True
    then have t: "t \<noteq> tierViewed" "promotedKeys (fw_r w) k = Some promotedViewedPending" using e(7) that(1) by auto
    then consider "k \<in> P (tierQ (fw_r w) tierViewed)" | i where "fw_pc w i = Popped k tierViewed"
      using i unfolding refreshInv_def carryInv_def by blast
    then show ?thesis
    proof cases
      case 2
      then obtain j where "fw_pc (goTo n pc' r' w) j = Popped k tierViewed" using other t(1) by blast
      then show ?thesis unfolding carried_def by (metis takes.simps(1))
    qed (use r(5) in \<open>auto simp: carried_def\<close>)
  qed
  moreover have "k \<in> P (tierQ (fw_r w) tierViewed) \<Longrightarrow> k \<in> P (tierQ r' tierViewed)" using r(5) by blast
  ultimately have "carryInv P (goTo n pc' r' w) k"
    using i promo pc r(2) by (intro carryInv_goTo) (auto simp: refreshInv_def)
  then show ?thesis
    using i pc pc' r ownInv_goTo [of w k pc' n r'] window_fresh_goTo [of w k n pc' r']
    by (simp add: refreshInv_def isRunning_def)
qed

section \<open>A worker claims and holds a key\<close>

lemma sole_owner: "ownInv w k \<Longrightarrow> owns (fw_pc w n) = Some k \<Longrightarrow> owns (fw_pc w j) = Some k \<Longrightarrow> j = n"
  unfolding ownInv_def by blast

lemma claimInFlight_effect:
  assumes "claimInFlight k0 r = (b, r')"
  shows "r' = r\<lparr>inFlightKeys := (inFlightKeys r)(k0 \<mapsto> \<not> b)\<rparr>" "b \<longleftrightarrow> inFlightKeys r k0 = None"
  using assms by (auto simp: claimInFlight_def split: option.splits)

lemma ownInv_claim:
  assumes o': "ownInv w k" and pc: "owns (fw_pc w n) = None" and free: "inFlightKeys (fw_r w) k = None"
    and new: "owns pc = Some k" "inFlightKeys r k \<noteq> None"
  shows "ownInv (goTo n pc r w) k"
proof -
  have "owns (fw_pc w j) \<noteq> Some k" for j using o' free unfolding ownInv_def by blast
  then have "owns (((fw_pc w)(n := pc)) j) = Some k \<longleftrightarrow> j = n" for j using new(1) by auto
  then show ?thesis using new(2) by (simp add: ownInv_def)
qed

lemma claim_inv:
  assumes i: "refreshInv P w k" and pc: "fw_pc w n = Admitted k0 t" and c: "claimInFlight k0 (fw_r w) = (b, r)"
    and pc': "pc' = (if b then Held k0 t else Leaving k0 t)"
  shows "refreshInv P (goTo n pc' r w) k"
proof -
  have r: "win r = win (fw_r w)" "triggerGVRByKey r = triggerGVRByKey (fw_r w)" "tierQ r = tierQ (fw_r w)"
    "promotedKeys r = promotedKeys (fw_r w)" "inFlightKeys r = (inFlightKeys (fw_r w))(k0 \<mapsto> \<not> b)"
    using claimInFlight_effect(1) [OF c] by simp_all
  note b = claimInFlight_effect(2) [OF c]
  have "ownInv (goTo n pc' r w) k"
  proof (cases "k = k0 \<and> b")
    case True
    then show ?thesis using i pc pc' b r(5) by (intro ownInv_claim) (auto simp: refreshInv_def)
  next
    case False
    then show ?thesis using i pc pc' b r(5) by (intro ownInv_goTo) (auto simp: refreshInv_def)
  qed
  moreover have "carried P (goTo n pc' r w) k" if "carried P w k"
    by (rule carried_goTo [OF that]) (use pc pc' r b in auto)
  then have "carryInv P (goTo n pc' r w) k"
    using i pc r by (intro carryInv_goTo) (auto simp: refreshInv_def)
  ultimately show ?thesis
    using i pc pc' r window_fresh_goTo [of w k n pc' r] by (simp add: refreshInv_def isRunning_def)
qed

lemma floor_inv:
  assumes L: "queueLaws Q P elapse" and i: "refreshInv P w k" and pc: "fw_pc w n = Held k0 t"
  shows "refreshInv P (goTo n (Settled k0 t) (floorDefer Q k0 t d (fw_r w)) w) k"
proof -
  let ?r = "floorDefer Q k0 t d (fw_r w)"
  have r: "win ?r = win (fw_r w)" "triggerGVRByKey ?r = triggerGVRByKey (fw_r w)" "promotedKeys ?r = promotedKeys (fw_r w)"
    "inFlightKeys ?r = inFlightKeys (fw_r w)" "P (tierQ (fw_r w) t') \<subseteq> P (tierQ ?r t')" "k0 \<in> P (tierQ ?r t)" for t'
    by (auto simp: floorDefer_def onTier_def queue_laws [OF L])
  have "ownInv (goTo n (Settled k0 t) ?r w) k"
    using i pc r(4) by (intro ownInv_goTo) (auto simp: refreshInv_def)
  moreover have "carried P (goTo n (Settled k0 t) ?r w) k" if "carried P w k"
    by (rule carried_goTo [OF that]) (use pc r in auto)
  then have "carryInv P (goTo n (Settled k0 t) ?r w) k"
    using i pc r by (intro carryInv_goTo) (auto simp: refreshInv_def)
  ultimately show ?thesis
    using i pc r window_fresh_goTo [of w k n "Settled k0 t" ?r] by (simp add: refreshInv_def isRunning_def)
qed

text \<open>A run on \<open>k\<close> and its stamp, once the worker that has the key is known.\<close>

lemma no_other_run:
  assumes "ownInv w k" "owns (fw_pc w n) = Some k" "\<not> isRunning (fw_pc w n)"
  shows "fw_pc w j = Running d \<Longrightarrow> rr_key d \<noteq> k"
  using assms sole_owner [OF assms(1,2), of j] by (auto simp: isRunning_def)

lemma suppressedSkip_effect:
  assumes L: "queueLaws Q P elapse"
  shows "inFlightKeys (suppressedSkip Q k0 t now r) = inFlightKeys r" "promotedKeys (suppressedSkip Q k0 t now r) = promotedKeys r"
    "triggerGVRByKey (suppressedSkip Q k0 t now r) = (triggerGVRByKey r)(k0 := None)"
    "P (tierQ (suppressedSkip Q k0 t now r) t') = P (tierQ r t')"
    "k \<noteq> k0 \<Longrightarrow> dirty (win (suppressedSkip Q k0 t now r)) k = dirty (win r) k"
    "dirty (win r) k0 = None \<Longrightarrow> dirty (win (suppressedSkip Q k0 t now r)) k0 = None"
    "dirty (win r) k0 \<noteq> None \<Longrightarrow> \<exists>s. dirty (win (suppressedSkip Q k0 t now r)) k0 = Some s \<and> \<not> ds_inflight s \<and>
      ds_stale s \<noteq> knownStaleNone"
proof -
  show "inFlightKeys (suppressedSkip Q k0 t now r) = inFlightKeys r" "promotedKeys (suppressedSkip Q k0 t now r) = promotedKeys r"
    "triggerGVRByKey (suppressedSkip Q k0 t now r) = (triggerGVRByKey r)(k0 := None)"
    by (auto simp: suppressedSkip_def Let_def onTier_def split: prod.split option.split)
  show "P (tierQ (suppressedSkip Q k0 t now r) t') = P (tierQ r t')"
    by (auto simp: suppressedSkip_def Let_def onTier_def queue_laws [OF L] split: prod.split option.split)
  show "k \<noteq> k0 \<Longrightarrow> dirty (win (suppressedSkip Q k0 t now r)) k = dirty (win r) k"
    by (auto simp: suppressedSkip_def Let_def onTier_def beginWindow_def window_dirty split: prod.split option.split)
  show "dirty (win r) k0 = None \<Longrightarrow> dirty (win (suppressedSkip Q k0 t now r)) k0 = None"
    by (auto simp: suppressedSkip_def Let_def onTier_def beginWindow_def split: prod.split option.split)
  show "dirty (win r) k0 \<noteq> None \<Longrightarrow> \<exists>s. dirty (win (suppressedSkip Q k0 t now r)) k0 = Some s \<and> \<not> ds_inflight s \<and>
      ds_stale s \<noteq> knownStaleNone"
    by (auto simp: suppressedSkip_def Let_def onTier_def beginWindow_def window_dirty settledStamp_def unfreshStale_def stampAt_def)
qed

lemma suppressed_inv:
  assumes L: "queueLaws Q P elapse" and i: "refreshInv P w k" and pc: "fw_pc w n = Held k0 t"
  shows "refreshInv P (goTo n (Settled k0 t) (suppressedSkip Q k0 t now (fw_r w)) w) k"
proof -
  let ?r = "suppressedSkip Q k0 t now (fw_r w)"
  let ?w = "goTo n (Settled k0 t) ?r w"
  note e = suppressedSkip_effect [OF L]
  show ?thesis
  proof (cases "k = k0")
    case False
    then show ?thesis
      using pc e by (intro sameFor_inv [OF _ i]) (auto simp: sameFor_def intro!: pcSame_other)
  next
    case True
    have inv: "ownInv w k" "carryInv P w k" "windowInv w k" "freshInv w k" using i by (simp_all add: refreshInv_def)
    have run: "rr_key d \<noteq> k" if "fw_pc w j = Running d" for j d
      using no_other_run [OF inv(1), of n] pc True that by (simp add: isRunning_def)
    have run': "rr_key d \<noteq> k" if "((fw_pc w)(n := Settled k0 t)) j = Running d" for j d
      using run that by (auto split: if_splits)
    have "ownInv ?w k" using inv(1) pc e(1) by (intro ownInv_goTo) auto
    moreover have "carryInv P ?w k"
      using inv(2) pc e True by (intro carryInv_goTo) auto
    moreover have "windowInv ?w k"
    proof -
      have "\<not> ds_inflight s" if "dirty (win ?r) k = Some s" for s
        using e(6,7) [of "fw_r w" k0 t now] that True by (cases "dirty (win (fw_r w)) k0") auto
      moreover have "dirty (win ?r) k \<noteq> None \<Longrightarrow> dirty (win (fw_r w)) k \<noteq> None" using e(6) True by metis
      ultimately show ?thesis using inv(3) run' unfolding windowInv_def goTo_fields by blast
    qed
    moreover have "freshInv ?w k"
    proof (cases "dirty (win (fw_r w)) k")
      case None
      then have "\<not> staleKnown w k" "\<not> markPending w k" "\<not> reresolving w k"
        by (simp_all add: staleKnown_def markPending_def reresolving_def)
      then show ?thesis using inv(4) unfolding freshInv_def goTo_fields by blast
    next
      case (Some s)
      then have "staleKnown ?w k" using e(7) [of "fw_r w" k0] True by (auto simp: staleKnown_def)
      then show ?thesis by (simp add: freshInv_def)
    qed
    ultimately show ?thesis by (simp add: refreshInv_def)
  qed
qed

section \<open>The re-resolve begins\<close>

lemma beginRun_effect:
  assumes "beginRun k0 t had now r = (d, r')"
  shows "rr_key d = k0" "rr_had d = had" "rr_triggers d = (case triggerGVRByKey r k0 of None \<Rightarrow> [] | Some gs \<Rightarrow> gs)"
    "rr_t0 d = map_option ds_t0 (dirty (win r) k0)" "\<not> ro_accepted (rr_outcome d)" "\<not> ro_refused (rr_outcome d)"
    "rr_start d = None" "inFlightKeys r' = inFlightKeys r" "tierQ r' = tierQ r" "triggerGVRByKey r' = (triggerGVRByKey r)(k0 := None)"
    "promotedKeys r' = (if t = tierViewed then promotedKeys r else (promotedKeys r)(k0 := None))"
    "dirty (win r') k = (if k = k0 then map_option (\<lambda>s. s\<lparr>ds_inflight := True, ds_began := Some now\<rparr>) (dirty (win r) k0)
      else dirty (win r) k)"
  using assms by (auto simp: beginRun_def takeTriggers_def beginWindow_def split: option.splits)

lemma begin_inv:
  assumes i: "refreshInv P w k" and pc: "fw_pc w n = Held k0 t"
    and b: "beginRun k0 t (fw_cells w k0 \<noteq> None) now (fw_r w) = (d, r)"
  shows "refreshInv P (goTo n (Running d) r w) k"
proof -
  let ?w = "goTo n (Running d) r w"
  note e = beginRun_effect [OF b]
  show ?thesis
  proof (cases "k = k0")
    case False
    then show ?thesis
      using pc e by (intro sameFor_inv [OF _ i]) (auto simp: sameFor_def intro!: pcSame_other)
  next
    case True
    have inv: "ownInv w k" "carryInv P w k" "windowInv w k" "freshInv w k" using i by (simp_all add: refreshInv_def)
    have run: "rr_key d' \<noteq> k" if "fw_pc w j = Running d'" for j d'
      using no_other_run [OF inv(1), of n] pc True that by (simp add: isRunning_def)
    have idle: "\<not> ds_inflight s" if "dirty (win (fw_r w)) k = Some s" for s
      using inv(3) that run unfolding windowInv_def by blast
    have "ownInv ?w k" using inv(1) pc e(1,8) True by (intro ownInv_goTo) auto
    moreover have "carryInv P ?w k"
      using inv(2) pc e True by (intro carryInv_goTo) (auto split: if_splits)
    moreover have "windowInv ?w k"
    proof -
      have "runsStamp ?w s d" if "dirty (win r) k = Some s" for s
        using that e(2,4,5,6,7,12) True inv(3) by (auto simp: runsStamp_def windowInv_def)
      moreover have "rr_t0 d' = None" if "((fw_pc w)(n := Running d)) j = Running d'" "rr_key d' = k" "\<not> rr_had d'" for j d'
        using that run e(2,4) True inv(3) unfolding windowInv_def by (auto split: if_splits)
      moreover have "triggerGVRByKey r k = None" using e(10) True by simp
      moreover have "dirty (win r) k \<noteq> None \<Longrightarrow> fw_cells w k \<noteq> None" using e(12) True inv(3) by (auto simp: windowInv_def)
      ultimately show ?thesis using e(1) True unfolding windowInv_def goTo_fields by (metis fun_upd_same)
    qed
    moreover have "freshInv ?w k"
    proof -
      have "staleKnown ?w k" if "staleKnown w k" using that e(12) True by (auto simp: staleKnown_def)
      moreover have "reresolving ?w k" if "markPending w k"
      proof -
        obtain gs s where "triggerGVRByKey (fw_r w) k = Some gs" "dirty (win (fw_r w)) k = Some s"
          using \<open>markPending w k\<close> by (auto simp: markPending_def)
        moreover from this have "gs \<noteq> []" using inv(2) by (auto simp: carryInv_def)
        ultimately show ?thesis
          using e(1,3,5,12) True unfolding reresolving_def goTo_fields by (auto intro!: exI [of _ n])
      qed
      moreover have "\<not> reresolving w k" using run unfolding reresolving_def by blast
      ultimately show ?thesis using inv(4) unfolding freshInv_def goTo_fields by blast
    qed
    ultimately show ?thesis by (simp add: refreshInv_def)
  qed
qed

section \<open>The re-resolve runs\<close>

lemma rerun_inv:
  assumes i: "refreshInv P w k" and pc: "fw_pc w n = Running d"
    and same: "rr_key d' = rr_key d" "rr_had d' = rr_had d" "rr_t0 d' = rr_t0 d" "rr_triggers d' = rr_triggers d"
    and stamp: "\<And>s. rr_key d = k \<Longrightarrow> dirty (win (fw_r w)) k = Some s \<Longrightarrow> ds_inflight s \<Longrightarrow> runsStamp w s d \<Longrightarrow> runsStamp w s d'"
    and fresh: "rr_key d = k \<Longrightarrow> ro_accepted (rr_outcome d') \<Longrightarrow> ro_accepted (rr_outcome d) \<or>
      (\<exists>gs. (k, gs) \<in> set (fw_marks w)) \<or> (\<forall>b. fw_cells w k = Some b \<longrightarrow> \<not> b < fw_last w k)"
  shows "refreshInv P (goTo n (Running d') (fw_r w) w) k"
proof (cases "rr_key d = k")
  case False
  then show ?thesis
    using pc same by (intro sameFor_inv [OF _ i]) (auto simp: sameFor_def intro!: pcSame_other)
next
  case True
  let ?w = "goTo n (Running d') (fw_r w) w"
  have inv: "ownInv w k" "carryInv P w k" "windowInv w k" "freshInv w k" using i by (simp_all add: refreshInv_def)
  have only: "j = n" if "fw_pc w j = Running d2" "rr_key d2 = k" for j d2
    using sole_owner [OF inv(1), of n j] pc True that by simp
  have "ownInv ?w k" using inv(1) pc same True by (intro ownInv_goTo) auto
  moreover have "carried P ?w k" if "carried P w k" by (rule carried_goTo [OF that]) (use pc in auto)
  then have "carryInv P ?w k" using inv(2) pc by (intro carryInv_goTo) auto
  moreover have "windowInv ?w k"
  proof -
    have "\<exists>j d2. ((fw_pc w)(n := Running d')) j = Running d2 \<and> rr_key d2 = k \<and> runsStamp ?w s d2"
      if s: "dirty (win (fw_r w)) k = Some s" "ds_inflight s" for s
    proof -
      obtain j d2 where j: "fw_pc w j = Running d2" "rr_key d2 = k" "runsStamp w s d2"
        using inv(3) s unfolding windowInv_def by blast
      then have "d2 = d" using only pc by auto
      then have "runsStamp ?w s d'" using stamp [OF True s] j by (simp add: runsStamp_def)
      then show ?thesis using same True by (intro exI [of _ n]) auto
    qed
    moreover have "rr_t0 d2 = None" if "((fw_pc w)(n := Running d')) j = Running d2" "rr_key d2 = k" "\<not> rr_had d2" for j d2
      using that inv(3) pc same True unfolding windowInv_def by (auto split: if_splits)
    ultimately show ?thesis using inv(3) unfolding windowInv_def goTo_fields by blast
  qed
  moreover have "freshInv ?w k"
  proof -
    have "reresolving ?w k" if "reresolving w k" "\<not> ro_accepted (rr_outcome d')"
    proof -
      obtain s j d2 where j: "dirty (win (fw_r w)) k = Some s" "ds_inflight s" "fw_pc w j = Running d2" "rr_key d2 = k"
        "rr_triggers d2 \<noteq> []" using \<open>reresolving w k\<close> unfolding reresolving_def by blast
      then have "d2 = d" using only pc by auto
      then show ?thesis using j \<open>\<not> ro_accepted (rr_outcome d')\<close> same unfolding reresolving_def goTo_fields
        by (intro exI [of _ s] exI [of _ n] exI [of _ d']) auto
    qed
    moreover have "\<not> reresolving w k" if "ro_accepted (rr_outcome d)"
      using that only pc unfolding reresolving_def by (metis refreshPc.inject(4))
    moreover have "staleKnown ?w k = staleKnown w k" "markPending ?w k = markPending w k"
      by (simp_all add: staleKnown_def markPending_def)
    ultimately show ?thesis using inv(4) fresh [OF True] unfolding freshInv_def goTo_fields by blast
  qed
  ultimately show ?thesis by (simp add: refreshInv_def)
qed

lemma enter_inv:
  assumes "refreshInv P w k" "fw_pc w n = Running d"
  shows "refreshInv P (goTo n (Running (enterRun w d)) (fw_r w) w) k"
  by (rule rerun_inv [OF assms]) (auto simp: enterRun_def runsStamp_def)

lemma refuse_inv:
  assumes "refreshInv P w k" "fw_pc w n = Running d" "rr_start d = Some (start, gen)"
    and "fw_cells w (rr_key d) = None \<or> fw_gen w (rr_key d) \<noteq> gen"
  shows "refreshInv P (goTo n (Running (refuseRun d)) (fw_r w) w) k"
proof (rule rerun_inv [OF assms(1,2)])
  fix s assume s: "rr_key d = k" "dirty (win (fw_r w)) k = Some s" "runsStamp w s d"
  have "fw_cells w k \<noteq> None" using assms(1) s unfolding refreshInv_def windowInv_def by simp
  moreover have "fw_gen w k = gen" using s assms(3) by (simp add: runsStamp_def)
  ultimately show "runsStamp w s (refuseRun d)" using assms(4) s(1) by simp
qed (simp_all add: refuseRun_def)

lemma acceptPut_goTo: "acceptPut k st gs (goTo n pc (fw_r w) w) = goTo n pc (fw_r (acceptPut k st gs w)) (acceptPut k st gs w)"
  by (cases w) (auto simp: acceptPut_def goTo_def Let_def split: prod.split option.split)

lemma accept_inv:
  assumes i: "refreshInv P w k" and k: "k \<noteq> []" and pc: "fw_pc w n = Running d"
    and st: "rr_start d = Some (start, gen)" "gs \<noteq> []"
  shows "refreshInv P (acceptPut (rr_key d) start gs (goTo n (Running (acceptRun start w d)) (fw_r w) w)) k"
proof -
  let ?w = "acceptPut (rr_key d) start gs w"
  have p: "refreshInv P ?w k" by (rule put_inv [OF i st(2)])
  have "refreshInv P (goTo n (Running (acceptRun start w d)) (fw_r ?w) ?w) k"
  proof (rule rerun_inv [OF p])
    show "fw_pc ?w n = Running d" using pc by (simp add: acceptPut_fields)
    fix s assume s: "rr_key d = k" "dirty (win (fw_r ?w)) k = Some s" "runsStamp ?w s d"
    have "ds_stale s = knownStaleNone"
      using endKnownStaleOnPut_ends [OF k] s(1,2) unfolding acceptPut_fields by blast
    then show "runsStamp ?w s (acceptRun start w d)" using s(3) by (simp add: runsStamp_def acceptRun_def)
  next
    assume "rr_key d = k"
    then show "ro_accepted (rr_outcome d) \<or> (\<exists>gs. (k, gs) \<in> set (fw_marks ?w)) \<or> (\<forall>b. fw_cells ?w k = Some b \<longrightarrow> \<not> b < fw_last ?w k)"
      using acceptPut_marks(3) [of start w k gs] by (auto simp: acceptPut_fields)
  qed (simp_all add: acceptRun_def)
  then show ?thesis by (simp add: acceptPut_goTo)
qed

section \<open>The re-resolve ends\<close>

text \<open>What a settle makes of the stamp.\<close>

definition settlesTo :: "nat option \<Rightarrow> windowKeep \<Rightarrow> knownStaleReason \<Rightarrow> dirtyStamp option \<Rightarrow> dirtyStamp option" where
  "settlesTo t0 keep ks st = (case st of None \<Rightarrow> None
     | Some s \<Rightarrow> if ds_inflight s \<and> t0 = Some (ds_t0 s) then settledStamp (ds_t0 s) keep ks s else Some s)"

definition keepOf :: "refreshErr option \<Rightarrow> bool \<Rightarrow> refreshRun \<Rightarrow> windowKeep" where
  "keepOf err final d = (case err of
       None \<Rightarrow> if rr_had d \<and> ro_accepted (rr_outcome d) \<and> ro_remarked (rr_outcome d) then windowKeepAccepted else windowEnd
     | Some e \<Rightarrow> if final then windowEnd else windowKeepFailed)"

definition staleOf :: "refreshErr option \<Rightarrow> bool \<Rightarrow> refreshRun \<Rightarrow> knownStaleReason" where
  "staleOf err final d = (case err of
       None \<Rightarrow> if rr_had d \<and> \<not> ro_accepted (rr_outcome d) \<and> \<not> ro_refused (rr_outcome d) then knownStaleDeclined else knownStaleNone
     | Some e \<Rightarrow> if \<not> final \<or> e = ErrSelfObjectGone then knownStaleNone
                 else if e = ErrContentNotServable then knownStaleNotServable else knownStaleDropped)"

lemma settleDequeue_dirty:
  "dirty (settleDequeue (rr_key d) t0 (rr_had d) (rr_outcome d) now w) k =
     (if k = rr_key d then settlesTo (Some t0) (keepOf None f d) (staleOf None f d) (dirty w k) else dirty w k)"
  by (auto simp: settleDequeue_def window_dirty settlesTo_def keepOf_def staleOf_def unfreshStale_def split: option.split)

lemma dropWindow_settles:
  "dirty (dropWindow k t0 e w) = dirty (snd (settleWindow k t0 windowEnd (if e = ErrSelfObjectGone then knownStaleNone
     else if e = ErrContentNotServable then knownStaleNotServable else knownStaleDropped) w))"
  by (cases e) (simp_all add: dropWindow_def windowUnfresh_dirty unfreshStale_def split: prod.split)

lemma dropWindow_dirty:
  "dirty (dropWindow (rr_key d) t0 e w) k =
     (if k = rr_key d then settlesTo (Some t0) (keepOf (Some e) True d) (staleOf (Some e) True d) (dirty w k) else dirty w k)"
  by (auto simp: dropWindow_settles settleWindow_dirty settlesTo_def keepOf_def staleOf_def split: option.split)

lemma windowContinue_settles:
  "dirty (windowContinue (rr_key d) t0 w) k =
     (if k = rr_key d then settlesTo (Some t0) (keepOf (Some e) False d) (staleOf (Some e) False d) (dirty w k) else dirty w k)"
  by (auto simp: window_dirty settlesTo_def keepOf_def staleOf_def split: option.split)

lemma merges_onWin: "mergeTriggers key gs (onWin f r) = onWin f (mergeTriggers key gs r)"
proof -
  have "mergeTriggerGVR key g (onWin f r) = onWin f (mergeTriggerGVR key g r)" for g and r :: "'a refresher"
    by (simp add: mergeTriggerGVR_def onWin_def Let_def)
  then show ?thesis by (induction gs arbitrary: r) (simp_all add: mergeTriggers_def)
qed

lemma win_onWin [simp]: "win (onWin f r) = f (win r)" "triggerGVRByKey (onWin f r) = triggerGVRByKey r"
  "promotedKeys (onWin f r) = promotedKeys r" "inFlightKeys (onWin f r) = inFlightKeys r" "tierQ (onWin f r) = tierQ r"
  by (simp_all add: onWin_def)

lemma settlesTo_None: "settlesTo None keep ks st = st"
  by (simp add: settlesTo_def split: option.split)

text \<open>The tail of the dequeue: what it leaves of the window, the triggers and the queues.\<close>

lemma settleRun_effect:
  assumes L: "queueLaws Q P elapse" and s: "settleRun Q err nonRetryable now d r = (evict, r')"
  obtains final where
    "\<And>k. dirty (win r') k = (if k = rr_key d then settlesTo (rr_t0 d) (keepOf err final d) (staleOf err final d) (dirty (win r) k)
      else dirty (win r) k)"
    "promotedKeys r' = promotedKeys r" "inFlightKeys r' = inFlightKeys r" "\<And>t. P (tierQ r t) \<subseteq> P (tierQ r' t)"
    "\<And>k. k \<noteq> rr_key d \<Longrightarrow> triggerGVRByKey r' k = triggerGVRByKey r k"
    "evict \<longleftrightarrow> err = Some ErrSelfObjectGone \<and> final"
    "triggerGVRByKey r' = triggerGVRByKey r \<and> (err = None \<or> final) \<or>
       triggerGVRByKey r' = triggerGVRByKey (mergeTriggers (rr_key d) (rr_triggers d) r) \<and> err \<noteq> None \<and> \<not> final \<and>
       rr_key d \<in> P (tierQ r' (rr_tier d))"
proof (cases err)
  case None
  show ?thesis
    by (rule that [of False])
      (use s None in \<open>auto simp: settleRun_def Let_def onOpenWindow_def onWin_def onTier_def settleDequeue_dirty [where f = False]
          settlesTo_None queue_laws [OF L] split: option.splits\<close>)
next
  case (Some e)
  show ?thesis
  proof (cases "drops Q nonRetryable d r")
    case True
    show ?thesis
      by (rule that [of True])
        (use s Some True in \<open>auto simp: settleRun_def Let_def onOpenWindow_def onWin_def onTier_def dropWindow_dirty
            settlesTo_None queue_laws [OF L] split: option.splits\<close>)
  next
    case False
    have m: "triggerGVRByKey (mergeTriggers key gs (onWin f r)) = triggerGVRByKey (mergeTriggers key gs r)" for key gs f
      by (simp add: merges_onWin)
    show ?thesis
      by (rule that [of False])
        (use s Some False in \<open>auto simp: settleRun_def Let_def onOpenWindow_def onTier_def windowContinue_settles [where e = e] m
            settlesTo_None queue_laws [OF L] split: option.splits\<close>)
  qed
qed

lemma evict_own:
  assumes "ownInv w k" "carryInv P w k" "windowInv w k"
  shows "refreshInv P (evictCell k w) k"
  using assms by (auto simp: evictCell_def onWin_def clearSuppressed_def evictDirtyWindow_dirty refreshInv_def ownInv_def
      carryInv_def carried_def windowInv_def freshInv_def)

text \<open>The stamp a run settles on its own key.\<close>

lemma settled_own:
  assumes inv: "refreshInv P w k" and pc: "fw_pc w n = Running d" "rr_key d = k" and had: "rr_had d \<or> err = None"
    and st: "dirty (win (fw_r w)) k = Some s" and st': "st' = settlesTo (rr_t0 d) (keepOf err final d) (staleOf err final d) (Some s)"
  shows "st' = Some s' \<Longrightarrow> \<not> ds_inflight s'"
    "ds_stale s \<noteq> knownStaleNone \<Longrightarrow> \<not> (final \<and> err = Some ErrSelfObjectGone) \<Longrightarrow> \<exists>s'. st' = Some s' \<and> ds_stale s' \<noteq> knownStaleNone"
    "triggerGVRByKey (fw_r w) k \<noteq> None \<Longrightarrow> st' \<noteq> None"
    "reresolving w k \<Longrightarrow> err = None \<or> final \<and> err \<noteq> Some ErrSelfObjectGone \<Longrightarrow>
       \<exists>s'. st' = Some s' \<and> ds_stale s' \<noteq> knownStaleNone"
    "reresolving w k \<Longrightarrow> rr_triggers d \<noteq> [] \<and> (err \<noteq> None \<and> \<not> final \<longrightarrow> st' \<noteq> None)"
proof -
  have own: "ownInv w k" "windowInv w k" using inv by (simp_all add: refreshInv_def)
  have only: "d2 = d" if "fw_pc w j = Running d2" "rr_key d2 = k" for j d2
    using sole_owner [OF own(1), of n j] pc that by simp
  have run: "runsStamp w s d" "triggerGVRByKey (fw_r w) k \<noteq> None \<Longrightarrow> ds_next s \<noteq> None" if "ds_inflight s"
    using own(2) st that only unfolding windowInv_def by blast+
  have settled: "st' = settledStamp (ds_t0 s) (keepOf err final d) (staleOf err final d) s" if "ds_inflight s"
    using st' run(1) [OF that] that by (simp add: settlesTo_def runsStamp_def)
  have kept: "st' = Some s" if "\<not> ds_inflight s" using st' that by (simp add: settlesTo_def)
  have re: "ds_inflight s \<and> \<not> ro_accepted (rr_outcome d) \<and> rr_triggers d \<noteq> []" if "reresolving w k"
    using that only st unfolding reresolving_def by auto
  show "\<not> ds_inflight s'" if "st' = Some s'"
    using that kept settled settledStamp_at_rest by (cases "ds_inflight s") auto
  show "\<exists>s'. st' = Some s' \<and> ds_stale s' \<noteq> knownStaleNone" if "ds_stale s \<noteq> knownStaleNone" "\<not> (final \<and> err = Some ErrSelfObjectGone)"
    using kept settled run that had by (cases "ds_inflight s"; cases err)
      (auto simp: runsStamp_def settledStamp_def keepOf_def staleOf_def stampAt_def split: option.splits)
  show "st' \<noteq> None" if "triggerGVRByKey (fw_r w) k \<noteq> None"
    using kept settled run that by (cases "ds_inflight s") (auto simp: settledStamp_def)
  show "\<exists>s'. st' = Some s' \<and> ds_stale s' \<noteq> knownStaleNone"
    if "reresolving w k" "err = None \<or> final \<and> err \<noteq> Some ErrSelfObjectGone"
    using re [OF that(1)] settled run that(2)
    by (auto simp: runsStamp_def settledStamp_def keepOf_def staleOf_def stampAt_def split: option.splits)
  show "rr_triggers d \<noteq> [] \<and> (err \<noteq> None \<and> \<not> final \<longrightarrow> st' \<noteq> None)" if "reresolving w k"
    using re [OF that] settled by (auto simp: settledStamp_def keepOf_def)
qed

lemma settle_inv:
  assumes L: "queueLaws Q P elapse" and i: "refreshInv P w k" and k: "k \<noteq> []" and pc: "fw_pc w n = Running d"
    and had: "rr_had d \<or> err = None"
  shows "refreshInv P (settleWorld Q n err nonRetryable d w) k"
proof -
  obtain ev r where s: "settleRun Q err nonRetryable (fw_now w) d (fw_r w) = (ev, r)" by fastforce
  obtain final where e:
    "\<And>k. dirty (win r) k = (if k = rr_key d then settlesTo (rr_t0 d) (keepOf err final d) (staleOf err final d) (dirty (win (fw_r w)) k)
      else dirty (win (fw_r w)) k)"
    "promotedKeys r = promotedKeys (fw_r w)" "inFlightKeys r = inFlightKeys (fw_r w)" "\<And>t. P (tierQ (fw_r w) t) \<subseteq> P (tierQ r t)"
    "\<And>k. k \<noteq> rr_key d \<Longrightarrow> triggerGVRByKey r k = triggerGVRByKey (fw_r w) k"
    "ev \<longleftrightarrow> err = Some ErrSelfObjectGone \<and> final"
    "triggerGVRByKey r = triggerGVRByKey (fw_r w) \<and> (err = None \<or> final) \<or>
       triggerGVRByKey r = triggerGVRByKey (mergeTriggers (rr_key d) (rr_triggers d) (fw_r w)) \<and> err \<noteq> None \<and> \<not> final \<and>
       rr_key d \<in> P (tierQ r (rr_tier d))"
    by (rule settleRun_effect [OF L s], rule that)
  let ?w = "goTo n (Settled (rr_key d) (rr_tier d)) r w"
  have sw: "settleWorld Q n err nonRetryable d w = (if ev then evictCell (rr_key d) ?w else ?w)"
    by (simp add: settleWorld_def s Let_def)
  show ?thesis
  proof (cases "rr_key d = k")
    case False
    have "refreshInv P ?w k"
      using False pc e by (intro sameFor_inv [OF _ i]) (auto simp: sameFor_def intro!: pcSame_other)
    then show ?thesis unfolding sw by (simp add: evict_inv)
  next
    case True
    have inv: "ownInv w k" "carryInv P w k" "windowInv w k" "freshInv w k" using i by (simp_all add: refreshInv_def)
    have run: "rr_key d2 \<noteq> k" if "((fw_pc w)(n := Settled (rr_key d) (rr_tier d))) j = Running d2" for j d2
      using sole_owner [OF inv(1), of n j] pc True that by (auto split: if_splits)
    note own = settled_own [OF i pc True had]
    have none: "dirty (win r) k = None" if "dirty (win (fw_r w)) k = None" using e(1) [of k] that by (auto simp: settlesTo_def split: if_splits)
    have some: "dirty (win r) k = settlesTo (rr_t0 d) (keepOf err final d) (staleOf err final d) (Some st)"
      if "dirty (win (fw_r w)) k = Some st" for st using e(1) [of k] True that by simp
    have own': "ownInv ?w k" using inv(1) pc e(3) True by (intro ownInv_goTo) auto
    have carry': "carryInv P ?w k"
    proof (cases "triggerGVRByKey r = triggerGVRByKey (fw_r w)")
      case same: True
      have "carried P ?w k" if "carried P w k" by (rule carried_goTo [OF that]) (use pc e(3,4) in auto)
      then show ?thesis using inv(2) pc e(2,4) same by (intro carryInv_goTo) auto
    next
      case False
      then have m: "triggerGVRByKey r k = triggerGVRByKey (mergeTriggers k (rr_triggers d) (fw_r w)) k"
          "k \<in> P (tierQ r (rr_tier d))" using e(7) True by auto
      moreover have "triggerGVRByKey r k \<noteq> Some []" using m(1) merges_own(2) [OF k] inv(2) by (auto simp: carryInv_def)
      moreover have "carried P ?w k" using m(2) by (auto simp: carried_def)
      moreover have "k \<in> P (tierQ r tierViewed) \<or> (\<exists>j. ((fw_pc w)(n := Settled (rr_key d) (rr_tier d))) j = Popped k tierViewed)"
        if pend: "promotedKeys (fw_r w) k = Some promotedViewedPending"
      proof -
        consider "k \<in> P (tierQ (fw_r w) tierViewed)" | j where "fw_pc w j = Popped k tierViewed"
          using inv(2) pend unfolding carryInv_def by blast
        then show ?thesis
        proof cases
          case 1
          then show ?thesis using e(4) by blast
        next
          case (2 j)
          then show ?thesis using pc by (intro disjI2 exI [of _ j]) auto
        qed
      qed
      ultimately show ?thesis using inv(2) e(2) unfolding carryInv_def goTo_fields by auto
    qed
    have window': "windowInv ?w k"
    proof -
      have "\<not> ds_inflight st" if st: "dirty (win r) k = Some st" for st
      proof (cases "dirty (win (fw_r w)) k")
        case None
        then show ?thesis using none st by simp
      next
        case (Some s0)
        have "settlesTo (rr_t0 d) (keepOf err final d) (staleOf err final d) (Some s0) = Some st"
          using some [OF Some] st by simp
        then show ?thesis by (rule own(1) [OF Some refl])
      qed
      moreover have "dirty (win r) k \<noteq> None \<Longrightarrow> fw_cells w k \<noteq> None" using none inv(3) by (auto simp: windowInv_def)
      ultimately show ?thesis using run unfolding windowInv_def goTo_fields by blast
    qed
    show ?thesis
    proof (cases ev)
      case evicted: True
      then show ?thesis using evict_own [OF own' carry' window'] True by (simp add: sw)
    next
      case False
      have "freshInv ?w k"
      proof (cases "dirty (win (fw_r w)) k")
        case None
        then have "\<not> staleKnown w k" "\<not> markPending w k" "\<not> reresolving w k"
          by (simp_all add: staleKnown_def markPending_def reresolving_def)
        then show ?thesis using inv(4) unfolding freshInv_def goTo_fields by blast
      next
        case (Some st)
        note own = own [OF Some refl, of final] and some = some [OF Some]
        have kept: "triggerGVRByKey r k \<noteq> None" if "triggerGVRByKey (fw_r w) k \<noteq> None"
          using e(7) that merges_own(1) [OF k] True by metis
        have "staleKnown ?w k" if "staleKnown w k"
          using own(2) some that Some False e(6) by (auto simp: staleKnown_def)
        moreover have "markPending ?w k" if "markPending w k"
          using own(3) some that kept by (auto simp: markPending_def)
        moreover have "staleKnown ?w k \<or> markPending ?w k" if "reresolving w k"
        proof (cases "err = None \<or> final")
          case True
          then show ?thesis using own(4) that some False e(6) by (auto simp: staleKnown_def)
        next
          case notfinal: False
          then have "triggerGVRByKey r k \<noteq> None"
            using e(7) own(5) [OF that] merges_own(1) [OF k] True by metis
          then show ?thesis using own(5) [OF that] notfinal some by (auto simp: markPending_def)
        qed
        ultimately show ?thesis using inv(4) unfolding freshInv_def goTo_fields by blast
      qed
      then show ?thesis using own' carry' window' False by (simp add: sw refreshInv_def)
    qed
  qed
qed

section \<open>A worker lets the key go\<close>

lemma releaseInFlight_effect:
  assumes L: "queueLaws Q P elapse" and k: "k0 \<noteq> []"
  shows "win (releaseInFlight Q armed k0 r) = win r" "triggerGVRByKey (releaseInFlight Q armed k0 r) = triggerGVRByKey r"
    "promotedKeys (releaseInFlight Q armed k0 r) = promotedKeys r"
    "inFlightKeys (releaseInFlight Q armed k0 r) = (inFlightKeys r)(k0 := None)"
    "P (tierQ r t) \<subseteq> P (tierQ (releaseInFlight Q armed k0 r) t)"
    "inFlightKeys r k0 = Some True \<Longrightarrow> \<exists>t. k0 \<in> P (tierQ (releaseInFlight Q armed k0 r) t)"
proof -
  let ?r = "r\<lparr>inFlightKeys := (inFlightKeys r)(k0 := None)\<rparr>"
  have q: "keeps P ?r (releaseInFlight Q armed k0 r)"
    using keeps_enqueue(4) [OF L, of ?r armed k0] by (simp add: releaseInFlight_def Let_def)
  then show "win (releaseInFlight Q armed k0 r) = win r" "triggerGVRByKey (releaseInFlight Q armed k0 r) = triggerGVRByKey r"
    "promotedKeys (releaseInFlight Q armed k0 r) = promotedKeys r"
    "inFlightKeys (releaseInFlight Q armed k0 r) = (inFlightKeys r)(k0 := None)"
    "P (tierQ r t) \<subseteq> P (tierQ (releaseInFlight Q armed k0 r) t)" by (simp_all add: keeps_def)
  show "\<exists>t. k0 \<in> P (tierQ (releaseInFlight Q armed k0 r) t)" if "inFlightKeys r k0 = Some True"
    using that route_waits(1) [OF L k] by (simp add: releaseInFlight_def Let_def)
qed

lemma release_inv:
  assumes L: "queueLaws Q P elapse" and i: "refreshInv P w k" and k: "k \<noteq> []" and pc: "fw_pc w n = Noted k0 t"
  shows "refreshInv P (goTo n (Leaving k0 t) (releaseInFlight Q armed k0 (fw_r w)) w) k"
proof (cases "k0 = k")
  case False
  have "keeps P ((fw_r w)\<lparr>inFlightKeys := (inFlightKeys (fw_r w))(k0 := None)\<rparr>) (releaseInFlight Q armed k0 (fw_r w))"
    using keeps_enqueue(4) [OF L] by (simp add: releaseInFlight_def Let_def)
  then show ?thesis
    using False pc by (intro sameFor_inv [OF _ i]) (auto simp: sameFor_def keeps_def intro!: pcSame_other)
next
  case True
  let ?r = "releaseInFlight Q armed k0 (fw_r w)"
  let ?w = "goTo n (Leaving k0 t) ?r w"
  have "k0 \<noteq> []" using k True by simp
  note e = releaseInFlight_effect [OF L this, where armed = armed and r = "fw_r w"]
  have inv: "ownInv w k" "carryInv P w k" "windowInv w k" "freshInv w k" using i by (simp_all add: refreshInv_def)
  have "owns (((fw_pc w)(n := Leaving k0 t)) j) \<noteq> Some k" for j
    using sole_owner [OF inv(1), of n j] pc True by auto
  then have "ownInv ?w k" using e(4) True by (simp add: ownInv_def)
  moreover have "carried P ?w k" if "carried P w k"
    by (rule carried_goTo [OF that]) (use pc e True in auto)
  then have "carryInv P ?w k" using inv(2) pc e by (intro carryInv_goTo) auto
  ultimately show ?thesis
    using inv pc e window_fresh_goTo [of w k n "Leaving k0 t" ?r] by (simp add: refreshInv_def isRunning_def)
qed

section \<open>Every step keeps the invariant\<close>

lemma newWorld_inv:
  assumes "queueLaws Q P elapse"
  shows "refreshInv P (newWorld Q n) k"
  using queue_laws(1) [OF assms]
  by (simp add: refreshInv_def ownInv_def carryInv_def carried_def windowInv_def freshInv_def newWorld_def newRefresher_def)

lemma refreshStep_inv:
  assumes L: "queueLaws Q P elapse" and i: "refreshInv P w k" and k: "validKey k" and step: "refreshStep Q elapse w w'"
  shows "refreshInv P w' k"
  using step
proof cases
  case (disarm k0)
  then show ?thesis by (simp add: sameFor_inv [OF _ i] sameFor_def)
next
  case ticking
  then show ?thesis by (simp add: sameFor_inv [OF _ i] sameFor_def)
next
  case (noting n k0 t)
  then show ?thesis
    using keeps_inv [OF keeps_rest(4) [OF L] _ i, of n "Noted k0 t"] by (simp add: pcSame_def)
next
  case (leave n k0 t)
  then show ?thesis
    using keeps_inv [OF keeps_rest(2) [OF L] _ i, of n Idle] by (simp add: pcSame_def)
next
  case (skip n k0 t r)
  have "keeps P r (onTier t (wq_forget Q k0) r)" by (rule keeps_queue(2) [OF L])
  then show ?thesis using popped_inv [OF L i skip(2,3)] skip(1) by simp
next
  case (admit n k0 t r)
  then show ?thesis using popped_inv [OF L i admit(2,3) keeps_refl] by simp
next
  case (stepAside n k0 t r)
  then show ?thesis using claim_inv [OF i stepAside(2,3)] by simp
next
  case (claim n k0 t r)
  then show ?thesis using claim_inv [OF i claim(2,3)] by simp
next
  case (starting n k0 t d r)
  then show ?thesis using begin_inv [OF i] by blast
next
  case (decline k0 permanent)
  show ?thesis unfolding decline by (rule keeps_inv_withR [OF _ i]) (rule keeps_rest(5) [OF L])
next
  case (revalidate k0)
  show ?thesis unfolding revalidate by (rule keeps_inv_withR [OF _ i]) (rule keeps_rest(3) [OF L])
next
  case (proactive k0)
  show ?thesis unfolding proactive by (rule keeps_inv_withR [OF _ i]) (rule keeps_enqueue(1) [OF L])
next
  case (listing k0)
  show ?thesis unfolding listing by (rule keeps_inv_withR [OF _ i]) (rule keeps_rest(7) [OF L])
next
  case (elapse t)
  show ?thesis unfolding elapse by (rule keeps_inv_withR [OF _ i]) (rule keeps_queue(5) [OF L])
next
  case wake
  show ?thesis unfolding wake by (rule keeps_inv_withR [OF _ i]) (rule keeps_queue(6) [OF L])
next
  case (eventful ks g)
  then show ?thesis using k by (auto simp: validKey_def intro: event_inv [OF i])
next
  case (marking k0 gs)
  then show ?thesis using k by (auto simp: validKey_def intro: mark_inv [OF L _ i])
next
  case (arming k0)
  then show ?thesis using k by (auto simp: validKey_def intro: arm_inv [OF L i])
next
  case (writing start gs k0)
  then show ?thesis using k by (auto simp: validKey_def intro: put_inv [OF i])
next
  case (evict k0)
  then show ?thesis using k by (auto simp: validKey_def intro: evict_inv [OF i])
next
  case (pop n k0 t r)
  then show ?thesis using k by (auto simp: validKey_def intro: pop_inv [OF L i])
next
  case (awake n r)
  then show ?thesis using k by (auto simp: validKey_def intro: awake_inv [OF L i])
next
  case (suppressed n k0 t)
  then show ?thesis using k by (auto simp: validKey_def intro: suppressed_inv [OF L i])
next
  case (floored n k0 t remaining)
  then show ?thesis using k by (auto simp: validKey_def intro: floor_inv [OF L i])
next
  case (enter n d)
  then show ?thesis using k by (auto simp: validKey_def intro: enter_inv [OF i])
next
  case (accept n d start gen gs)
  then show ?thesis using k by (auto simp: validKey_def intro: accept_inv [OF i])
next
  case (refuse n d start gen)
  then show ?thesis using k by (auto simp: validKey_def intro: refuse_inv [OF i])
next
  case (settle n d err nr)
  then show ?thesis using k by (auto simp: validKey_def intro: settle_inv [OF L i])
next
  case (release n k0 t)
  then show ?thesis using k by (auto simp: validKey_def intro: release_inv [OF L i])
qed

lemma refreshReach_inv:
  assumes "queueLaws Q P elapse" "validKey k" "refreshReach Q elapse w"
  shows "refreshInv P w k"
  using assms(3) by induction (auto intro: newWorld_inv [OF assms(1)] refreshStep_inv [OF assms(1) _ assms(2)])

end
