(* ===== verification/RefreshCorrect.thy ===== *)
theory RefreshCorrect
  imports RefreshKept
begin

text \<open>
  What the refresher (cache/refresher.go, cache/refresher\_viewed.go, cache/known\_stale.go) promises over
  any run: no stale body is forgotten, and one worker works on a key at a time; and the race that breaks the
  first promise when a dequeue's read and its take are pulled apart. At the end one run with one worker.
\<close>

section \<open>Properties\<close>

text \<open>C37: However events, marks, writes, evictions, tabs and workers interleave, a resident body that is older than
  the last event on its inputs is never forgotten: a mark of its key is still on its way, or the window of
  its key is open and the cell is KNOWN-STALE, waits for a worker, or is being resolved again. When no mark
  is on its way, every worker is idle and no tier holds the key, the cell is KNOWN-STALE. At any time at
  most one worker works on a key. A run does not interrupt a mark, a dequeue between its read and what it takes,
  or the tail of a dequeue, and every write in it carries the sink of its resolve.\<close>

theorem no_stale_body_forgotten:
  assumes "queueLaws Q P elapse" "refreshReach Q elapse w" "validKey k"
  shows "(\<forall>b. fw_cells w k = Some b \<longrightarrow> b < fw_last w k \<longrightarrow>
      (\<exists>gs. (k, gs) \<in> set (fw_marks w)) \<or>
      InputsMovedSincePut k (win (fw_r w)) \<and> (KnownStale k (win (fw_r w)) \<noteq> None \<or> carried P w k \<or>
        (\<exists>i d. fw_pc w i = Running d \<and> rr_key d = k)))
    \<and> (\<forall>b. fw_cells w k = Some b \<longrightarrow> b < fw_last w k \<longrightarrow> fw_marks w = [] \<longrightarrow> (\<forall>i. fw_pc w i = Idle) \<longrightarrow>
      (\<forall>t. k \<notin> P (tierQ (fw_r w) t)) \<longrightarrow> KnownStale k (win (fw_r w)) \<noteq> None)
    \<and> (\<forall>i j. owns (fw_pc w i) = Some k \<longrightarrow> owns (fw_pc w j) = Some k \<longrightarrow> i = j)"
proof -
  have k: "k \<noteq> []" using assms(3) by (simp add: validKey_def)
  have inv: "ownInv w k" "carryInv P w k" "windowInv w k" "freshInv w k"
    using refreshReach_inv [OF assms(1,3,2)] by (simp_all add: refreshInv_def)
  have known: "InputsMovedSincePut k (win (fw_r w)) \<and> KnownStale k (win (fw_r w)) \<noteq> None" if "staleKnown w k"
    unfolding KnownStale_iff using that k by (auto simp: staleKnown_def InputsMovedSincePut_def)
  have pending: "markPending w k \<Longrightarrow> InputsMovedSincePut k (win (fw_r w)) \<and> carried P w k"
    using inv(2) by (auto simp: markPending_def carryInv_def InputsMovedSincePut_def)
  have running: "reresolving w k \<Longrightarrow> InputsMovedSincePut k (win (fw_r w)) \<and> (\<exists>i d. fw_pc w i = Running d \<and> rr_key d = k)"
    by (auto simp: reresolving_def InputsMovedSincePut_def)
  have main: "(\<exists>gs. (k, gs) \<in> set (fw_marks w)) \<or>
      InputsMovedSincePut k (win (fw_r w)) \<and> (KnownStale k (win (fw_r w)) \<noteq> None \<or> carried P w k \<or>
        (\<exists>i d. fw_pc w i = Running d \<and> rr_key d = k))" if "fw_cells w k = Some b" "b < fw_last w k" for b
    using inv(4) known pending running that unfolding freshInv_def by blast
  have rest: "\<not> carried P w k" if "\<forall>i. fw_pc w i = Idle" "\<forall>t. k \<notin> P (tierQ (fw_r w) t)"
    using that inv(1) by (auto simp: carried_def ownInv_def)
  show ?thesis
  proof (intro conjI allI impI)
    fix b assume "fw_cells w k = Some b" "b < fw_last w k" "fw_marks w = []" "\<forall>i. fw_pc w i = Idle"
      "\<forall>t. k \<notin> P (tierQ (fw_r w) t)"
    then show "KnownStale k (win (fw_r w)) \<noteq> None" using main [of b] rest by auto
  qed (use main inv(1) in \<open>auto simp: ownInv_def\<close>)
qed

text \<open>A dequeue whose read missed goes on to take what has been marked since. When the cell was stored and
  marked after that read, and its key is open on a page, the mark is lost: the dequeue takes its triggers and
  ends its window without a re-resolve, and the viewed tier, where the mark queued the key, skips it.\<close>

theorem missed_read_swallows_mark:
  assumes "queueLaws Q P elapse" "k \<noteq> []" "k \<in> armed" "dirty (win r) k = None"
    and "r1 = onDirtyMark Q True armed seq now k gs r" "beginRun k t False now1 r1 = (d, r2)"
    and "settleRun Q None nonRetryable now2 d r2 = (evict, r3)"
  shows "k \<in> P (tierQ r3 tierViewed) \<and> dirty (win r3) k = None \<and> triggerGVRByKey r3 k = None \<and> \<not> evict \<and>
    fst (consumedElsewhere k tierViewed r3)"
proof -
  note b = beginRun_effect [OF assms(6)]
  have r1: "win r1 = markDirtyKey k seq now (win r)" "k \<in> P (tierQ r1 tierViewed)"
    using onDirtyMark_effect(6) [OF assms(1,5)] route_waits(2) [OF assms(1,2)] assms(3)
    by (simp_all add: assms(5) onDirtyMark_def routeDirty_def)
  then have "dirty (win r2) k = Some ((stampAt now seq)\<lparr>ds_inflight := True, ds_began := Some now1\<rparr>)" "rr_t0 d = Some now"
    using assms(2,4) b(4,12) by (simp_all add: markDirtyKey_def stampAt_def)
  then have "dirty (win r3) k = None" "\<not> evict" "triggerGVRByKey r3 = triggerGVRByKey r2" "tierQ r3 = (tierQ r2)(rr_tier d := wq_forget Q k (tierQ r2 (rr_tier d)))"
    using assms(7) b(1,2) by (auto simp: settleRun_def Let_def onOpenWindow_def onTier_def settleDequeue_def window_dirty
        settledStamp_def unfreshStale_def stampAt_def)
  then show ?thesis
    using b(9,10) r1(2) by (auto simp: consumedElsewhere_def Let_def queue_laws [OF assms(1)])
qed

section \<open>One body, one event, one worker\<close>

definition exGVR :: GVR where "exGVR = (''apps'', ''v1'', ''deployments'')"

definition exStale :: "gostring exQueue refreshWorld" where
  "exStale = deliverMark exQ ''k'' [exGVR] (eventOn [''k''] exGVR (acceptPut ''k'' 0 [exGVR] (newWorld exQ 2)))"

lemma exStale_reached: "refreshReach exQ eq_elapse exStale"
proof -
  have "refreshReach exQ eq_elapse (acceptPut ''k'' 0 [exGVR] (newWorld exQ 2))"
    by (rule refreshReach.more [OF refreshReach.start refreshStep.writing]) simp_all
  then have "refreshReach exQ eq_elapse (eventOn [''k''] exGVR (acceptPut ''k'' 0 [exGVR] (newWorld exQ 2)))"
    by (rule refreshReach.more [OF _ refreshStep.eventful]) (simp add: acceptPut_def newWorld_def Let_def split: prod.split)
  then show ?thesis unfolding exStale_def
    by (rule refreshReach.more [OF _ refreshStep.marking]) (simp add: eventOn_def)
qed

text \<open>One worker takes the key and declines to store.\<close>

definition exPopped :: "gostring exQueue refreshWorld" where
  "exPopped = goTo 0 (Popped ''k'' tierNormal) (snd (snd (the (selectKey exQ (fw_r exStale))))) exStale"

definition exAdmitted :: "gostring exQueue refreshWorld" where
  "exAdmitted = goTo 0 (Admitted ''k'' tierNormal) (snd (consumedElsewhere ''k'' tierNormal (fw_r exPopped))) exPopped"

definition exHeld :: "gostring exQueue refreshWorld" where
  "exHeld = goTo 0 (Held ''k'' tierNormal) (snd (claimInFlight ''k'' (fw_r exAdmitted))) exAdmitted"

definition exRun :: "refreshRun \<times> gostring exQueue refresher" where
  "exRun = beginRun ''k'' tierNormal True (fw_now exHeld) (fw_r exHeld)"

definition exRunning :: "gostring exQueue refreshWorld" where
  "exRunning = goTo 0 (Running (fst exRun)) (snd exRun) exHeld"

definition exSettled :: "gostring exQueue refreshWorld" where
  "exSettled = settleWorld exQ 0 None False (fst exRun) exRunning"

definition exNoted :: "gostring exQueue refreshWorld" where
  "exNoted = goTo 0 (Noted ''k'' tierNormal) (settleBackgroundRevalidation exQ ''k'' (fw_r exSettled)) exSettled"

definition exLeaving :: "gostring exQueue refreshWorld" where
  "exLeaving = goTo 0 (Leaving ''k'' tierNormal) (releaseInFlight exQ (fw_armed exNoted) ''k'' (fw_r exNoted)) exNoted"

definition exRest :: "gostring exQueue refreshWorld" where
  "exRest = goTo 0 Idle (leaveTier exQ ''k'' tierNormal (fw_r exLeaving)) exLeaving"

lemma exPopped_reached: "refreshReach exQ eq_elapse exPopped"
  unfolding exPopped_def
proof (rule refreshReach.more [OF exStale_reached refreshStep.pop])
  show "fw_pc exStale 0 = Idle" by code_simp
  have "map_option (\<lambda>(k, t, r). (k, t)) (selectKey exQ (fw_r exStale)) = Some (''k'', tierNormal)" by code_simp
  then show "selectKey exQ (fw_r exStale) = Some (''k'', tierNormal, snd (snd (the (selectKey exQ (fw_r exStale)))))" by auto
  show "\<not> (tierNormal = tierNormal \<and> ''k'' = viewedWakeKey)" by code_simp
qed

lemma exHeld_reached: "refreshReach exQ eq_elapse exHeld"
proof -
  have "fst (consumedElsewhere ''k'' tierNormal (fw_r exPopped)) = False" by code_simp
  then have "consumedElsewhere ''k'' tierNormal (fw_r exPopped) = (False, snd (consumedElsewhere ''k'' tierNormal (fw_r exPopped)))"
    by (metis prod.collapse)
  then have a: "refreshReach exQ eq_elapse exAdmitted"
    unfolding exAdmitted_def by (intro refreshReach.more [OF exPopped_reached refreshStep.admit]) (simp_all add: exPopped_def)
  have "fst (claimInFlight ''k'' (fw_r exAdmitted)) = True" by code_simp
  then have "claimInFlight ''k'' (fw_r exAdmitted) = (True, snd (claimInFlight ''k'' (fw_r exAdmitted)))" by (metis prod.collapse)
  then show ?thesis
    unfolding exHeld_def by (intro refreshReach.more [OF a refreshStep.claim]) (simp_all add: exAdmitted_def)
qed

lemma exRest_reached: "refreshReach exQ eq_elapse exRest"
proof -
  have held: "fw_pc exHeld 0 = Held ''k'' tierNormal" "fw_cells exHeld ''k'' = Some 0" "''k'' \<notin> suppressedKeys (fw_r exHeld)"
    by code_simp+
  then have "beginRun ''k'' tierNormal (fw_cells exHeld ''k'' \<noteq> None) (fw_now exHeld) (fw_r exHeld) = (fst exRun, snd exRun)"
    by (simp add: exRun_def)
  from refreshReach.more [OF exHeld_reached refreshStep.starting [OF held(1) _ this]] held(3)
  have a: "refreshReach exQ eq_elapse exRunning" by (simp add: exRunning_def)
  have "rr_had (fst exRun) = True" by code_simp
  then have b: "refreshReach exQ eq_elapse exSettled"
    unfolding exSettled_def by (intro refreshReach.more [OF a refreshStep.settle]) (simp_all add: exRunning_def)
  have "fw_pc exSettled 0 = Settled ''k'' tierNormal" by code_simp
  then have c: "refreshReach exQ eq_elapse exNoted"
    unfolding exNoted_def by (rule refreshReach.more [OF b refreshStep.noting])
  have d: "refreshReach exQ eq_elapse exLeaving"
    unfolding exLeaving_def by (rule refreshReach.more [OF c refreshStep.release]) (simp add: exNoted_def)
  show ?thesis
    unfolding exRest_def by (rule refreshReach.more [OF d refreshStep.leave]) (simp add: exLeaving_def)
qed

lemma settleWorld_pc: "fw_pc (settleWorld Q i err nonRetryable d w) = (fw_pc w)(i := Settled (rr_key d) (rr_tier d))"
  by (simp add: settleWorld_def evictCell_def Let_def split: prod.split)

lemma steps_pc: "fw_pc (eventOn ks g w) = fw_pc w" "fw_pc (deliverMark Q k gs w) = fw_pc w"
  by (simp_all add: eventOn_def deliverMark_def withR_def)

lemma exStale_pc: "fw_pc exStale i = Idle"
  by (simp add: exStale_def steps_pc acceptPut_fields newWorld_def)

lemma no_stale_body_forgotten_witness:
  "fw_cells exRest ''k'' = Some 0 \<and> fw_last exRest ''k'' = 1 \<and> KnownStale ''k'' (win (fw_r exRest)) \<noteq> None"
proof -
  have w: "fw_cells exRest ''k'' = Some 0" "fw_last exRest ''k'' = 1" "fw_marks exRest = []" by code_simp+
  have "fw_pc exRest i = Idle" for i
    by (simp add: exRest_def exLeaving_def exNoted_def exSettled_def settleWorld_pc exRunning_def exHeld_def exAdmitted_def
        exPopped_def exStale_pc)
  moreover have "list_all (\<lambda>t. ''k'' \<notin> eq_pending (tierQ (fw_r exRest) t)) [tierNormal, tierClusterList, tierViewed]"
    by code_simp
  then have "''k'' \<notin> eq_pending (tierQ (fw_r exRest) t)" for t by (cases t) simp_all
  ultimately have "KnownStale ''k'' (win (fw_r exRest)) \<noteq> None"
    using no_stale_body_forgotten [OF exQ_laws exRest_reached, of "''k''"] w by (simp add: validKey_def viewedWakeKey_def)
  then show ?thesis using w by simp
qed

lemma missed_read_swallows_mark_witness:
  "let r1 = onDirtyMark exQ True {''k''} 1 5 ''k'' [exGVR] (newRefresher exQ 2); (d, r2) = beginRun ''k'' tierViewed False 6 r1
   in fst (consumedElsewhere ''k'' tierViewed (snd (settleRun exQ None False 7 d r2)))"
proof -
  let ?r1 = "onDirtyMark exQ True {''k''} 1 5 ''k'' [exGVR] (newRefresher exQ 2)"
  obtain d r2 where b: "beginRun ''k'' tierViewed False 6 ?r1 = (d, r2)" by fastforce
  obtain ev r3 where s: "settleRun exQ None False 7 d r2 = (ev, r3)" by fastforce
  from missed_read_swallows_mark [OF exQ_laws _ _ _ refl b s] b s show ?thesis by (simp add: newRefresher_def)
qed

end
