(* ===== verification/PathParse.thy ===== *)
theory PathParse
  imports Prelude "HOL-Library.Sublist"
begin

text \<open>
  How a call path of a RESTAction becomes a coordinate: the parser of rendered paths
  (apicall/apicall.go, cache/inventory.go), the two parsers of the path templates that run before
  a path is rendered (cache/path\_parse.go), and what ties them together.

  A parser that returns ok=false returns zero values beside it; here it returns \<open>None\<close>.
\<close>

section \<open>What the parsers use of the strings package\<close>

text \<open>\<open>strings.Cut\<close> at a string, which is also \<open>strings.Index\<close> and \<open>strings.Contains\<close>.\<close>

fun cutSub :: "gostring \<Rightarrow> gostring \<Rightarrow> (gostring \<times> gostring) option" where
  "cutSub p s = (case cutPrefix p s of Some r \<Rightarrow> Some ([], r)
     | None \<Rightarrow> (case s of [] \<Rightarrow> None | x # xs \<Rightarrow> map_option (\<lambda>(a, b). (x # a, b)) (cutSub p xs)))"

declare cutSub.simps [simp del]

definition containsSub :: "gostring \<Rightarrow> gostring \<Rightarrow> bool" where
  "containsSub p s = (cutSub p s \<noteq> None)"

definition hasPrefix :: "gostring \<Rightarrow> gostring \<Rightarrow> bool" where
  "hasPrefix p s = (cutPrefix p s \<noteq> None)"

fun splitOn :: "char \<Rightarrow> gostring \<Rightarrow> gostring list" where
  "splitOn c [] = [[]]"
| "splitOn c (x # xs) = (if x = c then [] # splitOn c xs
     else (case splitOn c xs of [] \<Rightarrow> [[x]] | w # ws \<Rightarrow> (x # w) # ws))"

definition trimRight :: "char \<Rightarrow> gostring \<Rightarrow> gostring" where
  "trimRight c s = rev (dropWhile (\<lambda>x. x = c) (rev s))"

definition beforeChar :: "char \<Rightarrow> gostring \<Rightarrow> gostring" where
  "beforeChar c s = (case cutAt c s of None \<Rightarrow> s | Some (a, _) \<Rightarrow> a)"

text \<open>\<open>strings.TrimSpace\<close>: the encodings of the white space code points at either end.\<close>

definition spaceRunes :: "nat list list" where
  "spaceRunes = [[9], [10], [11], [12], [13], [32], [194, 133], [194, 160], [225, 154, 128],
     [226, 128, 168], [226, 128, 169], [226, 128, 175], [226, 129, 159], [227, 128, 128]]
     @ map (\<lambda>i. [226, 128, 128 + i]) [0..<11]"

definition dropRune :: "gostring list \<Rightarrow> gostring \<Rightarrow> gostring option" where
  "dropRune runes s = (case List.find (\<lambda>r. hasPrefix r s) runes of None \<Rightarrow> None | Some r \<Rightarrow> cutPrefix r s)"

fun trimRunes :: "nat \<Rightarrow> gostring list \<Rightarrow> gostring \<Rightarrow> gostring" where
  "trimRunes 0 runes s = s"
| "trimRunes (Suc n) runes s = (case dropRune runes s of None \<Rightarrow> s | Some r \<Rightarrow> trimRunes n runes r)"

definition trimSpace :: "gostring \<Rightarrow> gostring" where
  "trimSpace s = (let runes = map (map char_of) spaceRunes;
     l = trimRunes (length s) runes s
     in rev (trimRunes (length l) (map rev runes) (rev l)))"

section \<open>Rendered paths\<close>

type_synonym GroupVersionResource = "gostring \<times> gostring \<times> gostring"

definition SplitURI :: "gostring \<Rightarrow> gostring \<times> gostring \<times> bool" where
  "SplitURI p = (let p = beforeChar CHR ''#'' p in
     case cutAt CHR ''?'' p of None \<Rightarrow> (p, [], False) | Some (a, b) \<Rightarrow> (a, b, True))"

definition wirePath :: "gostring \<Rightarrow> gostring" where
  "wirePath path = trimRight CHR ''/'' (fst (SplitURI path))"

definition segment :: "gostring list \<Rightarrow> nat \<Rightarrow> gostring" where
  "segment parts i = (if length parts > i then parts ! i else [])"

definition ParsePath :: "gostring \<Rightarrow> (GroupVersionResource \<times> gostring \<times> gostring) option" where
  "ParsePath path = (let path = wirePath path in
     if containsSub ''${'' path then None
     else case cutPrefix ''/api/'' path of
       Some rest \<Rightarrow> (let parts = splitOn CHR ''/'' rest in
         if length parts < 2 then None
         else if parts ! 1 = ''namespaces'' \<and> length parts \<ge> 4
           then Some (([], parts ! 0, parts ! 3), parts ! 2, segment parts 4)
         else Some (([], parts ! 0, parts ! 1), [], segment parts 2))
     | None \<Rightarrow> (case cutPrefix ''/apis/'' path of
       Some rest \<Rightarrow> (let parts = splitOn CHR ''/'' rest in
         if length parts < 3 then None
         else if parts ! 2 = ''namespaces'' \<and> length parts \<ge> 5
           then Some ((parts ! 0, parts ! 1, parts ! 4), parts ! 3, segment parts 5)
         else Some ((parts ! 0, parts ! 1, parts ! 2), [], segment parts 3))
     | None \<Rightarrow> None))"

definition ParseAPIServerPathToGVR :: "gostring \<Rightarrow> GroupVersionResource option" where
  "ParseAPIServerPathToGVR path = (let path = wirePath path in
     if containsSub ''${'' path then None
     else case cutPrefix ''/api/'' path of
       Some rest \<Rightarrow> (let parts = splitOn CHR ''/'' rest in
         if length parts < 2 then None
         else if parts ! 1 = ''namespaces'' \<and> length parts \<ge> 4 then Some ([], parts ! 0, parts ! 3)
         else Some ([], parts ! 0, parts ! 1))
     | None \<Rightarrow> (case cutPrefix ''/apis/'' path of
       Some rest \<Rightarrow> (let parts = splitOn CHR ''/'' rest in
         if length parts < 3 then None
         else if parts ! 2 = ''namespaces'' \<and> length parts \<ge> 5 then Some (parts ! 0, parts ! 1, parts ! 4)
         else Some (parts ! 0, parts ! 1, parts ! 2))
     | None \<Rightarrow> None))"

definition ParseAPIServerPathToDep :: "gostring \<Rightarrow> (GroupVersionResource \<times> gostring \<times> gostring) option" where
  "ParseAPIServerPathToDep path = ParsePath path"

definition ParseAPIServerDiscoveryPath :: "gostring \<Rightarrow> gostring option" where
  "ParseAPIServerDiscoveryPath path = (let path = wirePath path in
     if containsSub ''${'' path then None
     else case cutPrefix ''/apis/'' path of
       Some rest \<Rightarrow>
         if rest = [] then None
         else (let parts = splitOn CHR ''/'' rest in
           if length parts \<noteq> 2 then None
           else if parts ! 0 = [] \<or> parts ! 1 = [] then None
           else Some (parts ! 0 @ ''/'' @ parts ! 1))
     | None \<Rightarrow> (case cutPrefix ''/api/'' path of
       Some rest \<Rightarrow>
         if rest = [] then None
         else (let parts = splitOn CHR ''/'' rest in
           if length parts \<noteq> 1 then None
           else if parts ! 0 = [] then None
           else Some (parts ! 0))
     | None \<Rightarrow> None))"

definition ParseAPIServerDiscoveryRoot :: "gostring \<Rightarrow> gostring option" where
  "ParseAPIServerDiscoveryRoot path = (let path = wirePath path in
     if containsSub ''${'' path then None
     else if path = ''/api'' \<or> path = ''/apis'' then Some path else None)"

section \<open>Path templates\<close>

definition skeletonSentinel :: gostring where
  "skeletonSentinel = [CHR 0x00, CHR ''t'', CHR ''p'', CHR ''l'', CHR 0x00]"

definition ExtractAPIServerGroupFromTemplatedPath :: "gostring \<Rightarrow> gostring option" where
  "ExtractAPIServerGroupFromTemplatedPath path = (case cutSub ''/apis/'' path of
       Some (_, rest) \<Rightarrow> (case cutAt CHR ''/'' rest of
           None \<Rightarrow> None
         | Some (grp, _) \<Rightarrow>
             if grp = [] then None
             else if containsSub ''${'' grp \<or> containsSub [CHR 0x22] grp then None else Some grp)
     | None \<Rightarrow> None)"

definition IsTemplatedAPIServerPath :: "gostring \<Rightarrow> bool" where
  "IsTemplatedAPIServerPath path = containsSub ''${'' path"

text \<open>The loop over the bytes: \<open>b\<close> is the literal read so far, the flag whether one is open.\<close>

fun literalsFrom :: "gostring \<Rightarrow> bool \<Rightarrow> gostring \<Rightarrow> gostring list" where
  "literalsFrom b inStr [] = []"
| "literalsFrom b True (c # cs) =
     (case cs of d # ds \<Rightarrow>
        if c = CHR 0x5C then literalsFrom (b @ [d]) True ds
        else if c = CHR 0x22 then b # literalsFrom [] False cs
        else literalsFrom (b @ [c]) True cs
      | [] \<Rightarrow> if c = CHR 0x22 then b # literalsFrom [] False cs else literalsFrom (b @ [c]) True cs)"
| "literalsFrom b False (c # cs) = literalsFrom b (c = CHR 0x22) cs"

definition extractStringLiterals :: "gostring \<Rightarrow> gostring list" where
  "extractStringLiterals s = literalsFrom [] False s"

fun joinWith :: "gostring \<Rightarrow> gostring list \<Rightarrow> gostring" where
  "joinWith sep [] = []"
| "joinWith sep [x] = x"
| "joinWith sep (x # y # ys) = x @ sep @ joinWith sep (y # ys)"

text \<open>\<open>None\<close> is the unterminated template.\<close>

lemma cutSub_Some: "cutSub p s = Some (a, r) \<Longrightarrow> s = a @ p @ r"
proof (induction s arbitrary: a)
  case Nil
  then show ?case by (auto simp: cutSub.simps [of p "[]"] cutPrefix_Some split: option.splits)
next
  case (Cons x xs)
  then show ?case by (auto simp: cutSub.simps [of p "x # xs"] cutPrefix_Some split: option.splits)
qed

function replaceRuns :: "gostring \<Rightarrow> gostring option" where
  "replaceRuns p = (case cutSub ''${'' p of None \<Rightarrow> Some p
     | Some (a, rest) \<Rightarrow> (case cutAt CHR ''}'' rest of None \<Rightarrow> None
         | Some (_, p') \<Rightarrow> map_option (\<lambda>t. a @ skeletonSentinel @ t) (replaceRuns p')))"
  by pat_completeness auto
termination
  by (relation "measure length") (auto dest!: cutSub_Some cutAt_Some)

declare replaceRuns.simps [simp del]

definition replaceTemplateRuns :: "gostring \<Rightarrow> gostring" where
  "replaceTemplateRuns p = (case replaceRuns p of None \<Rightarrow> [] | Some s \<Rightarrow> s)"

definition wrappedBody :: "gostring \<Rightarrow> gostring option" where
  "wrappedBody p = (case cutPrefix ''${'' p of None \<Rightarrow> None
     | Some r \<Rightarrow> if r \<noteq> [] \<and> last r = CHR ''}'' then Some (butlast r) else None)"

definition skeletonizeTemplatedPath :: "gostring \<Rightarrow> gostring" where
  "skeletonizeTemplatedPath path = (let p = trimSpace path in
     if p = [] then []
     else case wrappedBody p of
       Some body \<Rightarrow> (let lits = extractStringLiterals body in
         if lits = [] then [] else joinWith skeletonSentinel lits)
     | None \<Rightarrow> replaceTemplateRuns p)"

definition templated :: "gostring \<Rightarrow> bool" where
  "templated seg \<longleftrightarrow> seg = [] \<or> containsSub skeletonSentinel seg \<or> containsSub ''${'' seg \<or> containsSub [CHR 0x22] seg"

definition ParseAPIServerListDepSkeleton :: "gostring \<Rightarrow> (GroupVersionResource \<times> gostring) option" where
  "ParseAPIServerListDepSkeleton path =
     (let skel = skeletonizeTemplatedPath path in
      if skel = [] then None
      else let skel = trimRight CHR ''/'' (beforeChar CHR ''?'' skel) in
        case cutPrefix ''/apis/'' skel of
          Some rest \<Rightarrow> (let parts = splitOn CHR ''/'' rest in
            if length parts < 3 then None
            else if templated (parts ! 0) \<or> templated (parts ! 1) then None
            else if parts ! 2 = ''namespaces'' then
              (if length parts < 5 then None
               else if templated (parts ! 4) then None
               else if templated (parts ! 3) then None
               else Some ((parts ! 0, parts ! 1, parts ! 4), parts ! 3))
            else if templated (parts ! 2) then None
            else Some ((parts ! 0, parts ! 1, parts ! 2), []))
        | None \<Rightarrow> (case cutPrefix ''/api/'' skel of
          Some rest \<Rightarrow> (let parts = splitOn CHR ''/'' rest in
            if length parts < 2 then None
            else if templated (parts ! 0) then None
            else if parts ! 1 = ''namespaces'' then
              (if length parts < 4 then None
               else if templated (parts ! 3) then None
               else if templated (parts ! 2) then None
               else Some (([], parts ! 0, parts ! 3), parts ! 2))
            else if templated (parts ! 1) then None
            else Some (([], parts ! 0, parts ! 1), []))
        | None \<Rightarrow> None))"

datatype NameKind = nameAbsent | nameStatic | nameTemplated

definition IsSingleObject :: "NameKind \<Rightarrow> bool" where
  "IsSingleObject k \<longleftrightarrow> k = nameStatic \<or> k = nameTemplated"

record ReadSetCoord =
  rs_GVR :: GroupVersionResource
  rs_Namespace :: gostring
  NamespaceUnknown :: bool
  rs_Name :: NameKind
  rs_OK :: bool
  ResourceTemplated :: bool

definition noCoord :: "bool \<Rightarrow> ReadSetCoord" where
  "noCoord t = \<lparr>rs_GVR = ([], [], []), rs_Namespace = [], NamespaceUnknown = False, rs_Name = nameAbsent,
     rs_OK = False, ResourceTemplated = t\<rparr>"

definition coordAt :: "GroupVersionResource \<Rightarrow> gostring option \<Rightarrow> NameKind \<Rightarrow> ReadSetCoord" where
  "coordAt g ns k = \<lparr>rs_GVR = g, rs_Namespace = (case ns of None \<Rightarrow> [] | Some n \<Rightarrow> n),
     NamespaceUnknown = (ns = None), rs_Name = k, rs_OK = True, ResourceTemplated = False\<rparr>"

definition nameAt :: "gostring list \<Rightarrow> nat \<Rightarrow> NameKind" where
  "nameAt parts i = (if i \<ge> length parts then nameAbsent
     else if templated (parts ! i) then nameTemplated else nameStatic)"

definition ReadSetSkeleton :: "gostring \<Rightarrow> ReadSetCoord" where
  "ReadSetSkeleton path =
     (let skel = skeletonizeTemplatedPath path in
      if skel = [] then noCoord False
      else
        let (hasTemplate, skel) = (case cutAt CHR ''?'' skel of
              None \<Rightarrow> (containsSub ''${'' path, skel)
            | Some (a, _) \<Rightarrow> (containsSub skeletonSentinel a, a)) in
        case cutPrefix ''/apis/'' skel of
          Some rest \<Rightarrow> (let parts = splitOn CHR ''/'' rest in
            if length parts < 3 then noCoord False
            else if templated (parts ! 0) \<or> templated (parts ! 1) then noCoord False
            else if parts ! 2 = ''namespaces'' then
              (if length parts < 5 then noCoord False
               else if templated (parts ! 4) then noCoord hasTemplate
               else coordAt (parts ! 0, parts ! 1, parts ! 4)
                 (if templated (parts ! 3) then None else Some (parts ! 3)) (nameAt parts 5))
            else if templated (parts ! 2) then noCoord hasTemplate
            else coordAt (parts ! 0, parts ! 1, parts ! 2) (Some []) (nameAt parts 3))
        | None \<Rightarrow> (case cutPrefix ''/api/'' skel of
          Some rest \<Rightarrow> (let parts = splitOn CHR ''/'' rest in
            if length parts < 2 then noCoord False
            else if templated (parts ! 0) then noCoord False
            else if parts ! 1 = ''namespaces'' then
              (if length parts < 4 then coordAt ([], parts ! 0, ''namespaces'') (Some []) (nameAt parts 2)
               else if templated (parts ! 3) then noCoord hasTemplate
               else coordAt ([], parts ! 0, parts ! 3)
                 (if templated (parts ! 2) then None else Some (parts ! 2)) (nameAt parts 4))
            else if templated (parts ! 1) then noCoord hasTemplate
            else coordAt ([], parts ! 0, parts ! 1) (Some []) (nameAt parts 2))
        | None \<Rightarrow> noCoord False))"

section \<open>Strings, cut and joined\<close>

lemma containsSub_iff: "containsSub p s \<longleftrightarrow> sublist p s"
proof (induction s)
  case Nil
  then show ?case by (cases p) (simp_all add: containsSub_def cutSub.simps [of _ "[]"] cutPrefix.simps)
next
  case (Cons x xs)
  have "prefix p (x # xs) \<longleftrightarrow> cutPrefix p (x # xs) \<noteq> None"
    using cutPrefix_Some by (metis option.exhaust option.discI prefix_def)
  then show ?case using Cons
    by (auto simp: containsSub_def cutSub.simps [of p "x # xs"] sublist_Cons_right split: option.splits)
qed

lemma splitOn_nonempty [simp]: "splitOn c s \<noteq> []"
  by (induction s) (auto split: list.splits)

lemma splitOn_free: "w \<in> set (splitOn c s) \<Longrightarrow> c \<notin> set w"
  by (induction s arbitrary: w) (auto split: list.splits if_splits)

lemma joinWith_append:
  "xs \<noteq> [] \<Longrightarrow> ys \<noteq> [] \<Longrightarrow> joinWith sep (xs @ ys) = joinWith sep xs @ sep @ joinWith sep ys"
proof (induction xs)
  case (Cons x xs)
  then show ?case by (cases xs; cases ys) auto
qed simp

lemma join_split: "joinWith [c] (splitOn c s) = s"
proof (induction s)
  case (Cons x s)
  then show ?case by (cases "splitOn c s"; cases "tl (splitOn c s)") auto
qed simp

lemma split_word: "c \<notin> set w \<Longrightarrow> splitOn c w = [w]" "c \<notin> set w \<Longrightarrow> splitOn c (w @ c # s) = w # splitOn c s"
  by (induction w) auto

lemma split_join:
  assumes "ps \<noteq> []" "\<forall>p\<in>set ps. c \<notin> set p" "tail = [] \<or> hd tail = c"
  shows "\<exists>ws. splitOn c (joinWith [c] ps @ tail) = ps @ ws"
  using assms(1,2)
proof (induction ps)
  case (Cons p ps)
  show ?case
  proof (cases ps)
    case Nil
    then show ?thesis using Cons.prems assms(3) by (cases tail) (auto simp: split_word)
  next
    case (Cons q qs)
    then have "\<exists>ws. splitOn c (joinWith [c] ps @ tail) = ps @ ws" using Cons.IH Cons.prems by simp
    then show ?thesis using Cons Cons.prems by (auto simp: split_word)
  qed
qed simp

lemma split_words: "ps \<noteq> [] \<Longrightarrow> \<forall>p\<in>set ps. c \<notin> set p \<Longrightarrow> splitOn c (joinWith [c] ps) = ps"
proof (induction ps)
  case (Cons p ps)
  then show ?case by (cases ps) (auto simp: split_word)
qed simp

lemma split_take:
  assumes "splitOn c s = ps @ ws" "ps \<noteq> []"
  obtains tail where "s = joinWith [c] ps @ tail" "tail = [] \<or> hd tail = c"
proof (cases "ws = []")
  case True
  then show ?thesis using that [of "[]"] join_split [of c s] assms by simp
next
  case False
  then show ?thesis using that [of "c # joinWith [c] ws"] join_split [of c s] assms by (simp add: joinWith_append)
qed

lemma beforeChar_prefix: "\<exists>t. s = beforeChar c s @ t \<and> (t = [] \<or> hd t = c)"
  using cutAt_Some [of c s] by (auto simp: beforeChar_def split: option.splits)

lemma beforeChar_free: "c \<notin> set (beforeChar c s)"
  using cutAt_Some [of c s] by (auto simp: beforeChar_def cutAt_None split: option.splits)

lemma cutAt_skip: "c \<notin> set p \<Longrightarrow> cutAt c (p @ s) = map_option (\<lambda>(a, b). (p @ a, b)) (cutAt c s)"
proof (induction p)
  case Nil
  then show ?case by (cases "cutAt c s") auto
next
  case (Cons x p)
  then show ?case by (cases "cutAt c s") auto
qed

lemma beforeChar_skip: "c \<notin> set p \<Longrightarrow> beforeChar c (p @ s) = p @ beforeChar c s"
  by (auto simp: beforeChar_def cutAt_skip split: option.splits)

lemma beforeChar_hd: "s = [] \<or> hd s = d \<or> hd s = c \<Longrightarrow> beforeChar c s = [] \<or> hd (beforeChar c s) = d"
  by (cases s) (auto simp: beforeChar_def split: option.splits)

lemma trimRight_slashes: "\<exists>n. s = trimRight c s @ replicate n c"
proof -
  have "rev s = takeWhile (\<lambda>x. x = c) (rev s) @ dropWhile (\<lambda>x. x = c) (rev s)" by simp
  then have "s = trimRight c s @ rev (takeWhile (\<lambda>x. x = c) (rev s))"
    unfolding trimRight_def by (metis rev_append rev_rev_ident)
  moreover have "\<forall>x\<in>set (rev (takeWhile (\<lambda>x. x = c) (rev s))). x = c" by (auto dest: set_takeWhileD)
  ultimately show ?thesis by (metis replicate_length_same)
qed

lemma trimRight_skip: "p \<noteq> [] \<Longrightarrow> last p \<noteq> c \<Longrightarrow> trimRight c (p @ s) = p @ trimRight c s"
  by (cases p rule: rev_cases) (auto simp: trimRight_def dropWhile_append dropWhile_eq_self_iff)

lemma trimRight_hd: "s = [] \<or> hd s = c \<Longrightarrow> trimRight c s = [] \<or> hd (trimRight c s) = c"
proof -
  assume s: "s = [] \<or> hd s = c"
  obtain n where n: "s = trimRight c s @ replicate n c" using trimRight_slashes by blast
  show ?thesis
  proof (cases "trimRight c s")
    case (Cons x xs)
    then have "hd s = x" by (metis n append_Cons list.sel(1))
    then show ?thesis using s n Cons by auto
  qed simp
qed

lemma last_join: "ps \<noteq> [] \<Longrightarrow> last ps \<noteq> [] \<Longrightarrow> joinWith sep ps \<noteq> [] \<and> last (joinWith sep ps) = last (last ps)"
proof (induction ps)
  case (Cons p ps)
  then show ?case by (cases ps) auto
qed simp

lemma sublist_join:
  assumes "sublist w (joinWith [c] ps)" "c \<notin> set w" "w \<noteq> []"
  shows "\<exists>p\<in>set ps. sublist w p"
  using assms(1)
proof (induction ps)
  case (Cons p ps)
  show ?case
  proof (cases ps)
    case Nil
    then show ?thesis using Cons.prems by simp
  next
    case (Cons q qs)
    have "sublist w p \<or> sublist w (c # joinWith [c] ps) \<or>
        (\<exists>a b. w = a @ b \<and> suffix a p \<and> prefix b (c # joinWith [c] ps))"
      using Cons Cons.prems by (simp add: sublist_append)
    moreover have "\<not> prefix b (c # joinWith [c] ps)" if "w = a @ b" "b \<noteq> []" for a b
      using that assms(2) by (auto simp: prefix_Cons)
    moreover have "sublist w p" if "w = a @ []" "suffix a p" for a using that by (simp add: suffix_imp_sublist)
    moreover have "sublist w (joinWith [c] ps)" if "sublist w (c # joinWith [c] ps)"
      using that assms(2,3) by (auto simp: sublist_Cons_right prefix_Cons)
    ultimately have "sublist w p \<or> sublist w (joinWith [c] ps)" by (metis append_Nil2)
    then show ?thesis using Cons.IH by auto
  qed
qed (use assms(3) in simp)

section \<open>The coordinate forms\<close>

text \<open>What the resource parsers agree on: the static segments a coordinate is read from.\<close>

definition coordForm :: "gostring \<Rightarrow> gostring list \<Rightarrow> GroupVersionResource \<Rightarrow> gostring \<Rightarrow> bool" where
  "coordForm pre ps gvr ns \<longleftrightarrow>
     (\<exists>g v r. pre = ''/apis/'' \<and> ps = [g, v, r] \<and> r \<noteq> ''namespaces'' \<and> gvr = (g, v, r) \<and> ns = []) \<or>
     (\<exists>g v r. pre = ''/apis/'' \<and> ps = [g, v, ''namespaces'', ns, r] \<and> gvr = (g, v, r)) \<or>
     (\<exists>v r. pre = ''/api/'' \<and> ps = [v, r] \<and> r \<noteq> ''namespaces'' \<and> gvr = ([], v, r) \<and> ns = []) \<or>
     (\<exists>v r. pre = ''/api/'' \<and> ps = [v, ''namespaces'', ns, r] \<and> gvr = ([], v, r))"

lemma coordForm_cases:
  assumes "coordForm pre ps gvr ns"
  obtains (named) g v r where "pre = ''/apis/''" "ps = [g, v, r]" "r \<noteq> ''namespaces''" "gvr = (g, v, r)" "ns = []"
  | (namedNs) g v r where "pre = ''/apis/''" "ps = [g, v, ''namespaces'', ns, r]" "gvr = (g, v, r)"
  | (core) v r where "pre = ''/api/''" "ps = [v, r]" "r \<noteq> ''namespaces''" "gvr = ([], v, r)" "ns = []"
  | (coreNs) v r where "pre = ''/api/''" "ps = [v, ''namespaces'', ns, r]" "gvr = ([], v, r)"
  using assms unfolding coordForm_def by blast

lemma static_namespaces: "\<not> templated ''namespaces''"
  by code_simp

lemma first_three: "length xs \<ge> 3 \<Longrightarrow> xs = [xs ! 0, xs ! 1, xs ! 2] @ drop 3 xs"
  by (cases xs; cases "tl xs"; cases "tl (tl xs)") auto

lemma first_two: "length xs \<ge> 2 \<Longrightarrow> xs = [xs ! 0, xs ! 1] @ drop 2 xs"
  by (cases xs; cases "tl xs") auto

lemma first_four: "length xs \<ge> 4 \<Longrightarrow> xs = [xs ! 0, xs ! 1, xs ! 2, xs ! 3] @ drop 4 xs"
  using first_two [of xs] first_two [of "drop 2 xs"] by simp

lemma first_five: "length xs \<ge> 5 \<Longrightarrow> xs = [xs ! 0, xs ! 1, xs ! 2, xs ! 3, xs ! 4] @ drop 5 xs"
  using first_two [of xs] first_three [of "drop 2 xs"] by simp

lemma skeleton_form:
  assumes "ParseAPIServerListDepSkeleton path = Some (gvr, ns)"
  obtains pre ps rest ws where "coordForm pre ps gvr ns" "\<forall>p\<in>set ps. \<not> templated p"
    "trimRight CHR ''/'' (beforeChar CHR ''?'' (skeletonizeTemplatedPath path)) = pre @ rest"
    "splitOn CHR ''/'' rest = ps @ ws" "skeletonizeTemplatedPath path \<noteq> []"
proof -
  let ?sk = "trimRight CHR ''/'' (beforeChar CHR ''?'' (skeletonizeTemplatedPath path))"
  have ne: "skeletonizeTemplatedPath path \<noteq> []"
    using assms by (auto simp: ParseAPIServerListDepSkeleton_def Let_def)
  show ?thesis
  proof (cases "cutPrefix ''/apis/'' ?sk")
    case (Some rest)
    let ?p = "splitOn CHR ''/'' rest"
    show ?thesis
    proof (cases "?p ! 2 = ''namespaces''")
      case True
      then have "length ?p \<ge> 5" "gvr = (?p ! 0, ?p ! 1, ?p ! 4)" "ns = ?p ! 3"
        "\<not> templated (?p ! 0)" "\<not> templated (?p ! 1)" "\<not> templated (?p ! 3)" "\<not> templated (?p ! 4)"
        using assms ne Some by (auto simp: ParseAPIServerListDepSkeleton_def Let_def split: if_splits)
      then show ?thesis
        using that [of "''/apis/''" "[?p ! 0, ?p ! 1, ''namespaces'', ?p ! 3, ?p ! 4]" rest "drop 5 ?p"]
          first_five [of ?p] True Some ne static_namespaces by (auto simp: coordForm_def cutPrefix_Some)
    next
      case False
      then have "length ?p \<ge> 3" "gvr = (?p ! 0, ?p ! 1, ?p ! 2)" "ns = []"
        "\<not> templated (?p ! 0)" "\<not> templated (?p ! 1)" "\<not> templated (?p ! 2)"
        using assms ne Some by (auto simp: ParseAPIServerListDepSkeleton_def Let_def split: if_splits)
      then show ?thesis
        using that [of "''/apis/''" "[?p ! 0, ?p ! 1, ?p ! 2]" rest "drop 3 ?p"]
          first_three [of ?p] False Some ne by (auto simp: coordForm_def cutPrefix_Some)
    qed
  next
    case None
    then obtain rest where s: "cutPrefix ''/api/'' ?sk = Some rest"
      using assms ne by (auto simp: ParseAPIServerListDepSkeleton_def Let_def split: option.splits)
    let ?p = "splitOn CHR ''/'' rest"
    show ?thesis
    proof (cases "?p ! 1 = ''namespaces''")
      case True
      then have "length ?p \<ge> 4" "gvr = ([], ?p ! 0, ?p ! 3)" "ns = ?p ! 2"
        "\<not> templated (?p ! 0)" "\<not> templated (?p ! 2)" "\<not> templated (?p ! 3)"
        using assms ne None s by (auto simp: ParseAPIServerListDepSkeleton_def Let_def split: if_splits)
      then show ?thesis
        using that [of "''/api/''" "[?p ! 0, ''namespaces'', ?p ! 2, ?p ! 3]" rest "drop 4 ?p"]
          first_four [of ?p] True s ne static_namespaces by (auto simp: coordForm_def cutPrefix_Some)
    next
      case False
      then have "length ?p \<ge> 2" "gvr = ([], ?p ! 0, ?p ! 1)" "ns = []"
        "\<not> templated (?p ! 0)" "\<not> templated (?p ! 1)"
        using assms ne None s by (auto simp: ParseAPIServerListDepSkeleton_def Let_def split: if_splits)
      then show ?thesis
        using that [of "''/api/''" "[?p ! 0, ?p ! 1]" rest "drop 2 ?p"]
          first_two [of ?p] False s ne by (auto simp: coordForm_def cutPrefix_Some)
    qed
  qed
qed

lemma other_root: "cutPrefix ''/api/'' (''/apis/'' @ rest) = None" "cutPrefix ''/apis/'' (''/api/'' @ rest) = None"
  by (simp_all add: cutPrefix.simps)

lemma form_parsed:
  assumes "coordForm pre ps gvr ns" "wirePath path = pre @ rest" "splitOn CHR ''/'' rest = ps @ ws"
    and "\<not> containsSub ''${'' (wirePath path)"
  shows "ParsePath path = Some (gvr, ns, segment (ps @ ws) (length ps))"
  using assms(1)
proof (cases rule: coordForm_cases)
  case (named g v r)
  then show ?thesis using assms(2-4) other_root [of rest]
    by (simp only: ParsePath_def Let_def cutPrefix_append option.case if_False) (simp add: eval_nat_numeral)
next
  case (namedNs g v r)
  then show ?thesis using assms(2-4) other_root [of rest]
    by (simp only: ParsePath_def Let_def cutPrefix_append option.case if_False) (simp add: eval_nat_numeral)
next
  case (core v r)
  then show ?thesis using assms(2-4) other_root [of rest]
    by (simp only: ParsePath_def Let_def cutPrefix_append option.case if_False) (simp add: eval_nat_numeral)
next
  case (coreNs v r)
  then show ?thesis using assms(2-4) other_root [of rest]
    by (simp only: ParsePath_def Let_def cutPrefix_append option.case if_False) (simp add: eval_nat_numeral)
qed

lemma form_read:
  assumes "coordForm pre ps gvr ns" "skeletonizeTemplatedPath path = skel" "skel \<noteq> []"
    and "beforeChar CHR ''?'' skel = pre @ rest" "splitOn CHR ''/'' rest = ps @ ws" "\<forall>p\<in>set ps. \<not> templated p"
  shows "ReadSetSkeleton path = coordAt gvr (Some ns) (nameAt (ps @ ws) (length ps))"
proof -
  obtain h where h: "(case cutAt CHR ''?'' skel of None \<Rightarrow> (containsSub ''${'' path, skel)
      | Some (a, _) \<Rightarrow> (containsSub skeletonSentinel a, a)) = (h, pre @ rest)"
    using assms(4) by (auto simp: beforeChar_def split: option.splits)
  note unfold = ReadSetSkeleton_def Let_def assms(2,3) h prod.case if_False
  show ?thesis
    using assms(1)
  proof (cases rule: coordForm_cases)
    case (named g v r)
    then show ?thesis using assms(5,6) other_root [of rest]
      by (simp only: unfold cutPrefix_append option.case) (simp add: eval_nat_numeral)
  next
    case (namedNs g v r)
    then show ?thesis using assms(5,6) other_root [of rest]
      by (simp only: unfold cutPrefix_append option.case) (simp add: eval_nat_numeral)
  next
    case (core v r)
    then show ?thesis using assms(5,6) other_root [of rest]
      by (simp only: unfold cutPrefix_append option.case) (simp add: eval_nat_numeral)
  next
    case (coreNs v r)
    then show ?thesis using assms(5,6) other_root [of rest]
      by (simp only: unfold cutPrefix_append option.case) (simp add: eval_nat_numeral)
  qed
qed

section \<open>A template and its renderings\<close>

text \<open>
  The author idiom is one wrapped expression that joins string literals and variable expressions,
  \<open>${ "lit" + .v + "lit" + .w }\<close>. A template is its first literal; for each further one the source of the
  expression before it, the value the expression has when the path is rendered, and the literal; and
  the source and the value of what follows the last literal.
\<close>

record pathTemplate =
  pt_first :: gostring
  pt_rest :: "(gostring \<times> gostring \<times> gostring) list"
  pt_endExpr :: gostring
  pt_endValue :: gostring

definition quotedLit :: "gostring \<Rightarrow> gostring" where
  "quotedLit l = CHR 0x22 # l @ [CHR 0x22]"

definition templateText :: "pathTemplate \<Rightarrow> gostring" where
  "templateText t = ''${ '' @ quotedLit (pt_first t) @ concat (map (\<lambda>(e, v, l). e @ quotedLit l) (pt_rest t))
     @ pt_endExpr t @ '' }''"

definition renderedPath :: "pathTemplate \<Rightarrow> gostring" where
  "renderedPath t = pt_first t @ concat (map (\<lambda>(e, v, l). v @ l) (pt_rest t)) @ pt_endValue t"

definition templateSkeleton :: "pathTemplate \<Rightarrow> gostring" where
  "templateSkeleton t = pt_first t @ concat (map (\<lambda>(e, v, l). skeletonSentinel @ l) (pt_rest t))"

definition plainLit :: "gostring \<Rightarrow> bool" where
  "plainLit l \<longleftrightarrow> CHR 0x22 \<notin> set l \<and> CHR 0x5C \<notin> set l \<and> CHR ''#'' \<notin> set l"

definition plainTemplate :: "pathTemplate \<Rightarrow> bool" where
  "plainTemplate t \<longleftrightarrow> plainLit (pt_first t) \<and> CHR 0x22 \<notin> set (pt_endExpr t) \<and>
     list_all (\<lambda>(e, v, l). CHR 0x22 \<notin> set e \<and> plainLit l) (pt_rest t)"

text \<open>What follows the last literal starts a segment of its own, or is in the query.\<close>

definition endStandsClear :: "pathTemplate \<Rightarrow> bool" where
  "endStandsClear t \<longleftrightarrow> pt_endValue t = [] \<or>
     templateSkeleton t \<noteq> [] \<and> last (templateSkeleton t) = CHR ''/'' \<or> CHR ''?'' \<in> set (templateSkeleton t)"

lemma literals_closed:
  "CHR 0x22 \<notin> set l \<Longrightarrow> CHR 0x5C \<notin> set l \<Longrightarrow>
     literalsFrom b True (l @ CHR 0x22 # cs) = (b @ l) # literalsFrom [] False cs"
proof (induction l arbitrary: b)
  case Nil
  then show ?case by (cases cs) simp_all
next
  case (Cons x l)
  then have "literalsFrom b True (x # (l @ CHR 0x22 # cs)) = literalsFrom (b @ [x]) True (l @ CHR 0x22 # cs)"
    by (cases "l @ CHR 0x22 # cs") auto
  then show ?case using Cons by simp
qed

lemma literals_skip: "CHR 0x22 \<notin> set e \<Longrightarrow> literalsFrom b False (e @ cs) = literalsFrom b False cs"
  by (induction e) auto

lemma literals_step:
  assumes "CHR 0x22 \<notin> set e" "plainLit l"
  shows "literalsFrom [] False (e @ quotedLit l @ cs) = l # literalsFrom [] False cs"
  using assms literals_closed [of l "[]" cs] by (simp add: literals_skip quotedLit_def plainLit_def)

lemma literals_rest:
  assumes "list_all (\<lambda>(e, v, l). CHR 0x22 \<notin> set e \<and> plainLit l) ps" "CHR 0x22 \<notin> set tail"
  shows "literalsFrom [] False (concat (map (\<lambda>(e, v, l). e @ quotedLit l) ps) @ tail) = map (\<lambda>(e, v, l). l) ps"
  using assms literals_skip [of tail "[]" "[]"] by (induction ps) (auto simp: literals_step)

lemma join_skeleton:
  "joinWith skeletonSentinel (pt_first t # map (\<lambda>(e, v, l). l) (pt_rest t)) = templateSkeleton t"
proof -
  have "joinWith skeletonSentinel (l0 # map (\<lambda>(e, v, l). l) ps) = l0 @ concat (map (\<lambda>(e, v, l). skeletonSentinel @ l) ps)"
    for l0 and ps :: "(gostring \<times> gostring \<times> gostring) list"
    by (induction ps arbitrary: l0) auto
  then show ?thesis by (simp add: templateSkeleton_def)
qed

lemma dropRune_None:
  assumes "list_all (\<lambda>r. r \<noteq> [] \<and> hd r \<noteq> c) runes"
  shows "dropRune runes (c # s) = None"
proof -
  have "\<not> hasPrefix r (c # s)" if "r \<in> set runes" for r
    using assms that by (cases r) (auto simp: hasPrefix_def cutPrefix.simps list_all_iff)
  then have "List.find (\<lambda>r. hasPrefix r (c # s)) runes = None" by (simp add: find_None_iff)
  then show ?thesis by (simp add: dropRune_def)
qed

lemma not_space:
  "list_all (\<lambda>r. r \<noteq> [] \<and> hd r \<noteq> CHR ''$'') (map (map char_of) spaceRunes)"
  "list_all (\<lambda>r. r \<noteq> [] \<and> hd r \<noteq> CHR ''}'') (map rev (map (map char_of) spaceRunes))"
  by code_simp+

lemma trimRunes_None: "dropRune runes s = None \<Longrightarrow> trimRunes n runes s = s"
  by (cases n) simp_all

lemma trimSpace_wrapped: "trimSpace (CHR ''$'' # s @ ''}'') = CHR ''$'' # s @ ''}''"
proof -
  let ?x = "CHR ''$'' # s @ ''}''"
  have r: "rev ?x = CHR ''}'' # rev (CHR ''$'' # s)" by simp
  have "dropRune (map rev (map (map char_of) spaceRunes)) (rev ?x) = None"
    unfolding r by (rule dropRune_None [OF not_space(2)])
  then have "trimRunes n (map rev (map (map char_of) spaceRunes)) (rev ?x) = rev ?x" for n by (rule trimRunes_None)
  moreover have "trimRunes n (map (map char_of) spaceRunes) ?x = ?x" for n
    by (rule trimRunes_None [OF dropRune_None [OF not_space(1)]])
  ultimately show ?thesis unfolding trimSpace_def Let_def by (simp only: rev_rev_ident)
qed

lemma skeleton_of_template:
  assumes "plainTemplate t"
  shows "skeletonizeTemplatedPath (templateText t) = templateSkeleton t"
proof -
  let ?lits = "concat (map (\<lambda>(e, v, l). e @ quotedLit l) (pt_rest t))"
  let ?body = "'' '' @ quotedLit (pt_first t) @ ?lits @ (pt_endExpr t @ '' '')"
  have x: "templateText t = CHR ''$'' # CHR ''{'' # ?body @ ''}''" by (simp add: templateText_def)
  then have trim: "trimSpace (templateText t) = templateText t"
    using trimSpace_wrapped [of "CHR ''{'' # ?body"] by simp
  have "cutPrefix ''${'' (templateText t) = Some (?body @ ''}'')" unfolding cutPrefix_Some by (simp add: x)
  then have body: "wrappedBody (templateText t) = Some ?body" by (simp add: wrappedBody_def butlast_append)
  have "literalsFrom [] False (?lits @ (pt_endExpr t @ '' '')) = map (\<lambda>(e, v, l). l) (pt_rest t)"
    by (rule literals_rest) (use assms in \<open>simp_all add: plainTemplate_def\<close>)
  then have "extractStringLiterals ?body = pt_first t # map (\<lambda>(e, v, l). l) (pt_rest t)"
    using assms literals_step [of "'' ''" "pt_first t" "?lits @ (pt_endExpr t @ '' '')"]
    unfolding extractStringLiterals_def plainTemplate_def by (simp only:) simp
  moreover have "templateText t \<noteq> []" by (simp add: x)
  ultimately have "skeletonizeTemplatedPath (templateText t) = joinWith skeletonSentinel (pt_first t # map (\<lambda>(e, v, l). l) (pt_rest t))"
    by (simp only: skeletonizeTemplatedPath_def Let_def trim body if_False option.case list.distinct)
  then show ?thesis by (simp only: join_skeleton)
qed

section \<open>The static coordinate survives every rendering\<close>

lemma sentinel_chars: "c \<in> set skeletonSentinel \<Longrightarrow> c \<noteq> CHR ''/'' \<and> c \<noteq> CHR ''?''"
  by (auto simp: skeletonSentinel_def)

lemma static_prefix:
  assumes "pre \<in> {''/apis/'', ''/api/''}" "ps \<noteq> []" "\<forall>p\<in>set ps. \<not> templated p"
    and "l0 @ R = pre @ joinWith ''/'' ps @ tail" "tail = [] \<or> hd tail = CHR ''/'' \<or> hd tail = CHR ''?''"
    and "R = [] \<or> (\<exists>R1. R = skeletonSentinel @ R1)"
  obtains us where "l0 = (pre @ joinWith ''/'' ps) @ us" "us @ R = tail"
proof -
  let ?P = "pre @ joinWith ''/'' ps"
  have clean: "\<not> sublist skeletonSentinel ?P"
  proof
    assume "sublist skeletonSentinel ?P"
    moreover have "?P = joinWith ''/'' ([[], butlast (tl pre)] @ ps)"
      using assms(1,2) by (cases ps) auto
    ultimately have "\<exists>p\<in>set ([[], butlast (tl pre)] @ ps). sublist skeletonSentinel p"
      using sublist_join [of skeletonSentinel "CHR ''/''"] sentinel_chars by (metis list.distinct(1) skeletonSentinel_def)
    moreover have "\<not> sublist skeletonSentinel (butlast (tl pre))"
      using assms(1) by (auto simp: skeletonSentinel_def sublist_Cons_right)
    ultimately show False using assms(3) by (auto simp: templated_def containsSub_iff skeletonSentinel_def)
  qed
  from assms(4) consider us where "l0 @ us = ?P" "R = us @ tail" | us where "l0 = ?P @ us" "us @ R = tail"
    by (auto simp: append_eq_append_conv2 [of l0 R ?P tail, simplified])
  then show ?thesis
  proof cases
    case (1 us)
    have "us = []"
    proof (rule ccontr)
      assume us: "us \<noteq> []"
      then obtain R1 where R: "us @ tail = skeletonSentinel @ R1" using 1(2) assms(6) by auto
      have "\<not> prefix skeletonSentinel us" using clean 1(1) by (metis prefix_imp_sublist sublist_append_leftI sublist_order.order_trans)
      then obtain vs where vs: "skeletonSentinel = us @ vs" "tail = vs @ R1" "vs \<noteq> []"
        using R unfolding append_eq_append_conv2 prefix_def by (metis append_Nil2)
      then have "hd tail \<in> set vs" by (cases vs) auto
      then have "hd tail \<in> set skeletonSentinel" unfolding vs(1) by simp
      then show False using assms(5) sentinel_chars vs by auto
    qed
    then show ?thesis using 1 that [of "[]"] by simp
  next
    case (2 us)
    then show ?thesis by (rule that)
  qed
qed

lemma form_words:
  assumes "coordForm pre ps gvr ns"
  shows "pre \<in> {''/apis/'', ''/api/''}" "ps \<noteq> []"
  using assms by (auto simp: coordForm_def)

lemma last_static:
  assumes "coordForm pre ps gvr ns" "\<forall>p\<in>set ps. \<not> templated p" "\<forall>p\<in>set ps. CHR ''/'' \<notin> set p"
  shows "pre @ joinWith ''/'' ps \<noteq> []" "last (pre @ joinWith ''/'' ps) \<noteq> CHR ''/''"
proof -
  have "last ps \<noteq> []" "CHR ''/'' \<notin> set (last ps)"
    using assms(2,3) form_words(2) [OF assms(1)] by (auto simp: templated_def)
  then have last: "last ps \<noteq> []" "last (last ps) \<noteq> CHR ''/''" using last_in_set by metis+
  have "joinWith ''/'' ps \<noteq> [] \<and> last (joinWith ''/'' ps) = last (last ps)"
    by (rule last_join [OF form_words(2) [OF assms(1)] last(1)])
  then show "pre @ joinWith ''/'' ps \<noteq> []" "last (pre @ joinWith ''/'' ps) \<noteq> CHR ''/''" using last(2) by simp_all
qed

lemma SplitURI_path: "fst (SplitURI p) = beforeChar CHR ''?'' (beforeChar CHR ''#'' p)"
  by (auto simp: SplitURI_def Let_def beforeChar_def split: option.split)

text \<open>A wire path that starts with the static segments parses to their coordinate.\<close>

lemma static_parsed:
  assumes f: "coordForm pre ps gvr ns" "\<forall>p\<in>set ps. \<not> templated p \<and> CHR ''/'' \<notin> set p"
    and path: "path = (pre @ joinWith ''/'' ps) @ tl'" "tl' = [] \<or> hd tl' = CHR ''/'' \<or> hd tl' = CHR ''?''"
    and free: "CHR ''#'' \<notin> set (pre @ joinWith ''/'' ps)" "CHR ''?'' \<notin> set (pre @ joinWith ''/'' ps)"
    and jq: "\<not> containsSub ''${'' path"
  shows "\<exists>name. ParsePath path = Some (gvr, ns, name) \<and> (tl' = [] \<or> hd tl' = CHR ''?'' \<longrightarrow> name = [])"
proof -
  let ?P = "pre @ joinWith ''/'' ps"
  let ?t1 = "beforeChar CHR ''#'' tl'"
  let ?t2 = "beforeChar CHR ''?'' ?t1"
  have t1: "?t1 = [] \<or> hd ?t1 = CHR ''/'' \<or> hd ?t1 = CHR ''?''"
    using path(2) beforeChar_hd [of tl' "CHR ''/''" "CHR ''#''"] beforeChar_hd [of tl' "CHR ''?''" "CHR ''#''"] by auto
  have t2: "?t2 = [] \<or> hd ?t2 = CHR ''/''" using t1 beforeChar_hd by blast
  have P: "?P \<noteq> []" "last ?P \<noteq> CHR ''/''" using last_static [OF f(1)] f(2) by blast+
  have wire: "wirePath path = ?P @ trimRight CHR ''/'' ?t2"
    unfolding wirePath_def SplitURI_path path(1) beforeChar_skip [OF free(1)] beforeChar_skip [OF free(2)]
    by (rule trimRight_skip [OF P])
  obtain ws where ws: "splitOn CHR ''/'' (joinWith ''/'' ps @ trimRight CHR ''/'' ?t2) = ps @ ws"
    using split_join [of ps "CHR ''/''"] form_words(2) [OF f(1)] f(2) trimRight_hd [OF t2] by blast
  have "prefix (wirePath path) path"
  proof -
    obtain a b n where "tl' = ?t1 @ a" "?t1 = ?t2 @ b" "?t2 = trimRight CHR ''/'' ?t2 @ replicate n CHR ''/''"
      using beforeChar_prefix trimRight_slashes by metis
    then have "tl' = trimRight CHR ''/'' ?t2 @ (replicate n CHR ''/'' @ b @ a)" by (metis append.assoc)
    then have "path = wirePath path @ (replicate n CHR ''/'' @ b @ a)"
      using path(1) wire by (metis append.assoc)
    then show ?thesis by (rule prefixI)
  qed
  then have "\<not> containsSub ''${'' (wirePath path)"
    using jq unfolding containsSub_iff by (metis prefix_imp_sublist sublist_order.order_trans)
  moreover have "wirePath path = pre @ (joinWith ''/'' ps @ trimRight CHR ''/'' ?t2)" unfolding wire by (rule append.assoc)
  ultimately have parsed: "ParsePath path = Some (gvr, ns, segment (ps @ ws) (length ps))"
    using form_parsed [OF f(1) _ ws] by blast
  have "ws = []" if "tl' = [] \<or> hd tl' = CHR ''?''"
  proof -
    have "?t2 = []" using that by (cases tl') (auto simp: beforeChar_def split: option.splits)
    then have "splitOn CHR ''/'' (joinWith ''/'' ps) = ps @ ws" using ws by (simp add: trimRight_def)
    then show ?thesis
      using split_words [OF form_words(2) [OF f(1)], of "CHR ''/''"] f(2) by simp
  qed
  then show ?thesis using parsed by (auto simp: segment_def)
qed

text \<open>The skeleton of a template: the static words of the coordinate, the rest of the path, and the query.\<close>

lemma skeleton_split:
  assumes "plainTemplate t" "ParseAPIServerListDepSkeleton (templateText t) = Some (gvr, ns)"
  obtains pre ps path q where "coordForm pre ps gvr ns" "\<forall>p\<in>set ps. \<not> templated p" "\<forall>p\<in>set ps. CHR ''/'' \<notin> set p"
    "templateSkeleton t = (pre @ joinWith ''/'' ps) @ (path @ q)" "templateSkeleton t \<noteq> []"
    "path = [] \<or> hd path = CHR ''/''" "q = [] \<or> hd q = CHR ''?''"
    "beforeChar CHR ''?'' (templateSkeleton t) = (pre @ joinWith ''/'' ps) @ path"
proof -
  let ?skel = "templateSkeleton t"
  obtain pre ps rest ws where f: "coordForm pre ps gvr ns" "\<forall>p\<in>set ps. \<not> templated p"
      "trimRight CHR ''/'' (beforeChar CHR ''?'' ?skel) = pre @ rest" "splitOn CHR ''/'' rest = ps @ ws" "?skel \<noteq> []"
    using skeleton_form [OF assms(2)] skeleton_of_template [OF assms(1)] by metis
  obtain tail where tail: "rest = joinWith ''/'' ps @ tail" "tail = [] \<or> hd tail = CHR ''/''"
    using split_take [OF f(4) form_words(2) [OF f(1)]] by blast
  have slashfree: "\<forall>p\<in>set ps. CHR ''/'' \<notin> set p" using f(4) splitOn_free [of _ "CHR ''/''" rest] by simp
  obtain n where n: "beforeChar CHR ''?'' ?skel = ((pre @ joinWith ''/'' ps) @ tail) @ replicate n CHR ''/''"
    using trimRight_slashes [of "beforeChar CHR ''?'' ?skel" "CHR ''/''"] unfolding f(3) tail(1) by (metis append.assoc)
  obtain q where q: "?skel = beforeChar CHR ''?'' ?skel @ q" "q = [] \<or> hd q = CHR ''?''"
    using beforeChar_prefix by blast
  have "tail @ replicate n CHR ''/'' = [] \<or> hd (tail @ replicate n CHR ''/'') = CHR ''/''"
    using tail(2) by (cases tail; cases n) auto
  then show ?thesis using that [OF f(1,2) slashfree _ f(5), of "tail @ replicate n CHR ''/''" q] n q by simp
qed

text \<open>After those words the rendered path goes on with the same character as the skeleton, or ends where it ends.\<close>

lemma rendered_same_head:
  assumes "plainTemplate t" "endStandsClear t" "coordForm pre ps gvr ns" "\<forall>p\<in>set ps. \<not> templated p"
    and "\<forall>p\<in>set ps. CHR ''/'' \<notin> set p" "templateSkeleton t = (pre @ joinWith ''/'' ps) @ tl'"
    and "tl' = [] \<or> hd tl' = CHR ''/'' \<or> hd tl' = CHR ''?''" "CHR ''?'' \<notin> set (pre @ joinWith ''/'' ps)"
  obtains tl'' where "renderedPath t = (pre @ joinWith ''/'' ps) @ tl''" "CHR ''#'' \<notin> set (pre @ joinWith ''/'' ps)"
    "tl'' = [] \<and> tl' = [] \<or> tl'' \<noteq> [] \<and> tl' \<noteq> [] \<and> hd tl'' = hd tl'"
proof -
  let ?P = "pre @ joinWith ''/'' ps"
  define R R' where "R = concat (map (\<lambda>(e, v, l). skeletonSentinel @ l) (pt_rest t))"
    and "R' = concat (map (\<lambda>(e, v, l). v @ l) (pt_rest t)) @ pt_endValue t"
  have R: "R = [] \<or> (\<exists>R1. R = skeletonSentinel @ R1)" "R = [] \<longrightarrow> R' = pt_endValue t"
    unfolding R_def R'_def by (cases "pt_rest t"; auto simp: skeletonSentinel_def)+
  obtain us where us: "pt_first t = ?P @ us" "us @ R = tl'"
    using static_prefix [OF form_words [OF assms(3)] assms(4) _ assms(7) R(1), of "pt_first t"] assms(6)
    by (auto simp: templateSkeleton_def R_def)
  have same: "us @ R' = [] \<and> tl' = [] \<or> us @ R' \<noteq> [] \<and> tl' \<noteq> [] \<and> hd (us @ R') = hd tl'"
  proof (cases us)
    case Nil
    then have none: "R = []" "tl' = []" using us(2) assms(7) R(1) by (auto simp: skeletonSentinel_def)
    then have "pt_endValue t = []"
      using assms(2,6,8) last_static [OF assms(3-5)] unfolding endStandsClear_def by auto
    then show ?thesis using Nil R(2) none by simp
  next
    case (Cons u us')
    then have "hd tl' = u" "tl' \<noteq> []" using us(2) by (metis append_Cons list.sel(1), metis append_Cons list.distinct(1))
    then show ?thesis using Cons by simp
  qed
  have "renderedPath t = ?P @ (us @ R')" using us(1) by (simp add: renderedPath_def R'_def)
  moreover have "CHR ''#'' \<notin> set ?P" using assms(1) us(1) by (simp add: plainTemplate_def plainLit_def)
  ultimately show ?thesis using same by (rule that)
qed

text \<open>The read set of the template grants the coordinate, and the object too once a word follows it.\<close>

lemma skeleton_read:
  assumes "plainTemplate t" "coordForm pre ps gvr ns" "\<forall>p\<in>set ps. \<not> templated p" "\<forall>p\<in>set ps. CHR ''/'' \<notin> set p"
    and "templateSkeleton t \<noteq> []" "path = [] \<or> hd path = CHR ''/''"
    and "beforeChar CHR ''?'' (templateSkeleton t) = (pre @ joinWith ''/'' ps) @ path"
  shows "\<exists>k. ReadSetSkeleton (templateText t) = coordAt gvr (Some ns) k \<and> (path \<noteq> [] \<longrightarrow> IsSingleObject k)"
proof -
  obtain ws where ws: "splitOn CHR ''/'' (joinWith ''/'' ps @ path) = ps @ ws"
    using split_join [of ps "CHR ''/''"] form_words(2) [OF assms(2)] assms(4,6) by blast
  have "beforeChar CHR ''?'' (templateSkeleton t) = pre @ (joinWith ''/'' ps @ path)" using assms(7) by simp
  then have "ReadSetSkeleton (templateText t) = coordAt gvr (Some ns) (nameAt (ps @ ws) (length ps))"
    by (rule form_read [OF assms(2) skeleton_of_template [OF assms(1)] assms(5) _ ws assms(3)])
  moreover have "IsSingleObject (nameAt (ps @ ws) (length ps))" if "path \<noteq> []"
  proof -
    have "ws \<noteq> []" using ws that join_split [of "CHR ''/''" "joinWith ''/'' ps @ path"] by auto
    then show ?thesis by (simp add: nameAt_def IsSingleObject_def)
  qed
  ultimately show ?thesis by blast
qed

text \<open>C8: The coordinate read off a path template before it is rendered is the coordinate of every rendered
  path of the template, whatever its expressions evaluate to, provided the expression at the end starts a
  segment of its own; the read set taken from the template grants the same coordinate, and grants a
  single-object read whenever the rendered path names an object.\<close>

theorem skeleton_is_rendered_coordinate:
  assumes "plainTemplate t" "endStandsClear t" "\<not> containsSub ''${'' (renderedPath t)"
    and "ParseAPIServerListDepSkeleton (templateText t) = Some (gvr, ns)"
  shows "\<exists>name k. ParseAPIServerPathToDep (renderedPath t) = Some (gvr, ns, name) \<and>
    ReadSetSkeleton (templateText t) = coordAt gvr (Some ns) k \<and> (name \<noteq> [] \<longrightarrow> IsSingleObject k)"
proof -
  obtain pre ps path q where f: "coordForm pre ps gvr ns" "\<forall>p\<in>set ps. \<not> templated p" "\<forall>p\<in>set ps. CHR ''/'' \<notin> set p"
      "templateSkeleton t = (pre @ joinWith ''/'' ps) @ (path @ q)" "templateSkeleton t \<noteq> []"
      "path = [] \<or> hd path = CHR ''/''" "q = [] \<or> hd q = CHR ''?''"
      "beforeChar CHR ''?'' (templateSkeleton t) = (pre @ joinWith ''/'' ps) @ path"
    by (rule skeleton_split [OF assms(1,4)])
  have hd: "path @ q = [] \<or> hd (path @ q) = CHR ''/'' \<or> hd (path @ q) = CHR ''?''"
    using f(6,7) by (cases path) auto
  have noq: "CHR ''?'' \<notin> set (pre @ joinWith ''/'' ps)"
    using beforeChar_free [of "CHR ''?''" "templateSkeleton t"] unfolding f(8) by simp
  obtain tl'' where r: "renderedPath t = (pre @ joinWith ''/'' ps) @ tl''" "CHR ''#'' \<notin> set (pre @ joinWith ''/'' ps)"
      "tl'' = [] \<and> path @ q = [] \<or> tl'' \<noteq> [] \<and> path @ q \<noteq> [] \<and> hd tl'' = hd (path @ q)"
    by (rule rendered_same_head [OF assms(1,2) f(1-4) hd noq])
  have "tl'' = [] \<or> hd tl'' = CHR ''/'' \<or> hd tl'' = CHR ''?''" using r(3) hd by auto
  then obtain name where name: "ParseAPIServerPathToDep (renderedPath t) = Some (gvr, ns, name)"
      "tl'' = [] \<or> hd tl'' = CHR ''?'' \<longrightarrow> name = []"
    using static_parsed [OF f(1) _ r(1)] r(2) noq assms(3) f(2,3) by (auto simp: ParseAPIServerPathToDep_def)
  obtain k where k: "ReadSetSkeleton (templateText t) = coordAt gvr (Some ns) k" "path \<noteq> [] \<longrightarrow> IsSingleObject k"
    using skeleton_read [OF assms(1) f(1-3,5,6,8)] by blast
  have "path \<noteq> []" if "name \<noteq> []" using that name(2) r(3) f(7) by (cases path) auto
  then show ?thesis using name(1) k by blast
qed

definition exStaticTemplate :: pathTemplate where
  "exStaticTemplate = \<lparr>pt_first = ''/apis/apps/v1/namespaces/prod/deployments/'', pt_rest = [],
     pt_endExpr = '' + .name'', pt_endValue = ''web/scale?x''\<rparr>"

lemma skeleton_is_rendered_coordinate_witness:
  "\<exists>name k. ParseAPIServerPathToDep (renderedPath exStaticTemplate) = Some ((''apps'', ''v1'', ''deployments''), ''prod'', name) \<and>
    ReadSetSkeleton (templateText exStaticTemplate) = coordAt (''apps'', ''v1'', ''deployments'') (Some ''prod'') k \<and>
    (name \<noteq> [] \<longrightarrow> IsSingleObject k)"
proof -
  have "plainTemplate exStaticTemplate" "endStandsClear exStaticTemplate"
    "\<not> containsSub ''${'' (renderedPath exStaticTemplate)"
    "ParseAPIServerListDepSkeleton (templateText exStaticTemplate) = Some ((''apps'', ''v1'', ''deployments''), ''prod'')"
    by code_simp+
  then show ?thesis by (rule skeleton_is_rendered_coordinate)
qed

section \<open>What the skeleton does not see\<close>

lemma word_parsed:
  assumes "coordForm pre ps (g, v, r) ns" "wirePath path = pre @ rest" "splitOn CHR ''/'' rest = butlast ps @ [last ps @ w]"
    and "\<not> containsSub ''${'' (wirePath path)"
  shows "ParsePath path = Some ((g, v, r @ w), ns, [])"
  using assms(1)
proof (cases rule: coordForm_cases)
  case (named g v r)
  then show ?thesis using assms(2-4) other_root [of rest]
    by (simp only: ParsePath_def Let_def cutPrefix_append option.case if_False) (simp add: eval_nat_numeral segment_def)
next
  case (namedNs g v r)
  then show ?thesis using assms(2-4) other_root [of rest]
    by (simp only: ParsePath_def Let_def cutPrefix_append option.case if_False) (simp add: eval_nat_numeral segment_def)
next
  case (core v r)
  then show ?thesis using assms(2-4) other_root [of rest]
    by (simp only: ParsePath_def Let_def cutPrefix_append option.case if_False) (simp add: eval_nat_numeral segment_def)
next
  case (coreNs v r)
  then show ?thesis using assms(2-4) other_root [of rest]
    by (simp only: ParsePath_def Let_def cutPrefix_append option.case if_False) (simp add: eval_nat_numeral segment_def)
qed

lemma beforeChar_same: "c \<notin> set s \<Longrightarrow> beforeChar c s = s"
  using beforeChar_skip [of c s "[]"] by (simp add: beforeChar_def)

lemma trimRight_same: "s \<noteq> [] \<Longrightarrow> last s \<noteq> c \<Longrightarrow> trimRight c s = s"
  using trimRight_skip [of s c "[]"] by (simp add: trimRight_def)

lemma wirePath_same:
  assumes "CHR ''#'' \<notin> set s" "CHR ''?'' \<notin> set s" "s \<noteq> []" "last s \<noteq> CHR ''/''"
  shows "wirePath s = s"
  using assms by (simp add: wirePath_def SplitURI_path beforeChar_same trimRight_same)

lemma joinWith_last: "ps \<noteq> [] \<Longrightarrow> joinWith sep (butlast ps @ [last ps @ w]) = joinWith sep ps @ w"
proof (induction ps)
  case (Cons p ps)
  show ?case
  proof (cases ps)
    case Nil
    then show ?thesis by simp
  next
    case (Cons q qs)
    then obtain x xs where x: "butlast ps @ [last ps @ w] = x # xs" by (cases "butlast ps @ [last ps @ w]") auto
    have "joinWith sep (x # xs) = joinWith sep ps @ w" using Cons.IH Cons x by simp
    then show ?thesis using Cons x by simp
  qed
qed simp

text \<open>An expression that ends a template without a slash before it leaves no trace in the skeleton. When the
  skeleton ends with the name of the resource, every value of that expression other than the empty one renders
  a path whose resource is that name followed by the value: the dep edge and the read set are taken for a
  resource the call does not read.\<close>

theorem trailing_expression_unseen:
  assumes "plainTemplate t" "ParseAPIServerListDepSkeleton (templateText t) = Some ((g, v, r), ns)"
    and "rs_Name (ReadSetSkeleton (templateText t)) = nameAbsent" "CHR ''?'' \<notin> set (templateSkeleton t)"
    and "pt_endValue t \<noteq> []" "set (pt_endValue t) \<inter> {CHR ''/'', CHR ''?'', CHR ''#''} = {}"
    and "\<not> containsSub ''${'' (renderedPath t)"
  shows "rs_GVR (ReadSetSkeleton (templateText t)) = (g, v, r) \<and>
    ParseAPIServerPathToDep (renderedPath t) = Some ((g, v, r @ pt_endValue t), ns, [])"
proof -
  let ?w = "pt_endValue t"
  obtain pre ps path q where f: "coordForm pre ps (g, v, r) ns" "\<forall>p\<in>set ps. \<not> templated p" "\<forall>p\<in>set ps. CHR ''/'' \<notin> set p"
      "templateSkeleton t = (pre @ joinWith ''/'' ps) @ (path @ q)" "templateSkeleton t \<noteq> []"
      "path = [] \<or> hd path = CHR ''/''" "q = [] \<or> hd q = CHR ''?''"
      "beforeChar CHR ''?'' (templateSkeleton t) = (pre @ joinWith ''/'' ps) @ path"
    by (rule skeleton_split [OF assms(1,2)])
  obtain k where k: "ReadSetSkeleton (templateText t) = coordAt (g, v, r) (Some ns) k" "path \<noteq> [] \<longrightarrow> IsSingleObject k"
    using skeleton_read [OF assms(1) f(1-3,5,6,8)] by blast
  have "k = nameAbsent" using k(1) assms(3) by (simp add: coordAt_def)
  then have "path = []" using k(2) by (auto simp: IsSingleObject_def)
  moreover have "q = []" using f(4,7) assms(4) by (cases q) auto
  ultimately have skel: "templateSkeleton t = pre @ joinWith ''/'' ps" using f(4) by simp
  define R where "R = concat (map (\<lambda>(e, v, l). skeletonSentinel @ l) (pt_rest t))"
  have R: "R = [] \<or> (\<exists>R1. R = skeletonSentinel @ R1)" unfolding R_def by (cases "pt_rest t") auto
  obtain us where us: "pt_first t = (pre @ joinWith ''/'' ps) @ us" "us @ R = []"
    using static_prefix [OF form_words [OF f(1)] f(2) _ _ R, of "pt_first t" "[]"] skel
    by (auto simp: templateSkeleton_def R_def)
  then have rest: "pt_rest t = []" by (cases "pt_rest t") (auto simp: R_def skeletonSentinel_def)
  have path: "renderedPath t = pre @ joinWith ''/'' (butlast ps @ [last ps @ ?w])"
    using us rest joinWith_last [OF form_words(2) [OF f(1)]] by (simp add: renderedPath_def)
  have "set (renderedPath t) = set (pt_first t) \<union> set ?w" using rest by (simp add: renderedPath_def)
  then have "CHR ''#'' \<notin> set (renderedPath t)" "CHR ''?'' \<notin> set (renderedPath t)"
    using assms(1,4,6) us skel by (auto simp: plainTemplate_def plainLit_def)
  moreover have "renderedPath t \<noteq> []" "last (renderedPath t) \<noteq> CHR ''/''"
    using assms(5,6) last_in_set [OF assms(5)] rest by (auto simp: renderedPath_def simp del: last_in_set)
  ultimately have wire: "wirePath (renderedPath t) = pre @ joinWith ''/'' (butlast ps @ [last ps @ ?w])"
    using wirePath_same path by metis
  have "splitOn CHR ''/'' (joinWith ''/'' (butlast ps @ [last ps @ ?w])) = butlast ps @ [last ps @ ?w]"
    using f(3) assms(6) form_words(2) [OF f(1)] by (intro split_words) (auto dest: in_set_butlastD)
  from word_parsed [OF f(1) wire this] have "ParsePath (renderedPath t) = Some ((g, v, r @ ?w), ns, [])"
    using assms(7) wire path by simp
  then show ?thesis using k(1) by (simp add: coordAt_def ParseAPIServerPathToDep_def)
qed

lemma trailing_expression_unseen_witness:
  "\<exists>t. ParseAPIServerListDepSkeleton (templateText t) = Some ((''apps'', ''v1'', ''deploy''), []) \<and>
     ParseAPIServerPathToDep (renderedPath t) = Some ((''apps'', ''v1'', ''deployments''), [], [])"
proof -
  let ?t = "\<lparr>pt_first = ''/apis/apps/v1/deploy'', pt_rest = [], pt_endExpr = '' + .kind'', pt_endValue = ''ments''\<rparr>"
  have skel: "ParseAPIServerListDepSkeleton (templateText ?t) = Some ((''apps'', ''v1'', ''deploy''), [])" by code_simp
  have "plainTemplate ?t" "rs_Name (ReadSetSkeleton (templateText ?t)) = nameAbsent" "CHR ''?'' \<notin> set (templateSkeleton ?t)"
    "pt_endValue ?t \<noteq> []" "set (pt_endValue ?t) \<inter> {CHR ''/'', CHR ''?'', CHR ''#''} = {}"
    "\<not> containsSub ''${'' (renderedPath ?t)"
    by code_simp+
  from trailing_expression_unseen [OF this(1) skel this(2-6)] skel show ?thesis by auto
qed

text \<open>The skeleton keeps a fragment, which the parser of rendered paths and the apiserver drop.\<close>

lemma fragment_kept_by_skeleton:
  "ParseAPIServerListDepSkeleton ''/api/v1/pods#x'' = Some (([], ''v1'', ''pods#x''), []) \<and>
   ParseAPIServerPathToDep ''/api/v1/pods#x'' = Some (([], ''v1'', ''pods''), [], [])"
  by code_simp

text \<open>C9: A path is at most one of a resource path, a bare group version and a discovery root, so no resource
  read is ever served with the service account's discovery credentials, and both resource parsers read the
  same resource.\<close>

theorem path_classes_disjoint:
  "ParseAPIServerPathToGVR path = map_option fst (ParseAPIServerPathToDep path) \<and>
   (ParseAPIServerPathToDep path = None \<or> ParseAPIServerDiscoveryPath path = None) \<and>
   (ParseAPIServerPathToDep path = None \<or> ParseAPIServerDiscoveryRoot path = None) \<and>
   (ParseAPIServerDiscoveryPath path = None \<or> ParseAPIServerDiscoveryRoot path = None)"
proof -
  have root: "cutPrefix ''/api/'' ''/api'' = None" "cutPrefix ''/apis/'' ''/api'' = None"
    "cutPrefix ''/api/'' ''/apis'' = None" "cutPrefix ''/apis/'' ''/apis'' = None" by code_simp+
  have "ParseAPIServerPathToGVR path = map_option fst (ParseAPIServerPathToDep path)"
    by (simp add: ParseAPIServerPathToGVR_def ParseAPIServerPathToDep_def ParsePath_def Let_def split: option.split)
  moreover have "ParseAPIServerPathToDep path = None \<or> ParseAPIServerDiscoveryPath path = None"
  proof (cases "cutPrefix ''/api/'' (wirePath path)")
    case None
    then show ?thesis
      by (cases "cutPrefix ''/apis/'' (wirePath path)")
        (simp_all add: ParseAPIServerDiscoveryPath_def ParseAPIServerPathToDep_def ParsePath_def Let_def)
  next
    case (Some rest)
    have "cutPrefix ''/apis/'' (wirePath path) = None"
      unfolding iffD1 [OF cutPrefix_Some Some] by (rule other_root)
    then show ?thesis using Some
      by (simp add: ParseAPIServerDiscoveryPath_def ParseAPIServerPathToDep_def ParsePath_def Let_def)
  qed
  moreover have "ParseAPIServerPathToDep path = None \<or> ParseAPIServerDiscoveryRoot path = None"
    by (cases "wirePath path = ''/api''"; cases "wirePath path = ''/apis''")
      (simp_all add: ParseAPIServerDiscoveryRoot_def ParseAPIServerPathToDep_def ParsePath_def Let_def root)
  moreover have "ParseAPIServerDiscoveryPath path = None \<or> ParseAPIServerDiscoveryRoot path = None"
    by (cases "wirePath path = ''/api''"; cases "wirePath path = ''/apis''")
      (simp_all add: ParseAPIServerDiscoveryRoot_def ParseAPIServerDiscoveryPath_def Let_def root)
  ultimately show ?thesis by blast
qed

end
