(* ===== verification/PutGates.thy ===== *)
theory PutGates
  imports ResolvedGuard
begin

text \<open>
  Whether the output of a resolve may be stored (cache/put\_verdict.go) and what the decision rests on: the
  sinks on which the resolve recorded stage errors (cache/stage\_error\_sink.go), definite denials of one
  identity (cache/per\_identity\_forbidden.go), and touches of external endpoints and declared writes
  (cache/external\_touched\_sink.go). A nested resolve has child sinks that forward to the enclosing ones.

  A sink pointer is the list of the sinks its loop visits: the sink and those it forwards to. The int64
  counters count what one resolve records, so they are integers here.
\<close>

section \<open>The sinks\<close>

record StageErrorSink =
  se_count :: int
  se_sample :: "(gostring \<times> gostring) option"

record PerIdentityForbiddenSink =
  pf_stage :: int
  pf_external :: int

record ExternalTouchedSink =
  et_count :: int
  et_thirdParty :: int
  et_declaredWrite :: bool

record sinkHeap =
  stageSinks :: "nat \<Rightarrow> StageErrorSink"
  forbiddenSinks :: "nat \<Rightarrow> PerIdentityForbiddenSink"
  externalSinks :: "nat \<Rightarrow> ExternalTouchedSink"
  nextSink :: nat

record PutGateSinks =
  g_Stage :: "nat list option"
  g_Forbidden :: "nat list option"
  g_External :: "nat list option"

definition atSink :: "('a \<Rightarrow> 'a) \<Rightarrow> nat list option \<Rightarrow> (nat \<Rightarrow> 'a) \<Rightarrow> nat \<Rightarrow> 'a" where
  "atSink f s cells = (case s of None \<Rightarrow> cells | Some chain \<Rightarrow> foldl (\<lambda>c i. c(i := f (c i))) cells chain)"

definition StageBump :: "nat list option \<Rightarrow> gostring \<Rightarrow> gostring \<Rightarrow> sinkHeap \<Rightarrow> sinkHeap" where
  "StageBump s stage err h = h\<lparr>stageSinks := atSink (\<lambda>c. c\<lparr>se_count := se_count c + 1,
     se_sample := (case se_sample c of None \<Rightarrow> Some (stage, err) | Some x \<Rightarrow> Some x)\<rparr>) s (stageSinks h)\<rparr>"

definition BumpStage :: "nat list option \<Rightarrow> sinkHeap \<Rightarrow> sinkHeap" where
  "BumpStage s h = h\<lparr>forbiddenSinks := atSink (\<lambda>c. c\<lparr>pf_stage := pf_stage c + 1\<rparr>) s (forbiddenSinks h)\<rparr>"

definition BumpExternal :: "nat list option \<Rightarrow> sinkHeap \<Rightarrow> sinkHeap" where
  "BumpExternal s h = h\<lparr>forbiddenSinks := atSink (\<lambda>c. c\<lparr>pf_external := pf_external c + 1\<rparr>) s (forbiddenSinks h)\<rparr>"

definition ExternalBump :: "nat list option \<Rightarrow> sinkHeap \<Rightarrow> sinkHeap" where
  "ExternalBump s h = h\<lparr>externalSinks := atSink (\<lambda>c. c\<lparr>et_count := et_count c + 1\<rparr>) s (externalSinks h)\<rparr>"

definition BumpThirdParty :: "nat list option \<Rightarrow> sinkHeap \<Rightarrow> sinkHeap" where
  "BumpThirdParty s h = h\<lparr>externalSinks :=
     atSink (\<lambda>c. c\<lparr>et_count := et_count c + 1, et_thirdParty := et_thirdParty c + 1\<rparr>) s (externalSinks h)\<rparr>"

definition MarkDeclaredWrite :: "nat list option \<Rightarrow> sinkHeap \<Rightarrow> sinkHeap" where
  "MarkDeclaredWrite s h = h\<lparr>externalSinks := atSink (\<lambda>c. c\<lparr>et_declaredWrite := True\<rparr>) s (externalSinks h)\<rparr>"

definition readSink :: "('a \<Rightarrow> 'b) \<Rightarrow> 'b \<Rightarrow> nat list option \<Rightarrow> (nat \<Rightarrow> 'a) \<Rightarrow> 'b" where
  "readSink f nil s cells = (case s of Some (i # _) \<Rightarrow> f (cells i) | _ \<Rightarrow> nil)"

definition stageCount :: "nat list option \<Rightarrow> sinkHeap \<Rightarrow> int" where
  "stageCount s h = readSink se_count 0 s (stageSinks h)"

definition forbiddenStage :: "nat list option \<Rightarrow> sinkHeap \<Rightarrow> int" where
  "forbiddenStage s h = readSink pf_stage 0 s (forbiddenSinks h)"

definition forbiddenExternal :: "nat list option \<Rightarrow> sinkHeap \<Rightarrow> int" where
  "forbiddenExternal s h = readSink pf_external 0 s (forbiddenSinks h)"

definition externalCount :: "nat list option \<Rightarrow> sinkHeap \<Rightarrow> int" where
  "externalCount s h = readSink et_count 0 s (externalSinks h)"

definition OnlyThirdParty :: "nat list option \<Rightarrow> sinkHeap \<Rightarrow> bool" where
  "OnlyThirdParty s h = readSink (\<lambda>c. et_count c > 0 \<and> et_thirdParty c = et_count c) False s (externalSinks h)"

definition DeclaredWrite :: "nat list option \<Rightarrow> sinkHeap \<Rightarrow> bool" where
  "DeclaredWrite s h = readSink et_declaredWrite False s (externalSinks h)"

definition newSinks :: "(nat \<Rightarrow> nat list option \<Rightarrow> nat list option) \<Rightarrow> PutGateSinks \<Rightarrow> sinkHeap \<Rightarrow> PutGateSinks \<times> sinkHeap" where
  "newSinks link g h =
     (\<lparr>g_Stage = link (nextSink h) (g_Stage g), g_Forbidden = link (nextSink h) (g_Forbidden g),
       g_External = link (nextSink h) (g_External g)\<rparr>,
      \<lparr>stageSinks = (stageSinks h)(nextSink h := \<lparr>se_count = 0, se_sample = None\<rparr>),
       forbiddenSinks = (forbiddenSinks h)(nextSink h := \<lparr>pf_stage = 0, pf_external = 0\<rparr>),
       externalSinks = (externalSinks h)(nextSink h := \<lparr>et_count = 0, et_thirdParty = 0, et_declaredWrite = False\<rparr>),
       nextSink = Suc (nextSink h)\<rparr>)"

text \<open>The three sinks a resolve entry installs: \<open>WithStageErrorSink\<close>, \<open>WithPerIdentityForbiddenSink\<close> and
  \<open>WithExternalTouchedSink\<close>, which forward to nothing.\<close>

definition WithPutGateSinks :: "PutGateSinks \<Rightarrow> sinkHeap \<Rightarrow> PutGateSinks \<times> sinkHeap" where
  "WithPutGateSinks = newSinks (\<lambda>i _. Some [i])"

definition WithChildPutGateSinks :: "PutGateSinks \<Rightarrow> sinkHeap \<Rightarrow> PutGateSinks \<times> sinkHeap" where
  "WithChildPutGateSinks = newSinks (\<lambda>i parent. Some (i # (case parent of None \<Rightarrow> [] | Some chain \<Rightarrow> chain)))"

section \<open>The verdict\<close>

datatype PutDecision = putUndecided | PutStore | PutDeclineTransient | PutDeclinePermanent

datatype PutReason = PutReasonNone | PutReasonDeclaredWrite | PutReasonStageError | PutReasonExternal | PutReasonUnobserved

record PutVerdict =
  v_decision :: PutDecision
  v_reason :: PutReason
  v_denialOnly :: bool
  v_externalTTL :: bool
  v_thirdPartyOnly :: bool

definition verdictOf0 :: "PutDecision \<Rightarrow> PutReason \<Rightarrow> PutVerdict" where
  "verdictOf0 d r = \<lparr>v_decision = d, v_reason = r, v_denialOnly = False, v_externalTTL = False, v_thirdPartyOnly = False\<rparr>"

definition VerdictStore :: "PutVerdict \<Rightarrow> bool" where "VerdictStore v \<longleftrightarrow> v_decision v = PutStore"

definition Permanent :: "PutVerdict \<Rightarrow> bool" where "Permanent v \<longleftrightarrow> v_decision v = PutDeclinePermanent"

definition GenuineExternal :: "nat list option \<Rightarrow> nat list option \<Rightarrow> sinkHeap \<Rightarrow> int" where
  "GenuineExternal ext f h = (let n = externalCount ext h - forbiddenExternal f h in if n < 0 then 0 else n)"

definition DenialOnly :: "nat list option \<Rightarrow> nat list option \<Rightarrow> nat list option \<Rightarrow> gostring \<Rightarrow> sinkHeap \<Rightarrow> bool" where
  "DenialOnly stage f ext class h \<longleftrightarrow> (let n = stageCount stage h in
     n > 0 \<and> n = forbiddenStage f h \<and> GenuineExternal ext f h = 0 \<and> \<not> IsIdentityFreeClass class)"

definition PutGateVerdict :: "PutGateSinks \<Rightarrow> gostring \<Rightarrow> sinkHeap \<Rightarrow> PutVerdict" where
  "PutGateVerdict g class h =
     (if g_Stage g = None \<or> g_Forbidden g = None \<or> g_External g = None then verdictOf0 putUndecided PutReasonUnobserved
      else let ext = GenuineExternal (g_External g) (g_Forbidden g) h in
        if DeclaredWrite (g_External g) h then verdictOf0 PutDeclinePermanent PutReasonDeclaredWrite
        else if stageCount (g_Stage g) h > 0 \<and> \<not> DenialOnly (g_Stage g) (g_Forbidden g) (g_External g) class h
          then verdictOf0 (if ext > 0 then PutDeclinePermanent else PutDeclineTransient) PutReasonStageError
        else if ext > 0
          then (verdictOf0 PutDeclinePermanent PutReasonExternal)\<lparr>v_thirdPartyOnly := OnlyThirdParty (g_External g) h\<rparr>
        else (verdictOf0 PutStore PutReasonNone)\<lparr>v_denialOnly := stageCount (g_Stage g) h > 0\<rparr>)"

definition WithExternalTTL :: "bool \<Rightarrow> PutVerdict \<Rightarrow> PutVerdict" where
  "WithExternalTTL optedIn v =
     (if optedIn \<and> v_reason v = PutReasonExternal \<and> v_decision v = PutDeclinePermanent \<and> v_thirdPartyOnly v
      then (verdictOf0 PutStore PutReasonExternal)\<lparr>v_externalTTL := True\<rparr> else v)"

section \<open>Resolves\<close>

text \<open>What a resolve records. An entry installs its sinks, a nested resolve child sinks, and an event is
  recorded through the sinks of the innermost resolve; each resolve has a number, and \<open>gr_up\<close> says, beside
  the code, which resolves it runs beneath, itself the first.\<close>

datatype gateEvent = StageErrored gostring gostring | DefiniteDenial | DenialWasDialled | Touched | TouchedThirdParty | WriteDeclared

datatype gateOp = Enter | Nest nat | Happens nat gateEvent

record gateRun =
  gr_heap :: sinkHeap
  gr_sinks :: "PutGateSinks list"
  gr_up :: "nat list list"
  gr_log :: "(nat \<times> gateEvent) list"

definition noSinks :: PutGateSinks where
  "noSinks = \<lparr>g_Stage = None, g_Forbidden = None, g_External = None\<rparr>"

definition recordEvent :: "PutGateSinks \<Rightarrow> gateEvent \<Rightarrow> sinkHeap \<Rightarrow> sinkHeap" where
  "recordEvent g e = (case e of StageErrored stage err \<Rightarrow> StageBump (g_Stage g) stage err
     | DefiniteDenial \<Rightarrow> BumpStage (g_Forbidden g) | DenialWasDialled \<Rightarrow> BumpExternal (g_Forbidden g)
     | Touched \<Rightarrow> ExternalBump (g_External g) | TouchedThirdParty \<Rightarrow> BumpThirdParty (g_External g)
     | WriteDeclared \<Rightarrow> MarkDeclaredWrite (g_External g))"

definition addResolve :: "PutGateSinks \<times> sinkHeap \<Rightarrow> nat list \<Rightarrow> gateRun \<Rightarrow> gateRun" where
  "addResolve gh up r = r\<lparr>gr_heap := snd gh, gr_sinks := gr_sinks r @ [fst gh], gr_up := gr_up r @ [length (gr_sinks r) # up]\<rparr>"

definition gateStep :: "gateRun \<Rightarrow> gateOp \<Rightarrow> gateRun" where
  "gateStep r op = (case op of
       Enter \<Rightarrow> addResolve (WithPutGateSinks noSinks (gr_heap r)) [] r
     | Nest i \<Rightarrow> if i < length (gr_sinks r) then addResolve (WithChildPutGateSinks (gr_sinks r ! i) (gr_heap r)) (gr_up r ! i) r else r
     | Happens i e \<Rightarrow> if i < length (gr_sinks r)
         then r\<lparr>gr_heap := recordEvent (gr_sinks r ! i) e (gr_heap r), gr_log := gr_log r @ [(i, e)]\<rparr> else r)"

definition gateStart :: gateRun where
  "gateStart = \<lparr>gr_heap = \<lparr>stageSinks = (\<lambda>_. \<lparr>se_count = 0, se_sample = None\<rparr>), forbiddenSinks = (\<lambda>_. \<lparr>pf_stage = 0, pf_external = 0\<rparr>),
     externalSinks = (\<lambda>_. \<lparr>et_count = 0, et_thirdParty = 0, et_declaredWrite = False\<rparr>), nextSink = 0\<rparr>,
     gr_sinks = [], gr_up = [], gr_log = []\<rparr>"

definition gateRuns :: "gateOp list \<Rightarrow> gateRun" where
  "gateRuns ops = foldl gateStep gateStart ops"

text \<open>What happened in a resolve or beneath it.\<close>

definition beneath :: "gateRun \<Rightarrow> nat \<Rightarrow> gateEvent list" where
  "beneath r i = map snd (filter (\<lambda>(j, e). i \<in> set (gr_up r ! j)) (gr_log r))"

definition howMany :: "(gateEvent \<Rightarrow> bool) \<Rightarrow> gateEvent list \<Rightarrow> int" where
  "howMany P evs = int (length (filter P evs))"

definition isStageError :: "gateEvent \<Rightarrow> bool" where "isStageError e \<longleftrightarrow> (case e of StageErrored _ _ \<Rightarrow> True | _ \<Rightarrow> False)"

definition isTouch :: "gateEvent \<Rightarrow> bool" where "isTouch e \<longleftrightarrow> e = Touched \<or> e = TouchedThirdParty"

text \<open>The verdict as a function of what happened.\<close>

definition verdictFor :: "gateEvent list \<Rightarrow> gostring \<Rightarrow> PutVerdict" where
  "verdictFor evs class =
     (let errors = howMany isStageError evs; denials = howMany (\<lambda>e. e = DefiniteDenial) evs; touches = howMany isTouch evs;
          genuine = max 0 (touches - howMany (\<lambda>e. e = DenialWasDialled) evs)
      in if WriteDeclared \<in> set evs then verdictOf0 PutDeclinePermanent PutReasonDeclaredWrite
         else if errors > 0 \<and> (errors \<noteq> denials \<or> genuine > 0 \<or> IsIdentityFreeClass class)
           then verdictOf0 (if genuine > 0 then PutDeclinePermanent else PutDeclineTransient) PutReasonStageError
         else if genuine > 0
           then (verdictOf0 PutDeclinePermanent PutReasonExternal)\<lparr>v_thirdPartyOnly := (Touched \<notin> set evs)\<rparr>
         else (verdictOf0 PutStore PutReasonNone)\<lparr>v_denialOnly := errors > 0\<rparr>)"

section \<open>A verdict sees what happened beneath its resolve\<close>

definition gateInv :: "gateRun \<Rightarrow> bool" where
  "gateInv r \<longleftrightarrow> nextSink (gr_heap r) = length (gr_sinks r) \<and> length (gr_up r) = length (gr_sinks r) \<and>
     (\<forall>(j, e)\<in>set (gr_log r). j < length (gr_sinks r)) \<and>
     (\<forall>i<length (gr_sinks r). gr_sinks r ! i = \<lparr>g_Stage = Some (gr_up r ! i), g_Forbidden = Some (gr_up r ! i), g_External = Some (gr_up r ! i)\<rparr> \<and>
        (\<exists>rest. gr_up r ! i = i # rest) \<and> distinct (gr_up r ! i) \<and> set (gr_up r ! i) \<subseteq> {..i}) \<and>
     (\<forall>i<length (gr_sinks r).
        se_count (stageSinks (gr_heap r) i) = howMany isStageError (beneath r i) \<and>
        pf_stage (forbiddenSinks (gr_heap r) i) = howMany (\<lambda>e. e = DefiniteDenial) (beneath r i) \<and>
        pf_external (forbiddenSinks (gr_heap r) i) = howMany (\<lambda>e. e = DenialWasDialled) (beneath r i) \<and>
        et_count (externalSinks (gr_heap r) i) = howMany isTouch (beneath r i) \<and>
        et_thirdParty (externalSinks (gr_heap r) i) = howMany (\<lambda>e. e = TouchedThirdParty) (beneath r i) \<and>
        et_declaredWrite (externalSinks (gr_heap r) i) = (WriteDeclared \<in> set (beneath r i)))"

lemma atSink_chain: "distinct chain \<Longrightarrow> atSink f (Some chain) cells i = (if i \<in> set chain then f (cells i) else cells i)"
proof (induction chain arbitrary: cells)
  case (Cons j chain)
  then show ?case by (simp add: atSink_def)
qed (simp add: atSink_def)

lemma howMany_simps [simp]:
  "howMany P [] = 0" "howMany P (xs @ [e]) = howMany P xs + (if P e then 1 else 0)"
  by (simp_all add: howMany_def)

lemma beneath_add:
  assumes "\<forall>(j, e)\<in>set (gr_log r). j < length (gr_up r)"
  shows "beneath (addResolve gh up r) i = beneath r i"
proof -
  have "filter (\<lambda>(j, e). i \<in> set ((gr_up r @ [x]) ! j)) (gr_log r) = filter (\<lambda>(j, e). i \<in> set (gr_up r ! j)) (gr_log r)" for x
    using assms by (intro filter_cong refl) (auto simp: nth_append)
  then show ?thesis by (simp add: beneath_def addResolve_def)
qed

lemma gateInv_add:
  assumes i: "gateInv r" and gh: "gh = newSinks link g (gr_heap r)"
    and sinks: "fst gh = \<lparr>g_Stage = Some (length (gr_sinks r) # up), g_Forbidden = Some (length (gr_sinks r) # up), g_External = Some (length (gr_sinks r) # up)\<rparr>"
    and up: "distinct up" "set up \<subseteq> {..<length (gr_sinks r)}"
  shows "gateInv (addResolve gh up r)"
proof -
  let ?n = "length (gr_sinks r)"
  have log: "\<forall>(j, e)\<in>set (gr_log r). j < length (gr_up r)" using i by (simp add: gateInv_def)
  have nx: "nextSink (gr_heap r) = ?n" "length (gr_up r) = ?n" using i by (simp_all add: gateInv_def)
  have "beneath r ?n = []"
    using i by (auto simp: beneath_def gateInv_def filter_empty_conv) fastforce
  moreover have "?n \<notin> set up" using up(2) by auto
  moreover have "set up \<subseteq> {..?n}" using up(2) by auto
  ultimately show ?thesis
    using i sinks up(1) nx beneath_add [OF log]
    unfolding gateInv_def
    by (simp add: addResolve_def) (auto simp: gh newSinks_def nth_append less_Suc_eq)
qed

lemma gateInv_record:
  assumes i: "gateInv r" and j: "j < length (gr_sinks r)"
  shows "gateInv (r\<lparr>gr_heap := recordEvent (gr_sinks r ! j) e (gr_heap r), gr_log := gr_log r @ [(j, e)]\<rparr>)"
proof -
  let ?r = "r\<lparr>gr_heap := recordEvent (gr_sinks r ! j) e (gr_heap r), gr_log := gr_log r @ [(j, e)]\<rparr>"
  have b: "beneath ?r k = beneath r k @ (if k \<in> set (gr_up r ! j) then [e] else [])" for k
    by (simp add: beneath_def)
  have s: "gr_sinks r ! j = \<lparr>g_Stage = Some (gr_up r ! j), g_Forbidden = Some (gr_up r ! j), g_External = Some (gr_up r ! j)\<rparr>"
    "distinct (gr_up r ! j)" using i j by (simp_all add: gateInv_def)
  note at = atSink_chain [OF s(2)]
  have c: "nextSink (recordEvent (gr_sinks r ! j) e (gr_heap r)) = nextSink (gr_heap r)"
    by (cases e) (simp_all add: recordEvent_def StageBump_def BumpStage_def BumpExternal_def ExternalBump_def BumpThirdParty_def MarkDeclaredWrite_def)
  show ?thesis
    using i j c unfolding gateInv_def b
    by (cases e) (simp_all add: recordEvent_def s StageBump_def BumpStage_def BumpExternal_def ExternalBump_def BumpThirdParty_def
        MarkDeclaredWrite_def at isStageError_def isTouch_def)
qed

lemma gateInv_runs: "gateInv (gateRuns ops)"
proof -
  have start: "gateInv gateStart" by (simp add: gateInv_def gateStart_def)
  have step: "gateInv (gateStep r op)" if "gateInv r" for r op
  proof (cases op)
    case Enter
    have "nextSink (gr_heap r) = length (gr_sinks r)" using that by (simp add: gateInv_def)
    then show ?thesis using Enter
      by (simp add: gateStep_def) (rule gateInv_add [OF that, where g = noSinks], auto simp: WithPutGateSinks_def newSinks_def)
  next
    case (Nest i)
    show ?thesis
    proof (cases "i < length (gr_sinks r)")
      case True
      have up: "distinct (gr_up r ! i)" "set (gr_up r ! i) \<subseteq> {..<length (gr_sinks r)}"
        using that True unfolding gateInv_def by (blast, fastforce)
      have "fst (WithChildPutGateSinks (gr_sinks r ! i) (gr_heap r)) = \<lparr>g_Stage = Some (length (gr_sinks r) # gr_up r ! i),
          g_Forbidden = Some (length (gr_sinks r) # gr_up r ! i), g_External = Some (length (gr_sinks r) # gr_up r ! i)\<rparr>"
        using that True by (simp add: gateInv_def WithChildPutGateSinks_def newSinks_def)
      from gateInv_add [OF that WithChildPutGateSinks_def [THEN fun_cong, THEN fun_cong] this up] show ?thesis
        using Nest True by (simp add: gateStep_def)
    qed (use that Nest in \<open>simp add: gateStep_def\<close>)
  next
    case (Happens j e)
    then show ?thesis using that gateInv_record [OF that] by (simp add: gateStep_def)
  qed
  have "gateInv r \<Longrightarrow> gateInv (foldl gateStep r ops)" for r
    by (induction ops arbitrary: r) (simp_all add: step)
  then show ?thesis using start by (simp add: gateRuns_def)
qed

lemma third_of_touches:
  "howMany isTouch evs = howMany (\<lambda>e. e = TouchedThirdParty) evs + howMany (\<lambda>e. e = Touched) evs"
  by (induction evs) (auto simp: howMany_def isTouch_def)

lemma howMany_zero: "howMany (\<lambda>e. e = x) evs = 0 \<longleftrightarrow> x \<notin> set evs"
  by (auto simp: howMany_def filter_empty_conv)

lemma verdict_arms:
  fixes n m G :: int
  assumes "0 \<le> G" "G > 0 \<Longrightarrow> T = T'"
  shows "(if W then a else if n > 0 \<and> \<not> (n > 0 \<and> n = m \<and> G = 0 \<and> \<not> F) then b (G > 0) else if G > 0 then c T else d (n > 0)) =
    (if W then a else if n > 0 \<and> (n \<noteq> m \<or> G > 0 \<or> F) then b (G > 0) else if G > 0 then c T' else d (n > 0))"
proof (cases "G = 0")
  case True
  then show ?thesis by (cases F; cases "n = m"; cases "n > 0") simp_all
next
  case False
  then have "G > 0" "T = T'" using assms by simp_all
  then show ?thesis by (simp add: False)
qed

lemma verdict_beneath:
  assumes "i < length (gr_sinks (gateRuns ops))"
  shows "PutGateVerdict (gr_sinks (gateRuns ops) ! i) class (gr_heap (gateRuns ops)) = verdictFor (beneath (gateRuns ops) i) class"
proof -
  let ?r = "gateRuns ops" and ?h = "gr_heap (gateRuns ops)"
  let ?evs = "beneath ?r i"
  obtain rest where g: "gr_sinks ?r ! i = \<lparr>g_Stage = Some (i # rest), g_Forbidden = Some (i # rest), g_External = Some (i # rest)\<rparr>"
    using gateInv_runs [of ops] assms unfolding gateInv_def by metis
  let ?s = "Some (i # rest)"
  have c: "stageCount ?s ?h = howMany isStageError ?evs" "forbiddenStage ?s ?h = howMany (\<lambda>e. e = DefiniteDenial) ?evs"
    "forbiddenExternal ?s ?h = howMany (\<lambda>e. e = DenialWasDialled) ?evs" "externalCount ?s ?h = howMany isTouch ?evs"
    "DeclaredWrite ?s ?h = (WriteDeclared \<in> set ?evs)"
    "OnlyThirdParty ?s ?h = (howMany isTouch ?evs > 0 \<and> howMany (\<lambda>e. e = TouchedThirdParty) ?evs = howMany isTouch ?evs)"
    using gateInv_runs [of ops] assms
    by (simp_all add: gateInv_def stageCount_def forbiddenStage_def forbiddenExternal_def externalCount_def DeclaredWrite_def
        OnlyThirdParty_def readSink_def)
  have genuine: "GenuineExternal ?s ?s ?h = max 0 (howMany isTouch ?evs - howMany (\<lambda>e. e = DenialWasDialled) ?evs)"
    by (simp add: GenuineExternal_def Let_def c max_def)
  have third: "OnlyThirdParty ?s ?h = (Touched \<notin> set ?evs)" if "GenuineExternal ?s ?s ?h > 0"
  proof -
    have "howMany (\<lambda>e. e = DenialWasDialled) ?evs \<ge> 0" by (simp add: howMany_def)
    then have "howMany isTouch ?evs > 0" using that by (simp add: genuine)
    then show ?thesis using third_of_touches [of ?evs] howMany_zero [of Touched ?evs] by (simp add: c(6))
  qed
  have "DenialOnly ?s ?s ?s class ?h \<longleftrightarrow> howMany isStageError ?evs > 0 \<and> howMany isStageError ?evs = howMany (\<lambda>e. e = DefiniteDenial) ?evs \<and>
      GenuineExternal ?s ?s ?h = 0 \<and> \<not> IsIdentityFreeClass class" by (simp add: DenialOnly_def Let_def c)
  note denial = this
  have pos: "GenuineExternal ?s ?s ?h \<ge> 0" by (simp add: genuine)
  show ?thesis
    unfolding PutGateVerdict_def verdictFor_def g PutGateSinks.select_convs option.distinct simp_thms if_False Let_def
      c(1,5) genuine [symmetric] denial
    using verdict_arms [OF pos third, where a = "verdictOf0 PutDeclinePermanent PutReasonDeclaredWrite" and
        b = "\<lambda>p. verdictOf0 (if p then PutDeclinePermanent else PutDeclineTransient) PutReasonStageError" and
        c = "\<lambda>t. (verdictOf0 PutDeclinePermanent PutReasonExternal)\<lparr>v_thirdPartyOnly := t\<rparr>" and
        d = "\<lambda>p. (verdictOf0 PutStore PutReasonNone)\<lparr>v_denialOnly := p\<rparr>"]
    by (simp only: option.distinct simp_thms if_False)
qed

text \<open>C11: The verdict on a resolve is a function of what happened in it and beneath it alone: no event of an
  enclosing or of an unrelated resolve reaches it, and no event of a nested one escapes it.\<close>

theorem put_verdict_sees_beneath:
  assumes "i < length (gr_sinks (gateRuns ops))"
  shows "PutGateVerdict (gr_sinks (gateRuns ops) ! i) class (gr_heap (gateRuns ops)) = verdictFor (beneath (gateRuns ops) i) class"
  using assms by (rule verdict_beneath)

text \<open>The writes of a resolve output, as functions of the verdict's \<open>Store()\<close>.\<close>

definition gatedWrites :: "resolveCtx \<Rightarrow> gostring \<Rightarrow> ResolvedEntry \<Rightarrow> 64 word \<Rightarrow> (bool \<Rightarrow> store \<Rightarrow> bool \<times> store) list" where
  "gatedWrites ctx key e gen =
     [\<lambda>v. PutResolved v key e, \<lambda>v. PutResolvedIfGen ctx v key e gen, \<lambda>v. PutResolvedThenRemark ctx v key e,
      \<lambda>v. PutResolvedEndingKnownStale ctx v key e, \<lambda>v. ReplaceResolvedIfGen ctx v key e gen,
      \<lambda>v. ReplaceResolvedIfGenRefresh ctx v key e gen]"

lemma gated_refuses: "w \<in> set (gatedWrites ctx key e gen) \<Longrightarrow> w False s = (False, s)"
  by (auto simp: gatedWrites_def PutResolved_def PutResolvedIfGen_def PutResolvedThenRemark_def
      PutResolvedEndingKnownStale_def ReplaceResolvedIfGen_def ReplaceResolvedIfGenRefresh_def)

lemma admissible_store:
  assumes "VerdictStore (WithExternalTTL optedIn (verdictFor evs class))"
  shows "WriteDeclared \<notin> set evs" "howMany isStageError evs = 0 \<or>
      howMany isStageError evs = howMany (\<lambda>e. e = DefiniteDenial) evs \<and> \<not> IsIdentityFreeClass class"
    "howMany isTouch evs \<le> howMany (\<lambda>e. e = DenialWasDialled) evs \<or> optedIn \<and> Touched \<notin> set evs"
proof -
  define n where "n = howMany isStageError evs"
  have n: "n \<ge> 0" by (simp add: n_def howMany_def)
  note defs = VerdictStore_def WithExternalTTL_def verdictFor_def verdictOf0_def Let_def n_def [symmetric]
  show w: "WriteDeclared \<notin> set evs" using assms by (auto simp: defs)
  show "howMany isStageError evs = 0 \<or>
      howMany isStageError evs = howMany (\<lambda>e. e = DefiniteDenial) evs \<and> \<not> IsIdentityFreeClass class"
    unfolding n_def [symmetric]
  proof (rule ccontr)
    assume a: "\<not> (n = 0 \<or> n = howMany (\<lambda>e. e = DefiniteDenial) evs \<and> \<not> IsIdentityFreeClass class)"
    then have "n > 0" "n \<noteq> howMany (\<lambda>e. e = DefiniteDenial) evs \<or> IsIdentityFreeClass class" using n by auto
    then show False using assms w by (simp add: defs split: if_splits)
  qed
  show "howMany isTouch evs \<le> howMany (\<lambda>e. e = DenialWasDialled) evs \<or> optedIn \<and> Touched \<notin> set evs"
  proof (rule ccontr)
    assume a: "\<not> (howMany isTouch evs \<le> howMany (\<lambda>e. e = DenialWasDialled) evs \<or> optedIn \<and> Touched \<notin> set evs)"
    then have "max 0 (howMany isTouch evs - howMany (\<lambda>e. e = DenialWasDialled) evs) > 0" "\<not> (optedIn \<and> Touched \<notin> set evs)" by auto
    then show False using assms w by (simp add: defs split: if_splits)
  qed
qed

text \<open>C10: A gated write changes the store only where the resolve and what it nested declared no write, recorded as
  errors only definite denials and then for a cell of one identity, and touched an endpoint beyond the denied
  dials only under the opt-in to a bounded lifetime and with no credential of the requester.\<close>

theorem stored_body_is_admissible:
  assumes "i < length (gr_sinks (gateRuns ops))" "w \<in> set (gatedWrites ctx key e gen)"
    and "verdict = WithExternalTTL optedIn (PutGateVerdict (gr_sinks (gateRuns ops) ! i) class (gr_heap (gateRuns ops)))"
    and "w (VerdictStore verdict) s = (stored, s')" "s' \<noteq> s"
  shows "let evs = beneath (gateRuns ops) i in WriteDeclared \<notin> set evs \<and>
    (howMany isStageError evs = 0 \<or>
     howMany isStageError evs = howMany (\<lambda>e. e = DefiniteDenial) evs \<and> \<not> IsIdentityFreeClass class) \<and>
    (howMany isTouch evs \<le> howMany (\<lambda>e. e = DenialWasDialled) evs \<or> optedIn \<and> Touched \<notin> set evs)"
proof -
  have "VerdictStore verdict" using gated_refuses [OF assms(2), of s] assms(4,5) by (cases "VerdictStore verdict") auto
  then have "VerdictStore (WithExternalTTL optedIn (verdictFor (beneath (gateRuns ops) i) class))"
    unfolding assms(3) verdict_beneath [OF assms(1)] .
  then show ?thesis unfolding Let_def by (intro conjI admissible_store)
qed

lemma put_verdict_sees_beneath_witness:
  "v_denialOnly (PutGateVerdict (gr_sinks (gateRuns [Enter, Nest 0, Happens 0 (StageErrored ''a'' ''x''), Happens 1 (StageErrored ''b'' ''y''),
      Happens 1 DefiniteDenial]) ! 1) ''restactions''
     (gr_heap (gateRuns [Enter, Nest 0, Happens 0 (StageErrored ''a'' ''x''), Happens 1 (StageErrored ''b'' ''y''), Happens 1 DefiniteDenial])))"
proof -
  let ?ops = "[Enter, Nest 0, Happens 0 (StageErrored ''a'' ''x''), Happens 1 (StageErrored ''b'' ''y''), Happens 1 DefiniteDenial]"
  have "1 < length (gr_sinks (gateRuns ?ops))" "v_denialOnly (verdictFor (beneath (gateRuns ?ops) 1) ''restactions'')"
    by code_simp+
  then show ?thesis by (simp only: put_verdict_sees_beneath)
qed

definition exTouched :: "gateOp list" where "exTouched = [Enter, Happens 0 TouchedThirdParty]"

lemma stored_body_is_admissible_witness:
  "let evs = beneath (gateRuns exTouched) 0 in WriteDeclared \<notin> set evs \<and> Touched \<notin> set evs"
proof -
  let ?v = "WithExternalTTL True (PutGateVerdict (gr_sinks (gateRuns exTouched) ! 0) ''widgets'' (gr_heap (gateRuns exTouched)))"
  have r: "0 < length (gr_sinks (gateRuns exTouched))" "VerdictStore ?v"
    "\<not> howMany isTouch (beneath (gateRuns exTouched) 0) \<le> howMany (\<lambda>e. e = DenialWasDialled) (beneath (gateRuns exTouched) 0)"
    by code_simp+
  have b: "0 \<le> pr_bytes (exWrite 1 ''v1'')" "1 \<le> maxEntries exConfigured" "pr_bytes (exWrite 1 ''v1'') \<le> maxBytes exConfigured"
    by (simp_all add: exConfigured_fields)
  have w: "(\<lambda>v. PutResolved v ''k'' (exEntry 1 ''v1'')) \<in> set (gatedWrites backgroundCtx ''k'' (exEntry 1 ''v1'') 0)"
    by (simp add: gatedWrites_def)
  let ?s = "put ''k'' (exEntry 1 ''v1'') exConfigured"
  have "?s = commitPlain backgroundCtx False ''k'' (exWrite 1 ''v1'') exConfigured"
    by (simp add: put_def putPlain_def exWrite_def backgroundCtx_def)
  then have "st_index ?s ''k'' \<noteq> None"
    using commitPlain_gen(1) [OF exConfigured_sound b, of backgroundCtx False "''k''"] by auto
  then have "?s \<noteq> exConfigured" using exConfigured_fields(3) by auto
  moreover have "PutResolved (VerdictStore ?v) ''k'' (exEntry 1 ''v1'') exConfigured = (True, ?s)"
    using r(2) by (simp add: PutResolved_def)
  ultimately show ?thesis using stored_body_is_admissible [OF r(1) w refl] r(3) unfolding Let_def by blast
qed

end
