(* ===== verification/Spec2Isabelle.thy ===== *)
theory Spec2Isabelle
  imports RBACMemoRuns RBACRebuild RBACDeltaCorrect WidgetExtras RASlice ResolvedGuard ResolvedReaper DepEvents DepRace DepStamp DepReconcile RefreshCorrect PathParse PutGates
begin

text \<open>
  Snowplow resolves Kubernetes resources (RESTActions and widgets) into JSON and keeps the resolved bodies in
  memory. This development models the core of that cache: who may read what, under which key a body is shared,
  when it may be stored, how the store keeps its bounds, and how a change in the cluster reaches every body
  that depends on it. Paths below are relative to go/snowplow/internal.

  \<^bold>\<open>How the parts interact.\<close> Informers deliver RBAC objects to a snapshot, which the evaluator answers requests from
  and the binding index follows; both rotate the generation of a subject whose access changed, and the generation
  is part of every key that is bound to an identity. A dispatcher mints the key of a request, reads the store, and on a miss resolves and
  writes through the gates. While it resolves, the dependency tracker records what it reads. An event on an
  object goes through the bridge's work queue to the tracker, which evicts the cells that represent a deleted
  object and marks the others; a mark opens the window of the cell and queues it with the refresher, whose
  workers resolve it again and write through the same gates. An audit looks for deletions the bridge missed, and
  a maintenance pass reaps old cells.

  \<^bold>\<open>Theories and sources.\<close>
  \<^item> \<open>Prelude\<close>, \<open>GoStdlib\<close>: Go strings, maps and slices; the parts of strconv, encoding/hex and encoding/json the
    keys need.
  \<^item> \<open>RBACTypes\<close>, \<open>RBACMatch\<close>, \<open>RBACIndex\<close>, \<open>RBACEvaluate\<close>, \<open>RBACCorrect\<close>: the data, the matchers, the snapshot and its
    subject indexes, and the evaluator (rbac/evaluate.go, rbac/object\_check.go, cache/rbac\_snapshot.go). The
    verdict is the linear scan's over all bindings, and every permit names a binding that grants.
  \<^item> \<open>GenerationMemo\<close>, \<open>RBACMemo\<close>, \<open>RBACMemoRuns\<close>: the memo of verdicts (rbac/snapshot\_authz\_memo.go,
    rbac/groups\_hash.go), and requests and publishes interleaved. \<open>RBACProfile\<close>: the collected rules of a requester
    (rbac/profile.go, rbac/granted\_atoms.go). \<open>RBACDigest\<close>: the binding set that makes the identity part of a
    key (rbac/subject\_binding\_set.go).
  \<^item> \<open>RBACSubGen\<close>, \<open>RBACRebuild\<close>: the per-subject generations (cache/rbac\_subgen.go) and the asynchronous writer of
    snapshots (cache/rbac\_snapshot.go, cache/rbac\_subgen\_pending.go), step by step with panics.
  \<^item> \<open>RBACRulesEqual\<close>, \<open>RBACBindings\<close>, \<open>RBACDelta\<close>, \<open>RBACDeltaCorrect\<close>: when an update rotates nobody, the index from
    resources to bindings, its deltas, and the refinement of the events' own account of them
    (cache/bindings\_by\_gvr.go, cache/bindings\_by\_gvr\_delta.go, cache/rbac\_role\_rules\_equal.go).
  \<^item> \<open>ResolvedKey\<close>, \<open>ResolvedMint\<close>, \<open>WidgetExtras\<close>, \<open>RASlice\<close>: the bytes of a key (cache/resolved.go), the mint sites
    (handlers/dispatchers/helpers.go), the extras of a widget (resolvers/widgets), the page of a full list
    (cache/ra\_full\_list\_slice.go).
  \<^item> \<open>PutGates\<close>: what a resolve records on its sinks and whether its body may be stored (cache/put\_verdict.go and
    the sinks). \<open>PathParse\<close>: call paths and path templates (cache/path\_parse.go, cache/inventory.go, apicall).
  \<^item> \<open>ResolvedStore\<close>, \<open>ResolvedPut\<close>, \<open>ResolvedWf\<close>, \<open>ResolvedSweep\<close>, \<open>ResolvedGuard\<close>, \<open>ResolvedReaper\<close>: the LRU store, its
    writes and reads, its invariant, what the sweep keeps, the generation guard and the maintenance pass
    (cache/resolved.go and its companions).
  \<^item> \<open>DepIndex\<close>, \<open>DepIndexWf\<close>, \<open>DepMoved\<close>, \<open>DepEvents\<close>, \<open>DepRace\<close>, \<open>DepStamp\<close>: the tracker (cache/deps.go) as operations, its
    invariant, the check of an accepted write, the effect of an event on the store, and the same tracker access by
    access.
  \<^item> \<open>WorkQueue\<close>, \<open>DepWatch\<close>, \<open>DepReconcile\<close>: the bridge from informers to tracker (cache/deps\_watch.go) and the audit
    of lost deletions (cache/deps\_reconcile.go).
  \<^item> \<open>DirtyWindow\<close>, \<open>Refresher\<close>, \<open>RefreshRuns\<close>, \<open>RefreshKept\<close>, \<open>RefreshCorrect\<close>: the windows of marked cells
    (cache/dirty\_window.go, cache/known\_stale.go), the tiers and the dequeue (cache/refresher.go,
    cache/refresher\_viewed.go, cache/refresher\_terminal.go), every interleaving of them, and the promise that no
    stale body is forgotten.

  \<^bold>\<open>State and operations.\<close> A Go struct is a record with the struct's fields, an operation a function from record to
  record; a map is a function to options (or an association list, where the code ranges over it), an error a
  constructor of a result type. What a mutex or one atomic access makes indivisible is one operation. Where the
  code takes no lock over the whole, an inductive step relation makes one access (or one stated stretch of
  accesses) per step, and the theorem is about all runs.

  \<^bold>\<open>Interfaces.\<close> The locale \<open>generation_memo\<close> states what the two memo disciplines promise their callers,
  \<open>subject_index\<close> what a selector needs of an index of bindings, \<open>generation_guard\<close> what operations owe the guarded
  write, \<open>reap_one\<close> what a re-check owes the pass; each is interpreted on the model's own definitions
  in the theory that provides them.

  \<^bold>\<open>Parameters.\<close> Library code is an argument. The work queue of client-go comes with \<open>queueLaws\<close>, its documented
  behaviour, and \<open>exQ\<close> satisfies them. The 64-bit group hash comes with \<open>hashFaithful\<close>: no collision among the
  requests considered, without which a memo may answer for another requester. SHA-256, jq, the conversion of
  unstructured objects and plumbing's readers of nested fields are functions with no property, or with the one a theorem names.

  \<^bold>\<open>Bounds.\<close> Counters and sequences that the code compares are 64-bit words; where an order of events is claimed the
  sequence is assumed not to wrap, that is, fewer than 2 to the 64 events. A Go \<open>int\<close> in the paging arithmetic
  is 64-bit and wraps. A stamp loop of \<open>n\<close> contenders ends within \<open>2 * n\<close> accesses of each. A coordinate or a cell
  is put back at most five times by the rate limiter. Loops over lists and batches are structural, so no fuel is used.

  \<^bold>\<open>Simplifications.\<close> They are stated again where they are made.
  \<^item> \<open>DepRace\<close> takes the compare-and-swap loop of a stamp and the range over one bucket as one access; \<open>DepStamp\<close> shows the
    loop ends and leaves the largest stamp, whatever else runs.
  \<^item> \<open>handleDepEvent\<close> has no panic: the worker recovers from one, forgets the coordinate and drops its event, so
    what is shown of the bridge is about runs without panics.
  \<^item> \<open>handleAll\<close> runs the binding handlers one after another; an update releases the index between its deletion and its
    addition, which no other handler is let into here.
  \<^item> \<open>bumpTakenSubGens\<close> does not panic after a batch is marked as flushed.
  \<^item> In a run of the refresher a mark, a dequeue from its read to the window it opens, an accepted write with what it
    notes, and the tail of a dequeue are one step each; \<open>missed_read_swallows_mark\<close> shows what the second hides. The
    writes of the boot carriers, which have no sink, are not part of a run.
  \<^item> Log lines, spans, hold times and gauges that nothing reads back are left out.

  \<^bold>\<open>Not modelled.\<close> The resolvers (stage scheduling around jq and HTTP), the prewarm walks, informer lifecycle and
  store swaps, incremental list cells, retry chains of viewed cells, the broadcaster of live refreshes, discovery, the
  HTTP handlers around the modelled decisions, and metrics: input and output, library-driven, or measurement, except
  store swaps, list cells and retry chains, which are next.

  \<^bold>\<open>What fails.\<close> Some theorems show where the code does not keep a promise of its comments: a generation number
  handed out twice (\<open>ResolvedGuard\<close>), an edge stranded in a pruned bucket (\<open>DepRace\<close>), a revoke that the comparison
  of rule lists hides, and a role and its binding that are not filed (\<open>RBACDeltaCorrect\<close>), client-sent groups in a
  shared cell (\<open>WidgetExtras\<close>), a template read as a static resource (\<open>PathParse\<close>), a mark swallowed by a dequeue that
  read too early (\<open>RefreshCorrect\<close>).
\<close>

end
